(* ===== verification/Prelude.thy ===== *)
theory Prelude
  imports Main "HOL-Library.Word" "HOL-Library.Sublist"
begin

text \<open>
  Shared vocabulary of the development: the machine integer types of the server
  (\<open>uint8\<close>, \<open>uint16\<close>, \<open>uint32\<close>, \<open>uint64\<close> of \<open>Define.h\<close> are words, so that \<open>+\<close> and
  \<open>-\<close> wrap as they do in the code), the collections of rewrite rules that the
  components fill, and generic facts on lists, options and words that more than one
  component needs.
\<close>

unbundle bit_operations_syntax

section \<open>Machine integers\<close>

type_synonym u8 = "8 word"
type_synonym u16 = "16 word"
type_synonym u32 = "32 word"
type_synonym u64 = "64 word"

text \<open>An \<open>ObjectGuid\<close> is compared by its raw 64 bit value; 0 is \<open>ObjectGuid::Empty\<close>.\<close>

type_synonym guid = u64

text \<open>A bit mask test \<open>(x & m) != 0\<close>, the way the code writes it in a condition.\<close>

definition has_bits :: "'a::len word \<Rightarrow> 'a word \<Rightarrow> bool" where
  "has_bits x m \<longleftrightarrow> x AND m \<noteq> 0"

section \<open>Collections of rewrite rules\<close>

named_theorems container_simps \<open>laws of the standard containers\<close>
named_theorems state_defs \<open>definitions of the operations on a component state\<close>
named_theorems frame_simps \<open>fields an operation leaves unchanged\<close>

section \<open>Words\<close>

lemma has_bits_zero [simp]: "\<not> has_bits 0 m" "\<not> has_bits x 0"
  by (simp_all add: has_bits_def)

lemma has_bits_OR_left: "has_bits x m \<Longrightarrow> has_bits (x OR y) m"
proof -
  assume "has_bits x m"
  then have "x AND m \<noteq> 0" by (simp add: has_bits_def)
  then obtain n where "bit (x AND m) n" by (metis bit_eqI bit_0_eq bot_apply bot_bool_def)
  then have "bit ((x OR y) AND m) n" by (simp add: bit_simps)
  then have "(x OR y) AND m \<noteq> 0" by (metis bit_0_eq bot_apply bot_bool_def)
  then show ?thesis by (simp add: has_bits_def)
qed

text \<open>Subtraction of a smaller amount does not wrap; the usual shape of a count that is used up.\<close>

lemma unat_sub_le: "(n :: 'a::len word) \<le> c \<Longrightarrow> unat (c - n) = unat c - unat n"
  by (simp add: unat_sub_if' word_le_nat_alt)

lemma min_word_le: "(if (a::'a::len word) > b then b else a) \<le> b"
  by auto

section \<open>Lists and options\<close>

lemma sorted_wrt_filter: "sorted_wrt P xs \<Longrightarrow> sorted_wrt P (filter Q xs)"
  by (induction xs) auto

lemma foldl_fixed: "(\<And>s x. x \<in> set xs \<Longrightarrow> f s x = s) \<Longrightarrow> foldl f s xs = s"
  by (induction xs) auto

text \<open>An invariant of the body of a loop over a list is an invariant of the loop.\<close>

lemma foldl_invariant:
  assumes "P s" and "\<And>s x. P s \<Longrightarrow> x \<in> set xs \<Longrightarrow> P (f s x)"
  shows "P (foldl f s xs)"
  using assms by (induction xs arbitrary: s) auto

lemma filter_id_of_all: "(\<And>x. x \<in> set xs \<Longrightarrow> P x) \<Longrightarrow> filter P xs = xs"
  by (induction xs) auto

lemma option_option_cases: "x = None \<or> x = Some None \<or> (\<exists>y. x = Some (Some y))"
  by (cases x) auto

lemma find_Some_mem: "find P xs = Some x \<Longrightarrow> x \<in> set xs \<and> P x"
  by (induction xs) (auto split: if_splits)

lemma find_None_all: "find P xs = None \<longleftrightarrow> (\<forall>x \<in> set xs. \<not> P x)"
  by (induction xs) auto

end
