(* ===== verification/StdContainers.thy ===== *)
theory StdContainers
  imports Prelude
begin

text \<open>
  The containers of the C++ standard library the server keeps its state in:
  \<open>std::set\<close>, \<open>std::map\<close> and \<open>std::multimap\<close>, as the ordered sequences an iteration
  from \<open>begin()\<close> to \<open>end()\<close> visits. Each comes with the contract its clients rely on,
  a locale with the laws as assumptions, and with the interpretation that discharges
  the laws.
\<close>

section \<open>std::set\<close>

fun sset_insert :: "'a::linorder \<Rightarrow> 'a list \<Rightarrow> 'a list" where
  "sset_insert x [] = [x]"
| "sset_insert x (y # ys) =
     (if x < y then x # y # ys else if x = y then y # ys else y # sset_insert x ys)"

definition sset_erase :: "'a \<Rightarrow> 'a list \<Rightarrow> 'a list" where
  "sset_erase x xs = filter (\<lambda>y. y \<noteq> x) xs"

definition sset_find :: "'a \<Rightarrow> 'a list \<Rightarrow> bool" where
  "sset_find x xs \<longleftrightarrow> x \<in> set xs"

definition sset_inv :: "'a::linorder list \<Rightarrow> bool" where
  "sset_inv xs \<longleftrightarrow> sorted_wrt (<) xs"

locale std_set_api =
  fixes elems :: "'s \<Rightarrow> 'a set"
    and inv :: "'s \<Rightarrow> bool"
    and ins :: "'a \<Rightarrow> 's \<Rightarrow> 's"
    and ers :: "'a \<Rightarrow> 's \<Rightarrow> 's"
    and fnd :: "'a \<Rightarrow> 's \<Rightarrow> bool"
  assumes elems_ins: "elems (ins x s) = insert x (elems s)"
    and elems_ers: "elems (ers x s) = elems s - {x}"
    and fnd_elems: "fnd x s \<longleftrightarrow> x \<in> elems s"
    and inv_ins: "inv s \<Longrightarrow> inv (ins x s)"
    and inv_ers: "inv s \<Longrightarrow> inv (ers x s)"
begin

lemma elems_ins_all: "elems (foldl (\<lambda>s x. ins x s) s xs) = elems s \<union> set xs"
  by (induction xs arbitrary: s) (auto simp: elems_ins)

lemma elems_ers_all: "elems (foldl (\<lambda>s x. ers x s) s xs) = elems s - set xs"
  by (induction xs arbitrary: s) (auto simp: elems_ers)

lemma inv_ins_all: "inv s \<Longrightarrow> inv (foldl (\<lambda>s x. ins x s) s xs)"
  by (induction xs arbitrary: s) (auto simp: inv_ins)

lemma inv_ers_all: "inv s \<Longrightarrow> inv (foldl (\<lambda>s x. ers x s) s xs)"
  by (induction xs arbitrary: s) (auto simp: inv_ers)

end

lemma set_sset_insert: "set (sset_insert x xs) = insert x (set xs)"
  by (induction xs) auto

lemma sset_inv_insert: "sset_inv xs \<Longrightarrow> sset_inv (sset_insert x xs)"
  unfolding sset_inv_def by (induction xs) (auto simp: set_sset_insert)

lemma sset_inv_erase: "sset_inv xs \<Longrightarrow> sset_inv (filter (\<lambda>y. y \<noteq> x) xs)"
  by (simp add: sset_inv_def sorted_wrt_filter)

interpretation sset: std_set_api set sset_inv sset_insert sset_erase sset_find
  by unfold_locales
    (auto simp: set_sset_insert sset_erase_def sset_find_def sset_inv_insert
      sset_inv_erase)

lemmas sset_laws [container_simps] =
  sset.elems_ins sset.elems_ers sset.fnd_elems sset.elems_ins_all sset.elems_ers_all

lemma sset_inv_Nil [simp]: "sset_inv []"
  by (simp add: sset_inv_def)

lemma sset_inv_distinct: "sset_inv xs \<Longrightarrow> distinct xs"
  unfolding sset_inv_def by (induction xs) auto

text \<open>Two sets with the same elements are the same sequence: iteration order is determined.\<close>

lemma sset_ext: "sset_inv xs \<Longrightarrow> sset_inv ys \<Longrightarrow> set xs = set ys \<Longrightarrow> xs = ys"
  unfolding sset_inv_def by (simp add: strict_sorted_equal)

lemma sset_erase_insert:
  assumes "sset_inv s" and "x \<notin> set s"
  shows "sset_erase x (sset_insert x s) = s"
  using assms by (intro sset_ext) (auto intro: sset.inv_ers sset.inv_ins simp: container_simps)

section \<open>std::map\<close>

fun smap_put :: "'k::linorder \<Rightarrow> 'v \<Rightarrow> ('k \<times> 'v) list \<Rightarrow> ('k \<times> 'v) list" where
  "smap_put k v [] = [(k, v)]"
| "smap_put k v ((l, w) # m) =
     (if k < l then (k, v) # (l, w) # m
      else if k = l then (k, v) # m else (l, w) # smap_put k v m)"

definition smap_erase :: "'k \<Rightarrow> ('k \<times> 'v) list \<Rightarrow> ('k \<times> 'v) list" where
  "smap_erase k m = filter (\<lambda>(l, w). l \<noteq> k) m"

definition smap_find :: "('k \<times> 'v) list \<Rightarrow> 'k \<Rightarrow> 'v option" where
  "smap_find m k = map_of m k"

definition smap_inv :: "('k::linorder \<times> 'v) list \<Rightarrow> bool" where
  "smap_inv m \<longleftrightarrow> sorted_wrt (<) (map fst m)"

locale std_map_api =
  fixes lkp :: "'m \<Rightarrow> 'k \<Rightarrow> 'v option"
    and inv :: "'m \<Rightarrow> bool"
    and put :: "'k \<Rightarrow> 'v \<Rightarrow> 'm \<Rightarrow> 'm"
    and ers :: "'k \<Rightarrow> 'm \<Rightarrow> 'm"
  assumes lkp_put: "inv m \<Longrightarrow> lkp (put k v m) = (lkp m)(k \<mapsto> v)"
    and lkp_ers: "inv m \<Longrightarrow> lkp (ers k m) = (lkp m)(k := None)"
    and inv_put: "inv m \<Longrightarrow> inv (put k v m)"
    and inv_ers: "inv m \<Longrightarrow> inv (ers k m)"
begin

lemma lkp_ers_put_other: "inv m \<Longrightarrow> l \<noteq> k \<Longrightarrow> lkp (ers k (put k v m)) l = lkp m l"
  by (simp add: lkp_put lkp_ers inv_put)

lemma lkp_put_twice: "inv m \<Longrightarrow> lkp (put k w (put k v m)) = lkp (put k w m)"
  by (simp add: lkp_put inv_put)

end

lemma fst_smap_put: "fst ` set (smap_put k v m) = insert k (fst ` set m)"
  by (induction k v m rule: smap_put.induct) auto

lemma smap_inv_put: "smap_inv m \<Longrightarrow> smap_inv (smap_put k v m)"
proof (induction k v m rule: smap_put.induct)
  case (1 k v)
  then show ?case by (simp add: smap_inv_def)
next
  case (2 k v l w m)
  show ?case
  proof (cases "k \<le> l")
    case True
    with 2 show ?thesis by (force simp: smap_inv_def)
  next
    case False
    with 2 have "smap_inv (smap_put k v m)" by (simp add: smap_inv_def)
    moreover have "\<forall>x \<in> fst ` set (smap_put k v m). l < x"
      using False 2(2) by (auto simp: fst_smap_put smap_inv_def)
    ultimately show ?thesis using False by (auto simp: smap_inv_def)
  qed
qed

lemma map_of_smap_put: "smap_inv m \<Longrightarrow> map_of (smap_put k v m) = (map_of m)(k \<mapsto> v)"
proof (induction k v m rule: smap_put.induct)
  case (1 k v)
  then show ?case by simp
next
  case (2 k v l w m)
  then show ?case by (fastforce simp: smap_inv_def fun_eq_iff)
qed

lemma map_of_smap_erase: "map_of (smap_erase k m) = (map_of m)(k := None)"
  by (induction m) (auto simp: smap_erase_def fun_eq_iff)

lemma smap_inv_erase: "smap_inv m \<Longrightarrow> smap_inv (smap_erase k m)"
  unfolding smap_inv_def smap_erase_def by (induction m) auto

interpretation smap: std_map_api smap_find smap_inv smap_put smap_erase
  by unfold_locales
    (auto simp: smap_find_def[abs_def] map_of_smap_put map_of_smap_erase smap_inv_put smap_inv_erase)

lemmas smap_laws [container_simps] = smap.lkp_put smap.lkp_ers

lemma smap_inv_Nil [simp]: "smap_inv []"
  by (simp add: smap_inv_def)

lemma smap_find_Nil [simp]: "smap_find [] k = None"
  by (simp add: smap_find_def)

lemma smap_find_mem: "smap_inv m \<Longrightarrow> smap_find m k = Some v \<longleftrightarrow> (k, v) \<in> set m"
proof -
  assume "smap_inv m"
  then have "distinct (map fst m)"
    unfolding smap_inv_def using sset_inv_distinct sset_inv_def by blast
  then show ?thesis by (simp add: smap_find_def)
qed

lemma smap_find_SomeD: "smap_find m k = Some v \<Longrightarrow> (k, v) \<in> set m"
  by (simp add: smap_find_def map_of_SomeD)

lemma smap_find_dom: "k \<in> fst ` set m \<longleftrightarrow> smap_find m k \<noteq> None"
  by (auto simp: smap_find_def map_of_eq_None_iff dest: weak_map_of_SomeI)

section \<open>std::multimap\<close>

text \<open>\<open>insert\<close> places a pair at the upper bound of its key, so equal keys keep insertion order.\<close>

fun mmap_insert :: "'k::linorder \<Rightarrow> 'v \<Rightarrow> ('k \<times> 'v) list \<Rightarrow> ('k \<times> 'v) list" where
  "mmap_insert k v [] = [(k, v)]"
| "mmap_insert k v ((l, w) # m) =
     (if k < l then (k, v) # (l, w) # m else (l, w) # mmap_insert k v m)"

definition mmap_inv :: "('k::linorder \<times> 'v) list \<Rightarrow> bool" where
  "mmap_inv m \<longleftrightarrow> sorted (map fst m)"

definition mmap_insert_range :: "('k::linorder \<times> 'v) list \<Rightarrow> ('k \<times> 'v) list \<Rightarrow> ('k \<times> 'v) list" where
  "mmap_insert_range xs m = foldl (\<lambda>m (k, v). mmap_insert k v m) m xs"

locale std_multimap_api =
  fixes entries :: "'m \<Rightarrow> ('k::linorder \<times> 'v) set"
    and cnt :: "'m \<Rightarrow> ('k \<times> 'v) \<Rightarrow> nat"
    and inv :: "'m \<Rightarrow> bool"
    and ins :: "'k \<Rightarrow> 'v \<Rightarrow> 'm \<Rightarrow> 'm"
    and rem :: "('k \<times> 'v \<Rightarrow> bool) \<Rightarrow> 'm \<Rightarrow> 'm"
  assumes entries_ins: "entries (ins k v m) = insert (k, v) (entries m)"
    and entries_rem: "entries (rem P m) = {e \<in> entries m. \<not> P e}"
    and cnt_ins: "cnt (ins k v m) e = cnt m e + (if e = (k, v) then 1 else 0)"
    and cnt_rem: "cnt (rem P m) e = (if P e then 0 else cnt m e)"
    and inv_ins: "inv m \<Longrightarrow> inv (ins k v m)"
    and inv_rem: "inv m \<Longrightarrow> inv (rem P m)"
begin

lemma entries_ins_all:
  "entries (foldl (\<lambda>m (k, v). ins k v m) m xs) = entries m \<union> set xs"
  by (induction xs arbitrary: m) (auto simp: entries_ins)

lemma inv_ins_all: "inv m \<Longrightarrow> inv (foldl (\<lambda>m (k, v). ins k v m) m xs)"
  by (induction xs arbitrary: m) (auto simp: inv_ins)

lemma cnt_ins_all:
  "cnt (foldl (\<lambda>m (k, v). ins k v m) m xs) e = cnt m e + count_list xs e"
  by (induction xs arbitrary: m) (auto simp: cnt_ins)

end

definition mmap_remove :: "('k \<times> 'v \<Rightarrow> bool) \<Rightarrow> ('k \<times> 'v) list \<Rightarrow> ('k \<times> 'v) list" where
  "mmap_remove P m = filter (\<lambda>e. \<not> P e) m"

lemma set_mmap_insert: "set (mmap_insert k v m) = insert (k, v) (set m)"
  by (induction k v m rule: mmap_insert.induct) auto

lemma count_mmap_insert:
  "count_list (mmap_insert k v m) e = count_list m e + (if e = (k, v) then 1 else 0)"
  by (induction k v m rule: mmap_insert.induct) auto

lemma mmap_inv_insert: "mmap_inv m \<Longrightarrow> mmap_inv (mmap_insert k v m)"
  by (induction k v m rule: mmap_insert.induct)
    (fastforce simp: mmap_inv_def set_mmap_insert)+

lemma count_list_filter: "count_list (filter Q m) e = (if Q e then count_list m e else 0)"
  by (induction m) auto

lemma mmap_inv_remove: "mmap_inv m \<Longrightarrow> mmap_inv (mmap_remove P m)"
  unfolding mmap_inv_def mmap_remove_def by (induction m) auto

interpretation mmap: std_multimap_api set count_list mmap_inv mmap_insert mmap_remove
  by unfold_locales
    (auto simp: set_mmap_insert mmap_remove_def count_mmap_insert count_list_filter
      mmap_inv_insert mmap_inv_remove[unfolded mmap_remove_def])

lemmas mmap_laws [container_simps] =
  mmap.entries_ins mmap.entries_rem mmap.cnt_ins mmap.cnt_rem

lemma mmap_inv_Nil [simp]: "mmap_inv []"
  by (simp add: mmap_inv_def)

text \<open>The first entry of a multimap has the least key.\<close>

lemma mmap_inv_hd_le: "mmap_inv (e # m) \<Longrightarrow> x \<in> set (e # m) \<Longrightarrow> fst e \<le> fst x"
  by (auto simp: mmap_inv_def)

lemma mmap_inv_tl: "mmap_inv (e # m) \<Longrightarrow> mmap_inv m"
  by (simp add: mmap_inv_def)

end
