(* ===== verification/RBAC.thy ===== *)
theory RBAC
  imports StdContainers
begin

text \<open>
  Role based access control: \<open>src/server/game/Accounts/RBAC.h\<close>, \<open>RBAC.cpp\<close> and the
  RBAC part of \<open>AccountMgr.cpp\<close>. An account holds a set of granted and a set of denied
  permissions; the effective permissions are the granted ones with everything they link
  to, less the denied ones with everything those link to. Log output is left out. What the
  code sends to the login database is returned as a list of statements; what it reads is an
  argument, the rows of the query.
\<close>

section \<open>Permissions and their store\<close>

record RBACPermission =
  perm_id :: u32
  perm_name :: string
  perm_links :: "u32 list"

definition mk_RBACPermission :: "u32 \<Rightarrow> string \<Rightarrow> RBACPermission" where
  "mk_RBACPermission i n = \<lparr>perm_id = i, perm_name = n, perm_links = []\<rparr>"

definition AddLinkedPermission :: "u32 \<Rightarrow> RBACPermission \<Rightarrow> RBACPermission" where
  "AddLinkedPermission i p = p\<lparr>perm_links := sset_insert i (perm_links p)\<rparr>"

definition RemoveLinkedPermission :: "u32 \<Rightarrow> RBACPermission \<Rightarrow> RBACPermission" where
  "RemoveLinkedPermission i p = p\<lparr>perm_links := sset_erase i (perm_links p)\<rparr>"

text \<open>
  \<open>_permissions\<close> maps an id to a pointer. A null pointer can only get there through
  \<open>operator[]\<close> on an unknown id while links are loaded, and \<open>GetRBACPermission\<close> then
  returns it as it returns a missing id.
\<close>

type_synonym permission_map = "(u32 \<times> RBACPermission option) list"

record account_mgr =
  permissions :: permission_map
  defaultPermissions :: "(u8 \<times> u32 list) list"

definition GetRBACPermission :: "permission_map \<Rightarrow> u32 \<Rightarrow> RBACPermission option" where
  "GetRBACPermission m i = (case smap_find m i of Some p \<Rightarrow> p | None \<Rightarrow> None)"

text \<open>\<open>_defaultPermissions[secLevel]\<close>: a missing level reads as the empty set.\<close>

definition GetRBACDefaultPermissions :: "account_mgr \<Rightarrow> u8 \<Rightarrow> u32 list" where
  "GetRBACDefaultPermissions am sec =
     (case smap_find (defaultPermissions am) sec of Some s \<Rightarrow> s | None \<Rightarrow> [])"

definition ClearRBAC :: "account_mgr \<Rightarrow> account_mgr" where
  "ClearRBAC am = am\<lparr>permissions := [], defaultPermissions := []\<rparr>"

section \<open>Account data\<close>

datatype RBACCommandResult =
  RBAC_OK
| RBAC_CANT_ADD_ALREADY_ADDED
| RBAC_CANT_REVOKE_NOT_IN_LIST
| RBAC_IN_GRANTED_LIST
| RBAC_IN_DENIED_LIST
| RBAC_ID_DOES_NOT_EXISTS

text \<open>The prepared statements of the login database the code below executes.\<close>

datatype login_stmt =
  LOGIN_INS_RBAC_ACCOUNT_PERMISSION u32 u32 bool int
| LOGIN_DEL_RBAC_ACCOUNT_PERMISSION u32 u32 int
| LOGIN_DEL_ACCOUNT_ACCESS u32
| LOGIN_DEL_ACCOUNT_ACCESS_BY_REALM u32 int
| LOGIN_INS_ACCOUNT_ACCESS u32 u8 int

record RBACData =
  rd_id :: u32
  rd_name :: string
  rd_realmId :: int
  rd_secLevel :: u8
  grantedPerms :: "u32 list"
  deniedPerms :: "u32 list"
  globalPerms :: "u32 list"

definition mk_RBACData :: "u32 \<Rightarrow> string \<Rightarrow> int \<Rightarrow> u8 \<Rightarrow> RBACData" where
  "mk_RBACData i n realm sec =
     \<lparr>rd_id = i, rd_name = n, rd_realmId = realm, rd_secLevel = sec,
      grantedPerms = [], deniedPerms = [], globalPerms = []\<rparr>"

definition HasPermission :: "RBACData \<Rightarrow> u32 \<Rightarrow> bool" where
  "HasPermission d p \<longleftrightarrow> sset_find p (globalPerms d)"

definition HasGrantedPermission :: "RBACData \<Rightarrow> u32 \<Rightarrow> bool" where
  "HasGrantedPermission d p \<longleftrightarrow> sset_find p (grantedPerms d)"

definition HasDeniedPermission :: "RBACData \<Rightarrow> u32 \<Rightarrow> bool" where
  "HasDeniedPermission d p \<longleftrightarrow> sset_find p (deniedPerms d)"

definition AddGrantedPermission :: "u32 \<Rightarrow> RBACData \<Rightarrow> RBACData" where
  "AddGrantedPermission p d = d\<lparr>grantedPerms := sset_insert p (grantedPerms d)\<rparr>"

definition RemoveGrantedPermission :: "u32 \<Rightarrow> RBACData \<Rightarrow> RBACData" where
  "RemoveGrantedPermission p d = d\<lparr>grantedPerms := sset_erase p (grantedPerms d)\<rparr>"

definition AddDeniedPermission :: "u32 \<Rightarrow> RBACData \<Rightarrow> RBACData" where
  "AddDeniedPermission p d = d\<lparr>deniedPerms := sset_insert p (deniedPerms d)\<rparr>"

definition RemoveDeniedPermission :: "u32 \<Rightarrow> RBACData \<Rightarrow> RBACData" where
  "RemoveDeniedPermission p d = d\<lparr>deniedPerms := sset_erase p (deniedPerms d)\<rparr>"

definition ClearData :: "RBACData \<Rightarrow> RBACData" where
  "ClearData d = d\<lparr>grantedPerms := [], deniedPerms := [], globalPerms := []\<rparr>"

section \<open>Expansion of linked permissions\<close>

definition AddPermissions :: "u32 list \<Rightarrow> u32 list \<Rightarrow> u32 list" where
  "AddPermissions permsFrom permsTo = foldl (\<lambda>s p. sset_insert p s) permsTo permsFrom"

definition RemovePermissions :: "u32 list \<Rightarrow> u32 list \<Rightarrow> u32 list" where
  "RemovePermissions permsFrom permsToRemove =
     foldl (\<lambda>s p. sset_erase p s) permsFrom permsToRemove"

definition push_links :: "u32 list \<Rightarrow> u32 list \<Rightarrow> u32 list \<Rightarrow> u32 list" where
  "push_links ps links toCheck =
     foldl (\<lambda>tc y. if sset_find y ps then tc else sset_insert y tc) toCheck links"

lemma set_push_links: "set (push_links ps links tc) = set tc \<union> (set links - set ps)"
  unfolding push_links_def
  by (induction links arbitrary: tc) (auto simp: container_simps)

lemma sset_inv_push_links: "sset_inv tc \<Longrightarrow> sset_inv (push_links ps links tc)"
  unfolding push_links_def
  by (induction links arbitrary: tc) (auto simp: sset.inv_ins)

lemma filter_sset_insert_other: "\<not> P y \<Longrightarrow> filter P (sset_insert y xs) = filter P xs"
  by (induction xs) auto

lemma filter_push_links:
  "filter (\<lambda>z. z \<in> set ps) (push_links ps links tc) = filter (\<lambda>z. z \<in> set ps) tc"
  unfolding push_links_def
  by (induction links arbitrary: tc) (auto simp: container_simps filter_sset_insert_other)

text \<open>
  The \<open>while\<close> loop of \<open>ExpandPermissions\<close>. It ends although ids are put back into the
  set to check: an id that exists enters the result, and never comes back after that.
\<close>

function expand_loop :: "permission_map \<Rightarrow> u32 list \<Rightarrow> u32 list \<Rightarrow> u32 list" where
  "expand_loop m [] ps = ps"
| "expand_loop m (x # tc) ps =
     (case GetRBACPermission m x of
        None \<Rightarrow> expand_loop m tc ps
      | Some p \<Rightarrow>
          (let ps' = sset_insert x ps
           in expand_loop m (push_links ps' (perm_links p) tc) ps'))"
  by pat_completeness auto
termination
proof (relation "measures [\<lambda>(m, tc, ps). card (fst ` set m - set ps),
                           \<lambda>(m, tc, ps). length (filter (\<lambda>z. z \<in> set ps) tc),
                           \<lambda>(m, tc, ps). length tc]", goal_cases)
  case 1
  then show ?case by simp
next
  case (2 m x tc ps)
  then show ?case by auto
next
  case (3 m x tc ps p ps')
  have mem: "x \<in> fst ` set m"
    using 3(1) by (auto simp: GetRBACPermission_def smap_find_dom split: option.splits)
  show ?case
  proof (cases "x \<in> set ps")
    case False
    have "fst ` set m - set ps' \<subset> fst ` set m - set ps"
      using mem False 3(2) by (auto simp: container_simps)
    then have "card (fst ` set m - set ps') < card (fst ` set m - set ps)"
      by (simp add: psubset_card_mono)
    then show ?thesis by simp
  next
    case True
    then have eq: "set ps' = set ps" using 3(2) by (auto simp: container_simps)
    then show ?thesis
      using True filter_push_links [of ps' "perm_links p" tc] by simp
  qed
qed

definition ExpandPermissions :: "permission_map \<Rightarrow> u32 list \<Rightarrow> u32 list" where
  "ExpandPermissions m ps = expand_loop m ps []"

definition CalculateNewPermissions :: "permission_map \<Rightarrow> RBACData \<Rightarrow> RBACData" where
  "CalculateNewPermissions m d =
     (let glob = ExpandPermissions m (grantedPerms d);
          revoked = ExpandPermissions m (deniedPerms d)
      in d\<lparr>globalPerms := RemovePermissions glob revoked\<rparr>)"

section \<open>Commands on an account\<close>

definition SavePermission :: "RBACData \<Rightarrow> u32 \<Rightarrow> bool \<Rightarrow> int \<Rightarrow> login_stmt" where
  "SavePermission d p granted realm = LOGIN_INS_RBAC_ACCOUNT_PERMISSION (rd_id d) p granted realm"

definition GrantPermission ::
  "permission_map \<Rightarrow> RBACData \<Rightarrow> u32 \<Rightarrow> int \<Rightarrow> RBACCommandResult \<times> RBACData \<times> login_stmt list" where
  "GrantPermission m d p realm =
     (case GetRBACPermission m p of
        None \<Rightarrow> (RBAC_ID_DOES_NOT_EXISTS, d, [])
      | Some _ \<Rightarrow>
          if HasDeniedPermission d p then (RBAC_IN_DENIED_LIST, d, [])
          else if HasGrantedPermission d p then (RBAC_CANT_ADD_ALREADY_ADDED, d, [])
          else (let d' = AddGrantedPermission p d
                in if realm \<noteq> 0
                   then (RBAC_OK, CalculateNewPermissions m d', [SavePermission d' p True realm])
                   else (RBAC_OK, d', [])))"

definition DenyPermission ::
  "permission_map \<Rightarrow> RBACData \<Rightarrow> u32 \<Rightarrow> int \<Rightarrow> RBACCommandResult \<times> RBACData \<times> login_stmt list" where
  "DenyPermission m d p realm =
     (case GetRBACPermission m p of
        None \<Rightarrow> (RBAC_ID_DOES_NOT_EXISTS, d, [])
      | Some _ \<Rightarrow>
          if HasGrantedPermission d p then (RBAC_IN_GRANTED_LIST, d, [])
          else if HasDeniedPermission d p then (RBAC_CANT_ADD_ALREADY_ADDED, d, [])
          else (let d' = AddDeniedPermission p d
                in if realm \<noteq> 0
                   then (RBAC_OK, CalculateNewPermissions m d', [SavePermission d' p False realm])
                   else (RBAC_OK, d', [])))"

definition RevokePermission ::
  "permission_map \<Rightarrow> RBACData \<Rightarrow> u32 \<Rightarrow> int \<Rightarrow> RBACCommandResult \<times> RBACData \<times> login_stmt list" where
  "RevokePermission m d p realm =
     (if \<not> HasGrantedPermission d p \<and> \<not> HasDeniedPermission d p
      then (RBAC_CANT_REVOKE_NOT_IN_LIST, d, [])
      else (let d' = RemoveDeniedPermission p (RemoveGrantedPermission p d)
            in if realm \<noteq> 0
               then (RBAC_OK, CalculateNewPermissions m d',
                     [LOGIN_DEL_RBAC_ACCOUNT_PERMISSION (rd_id d') p realm])
               else (RBAC_OK, d', [])))"

text \<open>A row of \<open>LOGIN_SEL_RBAC_ACCOUNT_PERMISSIONS\<close>: the permission and whether it is granted.\<close>

definition load_row :: "permission_map \<Rightarrow> RBACData \<Rightarrow> u32 \<times> bool \<Rightarrow> RBACData" where
  "load_row m d r =
     (if snd r then fst (snd (GrantPermission m d (fst r) 0))
      else fst (snd (DenyPermission m d (fst r) 0)))"

definition LoadFromDBCallback :: "account_mgr \<Rightarrow> RBACData \<Rightarrow> (u32 \<times> bool) list \<Rightarrow> RBACData" where
  "LoadFromDBCallback am d rows =
     (let m = permissions am;
          d1 = foldl (load_row m) d rows;
          d2 = foldl (\<lambda>d p. fst (snd (GrantPermission m d p 0))) d1
                 (GetRBACDefaultPermissions am (rd_secLevel d))
      in CalculateNewPermissions m d2)"

text \<open>\<open>query\<close> answers the select on an account id and a realm.\<close>

definition LoadFromDB ::
  "account_mgr \<Rightarrow> (u32 \<Rightarrow> int \<Rightarrow> (u32 \<times> bool) list) \<Rightarrow> RBACData \<Rightarrow> RBACData" where
  "LoadFromDB am query d = LoadFromDBCallback am (ClearData d) (query (rd_id d) (rd_realmId d))"

definition SetSecurityLevel ::
  "account_mgr \<Rightarrow> (u32 \<Rightarrow> int \<Rightarrow> (u32 \<times> bool) list) \<Rightarrow> u8 \<Rightarrow> RBACData \<Rightarrow> RBACData" where
  "SetSecurityLevel am query lvl d = LoadFromDB am query (d\<lparr>rd_secLevel := lvl\<rparr>)"

section \<open>The account manager\<close>

text \<open>\<open>AccountMgr::HasPermission\<close>; \<open>getsec\<close> is the stored security level of an account.\<close>

definition AccountMgr_HasPermission ::
  "account_mgr \<Rightarrow> (u32 \<Rightarrow> int \<Rightarrow> (u32 \<times> bool) list) \<Rightarrow> (u32 \<Rightarrow> u8) \<Rightarrow> u32 \<Rightarrow> u32 \<Rightarrow> int \<Rightarrow> bool" where
  "AccountMgr_HasPermission am query getsec acc p realm =
     (if acc = 0 then False
      else HasPermission (LoadFromDB am query (mk_RBACData acc [] realm (getsec acc))) p)"

definition UpdateAccountAccess ::
  "account_mgr \<Rightarrow> (u32 \<Rightarrow> int \<Rightarrow> (u32 \<times> bool) list) \<Rightarrow> RBACData option \<Rightarrow> u32 \<Rightarrow> u8 \<Rightarrow> int
     \<Rightarrow> RBACData option \<times> login_stmt list" where
  "UpdateAccountAccess am query rbac acc lvl realm =
     (let rbac' = (case rbac of
                     None \<Rightarrow> None
                   | Some d \<Rightarrow> if lvl = rd_secLevel d then Some (SetSecurityLevel am query lvl d)
                              else Some d);
          del = (if realm = -1 then [LOGIN_DEL_ACCOUNT_ACCESS acc]
                 else [LOGIN_DEL_ACCOUNT_ACCESS_BY_REALM acc realm]);
          ins = (if lvl \<noteq> 0 then [LOGIN_INS_ACCOUNT_ACCESS acc lvl realm] else [])
      in (rbac', del @ ins))"

text \<open>
  \<open>LoadRBAC\<close> reads three result sets, an empty one being a null result, on which it
  returns. A link row of an id that has no permission reads \<open>_permissions[newId]\<close>, which
  stores a null pointer and then calls through it: \<open>None\<close> is that crash.
\<close>

definition load_permissions :: "(u32 \<times> string) list \<Rightarrow> permission_map" where
  "load_permissions rows =
     foldl (\<lambda>m (i, n). smap_put i (Some (mk_RBACPermission i n)) m) [] rows"

fun load_links :: "permission_map \<Rightarrow> u32 \<Rightarrow> u32 option \<Rightarrow> (u32 \<times> u32) list \<Rightarrow> permission_map option" where
  "load_links m cur ptr [] = Some m"
| "load_links m cur ptr ((newId, linked) # rows) =
     (let (m, cur, ptr) =
            (if cur \<noteq> newId
             then (case smap_find m newId of
                     None \<Rightarrow> (smap_put newId None m, newId, None)
                   | Some None \<Rightarrow> (m, newId, None)
                   | Some (Some p) \<Rightarrow> (m, newId, Some newId))
             else (m, cur, ptr))
      in if linked = cur then load_links m cur ptr rows
         else (case ptr of
                 None \<Rightarrow> None
               | Some i \<Rightarrow>
                   (case GetRBACPermission m i of
                      None \<Rightarrow> None
                    | Some p \<Rightarrow>
                        load_links (smap_put i (Some (AddLinkedPermission linked p)) m) cur ptr rows)))"

fun load_defaults :: "(u8 \<times> u32 list) list \<Rightarrow> u8 \<Rightarrow> bool \<Rightarrow> (u32 \<times> u32) list \<Rightarrow> (u8 \<times> u32 list) list" where
  "load_defaults ds secId has [] = ds"
| "load_defaults ds secId has ((newId, p) # rows) =
     (let secId' = (if ucast secId \<noteq> newId \<or> \<not> has then ucast newId else secId);
          s = (case smap_find ds secId' of Some s \<Rightarrow> s | None \<Rightarrow> [])
      in load_defaults (smap_put secId' (sset_insert p s) ds) secId' True rows)"

definition LoadRBAC ::
  "account_mgr \<Rightarrow> (u32 \<times> string) list \<Rightarrow> (u32 \<times> u32) list \<Rightarrow> (u32 \<times> u32) list \<Rightarrow> account_mgr option" where
  "LoadRBAC am perms links defs =
     (let am = ClearRBAC am
      in if perms = [] then Some am
         else (let am = am\<lparr>permissions := load_permissions perms\<rparr>
               in if links = [] then Some am
                  else (case load_links (permissions am) 0 None links of
                          None \<Rightarrow> None
                        | Some m \<Rightarrow>
                            (let am = am\<lparr>permissions := m\<rparr>
                             in if defs = [] then Some am
                                else Some (am\<lparr>defaultPermissions :=
                                             load_defaults (defaultPermissions am) 255 False defs\<rparr>)))))"

section \<open>What a set of permissions stands for\<close>

text \<open>
  The specification of inheritance: the existing permissions of a set, closed under links to
  existing permissions.
\<close>

inductive inherits :: "permission_map \<Rightarrow> u32 set \<Rightarrow> u32 \<Rightarrow> bool" for m S where
  inherits_base: "x \<in> S \<Longrightarrow> GetRBACPermission m x = Some p \<Longrightarrow> inherits m S x"
| inherits_link: "inherits m S x \<Longrightarrow> GetRBACPermission m x = Some p \<Longrightarrow> y \<in> set (perm_links p) \<Longrightarrow>
     GetRBACPermission m y = Some q \<Longrightarrow> inherits m S y"

lemma inherits_exists: "inherits m S x \<Longrightarrow> \<exists>p. GetRBACPermission m x = Some p"
  by (auto elim: inherits.cases)

lemma inherits_mono: "inherits m S x \<Longrightarrow> S \<subseteq> T \<Longrightarrow> inherits m T x"
  by (induction rule: inherits.induct) (auto intro: inherits.intros)

lemma expand_loop_sound:
  assumes "\<forall>x \<in> set ps. inherits m S x"
    and "\<forall>x \<in> set tc. GetRBACPermission m x \<noteq> None \<longrightarrow> inherits m S x"
  shows "\<forall>x \<in> set (expand_loop m tc ps). inherits m S x"
  using assms
proof (induction m tc ps rule: expand_loop.induct)
  case (1 m ps)
  then show ?case by simp
next
  case (2 m x tc ps)
  show ?case
  proof (cases "GetRBACPermission m x")
    case None
    with 2 show ?thesis by simp
  next
    case (Some p)
    have x: "inherits m S x" using 2(4) Some by simp
    have "\<forall>z \<in> set (sset_insert x ps). inherits m S z"
      using 2(3) x by (auto simp: container_simps)
    moreover have "\<forall>z \<in> set (push_links (sset_insert x ps) (perm_links p) tc).
        GetRBACPermission m z \<noteq> None \<longrightarrow> inherits m S z"
      using 2(4) x Some by (auto simp: set_push_links intro: inherits_link)
    ultimately show ?thesis using 2(2)[OF Some refl] Some by (simp add: Let_def)
  qed
qed

lemma expand_loop_superset: "set ps \<subseteq> set (expand_loop m tc ps)"
proof (induction m tc ps rule: expand_loop.induct)
  case (2 m x tc ps)
  then show ?case
    by (cases "GetRBACPermission m x") (auto simp: Let_def container_simps)
qed simp

lemma expand_loop_todo:
  "x \<in> set tc \<Longrightarrow> GetRBACPermission m x = Some p \<Longrightarrow> x \<in> set (expand_loop m tc ps)"
proof (induction m tc ps arbitrary: x p rule: expand_loop.induct)
  case (2 m y tc ps)
  show ?case
  proof (cases "GetRBACPermission m y")
    case None
    with 2 show ?thesis by auto
  next
    case (Some q)
    show ?thesis
    proof (cases "x \<in> set (sset_insert y ps)")
      case True
      then show ?thesis using Some expand_loop_superset by (force simp: Let_def)
    next
      case False
      then have "x \<in> set (push_links (sset_insert y ps) (perm_links q) tc)"
        using 2(3) by (auto simp: set_push_links container_simps)
      then show ?thesis using 2(2)[OF Some refl] 2(4) Some by (simp add: Let_def)
    qed
  qed
qed simp

definition links_closed :: "permission_map \<Rightarrow> u32 set \<Rightarrow> u32 set \<Rightarrow> bool" where
  "links_closed m X Y \<longleftrightarrow> (\<forall>x \<in> X. \<forall>p y q. GetRBACPermission m x = Some p \<longrightarrow>
     y \<in> set (perm_links p) \<longrightarrow> GetRBACPermission m y = Some q \<longrightarrow> y \<in> Y)"

lemma expand_loop_closed:
  assumes "links_closed m (set ps) (set ps \<union> set tc)"
  shows "links_closed m (set (expand_loop m tc ps)) (set (expand_loop m tc ps))"
  using assms
proof (induction m tc ps rule: expand_loop.induct)
  case (1 m ps)
  then show ?case by simp
next
  case (2 m x tc ps)
  show ?case
  proof (cases "GetRBACPermission m x")
    case None
    then have "links_closed m (set ps) (set ps \<union> set tc)"
      using 2(3) unfolding links_closed_def by fastforce
    with None 2(1) show ?thesis by simp
  next
    case (Some p)
    let ?ps = "sset_insert x ps"
    have "links_closed m (set ?ps) (set ?ps \<union> set (push_links ?ps (perm_links p) tc))"
      using 2(3) Some by (auto simp: links_closed_def set_push_links container_simps)
    then show ?thesis using 2(2)[OF Some refl] Some by (simp add: Let_def)
  qed
qed

lemma sset_inv_expand_loop: "sset_inv ps \<Longrightarrow> sset_inv (expand_loop m tc ps)"
proof (induction m tc ps rule: expand_loop.induct)
  case (2 m x tc ps)
  then show ?case by (cases "GetRBACPermission m x") (auto simp: Let_def sset.inv_ins)
qed simp

lemma inherits_expand: "inherits m S x \<Longrightarrow> S \<subseteq> set ss \<Longrightarrow> x \<in> set (ExpandPermissions m ss)"
proof (induction rule: inherits.induct)
  case (inherits_base x p)
  then show ?case by (auto simp: ExpandPermissions_def intro: expand_loop_todo)
next
  case (inherits_link x p y q)
  then show ?case
    using expand_loop_closed [of m "[]" ss]
    by (force simp: ExpandPermissions_def links_closed_def)
qed

lemma set_expand: "x \<in> set (ExpandPermissions m ps) \<longleftrightarrow> inherits m (set ps) x"
proof
  assume "x \<in> set (ExpandPermissions m ps)"
  then show "inherits m (set ps) x"
    using expand_loop_sound [of "[]" m "set ps" ps]
    by (auto simp: ExpandPermissions_def intro: inherits_base)
qed (auto intro: inherits_expand)

text \<open>Property C2: \<open>ExpandPermissions\<close> returns exactly the permissions that the given ones
  stand for: those of the set that exist and everything reachable from them over links to
  existing permissions; its loop ends on every store, cyclic links included.\<close>

theorem ExpandPermissions_exact:
  "set (ExpandPermissions m ps) = {x. inherits m (set ps) x}"
  by (auto simp: set_expand)

section \<open>Invariant and effective permissions\<close>

definition rbac_inv :: "permission_map \<Rightarrow> RBACData \<Rightarrow> bool" where
  "rbac_inv m d \<longleftrightarrow> sset_inv (grantedPerms d) \<and> sset_inv (deniedPerms d)
     \<and> set (grantedPerms d) \<inter> set (deniedPerms d) = {}
     \<and> (\<forall>p \<in> set (grantedPerms d) \<union> set (deniedPerms d). GetRBACPermission m p \<noteq> None)"

text \<open>The cached set is the one the granted and denied permissions determine.\<close>

definition rbac_synced :: "permission_map \<Rightarrow> RBACData \<Rightarrow> bool" where
  "rbac_synced m d \<longleftrightarrow> (\<forall>p. HasPermission d p \<longleftrightarrow>
     inherits m (set (grantedPerms d)) p \<and> \<not> inherits m (set (deniedPerms d)) p)"

lemma CalculateNewPermissions_frame [frame_simps]:
  "grantedPerms (CalculateNewPermissions m d) = grantedPerms d"
  "deniedPerms (CalculateNewPermissions m d) = deniedPerms d"
  "rd_id (CalculateNewPermissions m d) = rd_id d"
  "rd_secLevel (CalculateNewPermissions m d) = rd_secLevel d"
  by (simp_all add: CalculateNewPermissions_def Let_def)

lemma Calculate_synced: "rbac_synced m (CalculateNewPermissions m d)"
  by (auto simp: rbac_synced_def HasPermission_def CalculateNewPermissions_def Let_def
      RemovePermissions_def container_simps set_expand)

lemma rbac_inv_Calculate [simp]: "rbac_inv m (CalculateNewPermissions m d) = rbac_inv m d"
  by (simp add: rbac_inv_def frame_simps)

lemmas rbac_command_defs =
  GrantPermission_def DenyPermission_def RevokePermission_def AddGrantedPermission_def
  AddDeniedPermission_def RemoveGrantedPermission_def RemoveDeniedPermission_def
  HasGrantedPermission_def HasDeniedPermission_def

lemma rbac_inv_Grant: "rbac_inv m d \<Longrightarrow> rbac_inv m (fst (snd (GrantPermission m d p r)))"
  unfolding rbac_inv_def rbac_command_defs
  by (auto simp: Let_def container_simps sset.inv_ins frame_simps split: option.splits)

lemma rbac_inv_Deny: "rbac_inv m d \<Longrightarrow> rbac_inv m (fst (snd (DenyPermission m d p r)))"
  unfolding rbac_inv_def rbac_command_defs
  by (auto simp: Let_def container_simps sset.inv_ins frame_simps split: option.splits)

lemma rbac_inv_Revoke: "rbac_inv m d \<Longrightarrow> rbac_inv m (fst (snd (RevokePermission m d p r)))"
  unfolding rbac_inv_def rbac_command_defs
  by (auto simp: Let_def container_simps sset.inv_ers frame_simps)

lemma rbac_inv_Clear: "rbac_inv m (ClearData d)"
  by (simp add: rbac_inv_def ClearData_def)

lemma rbac_inv_load: "rbac_inv m d \<Longrightarrow> rbac_inv m (foldl (load_row m) d rows)"
  by (rule foldl_invariant) (auto simp: load_row_def rbac_inv_Grant rbac_inv_Deny)

lemma rbac_inv_LoadFromDB: "rbac_inv (permissions am) (LoadFromDB am q d)"
  unfolding LoadFromDB_def LoadFromDBCallback_def Let_def rbac_inv_Calculate
  by (rule foldl_invariant) (auto simp: rbac_inv_Grant rbac_inv_load rbac_inv_Clear)

lemma rbac_synced_LoadFromDB: "rbac_synced (permissions am) (LoadFromDB am q d)"
  by (simp add: LoadFromDB_def LoadFromDBCallback_def Let_def Calculate_synced)

text \<open>The life of an account: it is loaded, then commands of administrators change it.\<close>

datatype rbac_cmd = Cmd_Grant u32 int | Cmd_Deny u32 int | Cmd_Revoke u32 int | Cmd_Reload

fun rbac_step ::
  "account_mgr \<Rightarrow> (u32 \<Rightarrow> int \<Rightarrow> (u32 \<times> bool) list) \<Rightarrow> RBACData \<Rightarrow> rbac_cmd \<Rightarrow> RBACData" where
  "rbac_step am q d (Cmd_Grant p r) = fst (snd (GrantPermission (permissions am) d p r))"
| "rbac_step am q d (Cmd_Deny p r) = fst (snd (DenyPermission (permissions am) d p r))"
| "rbac_step am q d (Cmd_Revoke p r) = fst (snd (RevokePermission (permissions am) d p r))"
| "rbac_step am q d Cmd_Reload = LoadFromDB am q d"

fun cmd_realm :: "rbac_cmd \<Rightarrow> int" where
  "cmd_realm (Cmd_Grant p r) = r"
| "cmd_realm (Cmd_Deny p r) = r"
| "cmd_realm (Cmd_Revoke p r) = r"
| "cmd_realm Cmd_Reload = 1"

lemma rbac_step_inv: "rbac_inv (permissions am) d \<Longrightarrow> rbac_inv (permissions am) (rbac_step am q d c)"
  by (cases c) (simp_all add: rbac_inv_Grant rbac_inv_Deny rbac_inv_Revoke rbac_inv_LoadFromDB)

lemma rbac_step_synced:
  assumes "rbac_synced (permissions am) d" and "cmd_realm c \<noteq> 0"
  shows "rbac_synced (permissions am) (rbac_step am q d c)"
  using assms
  by (cases c) (auto simp: GrantPermission_def DenyPermission_def RevokePermission_def Let_def
      rbac_synced_LoadFromDB Calculate_synced split: option.splits)

text \<open>Property C1: whatever sequence of grant, deny and revoke commands (on a realm) and
  reloads an account goes through after it was loaded, no permission is both granted and
  denied, and the account has a permission exactly when a granted one stands for it and no
  denied one does: a denial wins over every way the permission is inherited.\<close>

theorem rbac_commands_effective:
  assumes "\<forall>c \<in> set cs. cmd_realm c \<noteq> 0"
    and "d' = foldl (rbac_step am q) (LoadFromDB am q d) cs"
  shows "set (grantedPerms d') \<inter> set (deniedPerms d') = {} \<and>
    (HasPermission d' p \<longleftrightarrow> inherits (permissions am) (set (grantedPerms d')) p
       \<and> \<not> inherits (permissions am) (set (deniedPerms d')) p)"
proof -
  have "rbac_inv (permissions am) d' \<and> rbac_synced (permissions am) d'"
    unfolding assms(2)
    by (rule foldl_invariant)
      (use assms(1) in \<open>auto simp: rbac_step_inv rbac_step_synced rbac_inv_LoadFromDB
        rbac_synced_LoadFromDB\<close>)
  then show ?thesis by (auto simp: rbac_inv_def rbac_synced_def)
qed

text \<open>A permission that was granted can be revoked again, and the revocation
  restores the granted and denied sets the account had before.\<close>

theorem Grant_Revoke_roundtrip:
  assumes "rbac_inv m d" and "GrantPermission m d p r = (RBAC_OK, d', st)"
  shows "\<exists>d'' st'. RevokePermission m d' p r = (RBAC_OK, d'', st')
    \<and> grantedPerms d'' = grantedPerms d \<and> deniedPerms d'' = deniedPerms d"
proof -
  have p: "p \<notin> set (grantedPerms d)" "p \<notin> set (deniedPerms d)"
    using assms(2)
    by (auto simp: GrantPermission_def HasGrantedPermission_def HasDeniedPermission_def
        container_simps split: option.splits if_splits)
  have d': "grantedPerms d' = sset_insert p (grantedPerms d)" "deniedPerms d' = deniedPerms d"
    using assms(2)
    by (auto simp: GrantPermission_def AddGrantedPermission_def Let_def frame_simps
        split: option.splits if_splits)
  have "sset_erase p (deniedPerms d) = deniedPerms d"
    using p unfolding sset_erase_def by (auto intro: filter_id_of_all)
  moreover have "sset_erase p (sset_insert p (grantedPerms d)) = grantedPerms d"
    using assms(1) p by (simp add: rbac_inv_def sset_erase_insert)
  ultimately show ?thesis
    using d' by (auto simp: RevokePermission_def rbac_command_defs Let_def container_simps frame_simps)
qed

section \<open>Loading the permission store\<close>

lemma Get_smap_put:
  "smap_inv m \<Longrightarrow> GetRBACPermission (smap_put k v m) i = (if i = k then v else GetRBACPermission m i)"
  by (simp add: GetRBACPermission_def container_simps)

definition no_links :: "permission_map \<Rightarrow> bool" where
  "no_links m \<longleftrightarrow> smap_inv m \<and> (\<forall>i p. GetRBACPermission m i = Some p \<longrightarrow> perm_links p = [])"

lemma no_links_put: "no_links m \<Longrightarrow> no_links (smap_put i (Some (mk_RBACPermission i n)) m)"
  by (auto simp: no_links_def smap.inv_put Get_smap_put mk_RBACPermission_def split: if_splits)

lemma no_links_load: "no_links (load_permissions rows)"
  unfolding load_permissions_def
  by (rule foldl_invariant) (auto simp: no_links_put, simp add: no_links_def GetRBACPermission_def)

lemma load_permissions_links:
  "smap_inv (load_permissions rows)"
  "GetRBACPermission (load_permissions rows) i = Some p \<Longrightarrow> perm_links p = []"
  using no_links_load [of rows] by (auto simp: no_links_def)

text \<open>The pointer a row works through: it is null or points to the permission of the row's id.\<close>

lemma link_pointer:
  assumes "smap_inv m" and "ptr = None \<or> ptr = Some cur"
  shows "\<exists>m1 ptr1. (if cur \<noteq> newId
       then (case smap_find m newId of None \<Rightarrow> (smap_put newId None m, newId, None)
             | Some None \<Rightarrow> (m, newId, None) | Some (Some p) \<Rightarrow> (m, newId, Some newId))
       else (m, cur, ptr)) = (m1, newId, ptr1)
     \<and> smap_inv m1 \<and> (ptr1 = None \<or> ptr1 = Some newId) \<and> GetRBACPermission m1 = GetRBACPermission m"
proof (cases "cur = newId")
  case True
  with assms show ?thesis by simp
next
  case False
  have null: "GetRBACPermission (smap_put newId None m) = GetRBACPermission m" if "smap_find m newId = None"
  proof
    fix i
    show "GetRBACPermission (smap_put newId None m) i = GetRBACPermission m i"
      using that assms(1) by (cases "i = newId") (simp_all add: Get_smap_put, simp add: GetRBACPermission_def)
  qed
  from option_option_cases [of "smap_find m newId"] show ?thesis
    using False assms(1) by (elim disjE exE) (simp_all add: null smap.inv_put)
qed

lemma load_links_links:
  assumes "load_links m cur ptr rows = Some m'" and "smap_inv m" and "ptr = None \<or> ptr = Some cur"
    and "GetRBACPermission m' i = Some p'"
  shows "\<exists>p. GetRBACPermission m i = Some p
    \<and> set (perm_links p') = set (perm_links p) \<union> {l. (i, l) \<in> set rows \<and> l \<noteq> i}"
  using assms
proof (induction rows arbitrary: m cur ptr)
  case Nil
  then show ?case by simp
next
  case (Cons row rows)
  obtain newId linked where row: "row = (newId, linked)" by (cases row)
  obtain m1 ptr1 where step: "(if cur \<noteq> newId
       then (case smap_find m newId of None \<Rightarrow> (smap_put newId None m, newId, None)
             | Some None \<Rightarrow> (m, newId, None) | Some (Some p) \<Rightarrow> (m, newId, Some newId))
       else (m, cur, ptr)) = (m1, newId, ptr1)"
    and inv1: "smap_inv m1" and ptr1: "ptr1 = None \<or> ptr1 = Some newId"
    and get1: "GetRBACPermission m1 = GetRBACPermission m"
    using link_pointer [OF Cons.prems(2,3)] by blast
  show ?case
  proof (cases "linked = newId")
    case True
    then have "load_links m1 newId ptr1 rows = Some m'"
      using Cons.prems(1) row step by simp
    from Cons.IH [OF this inv1 ptr1 Cons.prems(4)] True row get1 show ?thesis by auto
  next
    case False
    then obtain q where q: "ptr1 = Some newId" "GetRBACPermission m1 newId = Some q"
      and rest: "load_links (smap_put newId (Some (AddLinkedPermission linked q)) m1) newId ptr1 rows = Some m'"
      using Cons.prems(1) row step ptr1 by (auto split: option.splits)
    have inv2: "smap_inv (smap_put newId (Some (AddLinkedPermission linked q)) m1)"
      by (rule smap.inv_put [OF inv1])
    obtain p where p: "(if i = newId then Some (AddLinkedPermission linked q)
          else GetRBACPermission m i) = Some p"
      and links: "set (perm_links p') = set (perm_links p) \<union> {l. (i, l) \<in> set rows \<and> l \<noteq> i}"
      using Cons.IH [OF rest inv2 ptr1 Cons.prems(4)] unfolding Get_smap_put [OF inv1] get1 by blast
    show ?thesis
    proof (cases "i = newId")
      case True
      then have "set (perm_links p) = insert linked (set (perm_links q))"
        using p by (auto simp: AddLinkedPermission_def container_simps)
      then show ?thesis using True q(2) get1 links False row by auto
    next
      case False': False
      then show ?thesis using p links row by auto
    qed
  qed
qed

text \<open>After a successful load the links of a permission are exactly the rows of
  the link table for it, rows that link a permission to itself left out.\<close>

theorem LoadRBAC_links:
  assumes "LoadRBAC am perms links defs = Some am'" and "perms \<noteq> []"
    and "GetRBACPermission (permissions am') i = Some p"
  shows "set (perm_links p) = {l. (i, l) \<in> set links \<and> l \<noteq> i}"
proof (cases "links = []")
  case True
  then have "permissions am' = load_permissions perms"
    using assms(1,2) by (auto simp: LoadRBAC_def Let_def)
  then have "perm_links p = []" using assms(3) load_permissions_links(2) by simp
  then show ?thesis using True by simp
next
  case False
  then obtain m where m: "load_links (load_permissions perms) 0 None links = Some m"
    and "permissions am' = m"
    using assms(1,2) by (auto simp: LoadRBAC_def Let_def split: option.splits if_splits)
  then have "GetRBACPermission m i = Some p" using assms(3) by simp
  from load_links_links [OF m load_permissions_links(1) _ this] load_permissions_links(2) [of perms i]
  show ?thesis by auto
qed

text \<open>\<open>UpdateAccountAccess\<close> never changes the security level of the account data
  it is given: it calls \<open>SetSecurityLevel\<close> only when the new level equals the old one. Only the
  database learns the new level.\<close>

theorem UpdateAccountAccess_keeps_level:
  "map_option rd_secLevel (fst (UpdateAccountAccess am q rbac acc lvl realm)) = map_option rd_secLevel rbac
   \<and> (LOGIN_INS_ACCOUNT_ACCESS acc lvl realm \<in> set (snd (UpdateAccountAccess am q rbac acc lvl realm)) \<longleftrightarrow> lvl \<noteq> 0)"
proof -
  have "rd_secLevel (load_row m d r) = rd_secLevel d" for m d r
    by (auto simp: load_row_def GrantPermission_def DenyPermission_def Let_def frame_simps
        AddGrantedPermission_def AddDeniedPermission_def split: option.splits)
  then have load: "rd_secLevel (foldl (load_row m) d rows) = rd_secLevel d" for m d rows
    by (induction rows arbitrary: d) auto
  have "rd_secLevel (fst (snd (GrantPermission m d p 0))) = rd_secLevel d" for m d p
    by (auto simp: GrantPermission_def AddGrantedPermission_def Let_def split: option.splits)
  then have "rd_secLevel (foldl (\<lambda>d p. fst (snd (GrantPermission m d p 0))) d ps) = rd_secLevel d" for m d ps
    by (induction ps arbitrary: d) auto
  with load have "rd_secLevel (LoadFromDB am q d) = rd_secLevel d" for d
    by (simp add: LoadFromDB_def LoadFromDBCallback_def Let_def frame_simps ClearData_def)
  then show ?thesis
    by (auto simp: UpdateAccountAccess_def SetSecurityLevel_def Let_def split: option.splits)
qed

section \<open>Concrete runs\<close>

text \<open>A store with a cycle of links: 1 links to 2, 2 to 1 and 3, and 4 stands alone.\<close>

definition example_store :: permission_map where
  "example_store =
     [(1, Some \<lparr>perm_id = 1, perm_name = ''a'', perm_links = [2]\<rparr>),
      (2, Some \<lparr>perm_id = 2, perm_name = ''b'', perm_links = [1, 3]\<rparr>),
      (3, Some \<lparr>perm_id = 3, perm_name = ''c'', perm_links = []\<rparr>),
      (4, Some \<lparr>perm_id = 4, perm_name = ''d'', perm_links = []\<rparr>)]"

lemma example_store_get [simp]:
  "GetRBACPermission example_store 1 = Some \<lparr>perm_id = 1, perm_name = ''a'', perm_links = [2]\<rparr>"
  "GetRBACPermission example_store 2 = Some \<lparr>perm_id = 2, perm_name = ''b'', perm_links = [1, 3]\<rparr>"
  "GetRBACPermission example_store 3 = Some \<lparr>perm_id = 3, perm_name = ''c'', perm_links = []\<rparr>"
  "GetRBACPermission example_store 4 = Some \<lparr>perm_id = 4, perm_name = ''d'', perm_links = []\<rparr>"
  by (simp_all add: GetRBACPermission_def example_store_def smap_find_def)

lemma example_expand: "ExpandPermissions example_store [1, 9] = [1, 2, 3]"
  by (simp add: ExpandPermissions_def push_links_def sset_find_def GetRBACPermission_def
      example_store_def smap_find_def)

theorem rbac_commands_effective_witness:
  "let am = \<lparr>permissions = example_store, defaultPermissions = [(0, [1])]\<rparr>;
       q = (\<lambda>_ _. [(4, False)]);
       d' = foldl (rbac_step am q) (LoadFromDB am q (mk_RBACData 7 [] 1 0)) [Cmd_Deny 3 1, Cmd_Revoke 4 1]
   in (HasPermission d' 2 \<longleftrightarrow> inherits example_store (set (grantedPerms d')) 2
         \<and> \<not> inherits example_store (set (deniedPerms d')) 2)"
  using rbac_commands_effective [of "[Cmd_Deny 3 1, Cmd_Revoke 4 1]", OF _ refl,
      of "\<lparr>permissions = example_store, defaultPermissions = [(0, [1])]\<rparr>" "\<lambda>_ _. [(4, False)]"
         "mk_RBACData 7 [] 1 0" 2]
  by (simp add: Let_def)

theorem Grant_Revoke_roundtrip_witness:
  "\<exists>d' st d'' st'. GrantPermission example_store (mk_RBACData 7 [] 1 0) 4 1 = (RBAC_OK, d', st)
     \<and> RevokePermission example_store d' 4 1 = (RBAC_OK, d'', st') \<and> grantedPerms d'' = []"
proof -
  obtain d' st where g: "GrantPermission example_store (mk_RBACData 7 [] 1 0) 4 1 = (RBAC_OK, d', st)"
    by (simp add: GrantPermission_def HasDeniedPermission_def HasGrantedPermission_def
        mk_RBACData_def sset_find_def Let_def)
  have "rbac_inv example_store (mk_RBACData 7 [] 1 0)"
    by (simp add: rbac_inv_def mk_RBACData_def)
  from Grant_Revoke_roundtrip [OF this g] g show ?thesis by (auto simp: mk_RBACData_def)
qed

theorem LoadRBAC_links_witness:
  "let am = LoadRBAC \<lparr>permissions = [], defaultPermissions = []\<rparr>
              [(1, ''a''), (2, ''b'')] [(1, 2), (2, 2), (2, 1)] [(0, 1)]
   in \<exists>am' p. am = Some am' \<and> GetRBACPermission (permissions am') 2 = Some p \<and> set (perm_links p) = {1}"
proof -
  let ?am = "\<lparr>permissions = [], defaultPermissions = []\<rparr>"
  have "\<exists>am' p. LoadRBAC ?am [(1, ''a''), (2, ''b'')] [(1, 2), (2, 2), (2, 1)] [(0, 1)] = Some am'
      \<and> GetRBACPermission (permissions am') 2 = Some p"
    by (simp add: LoadRBAC_def ClearRBAC_def load_permissions_def GetRBACPermission_def smap_find_def
        mk_RBACPermission_def AddLinkedPermission_def)
  then obtain am' p where a: "LoadRBAC ?am [(1, ''a''), (2, ''b'')] [(1, 2), (2, 2), (2, 1)] [(0, 1)] = Some am'"
    and g: "GetRBACPermission (permissions am') 2 = Some p" by blast
  have "set (perm_links p) = {l. (2 :: u32, l) \<in> set [(1, 2), (2, 2), (2, 1)] \<and> l \<noteq> 2}"
    by (rule LoadRBAC_links [OF a _ g]) simp
  also have "\<dots> = {1}" by auto
  finally show ?thesis using a g unfolding Let_def by blast
qed

end
