(* ===== verification/EventMap.thy ===== *)
theory EventMap
  imports StdContainers
begin

text \<open>
  The timed event queue of the scripted creature AIs:
  \<open>src/common/Utilities/EventMap.h\<close> and \<open>EventMap.cpp\<close>. Events sit in a multimap from the
  time they are due to a 32 bit word that packs the phase mask (bits 24 to 31), the group
  mask (16 to 23) and the event id (0 to 15). Times are \<open>uint32\<close> and wrap.
\<close>

section \<open>State\<close>

text \<open>\<open>std::chrono::milliseconds\<close> counts in 64 bits; the code casts the count to \<open>uint32\<close>.\<close>

type_synonym milliseconds = u64

record event_map =
  em_time :: u32
  em_phase :: u8
  em_events :: "(u32 \<times> u32) list"
  em_lastEvent :: u32

definition mk_event_map :: event_map where
  "mk_event_map = \<lparr>em_time = 0, em_phase = 0, em_events = [], em_lastEvent = 0\<rparr>"

text \<open>\<open>urand\<close> of \<open>Random.cpp\<close> asserts its bounds; \<open>rng\<close> is the generator behind it.\<close>

definition urand :: "(u32 \<Rightarrow> u32 \<Rightarrow> u32) \<Rightarrow> u32 \<Rightarrow> u32 \<Rightarrow> u32 option" where
  "urand rng mn mx = (if mx \<ge> mn then Some (rng mn mx) else None)"

section \<open>Operations\<close>


definition Update :: "u32 \<Rightarrow> event_map \<Rightarrow> event_map" where
  "Update t s = s\<lparr>em_time := em_time s + t\<rparr>"

definition Empty :: "event_map \<Rightarrow> bool" where
  "Empty s \<longleftrightarrow> em_events s = []"

definition phase_bit :: "u8 \<Rightarrow> u8" where
  "phase_bit p = push_bit (unat p - 1) 1"




definition IsInPhase :: "u8 \<Rightarrow> event_map \<Rightarrow> bool" where
  "IsInPhase p s \<longleftrightarrow> p \<le> 8 \<and> (p = 0 \<or> has_bits (em_phase s) (phase_bit p))"

definition group_bit :: "u32 \<Rightarrow> u32" where
  "group_bit g = push_bit (unat g + 15) 1"

definition event_phase_bit :: "u8 \<Rightarrow> u32" where
  "event_phase_bit p = push_bit (unat p + 23) 1"

definition ScheduleEvent :: "u32 \<Rightarrow> u32 \<Rightarrow> u32 \<Rightarrow> u8 \<Rightarrow> event_map \<Rightarrow> event_map" where
  "ScheduleEvent eventId time grp phase s =
     (let e1 = (if grp \<noteq> 0 \<and> grp \<le> 8 then eventId OR group_bit grp else eventId);
          e2 = (if phase \<noteq> 0 \<and> phase \<le> 8 then e1 OR event_phase_bit phase else e1)
      in s\<lparr>em_events := mmap_insert (em_time s + time) e2 (em_events s)\<rparr>)"

definition ScheduleEvent_ms :: "u32 \<Rightarrow> milliseconds \<Rightarrow> u32 \<Rightarrow> u8 \<Rightarrow> event_map \<Rightarrow> event_map" where
  "ScheduleEvent_ms eventId time grp phase s = ScheduleEvent eventId (ucast time) grp phase s"

text \<open>The range versions take the phase as \<open>uint32\<close> and pass it on as \<open>uint8\<close>.\<close>

definition ScheduleEvent_range ::
  "(u32 \<Rightarrow> u32 \<Rightarrow> u32) \<Rightarrow> u32 \<Rightarrow> milliseconds \<Rightarrow> milliseconds \<Rightarrow> u32 \<Rightarrow> u32 \<Rightarrow> event_map \<Rightarrow> event_map option" where
  "ScheduleEvent_range rng eventId mn mx grp phase s =
     (case urand rng (ucast mn) (ucast mx) of
        None \<Rightarrow> None
      | Some t \<Rightarrow> Some (ScheduleEvent eventId t grp (ucast phase) s))"

definition event_id :: "u32 \<Rightarrow> u32" where
  "event_id e = e AND 0x0000FFFF"

definition CancelEvent :: "u32 \<Rightarrow> event_map \<Rightarrow> event_map" where
  "CancelEvent eventId s =
     (if Empty s then s
      else s\<lparr>em_events := mmap_remove (\<lambda>(t, e). eventId = event_id e) (em_events s)\<rparr>)"


definition RescheduleEvent :: "u32 \<Rightarrow> u32 \<Rightarrow> u32 \<Rightarrow> u8 \<Rightarrow> event_map \<Rightarrow> event_map" where
  "RescheduleEvent eventId time grp phase s =
     ScheduleEvent eventId time grp phase (CancelEvent eventId s)"

definition RescheduleEvent_ms :: "u32 \<Rightarrow> milliseconds \<Rightarrow> u32 \<Rightarrow> u8 \<Rightarrow> event_map \<Rightarrow> event_map" where
  "RescheduleEvent_ms eventId time grp phase s = RescheduleEvent eventId (ucast time) grp phase s"

definition RescheduleEvent_range ::
  "(u32 \<Rightarrow> u32 \<Rightarrow> u32) \<Rightarrow> u32 \<Rightarrow> milliseconds \<Rightarrow> milliseconds \<Rightarrow> u32 \<Rightarrow> u32 \<Rightarrow> event_map \<Rightarrow> event_map option" where
  "RescheduleEvent_range rng eventId mn mx grp phase s =
     (case urand rng (ucast mn) (ucast mx) of
        None \<Rightarrow> None
      | Some t \<Rightarrow> Some (RescheduleEvent eventId t grp (ucast phase) s))"

definition Repeat :: "u32 \<Rightarrow> event_map \<Rightarrow> event_map" where
  "Repeat time s = s\<lparr>em_events := mmap_insert (em_time s + time) (em_lastEvent s) (em_events s)\<rparr>"

definition Repeat_range :: "(u32 \<Rightarrow> u32 \<Rightarrow> u32) \<Rightarrow> u32 \<Rightarrow> u32 \<Rightarrow> event_map \<Rightarrow> event_map option" where
  "Repeat_range rng mn mx s = map_option (\<lambda>t. Repeat t s) (urand rng mn mx)"

text \<open>
  The test that \<open>ExecuteEvent\<close> discards an event on: the map is in some phase, the event is
  bound to phases, and none of them is active.
\<close>

definition out_of_phase :: "u8 \<Rightarrow> u32 \<Rightarrow> bool" where
  "out_of_phase phase e \<longleftrightarrow>
     phase \<noteq> 0 \<and> has_bits e 0xFF000000 \<and> \<not> has_bits (drop_bit 24 e) (ucast phase)"

fun execute_loop :: "u32 \<Rightarrow> u8 \<Rightarrow> u32 \<Rightarrow> (u32 \<times> u32) list \<Rightarrow> u32 \<times> u32 \<times> (u32 \<times> u32) list" where
  "execute_loop now phase lst [] = (0, lst, [])"
| "execute_loop now phase lst ((t, e) # m) =
     (if t > now then (0, lst, (t, e) # m)
      else if out_of_phase phase e then execute_loop now phase lst m
      else (event_id e, e, m))"

definition ExecuteEvent :: "event_map \<Rightarrow> u32 \<times> event_map" where
  "ExecuteEvent s =
     (case execute_loop (em_time s) (em_phase s) (em_lastEvent s) (em_events s) of
        (r, lst, m) \<Rightarrow> (r, s\<lparr>em_events := m, em_lastEvent := lst\<rparr>))"


definition DelayEvents_group :: "u32 \<Rightarrow> u32 \<Rightarrow> event_map \<Rightarrow> event_map" where
  "DelayEvents_group delay grp s =
     (if grp = 0 \<or> grp > 8 \<or> Empty s then s
      else (let hit = (\<lambda>(t, e). has_bits e (group_bit grp));
                delayed = foldl (\<lambda>d (t, e). mmap_insert (t + delay) e d) [] (filter hit (em_events s));
                rest = mmap_remove hit (em_events s)
            in s\<lparr>em_events := mmap_insert_range delayed rest\<rparr>))"

fun next_time :: "u32 \<Rightarrow> (u32 \<times> u32) list \<Rightarrow> u32 option" where
  "next_time eventId [] = None"
| "next_time eventId ((t, e) # m) = (if eventId = event_id e then Some t else next_time eventId m)"

definition GetNextEventTime_of :: "u32 \<Rightarrow> event_map \<Rightarrow> u32" where
  "GetNextEventTime_of eventId s =
     (if Empty s then 0
      else case next_time eventId (em_events s) of Some t \<Rightarrow> t | None \<Rightarrow> 0)"

definition GetNextEventTime :: "event_map \<Rightarrow> u32" where
  "GetNextEventTime s = (case em_events s of [] \<Rightarrow> 0 | (t, e) # m \<Rightarrow> t)"

definition GetTimeUntilEvent :: "u32 \<Rightarrow> event_map \<Rightarrow> u32" where
  "GetTimeUntilEvent eventId s =
     (case next_time eventId (em_events s) of Some t \<Rightarrow> t - em_time s | None \<Rightarrow> 0xFFFFFFFF)"

section \<open>Invariant\<close>

definition em_inv :: "event_map \<Rightarrow> bool" where
  "em_inv s \<longleftrightarrow> mmap_inv (em_events s)"









section \<open>What ExecuteEvent returns\<close>

definition due :: "event_map \<Rightarrow> u32 \<times> u32 \<Rightarrow> bool" where
  "due s te \<longleftrightarrow> fst te \<le> em_time s \<and> \<not> out_of_phase (em_phase s) (snd te)"

lemma execute_loop_None:
  assumes "mmap_inv m" and "\<forall>(t, e) \<in> set m. t \<le> now \<longrightarrow> out_of_phase ph e"
  shows "execute_loop now ph l m = (0, l, filter (\<lambda>(t, e). t > now) m)"
  using assms
proof (induction now ph l m rule: execute_loop.induct)
  case (2 now ph l t e m)
  show ?case
  proof (cases "t > now")
    case True
    then have "\<forall>(t', e') \<in> set m. t' > now"
      using 2(2) mmap_inv_hd_le [of "(t, e)" m] by force
    then have "filter (\<lambda>(t, e). t > now) m = m" by (intro filter_id_of_all) auto
    with True show ?thesis by simp
  next
    case False
    with 2 show ?thesis by (auto dest: mmap_inv_tl)
  qed
qed simp



text \<open>With no event due in an active phase the call returns 0, drops the events that are due but out of phase and leaves the
  event remembered for \<open>Repeat\<close>.\<close>

theorem ExecuteEvent_nothing_due:
  assumes "em_inv s" and "\<forall>x \<in> set (em_events s). \<not> due s x"
  shows "ExecuteEvent s = (0, s\<lparr>em_events := filter (\<lambda>(t, e). t > em_time s) (em_events s)\<rparr>)"
  using assms execute_loop_None [of "em_events s" "em_time s" "em_phase s" "em_lastEvent s"]
  by (force simp: em_inv_def due_def ExecuteEvent_def)

section \<open>Scheduling\<close>

lemma event_id_take_bit: "event_id e = take_bit 16 e"
  by (simp add: event_id_def take_bit_eq_mask mask_eq_exp_minus_1)

lemma event_id_OR_high: "16 \<le> n \<Longrightarrow> event_id (x OR push_bit n 1) = event_id x"
  unfolding event_id_take_bit
  by (rule bit_word_eqI) (auto simp: bit_simps)

lemma event_id_OR_high': "16 \<le> n \<Longrightarrow> event_id (x OR 2 ^ n) = event_id x"
  using event_id_OR_high [of n x] by (simp add: push_bit_eq_mult)

lemma unat_ge_1: "(x :: 'a::len word) \<noteq> 0 \<Longrightarrow> 1 \<le> unat x"
  by (simp add: Suc_le_eq unat_gt_0)

lemma schedule_id:
  "event_id (if p \<noteq> 0 \<and> p \<le> 8 then (if g \<noteq> 0 \<and> g \<le> 8 then i OR group_bit g else i) OR event_phase_bit p
     else (if g \<noteq> 0 \<and> g \<le> 8 then i OR group_bit g else i)) = event_id i"
  using unat_ge_1 [of g] unat_ge_1 [of p]
  by (auto simp: group_bit_def event_phase_bit_def event_id_OR_high')

lemma next_time_insert:
  "next_time i m = None \<Longrightarrow> event_id e = i \<Longrightarrow> next_time i (mmap_insert t e m) = Some t"
  by (induction t e m rule: mmap_insert.induct) (auto split: if_splits)

text \<open>After an event is scheduled and the clock has advanced by \<open>d\<close>,
  \<open>GetTimeUntilEvent\<close> gives the delay less \<open>d\<close>, for any id of at most 16 bits that was not
  scheduled before. The difference is taken in 32 bits: for an event that is overdue by one
  millisecond it is 4294967295, the value that stands for no event.\<close>

theorem GetTimeUntilEvent_scheduled:
  assumes "next_time i (em_events s) = None" and "event_id i = i"
  shows "GetTimeUntilEvent i (Update d (ScheduleEvent i time g p s)) = time - d"
  using assms schedule_id [of p g i]
  by (simp add: GetTimeUntilEvent_def Update_def ScheduleEvent_def Let_def next_time_insert
      del: if_split)

text \<open>\<open>CancelEvent\<close> removes exactly the entries of the id, so after
  \<open>RescheduleEvent\<close> the map has exactly one entry of that id, due after the new delay, and the
  entries of other ids are as before.\<close>

theorem RescheduleEvent_unique:
  assumes "event_id i = i"
  shows "\<exists>e. event_id e = i \<and> set (em_events (RescheduleEvent i time g p s)) =
      insert (em_time s + time, e) {x \<in> set (em_events s). event_id (snd x) \<noteq> i}
    \<and> count_list (em_events (RescheduleEvent i time g p s)) (em_time s + time, e) = 1"
proof -
  define e where "e = (if p \<noteq> 0 \<and> p \<le> 8
      then (if g \<noteq> 0 \<and> g \<le> 8 then i OR group_bit g else i) OR event_phase_bit p
      else (if g \<noteq> 0 \<and> g \<le> 8 then i OR group_bit g else i))"
  have e: "event_id e = i" using assms schedule_id [of p g i] by (simp only: e_def)
  have ev: "em_events (RescheduleEvent i time g p s) =
      mmap_insert (em_time s + time) e (em_events (CancelEvent i s))"
    unfolding e_def by (simp add: RescheduleEvent_def ScheduleEvent_def Let_def CancelEvent_def)
  have c: "em_events (CancelEvent i s) = mmap_remove (\<lambda>(t, e). i = event_id e) (em_events s)"
    by (auto simp: CancelEvent_def Empty_def mmap_remove_def)
  show ?thesis
    unfolding ev c using e by (intro exI [of _ e]) (auto simp: container_simps)
qed

text \<open>\<open>DelayEvents\<close> on a group shifts every entry of the group by the delay and
  leaves every other entry; nothing is lost or duplicated.\<close>

theorem DelayEvents_group_shifts:
  assumes "g \<noteq> 0" and "g \<le> 8"
  shows "count_list (em_events (DelayEvents_group delay g s)) (t, e) =
    count_list (em_events s) (if has_bits e (group_bit g) then (t - delay, e) else (t, e))"
proof -
  define hit where "hit = (\<lambda>(t :: u32, e). has_bits e (group_bit g))"
  have shift: "count_list (foldl (\<lambda>d (t, e). mmap_insert (t + delay) e d) acc xs) (t, e) =
      count_list acc (t, e) + count_list xs (t - delay, e)" for acc xs
  proof (induction xs arbitrary: acc)
    case (Cons x xs)
    obtain a b where x: "x = (a, b)" by fastforce
    have "a + delay = t \<longleftrightarrow> a = t - delay" by (simp add: eq_diff_eq)
    then show ?case using Cons.IH [of "mmap_insert (a + delay) b acc"] x
      by (auto simp: container_simps)
  qed simp
  have "count_list (mmap_insert_range xs m) x = count_list m x + count_list xs x" for xs m and x :: "u32 \<times> u32"
    by (simp add: mmap_insert_range_def mmap.cnt_ins_all)
  with assms shift show ?thesis
    by (auto simp: DelayEvents_group_def Empty_def Let_def container_simps count_list_filter)
qed

text \<open>While no phase is active every event that is due is executed, also one bound
  to a phase, although \<open>IsInPhase\<close> answers that its phase is not active.\<close>

theorem no_phase_executes_bound_event:
  assumes "p \<noteq> 0" and "p \<le> 8" and "event_id i = i"
  shows "fst (ExecuteEvent (ScheduleEvent i 0 0 p mk_event_map)) = i
    \<and> \<not> IsInPhase p (ScheduleEvent i 0 0 p mk_event_map)"
  using assms unat_ge_1 [of p]
  by (simp add: ExecuteEvent_def ScheduleEvent_def mk_event_map_def Let_def out_of_phase_def
      IsInPhase_def event_phase_bit_def event_id_OR_high')

section \<open>Concrete maps\<close>

definition example_map :: event_map where
  "example_map = \<lparr>em_time = 500, em_phase = 1,
     em_events = [(100, 0x02000007), (200, 0x01000003), (300, 5), (900, 5)], em_lastEvent = 0\<rparr>"

lemma example_map_due [simp]:
  "\<not> due example_map (100, 0x02000007)" "due example_map (200, 0x01000003)"
  "due example_map (300, 5)" "\<not> due example_map (900, 5)"
  by (simp_all add: due_def example_map_def out_of_phase_def has_bits_def drop_bit_eq_div)


theorem GetTimeUntilEvent_scheduled_witness:
  "GetTimeUntilEvent 4 (Update 600 (ScheduleEvent 4 1000 1 1 example_map)) = 400
   \<and> GetTimeUntilEvent 4 (Update 1001 (ScheduleEvent 4 1000 1 1 example_map)) = 4294967295"
proof -
  have n: "next_time 4 (em_events example_map) = None" "event_id 4 = 4"
    by (simp_all add: example_map_def event_id_def)
  have "GetTimeUntilEvent 4 (Update 600 (ScheduleEvent 4 1000 1 1 example_map)) = 1000 - 600"
    by (rule GetTimeUntilEvent_scheduled [OF n])
  moreover have "GetTimeUntilEvent 4 (Update 1001 (ScheduleEvent 4 1000 1 1 example_map)) = 1000 - 1001"
    by (rule GetTimeUntilEvent_scheduled [OF n])
  ultimately show ?thesis by simp
qed

theorem RescheduleEvent_unique_witness:
  "\<exists>e. event_id e = 5 \<and> set (em_events (RescheduleEvent 5 50 0 0 example_map)) =
      insert (em_time example_map + 50, e) {x \<in> set (em_events example_map). event_id (snd x) \<noteq> 5}"
proof -
  have i: "event_id 5 = 5" by (simp add: event_id_def)
  from RescheduleEvent_unique [OF i, of 50 0 0 example_map] show ?thesis by blast
qed

theorem DelayEvents_group_shifts_witness:
  "count_list (em_events (DelayEvents_group 40 2 (ScheduleEvent 9 60 2 0 mk_event_map)))
     (100, 9 OR group_bit 2) = 1"
proof -
  have g: "(2 :: u32) \<noteq> 0" "(2 :: u32) \<le> 8" by simp_all
  show ?thesis
    unfolding DelayEvents_group_shifts [OF g]
    by (simp add: ScheduleEvent_def mk_event_map_def Let_def group_bit_def has_bits_def)
qed

theorem no_phase_executes_bound_event_witness:
  "fst (ExecuteEvent (ScheduleEvent 12 0 0 3 mk_event_map)) = 12
   \<and> \<not> IsInPhase 3 (ScheduleEvent 12 0 0 3 mk_event_map)"
proof -
  have "event_id 12 = 12" by (simp add: event_id_def)
  from no_phase_executes_bound_event [OF _ _ this, of 3] show ?thesis by simp
qed

end
