(* ===== verification/Items.thy ===== *)
theory Items
  imports StdContainers
begin

text \<open>
  Items, bags and the slots of a player: \<open>Item.cpp\<close>, \<open>Bag.cpp\<close> and the queries of
  \<open>Player.cpp\<close> on them. Objects live in a store from addresses to items, so that two pointers
  are equal when the addresses are. The item templates and the client tables are an argument.
\<close>

section \<open>Templates\<close>

text \<open>\<open>int32\<close> fields are integers; where the code converts one to \<open>uint32\<close> so does the model.\<close>

record ItemTemplate =
  ItemId :: u32
  ItemClass :: u32
  SubClass :: u32
  TemplateFlags :: u32
  InventoryType :: u32
  MaxCount :: int
  Stackable :: int
  ContainerSlots :: u32
  Bonding :: u32
  BagFamily :: u32
  Socket0_Color :: u32
  GemProperties :: u32
  ItemLimitCategory :: u32

record ItemLimitCategoryEntry =
  lim_maxCount :: u32
  lim_mode :: u32

text \<open>
  The data stores: item templates, limit categories, the gem of an enchantment, and the guid the
  generator gives to the object that is created at an address.
\<close>

record stores =
  item_templates :: "u32 \<Rightarrow> ItemTemplate option"
  limit_categories :: "u32 \<Rightarrow> ItemLimitCategoryEntry option"
  enchantment_gem :: "u32 \<Rightarrow> u32 option"
  object_guid :: "nat \<Rightarrow> guid"

abbreviation "ITEM_CLASS_CONTAINER \<equiv> (1 :: u32)"
abbreviation "ITEM_CLASS_QUIVER \<equiv> (11 :: u32)"
abbreviation "ITEM_SUBCLASS_CONTAINER \<equiv> (0 :: u32)"
abbreviation "INVTYPE_BAG \<equiv> (18 :: u32)"
abbreviation "BAG_FAMILY_MASK_KEYS \<equiv> (0x100 :: u32)"
abbreviation "BAG_FAMILY_MASK_CURRENCY_TOKENS \<equiv> (0x2000 :: u32)"
abbreviation "ITEM_LIMIT_CATEGORY_MODE_HAVE \<equiv> (0 :: u32)"
abbreviation "MAX_BAG_SIZE \<equiv> (36 :: nat)"

definition IsCurrencyToken :: "ItemTemplate \<Rightarrow> bool" where
  "IsCurrencyToken T \<longleftrightarrow> has_bits (BagFamily T) BAG_FAMILY_MASK_CURRENCY_TOKENS"

definition GetMaxStackSize :: "ItemTemplate \<Rightarrow> u32" where
  "GetMaxStackSize T =
     (if Stackable T = 2147483647 \<or> Stackable T \<le> 0 then 0x7FFFFFFF - 1 else word_of_int (Stackable T))"

definition ItemCanGoIntoBag :: "ItemTemplate \<Rightarrow> ItemTemplate \<Rightarrow> bool" where
  "ItemCanGoIntoBag T B =
     (if ItemClass B = ITEM_CLASS_CONTAINER then
        (if SubClass B = 0 then True
         else if SubClass B = 1 then has_bits (BagFamily T) 0x4
         else if SubClass B = 2 then has_bits (BagFamily T) 0x20
         else if SubClass B = 3 then has_bits (BagFamily T) 0x40
         else if SubClass B = 6 then has_bits (BagFamily T) 0x400
         else if SubClass B = 4 then has_bits (BagFamily T) 0x80
         else if SubClass B = 5 then has_bits (BagFamily T) 0x200
         else if SubClass B = 7 then has_bits (BagFamily T) 0x8
         else if SubClass B = 8 then has_bits (BagFamily T) 0x10
         else False)
      else if ItemClass B = ITEM_CLASS_QUIVER then
        (if SubClass B = 2 then has_bits (BagFamily T) 0x1
         else if SubClass B = 3 then has_bits (BagFamily T) 0x2
         else False)
      else False)"

section \<open>Items and the player\<close>

type_synonym item_ref = nat

text \<open>A bag is an item whose template has the bag inventory type; other items ignore the last two fields.\<close>

record Item =
  it_entry :: u32
  it_count :: u32
  it_lootGenerated :: bool
  it_in_trade :: bool
  it_owner :: guid
  it_contained :: guid
  it_flags :: u32
  it_allowedGUIDs :: "guid list"
  it_gem_enchants :: "u32 list"
  it_slot :: u8
  it_container :: "item_ref option"
  it_numSlots :: u32
  it_bagslot :: "item_ref option list"

text \<open>\<open>next_ref\<close> is the address the next \<open>new\<close> returns.\<close>

record Player =
  pl_guid :: guid
  m_items :: "u8 \<Rightarrow> item_ref option"
  heap :: "item_ref \<Rightarrow> Item"
  next_ref :: item_ref

text \<open>\<open>enum InventoryResult : uint8\<close>; the values the model uses.\<close>

type_synonym InventoryResult = u8

abbreviation "EQUIP_ERR_OK \<equiv> (0 :: InventoryResult)"
abbreviation "EQUIP_ERR_ITEM_DOESNT_GO_TO_SLOT \<equiv> (3 :: InventoryResult)"
abbreviation "EQUIP_ERR_BAG_FULL \<equiv> (4 :: InventoryResult)"
abbreviation "EQUIP_ERR_NONEMPTY_BAG_OVER_OTHER_BAG \<equiv> (5 :: InventoryResult)"
abbreviation "EQUIP_ERR_ITEM_DOESNT_GO_INTO_BAG \<equiv> (15 :: InventoryResult)"
abbreviation "EQUIP_ERR_CANT_CARRY_MORE_OF_THIS \<equiv> (17 :: InventoryResult)"
abbreviation "EQUIP_ERR_ITEM_CANT_STACK \<equiv> (19 :: InventoryResult)"
abbreviation "EQUIP_ERR_ITEM_CANT_BE_EQUIPPED \<equiv> (20 :: InventoryResult)"
abbreviation "EQUIP_ERR_ITEMS_CANT_BE_SWAPPED \<equiv> (21 :: InventoryResult)"
abbreviation "EQUIP_ERR_ITEM_NOT_FOUND \<equiv> (23 :: InventoryResult)"
abbreviation "EQUIP_ERR_CAN_ONLY_DO_WITH_EMPTY_BAGS \<equiv> (31 :: InventoryResult)"
abbreviation "EQUIP_ERR_DONT_OWN_THAT_ITEM \<equiv> (32 :: InventoryResult)"
abbreviation "EQUIP_ERR_MUST_PURCHASE_THAT_BAG_SLOT \<equiv> (34 :: InventoryResult)"
abbreviation "EQUIP_ERR_ALREADY_LOOTED \<equiv> (49 :: InventoryResult)"
abbreviation "EQUIP_ERR_INVENTORY_FULL \<equiv> (50 :: InventoryResult)"
abbreviation "EQUIP_ERR_BANK_FULL \<equiv> (51 :: InventoryResult)"
abbreviation "EQUIP_ERR_ITEM_MAX_LIMIT_CATEGORY_COUNT_EXCEEDED \<equiv> (84 :: InventoryResult)"
abbreviation "EQUIP_ERR_COULDNT_SPLIT_ITEMS \<equiv> (27 :: InventoryResult)"
abbreviation "EQUIP_ERR_TRIED_TO_SPLIT_MORE_THAN_COUNT \<equiv> (26 :: InventoryResult)"

abbreviation "NULL_BAG \<equiv> (0 :: u8)"
abbreviation "NULL_SLOT \<equiv> (255 :: u8)"
abbreviation "INVENTORY_SLOT_BAG_0 \<equiv> (255 :: u8)"
abbreviation "EQUIPMENT_SLOT_START \<equiv> (0 :: u8)"
abbreviation "EQUIPMENT_SLOT_END \<equiv> (19 :: u8)"
abbreviation "INVENTORY_SLOT_BAG_START \<equiv> (19 :: u8)"
abbreviation "INVENTORY_SLOT_BAG_END \<equiv> (23 :: u8)"
abbreviation "INVENTORY_SLOT_ITEM_START \<equiv> (23 :: u8)"
abbreviation "INVENTORY_SLOT_ITEM_END \<equiv> (39 :: u8)"
abbreviation "BANK_SLOT_ITEM_START \<equiv> (39 :: u8)"
abbreviation "BANK_SLOT_ITEM_END \<equiv> (67 :: u8)"
abbreviation "BANK_SLOT_BAG_START \<equiv> (67 :: u8)"
abbreviation "BANK_SLOT_BAG_END \<equiv> (74 :: u8)"
abbreviation "BUYBACK_SLOT_START \<equiv> (74 :: u8)"
abbreviation "BUYBACK_SLOT_END \<equiv> (86 :: u8)"
abbreviation "KEYRING_SLOT_START \<equiv> (86 :: u8)"
abbreviation "KEYRING_SLOT_END \<equiv> (118 :: u8)"
abbreviation "CURRENCYTOKEN_SLOT_START \<equiv> (118 :: u8)"
abbreviation "CURRENCYTOKEN_SLOT_END \<equiv> (150 :: u8)"
abbreviation "PLAYER_SLOT_END \<equiv> (150 :: u8)"

text \<open>The slots of a loop \<open>for (i = a; i < b; ++i)\<close>.\<close>

definition slot_range :: "u8 \<Rightarrow> u8 \<Rightarrow> u8 list" where
  "slot_range a b = map of_nat [unat a..<unat b]"

definition GetMaxKeyringSize :: u8 where
  "GetMaxKeyringSize = KEYRING_SLOT_END - KEYRING_SLOT_START"

subsection \<open>Item and Bag\<close>

definition GetTemplate :: "stores \<Rightarrow> Item \<Rightarrow> ItemTemplate option" where
  "GetTemplate E it = item_templates E (it_entry it)"

text \<open>An item object without a template does not exist: \<open>Create\<close> and \<open>LoadFromDB\<close> refuse it.\<close>

definition IsBag :: "stores \<Rightarrow> Item \<Rightarrow> bool" where
  "IsBag E it = (case GetTemplate E it of Some T \<Rightarrow> InventoryType T = INVTYPE_BAG | None \<Rightarrow> False)"

definition GetBagSize :: "Item \<Rightarrow> u32" where
  "GetBagSize b = it_numSlots b"

definition bag_cell :: "Item \<Rightarrow> nat \<Rightarrow> item_ref option" where
  "bag_cell b j = (if j < length (it_bagslot b) then it_bagslot b ! j else None)"

definition Bag_GetItemByPos :: "Item \<Rightarrow> u8 \<Rightarrow> item_ref option" where
  "Bag_GetItemByPos b slot = (if ucast slot < GetBagSize b then bag_cell b (unat slot) else None)"

definition Bag_IsEmpty :: "Item \<Rightarrow> bool" where
  "Bag_IsEmpty b \<longleftrightarrow> (\<forall>j \<in> set [0..<unat (GetBagSize b)]. bag_cell b j = None)"

definition IsNotEmptyBag :: "stores \<Rightarrow> Item \<Rightarrow> bool" where
  "IsNotEmptyBag E it \<longleftrightarrow> IsBag E it \<and> \<not> Bag_IsEmpty it"

definition IsSoulBound :: "Item \<Rightarrow> bool" where
  "IsSoulBound it \<longleftrightarrow> has_bits (it_flags it) 1"

definition IsBoundAccountWide :: "stores \<Rightarrow> Item \<Rightarrow> bool" where
  "IsBoundAccountWide E it =
     (case GetTemplate E it of Some T \<Rightarrow> has_bits (TemplateFlags T) 0x08000000 | None \<Rightarrow> False)"

definition IsBindedNotWith :: "stores \<Rightarrow> Item \<Rightarrow> guid \<Rightarrow> bool" where
  "IsBindedNotWith E it player \<longleftrightarrow>
     IsSoulBound it \<and> it_owner it \<noteq> player
     \<and> \<not> (has_bits (it_flags it) 0x100 \<and> player \<in> set (it_allowedGUIDs it))
     \<and> \<not> IsBoundAccountWide E it"

definition CanBeMergedPartlyWith :: "Item \<Rightarrow> ItemTemplate \<Rightarrow> InventoryResult" where
  "CanBeMergedPartlyWith it T =
     (if it_lootGenerated it then EQUIP_ERR_ALREADY_LOOTED
      else if it_entry it \<noteq> ItemId T then EQUIP_ERR_ITEM_CANT_STACK
      else if it_count it \<ge> GetMaxStackSize T then EQUIP_ERR_ITEM_CANT_STACK
      else EQUIP_ERR_OK)"

text \<open>The counter is a \<open>uint8\<close>; there are three gem sockets.\<close>

definition GetGemCountWithID :: "stores \<Rightarrow> Item \<Rightarrow> u32 \<Rightarrow> u8" where
  "GetGemCountWithID E it gem =
     foldl (\<lambda>c e. if e = 0 then c
                  else (case enchantment_gem E e of
                          None \<Rightarrow> c
                        | Some g \<Rightarrow> if gem = g then c + 1 else c)) 0 (it_gem_enchants it)"

subsection \<open>Positions of the player\<close>

definition slot_readable :: "u8 \<Rightarrow> bool" where
  "slot_readable slot \<longleftrightarrow>
     slot < BANK_SLOT_BAG_END \<or> (slot \<ge> KEYRING_SLOT_START \<and> slot < CURRENCYTOKEN_SLOT_END)"

definition is_bag_slot :: "u8 \<Rightarrow> bool" where
  "is_bag_slot bag \<longleftrightarrow>
     (bag \<ge> INVENTORY_SLOT_BAG_START \<and> bag < INVENTORY_SLOT_BAG_END)
     \<or> (bag \<ge> BANK_SLOT_BAG_START \<and> bag < BANK_SLOT_BAG_END)"

text \<open>\<open>GetBagByPos\<close> reads a bag slot, all of which are readable, straight from \<open>m_items\<close>.\<close>

definition GetBagByPos :: "stores \<Rightarrow> Player \<Rightarrow> u8 \<Rightarrow> item_ref option" where
  "GetBagByPos E p bag =
     (if is_bag_slot bag then
        (case m_items p bag of
           Some r \<Rightarrow> if IsBag E (heap p r) then Some r else None
         | None \<Rightarrow> None)
      else None)"

definition GetItemByPos :: "stores \<Rightarrow> Player \<Rightarrow> u8 \<Rightarrow> u8 \<Rightarrow> item_ref option" where
  "GetItemByPos E p bag slot =
     (if bag = INVENTORY_SLOT_BAG_0 \<and> slot_readable slot then m_items p slot
      else (case GetBagByPos E p bag of
              Some b \<Rightarrow> Bag_GetItemByPos (heap p b) slot
            | None \<Rightarrow> None))"

definition pos_bag :: "u16 \<Rightarrow> u8" where
  "pos_bag pos = ucast (drop_bit 8 pos)"

definition pos_slot :: "u16 \<Rightarrow> u8" where
  "pos_slot pos = ucast (pos AND 255)"

definition mk_pos :: "u8 \<Rightarrow> u8 \<Rightarrow> u16" where
  "mk_pos bag slot = push_bit 8 (ucast bag) OR ucast slot"

definition IsInventoryPos :: "u8 \<Rightarrow> u8 \<Rightarrow> bool" where
  "IsInventoryPos bag slot =
     (if bag = INVENTORY_SLOT_BAG_0 \<and> slot = NULL_SLOT then True
      else if bag = INVENTORY_SLOT_BAG_0 \<and> slot \<ge> INVENTORY_SLOT_ITEM_START \<and> slot < INVENTORY_SLOT_ITEM_END
      then True
      else if bag \<ge> INVENTORY_SLOT_BAG_START \<and> bag < INVENTORY_SLOT_BAG_END then True
      else if bag = INVENTORY_SLOT_BAG_0 \<and> slot \<ge> KEYRING_SLOT_START \<and> slot < CURRENCYTOKEN_SLOT_END
      then True else False)"

definition IsEquipmentPos :: "u8 \<Rightarrow> u8 \<Rightarrow> bool" where
  "IsEquipmentPos bag slot =
     (if bag = INVENTORY_SLOT_BAG_0 \<and> slot < EQUIPMENT_SLOT_END then True
      else if bag = INVENTORY_SLOT_BAG_0 \<and> slot \<ge> INVENTORY_SLOT_BAG_START \<and> slot < INVENTORY_SLOT_BAG_END
      then True else False)"

definition IsBankPos :: "u8 \<Rightarrow> u8 \<Rightarrow> bool" where
  "IsBankPos bag slot =
     (if bag = INVENTORY_SLOT_BAG_0 \<and> slot \<ge> BANK_SLOT_ITEM_START \<and> slot < BANK_SLOT_ITEM_END then True
      else if bag = INVENTORY_SLOT_BAG_0 \<and> slot \<ge> BANK_SLOT_BAG_START \<and> slot < BANK_SLOT_BAG_END then True
      else if bag \<ge> BANK_SLOT_BAG_START \<and> bag < BANK_SLOT_BAG_END then True
      else False)"

definition IsBagPos :: "u16 \<Rightarrow> bool" where
  "IsBagPos pos =
     (let bag = pos_bag pos; slot = pos_slot pos
      in if bag = INVENTORY_SLOT_BAG_0 \<and> slot \<ge> INVENTORY_SLOT_BAG_START \<and> slot < INVENTORY_SLOT_BAG_END
         then True
         else if bag = INVENTORY_SLOT_BAG_0 \<and> slot \<ge> BANK_SLOT_BAG_START \<and> slot < BANK_SLOT_BAG_END
         then True else False)"

definition IsValidPos :: "stores \<Rightarrow> Player \<Rightarrow> u8 \<Rightarrow> u8 \<Rightarrow> bool \<Rightarrow> bool" where
  "IsValidPos E p bag slot explicit_pos =
     (if bag = NULL_BAG \<and> \<not> explicit_pos then True
      else if bag = INVENTORY_SLOT_BAG_0 then
        (if slot = NULL_SLOT \<and> \<not> explicit_pos then True
         else if slot < EQUIPMENT_SLOT_END then True
         else if slot \<ge> INVENTORY_SLOT_BAG_START \<and> slot < INVENTORY_SLOT_BAG_END then True
         else if slot \<ge> INVENTORY_SLOT_ITEM_START \<and> slot < INVENTORY_SLOT_ITEM_END then True
         else if slot \<ge> KEYRING_SLOT_START \<and> slot < KEYRING_SLOT_END then True
         else if slot \<ge> BANK_SLOT_ITEM_START \<and> slot < BANK_SLOT_ITEM_END then True
         else if slot \<ge> BANK_SLOT_BAG_START \<and> slot < BANK_SLOT_BAG_END then True
         else False)
      else (case GetBagByPos E p bag of
              Some b \<Rightarrow> if slot = NULL_SLOT \<and> \<not> explicit_pos then True
                        else ucast slot < GetBagSize (heap p b)
            | None \<Rightarrow> False))"

section \<open>Counting\<close>

text \<open>What one cell adds to a count, \<open>skip\<close> being the item to leave out.\<close>

definition count_cell :: "Player \<Rightarrow> (Item \<Rightarrow> bool) \<Rightarrow> item_ref option \<Rightarrow> item_ref option \<Rightarrow> u32" where
  "count_cell p P skip r =
     (case r of
        None \<Rightarrow> 0
      | Some i \<Rightarrow> if r \<noteq> skip \<and> P (heap p i) then it_count (heap p i) else 0)"

definition gem_cell :: "stores \<Rightarrow> Player \<Rightarrow> u32 \<Rightarrow> item_ref option \<Rightarrow> item_ref option \<Rightarrow> u32" where
  "gem_cell E p item skip r =
     (case r of
        None \<Rightarrow> 0
      | Some i \<Rightarrow>
          if r \<noteq> skip \<and> (case GetTemplate E (heap p i) of Some T \<Rightarrow> Socket0_Color T \<noteq> 0 | None \<Rightarrow> False)
          then ucast (GetGemCountWithID E (heap p i) item) else 0)"

text \<open>The test \<open>skipItem && skipItem->GetTemplate()->GemProperties\<close>.\<close>

definition skip_is_gem :: "stores \<Rightarrow> Player \<Rightarrow> item_ref option \<Rightarrow> bool" where
  "skip_is_gem E p skip =
     (case skip of
        None \<Rightarrow> False
      | Some s \<Rightarrow> (case GetTemplate E (heap p s) of Some T \<Rightarrow> GemProperties T \<noteq> 0 | None \<Rightarrow> False))"

definition bag_cells :: "Item \<Rightarrow> item_ref option list" where
  "bag_cells b = map (bag_cell b) [0..<unat (GetBagSize b)]"

definition Bag_GetItemCount :: "stores \<Rightarrow> Player \<Rightarrow> Item \<Rightarrow> u32 \<Rightarrow> item_ref option \<Rightarrow> u32" where
  "Bag_GetItemCount E p b item skip =
     sum_list (map (count_cell p (\<lambda>it. it_entry it = item) skip) (bag_cells b))
     + (if skip_is_gem E p skip then sum_list (map (gem_cell E p item skip) (bag_cells b)) else 0)"

definition Bag_GetItemCountWithLimitCategory ::
  "stores \<Rightarrow> Player \<Rightarrow> Item \<Rightarrow> u32 \<Rightarrow> item_ref option \<Rightarrow> u32" where
  "Bag_GetItemCountWithLimitCategory E p b cat skip =
     sum_list (map (count_cell p (\<lambda>it. case GetTemplate E it of
        Some T \<Rightarrow> ItemLimitCategory T = cat | None \<Rightarrow> False) skip) (bag_cells b))"

definition own_cells :: "stores \<Rightarrow> Player \<Rightarrow> u8 \<Rightarrow> u8 \<Rightarrow> item_ref option list" where
  "own_cells E p a b = map (GetItemByPos E p INVENTORY_SLOT_BAG_0) (slot_range a b)"

text \<open>A loop over the bags of a range of slots that adds up \<open>f\<close>.\<close>

definition sum_bags :: "stores \<Rightarrow> Player \<Rightarrow> u8 \<Rightarrow> u8 \<Rightarrow> (Item \<Rightarrow> u32) \<Rightarrow> u32" where
  "sum_bags E p a b f =
     sum_list (map (\<lambda>i. case GetBagByPos E p i of None \<Rightarrow> 0 | Some r \<Rightarrow> f (heap p r)) (slot_range a b))"

definition GetItemCount :: "stores \<Rightarrow> Player \<Rightarrow> u32 \<Rightarrow> bool \<Rightarrow> item_ref option \<Rightarrow> u32" where
  "GetItemCount E p item inBankAlso skip =
     (let cnt = (\<lambda>a b. sum_list (map (count_cell p (\<lambda>it. it_entry it = item) skip) (own_cells E p a b)));
          gems = (\<lambda>a b. if skip_is_gem E p skip
                        then sum_list (map (gem_cell E p item skip) (own_cells E p a b)) else 0);
          bags = (\<lambda>a b. sum_bags E p a b (\<lambda>bg. Bag_GetItemCount E p bg item skip))
      in cnt EQUIPMENT_SLOT_START INVENTORY_SLOT_ITEM_END
         + cnt KEYRING_SLOT_START CURRENCYTOKEN_SLOT_END
         + bags INVENTORY_SLOT_BAG_START INVENTORY_SLOT_BAG_END
         + gems EQUIPMENT_SLOT_START INVENTORY_SLOT_ITEM_END
         + (if inBankAlso
            then cnt BANK_SLOT_ITEM_START BANK_SLOT_BAG_END
                 + bags BANK_SLOT_BAG_START BANK_SLOT_BAG_END
                 + gems BANK_SLOT_ITEM_START BANK_SLOT_ITEM_END
            else 0))"

definition GetItemCountWithLimitCategory :: "stores \<Rightarrow> Player \<Rightarrow> u32 \<Rightarrow> item_ref option \<Rightarrow> u32" where
  "GetItemCountWithLimitCategory E p cat skip =
     (let is_cat = (\<lambda>it. case GetTemplate E it of Some T \<Rightarrow> ItemLimitCategory T = cat | None \<Rightarrow> False);
          cnt = (\<lambda>a b. sum_list (map (count_cell p is_cat skip) (own_cells E p a b)));
          bags = (\<lambda>a b. sum_bags E p a b (\<lambda>bg. Bag_GetItemCountWithLimitCategory E p bg cat skip))
      in cnt EQUIPMENT_SLOT_START INVENTORY_SLOT_ITEM_END
         + cnt KEYRING_SLOT_START CURRENCYTOKEN_SLOT_END
         + bags INVENTORY_SLOT_BAG_START INVENTORY_SLOT_BAG_END
         + cnt BANK_SLOT_ITEM_START BANK_SLOT_BAG_END
         + bags BANK_SLOT_BAG_START BANK_SLOT_BAG_END)"

text \<open>
  The early return of \<open>HasItemCount\<close>: the cells in the order the code visits them, with the
  running total in 32 bits.
\<close>

fun has_count :: "Player \<Rightarrow> u32 \<Rightarrow> u32 \<Rightarrow> u32 \<Rightarrow> item_ref option list \<Rightarrow> bool" where
  "has_count p item count tempcount [] = False"
| "has_count p item count tempcount (r # rs) =
     (case r of
        None \<Rightarrow> has_count p item count tempcount rs
      | Some i \<Rightarrow>
          if it_entry (heap p i) = item \<and> \<not> it_in_trade (heap p i)
          then (let t = tempcount + it_count (heap p i)
                in if t \<ge> count then True else has_count p item count t rs)
          else has_count p item count tempcount rs)"

definition bag_slot_cells :: "stores \<Rightarrow> Player \<Rightarrow> u8 \<Rightarrow> u8 \<Rightarrow> item_ref option list" where
  "bag_slot_cells E p a b =
     concat (map (\<lambda>i. case GetBagByPos E p i of
                        None \<Rightarrow> []
                      | Some r \<Rightarrow> map (\<lambda>j. GetItemByPos E p i (of_nat j)) [0..<unat (GetBagSize (heap p r))])
              (slot_range a b))"

definition HasItemCount :: "stores \<Rightarrow> Player \<Rightarrow> u32 \<Rightarrow> u32 \<Rightarrow> bool \<Rightarrow> bool" where
  "HasItemCount E p item count inBankAlso =
     has_count p item count 0
       (own_cells E p EQUIPMENT_SLOT_START INVENTORY_SLOT_ITEM_END
        @ own_cells E p KEYRING_SLOT_START CURRENCYTOKEN_SLOT_END
        @ bag_slot_cells E p INVENTORY_SLOT_BAG_START INVENTORY_SLOT_BAG_END
        @ (if inBankAlso
           then own_cells E p BANK_SLOT_ITEM_START BANK_SLOT_ITEM_END
                @ bag_slot_cells E p BANK_SLOT_BAG_START BANK_SLOT_BAG_END
           else []))"

end
