(* ===== verification/CanStore.thy ===== *)
theory CanStore
  imports Items
begin

text \<open>
  Where a player can put items: \<open>CanTakeMoreSimilarItems\<close>, \<open>CanStoreItem\<close> with its three
  slot searches, and \<open>CanBankItem\<close> (\<open>Player.cpp\<close>). The searches fill a list of positions and
  count down what is left to place; a search is a state that is either done, with its result and
  what was written through \<open>no_space_count\<close>, or goes on with the positions so far.
\<close>

section \<open>Positions found so far\<close>

record ItemPosCount =
  ipc_pos :: u16
  ipc_count :: u32

type_synonym ItemPosCountVec = "ItemPosCount list"

definition isContainedIn :: "ItemPosCount \<Rightarrow> ItemPosCountVec \<Rightarrow> bool" where
  "isContainedIn x vec \<longleftrightarrow> (\<exists>y \<in> set vec. ipc_pos y = ipc_pos x)"

section \<open>Limits on similar items\<close>

text \<open>The result, and what is written to \<open>*no_space_count\<close> and \<open>*itemLimitCategory\<close>.\<close>

definition CanTakeMoreSimilarItems ::
  "stores \<Rightarrow> Player \<Rightarrow> u32 \<Rightarrow> u32 \<Rightarrow> item_ref option \<Rightarrow> InventoryResult \<times> u32 option \<times> u32 option" where
  "CanTakeMoreSimilarItems E p ent count pItem =
     (case item_templates E ent of
        None \<Rightarrow> (EQUIP_ERR_CANT_CARRY_MORE_OF_THIS, Some count, None)
      | Some T \<Rightarrow>
          if (case pItem of Some i \<Rightarrow> it_lootGenerated (heap p i) | None \<Rightarrow> False)
          then (EQUIP_ERR_ALREADY_LOOTED, None, None)
          else if (MaxCount T \<le> 0 \<and> ItemLimitCategory T = 0) \<or> MaxCount T = 2147483647
          then (EQUIP_ERR_OK, None, None)
          else
            (let curcount = GetItemCount E p (ItemId T) True pItem
             in if MaxCount T > 0 \<and> curcount + count > word_of_int (MaxCount T)
                then (EQUIP_ERR_CANT_CARRY_MORE_OF_THIS,
                      Some (count + curcount - word_of_int (MaxCount T)), None)
                else if ItemLimitCategory T \<noteq> 0 then
                  (case limit_categories E (ItemLimitCategory T) of
                     None \<Rightarrow> (EQUIP_ERR_ITEM_CANT_BE_EQUIPPED, Some count, None)
                   | Some L \<Rightarrow>
                       if lim_mode L = ITEM_LIMIT_CATEGORY_MODE_HAVE then
                         (let curcount = GetItemCountWithLimitCategory E p (ItemLimitCategory T) pItem
                          in if curcount + count > lim_maxCount L
                             then (EQUIP_ERR_ITEM_MAX_LIMIT_CATEGORY_COUNT_EXCEEDED,
                                   Some (count + curcount - lim_maxCount L), Some (ItemLimitCategory T))
                             else (EQUIP_ERR_OK, None, None))
                       else (EQUIP_ERR_OK, None, None))
                else (EQUIP_ERR_OK, None, None)))"

section \<open>The slot searches\<close>

text \<open>The slot of the item that is being moved will be empty at the move.\<close>

definition ignore_src :: "item_ref option \<Rightarrow> item_ref option \<Rightarrow> item_ref option" where
  "ignore_src pSrcItem r = (if r = pSrcItem then None else r)"

text \<open>\<open>if (!newPosition.isContainedIn(dest)) \<dots>\<close>, on a position and the space it has.\<close>

definition push_pos :: "u16 \<Rightarrow> u32 \<Rightarrow> ItemPosCountVec \<Rightarrow> u32 \<Rightarrow> ItemPosCountVec \<times> u32" where
  "push_pos pos space dest count =
     (let need_space = (if space > count then count else space);
          newPosition = \<lparr>ipc_pos = pos, ipc_count = need_space\<rparr>
      in if isContainedIn newPosition dest then (dest, count)
         else (dest @ [newPosition], count - need_space))"

definition CanStoreItem_InSpecificSlot ::
  "stores \<Rightarrow> Player \<Rightarrow> u8 \<Rightarrow> u8 \<Rightarrow> ItemPosCountVec \<Rightarrow> ItemTemplate \<Rightarrow> u32 \<Rightarrow> bool \<Rightarrow> item_ref option
     \<Rightarrow> InventoryResult \<times> ItemPosCountVec \<times> u32" where
  "CanStoreItem_InSpecificSlot E p bag slot dest T count swap pSrcItem =
     (let pItem2 = ignore_src pSrcItem (GetItemByPos E p bag slot);
          empty_bag_error = (case pSrcItem of
            Some s \<Rightarrow> IsNotEmptyBag E (heap p s) \<and> \<not> IsBagPos (mk_pos bag slot) | None \<Rightarrow> False);
          slot_error =
            (if bag = INVENTORY_SLOT_BAG_0 then
               (slot \<ge> KEYRING_SLOT_START \<and> slot < KEYRING_SLOT_START + GetMaxKeyringSize
                  \<and> \<not> has_bits (BagFamily T) BAG_FAMILY_MASK_KEYS)
               \<or> (slot \<ge> CURRENCYTOKEN_SLOT_START \<and> slot < CURRENCYTOKEN_SLOT_END \<and> \<not> IsCurrencyToken T)
               \<or> (slot \<ge> BUYBACK_SLOT_START \<and> slot < BUYBACK_SLOT_END) \<or> slot \<ge> PLAYER_SLOT_END
             else
               (case GetBagByPos E p bag of
                  None \<Rightarrow> True
                | Some b \<Rightarrow>
                    (case GetTemplate E (heap p b) of
                       None \<Rightarrow> True
                     | Some B \<Rightarrow> ucast slot \<ge> ContainerSlots B \<or> \<not> ItemCanGoIntoBag T B)));
          merge_result = (case pItem2 of None \<Rightarrow> EQUIP_ERR_OK | Some i \<Rightarrow> CanBeMergedPartlyWith (heap p i) T)
      in if empty_bag_error then (EQUIP_ERR_CAN_ONLY_DO_WITH_EMPTY_BAGS, dest, count)
         else if pItem2 = None \<or> swap then
           (if slot_error then (EQUIP_ERR_ITEM_DOESNT_GO_INTO_BAG, dest, count)
            else (EQUIP_ERR_OK, push_pos (mk_pos bag slot) (GetMaxStackSize T) dest count))
         else if merge_result \<noteq> EQUIP_ERR_OK then (merge_result, dest, count)
         else (EQUIP_ERR_OK,
               push_pos (mk_pos bag slot) (GetMaxStackSize T - it_count (heap p (the pItem2))) dest count))"

text \<open>
  The loop of \<open>CanStoreItem_InBag\<close> and of \<open>CanStoreItem_InInventorySlots\<close> over cells, a cell
  being its position and the item in it. With \<open>merge\<close> only stacks are visited, without it only
  empty cells; \<open>cell_space\<close> is the space of a cell that is visited.
\<close>

definition cell_space :: "Player \<Rightarrow> ItemTemplate \<Rightarrow> bool \<Rightarrow> item_ref option \<Rightarrow> item_ref option \<Rightarrow> u32 option" where
  "cell_space p T merge src r =
     (case ignore_src src r of
        None \<Rightarrow> if merge then None else Some (GetMaxStackSize T)
      | Some i \<Rightarrow>
          if \<not> merge then None
          else if CanBeMergedPartlyWith (heap p i) T \<noteq> EQUIP_ERR_OK then None
          else Some (GetMaxStackSize T - it_count (heap p i)))"

fun place_loop ::
  "Player \<Rightarrow> ItemTemplate \<Rightarrow> bool \<Rightarrow> item_ref option \<Rightarrow> (u16 \<times> item_ref option) list
     \<Rightarrow> ItemPosCountVec \<Rightarrow> u32 \<Rightarrow> ItemPosCountVec \<times> u32" where
  "place_loop p T merge src [] dest count = (dest, count)"
| "place_loop p T merge src ((pos, r) # cells) dest count =
     (case cell_space p T merge src r of
        None \<Rightarrow> place_loop p T merge src cells dest count
      | Some space \<Rightarrow>
          (let need_space = (if space > count then count else space);
               newPosition = \<lparr>ipc_pos = pos, ipc_count = need_space\<rparr>
           in if isContainedIn newPosition dest then place_loop p T merge src cells dest count
              else if count - need_space = 0 then (dest @ [newPosition], 0)
              else place_loop p T merge src cells (dest @ [newPosition]) (count - need_space)))"

text \<open>The cells of a bag less the slot \<open>skip_slot\<close>; the bag index is not compared here.\<close>

definition bag_positions :: "Player \<Rightarrow> u8 \<Rightarrow> item_ref \<Rightarrow> u8 \<Rightarrow> (u16 \<times> item_ref option) list" where
  "bag_positions p bag b skip_slot =
     map (\<lambda>j. (mk_pos bag (of_nat j), Bag_GetItemByPos (heap p b) (of_nat j)))
       (filter (\<lambda>j. j \<noteq> unat skip_slot) [0..<unat (GetBagSize (heap p b))])"

definition CanStoreItem_InBag ::
  "stores \<Rightarrow> Player \<Rightarrow> u8 \<Rightarrow> ItemPosCountVec \<Rightarrow> ItemTemplate \<Rightarrow> u32 \<Rightarrow> bool \<Rightarrow> bool \<Rightarrow> item_ref option \<Rightarrow> u8 \<Rightarrow> u8
     \<Rightarrow> InventoryResult \<times> ItemPosCountVec \<times> u32" where
  "CanStoreItem_InBag E p bag dest T count merge non_specialized pSrcItem skip_bag skip_slot =
     (if bag = skip_bag then (EQUIP_ERR_ITEM_DOESNT_GO_INTO_BAG, dest, count)
      else
        (case GetBagByPos E p bag of
           None \<Rightarrow> (EQUIP_ERR_ITEM_DOESNT_GO_INTO_BAG, dest, count)
         | Some b \<Rightarrow>
             if Some b = pSrcItem then (EQUIP_ERR_ITEM_DOESNT_GO_INTO_BAG, dest, count)
             else if (case pSrcItem of Some s \<Rightarrow> IsNotEmptyBag E (heap p s) | None \<Rightarrow> False)
             then (EQUIP_ERR_CAN_ONLY_DO_WITH_EMPTY_BAGS, dest, count)
             else
               (case GetTemplate E (heap p b) of
                  None \<Rightarrow> (EQUIP_ERR_ITEM_DOESNT_GO_INTO_BAG, dest, count)
                | Some B \<Rightarrow>
                    if non_specialized \<noteq> (ItemClass B = ITEM_CLASS_CONTAINER \<and> SubClass B = ITEM_SUBCLASS_CONTAINER)
                    then (EQUIP_ERR_ITEM_DOESNT_GO_INTO_BAG, dest, count)
                    else if \<not> ItemCanGoIntoBag T B
                    then (EQUIP_ERR_ITEM_DOESNT_GO_INTO_BAG, dest, count)
                    else (EQUIP_ERR_OK,
                          place_loop p T merge pSrcItem (bag_positions p bag b skip_slot) dest count))))"

definition slot_positions ::
  "stores \<Rightarrow> Player \<Rightarrow> u8 \<Rightarrow> u8 \<Rightarrow> u8 \<Rightarrow> u8 \<Rightarrow> (u16 \<times> item_ref option) list" where
  "slot_positions E p slot_begin slot_end skip_bag skip_slot =
     map (\<lambda>j. (mk_pos INVENTORY_SLOT_BAG_0 j, GetItemByPos E p INVENTORY_SLOT_BAG_0 j))
       (filter (\<lambda>j. \<not> (INVENTORY_SLOT_BAG_0 = skip_bag \<and> j = skip_slot)) (slot_range slot_begin slot_end))"

definition CanStoreItem_InInventorySlots ::
  "stores \<Rightarrow> Player \<Rightarrow> u8 \<Rightarrow> u8 \<Rightarrow> ItemPosCountVec \<Rightarrow> ItemTemplate \<Rightarrow> u32 \<Rightarrow> bool \<Rightarrow> item_ref option \<Rightarrow> u8 \<Rightarrow> u8
     \<Rightarrow> InventoryResult \<times> ItemPosCountVec \<times> u32" where
  "CanStoreItem_InInventorySlots E p slot_begin slot_end dest T count merge pSrcItem skip_bag skip_slot =
     (if (case pSrcItem of Some s \<Rightarrow> IsNotEmptyBag E (heap p s) | None \<Rightarrow> False)
      then (EQUIP_ERR_CAN_ONLY_DO_WITH_EMPTY_BAGS, dest, count)
      else (EQUIP_ERR_OK,
            place_loop p T merge pSrcItem (slot_positions E p slot_begin slot_end skip_bag skip_slot) dest count))"

section \<open>Searches in sequence\<close>

datatype search =
  Search ItemPosCountVec u32
| Done InventoryResult ItemPosCountVec "u32 option"

text \<open>The block the code repeats after every search: nothing left to place ends the function.\<close>

definition if_placed :: "u32 \<Rightarrow> ItemPosCountVec \<Rightarrow> u32 \<Rightarrow> search" where
  "if_placed no_similar dest count =
     (if count = 0
      then (if no_similar = 0 then Done EQUIP_ERR_OK dest None
            else Done EQUIP_ERR_CANT_CARRY_MORE_OF_THIS dest (Some (count + no_similar)))
      else Search dest count)"

text \<open>A search whose error is returned, one whose error is passed over, and the choice of two.\<close>

type_synonym slot_search = "ItemPosCountVec \<Rightarrow> u32 \<Rightarrow> InventoryResult \<times> ItemPosCountVec \<times> u32"

fun must :: "u32 \<Rightarrow> slot_search \<Rightarrow> search \<Rightarrow> search" where
  "must no_similar f (Done r d n) = Done r d n"
| "must no_similar f (Search d c) =
     (case f d c of (res, d', c') \<Rightarrow>
        if res \<noteq> EQUIP_ERR_OK then Done res d' (Some (c' + no_similar)) else if_placed no_similar d' c')"

fun may :: "u32 \<Rightarrow> slot_search \<Rightarrow> search \<Rightarrow> search" where
  "may no_similar f (Done r d n) = Done r d n"
| "may no_similar f (Search d c) =
     (case f d c of (res, d', c') \<Rightarrow>
        if res \<noteq> EQUIP_ERR_OK then Search d' c' else if_placed no_similar d' c')"

definition or_else :: "slot_search \<Rightarrow> slot_search \<Rightarrow> slot_search" where
  "or_else f g d c = (case f d c of (res, d', c') \<Rightarrow> if res \<noteq> EQUIP_ERR_OK then g d' c' else (res, d', c'))"

definition each_bag :: "u32 \<Rightarrow> u8 \<Rightarrow> u8 \<Rightarrow> (u8 \<Rightarrow> slot_search) \<Rightarrow> search \<Rightarrow> search" where
  "each_bag no_similar a b f s = foldl (\<lambda>s i. may no_similar (f i) s) s (slot_range a b)"

section \<open>CanStoreItem\<close>

text \<open>The searches with the arguments that stay the same bound, in the order of the code's parameters.\<close>

definition in_slots ::
  "stores \<Rightarrow> Player \<Rightarrow> ItemTemplate \<Rightarrow> item_ref option \<Rightarrow> u8 \<Rightarrow> u8 \<Rightarrow> u8 \<Rightarrow> u8 \<Rightarrow> bool \<Rightarrow> slot_search" where
  "in_slots E p T src bag slot a b merge d c = CanStoreItem_InInventorySlots E p a b d T c merge src bag slot"

definition in_bag ::
  "stores \<Rightarrow> Player \<Rightarrow> ItemTemplate \<Rightarrow> item_ref option \<Rightarrow> u8 \<Rightarrow> u8 \<Rightarrow> bool \<Rightarrow> bool \<Rightarrow> u8 \<Rightarrow> slot_search" where
  "in_bag E p T src bag slot merge non_spec i d c = CanStoreItem_InBag E p i d T c merge non_spec src bag slot"

definition store_specific_slot ::
  "stores \<Rightarrow> Player \<Rightarrow> ItemTemplate \<Rightarrow> item_ref option \<Rightarrow> u8 \<Rightarrow> u8 \<Rightarrow> bool \<Rightarrow> u32 \<Rightarrow> search \<Rightarrow> search" where
  "store_specific_slot E p T src bag slot swap ns s =
     (if bag \<noteq> NULL_BAG \<and> slot \<noteq> NULL_SLOT
      then must ns (\<lambda>d c. CanStoreItem_InSpecificSlot E p bag slot d T c swap src) s
      else s)"

definition bag_merge ::
  "stores \<Rightarrow> Player \<Rightarrow> ItemTemplate \<Rightarrow> item_ref option \<Rightarrow> u8 \<Rightarrow> u8 \<Rightarrow> u32 \<Rightarrow> search \<Rightarrow> search" where
  "bag_merge E p T src bag slot ns s =
     (if Stackable T \<noteq> 1 then
        (if bag = INVENTORY_SLOT_BAG_0 then
           must ns (in_slots E p T src bag slot INVENTORY_SLOT_ITEM_START INVENTORY_SLOT_ITEM_END True)
             (must ns (in_slots E p T src bag slot KEYRING_SLOT_START CURRENCYTOKEN_SLOT_END True) s)
         else
           must ns (or_else (in_bag E p T src NULL_BAG slot True False bag)
                            (in_bag E p T src NULL_BAG slot True True bag)) s)
      else s)"

definition bag_free ::
  "stores \<Rightarrow> Player \<Rightarrow> ItemTemplate \<Rightarrow> item_ref option \<Rightarrow> u8 \<Rightarrow> u8 \<Rightarrow> u32 \<Rightarrow> search \<Rightarrow> search" where
  "bag_free E p T src bag slot ns s =
     (if bag = INVENTORY_SLOT_BAG_0 then
        (let s1 =
           (if has_bits (BagFamily T) BAG_FAMILY_MASK_KEYS then
              must ns (in_slots E p T src bag slot CURRENCYTOKEN_SLOT_START CURRENCYTOKEN_SLOT_END False)
                (must ns (in_slots E p T src bag slot KEYRING_SLOT_START
                            (KEYRING_SLOT_START + GetMaxKeyringSize) False) s)
            else if IsCurrencyToken T then
              must ns (in_slots E p T src bag slot CURRENCYTOKEN_SLOT_START CURRENCYTOKEN_SLOT_END False) s
            else s)
         in must ns (in_slots E p T src bag slot INVENTORY_SLOT_ITEM_START INVENTORY_SLOT_ITEM_END False) s1)
      else
        must ns (or_else (in_bag E p T src NULL_BAG slot False False bag)
                         (in_bag E p T src NULL_BAG slot False True bag)) s)"

definition store_specific_bag ::
  "stores \<Rightarrow> Player \<Rightarrow> ItemTemplate \<Rightarrow> item_ref option \<Rightarrow> u8 \<Rightarrow> u8 \<Rightarrow> u32 \<Rightarrow> search \<Rightarrow> search" where
  "store_specific_bag E p T src bag slot ns s =
     (if bag \<noteq> NULL_BAG then bag_free E p T src bag slot ns (bag_merge E p T src bag slot ns s) else s)"

definition store_merge ::
  "stores \<Rightarrow> Player \<Rightarrow> ItemTemplate \<Rightarrow> item_ref option \<Rightarrow> u8 \<Rightarrow> u8 \<Rightarrow> u32 \<Rightarrow> search \<Rightarrow> search" where
  "store_merge E p T src bag slot ns s =
     (if Stackable T \<noteq> 1 then
        (let s1 = must ns (in_slots E p T src bag slot KEYRING_SLOT_START CURRENCYTOKEN_SLOT_END True) s;
             s2 = must ns (in_slots E p T src bag slot INVENTORY_SLOT_ITEM_START INVENTORY_SLOT_ITEM_END True) s1;
             s3 = (if BagFamily T \<noteq> 0
                   then each_bag ns INVENTORY_SLOT_BAG_START INVENTORY_SLOT_BAG_END
                          (in_bag E p T src bag slot True False) s2
                   else s2)
         in each_bag ns INVENTORY_SLOT_BAG_START INVENTORY_SLOT_BAG_END (in_bag E p T src bag slot True True) s3)
      else s)"

definition store_special ::
  "stores \<Rightarrow> Player \<Rightarrow> ItemTemplate \<Rightarrow> item_ref option \<Rightarrow> u8 \<Rightarrow> u8 \<Rightarrow> u32 \<Rightarrow> search \<Rightarrow> search" where
  "store_special E p T src bag slot ns s =
     (if BagFamily T \<noteq> 0 then
        (let s1 =
           (if has_bits (BagFamily T) BAG_FAMILY_MASK_KEYS then
              must ns (in_slots E p T src bag slot KEYRING_SLOT_START
                         (KEYRING_SLOT_START + GetMaxKeyringSize) False) s
            else if IsCurrencyToken T then
              must ns (in_slots E p T src bag slot CURRENCYTOKEN_SLOT_START CURRENCYTOKEN_SLOT_END False) s
            else s)
         in each_bag ns INVENTORY_SLOT_BAG_START INVENTORY_SLOT_BAG_END (in_bag E p T src bag slot False False) s1)
      else s)"

text \<open>A source that is a bag with something in it ends the search here.\<close>

definition refuse_full_bag :: "stores \<Rightarrow> Player \<Rightarrow> item_ref option \<Rightarrow> search \<Rightarrow> search" where
  "refuse_full_bag E p src s =
     (case s of
        Done r d n \<Rightarrow> Done r d n
      | Search d c \<Rightarrow>
          if (case src of Some i \<Rightarrow> IsNotEmptyBag E (heap p i) | None \<Rightarrow> False)
          then Done EQUIP_ERR_NONEMPTY_BAG_OVER_OTHER_BAG d None else Search d c)"

definition store_free ::
  "stores \<Rightarrow> Player \<Rightarrow> ItemTemplate \<Rightarrow> item_ref option \<Rightarrow> u8 \<Rightarrow> u8 \<Rightarrow> u32 \<Rightarrow> search \<Rightarrow> search" where
  "store_free E p T src bag slot ns s =
     each_bag ns INVENTORY_SLOT_BAG_START INVENTORY_SLOT_BAG_END (in_bag E p T src bag slot False True)
       (must ns (in_slots E p T src bag slot INVENTORY_SLOT_ITEM_START INVENTORY_SLOT_ITEM_END False) s)"

fun inventory_full :: "u32 \<Rightarrow> search \<Rightarrow> InventoryResult \<times> ItemPosCountVec \<times> u32 option" where
  "inventory_full ns (Done r d n) = (r, d, n)"
| "inventory_full ns (Search d c) = (EQUIP_ERR_INVENTORY_FULL, d, Some (c + ns))"

definition CanStoreItem ::
  "stores \<Rightarrow> Player \<Rightarrow> u8 \<Rightarrow> u8 \<Rightarrow> ItemPosCountVec \<Rightarrow> u32 \<Rightarrow> u32 \<Rightarrow> item_ref option \<Rightarrow> bool
     \<Rightarrow> InventoryResult \<times> ItemPosCountVec \<times> u32 option" where
  "CanStoreItem E p bag slot dest ent count pItem swap =
     (case item_templates E ent of
        None \<Rightarrow> ((if swap then EQUIP_ERR_ITEMS_CANT_BE_SWAPPED else EQUIP_ERR_ITEM_NOT_FOUND), dest, Some count)
      | Some T \<Rightarrow>
          if (case pItem of Some i \<Rightarrow> it_lootGenerated (heap p i) | None \<Rightarrow> False)
          then (EQUIP_ERR_ALREADY_LOOTED, dest, Some count)
          else if (case pItem of Some i \<Rightarrow> IsBindedNotWith E (heap p i) (pl_guid p) | None \<Rightarrow> False)
          then (EQUIP_ERR_DONT_OWN_THAT_ITEM, dest, Some count)
          else
            (case CanTakeMoreSimilarItems E p ent count pItem of (res, written, _) \<Rightarrow>
               (let ns = (case written of Some n \<Rightarrow> n | None \<Rightarrow> 0)
                in if res \<noteq> EQUIP_ERR_OK \<and> count = ns then (res, dest, Some ns)
                   else
                     (let left = (if res \<noteq> EQUIP_ERR_OK then count - ns else count)
                      in inventory_full ns
                           (store_free E p T pItem bag slot ns
                             (refuse_full_bag E p pItem
                               (store_special E p T pItem bag slot ns
                                 (store_merge E p T pItem bag slot ns
                                   (store_specific_bag E p T pItem bag slot ns
                                     (store_specific_slot E p T pItem bag slot swap ns
                                       (Search dest left)))))))))))"

definition CanStoreNewItem ::
  "stores \<Rightarrow> Player \<Rightarrow> u8 \<Rightarrow> u8 \<Rightarrow> ItemPosCountVec \<Rightarrow> u32 \<Rightarrow> u32 \<Rightarrow> InventoryResult \<times> ItemPosCountVec \<times> u32 option" where
  "CanStoreNewItem E p bag slot dest item count = CanStoreItem E p bag slot dest item count None False"

text \<open>The overload on an item passes no \<open>no_space_count\<close>.\<close>

definition CanStoreItem_item ::
  "stores \<Rightarrow> Player \<Rightarrow> u8 \<Rightarrow> u8 \<Rightarrow> ItemPosCountVec \<Rightarrow> item_ref option \<Rightarrow> bool \<Rightarrow> InventoryResult \<times> ItemPosCountVec" where
  "CanStoreItem_item E p bag slot dest pItem swap =
     (case pItem of
        None \<Rightarrow> (EQUIP_ERR_ITEM_NOT_FOUND, dest)
      | Some i \<Rightarrow>
          (case CanStoreItem E p bag slot dest (it_entry (heap p i)) (it_count (heap p i)) pItem swap of
             (res, d, _) \<Rightarrow> (res, d)))"

section \<open>CanBankItem\<close>

text \<open>
  The same searches over the bank. There is no \<open>no_space_count\<close>, so nothing is said to be left
  over (\<open>no_similar\<close> is 0). The number of bag slots the player has bought and the answer of
  \<open>CanUseItem\<close> are arguments.
\<close>

definition bank_specific_slot ::
  "stores \<Rightarrow> Player \<Rightarrow> ItemTemplate \<Rightarrow> item_ref \<Rightarrow> u8 \<Rightarrow> u8 \<Rightarrow> bool \<Rightarrow> u8 \<Rightarrow> InventoryResult \<Rightarrow> search \<Rightarrow> search" where
  "bank_specific_slot E p T i bag slot swap bankBagSlots useResult s =
     (case s of
        Done r d n \<Rightarrow> Done r d n
      | Search d c \<Rightarrow>
          if bag \<noteq> NULL_BAG \<and> slot \<noteq> NULL_SLOT then
            (if slot \<ge> BANK_SLOT_BAG_START \<and> slot < BANK_SLOT_BAG_END \<and> \<not> IsBag E (heap p i)
             then Done EQUIP_ERR_ITEM_DOESNT_GO_TO_SLOT d None
             else if slot \<ge> BANK_SLOT_BAG_START \<and> slot < BANK_SLOT_BAG_END
                     \<and> slot - BANK_SLOT_BAG_START \<ge> bankBagSlots
             then Done EQUIP_ERR_MUST_PURCHASE_THAT_BAG_SLOT d None
             else if slot \<ge> BANK_SLOT_BAG_START \<and> slot < BANK_SLOT_BAG_END \<and> useResult \<noteq> EQUIP_ERR_OK
             then Done useResult d None
             else must 0 (\<lambda>d c. CanStoreItem_InSpecificSlot E p bag slot d T c swap (Some i)) s)
          else s)"

definition bank_specific_bag ::
  "stores \<Rightarrow> Player \<Rightarrow> ItemTemplate \<Rightarrow> item_ref \<Rightarrow> u8 \<Rightarrow> u8 \<Rightarrow> search \<Rightarrow> search" where
  "bank_specific_bag E p T i bag slot s =
     (if bag \<noteq> NULL_BAG then
        (let src = Some i;
             s0 = refuse_full_bag E p src s;
             s1 =
               (if Stackable T \<noteq> 1 then
                  (if bag = INVENTORY_SLOT_BAG_0 then
                     must 0 (in_slots E p T src bag slot BANK_SLOT_ITEM_START BANK_SLOT_ITEM_END True) s0
                   else
                     must 0 (or_else (in_bag E p T src NULL_BAG slot True False bag)
                                     (in_bag E p T src NULL_BAG slot True True bag)) s0)
                else s0)
         in if bag = INVENTORY_SLOT_BAG_0 then
              must 0 (in_slots E p T src bag slot BANK_SLOT_ITEM_START BANK_SLOT_ITEM_END False) s1
            else
              must 0 (or_else (in_bag E p T src NULL_BAG slot False False bag)
                              (in_bag E p T src NULL_BAG slot False True bag)) s1)
      else s)"

definition bank_anywhere ::
  "stores \<Rightarrow> Player \<Rightarrow> ItemTemplate \<Rightarrow> item_ref \<Rightarrow> u8 \<Rightarrow> u8 \<Rightarrow> search \<Rightarrow> search" where
  "bank_anywhere E p T i bag slot s =
     (let src = Some i;
          bags = (\<lambda>merge non_spec. each_bag 0 BANK_SLOT_BAG_START BANK_SLOT_BAG_END
                                    (in_bag E p T src bag slot merge non_spec));
          slots = (\<lambda>merge. must 0 (in_slots E p T src bag slot BANK_SLOT_ITEM_START BANK_SLOT_ITEM_END merge));
          s1 = (if Stackable T \<noteq> 1
                then bags True True (if BagFamily T \<noteq> 0 then bags True False (slots True s) else slots True s)
                else s);
          s2 = (if BagFamily T \<noteq> 0 then bags False False s1 else s1)
      in bags False True (slots False s2))"

fun bank_full :: "search \<Rightarrow> InventoryResult \<times> ItemPosCountVec" where
  "bank_full (Done r d n) = (r, d)"
| "bank_full (Search d c) = (EQUIP_ERR_BANK_FULL, d)"

definition CanBankItem ::
  "stores \<Rightarrow> Player \<Rightarrow> u8 \<Rightarrow> u8 \<Rightarrow> ItemPosCountVec \<Rightarrow> item_ref option \<Rightarrow> bool \<Rightarrow> u8 \<Rightarrow> InventoryResult
     \<Rightarrow> InventoryResult \<times> ItemPosCountVec" where
  "CanBankItem E p bag slot dest pItem swap bankBagSlots useResult =
     (let none = (if swap then EQUIP_ERR_ITEMS_CANT_BE_SWAPPED else EQUIP_ERR_ITEM_NOT_FOUND)
      in case pItem of
           None \<Rightarrow> (none, dest)
         | Some i \<Rightarrow>
             (case GetTemplate E (heap p i) of
                None \<Rightarrow> (none, dest)
              | Some T \<Rightarrow>
                  if it_lootGenerated (heap p i) then (EQUIP_ERR_ALREADY_LOOTED, dest)
                  else if IsBindedNotWith E (heap p i) (pl_guid p) then (EQUIP_ERR_DONT_OWN_THAT_ITEM, dest)
                  else if it_slot (heap p i) \<ge> CURRENCYTOKEN_SLOT_START
                          \<and> it_slot (heap p i) < CURRENCYTOKEN_SLOT_END
                  then (EQUIP_ERR_ITEMS_CANT_BE_SWAPPED, dest)
                  else
                    (case CanTakeMoreSimilarItems E p (it_entry (heap p i)) (it_count (heap p i)) pItem of
                       (res, _, _) \<Rightarrow>
                         if res \<noteq> EQUIP_ERR_OK then (res, dest)
                         else bank_full
                                (bank_anywhere E p T i bag slot
                                  (bank_specific_bag E p T i bag slot
                                    (bank_specific_slot E p T i bag slot swap bankBagSlots useResult
                                      (Search dest (it_count (heap p i)))))))))"

section \<open>Positions as words\<close>

lemma pos_bag_mk [simp]: "pos_bag (mk_pos b s) = b"
  unfolding pos_bag_def mk_pos_def
  by (rule bit_word_eqI) (auto simp: bit_simps dest: bit_imp_le_length)

lemma pos_slot_mk [simp]: "pos_slot (mk_pos b s) = s"
proof -
  have m: "(255 :: u16) = mask 8" by (simp add: mask_eq_exp_minus_1)
  show ?thesis
    unfolding pos_slot_def mk_pos_def m
    by (rule bit_word_eqI) (auto simp: bit_simps)
qed

lemma mk_pos_inject [simp]: "mk_pos b s = mk_pos b' s' \<longleftrightarrow> b = b' \<and> s = s'"
  by (metis pos_bag_mk pos_slot_mk)

lemma unat_of_nat_less: "n < unat (b :: u8) \<Longrightarrow> unat (of_nat n :: u8) = n"
  using unsigned_less [where w = b and 'a = nat] by (simp add: unat_of_nat)

lemma set_slot_range: "set (slot_range a b) = {i. a \<le> i \<and> i < b}"
proof -
  note unat_of_slot = unat_of_nat_less [of _ b]
  have "(of_nat n :: u8) \<in> {i. a \<le> i \<and> i < b}" if "n \<in> set [unat a..<unat b]" for n
    using that unat_of_slot by (auto simp: word_le_nat_alt word_less_nat_alt)
  moreover have "i \<in> of_nat ` set [unat a..<unat b]" if "a \<le> i" "i < b" for i
    using that by (intro image_eqI [of _ _ "unat i"]) (auto simp: word_le_nat_alt word_less_nat_alt)
  ultimately show ?thesis unfolding slot_range_def by auto
qed

lemma distinct_slot_range: "distinct (slot_range a b)"
proof -
  note unat_of_slot = unat_of_nat_less [of _ b]
  have "inj_on (of_nat :: nat \<Rightarrow> u8) (set [unat a..<unat b])"
    by (intro inj_onI) (metis atLeastLessThan_iff set_upt unat_of_slot)
  then show ?thesis by (simp add: slot_range_def distinct_map)
qed

section \<open>What a search keeps\<close>

text \<open>
  \<open>keeps I f\<close>: the search \<open>f\<close> keeps the relation \<open>I\<close> between the positions found and the
  count left. \<open>search_ok\<close> lifts it to the whole search: one that is done with \<open>OK\<close> has
  nothing left, and one that reports a count reports what is left plus what was ruled out before.
\<close>

definition keeps :: "(ItemPosCountVec \<Rightarrow> u32 \<Rightarrow> bool) \<Rightarrow> slot_search \<Rightarrow> bool" where
  "keeps I f \<longleftrightarrow> (\<forall>d c r d' c'. I d c \<longrightarrow> f d c = (r, d', c') \<longrightarrow> I d' c')"

definition search_ok :: "(ItemPosCountVec \<Rightarrow> u32 \<Rightarrow> bool) \<Rightarrow> u32 \<Rightarrow> search \<Rightarrow> bool" where
  "search_ok I ns s =
     (case s of
        Search d c \<Rightarrow> I d c
      | Done r d n \<Rightarrow> (\<exists>c. I d c \<and> (r = EQUIP_ERR_OK \<longrightarrow> c = 0 \<and> ns = 0) \<and> (\<forall>k. n = Some k \<longrightarrow> k = c + ns)))"

lemma keepsI: "(\<And>d c r d' c'. I d c \<Longrightarrow> f d c = (r, d', c') \<Longrightarrow> I d' c') \<Longrightarrow> keeps I f"
  by (auto simp: keeps_def)

lemma if_placed_ok: "I d c \<Longrightarrow> search_ok I ns (if_placed ns d c)"
  by (auto simp: search_ok_def if_placed_def)

lemma must_ok: "keeps I f \<Longrightarrow> search_ok I ns s \<Longrightarrow> search_ok I ns (must ns f s)"
proof (cases s)
  case (Search d c)
  assume k: "keeps I f" and "search_ok I ns s"
  then have i: "I d c" by (simp add: search_ok_def Search)
  obtain r d' c' where f: "f d c = (r, d', c')" by (cases "f d c") auto
  then have "I d' c'" using k i by (auto simp: keeps_def)
  then show ?thesis
    using f if_placed_ok [of I d' c' ns] by (auto simp: Search search_ok_def)
qed simp

lemma may_ok: "keeps I f \<Longrightarrow> search_ok I ns s \<Longrightarrow> search_ok I ns (may ns f s)"
proof (cases s)
  case (Search d c)
  assume k: "keeps I f" and "search_ok I ns s"
  then have i: "I d c" by (simp add: search_ok_def Search)
  obtain r d' c' where f: "f d c = (r, d', c')" by (cases "f d c") auto
  then have "I d' c'" using k i by (auto simp: keeps_def)
  then show ?thesis
    using f if_placed_ok [of I d' c' ns] by (auto simp: Search search_ok_def)
qed simp

lemma or_else_keeps: "keeps I f \<Longrightarrow> keeps I g \<Longrightarrow> keeps I (or_else f g)"
proof (intro keepsI)
  fix d c r d' c'
  assume k: "keeps I f" "keeps I g" and i: "I d c" and e: "or_else f g d c = (r, d', c')"
  obtain r1 d1 c1 where f: "f d c = (r1, d1, c1)" by (cases "f d c") auto
  then have "I d1 c1" using k(1) i unfolding keeps_def by blast
  moreover have "(r1, d1, c1) = (r, d', c') \<or> g d1 c1 = (r, d', c')"
    using e f by (simp add: or_else_def split: if_splits)
  ultimately show "I d' c'" using k(2) unfolding keeps_def by blast
qed

lemma each_bag_ok:
  assumes "\<And>i. keeps I (f i)" and "search_ok I ns s"
  shows "search_ok I ns (each_bag ns a b f s)"
  unfolding each_bag_def
  by (rule foldl_invariant) (use assms may_ok in blast)+

lemma refuse_full_bag_ok: "search_ok I ns s \<Longrightarrow> search_ok I ns (refuse_full_bag E p src s)"
  by (auto simp: search_ok_def refuse_full_bag_def split: search.splits)

lemmas search_intros = must_ok may_ok each_bag_ok refuse_full_bag_ok or_else_keeps

section \<open>Where items fit\<close>

text \<open>Room for \<open>n\<close> items in a cell: a free one takes a stack, a stack what is missing to a full one.\<close>

definition cell_room :: "Player \<Rightarrow> ItemTemplate \<Rightarrow> item_ref option \<Rightarrow> item_ref option \<Rightarrow> u32 \<Rightarrow> bool" where
  "cell_room p T src r n \<longleftrightarrow>
     (case ignore_src src r of
        None \<Rightarrow> n \<le> GetMaxStackSize T
      | Some i \<Rightarrow> CanBeMergedPartlyWith (heap p i) T = EQUIP_ERR_OK
                  \<and> n \<le> GetMaxStackSize T - it_count (heap p i))"

lemma cell_room_le: "cell_room p T src r n \<Longrightarrow> k \<le> n \<Longrightarrow> cell_room p T src r k"
  by (auto simp: cell_room_def split: option.splits)

lemma merged_count:
  assumes "CanBeMergedPartlyWith it T = EQUIP_ERR_OK" and "n \<le> GetMaxStackSize T - it_count it"
  shows "unat (it_count it) + unat n \<le> unat (GetMaxStackSize T)"
proof -
  have "it_count it < GetMaxStackSize T"
    using assms(1) by (auto simp: CanBeMergedPartlyWith_def split: if_splits)
  then have "unat (GetMaxStackSize T - it_count it) = unat (GetMaxStackSize T) - unat (it_count it)"
    and "unat (it_count it) \<le> unat (GetMaxStackSize T)"
    by (auto simp: unat_sub_if' word_le_nat_alt word_less_nat_alt)
  with assms(2) show ?thesis by (simp add: word_le_nat_alt)
qed

lemma merged_entry: "CanBeMergedPartlyWith it T = EQUIP_ERR_OK \<Longrightarrow> it_entry it = ItemId T"
  by (auto simp: CanBeMergedPartlyWith_def split: if_splits)

text \<open>The cells an item may go to: backpack, keyring and tokens, and bags that accept it.\<close>

definition store_cell :: "stores \<Rightarrow> Player \<Rightarrow> ItemTemplate \<Rightarrow> u8 \<Rightarrow> u8 \<Rightarrow> bool" where
  "store_cell E p T bag slot \<longleftrightarrow>
     (bag = INVENTORY_SLOT_BAG_0
        \<and> (INVENTORY_SLOT_ITEM_START \<le> slot \<and> slot < INVENTORY_SLOT_ITEM_END
           \<or> KEYRING_SLOT_START \<le> slot \<and> slot < CURRENCYTOKEN_SLOT_END))
     \<or> (\<exists>b B. GetBagByPos E p bag = Some b \<and> GetTemplate E (heap p b) = Some B
              \<and> ItemCanGoIntoBag T B \<and> ucast slot < GetBagSize (heap p b))"

definition fits ::
  "stores \<Rightarrow> Player \<Rightarrow> ItemTemplate \<Rightarrow> item_ref option \<Rightarrow> u8 \<Rightarrow> u8 \<Rightarrow> bool \<Rightarrow> ItemPosCount \<Rightarrow> bool" where
  "fits E p T src bag slot swap x \<longleftrightarrow>
     (let b = pos_bag (ipc_pos x); s = pos_slot (ipc_pos x)
      in (cell_room p T src (GetItemByPos E p b s) (ipc_count x)
          \<or> swap \<and> b = bag \<and> s = slot \<and> ipc_count x \<le> GetMaxStackSize T)
         \<and> (b = bag \<and> s = slot \<and> bag \<noteq> NULL_BAG \<and> slot \<noteq> NULL_SLOT \<or> store_cell E p T b s))"

text \<open>The positions found are pairwise different, hold what was placed so far, and satisfy \<open>A\<close>.\<close>

definition placed :: "(ItemPosCount \<Rightarrow> bool) \<Rightarrow> u32 \<Rightarrow> ItemPosCountVec \<Rightarrow> u32 \<Rightarrow> bool" where
  "placed A tot d c \<longleftrightarrow>
     distinct (map ipc_pos d) \<and> sum_list (map (\<lambda>x. unat (ipc_count x)) d) + unat c = unat tot
     \<and> (\<forall>x \<in> set d. A x)"

lemma placed_push:
  assumes "placed A tot d c" and "n \<le> c" and "\<not> isContainedIn \<lparr>ipc_pos = q, ipc_count = n\<rparr> d"
    and "A \<lparr>ipc_pos = q, ipc_count = n\<rparr>"
  shows "placed A tot (d @ [\<lparr>ipc_pos = q, ipc_count = n\<rparr>]) (c - n)"
proof -
  have "unat (c - n) + unat n = unat c"
    using assms(2) by (simp add: unat_sub_if' word_le_nat_alt)
  with assms show ?thesis by (auto simp: placed_def isContainedIn_def)
qed

lemma push_pos_placed:
  assumes "placed A tot d c" and "\<And>n. n \<le> space \<Longrightarrow> A \<lparr>ipc_pos = q, ipc_count = n\<rparr>"
    and "push_pos q space d c = (d', c')"
  shows "placed A tot d' c'"
  using assms placed_push [OF assms(1), of "if space > c then c else space" q]
  by (auto simp: push_pos_def Let_def split: if_splits)

lemma cell_space_room: "cell_space p T merge src r = Some n \<Longrightarrow> cell_room p T src r n"
  by (auto simp: cell_space_def cell_room_def split: option.splits if_splits)

lemma place_loop_placed:
  assumes "placed A tot d c"
    and "\<And>q r n. (q, r) \<in> set cells \<Longrightarrow> cell_room p T src r n \<Longrightarrow> A \<lparr>ipc_pos = q, ipc_count = n\<rparr>"
    and "place_loop p T merge src cells d c = (d', c')"
  shows "placed A tot d' c'"
  using assms
proof (induction cells arbitrary: d c)
  case (Cons qr cells)
  obtain q r where qr: "qr = (q, r)" by fastforce
  have rest: "A \<lparr>ipc_pos = q, ipc_count = n\<rparr>" if "(q, r) \<in> set cells" "cell_room p T src r n" for q r n
    using that by (intro Cons.prems(2)) auto
  show ?case
  proof (cases "cell_space p T merge src r")
    case None
    then show ?thesis using Cons.IH [OF Cons.prems(1) rest] Cons.prems(3) by (simp add: qr)
  next
    case (Some space)
    define n where "n = (if space > c then c else space)"
    define x where "x = \<lparr>ipc_pos = q, ipc_count = n\<rparr>"
    have step: "(if isContainedIn x d then place_loop p T merge src cells d c
        else if c - n = 0 then (d @ [x], 0) else place_loop p T merge src cells (d @ [x]) (c - n)) = (d', c')"
      using Cons.prems(3) by (simp only: qr place_loop.simps Some option.simps Let_def n_def x_def)
    have "A x"
      unfolding x_def using cell_room_le [OF cell_space_room [OF Some], of n]
      by (intro Cons.prems(2) [of q r]) (auto simp: qr n_def)
    then have pl: "placed A tot (d @ [x]) (c - n)" if "\<not> isContainedIn x d"
    proof -
      have "n \<le> c" by (simp add: n_def not_less)
      from placed_push [OF Cons.prems(1) this] that \<open>A x\<close> show ?thesis unfolding x_def by blast
    qed
    show ?thesis
    proof (cases "isContainedIn x d")
      case True
      then show ?thesis using step Cons.IH [OF Cons.prems(1) rest] by simp
    next
      case False
      then show ?thesis using step pl Cons.IH [OF pl [OF False] rest] by (auto split: if_splits)
    qed
  qed
qed simp

lemma keeps_InInventorySlots:
  assumes "\<And>j n. a \<le> j \<Longrightarrow> j < b \<Longrightarrow> cell_room p T src (GetItemByPos E p INVENTORY_SLOT_BAG_0 j) n
      \<Longrightarrow> A \<lparr>ipc_pos = mk_pos INVENTORY_SLOT_BAG_0 j, ipc_count = n\<rparr>"
  shows "keeps (placed A tot) (\<lambda>d c. CanStoreItem_InInventorySlots E p a b d T c merge src sb ss)"
proof (rule keepsI)
  fix d c r d' c'
  assume "placed A tot d c" and "CanStoreItem_InInventorySlots E p a b d T c merge src sb ss = (r, d', c')"
  then show "placed A tot d' c'"
    using place_loop_placed [of A tot d c "slot_positions E p a b sb ss" p T src merge d' c'] assms
    by (auto simp: CanStoreItem_InInventorySlots_def slot_positions_def set_slot_range split: if_splits)
qed

lemma GetBagByPos_slot: "GetBagByPos E p bag = Some b \<Longrightarrow> bag \<noteq> INVENTORY_SLOT_BAG_0"
  by (auto simp: GetBagByPos_def is_bag_slot_def split: if_splits)

lemma GetItemByPos_in_bag:
  "GetBagByPos E p bag = Some b \<Longrightarrow> GetItemByPos E p bag slot = Bag_GetItemByPos (heap p b) slot"
  using GetBagByPos_slot by (fastforce simp: GetItemByPos_def)

lemma u8_of_nat_less: "j < unat (n :: u32) \<Longrightarrow> ucast (of_nat j :: u8) < n"
proof -
  assume "j < unat n"
  moreover have "unat (ucast (of_nat j :: u8) :: u32) \<le> unat (of_nat j :: u8)"
    by (simp add: unsigned_ucast_eq)
  moreover have "unat (of_nat j :: u8) \<le> j" by (simp add: unat_of_nat)
  ultimately show ?thesis by (simp add: word_less_nat_alt)
qed

lemma keeps_InBag:
  assumes "\<And>b B j n. GetBagByPos E p bag = Some b \<Longrightarrow> GetTemplate E (heap p b) = Some B \<Longrightarrow> ItemCanGoIntoBag T B
      \<Longrightarrow> ucast j < GetBagSize (heap p b) \<Longrightarrow> cell_room p T src (GetItemByPos E p bag j) n
      \<Longrightarrow> A \<lparr>ipc_pos = mk_pos bag j, ipc_count = n\<rparr>"
  shows "keeps (placed A tot) (\<lambda>d c. CanStoreItem_InBag E p bag d T c merge ns src sb ss)"
proof (rule keepsI)
  fix d c r d' c'
  assume pl: "placed A tot d c" and f: "CanStoreItem_InBag E p bag d T c merge ns src sb ss = (r, d', c')"
  show "placed A tot d' c'"
  proof (cases "d' = d \<and> c' = c")
    case False
    then obtain b B where b: "GetBagByPos E p bag = Some b" "GetTemplate E (heap p b) = Some B" "ItemCanGoIntoBag T B"
      and l: "place_loop p T merge src (bag_positions p bag b ss) d c = (d', c')"
      using f by (auto simp: CanStoreItem_InBag_def split: if_splits option.splits)
    show ?thesis
      using assms [OF b] b(1)
      by (intro place_loop_placed [OF pl _ l])
        (auto simp: bag_positions_def GetItemByPos_in_bag u8_of_nat_less)
  qed (use pl in simp)
qed

lemma keeps_InSpecificSlot:
  assumes "\<And>n. cell_room p T src (GetItemByPos E p bag slot) n \<Longrightarrow> A \<lparr>ipc_pos = mk_pos bag slot, ipc_count = n\<rparr>"
    and "\<And>n. swap \<Longrightarrow> n \<le> GetMaxStackSize T \<Longrightarrow> A \<lparr>ipc_pos = mk_pos bag slot, ipc_count = n\<rparr>"
  shows "keeps (placed A tot) (\<lambda>d c. CanStoreItem_InSpecificSlot E p bag slot d T c swap src)"
proof (rule keepsI)
  fix d c r d' c'
  assume pl: "placed A tot d c" and f: "CanStoreItem_InSpecificSlot E p bag slot d T c swap src = (r, d', c')"
  define i where "i = ignore_src src (GetItemByPos E p bag slot)"
  consider "d' = d \<and> c' = c"
    | "i = None \<or> swap" "push_pos (mk_pos bag slot) (GetMaxStackSize T) d c = (d', c')"
    | j where "i = Some j" "CanBeMergedPartlyWith (heap p j) T = EQUIP_ERR_OK"
      "push_pos (mk_pos bag slot) (GetMaxStackSize T - it_count (heap p j)) d c = (d', c')"
    using f unfolding CanStoreItem_InSpecificSlot_def i_def [symmetric] Let_def
    by (cases i) (auto split: if_splits)
  then show "placed A tot d' c'"
  proof cases
    case 1
    then show ?thesis using pl by simp
  next
    case 2
    have "A \<lparr>ipc_pos = mk_pos bag slot, ipc_count = n\<rparr>" if "n \<le> GetMaxStackSize T" for n
    proof (cases swap)
      case False
      then have "cell_room p T src (GetItemByPos E p bag slot) n"
        using that 2(1) by (simp add: cell_room_def i_def)
      then show ?thesis by (rule assms(1))
    qed (use that assms(2) in blast)
    then show ?thesis using push_pos_placed [OF pl _ 2(2)] by blast
  next
    case 3
    have "A \<lparr>ipc_pos = mk_pos bag slot, ipc_count = n\<rparr>" if "n \<le> GetMaxStackSize T - it_count (heap p j)" for n
      using that 3(1,2) by (intro assms(1)) (simp add: cell_room_def i_def)
    then show ?thesis using push_pos_placed [OF pl _ 3(3)] by blast
  qed
qed

text \<open>The slot ranges \<open>CanStoreItem\<close> searches, and the argument for each of its searches.\<close>

definition store_range :: "u8 \<Rightarrow> u8 \<Rightarrow> bool" where
  "store_range a b \<longleftrightarrow>
     INVENTORY_SLOT_ITEM_START \<le> a \<and> b \<le> INVENTORY_SLOT_ITEM_END
     \<or> KEYRING_SLOT_START \<le> a \<and> b \<le> CURRENCYTOKEN_SLOT_END"

lemma keeps_in_slots:
  "store_range a b \<Longrightarrow> keeps (placed (fits E p T src bag slot swap) tot) (in_slots E p T src sb ss a b merge)"
  unfolding in_slots_def
  by (rule keeps_InInventorySlots) (auto simp: fits_def store_cell_def store_range_def Let_def)

lemma keeps_in_bag: "keeps (placed (fits E p T src bag slot swap) tot) (in_bag E p T src sb ss merge ns i)"
  unfolding in_bag_def
  by (rule keeps_InBag) (auto simp: fits_def store_cell_def Let_def)

lemma keeps_specific:
  assumes "bag \<noteq> NULL_BAG" and "slot \<noteq> NULL_SLOT"
  shows "keeps (placed (fits E p T src bag slot swap) tot)
     (\<lambda>d c. CanStoreItem_InSpecificSlot E p bag slot d T c swap src)"
  by (rule keeps_InSpecificSlot) (use assms in \<open>auto simp: fits_def Let_def\<close>)

lemma store_ranges:
  "store_range KEYRING_SLOT_START CURRENCYTOKEN_SLOT_END" "store_range INVENTORY_SLOT_ITEM_START INVENTORY_SLOT_ITEM_END"
  "store_range CURRENCYTOKEN_SLOT_START CURRENCYTOKEN_SLOT_END"
  "store_range KEYRING_SLOT_START (KEYRING_SLOT_START + GetMaxKeyringSize)"
  by (simp_all add: store_range_def GetMaxKeyringSize_def)

lemmas keeps_all = keeps_in_slots [OF store_ranges(1)] keeps_in_slots [OF store_ranges(2)]
  keeps_in_slots [OF store_ranges(3)] keeps_in_slots [OF store_ranges(4)] keeps_in_bag

lemma search_ok_specific_slot:
  "search_ok (placed (fits E p T src bag slot swap) tot) ns s
   \<Longrightarrow> search_ok (placed (fits E p T src bag slot swap) tot) ns (store_specific_slot E p T src bag slot swap ns s)"
  unfolding store_specific_slot_def by (auto intro!: must_ok keeps_specific)

lemma search_ok_specific_bag:
  assumes "search_ok (placed (fits E p T src bag slot swap) tot) ns s"
  shows "search_ok (placed (fits E p T src bag slot swap) tot) ns (store_specific_bag E p T src bag slot ns s)"
proof -
  have "search_ok (placed (fits E p T src bag slot swap) tot) ns (bag_merge E p T src bag slot ns s)"
    using assms unfolding bag_merge_def by (auto intro!: search_intros keeps_all)
  then have "search_ok (placed (fits E p T src bag slot swap) tot) ns
      (bag_free E p T src bag slot ns (bag_merge E p T src bag slot ns s))"
    unfolding bag_free_def Let_def by (auto intro!: search_intros keeps_all)
  with assms show ?thesis unfolding store_specific_bag_def by (cases "bag = NULL_BAG") simp_all
qed

lemma search_ok_merge:
  "search_ok (placed (fits E p T src bag slot swap) tot) ns s
   \<Longrightarrow> search_ok (placed (fits E p T src bag slot swap) tot) ns (store_merge E p T src bag slot ns s)"
  unfolding store_merge_def Let_def by (auto intro!: search_intros keeps_all)

lemma search_ok_special:
  "search_ok (placed (fits E p T src bag slot swap) tot) ns s
   \<Longrightarrow> search_ok (placed (fits E p T src bag slot swap) tot) ns (store_special E p T src bag slot ns s)"
  unfolding store_special_def Let_def by (auto intro!: search_intros keeps_all)

lemma search_ok_free:
  "search_ok (placed (fits E p T src bag slot swap) tot) ns s
   \<Longrightarrow> search_ok (placed (fits E p T src bag slot swap) tot) ns (store_free E p T src bag slot ns s)"
  unfolding store_free_def by (auto intro!: search_intros keeps_all)

text \<open>The chain of searches of \<open>CanStoreItem\<close>, from an empty list of positions.\<close>

definition store_chain ::
  "stores \<Rightarrow> Player \<Rightarrow> ItemTemplate \<Rightarrow> item_ref option \<Rightarrow> u8 \<Rightarrow> u8 \<Rightarrow> bool \<Rightarrow> u32 \<Rightarrow> u32 \<Rightarrow> search" where
  "store_chain E p T src bag slot swap ns c =
     store_free E p T src bag slot ns
       (refuse_full_bag E p src
         (store_special E p T src bag slot ns
           (store_merge E p T src bag slot ns
             (store_specific_bag E p T src bag slot ns
               (store_specific_slot E p T src bag slot swap ns (Search [] c))))))"

lemma store_chain_ok:
  "search_ok (placed (fits E p T src bag slot swap) c) ns (store_chain E p T src bag slot swap ns c)"
proof -
  have "search_ok (placed (fits E p T src bag slot swap) c) ns (Search [] c)"
    by (simp add: search_ok_def placed_def)
  then show ?thesis
    unfolding store_chain_def
    by (intro search_ok_free refuse_full_bag_ok search_ok_special search_ok_merge search_ok_specific_bag
        search_ok_specific_slot)
qed

lemma take_more_excess:
  assumes "CanTakeMoreSimilarItems E p ent count src = (e, w, l)" and "e \<noteq> EQUIP_ERR_OK"
    and "\<not> (case src of Some i \<Rightarrow> it_lootGenerated (heap p i) | None \<Rightarrow> False)"
  shows "\<exists>n. w = Some n \<and> (n = 0 \<longrightarrow> count = 0)"
proof -
  have sub: "a + b = m \<longleftrightarrow> False" if "m < b + a" for a b m :: u32
    using that by (auto simp: add.commute)
  show ?thesis
    using assms by (auto simp: CanTakeMoreSimilarItems_def Let_def sub split: option.splits if_splits)
qed

lemma CanStoreItem_cases:
  assumes "CanStoreItem E p bag slot [] ent count src swap = (res, dest, ns)"
  shows "(dest = [] \<and> ns = Some count \<and> res \<noteq> EQUIP_ERR_OK \<and> res \<noteq> EQUIP_ERR_INVENTORY_FULL)
    \<or> (\<exists>T e w l excess left. item_templates E ent = Some T
         \<and> CanTakeMoreSimilarItems E p ent count src = (e, w, l)
         \<and> excess = (case w of Some n \<Rightarrow> n | None \<Rightarrow> 0) \<and> left + excess = count
         \<and> (excess = 0 \<longrightarrow> e = EQUIP_ERR_OK)
         \<and> inventory_full excess (store_chain E p T src bag slot swap excess left) = (res, dest, ns))"
proof (rule disjCI)
  obtain e w l where take: "CanTakeMoreSimilarItems E p ent count src = (e, w, l)"
    by (cases "CanTakeMoreSimilarItems E p ent count src") auto
  define n where "n = (case w of Some n \<Rightarrow> n | None \<Rightarrow> 0)"
  have ok: "n = 0" if "e = EQUIP_ERR_OK"
    using take that
    by (auto simp: CanTakeMoreSimilarItems_def Let_def n_def split: option.splits if_splits)
  assume contr: "\<not> (\<exists>T e w l excess left. item_templates E ent = Some T
         \<and> CanTakeMoreSimilarItems E p ent count src = (e, w, l)
         \<and> excess = (case w of Some n \<Rightarrow> n | None \<Rightarrow> 0) \<and> left + excess = count
         \<and> (excess = 0 \<longrightarrow> e = EQUIP_ERR_OK)
         \<and> inventory_full excess (store_chain E p T src bag slot swap excess left) = (res, dest, ns))"
  have nf: "e \<noteq> EQUIP_ERR_INVENTORY_FULL"
    using take by (auto simp: CanTakeMoreSimilarItems_def Let_def split: option.splits if_splits)
  show "dest = [] \<and> ns = Some count \<and> res \<noteq> EQUIP_ERR_OK \<and> res \<noteq> EQUIP_ERR_INVENTORY_FULL"
  proof (rule ccontr)
    assume False: "\<not> (dest = [] \<and> ns = Some count \<and> res \<noteq> EQUIP_ERR_OK \<and> res \<noteq> EQUIP_ERR_INVENTORY_FULL)"
    then obtain T where T: "item_templates E ent = Some T"
      and nl: "\<not> (case src of Some i \<Rightarrow> it_lootGenerated (heap p i) | None \<Rightarrow> False)"
      and ne: "\<not> (e \<noteq> EQUIP_ERR_OK \<and> count = n)"
      and r: "inventory_full n (store_chain E p T src bag slot swap n (if e \<noteq> EQUIP_ERR_OK then count - n else count))
            = (res, dest, ns)"
      using assms take nf unfolding CanStoreItem_def store_chain_def n_def
      by (auto simp: Let_def split: option.splits if_splits)
    have "n = 0 \<longrightarrow> e = EQUIP_ERR_OK"
    proof (intro impI, rule ccontr)
      assume "n = 0" "e \<noteq> EQUIP_ERR_OK"
      moreover from take_more_excess [OF take this(2) nl] obtain k where "w = Some k" "k = 0 \<longrightarrow> count = 0"
        by blast
      ultimately show False using ne by (simp add: n_def)
    qed
    moreover have "(if e \<noteq> EQUIP_ERR_OK then count - n else count) + n = count"
      by (cases "e = EQUIP_ERR_OK") (simp_all add: ok)
    ultimately have "\<exists>left. item_templates E ent = Some T \<and> CanTakeMoreSimilarItems E p ent count src = (e, w, l)
        \<and> n = (case w of Some n \<Rightarrow> n | None \<Rightarrow> 0) \<and> left + n = count \<and> (n = 0 \<longrightarrow> e = EQUIP_ERR_OK)
        \<and> inventory_full n (store_chain E p T src bag slot swap n left) = (res, dest, ns)"
      using T take r n_def by (intro exI conjI) assumption+
    with contr show False by (elim notE exE) (intro exI, assumption)
  qed
qed

lemma inventory_full_ok:
  assumes "inventory_full ns s = (res, dest, w)" and "search_ok I ns s"
  shows "\<exists>c. I dest c \<and> (res = EQUIP_ERR_OK \<longrightarrow> c = 0 \<and> ns = 0) \<and> (\<forall>k. w = Some k \<longrightarrow> k = c + ns)"
  using assms by (cases s) (auto simp: search_ok_def)

lemma of_nat_unat_id: "of_nat (unat x) = (x :: u32)"
  by simp

lemma sum_counts_word:
  "of_nat (sum_list (map (\<lambda>x. unat (ipc_count x)) d)) = sum_list (map ipc_count d)"
  by (induction d) auto

lemma CanStoreItem_facts:
  assumes "CanStoreItem E p bag slot [] ent count src swap = (EQUIP_ERR_OK, dest, ns)"
  shows "distinct (map ipc_pos dest) \<and> sum_list (map (\<lambda>x. unat (ipc_count x)) dest) = unat count
    \<and> (\<exists>T. item_templates E ent = Some T
         \<and> fst (CanTakeMoreSimilarItems E p ent count src) = EQUIP_ERR_OK
         \<and> (\<forall>x \<in> set dest. fits E p T src bag slot swap x))"
proof -
  from CanStoreItem_cases [OF assms] obtain T e w l excess left where T: "item_templates E ent = Some T"
    and take: "CanTakeMoreSimilarItems E p ent count src = (e, w, l)" and le: "left + excess = count"
    and e: "excess = 0 \<longrightarrow> e = EQUIP_ERR_OK"
    and full: "inventory_full excess (store_chain E p T src bag slot swap excess left) = (EQUIP_ERR_OK, dest, ns)"
    by blast
  from inventory_full_ok [OF full store_chain_ok]
  have pl: "placed (fits E p T src bag slot swap) left dest 0" and ex: "excess = 0"
    by auto
  show ?thesis using pl T le ex e take by (auto simp: placed_def)
qed

text \<open>Property C3: when \<open>CanStoreItem\<close> answers that the items can be stored, the positions it
  returns are pairwise different, hold exactly the items that were asked for, and each of them
  fits: the cell is the one asked for, or a backpack, keyring or token cell, or a cell of a bag
  that accepts the item; and it is free (or becomes free by the move) and gets at most a stack, or
  holds a stack of the same item that stays within the maximum.\<close>

theorem CanStoreItem_sound:
  assumes "CanStoreItem E p bag slot [] ent count src swap = (EQUIP_ERR_OK, dest, ns)"
  shows "distinct (map ipc_pos dest) \<and> sum_list (map (\<lambda>x. unat (ipc_count x)) dest) = unat count
    \<and> (\<exists>T. item_templates E ent = Some T
         \<and> fst (CanTakeMoreSimilarItems E p ent count src) = EQUIP_ERR_OK
         \<and> (\<forall>x \<in> set dest. fits E p T src bag slot swap x))"
  by (rule CanStoreItem_facts [OF assms])

text \<open>Whenever \<open>CanStoreItem\<close> reports a number through \<open>no_space_count\<close>, the
  items in the positions it returns and that number add up to the count asked for, in 32 bits.\<close>

theorem CanStoreItem_accounts:
  assumes "CanStoreItem E p bag slot [] ent count src swap = (res, dest, Some n)"
  shows "sum_list (map ipc_count dest) + n = count"
proof -
  from CanStoreItem_cases [OF assms] consider "dest = []" "n = count"
    | T excess left where "left + excess = count"
      "inventory_full excess (store_chain E p T src bag slot swap excess left) = (res, dest, Some n)"
    by blast
  then show ?thesis
  proof cases
    case 2
    from inventory_full_ok [OF 2(2) store_chain_ok] obtain c
      where pl: "placed (fits E p T src bag slot swap) left dest c" and n: "n = c + excess" by auto
    have "sum_list (map ipc_count dest) + c = left"
      using pl unfolding placed_def by (metis of_nat_add sum_counts_word of_nat_unat_id)
    then show ?thesis using n 2(1) by (auto simp: algebra_simps)
  qed simp
qed

section \<open>A full inventory is full\<close>

definition in_dest :: "u16 \<Rightarrow> ItemPosCountVec \<Rightarrow> bool" where
  "in_dest q d \<longleftrightarrow> q \<in> ipc_pos ` set d"

lemma place_loop_covers:
  assumes "place_loop p T merge src cells d c = (d', c')"
  shows "(\<forall>q. in_dest q d \<longrightarrow> in_dest q d')
    \<and> (c' \<noteq> 0 \<longrightarrow> (\<forall>(q, r) \<in> set cells. cell_space p T merge src r \<noteq> None \<longrightarrow> in_dest q d'))"
  using assms
proof (induction cells arbitrary: d c)
  case (Cons qr cells)
  obtain q r where qr: "qr = (q, r)" by fastforce
  show ?case
  proof (cases "cell_space p T merge src r")
    case None
    then show ?thesis using Cons.IH [of d c] Cons.prems by (auto simp: qr)
  next
    case (Some space)
    define x where "x = \<lparr>ipc_pos = q, ipc_count = (if space > c then c else space)\<rparr>"
    have step: "(if isContainedIn x d then place_loop p T merge src cells d c
        else if c - ipc_count x = 0 then (d @ [x], 0)
        else place_loop p T merge src cells (d @ [x]) (c - ipc_count x)) = (d', c')"
      using Cons.prems
      by (simp only: qr place_loop.simps Some option.simps Let_def x_def ItemPosCount.simps)
    have mem: "in_dest q d" if "isContainedIn x d"
      using that by (force simp: isContainedIn_def in_dest_def x_def)
    have new: "in_dest q (d @ [x])" "in_dest q' d \<Longrightarrow> in_dest q' (d @ [x])" for q'
      by (auto simp: in_dest_def x_def)
    show ?thesis
    proof (cases "isContainedIn x d")
      case True
      then have "place_loop p T merge src cells d c = (d', c')" using step by simp
      from Cons.IH [OF this] mem [OF True] show ?thesis by (auto simp: qr)
    next
      case nc: False
      show ?thesis
      proof (cases "c - ipc_count x = 0")
        case True
        then show ?thesis using step nc new by auto
      next
        case False
        then have "place_loop p T merge src cells (d @ [x]) (c - ipc_count x) = (d', c')"
          using step nc by simp
        from Cons.IH [OF this] new show ?thesis by (auto simp: qr)
      qed
    qed
  qed
qed simp

text \<open>A search that neither ends with \<open>INVENTORY_FULL\<close> itself nor drops a position.\<close>

definition grows :: "slot_search \<Rightarrow> bool" where
  "grows f \<longleftrightarrow> (\<forall>d c r d' c'. f d c = (r, d', c') \<longrightarrow>
     r \<noteq> EQUIP_ERR_INVENTORY_FULL \<and> (\<forall>q. in_dest q d \<longrightarrow> in_dest q d'))"

lemma grows_in_slots: "grows (in_slots E p T src bag slot a b merge)"
  by (auto simp: grows_def in_slots_def CanStoreItem_InInventorySlots_def dest: place_loop_covers split: if_splits)

lemma grows_in_bag: "grows (in_bag E p T src bag slot merge ns i)"
  by (auto simp: grows_def in_bag_def CanStoreItem_InBag_def dest: place_loop_covers
      split: if_splits option.splits)

text \<open>\<open>leads s s'\<close>: the search did not end with \<open>INVENTORY_FULL\<close>, and if it goes on, then with more.\<close>

definition leads :: "search \<Rightarrow> search \<Rightarrow> bool" where
  "leads s s' =
     (case s' of
        Done r d n \<Rightarrow> s = s' \<or> r \<noteq> EQUIP_ERR_INVENTORY_FULL
      | Search d' c' \<Rightarrow> (case s of Search d c \<Rightarrow> \<forall>q. in_dest q d \<longrightarrow> in_dest q d' | Done r d n \<Rightarrow> False))"

lemma leads_refl: "leads s s"
  by (cases s) (auto simp: leads_def)

lemma leads_trans: "leads s s' \<Longrightarrow> leads s' s'' \<Longrightarrow> leads s s''"
  by (cases s; cases s'; cases s'') (auto simp: leads_def)

lemma leads_Search: "(\<forall>q. in_dest q d \<longrightarrow> in_dest q d') \<Longrightarrow> leads (Search d c) (Search d' c')"
  by (simp add: leads_def)

lemma leads_Done: "r \<noteq> EQUIP_ERR_INVENTORY_FULL \<Longrightarrow> leads s (Done r d n)"
  by (simp add: leads_def)

lemma leads_if_placed: "(\<forall>q. in_dest q d \<longrightarrow> in_dest q d') \<Longrightarrow> leads (Search d c) (if_placed ns d' c')"
  by (auto simp: if_placed_def intro: leads_Done leads_Search)

lemma leads_must: assumes "grows f" shows "leads s (must ns f s)"
proof (cases s)
  case (Search d c)
  obtain r d' c' where f: "f d c = (r, d', c')" by (cases "f d c") auto
  then have "r \<noteq> EQUIP_ERR_INVENTORY_FULL" "\<forall>q. in_dest q d \<longrightarrow> in_dest q d'"
    using assms unfolding grows_def by blast+
  then show ?thesis by (simp add: Search f leads_Done leads_if_placed)
qed (simp add: leads_refl)

lemma leads_may: assumes "grows f" shows "leads s (may ns f s)"
proof (cases s)
  case (Search d c)
  obtain r d' c' where f: "f d c = (r, d', c')" by (cases "f d c") auto
  then have "\<forall>q. in_dest q d \<longrightarrow> in_dest q d'"
    using assms unfolding grows_def by blast
  then show ?thesis by (simp add: Search f leads_Search leads_if_placed)
qed (simp add: leads_refl)

lemma leads_foldl: "(\<And>s x. leads s (g s x)) \<Longrightarrow> leads s (foldl g s xs)"
  by (induction xs arbitrary: s) (auto intro: leads_refl leads_trans)

lemma leads_each_bag: "(\<And>i. grows (f i)) \<Longrightarrow> leads s (each_bag ns a b f s)"
  unfolding each_bag_def by (intro leads_foldl leads_may)

lemma leads_refuse: "leads s (refuse_full_bag E p src s)"
  by (cases s) (auto simp: refuse_full_bag_def leads_refl intro: leads_Done)

text \<open>A search that went on has covered the cells it visited.\<close>

lemma must_in_slots_covers:
  assumes "must ns (in_slots E p T src sb ss a b merge) s = Search d' c'"
    and "a \<le> j" and "j < b" and "sb \<noteq> INVENTORY_SLOT_BAG_0"
    and "cell_space p T merge src (GetItemByPos E p INVENTORY_SLOT_BAG_0 j) \<noteq> None"
  shows "in_dest (mk_pos INVENTORY_SLOT_BAG_0 j) d'"
proof (cases s)
  case (Search d c)
  then obtain d1 c1 where l: "place_loop p T merge src (slot_positions E p a b sb ss) d c = (d1, c1)"
    and i: "if_placed ns d1 c1 = Search d' c'"
    using assms(1) by (auto simp: in_slots_def CanStoreItem_InInventorySlots_def split: if_splits prod.splits)
  then have "d1 = d'" "c1 \<noteq> 0" by (auto simp: if_placed_def split: if_splits)
  moreover have "(mk_pos INVENTORY_SLOT_BAG_0 j, GetItemByPos E p INVENTORY_SLOT_BAG_0 j)
      \<in> set (slot_positions E p a b sb ss)"
    using assms(2-4) by (auto simp: slot_positions_def set_slot_range)
  ultimately show ?thesis using place_loop_covers [OF l] assms(5) by auto
qed (use assms(1) in simp)

lemma may_in_bag_covers:
  assumes "may ns (in_bag E p T src sb ss merge non_spec bag) s = Search d' c'"
    and "fst (in_bag E p T src sb ss merge non_spec bag [] 0) = EQUIP_ERR_OK"
    and "GetBagByPos E p bag = Some b" and "j < unat (GetBagSize (heap p b))" and "j \<noteq> unat ss"
    and "cell_space p T merge src (GetItemByPos E p bag (of_nat j)) \<noteq> None"
  shows "in_dest (mk_pos bag (of_nat j)) d'"
proof (cases s)
  case (Search d c)
  then obtain d1 c1 where l: "place_loop p T merge src (bag_positions p bag b ss) d c = (d1, c1)"
    and i: "if_placed ns d1 c1 = Search d' c'"
    using assms(1-3) by (auto simp: in_bag_def CanStoreItem_InBag_def split: if_splits prod.splits option.splits)
  then have "d1 = d'" "c1 \<noteq> 0" by (auto simp: if_placed_def split: if_splits)
  moreover have "(mk_pos bag (of_nat j), GetItemByPos E p bag (of_nat j)) \<in> set (bag_positions p bag b ss)"
    using assms(3-5) by (auto simp: bag_positions_def GetItemByPos_in_bag)
  ultimately show ?thesis using place_loop_covers [OF l] assms(6) by auto
qed (use assms(1) in simp)

lemma each_bag_visits:
  assumes "each_bag ns a b f s = Search d' c'" and "a \<le> i" and "i < b" and "\<And>i. grows (f i)"
  shows "\<exists>s1 d1 c1. may ns (f i) s1 = Search d1 c1 \<and> (\<forall>q. in_dest q d1 \<longrightarrow> in_dest q d')"
proof -
  have "i \<in> set (slot_range a b)" using assms(2,3) by (simp add: set_slot_range)
  then obtain pre post where sp: "slot_range a b = pre @ i # post" by (meson split_list)
  define s1 where "s1 = foldl (\<lambda>s i. may ns (f i) s) s pre"
  have "leads (may ns (f i) s1) (Search d' c')"
    using assms(1,4) leads_foldl [of "\<lambda>s i. may ns (f i) s" "may ns (f i) s1" post] leads_may
    by (simp add: each_bag_def sp s1_def)
  then show ?thesis by (cases "may ns (f i) s1") (auto simp: leads_def)
qed

lemma grows_all: "grows (in_slots E p T src bag slot a b merge)" "grows (in_bag E p T src bag slot merge ns i)"
  by (rule grows_in_slots grows_in_bag)+

lemma leads_store_merge: "leads s (store_merge E p T src bag slot ns s)"
  unfolding store_merge_def Let_def
  by (auto intro!: leads_refl leads_trans [OF leads_trans [OF leads_must leads_must] leads_each_bag]
      leads_trans [OF leads_trans [OF leads_trans [OF leads_must leads_must] leads_each_bag] leads_each_bag] grows_all)

lemma leads_store_special: "leads s (store_special E p T src bag slot ns s)"
  unfolding store_special_def Let_def
  by (auto intro!: leads_refl leads_each_bag leads_trans [OF leads_must leads_each_bag] grows_all)

lemma leads_store_free: "leads s (store_free E p T src bag slot ns s)"
  unfolding store_free_def by (intro leads_trans [OF leads_must leads_each_bag] grows_all)

text \<open>With neither a bag nor a slot asked for, a full inventory comes from a search that never ended.\<close>

lemma full_chain:
  assumes "inventory_full ns (store_chain E p T src NULL_BAG NULL_SLOT False ns c) = (EQUIP_ERR_INVENTORY_FULL, dest, w)"
  obtains s1 c1 where "store_chain E p T src NULL_BAG NULL_SLOT False ns c = Search dest c1"
    and "store_free E p T src NULL_BAG NULL_SLOT ns s1 = Search dest c1"
    and "leads (store_merge E p T src NULL_BAG NULL_SLOT ns (Search [] c)) (Search dest c1)"
proof -
  define s0 where "s0 = store_merge E p T src NULL_BAG NULL_SLOT ns (Search [] c)"
  define s1 where "s1 = refuse_full_bag E p src (store_special E p T src NULL_BAG NULL_SLOT ns s0)"
  have chain: "store_chain E p T src NULL_BAG NULL_SLOT False ns c = store_free E p T src NULL_BAG NULL_SLOT ns s1"
    by (simp add: store_chain_def store_specific_bag_def store_specific_slot_def s0_def s1_def)
  have l0: "leads s0 (store_free E p T src NULL_BAG NULL_SLOT ns s1)"
    unfolding s1_def
    by (intro leads_trans [OF leads_trans [OF leads_store_special leads_refuse] leads_store_free])
  have l: "leads (Search [] c) s0" unfolding s0_def by (rule leads_store_merge)
  show thesis
  proof (cases "store_free E p T src NULL_BAG NULL_SLOT ns s1")
    case (Search d c1)
    then have "d = dest" using assms by (simp add: chain)
    then show ?thesis using that [of c1 s1] chain Search l0 by (simp add: s0_def)
  next
    case (Done r d n)
    then have "r = EQUIP_ERR_INVENTORY_FULL" using assms by (simp add: chain)
    moreover have "leads (Search [] c) (Done r d n)"
      using leads_trans [OF l l0] Done by simp
    ultimately show ?thesis by (simp add: leads_def)
  qed
qed

text \<open>What a full inventory has been searched for: free backpack slots, free slots of plain bags, stacks.\<close>

lemma own_slot_read: "j < INVENTORY_SLOT_ITEM_END \<Longrightarrow> GetItemByPos E p INVENTORY_SLOT_BAG_0 j = m_items p j"
proof -
  assume "j < INVENTORY_SLOT_ITEM_END"
  then have "j < BANK_SLOT_BAG_END" by (rule less_trans) simp
  then show ?thesis by (simp add: GetItemByPos_def slot_readable_def)
qed

lemma free_slots_taken:
  assumes "store_free E p T None NULL_BAG NULL_SLOT e s1 = Search dest c1"
    and j: "INVENTORY_SLOT_ITEM_START \<le> j" "j < INVENTORY_SLOT_ITEM_END" "m_items p j = None"
  shows "in_dest (mk_pos INVENTORY_SLOT_BAG_0 j) dest"
proof -
  define s2 where "s2 = must e (in_slots E p T None NULL_BAG NULL_SLOT INVENTORY_SLOT_ITEM_START
      INVENTORY_SLOT_ITEM_END False) s1"
  have bags: "each_bag e INVENTORY_SLOT_BAG_START INVENTORY_SLOT_BAG_END
      (in_bag E p T None NULL_BAG NULL_SLOT False True) s2 = Search dest c1"
    using assms(1) by (simp add: store_free_def s2_def)
  have "leads s2 (Search dest c1)"
    unfolding bags [symmetric] by (intro leads_each_bag grows_in_bag)
  then obtain d2 c2 where s2: "s2 = Search d2 c2" and sub: "\<forall>q. in_dest q d2 \<longrightarrow> in_dest q dest"
    by (cases s2) (auto simp: leads_def)
  have "in_dest (mk_pos INVENTORY_SLOT_BAG_0 j) d2"
    using must_in_slots_covers [OF s2 [unfolded s2_def] j(1,2)] j(3) own_slot_read [OF j(2)]
    by (simp add: cell_space_def ignore_src_def)
  with sub show ?thesis by blast
qed

lemma free_bag_slots_taken:
  assumes "store_free E p T None NULL_BAG NULL_SLOT e s1 = Search dest c1"
    and bag: "INVENTORY_SLOT_BAG_START \<le> bag" "bag < INVENTORY_SLOT_BAG_END" and b: "GetBagByPos E p bag = Some b"
    and B: "GetTemplate E (heap p b) = Some B" "ItemClass B = ITEM_CLASS_CONTAINER" "SubClass B = ITEM_SUBCLASS_CONTAINER"
    and j: "j < unat (GetBagSize (heap p b))" "j < MAX_BAG_SIZE" "GetItemByPos E p bag (of_nat j) = None"
  shows "in_dest (mk_pos bag (of_nat j)) dest"
proof -
  have bags: "each_bag e INVENTORY_SLOT_BAG_START INVENTORY_SLOT_BAG_END (in_bag E p T None NULL_BAG NULL_SLOT False True)
      (must e (in_slots E p T None NULL_BAG NULL_SLOT INVENTORY_SLOT_ITEM_START INVENTORY_SLOT_ITEM_END False) s1) = Search dest c1"
    using assms(1) by (simp add: store_free_def)
  obtain s3 d3 c3 where s3: "may e (in_bag E p T None NULL_BAG NULL_SLOT False True bag) s3 = Search d3 c3"
    and sub: "\<forall>q. in_dest q d3 \<longrightarrow> in_dest q dest"
    using each_bag_visits [OF bags bag grows_in_bag] by blast
  have nz: "bag \<noteq> NULL_BAG" using bag by auto
  have "fst (in_bag E p T None NULL_BAG NULL_SLOT False True bag [] 0) = EQUIP_ERR_OK"
    using b B nz by (simp add: in_bag_def CanStoreItem_InBag_def ItemCanGoIntoBag_def)
  from may_in_bag_covers [OF s3 this b j(1)] j
  have "in_dest (mk_pos bag (of_nat j)) d3" by (simp add: cell_space_def ignore_src_def)
  with sub show ?thesis by blast
qed

lemma stacks_taken:
  assumes merge: "leads (store_merge E p T None NULL_BAG NULL_SLOT e (Search [] c)) (Search dest c1)"
    and st: "Stackable T \<noteq> 1" and j: "INVENTORY_SLOT_ITEM_START \<le> j" "j < INVENTORY_SLOT_ITEM_END"
    and i: "m_items p j = Some i" "CanBeMergedPartlyWith (heap p i) T = EQUIP_ERR_OK"
  shows "in_dest (mk_pos INVENTORY_SLOT_BAG_0 j) dest"
proof -
  define s4 where "s4 = must e (in_slots E p T None NULL_BAG NULL_SLOT INVENTORY_SLOT_ITEM_START
      INVENTORY_SLOT_ITEM_END True) (must e (in_slots E p T None NULL_BAG NULL_SLOT KEYRING_SLOT_START
      CURRENCYTOKEN_SLOT_END True) (Search [] c))"
  have "leads s4 (store_merge E p T None NULL_BAG NULL_SLOT e (Search [] c))"
    using st unfolding store_merge_def Let_def s4_def
    by (auto intro!: leads_each_bag leads_trans [OF leads_each_bag leads_each_bag] grows_all)
  then have "leads s4 (Search dest c1)" using merge leads_trans by blast
  then obtain d4 c4 where s4: "s4 = Search d4 c4" and sub: "\<forall>q. in_dest q d4 \<longrightarrow> in_dest q dest"
    by (cases s4) (auto simp: leads_def)
  have "in_dest (mk_pos INVENTORY_SLOT_BAG_0 j) d4"
    using must_in_slots_covers [OF s4 [unfolded s4_def] j] i own_slot_read [OF j(2)]
    by (simp add: cell_space_def ignore_src_def)
  with sub show ?thesis by blast
qed

text \<open>Property C31: asked for any place, with no bag and no slot given (\<open>NULL_BAG\<close>, \<open>NULL_SLOT\<close>), \<open>CanStoreNewItem\<close>
  reports a full inventory only if it is one: every free
  backpack slot, every free slot of a plain bag, and for a stackable item every stack of it in the
  backpack that is not full, is among the positions it has found. (With a slot given, the slot of this number is
  skipped in every other bag: \<open>CanStoreItem_InBag_positions\<close>.)\<close>

theorem CanStoreNewItem_full:
  assumes "CanStoreNewItem E p NULL_BAG NULL_SLOT [] item count = (EQUIP_ERR_INVENTORY_FULL, dest, ns)"
    and "item_templates E item = Some T"
  shows "(\<forall>j. INVENTORY_SLOT_ITEM_START \<le> j \<and> j < INVENTORY_SLOT_ITEM_END \<and> m_items p j = None
              \<longrightarrow> in_dest (mk_pos INVENTORY_SLOT_BAG_0 j) dest)
    \<and> (\<forall>bag b B j. INVENTORY_SLOT_BAG_START \<le> bag \<and> bag < INVENTORY_SLOT_BAG_END \<and> GetBagByPos E p bag = Some b
         \<and> GetTemplate E (heap p b) = Some B \<and> ItemClass B = ITEM_CLASS_CONTAINER \<and> SubClass B = ITEM_SUBCLASS_CONTAINER
         \<and> j < unat (GetBagSize (heap p b)) \<and> j < MAX_BAG_SIZE \<and> GetItemByPos E p bag (of_nat j) = None
              \<longrightarrow> in_dest (mk_pos bag (of_nat j)) dest)
    \<and> (\<forall>j i. Stackable T \<noteq> 1 \<and> INVENTORY_SLOT_ITEM_START \<le> j \<and> j < INVENTORY_SLOT_ITEM_END \<and> m_items p j = Some i
         \<and> CanBeMergedPartlyWith (heap p i) T = EQUIP_ERR_OK \<longrightarrow> in_dest (mk_pos INVENTORY_SLOT_BAG_0 j) dest)"
proof -
  obtain e where full: "inventory_full e (store_chain E p T None NULL_BAG NULL_SLOT False e (count - e))
      = (EQUIP_ERR_INVENTORY_FULL, dest, ns)"
    using CanStoreItem_cases [OF assms(1) [unfolded CanStoreNewItem_def]] assms(2)
    by (auto simp: eq_diff_eq [symmetric])
  obtain s1 c1 where free: "store_free E p T None NULL_BAG NULL_SLOT e s1 = Search dest c1"
    and merge: "leads (store_merge E p T None NULL_BAG NULL_SLOT e (Search [] (count - e))) (Search dest c1)"
    using full_chain [OF full] by metis
  show ?thesis
    using free_slots_taken [OF free] free_bag_slots_taken [OF free] stacks_taken [OF merge] by blast
qed

section \<open>No position for nothing\<close>

definition nz :: "ItemPosCountVec \<Rightarrow> bool" where
  "nz d \<longleftrightarrow> (\<forall>x \<in> set d. ipc_count x \<noteq> 0)"

definition keeps_nz :: "slot_search \<Rightarrow> bool" where
  "keeps_nz f \<longleftrightarrow> (\<forall>d c r d' c'. nz d \<longrightarrow> c \<noteq> 0 \<longrightarrow> f d c = (r, d', c') \<longrightarrow> nz d' \<and> (r \<noteq> EQUIP_ERR_OK \<longrightarrow> c' \<noteq> 0))"

definition search_nz :: "search \<Rightarrow> bool" where
  "search_nz s = (case s of Search d c \<Rightarrow> nz d \<and> c \<noteq> 0 | Done r d n \<Rightarrow> nz d)"

lemma if_placed_nz: "nz d \<Longrightarrow> search_nz (if_placed ns d c)"
  by (auto simp: search_nz_def if_placed_def)

lemma must_nz: assumes "keeps_nz f" and "search_nz s" shows "search_nz (must ns f s)"
proof (cases s)
  case (Search d c)
  obtain r d' c' where f: "f d c = (r, d', c')" by (cases "f d c") auto
  have "nz d" "c \<noteq> 0" using assms(2) by (simp_all add: search_nz_def Search)
  then have "nz d'" using assms(1) f unfolding keeps_nz_def by blast
  then show ?thesis using if_placed_nz [of d' ns c'] by (simp add: Search f) (simp add: search_nz_def)
qed (use assms in simp)

lemma may_nz: assumes "keeps_nz f" and "search_nz s" shows "search_nz (may ns f s)"
proof (cases s)
  case (Search d c)
  obtain r d' c' where f: "f d c = (r, d', c')" by (cases "f d c") auto
  have "nz d" "c \<noteq> 0" using assms(2) by (simp_all add: search_nz_def Search)
  then have "nz d'" "r \<noteq> EQUIP_ERR_OK \<longrightarrow> c' \<noteq> 0" using assms(1) f unfolding keeps_nz_def by blast+
  then show ?thesis using if_placed_nz [of d' ns c'] by (simp add: Search f) (simp add: search_nz_def)
qed (use assms in simp)

lemma or_else_nz: assumes "keeps_nz f" and "keeps_nz g" shows "keeps_nz (or_else f g)"
  unfolding keeps_nz_def
proof (intro allI impI)
  fix d c r d' c' assume p: "nz d" "c \<noteq> 0" and e: "or_else f g d c = (r, d', c')"
  obtain r1 d1 c1 where f: "f d c = (r1, d1, c1)" by (cases "f d c") auto
  then have 1: "nz d1" "r1 \<noteq> EQUIP_ERR_OK \<longrightarrow> c1 \<noteq> 0" using assms(1) p unfolding keeps_nz_def by blast+
  have "(r1 = EQUIP_ERR_OK \<and> (r1, d1, c1) = (r, d', c')) \<or> (r1 \<noteq> EQUIP_ERR_OK \<and> g d1 c1 = (r, d', c'))"
    using e f by (simp add: or_else_def split: if_splits)
  then show "nz d' \<and> (r \<noteq> EQUIP_ERR_OK \<longrightarrow> c' \<noteq> 0)"
    using 1 assms(2) unfolding keeps_nz_def by blast
qed

lemma each_bag_nz: "(\<And>i. keeps_nz (f i)) \<Longrightarrow> search_nz s \<Longrightarrow> search_nz (each_bag ns a b f s)"
  unfolding each_bag_def by (rule foldl_invariant) (use may_nz in blast)+

lemma refuse_full_bag_nz: "search_nz s \<Longrightarrow> search_nz (refuse_full_bag E p src s)"
  by (auto simp: search_nz_def refuse_full_bag_def split: search.splits)

lemma cell_space_nz:
  assumes "GetMaxStackSize T \<noteq> 0" and "cell_space p T merge src r = Some n" shows "n \<noteq> 0"
proof (cases "ignore_src src r")
  case (Some i)
  then have "CanBeMergedPartlyWith (heap p i) T = EQUIP_ERR_OK" "n = GetMaxStackSize T - it_count (heap p i)"
    using assms(2) by (auto simp: cell_space_def split: if_splits)
  then have "it_count (heap p i) < GetMaxStackSize T" "n = GetMaxStackSize T - it_count (heap p i)"
    by (auto simp: CanBeMergedPartlyWith_def split: if_splits)
  then show ?thesis by auto
qed (use assms in \<open>auto simp: cell_space_def split: if_splits\<close>)

lemma place_loop_nz:
  assumes "nz d" and "c \<noteq> 0" and "GetMaxStackSize T \<noteq> 0" and "place_loop p T merge src cells d c = (d', c')"
  shows "nz d'"
  using assms
proof (induction cells arbitrary: d c)
  case (Cons qr cells)
  obtain q r where qr: "qr = (q, r)" by fastforce
  show ?case
  proof (cases "cell_space p T merge src r")
    case None
    then show ?thesis using Cons by (simp add: qr)
  next
    case (Some space)
    define x where "x = \<lparr>ipc_pos = q, ipc_count = (if space > c then c else space)\<rparr>"
    have step: "(if isContainedIn x d then place_loop p T merge src cells d c
        else if c - ipc_count x = 0 then (d @ [x], 0)
        else place_loop p T merge src cells (d @ [x]) (c - ipc_count x)) = (d', c')"
      using Cons.prems(4) by (simp only: qr place_loop.simps Some option.simps Let_def x_def ItemPosCount.simps)
    have x: "nz (d @ [x])" using Cons.prems(1,2) cell_space_nz [OF Cons.prems(3) Some] by (auto simp: nz_def x_def)
    consider "place_loop p T merge src cells d c = (d', c')" | "d' = d @ [x]"
      | "c - ipc_count x \<noteq> 0" "place_loop p T merge src cells (d @ [x]) (c - ipc_count x) = (d', c')"
      using step by (metis prod.inject)
    then show ?thesis
      by cases (use Cons.IH [OF Cons.prems(1-3)] Cons.IH [OF x _ Cons.prems(3)] x in blast)+
  qed
qed simp

lemma keeps_nz_slots: "GetMaxStackSize T \<noteq> 0 \<Longrightarrow> keeps_nz (in_slots E p T src sb ss a b merge)"
  by (auto simp: keeps_nz_def in_slots_def CanStoreItem_InInventorySlots_def dest: place_loop_nz split: if_splits)

lemma keeps_nz_bag: "GetMaxStackSize T \<noteq> 0 \<Longrightarrow> keeps_nz (in_bag E p T src sb ss merge ns i)"
  by (auto simp: keeps_nz_def in_bag_def CanStoreItem_InBag_def dest: place_loop_nz
      split: if_splits option.splits)

lemma chain_nz:
  assumes "GetMaxStackSize T \<noteq> 0" and "c \<noteq> 0"
  shows "search_nz (store_chain E p T src NULL_BAG NULL_SLOT False ns c)"
proof -
  note k = keeps_nz_slots [OF assms(1)] keeps_nz_bag [OF assms(1)]
  have "search_nz (Search [] c)" using assms(2) by (simp add: search_nz_def nz_def)
  then have "search_nz (store_merge E p T src NULL_BAG NULL_SLOT ns (Search [] c))"
    unfolding store_merge_def Let_def by (auto intro!: each_bag_nz must_nz k simp del: must.simps)
  then have "search_nz (store_special E p T src NULL_BAG NULL_SLOT ns (store_merge E p T src NULL_BAG NULL_SLOT ns (Search [] c)))"
    unfolding store_special_def Let_def by (auto intro!: each_bag_nz must_nz k)
  then show ?thesis
    unfolding store_chain_def store_specific_bag_def store_specific_slot_def store_free_def
    by (auto intro!: each_bag_nz must_nz k refuse_full_bag_nz)
qed

lemma CanStoreNewItem_nz:
  assumes "CanStoreNewItem E p NULL_BAG NULL_SLOT [] item count = (EQUIP_ERR_OK, dest, ns)"
    and "count \<noteq> 0" and "item_templates E item = Some T" and "GetMaxStackSize T \<noteq> 0"
  shows "nz dest"
proof -
  obtain n where full: "inventory_full n (store_chain E p T None NULL_BAG NULL_SLOT False n (count - n))
      = (EQUIP_ERR_OK, dest, ns)"
    using CanStoreItem_cases [OF assms(1) [unfolded CanStoreNewItem_def]] assms(3)
    by (auto simp: eq_diff_eq [symmetric])
  have "n = 0" using inventory_full_ok [OF full store_chain_ok] by auto
  then have "search_nz (store_chain E p T None NULL_BAG NULL_SLOT False n (count - n))"
    using chain_nz [OF assms(4)] assms(2) by simp
  then show ?thesis using full
    by (cases "store_chain E p T None NULL_BAG NULL_SLOT False n (count - n)") (auto simp: search_nz_def)
qed

section \<open>Skipped slots\<close>

lemma place_loop_subset:
  assumes "place_loop p T merge src cells d c = (d', c')"
  shows "ipc_pos ` set d' \<subseteq> ipc_pos ` set d \<union> fst ` set cells"
  using assms
proof (induction p T merge src cells d c rule: place_loop.induct)
  case (2 p T merge src pos r cells d c)
  show ?case
  proof (cases "cell_space p T merge src r")
    case None
    then show ?thesis using 2(1) [OF None] 2(4) by auto
  next
    case (Some sp)
    define x where "x = \<lparr>ipc_pos = pos, ipc_count = (if sp > c then c else sp)\<rparr>"
    have "(if isContainedIn x d then place_loop p T merge src cells d c
        else if c - ipc_count x = 0 then (d @ [x], 0)
        else place_loop p T merge src cells (d @ [x]) (c - ipc_count x)) = (d', c')"
      using 2(4) by (simp only: place_loop.simps Some option.simps Let_def x_def ItemPosCount.simps)
    moreover have "ipc_pos x = pos" by (simp add: x_def)
    moreover note IH = 2(2) [OF Some refl refl] 2(3) [OF Some refl refl]
    ultimately show ?thesis
      unfolding x_def [symmetric]
      by (auto simp: x_def split: if_splits dest!: IH)
  qed
qed auto

text \<open>A search of a bag adds only cells of this bag, and never the slot that was
  asked for, also when that slot was asked for in another bag: after a partial store in slot
  \<open>n\<close> of one bag, a free slot \<open>n\<close> of every other bag is passed over.\<close>

theorem CanStoreItem_InBag_positions:
  assumes "CanStoreItem_InBag E p bag d T c merge ns src skip_bag skip_slot = (r, d', c')"
    and "x \<in> set d'" and "\<not> in_dest (ipc_pos x) d" and "\<And>b. GetBagByPos E p bag = Some b \<Longrightarrow> GetBagSize (heap p b) \<le> 36"
  shows "bag \<noteq> skip_bag \<and> pos_bag (ipc_pos x) = bag \<and> pos_slot (ipc_pos x) \<noteq> skip_slot"
proof -
  have "d' \<noteq> d" using assms(2,3) by (auto simp: in_dest_def)
  then obtain b where nb: "bag \<noteq> skip_bag" and b: "GetBagByPos E p bag = Some b"
    and l: "place_loop p T merge src (bag_positions p bag b skip_slot) d c = (d', c')"
    using assms(1) by (auto simp: CanStoreItem_InBag_def split: if_splits option.splits)
  from place_loop_subset [OF l] assms(2,3)
  obtain j where j: "ipc_pos x = mk_pos bag (of_nat j)" "j < unat (GetBagSize (heap p b))" "j \<noteq> unat skip_slot"
    by (auto simp: bag_positions_def in_dest_def)
  have "j < 36" using j(2) assms(4) [OF b] by (simp add: word_le_nat_alt)
  then have "unat (of_nat j :: u8) = j" by (simp add: unat_of_nat)
  then show ?thesis using j nb by auto
qed

section \<open>Concrete inventories\<close>

definition ex_template :: "u32 \<Rightarrow> int \<Rightarrow> int \<Rightarrow> ItemTemplate" where
  "ex_template i stack mx =
     \<lparr>ItemId = i, ItemClass = 0, SubClass = 0, TemplateFlags = 0, InventoryType = 0, MaxCount = mx,
      Stackable = stack, ContainerSlots = 0, Bonding = 0, BagFamily = 0, Socket0_Color = 0,
      GemProperties = 0, ItemLimitCategory = 0\<rparr>"

definition ex_bag_template :: ItemTemplate where
  "ex_bag_template = (ex_template 8 1 0)\<lparr>ItemClass := ITEM_CLASS_CONTAINER, InventoryType := INVTYPE_BAG, ContainerSlots := 4\<rparr>"

text \<open>Item 7 stacks to \<open>stack\<close> and may be owned \<open>mx\<close> times; item 8 is a bag of four slots.\<close>

definition ex_stores :: "int \<Rightarrow> int \<Rightarrow> stores" where
  "ex_stores stack mx =
     \<lparr>item_templates = (\<lambda>i. if i = 7 then Some (ex_template 7 stack mx)
                            else if i = 8 then Some ex_bag_template else None),
      limit_categories = (\<lambda>_. None), enchantment_gem = (\<lambda>_. None), object_guid = (\<lambda>r. of_nat r + 100)\<rparr>"

definition ex_item :: "u32 \<Rightarrow> u32 \<Rightarrow> Item" where
  "ex_item ent n =
     \<lparr>it_entry = ent, it_count = n, it_lootGenerated = False, it_in_trade = False, it_owner = 1,
      it_contained = 1, it_flags = 0, it_allowedGUIDs = [], it_gem_enchants = [0, 0, 0], it_slot = 23,
      it_container = None, it_numSlots = (if ent = 8 then 4 else 0), it_bagslot = replicate MAX_BAG_SIZE None\<rparr>"

text \<open>Five of item 7 in the first backpack slot, an empty bag in the first bag slot, and object 2 in no cell.\<close>

definition ex_player :: Player where
  "ex_player = \<lparr>pl_guid = 1, m_items = (\<lambda>s. if s = 23 then Some 0 else if s = 19 then Some 1 else None),
     heap = (\<lambda>r. if r = 1 then ex_item 8 1 else ex_item 7 5), next_ref = 3\<rparr>"

lemma ex_store_40:
  "CanStoreNewItem (ex_stores 20 0) ex_player NULL_BAG NULL_SLOT [] 7 40 =
     (EQUIP_ERR_OK, [\<lparr>ipc_pos = mk_pos 255 23, ipc_count = 15\<rparr>, \<lparr>ipc_pos = mk_pos 255 24, ipc_count = 20\<rparr>,
                     \<lparr>ipc_pos = mk_pos 255 25, ipc_count = 5\<rparr>], None)"
  by code_simp

theorem CanStoreItem_sound_witness:
  "distinct [mk_pos 255 23, mk_pos 255 24, mk_pos 255 25]
   \<and> fits (ex_stores 20 0) ex_player (ex_template 7 20 0) None NULL_BAG NULL_SLOT False
       \<lparr>ipc_pos = mk_pos 255 23, ipc_count = 15\<rparr>"
  using CanStoreItem_sound [OF ex_store_40 [unfolded CanStoreNewItem_def]]
  by (simp add: ex_stores_def)

text \<open>
  A player who owns more than the limit (five where two are allowed) and is to get one more:
  what is ruled out, \<open>count + curcount - MaxCount\<close>, is more than \<open>count\<close>, the subtraction from
  \<open>count\<close> wraps, and the search fills the whole inventory.
\<close>

lemma ex_over_limit:
  "CanStoreNewItem (ex_stores 20 2) ex_player NULL_BAG NULL_SLOT [] 7 1 =
     (EQUIP_ERR_INVENTORY_FULL,
      \<lparr>ipc_pos = mk_pos 255 23, ipc_count = 15\<rparr>
        # map (\<lambda>j. \<lparr>ipc_pos = mk_pos 255 j, ipc_count = 20\<rparr>) (slot_range 24 39)
        @ map (\<lambda>j. \<lparr>ipc_pos = mk_pos 19 j, ipc_count = 20\<rparr>) (slot_range 0 4),
      Some (1 - 395))"
  by code_simp

theorem CanStoreItem_accounts_witness:
  "(15 + sum_list (map (\<lambda>j. 20) (slot_range 24 39 @ slot_range 0 4))) + (1 - 395) = (1 :: u32)
   \<and> fst (CanStoreNewItem (ex_stores 20 2) ex_player NULL_BAG NULL_SLOT [] 7 1) \<noteq> EQUIP_ERR_OK"
  using CanStoreItem_accounts [OF ex_over_limit [unfolded CanStoreNewItem_def]] ex_over_limit
  by (simp add: comp_def add.assoc)

theorem CanStoreNewItem_full_witness:
  "\<exists>dest. snd (CanStoreNewItem (ex_stores 20 2) ex_player NULL_BAG NULL_SLOT [] 7 1) = (dest, Some (1 - 395))
     \<and> in_dest (mk_pos 255 38) dest \<and> in_dest (mk_pos 255 23) dest"
proof -
  have T: "item_templates (ex_stores 20 2) 7 = Some (ex_template 7 20 2)" by (simp add: ex_stores_def)
  have m: "CanBeMergedPartlyWith (heap ex_player 0) (ex_template 7 20 2) = EQUIP_ERR_OK"
    by (simp add: ex_player_def ex_item_def ex_template_def CanBeMergedPartlyWith_def GetMaxStackSize_def)
  have "m_items ex_player 38 = None" "m_items ex_player 23 = Some 0" "Stackable (ex_template 7 20 2) \<noteq> 1"
    by (simp_all add: ex_player_def ex_template_def)
  with CanStoreNewItem_full [OF ex_over_limit T] m show ?thesis
    unfolding ex_over_limit by (intro exI conjI) (auto simp del: set_map)
qed

theorem CanStoreItem_InBag_positions_witness:
  "\<exists>x d'. snd (CanStoreItem_InBag (ex_stores 20 0) ex_player 19 [] (ex_template 7 20 0) 50 False True None 20 0) = (d', 0)
     \<and> x \<in> set d' \<and> pos_slot (ipc_pos x) \<noteq> 0"
proof -
  have run: "CanStoreItem_InBag (ex_stores 20 0) ex_player 19 [] (ex_template 7 20 0) 50 False True None 20 0 =
     (EQUIP_ERR_OK, [\<lparr>ipc_pos = mk_pos 19 1, ipc_count = 20\<rparr>, \<lparr>ipc_pos = mk_pos 19 2, ipc_count = 20\<rparr>,
        \<lparr>ipc_pos = mk_pos 19 3, ipc_count = 10\<rparr>], 0)"
    by code_simp
  have size: "GetBagSize (heap ex_player b) \<le> 36" for b
    by (simp add: GetBagSize_def ex_player_def ex_item_def)
  let ?x = "\<lparr>ipc_pos = mk_pos 19 1, ipc_count = 20\<rparr>"
  have "pos_slot (ipc_pos ?x) \<noteq> 0"
    using CanStoreItem_InBag_positions [OF run, of ?x] size by (simp add: in_dest_def)
  then show ?thesis unfolding run by (intro exI [of _ ?x] exI conjI) auto
qed

end
