(* ===== verification/Storing.thy ===== *)
theory Storing
  imports CanStore
begin

text \<open>
  Putting items into an inventory: \<open>Item::CreateItem\<close>, \<open>CloneItem\<close>, \<open>Bag::StoreItem\<close>,
  \<open>Player::_StoreItem\<close>, \<open>StoreItem\<close>, \<open>StoreNewItem\<close> and \<open>RemoveItem\<close>. An inventory is
  abstracted to a map from positions to stacks, and every operation to an update of this map.
  Calls into other parts of the player (quests, achievements, timed enchantments, spells) are
  returned as a list; what is sent to the client and the persistence state of an item are left out.
\<close>

section \<open>Operations\<close>

datatype inv_call =
  ItemAddedQuestCheck u32 u32 | AchievementReceiveItem u32 u32 | AchievementOwnItem u32 u32
| AddKnownCurrency u32 | AddEnchantmentDurations item_ref | RemoveEnchantmentDurations item_ref
| AddItemDurations item_ref | RemoveItemDurations item_ref | ApplyItemObtainSpells item_ref bool
| AddTradeableItem item_ref | RemoveTradeableItem item_ref | SaveBopTrade item_ref "guid list"
| DeleteBopTrade item_ref

abbreviation "BIND_WHEN_PICKED_UP \<equiv> (1 :: u32)"
abbreviation "BIND_WHEN_EQUIPED \<equiv> (2 :: u32)"
abbreviation "BIND_QUEST_ITEM \<equiv> (4 :: u32)"
abbreviation "ITEM_FIELD_FLAG_SOULBOUND \<equiv> (1 :: u32)"
abbreviation "ITEM_FIELD_FLAG_BOP_TRADEABLE \<equiv> (0x100 :: u32)"
abbreviation "ITEM_FIELD_FLAG_REFUNDABLE \<equiv> (0x1000 :: u32)"

definition upd_item :: "item_ref \<Rightarrow> (Item \<Rightarrow> Item) \<Rightarrow> Player \<Rightarrow> Player" where
  "upd_item i f p = p\<lparr>heap := (heap p)(i := f (heap p i))\<rparr>"

definition SetCount :: "item_ref \<Rightarrow> u32 \<Rightarrow> Player \<Rightarrow> Player" where
  "SetCount i n = upd_item i (\<lambda>it. it\<lparr>it_count := n\<rparr>)"

definition SetBinding :: "item_ref \<Rightarrow> Player \<Rightarrow> Player" where
  "SetBinding i = upd_item i (\<lambda>it. it\<lparr>it_flags := it_flags it OR ITEM_FIELD_FLAG_SOULBOUND\<rparr>)"

text \<open>
  \<open>NewItemOrBag\<close> and \<open>Create\<close>; a bag with more slots than a bag can have is refused. \<open>None\<close> is
  the null pointer (the code aborts when the template is missing).
\<close>

definition CreateItem :: "stores \<Rightarrow> Player \<Rightarrow> u32 \<Rightarrow> u32 \<Rightarrow> (item_ref \<times> Player) option" where
  "CreateItem E p ent count =
     (if count < 1 then None
      else (case item_templates E ent of
              None \<Rightarrow> None
            | Some T \<Rightarrow>
                if InventoryType T = INVTYPE_BAG \<and> ContainerSlots T > of_nat MAX_BAG_SIZE then None
                else
                  (let n = (if count > GetMaxStackSize T then GetMaxStackSize T else count);
                       it = \<lparr>it_entry = ent, it_count = n, it_lootGenerated = False, it_in_trade = False,
                             it_owner = pl_guid p, it_contained = pl_guid p, it_flags = 0,
                             it_allowedGUIDs = [], it_gem_enchants = [0, 0, 0], it_slot = 0, it_container = None,
                             it_numSlots = (if InventoryType T = INVTYPE_BAG then ContainerSlots T else 0),
                             it_bagslot = replicate MAX_BAG_SIZE None\<rparr>
                   in Some (next_ref p,
                            p\<lparr>heap := (heap p)(next_ref p := it), next_ref := Suc (next_ref p)\<rparr>))))"

definition CloneItem :: "stores \<Rightarrow> Player \<Rightarrow> item_ref \<Rightarrow> u32 \<Rightarrow> (item_ref \<times> Player) option" where
  "CloneItem E p i count =
     (case CreateItem E p (it_entry (heap p i)) count of
        None \<Rightarrow> None
      | Some (n, p') \<Rightarrow>
          Some (n, upd_item n (\<lambda>it. it\<lparr>it_flags := it_flags (heap p i)
                     AND NOT (ITEM_FIELD_FLAG_REFUNDABLE OR ITEM_FIELD_FLAG_BOP_TRADEABLE)\<rparr>) p'))"

definition binds_on_store :: "ItemTemplate \<Rightarrow> u16 \<Rightarrow> bool" where
  "binds_on_store T pos \<longleftrightarrow>
     Bonding T = BIND_WHEN_PICKED_UP \<or> Bonding T = BIND_QUEST_ITEM
     \<or> (Bonding T = BIND_WHEN_EQUIPED \<and> IsBagPos pos)"

definition bind_if :: "stores \<Rightarrow> u16 \<Rightarrow> item_ref \<Rightarrow> Player \<Rightarrow> Player" where
  "bind_if E pos i p =
     (case GetTemplate E (heap p i) of
        Some T \<Rightarrow> if binds_on_store T pos then SetBinding i p else p
      | None \<Rightarrow> p)"

text \<open>The code compares the guids of the bag and the item; two objects have different guids.\<close>

definition Bag_StoreItem :: "stores \<Rightarrow> item_ref \<Rightarrow> u8 \<Rightarrow> item_ref \<Rightarrow> Player \<Rightarrow> Player" where
  "Bag_StoreItem E b slot i p =
     (if i \<noteq> b then
        upd_item i (\<lambda>it. it\<lparr>it_contained := object_guid E b, it_owner := it_owner (heap p b),
                           it_container := Some b, it_slot := slot\<rparr>)
          (upd_item b (\<lambda>bg. bg\<lparr>it_bagslot := (it_bagslot bg)[unat slot := Some i]\<rparr>) p)
      else p)"

definition put_item :: "stores \<Rightarrow> u8 \<Rightarrow> u8 \<Rightarrow> item_ref \<Rightarrow> Player \<Rightarrow> Player \<times> inv_call list" where
  "put_item E bag slot i p =
     (case (if bag = INVENTORY_SLOT_BAG_0 then None else GetBagByPos E p bag) of
        None \<Rightarrow>
          (upd_item i (\<lambda>it. it\<lparr>it_contained := pl_guid p, it_owner := pl_guid p, it_slot := slot,
                             it_container := None\<rparr>)
             (p\<lparr>m_items := (m_items p)(slot := Some i)\<rparr>),
           if slot \<ge> CURRENCYTOKEN_SLOT_START \<and> slot < CURRENCYTOKEN_SLOT_END
           then [AddKnownCurrency (it_entry (heap p i))] else [])
      | Some b \<Rightarrow> (Bag_StoreItem E b slot i p, []))"

definition obtain_spells :: "u8 \<Rightarrow> item_ref \<Rightarrow> inv_call list" where
  "obtain_spells bag i =
     (if bag = INVENTORY_SLOT_BAG_0 \<or> (bag \<ge> INVENTORY_SLOT_BAG_START \<and> bag < INVENTORY_SLOT_BAG_END)
      then [ApplyItemObtainSpells i True] else [])"

text \<open>What \<open>_StoreItem\<close> does with the item it merged into a stack.\<close>

definition discard_merged :: "item_ref \<Rightarrow> Player \<Rightarrow> Player \<times> inv_call list" where
  "discard_merged i p =
     (upd_item i (\<lambda>it. it\<lparr>it_owner := pl_guid p, it_allowedGUIDs := [],
        it_flags := it_flags it AND NOT (ITEM_FIELD_FLAG_REFUNDABLE OR ITEM_FIELD_FLAG_BOP_TRADEABLE)\<rparr>) p,
      [RemoveEnchantmentDurations i, RemoveItemDurations i]
      @ (if it_allowedGUIDs (heap p i) = [] then [] else [DeleteBopTrade i]) @ [RemoveTradeableItem i])"

definition store_one ::
  "stores \<Rightarrow> Player \<Rightarrow> u16 \<Rightarrow> item_ref \<Rightarrow> u32 \<Rightarrow> bool \<Rightarrow> item_ref option \<times> Player \<times> inv_call list" where
  "store_one E p pos pItem count clone =
     (let bag = pos_bag pos; slot = pos_slot pos
      in case GetItemByPos E p bag slot of
           None \<Rightarrow>
             (case (if clone then CloneItem E p pItem count else Some (pItem, SetCount pItem count p)) of
                None \<Rightarrow> (None, p, [])
              | Some (i, p1) \<Rightarrow>
                  (case put_item E bag slot i (bind_if E pos i p1) of
                     (p2, calls) \<Rightarrow>
                       (Some i, p2, calls @ [AddEnchantmentDurations i, AddItemDurations i] @ obtain_spells bag i)))
         | Some i2 \<Rightarrow>
             (let p1 = bind_if E pos i2 p;
                  p2 = SetCount i2 (it_count (heap p1 i2) + count) p1;
                  (p3, calls) = (if clone then (p2, []) else discard_merged pItem p2)
              in (Some i2, p3, calls @ [AddEnchantmentDurations i2] @ obtain_spells bag i2)))"

text \<open>The loop of \<open>StoreItem\<close>: every position but the last gets a clone.\<close>

fun StoreItem ::
  "stores \<Rightarrow> Player \<Rightarrow> ItemPosCountVec \<Rightarrow> item_ref \<Rightarrow> item_ref option \<Rightarrow> item_ref option \<times> Player \<times> inv_call list" where
  "StoreItem E p [] pItem lst = (lst, p, [])"
| "StoreItem E p [x] pItem lst = store_one E p (ipc_pos x) pItem (ipc_count x) False"
| "StoreItem E p (x # y # dest) pItem lst =
     (case store_one E p (ipc_pos x) pItem (ipc_count x) True of
        (l, p', calls) \<Rightarrow>
          (case StoreItem E p' (y # dest) pItem l of (l', p'', calls') \<Rightarrow> (l', p'', calls @ calls')))"

text \<open>\<open>allowedLooters\<close> is a set of guids, in order; a random property changes no field modelled here.\<close>

definition StoreNewItem ::
  "stores \<Rightarrow> Player \<Rightarrow> ItemPosCountVec \<Rightarrow> u32 \<Rightarrow> guid list \<Rightarrow> item_ref option \<times> Player \<times> inv_call list" where
  "StoreNewItem E p dest item allowedLooters =
     (let count = sum_list (map ipc_count dest)
      in case CreateItem E p item count of
           None \<Rightarrow> (None, p, [])
         | Some (i, p1) \<Rightarrow>
             (case StoreItem E p1 dest i (Some i) of
                (l, p2, calls) \<Rightarrow>
                  (let pre = [ItemAddedQuestCheck item count, AchievementReceiveItem item count,
                              AchievementOwnItem item 1]
                   in case l of
                        None \<Rightarrow> (None, p2, pre @ calls)
                      | Some r \<Rightarrow>
                          if length allowedLooters > 1
                             \<and> (case GetTemplate E (heap p2 r) of Some T \<Rightarrow> GetMaxStackSize T = 1 | None \<Rightarrow> False)
                             \<and> IsSoulBound (heap p2 r)
                          then (Some r,
                                upd_item r (\<lambda>it. it\<lparr>it_flags := it_flags it OR ITEM_FIELD_FLAG_BOP_TRADEABLE,
                                                   it_allowedGUIDs := allowedLooters\<rparr>) p2,
                                pre @ calls @ [AddTradeableItem r, SaveBopTrade r allowedLooters])
                          else (Some r, p2, pre @ calls))))"

section \<open>The abstract inventory\<close>

text \<open>What is in a cell: the entry and the size of the stack.\<close>

definition stack_at :: "stores \<Rightarrow> Player \<Rightarrow> u8 \<Rightarrow> u8 \<Rightarrow> (u32 \<times> u32) option" where
  "stack_at E p b s = map_option (\<lambda>r. (it_entry (heap p r), it_count (heap p r))) (GetItemByPos E p b s)"

text \<open>
  The invariant of an inventory: no item is in two cells, all of them have been allocated, and
  an equipped bag has at most the maximal number of slots.
\<close>

definition inv_ok :: "stores \<Rightarrow> Player \<Rightarrow> bool" where
  "inv_ok E p \<longleftrightarrow>
     (\<forall>b s b' s' r. GetItemByPos E p b s = Some r \<longrightarrow> GetItemByPos E p b' s' = Some r \<longrightarrow> b = b' \<and> s = s')
     \<and> (\<forall>b s r. GetItemByPos E p b s = Some r \<longrightarrow> r < next_ref p)
     \<and> (\<forall>i b. GetBagByPos E p i = Some b \<longrightarrow> unat (GetBagSize (heap p b)) \<le> MAX_BAG_SIZE
           \<and> length (it_bagslot (heap p b)) = MAX_BAG_SIZE)"

definition bag_refs :: "Player \<Rightarrow> item_ref set" where
  "bag_refs p = {r. \<exists>b. is_bag_slot b \<and> m_items p b = Some r}"

lemma is_bag_slot_readable: "is_bag_slot b \<Longrightarrow> slot_readable b"
  by (auto simp: is_bag_slot_def slot_readable_def word_less_nat_alt word_le_nat_alt)

lemma GetBagByPos_cong:
  assumes "\<And>b. is_bag_slot b \<Longrightarrow> m_items p' b = m_items p b"
    and "\<And>r. r \<in> bag_refs p \<Longrightarrow> it_entry (heap p' r) = it_entry (heap p r)"
  shows "GetBagByPos E p' i = GetBagByPos E p i"
proof (cases "is_bag_slot i")
  case True
  have "IsBag E (heap p' r) = IsBag E (heap p r)" if "m_items p i = Some r" for r
  proof -
    have "r \<in> bag_refs p" using that True by (auto simp: bag_refs_def)
    then show ?thesis using assms(2) [of r] by (simp add: IsBag_def GetTemplate_def)
  qed
  with assms(1) [OF True] show ?thesis by (auto simp: GetBagByPos_def split: option.splits)
qed (simp add: GetBagByPos_def)

lemma GetBagByPos_ref: "GetBagByPos E p i = Some b \<Longrightarrow> b \<in> bag_refs p \<and> is_bag_slot i \<and> m_items p i = Some b"
  by (auto simp: GetBagByPos_def bag_refs_def split: option.splits if_splits)

lemma GetItemByPos_cong:
  assumes "\<And>s. slot_readable s \<Longrightarrow> m_items p' s = m_items p s"
    and "\<And>r. r \<in> bag_refs p \<Longrightarrow> it_entry (heap p' r) = it_entry (heap p r)
      \<and> it_numSlots (heap p' r) = it_numSlots (heap p r) \<and> it_bagslot (heap p' r) = it_bagslot (heap p r)"
  shows "GetItemByPos E p' b s = GetItemByPos E p b s"
proof -
  have bag: "GetBagByPos E p' i = GetBagByPos E p i" for i
    by (rule GetBagByPos_cong) (use assms is_bag_slot_readable in blast)+
  have "Bag_GetItemByPos (heap p' r) s = Bag_GetItemByPos (heap p r) s" if "r \<in> bag_refs p" for r
    using assms(2) [OF that] by (simp add: Bag_GetItemByPos_def bag_cell_def GetBagSize_def)
  then show ?thesis
    using assms(1) bag GetBagByPos_ref by (auto simp: GetItemByPos_def split: option.splits)
qed

text \<open>Updates of an item that leave what it is and what it holds.\<close>

definition plain :: "(Item \<Rightarrow> Item) \<Rightarrow> bool" where
  "plain f \<longleftrightarrow> (\<forall>it. it_entry (f it) = it_entry it \<and> it_numSlots (f it) = it_numSlots it
     \<and> it_bagslot (f it) = it_bagslot it)"

lemma plain_upd:
  assumes "plain f"
  shows "GetItemByPos E (upd_item i f p) b s = GetItemByPos E p b s"
    and "GetBagByPos E (upd_item i f p) b = GetBagByPos E p b"
    and "it_entry (heap (upd_item i f p) r) = it_entry (heap p r)"
    and "it_numSlots (heap (upd_item i f p) r) = it_numSlots (heap p r)"
    and "it_bagslot (heap (upd_item i f p) r) = it_bagslot (heap p r)"
    and "next_ref (upd_item i f p) = next_ref p" and "pl_guid (upd_item i f p) = pl_guid p"
    and "inv_ok E (upd_item i f p) = inv_ok E p"
proof -
  have it: "it_entry (heap (upd_item i f p) r) = it_entry (heap p r)"
    "it_numSlots (heap (upd_item i f p) r) = it_numSlots (heap p r)"
    "it_bagslot (heap (upd_item i f p) r) = it_bagslot (heap p r)" for r
    using assms by (simp_all add: plain_def upd_item_def)
  have m: "m_items (upd_item i f p) = m_items p" by (simp add: upd_item_def)
  show "GetItemByPos E (upd_item i f p) b s = GetItemByPos E p b s" for b s
    by (rule GetItemByPos_cong) (simp_all add: it m)
  moreover show "GetBagByPos E (upd_item i f p) b = GetBagByPos E p b" for b
    by (rule GetBagByPos_cong) (simp_all add: it m)
  ultimately show "inv_ok E (upd_item i f p) = inv_ok E p"
    by (simp add: inv_ok_def it GetBagSize_def) (simp add: upd_item_def)
qed (use assms in \<open>simp_all add: plain_def upd_item_def\<close>)

lemma plains:
  "plain (\<lambda>it. it\<lparr>it_count := n\<rparr>)" "plain (\<lambda>it. it\<lparr>it_flags := fl it\<rparr>)"
  "plain (\<lambda>it. it\<lparr>it_owner := g, it_allowedGUIDs := [], it_flags := fl it\<rparr>)"
  "plain (\<lambda>it. it\<lparr>it_flags := fl it, it_allowedGUIDs := al\<rparr>)"
  "plain (\<lambda>it. it\<lparr>it_contained := g, it_owner := g', it_slot := sl, it_container := co\<rparr>)"
  "plain (\<lambda>it. it\<lparr>it_contained := g, it_owner := g', it_container := co, it_slot := sl\<rparr>)"
  by (simp_all add: plain_def)

lemma GetItemByPos_own: "slot_readable s \<Longrightarrow> GetItemByPos E p INVENTORY_SLOT_BAG_0 s = m_items p s"
  by (simp add: GetItemByPos_def)

lemma inv_okD:
  assumes "inv_ok E p"
  shows "GetItemByPos E p b s = Some r \<Longrightarrow> GetItemByPos E p b' s' = Some r \<Longrightarrow> b = b' \<and> s = s'"
    and "GetItemByPos E p b s = Some r \<Longrightarrow> r < next_ref p"
    and "GetBagByPos E p b = Some r \<Longrightarrow> unat (GetBagSize (heap p r)) \<le> MAX_BAG_SIZE"
    and "GetBagByPos E p b = Some r \<Longrightarrow> length (it_bagslot (heap p r)) = MAX_BAG_SIZE"
  using assms unfolding inv_ok_def by blast+

lemma bag_in_cell: "GetBagByPos E p b = Some r \<Longrightarrow> GetItemByPos E p INVENTORY_SLOT_BAG_0 b = Some r"
  by (metis GetBagByPos_ref GetItemByPos_own is_bag_slot_readable)

lemma bag_refs_cell: "r \<in> bag_refs p \<Longrightarrow> \<exists>b. is_bag_slot b \<and> GetItemByPos E p INVENTORY_SLOT_BAG_0 b = Some r"
  by (auto simp: bag_refs_def GetItemByPos_own is_bag_slot_readable)

text \<open>A fresh object changes no cell.\<close>

lemma CreateItem_frame:
  assumes "CreateItem E p ent n = Some (i, p')" and "inv_ok E p"
  shows "i = next_ref p" and "next_ref p' = Suc (next_ref p)" and "\<And>r. r \<noteq> i \<Longrightarrow> heap p' r = heap p r"
    and "it_entry (heap p' i) = ent"
    and "\<And>b s. GetItemByPos E p' b s = GetItemByPos E p b s" and "\<And>b. GetBagByPos E p' b = GetBagByPos E p b"
    and "inv_ok E p'"
proof -
  have h: "i = next_ref p \<and> next_ref p' = Suc (next_ref p) \<and> m_items p' = m_items p
      \<and> (\<forall>r. r \<noteq> i \<longrightarrow> heap p' r = heap p r) \<and> it_entry (heap p' i) = ent"
    using assms(1) by (auto simp: CreateItem_def Let_def split: if_splits option.splits)
  then show 1: "i = next_ref p" "next_ref p' = Suc (next_ref p)" "\<And>r. r \<noteq> i \<Longrightarrow> heap p' r = heap p r"
    "it_entry (heap p' i) = ent" by auto
  have other: "r \<noteq> i" if "r \<in> bag_refs p" for r
    using bag_refs_cell [OF that] inv_okD(2) [OF assms(2)] 1(1) by blast
  show 2: "GetItemByPos E p' b s = GetItemByPos E p b s" for b s
    by (rule GetItemByPos_cong) (use h other in auto)
  show 3: "GetBagByPos E p' b = GetBagByPos E p b" for b
    by (rule GetBagByPos_cong) (use h other in auto)
  have bag: "heap p' r = heap p r" if "GetBagByPos E p b = Some r" for b r
    using that other GetBagByPos_ref h by blast
  show "inv_ok E p'"
    unfolding inv_ok_def 2 3
    using assms(2) bag 1(2) by (auto simp: inv_ok_def intro: less_SucI)
qed

text \<open>A cell of the inventory proper: an own slot that holds no bag, or a slot of a bag.\<close>

definition pos_ok :: "stores \<Rightarrow> Player \<Rightarrow> u8 \<Rightarrow> u8 \<Rightarrow> bool" where
  "pos_ok E p b s \<longleftrightarrow>
     (b = INVENTORY_SLOT_BAG_0 \<and> slot_readable s \<and> \<not> is_bag_slot s)
     \<or> (\<exists>bg. GetBagByPos E p b = Some bg \<and> ucast s < GetBagSize (heap p bg))"

lemma unat_ucast_8_32: "unat (ucast (s :: u8) :: u32) = unat s"
proof -
  have "unat s < 2 ^ 8" using unsigned_less [where w = s and 'a = nat] by simp
  then show ?thesis by (simp add: unsigned_ucast_eq take_bit_nat_eq_self)
qed

lemma put_item_own:
  assumes "inv_ok E p" and "slot_readable s" and "\<not> is_bag_slot s" and "GetItemByPos E p INVENTORY_SLOT_BAG_0 s = None"
    and "\<And>b s. GetItemByPos E p b s \<noteq> Some i" and "i < next_ref p"
    and "p' = fst (put_item E INVENTORY_SLOT_BAG_0 s i p)"
  shows "\<And>b' s'. GetItemByPos E p' b' s' =
      (if b' = INVENTORY_SLOT_BAG_0 \<and> s' = s then Some i else GetItemByPos E p b' s')"
    and "\<And>b. GetBagByPos E p' b = GetBagByPos E p b"
    and "\<And>r. it_entry (heap p' r) = it_entry (heap p r) \<and> it_count (heap p' r) = it_count (heap p r)
      \<and> it_numSlots (heap p' r) = it_numSlots (heap p r)"
    and "next_ref p' = next_ref p" and "inv_ok E p'"
proof -
  define p1 where "p1 = p\<lparr>m_items := (m_items p)(s := Some i)\<rparr>"
  have p': "p' = upd_item i (\<lambda>it. it\<lparr>it_contained := pl_guid p, it_owner := pl_guid p, it_slot := s,
      it_container := None\<rparr>) p1"
    by (simp add: assms(7) put_item_def p1_def)
  have bag1: "GetBagByPos E p1 b = GetBagByPos E p b" for b
    by (rule GetBagByPos_cong) (use assms(3) in \<open>auto simp: p1_def\<close>)
  have item1: "GetItemByPos E p1 b' s' =
      (if b' = INVENTORY_SLOT_BAG_0 \<and> s' = s then Some i else GetItemByPos E p b' s')" for b' s'
  proof (cases "b' = INVENTORY_SLOT_BAG_0 \<and> slot_readable s'")
    case True
    then show ?thesis by (simp add: GetItemByPos_def p1_def)
  next
    case False
    moreover have "heap p1 = heap p" by (simp add: p1_def)
    ultimately show ?thesis using assms(2) by (auto simp: GetItemByPos_def bag1 split: option.split)
  qed
  note pl = plain_upd [OF plains(5)]
  show 1: "GetItemByPos E p' b' s' =
      (if b' = INVENTORY_SLOT_BAG_0 \<and> s' = s then Some i else GetItemByPos E p b' s')" for b' s'
    unfolding p' pl(1) by (rule item1)
  show 2: "GetBagByPos E p' b = GetBagByPos E p b" for b unfolding p' pl(2) by (rule bag1)
  show 3: "it_entry (heap p' r) = it_entry (heap p r) \<and> it_count (heap p' r) = it_count (heap p r)
      \<and> it_numSlots (heap p' r) = it_numSlots (heap p r)" for r
    by (simp add: p' p1_def upd_item_def)
  have bs: "it_bagslot (heap p' r) = it_bagslot (heap p r)" for r by (simp add: p' p1_def upd_item_def)
  show 4: "next_ref p' = next_ref p" by (simp add: p' p1_def upd_item_def)
  show "inv_ok E p'"
    unfolding inv_ok_def 1 2 4
    using assms(5,6) inv_okD [OF assms(1)] 3 bs by (auto simp: GetBagSize_def split: if_splits)
qed

lemma put_item_bag:
  assumes "inv_ok E p" and "GetBagByPos E p b = Some bg" and "ucast s < GetBagSize (heap p bg)"
    and "GetItemByPos E p b s = None" and "\<And>b s. GetItemByPos E p b s \<noteq> Some i" and "i < next_ref p"
    and "p' = fst (put_item E b s i p)"
  shows "\<And>b' s'. GetItemByPos E p' b' s' = (if b' = b \<and> s' = s then Some i else GetItemByPos E p b' s')"
    and "\<And>b. GetBagByPos E p' b = GetBagByPos E p b"
    and "\<And>r. it_entry (heap p' r) = it_entry (heap p r) \<and> it_count (heap p' r) = it_count (heap p r)
      \<and> it_numSlots (heap p' r) = it_numSlots (heap p r)"
    and "next_ref p' = next_ref p" and "inv_ok E p'"
proof -
  define p1 where "p1 = upd_item bg (\<lambda>it. it\<lparr>it_bagslot := (it_bagslot it)[unat s := Some i]\<rparr>) p"
  have nb: "b \<noteq> INVENTORY_SLOT_BAG_0" using assms(2) by (rule GetBagByPos_slot)
  have g: "i \<noteq> bg" using assms(5) bag_in_cell [OF assms(2)] by blast
  have p': "p' = upd_item i (\<lambda>it. it\<lparr>it_contained := object_guid E bg, it_owner := it_owner (heap p bg),
      it_container := Some bg, it_slot := s\<rparr>) p1"
    using nb g by (simp add: assms(2,7) put_item_def Bag_StoreItem_def p1_def)
  have bag1: "GetBagByPos E p1 b' = GetBagByPos E p b'" for b'
    by (rule GetBagByPos_cong) (auto simp: p1_def upd_item_def)
  have s36: "unat s < MAX_BAG_SIZE"
    using assms(3) inv_okD(3) [OF assms(1,2)] by (simp add: word_less_nat_alt unat_ucast_8_32)
  have uniq: "b' = b" if "GetBagByPos E p b' = Some bg" for b'
    using inv_okD(1) [OF assms(1) bag_in_cell [OF that] bag_in_cell [OF assms(2)]] by simp
  have cell: "Bag_GetItemByPos (heap p1 bg) s' = (if s' = s then Some i else Bag_GetItemByPos (heap p bg) s')" for s'
  proof (cases "s' = s")
    case False
    then have "unat s \<noteq> unat s'" by (simp add: word_unat_eq_iff)
    then show ?thesis using False
      by (simp add: Bag_GetItemByPos_def p1_def upd_item_def GetBagSize_def bag_cell_def)
  qed (use assms(3) s36 inv_okD(4) [OF assms(1,2)] in
      \<open>simp add: Bag_GetItemByPos_def p1_def upd_item_def GetBagSize_def bag_cell_def\<close>)
  have other: "heap p1 r = heap p r" if "r \<noteq> bg" for r using that by (simp add: p1_def upd_item_def)
  have m: "m_items p1 = m_items p" by (simp add: p1_def upd_item_def)
  have item1: "GetItemByPos E p1 b' s' = (if b' = b \<and> s' = s then Some i else GetItemByPos E p b' s')" for b' s'
  proof (cases "GetBagByPos E p b'")
    case None
    then show ?thesis using assms(2) by (auto simp: GetItemByPos_def bag1 m)
  next
    case (Some r)
    note in_p = GetItemByPos_in_bag [OF Some] and in_p1 = GetItemByPos_in_bag [OF bag1 [of b', unfolded Some]]
    show ?thesis
    proof (cases "b' = b")
      case True
      then have "r = bg" using Some assms(2) by simp
      then show ?thesis using in_p in_p1 cell True by simp
    next
      case False
      then have "r \<noteq> bg" using Some uniq [of b'] by blast
      then show ?thesis using in_p in_p1 other False by simp
    qed
  qed
  note pl = plain_upd [OF plains(6)]
  show 1: "GetItemByPos E p' b' s' = (if b' = b \<and> s' = s then Some i else GetItemByPos E p b' s')" for b' s'
    unfolding p' pl(1) by (rule item1)
  show 2: "GetBagByPos E p' b = GetBagByPos E p b" for b unfolding p' pl(2) by (rule bag1)
  show 3: "it_entry (heap p' r) = it_entry (heap p r) \<and> it_count (heap p' r) = it_count (heap p r)
      \<and> it_numSlots (heap p' r) = it_numSlots (heap p r)" for r
    by (simp add: p' p1_def upd_item_def)
  have len: "length (it_bagslot (heap p' r)) = length (it_bagslot (heap p r))" for r
    by (simp add: p' p1_def upd_item_def)
  show 4: "next_ref p' = next_ref p" by (simp add: p' p1_def upd_item_def)
  show "inv_ok E p'"
    unfolding inv_ok_def 1 2 4
    using assms(5,6) inv_okD [OF assms(1)] 3 len by (auto simp: GetBagSize_def split: if_splits)
qed

definition same_bags :: "stores \<Rightarrow> Player \<Rightarrow> Player \<Rightarrow> bool" where
  "same_bags E p p' \<longleftrightarrow>
     (\<forall>b. GetBagByPos E p' b = GetBagByPos E p b
          \<and> (\<forall>r. GetBagByPos E p b = Some r \<longrightarrow> it_numSlots (heap p' r) = it_numSlots (heap p r)))"

lemma same_bags_trans: "same_bags E p p' \<Longrightarrow> same_bags E p' p'' \<Longrightarrow> same_bags E p p''"
  by (simp add: same_bags_def)

lemma same_bags_pos_ok: "same_bags E p p' \<Longrightarrow> pos_ok E p' b s = pos_ok E p b s"
  by (auto simp: same_bags_def pos_ok_def GetBagSize_def)

text \<open>Updates that leave the counts, too.\<close>

definition silent :: "(Item \<Rightarrow> Item) \<Rightarrow> bool" where
  "silent f \<longleftrightarrow> plain f \<and> (\<forall>it. it_count (f it) = it_count it)"

lemma silent_upd:
  assumes "silent f"
  shows "stack_at E (upd_item i f p) b s = stack_at E p b s" and "same_bags E p (upd_item i f p)"
    and "inv_ok E (upd_item i f p) = inv_ok E p" and "GetItemByPos E (upd_item i f p) b s = GetItemByPos E p b s"
    and "next_ref (upd_item i f p) = next_ref p" and "it_entry (heap (upd_item i f p) r) = it_entry (heap p r)"
    and "it_count (heap (upd_item i f p) r) = it_count (heap p r)"
proof -
  have f: "plain f" using assms by (simp add: silent_def)
  note pl = plain_upd [OF f]
  show c: "it_count (heap (upd_item i f p) r) = it_count (heap p r)" for r
    using assms by (simp add: silent_def upd_item_def)
  show "stack_at E (upd_item i f p) b s = stack_at E p b s" by (simp add: stack_at_def pl c)
qed (use plain_upd assms in \<open>auto simp: silent_def same_bags_def\<close>)

lemma bind_if_cases: "bind_if E pos i p = p \<or> bind_if E pos i p = SetBinding i p"
  by (auto simp: bind_if_def split: option.splits)

lemma silents:
  "silent (\<lambda>it. it\<lparr>it_flags := fl it\<rparr>)"
  "silent (\<lambda>it. it\<lparr>it_owner := g, it_allowedGUIDs := [], it_flags := fl it\<rparr>)"
  "silent (\<lambda>it. it\<lparr>it_flags := fl it, it_allowedGUIDs := al\<rparr>)"
  by (simp_all add: silent_def plains)

lemma bind_if_silent: "\<exists>f. silent f \<and> bind_if E pos i p = upd_item i f p"
proof -
  have "p = upd_item i (\<lambda>it. it) p" and "silent (\<lambda>it. it)"
    by (simp_all add: upd_item_def silent_def plain_def)
  from bind_if_cases show ?thesis
  proof
    assume "bind_if E pos i p = p"
    with \<open>p = _\<close> \<open>silent _\<close> show ?thesis by (intro exI conjI) auto
  next
    assume "bind_if E pos i p = SetBinding i p"
    then show ?thesis unfolding SetBinding_def using silents(1) by (intro exI conjI)
  qed
qed

lemma discard_merged_silent: "\<exists>f. silent f \<and> fst (discard_merged i p) = upd_item i f p"
  unfolding discard_merged_def fst_conv using silents(2) by metis

lemma SetCount_stack:
  assumes "inv_ok E p" and "GetItemByPos E p b s = Some i"
  shows "stack_at E (SetCount i n p) b' s' =
      (if b' = b \<and> s' = s then Some (it_entry (heap p i), n) else stack_at E p b' s')"
proof -
  have "GetItemByPos E (SetCount i n p) b' s' = GetItemByPos E p b' s'"
    unfolding SetCount_def by (rule plain_upd(1) [OF plains(1)])
  then show ?thesis
  proof (cases "b' = b \<and> s' = s")
    case False
    then have "GetItemByPos E p b' s' \<noteq> Some i" using inv_okD(1) [OF assms(1) _ assms(2)] by blast
    then have "stack_at E (SetCount i n p) b' s' = stack_at E p b' s'"
      unfolding stack_at_def \<open>GetItemByPos E (SetCount i n p) b' s' = _\<close>
      by (cases "GetItemByPos E p b' s'") (simp_all add: SetCount_def upd_item_def)
    then show ?thesis using False by (simp only: if_False)
  qed (use assms(2) in \<open>simp add: stack_at_def SetCount_def upd_item_def\<close>)
qed

lemma SetCount_frame:
  "inv_ok E (SetCount i n p) = inv_ok E p" "same_bags E p (SetCount i n p)"
  "GetItemByPos E (SetCount i n p) b s = GetItemByPos E p b s" "next_ref (SetCount i n p) = next_ref p"
  "it_entry (heap (SetCount i n p) r) = it_entry (heap p r)"
  unfolding SetCount_def same_bags_def using plain_upd [OF plains(1)] by auto

lemma put_item_stack:
  assumes "inv_ok E p" and "pos_ok E p b s" and "GetItemByPos E p b s = None"
    and "\<And>b s. GetItemByPos E p b s \<noteq> Some i" and "i < next_ref p" and "p' = fst (put_item E b s i p)"
  shows "inv_ok E p'" and "same_bags E p p'" and "next_ref p' = next_ref p"
    and "stack_at E p' b' s' = (if b' = b \<and> s' = s then Some (it_entry (heap p i), it_count (heap p i))
           else stack_at E p b' s')"
    and "GetItemByPos E p' b' s' = (if b' = b \<and> s' = s then Some i else GetItemByPos E p b' s')"
    and "it_entry (heap p' r) = it_entry (heap p r)"
proof -
  have "(\<forall>b' s'. GetItemByPos E p' b' s' = (if b' = b \<and> s' = s then Some i else GetItemByPos E p b' s'))
    \<and> (\<forall>b. GetBagByPos E p' b = GetBagByPos E p b)
    \<and> (\<forall>r. it_entry (heap p' r) = it_entry (heap p r) \<and> it_count (heap p' r) = it_count (heap p r)
         \<and> it_numSlots (heap p' r) = it_numSlots (heap p r))
    \<and> next_ref p' = next_ref p \<and> inv_ok E p'"
    using assms(2) unfolding pos_ok_def
  proof (elim disjE conjE exE)
    assume b: "b = INVENTORY_SLOT_BAG_0" and s: "slot_readable s" "\<not> is_bag_slot s"
    note own = put_item_own [OF assms(1) s assms(3) [unfolded b] assms(4,5) assms(6) [unfolded b]]
    show ?thesis unfolding b by (intro conjI allI) (rule own | simp add: own)+
  next
    fix bg assume bg: "GetBagByPos E p b = Some bg" "ucast s < GetBagSize (heap p bg)"
    note bag = put_item_bag [OF assms(1) bg assms(3-6)]
    show ?thesis by (intro conjI allI) (rule bag | simp add: bag)+
  qed
  then show "inv_ok E p'" "same_bags E p p'" "next_ref p' = next_ref p"
    "stack_at E p' b' s' = (if b' = b \<and> s' = s then Some (it_entry (heap p i), it_count (heap p i))
           else stack_at E p b' s')"
    "GetItemByPos E p' b' s' = (if b' = b \<and> s' = s then Some i else GetItemByPos E p b' s')"
    "it_entry (heap p' r) = it_entry (heap p r)"
    by (auto simp: same_bags_def stack_at_def)
qed

section \<open>Storing one stack\<close>

text \<open>An object that is in no cell.\<close>

definition loose :: "stores \<Rightarrow> Player \<Rightarrow> item_ref \<Rightarrow> bool" where
  "loose E p i \<longleftrightarrow> i < next_ref p \<and> (\<forall>b s. GetItemByPos E p b s \<noteq> Some i)"

text \<open>The abstract operation: a cell gets \<open>n\<close> items, or \<open>n\<close> items more.\<close>

definition add_stack :: "u32 \<Rightarrow> u32 \<Rightarrow> (u32 \<times> u32) option \<Rightarrow> (u32 \<times> u32) option" where
  "add_stack ent n st = Some (ent, (case st of None \<Rightarrow> n | Some (_, c) \<Rightarrow> c + n))"

definition inventory :: "stores \<Rightarrow> Player \<Rightarrow> u8 \<times> u8 \<Rightarrow> (u32 \<times> u32) option" where
  "inventory E p = (\<lambda>(b, s). stack_at E p b s)"

definition store_at :: "u32 \<Rightarrow> ItemPosCount \<Rightarrow> (u8 \<times> u8 \<Rightarrow> (u32 \<times> u32) option) \<Rightarrow> u8 \<times> u8 \<Rightarrow> (u32 \<times> u32) option" where
  "store_at ent x m =
     (let q = (pos_bag (ipc_pos x), pos_slot (ipc_pos x)) in m(q := add_stack ent (ipc_count x) (m q)))"

text \<open>\<open>CreateItem\<close> gives an object for \<open>n\<close> items.\<close>

definition creatable :: "stores \<Rightarrow> u32 \<Rightarrow> u32 \<Rightarrow> bool" where
  "creatable E ent n \<longleftrightarrow>
     (case item_templates E ent of
        None \<Rightarrow> False
      | Some T \<Rightarrow> \<not> (InventoryType T = INVTYPE_BAG \<and> ContainerSlots T > of_nat MAX_BAG_SIZE)
                  \<and> 1 \<le> n \<and> n \<le> GetMaxStackSize T)"

lemma loose_frame:
  assumes "loose E p i" and "\<And>b s. GetItemByPos E p' b s = GetItemByPos E p b s" and "next_ref p \<le> next_ref p'"
  shows "loose E p' i"
  using assms by (auto simp: loose_def intro: less_le_trans)

lemma CreateItem_creatable:
  assumes "creatable E ent n"
  shows "\<exists>k p'. CreateItem E p ent n = Some (k, p') \<and> it_count (heap p' k) = n"
proof -
  obtain T where T: "item_templates E ent = Some T" "1 \<le> n" "n \<le> GetMaxStackSize T"
    "\<not> (InventoryType T = INVTYPE_BAG \<and> ContainerSlots T > of_nat MAX_BAG_SIZE)"
    using assms by (auto simp: creatable_def split: option.splits)
  then have "\<not> n < 1" "\<not> n > GetMaxStackSize T" by (simp_all only: not_less)
  then show ?thesis using T by (simp add: CreateItem_def Let_def)
qed

lemma CloneItem_effect:
  assumes "inv_ok E p" and "loose E p i" and "creatable E (it_entry (heap p i)) n"
  obtains k p1 where "CloneItem E p i n = Some (k, p1)" and "inv_ok E p1" and "same_bags E p p1"
    and "loose E p1 k" and "loose E p1 i" and "k \<noteq> i" and "it_entry (heap p1 k) = it_entry (heap p i)"
    and "it_count (heap p1 k) = n" and "it_entry (heap p1 i) = it_entry (heap p i)"
    and "\<And>b s. stack_at E p1 b s = stack_at E p b s" and "\<And>b s. GetItemByPos E p1 b s = GetItemByPos E p b s"
proof -
  obtain k p0 where c: "CreateItem E p (it_entry (heap p i)) n = Some (k, p0)"
    and cnt: "it_count (heap p0 k) = n"
    using CreateItem_creatable [OF assms(3), of p] by blast
  note fr = CreateItem_frame [OF c assms(1)]
  define f :: "Item \<Rightarrow> Item" where "f = (\<lambda>it. it\<lparr>it_flags := it_flags (heap p i) AND NOT (ITEM_FIELD_FLAG_REFUNDABLE OR ITEM_FIELD_FLAG_BOP_TRADEABLE)\<rparr>)"
  have sf: "silent f" unfolding f_def by (rule silents)
  define p1 where "p1 = upd_item k f p0"
  note up = silent_upd [OF sf, where i = k and p = p0, folded p1_def]
  have "CloneItem E p i n = Some (k, p1)" by (simp add: CloneItem_def c p1_def f_def)
  moreover have ne: "k \<noteq> i" using assms(2) fr(1) by (auto simp: loose_def)
  moreover have cells: "GetItemByPos E p1 b s = GetItemByPos E p b s" for b s using up(4) fr(5) by simp
  moreover have "loose E p1 k"
    using inv_okD(2) [OF assms(1)] fr(1,2) up(5) cells unfolding loose_def by (metis lessI less_irrefl)
  moreover have "loose E p1 i" by (rule loose_frame [OF assms(2) cells]) (simp add: up(5) fr(2))
  moreover have "same_bags E p p1"
  proof -
    have "heap p0 r = heap p r" if "GetBagByPos E p b = Some r" for b r
      using fr(3) inv_okD(2) [OF assms(1) bag_in_cell [OF that]] fr(1) by simp
    then have "same_bags E p p0" by (simp add: same_bags_def fr(6))
    then show ?thesis using up(2) same_bags_trans by blast
  qed
  moreover have "stack_at E p1 b s = stack_at E p b s" for b s
  proof -
    have "heap p0 r = heap p r" if "GetItemByPos E p b s = Some r" for r
      using fr(3) inv_okD(2) [OF assms(1) that] fr(1) by simp
    then have "stack_at E p0 b s = stack_at E p b s"
      by (cases "GetItemByPos E p b s") (simp_all add: stack_at_def fr(5))
    then show ?thesis using up(1) by simp
  qed
  ultimately show thesis
    using that [of k p1] up(3,6,7) fr(3,4,7) cnt by simp
qed

lemma store_one_effect:
  assumes "inv_ok E p" and "pos_ok E p (pos_bag q) (pos_slot q)" and "loose E p i"
    and "\<And>st. stack_at E p (pos_bag q) (pos_slot q) = Some st \<Longrightarrow> fst st = it_entry (heap p i)"
    and "clone \<Longrightarrow> creatable E (it_entry (heap p i)) n"
    and "store_one E p q i n clone = (l, p', calls)"
  shows "l \<noteq> None \<and> inv_ok E p' \<and> same_bags E p p'
    \<and> inventory E p' = store_at (it_entry (heap p i)) \<lparr>ipc_pos = q, ipc_count = n\<rparr> (inventory E p)
    \<and> (clone \<longrightarrow> loose E p' i \<and> it_entry (heap p' i) = it_entry (heap p i))"
proof (cases "GetItemByPos E p (pos_bag q) (pos_slot q)")
  case None
  then have st: "stack_at E p (pos_bag q) (pos_slot q) = None" by (simp add: stack_at_def)
  obtain k p1 where new: "(if clone then CloneItem E p i n else Some (i, SetCount i n p)) = Some (k, p1)"
    and p1: "inv_ok E p1" "same_bags E p p1" "loose E p1 k" "it_entry (heap p1 k) = it_entry (heap p i)"
      "it_count (heap p1 k) = n" "\<And>b s. stack_at E p1 b s = stack_at E p b s"
      "\<And>b s. GetItemByPos E p1 b s = GetItemByPos E p b s"
    and cl: "clone \<Longrightarrow> loose E p1 i \<and> k \<noteq> i \<and> it_entry (heap p1 i) = it_entry (heap p i)"
  proof (cases clone)
    case True
    with CloneItem_effect [OF assms(1,3) assms(5)] that show ?thesis by (metis (no_types, lifting))
  next
    case False
    have "stack_at E (SetCount i n p) b s = stack_at E p b s" for b s
      using assms(3) SetCount_frame(3,5)
      by (cases "GetItemByPos E p b s") (auto simp: stack_at_def loose_def SetCount_frame, auto simp: SetCount_def upd_item_def)
    moreover have "loose E (SetCount i n p) i"
      by (rule loose_frame [OF assms(3)]) (simp_all add: SetCount_frame)
    moreover have "it_count (heap (SetCount i n p) i) = n" by (simp add: SetCount_def upd_item_def)
    ultimately show ?thesis using that [of i "SetCount i n p"] assms(1) False by (simp add: SetCount_frame)
  qed
  obtain f where f: "silent f" "bind_if E q k p1 = upd_item k f p1" using bind_if_silent by blast
  define p2 where "p2 = upd_item k f p1"
  note up = silent_upd [OF f(1), where i = k and p = p1, folded p2_def]
  have lk: "loose E p2 k" by (rule loose_frame [OF p1(3)]) (simp_all add: up)
  obtain p3 c3 where p3: "put_item E (pos_bag q) (pos_slot q) k p2 = (p3, c3)" by (cases "put_item E (pos_bag q) (pos_slot q) k p2") auto
  have "pos_ok E p2 (pos_bag q) (pos_slot q)"
    using assms(2) same_bags_pos_ok [OF same_bags_trans [OF p1(2) up(2)]] by simp
  note put = put_item_stack [OF _ this _ _ _ p3 [THEN arg_cong [of _ _ fst], simplified fst_conv, symmetric]]
  have pre: "inv_ok E p2" "GetItemByPos E p2 (pos_bag q) (pos_slot q) = None"
    "\<And>b s. GetItemByPos E p2 b s \<noteq> Some k" "k < next_ref p2"
    using p1 up None lk by (simp_all add: loose_def)
  note put = put [OF pre]
  have res: "l = Some k" "p' = p3"
    using assms(6) None new p3 f(2) by (auto simp: store_one_def p2_def Let_def)
  have "stack_at E p3 b s = (if b = pos_bag q \<and> s = pos_slot q then Some (it_entry (heap p i), n) else stack_at E p b s)" for b s
    using put(4) [of b s] up(1,6,7) p1(4,5,6) by simp
  then have "inventory E p3 = store_at (it_entry (heap p i)) \<lparr>ipc_pos = q, ipc_count = n\<rparr> (inventory E p)"
    using st by (auto simp: inventory_def store_at_def add_stack_def fun_eq_iff Let_def)
  moreover have "loose E p3 i \<and> it_entry (heap p3 i) = it_entry (heap p i)" if clone
    using cl [OF that] put(3,5,6) up(4,5,6) by (auto simp: loose_def)
  ultimately show ?thesis using res put(1,2) p1(2) up(2) same_bags_trans by blast
next
  case (Some j)
  then have st: "stack_at E p (pos_bag q) (pos_slot q) = Some (it_entry (heap p j), it_count (heap p j))"
    by (simp add: stack_at_def)
  then have ent: "it_entry (heap p j) = it_entry (heap p i)" using assms(4) by fastforce
  obtain f where f: "silent f" "bind_if E q j p = upd_item j f p" using bind_if_silent by blast
  define p1 where "p1 = upd_item j f p"
  note up = silent_upd [OF f(1), where i = j and p = p, folded p1_def]
  define p2 where "p2 = SetCount j (it_count (heap p1 j) + n) p1"
  have inv1: "inv_ok E p1" and cell1: "GetItemByPos E p1 (pos_bag q) (pos_slot q) = Some j"
    using assms(1) Some up by simp_all
  note set = SetCount_frame [where i = j and n = "it_count (heap p1 j) + n" and p = p1, folded p2_def]
  have stk: "stack_at E p2 b s = (if b = pos_bag q \<and> s = pos_slot q
      then Some (it_entry (heap p i), it_count (heap p j) + n) else stack_at E p b s)" for b s
    unfolding p2_def SetCount_stack [OF inv1 cell1] by (simp add: up ent)
  obtain g where g: "silent g" "fst (discard_merged i p2) = upd_item i g p2" using discard_merged_silent by blast
  note dis = silent_upd [OF g(1), where i = i and p = p2]
  have res: "l = Some j" "p' = (if clone then p2 else fst (discard_merged i p2))"
    using assms(6) Some f(2) by (auto simp: store_one_def p1_def p2_def Let_def split: prod.splits)
  have q2: "inv_ok E p2 \<and> same_bags E p p2" using set(1,2) inv1 up(2) same_bags_trans by blast
  have "inventory E p2 = store_at (it_entry (heap p i)) \<lparr>ipc_pos = q, ipc_count = n\<rparr> (inventory E p)"
    using st stk by (auto simp: inventory_def store_at_def add_stack_def fun_eq_iff Let_def)
  moreover have "inventory E (fst (discard_merged i p2)) = inventory E p2"
    by (simp add: inventory_def g(2) dis(1))
  moreover have "loose E p2 i \<and> it_entry (heap p2 i) = it_entry (heap p i)"
    using assms(3) by (simp add: loose_def set up)
  moreover have "inv_ok E (fst (discard_merged i p2)) \<and> same_bags E p (fst (discard_merged i p2))"
    unfolding g(2) using q2 dis(2,3) same_bags_trans by blast
  ultimately show ?thesis using res q2 by auto
qed

section \<open>Storing a list of positions\<close>

lemma StoreItem_effect:
  assumes "inv_ok E p" and "loose E p i" and "dest \<noteq> []"
    and "\<And>x. x \<in> set dest \<Longrightarrow> pos_ok E p (pos_bag (ipc_pos x)) (pos_slot (ipc_pos x))"
    and "\<And>x st. x \<in> set dest \<Longrightarrow> inventory E p (pos_bag (ipc_pos x), pos_slot (ipc_pos x)) = Some st
           \<Longrightarrow> fst st = it_entry (heap p i)"
    and "\<And>x. x \<in> set dest \<Longrightarrow> creatable E (it_entry (heap p i)) (ipc_count x)"
    and "StoreItem E p dest i lst = (l, p', calls)"
  shows "inv_ok E p' \<and> l \<noteq> None \<and> same_bags E p p'
    \<and> inventory E p' = foldl (\<lambda>m x. store_at (it_entry (heap p i)) x m) (inventory E p) dest"
  using assms
proof (induction E p dest i lst arbitrary: l p' calls rule: StoreItem.induct)
  case (2 E p x i lst)
  have eta: "\<lparr>ipc_pos = ipc_pos x, ipc_count = ipc_count x\<rparr> = x" by simp
  from 2 show ?case
    using store_one_effect [of E p "ipc_pos x" i False "ipc_count x" l p' calls, unfolded eta]
    by (simp add: inventory_def)
next
  case (3 E p x y dest i lst)
  obtain l1 p1 c1 where one: "store_one E p (ipc_pos x) i (ipc_count x) True = (l1, p1, c1)"
    by (cases "store_one E p (ipc_pos x) i (ipc_count x) True") auto
  obtain l2 p2 c2 where rest: "StoreItem E p1 (y # dest) i l1 = (l2, p2, c2)"
    by (cases "StoreItem E p1 (y # dest) i l1") auto
  have res: "l = l2" "p' = p2" using 3(8) one rest by auto
  have eff: "inv_ok E p1" "same_bags E p p1" "loose E p1 i" "it_entry (heap p1 i) = it_entry (heap p i)"
    "inventory E p1 = store_at (it_entry (heap p i)) x (inventory E p)"
    using store_one_effect [OF 3(2) _ 3(3) _ _ one] 3(5,6,7) [of x] by (auto simp: inventory_def store_at_def)
  have "inv_ok E p2 \<and> l2 \<noteq> None \<and> same_bags E p1 p2
      \<and> inventory E p2 = foldl (\<lambda>m x. store_at (it_entry (heap p1 i)) x m) (inventory E p1) (y # dest)"
  proof (rule 3(1) [OF one [symmetric] refl eff(1) eff(3) _ _ _ _ rest])
    fix z assume z: "z \<in> set (y # dest)"
    then show "pos_ok E p1 (pos_bag (ipc_pos z)) (pos_slot (ipc_pos z))"
      using 3(5) same_bags_pos_ok [OF eff(2)] by simp
    show "creatable E (it_entry (heap p1 i)) (ipc_count z)" using 3(7) z eff(4) by simp
    fix st assume "inventory E p1 (pos_bag (ipc_pos z), pos_slot (ipc_pos z)) = Some st"
    then show "fst st = it_entry (heap p1 i)"
      using 3(6) [of z st] z eff(4,5) by (auto simp: store_at_def add_stack_def Let_def split: if_splits)
  qed simp
  then show ?case
    unfolding res using eff(2,4,5) same_bags_trans [OF eff(2)] by simp
qed simp

text \<open>Property C33: \<open>StoreItem\<close> refines the abstract inventory: for positions that exist and are
  free or hold the same item, the cells of the inventory afterwards are the cells before with every
  count of the list added at its position, and nothing else changed; the invariant (no item in two
  cells) is kept, although the code clones the item for every position but the last.\<close>

theorem StoreItem_refines:
  assumes "inv_ok E p" and "loose E p i" and "dest \<noteq> []"
    and "\<And>x. x \<in> set dest \<Longrightarrow> pos_ok E p (pos_bag (ipc_pos x)) (pos_slot (ipc_pos x))"
    and "\<And>x st. x \<in> set dest \<Longrightarrow> inventory E p (pos_bag (ipc_pos x), pos_slot (ipc_pos x)) = Some st
           \<Longrightarrow> fst st = it_entry (heap p i)"
    and "\<And>x. x \<in> set dest \<Longrightarrow> creatable E (it_entry (heap p i)) (ipc_count x)"
    and "StoreItem E p dest i lst = (l, p', calls)"
  shows "inv_ok E p' \<and> l \<noteq> None \<and> same_bags E p p'
    \<and> inventory E p' = foldl (\<lambda>m x. store_at (it_entry (heap p i)) x m) (inventory E p) dest"
  by (rule StoreItem_effect [OF assms])

section \<open>Counting over the cells\<close>

text \<open>The cells \<open>GetItemCount\<close> visits, bank included, each once.\<close>

definition bag_pos :: "stores \<Rightarrow> Player \<Rightarrow> u8 \<Rightarrow> u8 \<Rightarrow> (u8 \<times> u8) list" where
  "bag_pos E p a b =
     concat (map (\<lambda>i. case GetBagByPos E p i of
                        None \<Rightarrow> []
                      | Some r \<Rightarrow> map (\<lambda>j. (i, of_nat j)) [0..<unat (GetBagSize (heap p r))]) (slot_range a b))"

definition own_pos :: "u8 \<Rightarrow> u8 \<Rightarrow> (u8 \<times> u8) list" where
  "own_pos a b = map (Pair INVENTORY_SLOT_BAG_0) (slot_range a b)"

definition all_pos :: "stores \<Rightarrow> Player \<Rightarrow> (u8 \<times> u8) list" where
  "all_pos E p =
     own_pos EQUIPMENT_SLOT_START INVENTORY_SLOT_ITEM_END @ own_pos KEYRING_SLOT_START CURRENCYTOKEN_SLOT_END
     @ bag_pos E p INVENTORY_SLOT_BAG_START INVENTORY_SLOT_BAG_END
     @ own_pos BANK_SLOT_ITEM_START BANK_SLOT_BAG_END @ bag_pos E p BANK_SLOT_BAG_START BANK_SLOT_BAG_END"

definition amount :: "u32 \<Rightarrow> (u32 \<times> u32) option \<Rightarrow> u32" where
  "amount item st = (case st of None \<Rightarrow> 0 | Some (e, c) \<Rightarrow> if e = item then c else 0)"

lemma count_cell_amount:
  "count_cell p (\<lambda>it. it_entry it = item) None (GetItemByPos E p b s) = amount item (inventory E p (b, s))"
  by (cases "GetItemByPos E p b s") (simp_all add: count_cell_def amount_def inventory_def stack_at_def)

lemma own_count:
  "sum_list (map (count_cell p (\<lambda>it. it_entry it = item) None) (own_cells E p a b))
   = sum_list (map (\<lambda>q. amount item (inventory E p q)) (own_pos a b))"
  by (simp add: own_cells_def own_pos_def comp_def count_cell_amount)

lemma sum_list_concat_map: "sum_list (map f (concat xss)) = sum_list (map (\<lambda>xs. sum_list (map f xs)) xss)"
  by (induction xss) auto

lemma unat_of_nat_small: "j < MAX_BAG_SIZE \<Longrightarrow> unat (of_nat j :: u8) = j"
  by (simp add: unat_of_nat)

lemma bag_count:
  assumes "inv_ok E p"
  shows "sum_bags E p a b (\<lambda>bg. Bag_GetItemCount E p bg item None)
   = sum_list (map (\<lambda>q. amount item (inventory E p q)) (bag_pos E p a b))"
proof -
  have "(case GetBagByPos E p i of None \<Rightarrow> 0 | Some r \<Rightarrow> Bag_GetItemCount E p (heap p r) item None)
    = sum_list (map (\<lambda>q. amount item (inventory E p q)) (case GetBagByPos E p i of
          None \<Rightarrow> [] | Some r \<Rightarrow> map (\<lambda>j. (i, of_nat j)) [0..<unat (GetBagSize (heap p r))]))" for i
  proof (cases "GetBagByPos E p i")
    case (Some r)
    have "count_cell p (\<lambda>it. it_entry it = item) None (bag_cell (heap p r) j)
        = amount item (inventory E p (i, of_nat j))" if "j < unat (GetBagSize (heap p r))" for j
    proof -
      have "j < MAX_BAG_SIZE" using that inv_okD(3) [OF assms Some] by simp
      then have j: "unat (of_nat j :: u8) = j" by (rule unat_of_nat_small)
      have "GetItemByPos E p i (of_nat j) = bag_cell (heap p r) j"
        using that u8_of_nat_less [OF that] by (simp add: GetItemByPos_in_bag [OF Some] Bag_GetItemByPos_def j)
      then show ?thesis using count_cell_amount [of p item E i "of_nat j"] by simp
    qed
    then show ?thesis
      by (auto simp: Some Bag_GetItemCount_def skip_is_gem_def bag_cells_def comp_def
          intro!: arg_cong [where f = sum_list] map_cong)
  qed simp
  then show ?thesis by (simp add: sum_bags_def bag_pos_def sum_list_concat_map comp_def)
qed

lemma GetItemCount_inventory:
  assumes "inv_ok E p"
  shows "GetItemCount E p item True None = sum_list (map (\<lambda>q. amount item (inventory E p q)) (all_pos E p))"
  by (simp add: GetItemCount_def Let_def skip_is_gem_def own_count bag_count [OF assms] all_pos_def)

lemma distinct_bag_pos:
  assumes "inv_ok E p" shows "distinct (bag_pos E p a b)"
proof -
  have row: "distinct (map (\<lambda>j. (i, of_nat j :: u8)) [0..<unat (GetBagSize (heap p r))])"
    if "GetBagByPos E p i = Some r" for i r
  proof -
    have "inj_on (\<lambda>j. (i, of_nat j :: u8)) (set [0..<unat (GetBagSize (heap p r))])"
      using inv_okD(3) [OF assms that] unat_of_nat_small by (intro inj_onI) (auto, metis order_less_le_trans)
    then show ?thesis by (simp add: distinct_map)
  qed
  have "distinct is \<Longrightarrow> distinct (concat (map (\<lambda>i. case GetBagByPos E p i of None \<Rightarrow> []
      | Some r \<Rightarrow> map (\<lambda>j. (i, of_nat j :: u8)) [0..<unat (GetBagSize (heap p r))]) is))" for "is"
    by (induction "is") (auto simp: row split: option.splits)
  then show ?thesis using distinct_slot_range by (simp add: bag_pos_def)
qed

lemma bag_pos_range: "(b, s) \<in> set (bag_pos E p lo hi) \<Longrightarrow> lo \<le> b \<and> b < hi \<and> b \<noteq> INVENTORY_SLOT_BAG_0"
  by (auto simp: bag_pos_def set_slot_range split: option.splits dest!: GetBagByPos_slot [OF sym])

lemma distinct_all_pos: assumes "inv_ok E p" shows "distinct (all_pos E p)"
proof -
  have own: "distinct (own_pos a b)" for a b
    by (simp add: own_pos_def distinct_map distinct_slot_range inj_on_def)
  have so: "set (own_pos a b) = {INVENTORY_SLOT_BAG_0} \<times> {i. a \<le> i \<and> i < b}" for a b
    by (auto simp: own_pos_def set_slot_range)
  have bg: "set (bag_pos E p a b) \<subseteq> {i. a \<le> i \<and> i < b \<and> i \<noteq> INVENTORY_SLOT_BAG_0} \<times> UNIV" for a b
    using bag_pos_range by fastforce
  have "set (bag_pos E p INVENTORY_SLOT_BAG_START INVENTORY_SLOT_BAG_END)
      \<inter> set (bag_pos E p BANK_SLOT_BAG_START BANK_SLOT_BAG_END) = {}"
  proof -
    have False if "(a, s) \<in> set (bag_pos E p INVENTORY_SLOT_BAG_START INVENTORY_SLOT_BAG_END)"
      and "(a, s) \<in> set (bag_pos E p BANK_SLOT_BAG_START BANK_SLOT_BAG_END)" for a s
      using bag_pos_range [OF that(1)] bag_pos_range [OF that(2)] by (simp add: word_less_nat_alt word_le_nat_alt)
    then show ?thesis by fastforce
  qed
  moreover have "set (own_pos a b) \<inter> set (bag_pos E p c d) = {}" "set (bag_pos E p c d) \<inter> set (own_pos a b) = {}"
    for a b c d
    using bg [of c d] so by auto
  moreover have "set (own_pos EQUIPMENT_SLOT_START INVENTORY_SLOT_ITEM_END)
      \<inter> set (own_pos KEYRING_SLOT_START CURRENCYTOKEN_SLOT_END) = {}"
    "set (own_pos EQUIPMENT_SLOT_START INVENTORY_SLOT_ITEM_END) \<inter> set (own_pos BANK_SLOT_ITEM_START BANK_SLOT_BAG_END) = {}"
    "set (own_pos KEYRING_SLOT_START CURRENCYTOKEN_SLOT_END) \<inter> set (own_pos BANK_SLOT_ITEM_START BANK_SLOT_BAG_END) = {}"
    unfolding so by (auto simp: word_less_nat_alt word_le_nat_alt)
  ultimately show ?thesis
    unfolding all_pos_def distinct_append set_append
    using own distinct_bag_pos [OF assms] by (simp add: Int_Un_distrib)
qed

section \<open>Storing adds what it stores\<close>

lemma sum_list_point:
  fixes f g :: "'b \<Rightarrow> u32"
  assumes "distinct qs" and "q \<in> set qs" and "\<And>r. r \<noteq> q \<Longrightarrow> g r = f r" and "g q = f q + n"
  shows "sum_list (map g qs) = sum_list (map f qs) + n"
  using assms(1,2)
proof (induction qs)
  case (Cons a qs)
  show ?case
  proof (cases "a = q")
    case True
    then have "r \<noteq> q" if "r \<in> set qs" for r using that Cons.prems(1) by auto
    then have "map g qs = map f qs" using assms(3) by (intro map_cong refl) blast
    then have "sum_list (map g qs) = sum_list (map f qs)" by (rule arg_cong)
    then show ?thesis using True assms(4) by (simp only: list.simps sum_list.Cons add.commute add.left_commute add.assoc)
  next
    case False
    then show ?thesis using Cons assms(3) [OF False] by (simp add: algebra_simps)
  qed
qed simp

lemma sum_amount_foldl:
  assumes "distinct qs" and "\<And>x. x \<in> set dest \<Longrightarrow> (pos_bag (ipc_pos x), pos_slot (ipc_pos x)) \<in> set qs"
    and "\<And>x st. x \<in> set dest \<Longrightarrow> m (pos_bag (ipc_pos x), pos_slot (ipc_pos x)) = Some st \<Longrightarrow> fst st = item"
  shows "sum_list (map (\<lambda>q. amount item (foldl (\<lambda>m x. store_at item x m) m dest q)) qs)
    = sum_list (map (\<lambda>q. amount item (m q)) qs) + sum_list (map ipc_count dest)"
  using assms(2,3)
proof (induction dest arbitrary: m)
  case (Cons x dest)
  define q where "q = (pos_bag (ipc_pos x), pos_slot (ipc_pos x))"
  have st: "store_at item x m = m(q := add_stack item (ipc_count x) (m q))" by (simp add: store_at_def q_def Let_def)
  have one: "sum_list (map (\<lambda>r. amount item (store_at item x m r)) qs)
      = sum_list (map (\<lambda>r. amount item (m r)) qs) + ipc_count x"
  proof (rule sum_list_point [OF assms(1)])
    show "q \<in> set qs" using Cons.prems(1) [of x] by (simp add: q_def)
    show "amount item (store_at item x m q) = amount item (m q) + ipc_count x"
      using Cons.prems(2) [of x] by (cases "m q") (auto simp: st add_stack_def amount_def q_def)
  qed (simp add: st)
  have "sum_list (map (\<lambda>q. amount item (foldl (\<lambda>m x. store_at item x m) (store_at item x m) dest q)) qs)
    = sum_list (map (\<lambda>q. amount item (store_at item x m q)) qs) + sum_list (map ipc_count dest)"
  proof (rule Cons.IH)
    fix y z assume "y \<in> set dest" "store_at item x m (pos_bag (ipc_pos y), pos_slot (ipc_pos y)) = Some z"
    then show "fst z = item"
      using Cons.prems(2) [of y z] by (auto simp: st add_stack_def split: if_splits)
  qed (use Cons.prems(1) in auto)
  then show ?case using one by (simp add: algebra_simps)
qed simp

lemma same_bags_all_pos: "same_bags E p p' \<Longrightarrow> all_pos E p' = all_pos E p"
proof -
  assume s: "same_bags E p p'"
  have "bag_pos E p' a b = bag_pos E p a b" for a b
    unfolding bag_pos_def using s
    by (intro arg_cong [where f = concat] map_cong refl) (auto simp: same_bags_def GetBagSize_def split: option.splits)
  then show ?thesis by (simp add: all_pos_def)
qed

lemma store_cell_pos_ok: "store_cell E p T b s \<Longrightarrow> pos_ok E p b s"
  unfolding store_cell_def pos_ok_def slot_readable_def is_bag_slot_def
  by (auto simp: word_less_nat_alt word_le_nat_alt)

lemma mem_bag_pos:
  assumes "GetBagByPos E p b = Some r" and "ucast s < GetBagSize (heap p r)" and "lo \<le> b" and "b < hi"
  shows "(b, s) \<in> set (bag_pos E p lo hi)"
proof -
  have "(b, s) \<in> (\<lambda>j. (b, of_nat j)) ` set [0..<unat (GetBagSize (heap p r))]"
    using assms(2) by (intro image_eqI [of _ _ "unat s"]) (simp_all add: word_less_nat_alt unat_ucast_8_32)
  then show ?thesis
    unfolding bag_pos_def set_concat set_map set_slot_range
    using assms by (intro UN_I [of "_ b"]) auto
qed

lemma pos_ok_all_pos: "pos_ok E p b s \<Longrightarrow> (b, s) \<in> set (all_pos E p)"
proof -
  have own: "(INVENTORY_SLOT_BAG_0, s) \<in> set (own_pos lo hi) \<longleftrightarrow> lo \<le> s \<and> s < hi" for lo hi
    by (auto simp: own_pos_def set_slot_range)
  assume "pos_ok E p b s"
  then consider "b = INVENTORY_SLOT_BAG_0" "slot_readable s"
    | r where "GetBagByPos E p b = Some r" "ucast s < GetBagSize (heap p r)"
    by (auto simp: pos_ok_def)
  then show ?thesis
  proof cases
    case 1
    then show ?thesis unfolding 1(1) all_pos_def set_append Un_iff own
      by (auto simp: slot_readable_def word_less_nat_alt word_le_nat_alt)
  next
    case 2
    then have "is_bag_slot b" using GetBagByPos_ref by blast
    then show ?thesis
      using mem_bag_pos [OF 2] unfolding is_bag_slot_def all_pos_def by auto
  qed
qed

lemma GetMaxStackSize_pos: "Stackable T < 2147483648 \<Longrightarrow> GetMaxStackSize T \<noteq> 0"
proof -
  assume h: "Stackable T < 2147483648"
  have "word_of_int (Stackable T) \<noteq> (0 :: u32)" if "0 < Stackable T"
  proof
    assume "word_of_int (Stackable T) = (0 :: u32)"
    then have "uint (word_of_int (Stackable T) :: u32) = 0" by simp
    then show False using that h by (simp add: uint_word_of_int)
  qed
  then show ?thesis by (auto simp: GetMaxStackSize_def)
qed

lemma fits_facts:
  assumes "fits E p T None NULL_BAG slot False x"
  shows "pos_ok E p (pos_bag (ipc_pos x)) (pos_slot (ipc_pos x))"
    and "inventory E p (pos_bag (ipc_pos x), pos_slot (ipc_pos x)) = Some st \<Longrightarrow> fst st = ItemId T"
    and "ipc_count x \<le> GetMaxStackSize T"
proof -
  have room: "cell_room p T None (GetItemByPos E p (pos_bag (ipc_pos x)) (pos_slot (ipc_pos x))) (ipc_count x)"
    and cell: "store_cell E p T (pos_bag (ipc_pos x)) (pos_slot (ipc_pos x))"
    using assms by (auto simp: fits_def Let_def)
  show "pos_ok E p (pos_bag (ipc_pos x)) (pos_slot (ipc_pos x))" using store_cell_pos_ok [OF cell] .
  show "fst st = ItemId T" if "inventory E p (pos_bag (ipc_pos x), pos_slot (ipc_pos x)) = Some st"
    using that room merged_entry
    by (auto simp: inventory_def stack_at_def cell_room_def ignore_src_def)
  show "ipc_count x \<le> GetMaxStackSize T"
  proof (cases "GetItemByPos E p (pos_bag (ipc_pos x)) (pos_slot (ipc_pos x))")
    case None
    then show ?thesis using room by (simp add: cell_room_def ignore_src_def)
  next
    case (Some j)
    then have "unat (it_count (heap p j)) + unat (ipc_count x) \<le> unat (GetMaxStackSize T)"
      using room merged_count by (auto simp: cell_room_def ignore_src_def)
    then show ?thesis by (simp add: word_le_nat_alt)
  qed
qed

lemma take_more_limit:
  assumes "item_templates E item = Some T" and "fst (CanTakeMoreSimilarItems E p item count None) = EQUIP_ERR_OK"
    and "0 < MaxCount T" and "MaxCount T < 2147483647"
  shows "GetItemCount E p (ItemId T) True None + count \<le> word_of_int (MaxCount T)"
  using assms by (auto simp: CanTakeMoreSimilarItems_def Let_def not_less split: if_splits)

lemma StoreNewItem_StoreItem:
  assumes "CreateItem E p item (sum_list (map ipc_count dest)) = Some (i, p1)"
    and "StoreItem E p1 dest i (Some i) = (l, p2, calls)"
  shows "\<exists>f r. silent f \<and> fst (snd (StoreNewItem E p dest item looters)) = upd_item r f p2"
proof -
  have id: "p2 = upd_item 0 (\<lambda>it. it) p2" "silent (\<lambda>it :: Item. it)"
    by (simp_all add: upd_item_def silent_def plain_def)
  define tr where "tr = (\<lambda>it :: Item. it\<lparr>it_flags := it_flags it OR ITEM_FIELD_FLAG_BOP_TRADEABLE, it_allowedGUIDs := looters\<rparr>)"
  have "silent tr" unfolding tr_def by (rule silents)
  moreover have "fst (snd (StoreNewItem E p dest item looters)) = p2
      \<or> (\<exists>r. fst (snd (StoreNewItem E p dest item looters)) = upd_item r tr p2)"
    using assms by (auto simp: StoreNewItem_def Let_def tr_def split: option.splits)
  ultimately show ?thesis using id by metis
qed

lemma GetItemCount_upd: "silent f \<Longrightarrow> inv_ok E p \<Longrightarrow> GetItemCount E (upd_item r f p) item True None = GetItemCount E p item True None"
proof -
  assume f: "silent f" and i: "inv_ok E p"
  have "inventory E (upd_item r f p) = inventory E p" by (simp add: inventory_def silent_upd [OF f])
  then show ?thesis
    using same_bags_all_pos [OF silent_upd(2) [OF f]] i
    by (simp add: GetItemCount_inventory silent_upd(3) [OF f])
qed

lemma sum_counts_nz: "nz d \<Longrightarrow> d \<noteq> [] \<Longrightarrow> sum_list (map (\<lambda>x. unat (ipc_count x)) d) \<noteq> 0"
  by (cases d) (auto simp: nz_def unat_eq_0)

lemma amount_sum_empty: "sum_list (map (\<lambda>x. unat (ipc_count x)) d) = unat c \<Longrightarrow> c \<noteq> 0 \<Longrightarrow> d \<noteq> []"
  by (auto simp: unat_eq_0)

text \<open>A new item is in no cell: cells, their contents and the positions of the player are what they were.\<close>

lemma created_outside:
  assumes "inv_ok E p" and "CreateItem E p item count = Some (i, p1)"
  shows "loose E p1 i" and "inventory E p1 = inventory E p" and "pos_ok E p1 b s = pos_ok E p b s" and "all_pos E p1 = all_pos E p"
proof -
  note fr = CreateItem_frame [OF assms(2,1)]
  show "loose E p1 i" using inv_okD(2) [OF assms(1)] fr(1,2,5) unfolding loose_def by (metis lessI less_irrefl)
  have same: "heap p1 r = heap p r" if "GetItemByPos E p b s = Some r" for b s r
    using fr(3) inv_okD(2) [OF assms(1) that] fr(1) by simp
  then show "inventory E p1 = inventory E p"
    by (auto simp: inventory_def stack_at_def fr(5) fun_eq_iff split: prod.splits option.splits intro!: option.map_cong)
  have "heap p1 r = heap p r" if "GetBagByPos E p b = Some r" for b r using same [OF bag_in_cell [OF that]] .
  then have "same_bags E p p1" by (simp add: same_bags_def fr(6))
  then show "pos_ok E p1 b s = pos_ok E p b s" "all_pos E p1 = all_pos E p"
    using same_bags_pos_ok same_bags_all_pos by blast+
qed

text \<open>Property C5: when \<open>CanStoreNewItem\<close> allows \<open>count\<close> new items anywhere in the inventory and
  \<open>StoreNewItem\<close> stores them at the positions it found, the player owns exactly \<open>count\<close> more of
  the item afterwards (bank included, in 32 bits), the inventory is well formed again, and a limit
  on the number owned is respected.\<close>

theorem StoreNewItem_adds:
  assumes "inv_ok E p" and "item_templates E item = Some T" and "ItemId T = item"
    and "Stackable T < 2147483648" and "InventoryType T = INVTYPE_BAG \<longrightarrow> ContainerSlots T \<le> of_nat MAX_BAG_SIZE"
    and "CanStoreNewItem E p NULL_BAG NULL_SLOT [] item count = (EQUIP_ERR_OK, dest, ns)" and "count \<noteq> 0"
    and "StoreNewItem E p dest item looters = (l, p', calls)"
  shows "inv_ok E p' \<and> GetItemCount E p' item True None = GetItemCount E p item True None + count
    \<and> (0 < MaxCount T \<and> MaxCount T < 2147483647 \<longrightarrow> GetItemCount E p' item True None \<le> word_of_int (MaxCount T))"
proof -
  have snd: "CanStoreItem E p NULL_BAG NULL_SLOT [] item count None False = (EQUIP_ERR_OK, dest, ns)"
    using assms(6) by (simp add: CanStoreNewItem_def)
  note sound = CanStoreItem_facts [OF snd]
  have total: "sum_list (map (\<lambda>x. unat (ipc_count x)) dest) = unat count"
    and fit: "\<And>x. x \<in> set dest \<Longrightarrow> fits E p T None NULL_BAG NULL_SLOT False x"
    and take: "fst (CanTakeMoreSimilarItems E p item count None) = EQUIP_ERR_OK"
    using sound assms(2) by auto
  have sum: "sum_list (map ipc_count dest) = count" using total sum_counts_word [of dest] by simp
  have mx: "GetMaxStackSize T \<noteq> 0" using GetMaxStackSize_pos assms(4) by blast
  have "nz dest" by (rule CanStoreNewItem_nz [OF assms(6,7,2) mx])
  have ne: "dest \<noteq> []" using amount_sum_empty [OF total assms(7)] .
  obtain i p1 where c: "CreateItem E p item count = Some (i, p1)"
    using assms(2,5,7) by (auto simp: CreateItem_def Let_def not_less)
  note fr = CreateItem_frame [OF c assms(1)]
  note out = created_outside [OF assms(1) c]
  have at: "pos_ok E p (pos_bag (ipc_pos x)) (pos_slot (ipc_pos x))"
    and ent: "inventory E p (pos_bag (ipc_pos x), pos_slot (ipc_pos x)) = Some st \<Longrightarrow> fst st = item"
    and cr: "creatable E item (ipc_count x)" if "x \<in> set dest" for x st
  proof -
    note ff = fits_facts [OF fit [OF that]]
    have "1 \<le> ipc_count x"
      using \<open>nz dest\<close> that by (simp add: nz_def word_le_nat_alt Suc_le_eq unat_gt_0)
    then show "creatable E item (ipc_count x)" using ff(3) assms(2,5) by (auto simp: creatable_def)
  qed (use fits_facts [OF fit [OF that]] assms(3) in auto)
  obtain l2 p2 c2 where si: "StoreItem E p1 dest i (Some i) = (l2, p2, c2)"
    by (cases "StoreItem E p1 dest i (Some i)") auto
  have "inv_ok E p2 \<and> l2 \<noteq> None \<and> same_bags E p1 p2
      \<and> inventory E p2 = foldl (\<lambda>m x. store_at (it_entry (heap p1 i)) x m) (inventory E p1) dest"
    by (rule StoreItem_effect [OF fr(7) out(1) ne _ _ _ si]) (use at ent cr out(2,3) fr(4) in auto)
  then have eff: "inv_ok E p2" "same_bags E p1 p2"
    "inventory E p2 = foldl (\<lambda>m x. store_at item x m) (inventory E p) dest"
    using out(2) fr(4) by simp_all
  have "GetItemCount E p2 item True None = GetItemCount E p item True None + count"
    using sum_amount_foldl [OF distinct_all_pos [OF assms(1)], of dest "inventory E p" item] at ent pos_ok_all_pos
    by (simp add: GetItemCount_inventory eff(1,3) assms(1) same_bags_all_pos [OF eff(2)] out(4) sum)
  moreover obtain f r where "silent f" "p' = upd_item r f p2"
    using StoreNewItem_StoreItem [OF c [folded sum] si, of looters] assms(8) by auto
  ultimately have res: "inv_ok E p'" "GetItemCount E p' item True None = GetItemCount E p item True None + count"
    using eff(1) GetItemCount_upd silent_upd(3) by simp_all
  then show ?thesis using take_more_limit [OF assms(2) take] assms(3) by auto
qed

section \<open>A concrete inventory\<close>

lemma ex_own: "GetItemByPos E ex_player INVENTORY_SLOT_BAG_0 s =
    (if s = 23 then Some 0 else if s = 19 then Some 1 else None)"
  by (auto simp: GetItemByPos_def ex_player_def GetBagByPos_def is_bag_slot_def slot_readable_def)

lemma ex_bag: "GetBagByPos (ex_stores a b) ex_player i = (if i = 19 then Some 1 else None)"
  by (auto simp: GetBagByPos_def ex_player_def is_bag_slot_def IsBag_def GetTemplate_def ex_item_def ex_stores_def
      ex_bag_template_def ex_template_def)

lemma ex_cell: "GetItemByPos (ex_stores a b) ex_player bg s =
    (if bg = 255 \<and> s = 23 then Some 0 else if bg = 255 \<and> s = 19 then Some 1 else None)"
proof (cases "bg = INVENTORY_SLOT_BAG_0")
  case False
  have "Bag_GetItemByPos (heap ex_player 1) s = None"
    by (simp add: Bag_GetItemByPos_def bag_cell_def ex_player_def ex_item_def)
  then show ?thesis using False by (simp add: GetItemByPos_def ex_bag)
qed (simp add: ex_own)

lemma ex_inv_ok: "inv_ok (ex_stores a b) ex_player"
  unfolding inv_ok_def ex_cell ex_bag
  by (auto simp: ex_player_def ex_item_def GetBagSize_def split: if_splits)

lemma ex_loose: "loose (ex_stores a b) ex_player 2"
  unfolding loose_def ex_cell by (auto simp: ex_player_def)

theorem StoreItem_refines_witness:
  "inventory (ex_stores 20 0)
     (fst (snd (StoreItem (ex_stores 20 0) ex_player
        [\<lparr>ipc_pos = mk_pos 255 23, ipc_count = 15\<rparr>, \<lparr>ipc_pos = mk_pos 255 24, ipc_count = 20\<rparr>] 2 (Some 2))))
     (255, 23) = Some (7, 20)"
proof -
  let ?E = "ex_stores 20 0"
  let ?d = "[\<lparr>ipc_pos = mk_pos 255 23, ipc_count = 15\<rparr>, \<lparr>ipc_pos = mk_pos 255 24, ipc_count = 20\<rparr>]"
  obtain l p' calls where run: "StoreItem ?E ex_player ?d 2 (Some 2) = (l, p', calls)"
    by (cases "StoreItem ?E ex_player ?d 2 (Some 2)") auto
  have ent: "it_entry (heap ex_player 2) = 7" "it_entry (heap ex_player 0) = 7" "it_count (heap ex_player 0) = 5"
    by (simp_all add: ex_player_def ex_item_def)
  have inv: "inventory ?E ex_player (255, 23) = Some (7, 5)" "inventory ?E ex_player (255, 24) = None"
    unfolding inventory_def stack_at_def case_prod_conv ex_cell by (simp_all add: ent)
  have pos: "pos_ok ?E ex_player 255 23" "pos_ok ?E ex_player 255 24"
    by (simp_all add: pos_ok_def slot_readable_def is_bag_slot_def)
  have cr: "creatable ?E 7 15" "creatable ?E 7 20"
    by (simp_all add: creatable_def ex_stores_def ex_template_def GetMaxStackSize_def)
  have "inv_ok ?E p' \<and> l \<noteq> None \<and> same_bags ?E ex_player p'
      \<and> inventory ?E p' = foldl (\<lambda>m x. store_at (it_entry (heap ex_player 2)) x m) (inventory ?E ex_player) ?d"
    by (rule StoreItem_refines [OF ex_inv_ok ex_loose _ _ _ _ run]) (use inv pos cr ent in auto)
  then show ?thesis
    unfolding run using inv by (simp add: store_at_def add_stack_def ent)
qed

theorem StoreNewItem_adds_witness:
  "GetItemCount (ex_stores 20 0)
     (fst (snd (StoreNewItem (ex_stores 20 0) ex_player
        (fst (snd (CanStoreNewItem (ex_stores 20 0) ex_player NULL_BAG NULL_SLOT [] 7 40))) 7 []))) 7 True None = 45"
proof -
  let ?E = "ex_stores 20 0"
  let ?d = "fst (snd (CanStoreNewItem ?E ex_player NULL_BAG NULL_SLOT [] 7 40))"
  obtain l p' calls where run: "StoreNewItem ?E ex_player ?d 7 [] = (l, p', calls)"
    by (cases "StoreNewItem ?E ex_player ?d 7 []") auto
  have T: "item_templates ?E 7 = Some (ex_template 7 20 0)" by (simp add: ex_stores_def)
  have can: "CanStoreNewItem ?E ex_player NULL_BAG NULL_SLOT [] 7 40 = (EQUIP_ERR_OK, ?d, None)"
    unfolding ex_store_40 by simp
  have "GetItemCount ?E ex_player 7 True None = 5" by code_simp
  then show ?thesis
    unfolding run using StoreNewItem_adds [OF ex_inv_ok T _ _ _ can _ run] by (simp add: ex_template_def)
qed

end
