(* ===== verification/TextUtil.thy ===== *)
theory TextUtil
  imports Prelude
begin

text \<open>
  Numbers in text, where the server reads and writes lists of them: printing an unsigned integer
  on a stream, \<open>atoull\<close> of \<open>Common.h\<close> (\<open>strtoull\<close> in base 10) and the \<open>Tokenizer\<close> of
  \<open>Utilities/Util.cpp\<close>, with the fact that what is printed is read back.
\<close>

section \<open>Decimal numbers\<close>

definition digit_char :: "nat \<Rightarrow> char" where
  "digit_char d = char_of (48 + d)"

definition isdigit :: "char \<Rightarrow> bool" where
  "isdigit c \<longleftrightarrow> 48 \<le> (of_char c :: nat) \<and> (of_char c :: nat) \<le> 57"

definition digit_val :: "char \<Rightarrow> nat" where
  "digit_val c = of_char c - 48"

text \<open>\<open>isspace\<close> in the "C" locale.\<close>

definition isspace :: "char \<Rightarrow> bool" where
  "isspace c \<longleftrightarrow> (of_char c :: nat) = 32 \<or> (9 \<le> (of_char c :: nat) \<and> (of_char c :: nat) \<le> 13)"

fun decimal :: "nat \<Rightarrow> string" where
  "decimal n = (if n < 10 then [digit_char n] else decimal (n div 10) @ [digit_char (n mod 10)])"

declare decimal.simps [simp del]

definition print_u64 :: "u64 \<Rightarrow> string" where
  "print_u64 w = decimal (unat w)"

definition digits_val :: "string \<Rightarrow> nat" where
  "digits_val ds = foldl (\<lambda>a d. 10 * a + digit_val d) 0 ds"

definition atoull :: "string \<Rightarrow> u64" where
  "atoull s =
     (let s1 = dropWhile isspace s;
          neg = (case s1 of [] \<Rightarrow> False | c # _ \<Rightarrow> c = CHR ''-'');
          s2 = (case s1 of [] \<Rightarrow> [] | c # r \<Rightarrow> if c = CHR ''-'' \<or> c = CHR ''+'' then r else s1);
          v = digits_val (takeWhile isdigit s2)
      in if v \<ge> 2 ^ 64 then - 1 else if neg then - of_nat v else of_nat v)"

lemma of_digit_char: "d < 10 \<Longrightarrow> (of_char (digit_char d) :: nat) = 48 + d"
  by (simp add: digit_char_def)

lemma isdigit_digit_char [simp]: "d < 10 \<Longrightarrow> isdigit (digit_char d)"
  by (simp add: isdigit_def of_digit_char)

lemma digit_val_digit_char [simp]: "d < 10 \<Longrightarrow> digit_val (digit_char d) = d"
  by (simp add: digit_val_def of_digit_char)

lemma digits_val_snoc [simp]: "digits_val (ds @ [c]) = 10 * digits_val ds + digit_val c"
  by (simp add: digits_val_def)

lemma decimal_digits: "c \<in> set (decimal n) \<Longrightarrow> isdigit c"
proof (induction n rule: decimal.induct)
  case (1 n)
  show ?case using 1(2) by (subst (asm) decimal.simps) (auto split: if_splits intro: 1(1))
qed

lemma digits_val_decimal [simp]: "digits_val (decimal n) = n"
proof (induction n rule: decimal.induct)
  case (1 n)
  show ?case
  proof (cases "n < 10")
    case True
    then show ?thesis by (subst decimal.simps) (simp add: digits_val_def)
  next
    case False
    with 1 show ?thesis by (subst decimal.simps) simp
  qed
qed

lemma decimal_not_Nil [simp]: "decimal n \<noteq> []"
  by (subst decimal.simps) simp

lemma isdigit_not_space: "isdigit c \<Longrightarrow> \<not> isspace c \<and> c \<noteq> CHR '' '' \<and> c \<noteq> CHR ''-'' \<and> c \<noteq> CHR ''+''"
  by (auto simp: isdigit_def isspace_def)

text \<open>Reading stops at the first character that is not a digit.\<close>

lemma atoull_print: "atoull (print_u64 w) = w"
proof -
  obtain c r where d: "decimal (unat w) = c # r" by (cases "decimal (unat w)") auto
  have "isdigit c" using decimal_digits[of c "unat w"] d by simp
  then have "\<not> isspace c" "c \<noteq> CHR ''-''" "c \<noteq> CHR ''+''" by (auto dest: isdigit_not_space)
  moreover have "takeWhile isdigit (c # r) = c # r"
    using decimal_digits[of _ "unat w"] d by (simp add: takeWhile_eq_all_conv)
  moreover have "digits_val (c # r) = unat w" by (simp flip: d)
  moreover have "\<not> 2 ^ 64 \<le> unat w" using unsigned_less[of w] by (simp add: not_le)
  ultimately show ?thesis by (simp add: atoull_def print_u64_def d)
qed

section \<open>Tokenizer\<close>

text \<open>
  \<open>posold\<close> is the text between the last separator and the cursor; a token ends at the separator
  that the loop overwrites with 0. A \<open>0\<close> in the text ends the loop.
\<close>

fun tokenize :: "char \<Rightarrow> bool \<Rightarrow> string \<Rightarrow> string \<Rightarrow> string list" where
  "tokenize sep keepEmpty posold [] = (if posold \<noteq> [] then [posold] else [])"
| "tokenize sep keepEmpty posold (c # s) =
     (if c = sep
      then (if keepEmpty \<or> posold \<noteq> [] then posold # tokenize sep keepEmpty [] s
            else tokenize sep keepEmpty [] s)
      else if c = CHR 0x00 then (if posold \<noteq> [] then [posold] else [])
      else tokenize sep keepEmpty (posold @ [c]) s)"

definition Tokenizer :: "string \<Rightarrow> char \<Rightarrow> bool \<Rightarrow> string list" where
  "Tokenizer src sep keepEmpty = tokenize sep keepEmpty [] src"

lemma tokenize_word:
  assumes "sep \<notin> set w" and "CHR 0x00 \<notin> set w"
  shows "tokenize sep keep acc (w @ sep # s) =
    (if keep \<or> acc @ w \<noteq> [] then (acc @ w) # tokenize sep keep [] s else tokenize sep keep [] s)"
  using assms by (induction w arbitrary: acc) auto

lemma decimal_plain: "CHR '' '' \<notin> set (decimal n)" "CHR 0x00 \<notin> set (decimal n)"
  using decimal_digits[of "CHR '' ''" n] decimal_digits[of "CHR 0x00" n]
  by (auto simp: isdigit_def)

text \<open>A list of numbers printed with a space behind each one comes back number by number.\<close>

lemma Tokenizer_numbers:
  "Tokenizer (concat (map (\<lambda>w. print_u64 w @ '' '') ws)) (CHR '' '') keep = map print_u64 ws"
  unfolding Tokenizer_def
proof (induction ws)
  case (Cons w ws)
  then show ?case
    by (simp add: print_u64_def tokenize_word decimal_plain)
qed simp

end
