(* ===== verification/ChatChannel.thy ===== *)
theory ChatChannel
  imports RBAC TextUtil
begin

text \<open>
  Chat channels (\<open>Chat/Channels/Channel.h\<close>, \<open>Channel.cpp\<close>): members with their flags, the owner,
  the password, the ban list, and every operation a player can ask for. An operation returns the
  channel it leaves and what it sends, in order: a packet to one player, a statement for the
  database, a call on the player. The localised channel name that heads every packet is left out.
  Using a reference into the member map after its entry was erased is the result \<open>None\<close>.
\<close>

section \<open>Members\<close>

abbreviation "MEMBER_FLAG_NONE \<equiv> (0x00 :: u8)"
abbreviation "MEMBER_FLAG_OWNER \<equiv> (0x01 :: u8)"
abbreviation "MEMBER_FLAG_MODERATOR \<equiv> (0x02 :: u8)"
abbreviation "MEMBER_FLAG_MUTED \<equiv> (0x08 :: u8)"

record PlayerInfo =
  pi_flags :: u8
  pi_invisible :: bool

definition IsOwner :: "PlayerInfo \<Rightarrow> bool" where
  "IsOwner i \<longleftrightarrow> has_bits (pi_flags i) MEMBER_FLAG_OWNER"

definition info_SetOwner :: "bool \<Rightarrow> PlayerInfo \<Rightarrow> PlayerInfo" where
  "info_SetOwner state i =
     (if state then i\<lparr>pi_flags := pi_flags i OR MEMBER_FLAG_OWNER\<rparr>
      else i\<lparr>pi_flags := pi_flags i AND NOT MEMBER_FLAG_OWNER\<rparr>)"

definition IsModerator :: "PlayerInfo \<Rightarrow> bool" where
  "IsModerator i \<longleftrightarrow> has_bits (pi_flags i) MEMBER_FLAG_MODERATOR"

definition info_SetModerator :: "bool \<Rightarrow> PlayerInfo \<Rightarrow> PlayerInfo" where
  "info_SetModerator state i =
     (if state then i\<lparr>pi_flags := pi_flags i OR MEMBER_FLAG_MODERATOR\<rparr>
      else i\<lparr>pi_flags := pi_flags i AND NOT MEMBER_FLAG_MODERATOR\<rparr>)"

definition IsMuted :: "PlayerInfo \<Rightarrow> bool" where
  "IsMuted i \<longleftrightarrow> has_bits (pi_flags i) MEMBER_FLAG_MUTED"

definition info_SetMuted :: "bool \<Rightarrow> PlayerInfo \<Rightarrow> PlayerInfo" where
  "info_SetMuted state i =
     (if state then i\<lparr>pi_flags := pi_flags i OR MEMBER_FLAG_MUTED\<rparr>
      else i\<lparr>pi_flags := pi_flags i AND NOT MEMBER_FLAG_MUTED\<rparr>)"

section \<open>The channel\<close>

abbreviation "CHANNEL_FLAG_CUSTOM \<equiv> (0x01 :: u8)"
abbreviation "CHANNEL_FLAG_TRADE \<equiv> (0x04 :: u8)"
abbreviation "CHANNEL_FLAG_NOT_LFG \<equiv> (0x08 :: u8)"
abbreviation "CHANNEL_FLAG_GENERAL \<equiv> (0x10 :: u8)"
abbreviation "CHANNEL_FLAG_CITY \<equiv> (0x20 :: u8)"
abbreviation "CHANNEL_FLAG_LFG \<equiv> (0x40 :: u8)"

abbreviation "CHANNEL_DBC_FLAG_TRADE \<equiv> (0x00008 :: u32)"
abbreviation "CHANNEL_DBC_FLAG_CITY_ONLY2 \<equiv> (0x00020 :: u32)"
abbreviation "CHANNEL_DBC_FLAG_LFG \<equiv> (0x40000 :: u32)"

text \<open>
  \<open>_playersStore\<close> is a \<open>std::map\<close>. \<open>_bannedStore\<close> is an unordered set; the model keeps it
  sorted, and no fact below rests on the order.
\<close>

record Channel =
  announceEnabled :: bool
  ownershipEnabled :: bool
  persistentChannel :: bool
  isOwnerInvisible :: bool
  channelFlags :: u8
  channelId :: u32
  channelTeam :: u32
  ownerGuid :: guid
  channelName :: string
  channelPassword :: string
  playersStore :: "(guid \<times> PlayerInfo) list"
  bannedStore :: "guid list"

definition IsConstant :: "Channel \<Rightarrow> bool" where
  "IsConstant c \<longleftrightarrow> channelId c \<noteq> 0"

definition GetNumPlayers :: "Channel \<Rightarrow> u32" where
  "GetNumPlayers c = of_nat (length (playersStore c))"

definition channel_HasFlag :: "Channel \<Rightarrow> u8 \<Rightarrow> bool" where
  "channel_HasFlag c flag \<longleftrightarrow> has_bits (channelFlags c) flag"

definition IsOn :: "Channel \<Rightarrow> guid \<Rightarrow> bool" where
  "IsOn c who \<longleftrightarrow> smap_find (playersStore c) who \<noteq> None"

definition IsBanned :: "Channel \<Rightarrow> guid \<Rightarrow> bool" where
  "IsBanned c g \<longleftrightarrow> sset_find g (bannedStore c)"

definition GetPlayerFlags :: "Channel \<Rightarrow> guid \<Rightarrow> u8" where
  "GetPlayerFlags c g = (case smap_find (playersStore c) g of Some i \<Rightarrow> pi_flags i | None \<Rightarrow> 0)"

text \<open>A change through a reference to the entry of \<open>g\<close>.\<close>

definition upd_member :: "guid \<Rightarrow> (PlayerInfo \<Rightarrow> PlayerInfo) \<Rightarrow> Channel \<Rightarrow> Channel" where
  "upd_member g f c =
     (case smap_find (playersStore c) g of
        None \<Rightarrow> c
      | Some i \<Rightarrow> c\<lparr>playersStore := smap_put g (f i) (playersStore c)\<rparr>)"

definition member_is :: "(PlayerInfo \<Rightarrow> bool) \<Rightarrow> Channel \<Rightarrow> guid \<Rightarrow> bool" where
  "member_is P c g = (case smap_find (playersStore c) g of None \<Rightarrow> False | Some i \<Rightarrow> P i)"

section \<open>The world around a channel\<close>

abbreviation "RBAC_PERM_TWO_SIDE_INTERACTION_CHANNEL \<equiv> (26 :: u32)"
abbreviation "RBAC_PERM_WHO_SEE_ALL_SEC_LEVELS \<equiv> (35 :: u32)"
abbreviation "RBAC_PERM_SILENTLY_JOIN_CHANNEL \<equiv> (45 :: u32)"
abbreviation "RBAC_PERM_CHANGE_CHANNEL_NOT_MODERATOR \<equiv> (46 :: u32)"

text \<open>
  What a channel reads of a player and its session: the permissions are the account data of the
  permission system, \<open>cp_ignores\<close> the guids on the ignore list.
\<close>

record chat_player =
  cp_guid :: guid
  cp_name :: string
  cp_team :: u32
  cp_security :: u8
  cp_rbac :: RBACData
  cp_gmVisible :: bool
  cp_visible :: bool
  cp_inGroup :: bool
  cp_ignores :: "guid list"

definition has_perm :: "chat_player \<Rightarrow> u32 \<Rightarrow> bool" where
  "has_perm p perm \<longleftrightarrow> HasPermission (cp_rbac p) perm"

definition HasIgnore :: "chat_player \<Rightarrow> guid \<Rightarrow> bool" where
  "HasIgnore p g \<longleftrightarrow> g \<in> set (cp_ignores p)"

definition IsPlayerAccount :: "u8 \<Rightarrow> bool" where
  "IsPlayerAccount gmlevel \<longleftrightarrow> gmlevel = 0"

definition IsVisibleGloballyFor :: "chat_player \<Rightarrow> chat_player \<Rightarrow> bool" where
  "IsVisibleGloballyFor p u =
     (if cp_guid u = cp_guid p then True
      else if cp_visible p then True
      else if \<not> IsPlayerAccount (cp_security u) then cp_security p \<le> cp_security u
      else False)"

text \<open>
  The players that are connected, the configuration, and two functions outside the modelled code:
  \<open>normalize\<close> is \<open>normalizePlayerName\<close> (it rests on a UTF-8 library), \<open>character_name\<close> the
  character cache.
\<close>

record world =
  online :: "chat_player list"
  normalize :: "string \<Rightarrow> string option"
  character_name :: "guid \<Rightarrow> string option"
  config_restricted_lfg :: bool
  config_two_side_channel :: bool
  config_gm_level_in_who_list :: u8

definition FindConnectedPlayer :: "world \<Rightarrow> guid \<Rightarrow> chat_player option" where
  "FindConnectedPlayer W g = find (\<lambda>q. cp_guid q = g) (online W)"

definition FindConnectedPlayerByName :: "world \<Rightarrow> string \<Rightarrow> chat_player option" where
  "FindConnectedPlayerByName W n =
     (case normalize W n of
        None \<Rightarrow> None
      | Some m \<Rightarrow> find (\<lambda>q. cp_name q = m) (online W))"

section \<open>What a channel sends\<close>

datatype notice =
    Joined guid
  | Left guid
  | YouJoined u8 u32
  | YouLeft u32 bool
  | WrongPassword
  | NotMember
  | NotModerator
  | PasswordChanged guid
  | OwnerChanged guid
  | PlayerNotFound string
  | NotOwner
  | ChannelOwner string
  | ModeChange guid u8 u8
  | AnnouncementsOn guid
  | AnnouncementsOff guid
  | Muted
  | PlayerKicked guid guid
  | Banned
  | PlayerBanned guid guid
  | PlayerUnbanned guid guid
  | PlayerAlreadyMember guid
  | InviteTo guid
  | InviteWrongFaction
  | PlayerInvited string
  | PlayerInviteBanned string
  | NotInLFG
  | UserlistAdd guid u8 u8 u32
  | UserlistUpdate guid u8 u8 u32
  | UserlistRemove guid u8 u32
  | ChannelMessage u32 guid string
  | ChannelList u8 "(guid \<times> u8) list" u32

text \<open>A row of the table \<open>channels\<close>, in the order of the query that reads it.\<close>

record channel_row =
  row_name :: string
  row_announce :: bool
  row_ownership :: bool
  row_password :: string
  row_bannedList :: string

datatype chan_out =
    SendTo guid notice
  | SaveRow channel_row u32
  | SaveUsage string u32
  | InsertRow string u32
  | PlayerJoinedChannel guid
  | PlayerLeftChannel guid

definition SendToOne :: "world \<Rightarrow> notice \<Rightarrow> guid \<Rightarrow> chan_out list" where
  "SendToOne W n who = (if FindConnectedPlayer W who = None then [] else [SendTo who n])"

definition hears :: "world \<Rightarrow> guid \<Rightarrow> guid \<Rightarrow> bool" where
  "hears W g who =
     (case FindConnectedPlayer W who of
        None \<Rightarrow> False
      | Some p \<Rightarrow> g = 0 \<or> \<not> HasIgnore p g)"

definition SendToAll :: "world \<Rightarrow> Channel \<Rightarrow> notice \<Rightarrow> guid \<Rightarrow> chan_out list" where
  "SendToAll W c n g =
     map (\<lambda>who. SendTo who n) (filter (hears W g) (map fst (playersStore c)))"

definition SendToAllButOne :: "world \<Rightarrow> Channel \<Rightarrow> notice \<Rightarrow> guid \<Rightarrow> chan_out list" where
  "SendToAllButOne W c n who =
     map (\<lambda>g. SendTo g n)
       (filter (\<lambda>g. FindConnectedPlayer W g \<noteq> None)
         (filter (\<lambda>g. g \<noteq> who) (map fst (playersStore c))))"

section \<open>Saving and loading\<close>

definition banlist_text :: "guid list \<Rightarrow> string" where
  "banlist_text gs = concat (map (\<lambda>g. print_u64 g @ '' '') gs)"

definition UpdateChannelInDB :: "Channel \<Rightarrow> chan_out list" where
  "UpdateChannelInDB c =
     (if persistentChannel c
      then [SaveRow \<lparr>row_name = channelName c, row_announce = announceEnabled c,
              row_ownership = ownershipEnabled c, row_password = channelPassword c,
              row_bannedList = banlist_text (bannedStore c)\<rparr> (channelTeam c)]
      else [])"

definition UpdateChannelUseageInDB :: "Channel \<Rightarrow> chan_out list" where
  "UpdateChannelUseageInDB c = [SaveUsage (channelName c) (channelTeam c)]"

definition load_bans :: "string \<Rightarrow> guid list" where
  "load_bans text =
     (if text = [] then []
      else foldl (\<lambda>b token. let g = atoull token in if g \<noteq> 0 then sset_insert g b else b) []
             (Tokenizer text (CHR '' '') True))"

text \<open>The constructor of a built-in channel; \<open>flags\<close> is the flag field of its DBC entry.\<close>

definition mk_builtin_channel :: "u32 \<Rightarrow> u32 \<Rightarrow> u32 \<Rightarrow> Channel" where
  "mk_builtin_channel cid team flags =
     (let f1 = CHANNEL_FLAG_GENERAL;
          f2 = (if has_bits flags CHANNEL_DBC_FLAG_TRADE then f1 OR CHANNEL_FLAG_TRADE else f1);
          f3 = (if has_bits flags CHANNEL_DBC_FLAG_CITY_ONLY2 then f2 OR CHANNEL_FLAG_CITY else f2);
          f4 = (if has_bits flags CHANNEL_DBC_FLAG_LFG then f3 OR CHANNEL_FLAG_LFG
                else f3 OR CHANNEL_FLAG_NOT_LFG)
      in \<lparr>announceEnabled = False, ownershipEnabled = False, persistentChannel = False,
          isOwnerInvisible = False, channelFlags = f4, channelId = cid, channelTeam = team,
          ownerGuid = 0, channelName = [], channelPassword = [], playersStore = [],
          bannedStore = []\<rparr>)"

text \<open>
  The constructor of a custom channel: \<open>preserve\<close> is \<open>CONFIG_PRESERVE_CUSTOM_CHANNELS\<close>, \<open>query\<close>
  the result of \<open>CHAR_SEL_CHANNEL\<close> for a name and a team.
\<close>

definition new_custom_channel :: "string \<Rightarrow> u32 \<Rightarrow> Channel" where
  "new_custom_channel name team =
     \<lparr>announceEnabled = True, ownershipEnabled = True, persistentChannel = False,
      isOwnerInvisible = False, channelFlags = CHANNEL_FLAG_CUSTOM, channelId = 0,
      channelTeam = team, ownerGuid = 0, channelName = name, channelPassword = [],
      playersStore = [], bannedStore = []\<rparr>"

definition mk_custom_channel ::
  "bool \<Rightarrow> (string \<Rightarrow> u32 \<Rightarrow> channel_row option) \<Rightarrow> string \<Rightarrow> u32 \<Rightarrow> Channel \<times> chan_out list" where
  "mk_custom_channel preserve query name team =
     (let c = new_custom_channel name team
      in if preserve then
           (case query name team of
              Some r \<Rightarrow>
                (c\<lparr>channelName := row_name r, announceEnabled := row_announce r,
                   ownershipEnabled := row_ownership r, channelPassword := row_password r,
                   bannedStore := load_bans (row_bannedList r), persistentChannel := True\<rparr>, [])
            | None \<Rightarrow> (c\<lparr>persistentChannel := True\<rparr>, [InsertRow name team]))
         else (c, []))"

section \<open>The owner\<close>

text \<open>\<open>SetOwner\<close> by guid.\<close>

definition SetOwner_guid :: "world \<Rightarrow> guid \<Rightarrow> bool \<Rightarrow> Channel \<Rightarrow> Channel \<times> chan_out list" where
  "SetOwner_guid W g exclaim c =
     (let c1 = (if ownerGuid c \<noteq> 0 then upd_member (ownerGuid c) (info_SetOwner False) c else c);
          c2 = c1\<lparr>ownerGuid := g\<rparr>
      in if g = 0 then (c2, [])
         else let oldFlag = GetPlayerFlags c2 g
              in if \<not> IsOn c2 g then (c2, [])
                 else let c3 = upd_member g (\<lambda>i. info_SetOwner True (info_SetModerator True i)) c2
                      in (c3,
                          SendToAll W c3 (ModeChange g oldFlag (GetPlayerFlags c3 g)) 0
                          @ (if exclaim then SendToAll W c3 (OwnerChanged g) 0 else [])
                          @ UpdateChannelInDB c3))"

section \<open>Joining and leaving\<close>

definition JoinNotify :: "world \<Rightarrow> Channel \<Rightarrow> guid \<Rightarrow> chan_out list" where
  "JoinNotify W c g =
     (if IsConstant c
      then SendToAllButOne W c
             (UserlistAdd g (GetPlayerFlags c g) (channelFlags c) (GetNumPlayers c)) g
      else SendToAll W c
             (UserlistUpdate g (GetPlayerFlags c g) (channelFlags c) (GetNumPlayers c)) 0)"

definition LeaveNotify :: "world \<Rightarrow> Channel \<Rightarrow> guid \<Rightarrow> chan_out list" where
  "LeaveNotify W c g =
     (let n = UserlistRemove g (channelFlags c) (GetNumPlayers c)
      in if IsConstant c then SendToAllButOne W c n g else SendToAll W c n 0)"

text \<open>The part of \<open>JoinChannel\<close> behind its four guards.\<close>

definition enter_channel :: "world \<Rightarrow> chat_player \<Rightarrow> Channel \<Rightarrow> Channel \<times> chan_out list" where
  "enter_channel W player c =
     (let g = cp_guid player;
          o1 = PlayerJoinedChannel g #
               (if announceEnabled c \<and> \<not> has_perm player RBAC_PERM_SILENTLY_JOIN_CHANNEL
                then SendToAll W c (Joined g) 0 else []);
          newChannel = (playersStore c = []);
          invisible = \<not> cp_gmVisible player;
          c1 = c\<lparr>playersStore := smap_put g
                   \<lparr>pi_flags = MEMBER_FLAG_NONE, pi_invisible = invisible\<rparr> (playersStore c)\<rparr>;
          o2 = SendToOne W (YouJoined (channelFlags c1) (channelId c1)) g @ JoinNotify W c1 g
      in if IsConstant c1 then (c1, o1 @ o2)
         else let o3 = UpdateChannelUseageInDB c1
              in if ownershipEnabled c1 \<and> (newChannel \<or> \<not> invisible)
                    \<and> (ownerGuid c1 = 0 \<or> isOwnerInvisible c1)
                 then let c2 = c1\<lparr>isOwnerInvisible := invisible\<rparr>;
                          (c3, o4) = SetOwner_guid W g (\<not> newChannel \<and> \<not> isOwnerInvisible c2) c2
                      in (upd_member g (info_SetModerator True) c3, o1 @ o2 @ o3 @ o4)
                 else (c1, o1 @ o2 @ o3))"

definition JoinChannel :: "world \<Rightarrow> chat_player \<Rightarrow> string \<Rightarrow> Channel \<Rightarrow> Channel \<times> chan_out list" where
  "JoinChannel W player pass c =
     (let g = cp_guid player
      in if IsOn c g then
           (c, if \<not> IsConstant c then SendToOne W (PlayerAlreadyMember g) g else [])
         else if IsBanned c g then (c, SendToOne W Banned g)
         else if channelPassword c \<noteq> [] \<and> pass \<noteq> channelPassword c then
           (c, SendToOne W WrongPassword g)
         else if channel_HasFlag c CHANNEL_FLAG_LFG \<and> config_restricted_lfg W
                 \<and> IsPlayerAccount (cp_security player) \<and> cp_inGroup player then
           (c, SendToOne W NotInLFG g)
         else enter_channel W player c)"

text \<open>The first visible member, or the first member.\<close>

definition pick_owner :: "(guid \<times> PlayerInfo) list \<Rightarrow> guid \<times> PlayerInfo" where
  "pick_owner ps =
     (case find (\<lambda>(g, i). \<not> pi_invisible i) ps of Some x \<Rightarrow> x | None \<Rightarrow> hd ps)"

definition LeaveChannel :: "world \<Rightarrow> chat_player \<Rightarrow> bool \<Rightarrow> Channel \<Rightarrow> Channel \<times> chan_out list" where
  "LeaveChannel W player send c =
     (let g = cp_guid player
      in if \<not> IsOn c g then (c, if send then SendToOne W NotMember g else [])
         else
           let o1 = (if send then SendToOne W (YouLeft (channelId c) (IsConstant c)) g
                                  @ [PlayerLeftChannel g] else []);
               changeowner = member_is IsOwner c g;
               c1 = c\<lparr>playersStore := smap_erase g (playersStore c)\<rparr>;
               o2 = (if announceEnabled c1 \<and> \<not> has_perm player RBAC_PERM_SILENTLY_JOIN_CHANNEL
                     then SendToAll W c1 (Left g) 0 else []);
               o3 = LeaveNotify W c1 g
           in if IsConstant c1 then (c1, o1 @ o2 @ o3)
              else
                let o4 = UpdateChannelUseageInDB c1
                in if changeowner \<and> ownershipEnabled c1 \<and> playersStore c1 \<noteq> []
                   then let (newOwner, i) = pick_owner (playersStore c1);
                            c2 = upd_member newOwner (info_SetModerator True) c1;
                            (c3, o5) = SetOwner_guid W newOwner True c2;
                            c4 = (if pi_invisible i then c3\<lparr>isOwnerInvisible := True\<rparr> else c3)
                        in (c4, o1 @ o2 @ o3 @ o4 @ o5)
                   else (c1, o1 @ o2 @ o3 @ o4))"

section \<open>Moderation\<close>

text \<open>The moderator guard, \<open>!info.IsModerator() && !HasPermission(...)\<close> in the code.\<close>

definition moderates :: "Channel \<Rightarrow> chat_player \<Rightarrow> bool" where
  "moderates c player \<longleftrightarrow>
     member_is IsModerator c (cp_guid player) \<or> has_perm player RBAC_PERM_CHANGE_CHANNEL_NOT_MODERATOR"

text \<open>The guid of the player of a name, 0 if no such player is connected.\<close>

definition victim_of :: "chat_player option \<Rightarrow> guid" where
  "victim_of bad = (case bad of Some q \<Rightarrow> cp_guid q | None \<Rightarrow> 0)"

text \<open>The notice of a kick, or the entry in the ban list and its notice.\<close>

definition record_ban ::
  "world \<Rightarrow> chat_player \<Rightarrow> guid \<Rightarrow> bool \<Rightarrow> Channel \<Rightarrow> Channel \<times> chan_out list" where
  "record_ban W player victim ban c =
     (let good = cp_guid player
      in if ban \<and> \<not> IsBanned c victim then
           let c1 = c\<lparr>bannedStore := sset_insert victim (bannedStore c)\<rparr>
           in (c1, UpdateChannelInDB c1
                   @ (if \<not> has_perm player RBAC_PERM_SILENTLY_JOIN_CHANNEL
                      then SendToAll W c1 (PlayerBanned victim good) 0 else []))
         else
           (c, if \<not> has_perm player RBAC_PERM_SILENTLY_JOIN_CHANNEL
               then SendToAll W c (PlayerKicked victim good) 0 else []))"

text \<open>
  Removing the victim. \<open>info\<close> refers to the entry of the kicker. When the kicker is the victim the
  entry is erased, and the last branch writes through the dangling reference.
\<close>

definition remove_victim ::
  "world \<Rightarrow> chat_player \<Rightarrow> guid \<Rightarrow> bool \<Rightarrow> Channel \<Rightarrow> (Channel \<times> chan_out list) option" where
  "remove_victim W player victim ban c =
     (let good = cp_guid player;
          changeowner = (ownerGuid c = victim);
          (c1, o1) = record_ban W player victim ban c;
          c2 = c1\<lparr>playersStore := smap_erase victim (playersStore c1)\<rparr>;
          o2 = [PlayerLeftChannel victim]
      in if changeowner \<and> ownershipEnabled c2 \<and> playersStore c2 \<noteq> [] then
           (if good = victim then None
            else let (c4, o3) = SetOwner_guid W good True (upd_member good (info_SetModerator True) c2)
                 in Some (c4, o1 @ o2 @ o3))
         else Some (c2, o1 @ o2))"

definition KickOrBan ::
  "world \<Rightarrow> chat_player \<Rightarrow> string \<Rightarrow> bool \<Rightarrow> Channel \<Rightarrow> (Channel \<times> chan_out list) option" where
  "KickOrBan W player badname ban c =
     (let good = cp_guid player
      in if \<not> IsOn c good then Some (c, SendToOne W NotMember good)
         else if \<not> moderates c player then Some (c, SendToOne W NotModerator good)
         else
           let victim = victim_of (FindConnectedPlayerByName W badname)
           in if victim = 0 \<or> \<not> IsOn c victim then
                Some (c, SendToOne W (PlayerNotFound badname) good)
              else if \<not> has_perm player RBAC_PERM_CHANGE_CHANNEL_NOT_MODERATOR
                      \<and> ownerGuid c = victim \<and> good \<noteq> ownerGuid c then
                Some (c, SendToOne W NotOwner good)
              else remove_victim W player victim ban c)"

definition UnBan :: "world \<Rightarrow> chat_player \<Rightarrow> string \<Rightarrow> Channel \<Rightarrow> Channel \<times> chan_out list" where
  "UnBan W player badname c =
     (let good = cp_guid player
      in if \<not> IsOn c good then (c, SendToOne W NotMember good)
         else if \<not> moderates c player then (c, SendToOne W NotModerator good)
         else
           let victim = victim_of (FindConnectedPlayerByName W badname)
           in if victim = 0 \<or> \<not> IsBanned c victim then
                (c, SendToOne W (PlayerNotFound badname) good)
              else
                let c1 = c\<lparr>bannedStore := sset_erase victim (bannedStore c)\<rparr>
                in (c1, SendToAll W c1 (PlayerUnbanned victim good) 0 @ UpdateChannelInDB c1))"

definition Password :: "world \<Rightarrow> chat_player \<Rightarrow> string \<Rightarrow> Channel \<Rightarrow> Channel \<times> chan_out list" where
  "Password W player pass c =
     (let g = cp_guid player
      in if \<not> IsOn c g then (c, SendToOne W NotMember g)
         else if \<not> moderates c player then (c, SendToOne W NotModerator g)
         else
           let c1 = c\<lparr>channelPassword := pass\<rparr>
           in (c1, SendToAll W c1 (PasswordChanged g) 0 @ UpdateChannelInDB c1))"

text \<open>\<open>SetModerator\<close> and \<open>SetMute\<close> by guid.\<close>

definition SetModerator_guid :: "world \<Rightarrow> guid \<Rightarrow> bool \<Rightarrow> Channel \<Rightarrow> Channel \<times> chan_out list" where
  "SetModerator_guid W g st c =
     (case smap_find (playersStore c) g of
        None \<Rightarrow> (c, [])
      | Some i \<Rightarrow>
          (if IsModerator i \<noteq> st then
             let c1 = upd_member g (info_SetModerator st) c
             in (c1, SendToAll W c1 (ModeChange g (GetPlayerFlags c g) (GetPlayerFlags c1 g)) 0)
           else (c, [])))"

definition SetMute_guid :: "world \<Rightarrow> guid \<Rightarrow> bool \<Rightarrow> Channel \<Rightarrow> Channel \<times> chan_out list" where
  "SetMute_guid W g st c =
     (case smap_find (playersStore c) g of
        None \<Rightarrow> (c, [])
      | Some i \<Rightarrow>
          (if IsMuted i \<noteq> st then
             let c1 = upd_member g (info_SetMuted st) c
             in (c1, SendToAll W c1 (ModeChange g (GetPlayerFlags c g) (GetPlayerFlags c1 g)) 0)
           else (c, [])))"

text \<open>Whether \<open>player\<close> may act on a player of the other team.\<close>

definition teams_apart :: "chat_player \<Rightarrow> chat_player \<Rightarrow> bool" where
  "teams_apart player newp \<longleftrightarrow>
     cp_team player \<noteq> cp_team newp \<and>
     (\<not> has_perm player RBAC_PERM_TWO_SIDE_INTERACTION_CHANNEL
      \<or> \<not> has_perm newp RBAC_PERM_TWO_SIDE_INTERACTION_CHANNEL)"

definition unreachable :: "Channel \<Rightarrow> chat_player \<Rightarrow> chat_player option \<Rightarrow> bool" where
  "unreachable c player newp =
     (case newp of
        None \<Rightarrow> True
      | Some q \<Rightarrow> cp_guid q = 0 \<or> \<not> IsOn c (cp_guid q) \<or> teams_apart player q)"

definition SetMode ::
  "world \<Rightarrow> chat_player \<Rightarrow> string \<Rightarrow> bool \<Rightarrow> bool \<Rightarrow> Channel \<Rightarrow> Channel \<times> chan_out list" where
  "SetMode W player p2n md st c =
     (let g = cp_guid player
      in if \<not> IsOn c g then (c, SendToOne W NotMember g)
         else if \<not> moderates c player then (c, SendToOne W NotModerator g)
         else if g = ownerGuid c \<and> p2n = cp_name player \<and> md then (c, [])
         else
           let newp = FindConnectedPlayerByName W p2n;
               victim = victim_of newp
           in if unreachable c player newp then (c, SendToOne W (PlayerNotFound p2n) g)
              else if ownerGuid c = victim \<and> ownerGuid c \<noteq> g then (c, SendToOne W NotOwner g)
              else if md then SetModerator_guid W victim st c
              else SetMute_guid W victim st c)"

definition SetInvisible :: "chat_player \<Rightarrow> bool \<Rightarrow> Channel \<Rightarrow> Channel" where
  "SetInvisible player on c =
     (if \<not> IsOn c (cp_guid player) then c
      else let c1 = upd_member (cp_guid player) (\<lambda>i. i\<lparr>pi_invisible := on\<rparr>) c
           in if ownerGuid c1 = cp_guid player then c1\<lparr>isOwnerInvisible := on\<rparr> else c1)"

definition SetOwner :: "world \<Rightarrow> chat_player \<Rightarrow> string \<Rightarrow> Channel \<Rightarrow> Channel \<times> chan_out list" where
  "SetOwner W player newname c =
     (let g = cp_guid player
      in if \<not> IsOn c g then (c, SendToOne W NotMember g)
         else if \<not> has_perm player RBAC_PERM_CHANGE_CHANNEL_NOT_MODERATOR \<and> g \<noteq> ownerGuid c then
           (c, SendToOne W NotOwner g)
         else
           let newp = FindConnectedPlayerByName W newname;
               victim = victim_of newp
           in if unreachable c player newp then (c, SendToOne W (PlayerNotFound newname) g)
              else SetOwner_guid W victim True (upd_member victim (info_SetModerator True) c))"

definition Announce :: "world \<Rightarrow> chat_player \<Rightarrow> Channel \<Rightarrow> Channel \<times> chan_out list" where
  "Announce W player c =
     (let g = cp_guid player
      in if \<not> IsOn c g then (c, SendToOne W NotMember g)
         else if \<not> moderates c player then (c, SendToOne W NotModerator g)
         else
           let c1 = c\<lparr>announceEnabled := \<not> announceEnabled c\<rparr>
           in (c1, SendToAll W c1
                     (if announceEnabled c1 then AnnouncementsOn g else AnnouncementsOff g) 0
                   @ UpdateChannelInDB c1))"

section \<open>Operations that only send\<close>

definition SendWhoOwner :: "world \<Rightarrow> guid \<Rightarrow> Channel \<Rightarrow> chan_out list" where
  "SendWhoOwner W g c =
     (if IsOn c g then
        SendToOne W
          (ChannelOwner
             (if IsConstant c \<or> ownerGuid c = 0 then ''Nobody''
              else case character_name W (ownerGuid c) of Some n \<Rightarrow> n | None \<Rightarrow> [])) g
      else SendToOne W NotMember g)"

definition listed :: "world \<Rightarrow> chat_player \<Rightarrow> guid \<Rightarrow> bool" where
  "listed W player g =
     (case FindConnectedPlayer W g of
        None \<Rightarrow> False
      | Some member \<Rightarrow>
          (has_perm player RBAC_PERM_WHO_SEE_ALL_SEC_LEVELS
           \<or> cp_security member \<le> config_gm_level_in_who_list W)
          \<and> IsVisibleGloballyFor member player)"

definition channel_List :: "world \<Rightarrow> chat_player \<Rightarrow> Channel \<Rightarrow> chan_out list" where
  "channel_List W player c =
     (let g = cp_guid player
      in if \<not> IsOn c g then SendToOne W NotMember g
         else let ms = filter (\<lambda>(m, i). listed W player m) (playersStore c)
              in [SendTo g (ChannelList (channelFlags c) (map (\<lambda>(m, i). (m, pi_flags i)) ms)
                              (of_nat (length ms)))])"

text \<open>\<open>LANG_UNIVERSAL\<close> is 0.\<close>

definition Say :: "world \<Rightarrow> guid \<Rightarrow> string \<Rightarrow> u32 \<Rightarrow> Channel \<Rightarrow> chan_out list" where
  "Say W g what lang c =
     (if what = [] then []
      else
        let lang' = (if config_two_side_channel W then 0 else lang)
        in if \<not> IsOn c g then SendToOne W NotMember g
           else if member_is IsMuted c g then SendToOne W Muted g
           else SendToAll W c (ChannelMessage lang' g what)
                  (if \<not> member_is IsModerator c g then g else 0))"

definition Invite :: "world \<Rightarrow> chat_player \<Rightarrow> string \<Rightarrow> Channel \<Rightarrow> chan_out list" where
  "Invite W player newname c =
     (let g = cp_guid player
      in if \<not> IsOn c g then SendToOne W NotMember g
         else case FindConnectedPlayerByName W newname of
                None \<Rightarrow> SendToOne W (PlayerNotFound newname) g
              | Some newp \<Rightarrow>
                  (if \<not> cp_gmVisible newp then SendToOne W (PlayerNotFound newname) g
                   else if IsBanned c (cp_guid newp) then
                     SendToOne W (PlayerInviteBanned newname) g
                   else if teams_apart player newp then SendToOne W InviteWrongFaction g
                   else if IsOn c (cp_guid newp) then
                     SendToOne W (PlayerAlreadyMember (cp_guid newp)) g
                   else
                     (if \<not> HasIgnore newp g then SendToOne W (InviteTo g) (cp_guid newp) else [])
                     @ SendToOne W (PlayerInvited (cp_name newp)) g))"

section \<open>Flags and the member map\<close>

lemma has_bits_powers:
  "has_bits (x :: u8) 1 \<longleftrightarrow> bit x 0" "has_bits (x :: u8) 2 \<longleftrightarrow> bit x 1" "has_bits (x :: u8) 8 \<longleftrightarrow> bit x 3"
  by (simp_all add: has_bits_def bit_iff_and_push_bit_not_eq_0 push_bit_eq_mult)

lemma bits_of_powers:
  "bit (1 :: u8) n \<longleftrightarrow> n = 0" "bit (2 :: u8) n \<longleftrightarrow> n = 1" "bit (8 :: u8) n \<longleftrightarrow> n = 3"
  by (auto simp: bit_numeral_rec bit_1_iff eval_nat_numeral split: nat.splits)

lemmas flag_defs = IsOwner_def IsModerator_def IsMuted_def info_SetOwner_def info_SetModerator_def
  info_SetMuted_def has_bits_powers bits_of_powers

lemma flag_laws [frame_simps]:
  "IsOwner (info_SetOwner b i) = b" "IsModerator (info_SetOwner b i) = IsModerator i"
  "IsMuted (info_SetOwner b i) = IsMuted i"
  "IsOwner (info_SetModerator b i) = IsOwner i" "IsModerator (info_SetModerator b i) = b"
  "IsMuted (info_SetModerator b i) = IsMuted i"
  "IsOwner (info_SetMuted b i) = IsOwner i" "IsModerator (info_SetMuted b i) = IsModerator i"
  "IsMuted (info_SetMuted b i) = b"
  "IsOwner (i\<lparr>pi_invisible := v\<rparr>) = IsOwner i" "IsModerator (i\<lparr>pi_invisible := v\<rparr>) = IsModerator i"
  by (auto simp: flag_defs bit_simps)

abbreviation member :: "Channel \<Rightarrow> guid \<Rightarrow> PlayerInfo option" where
  "member c \<equiv> smap_find (playersStore c)"

lemma member_upd_member:
  "smap_inv (playersStore c) \<Longrightarrow>
     member (upd_member g f c) = (member c)(g := map_option f (member c g))"
  by (auto simp: upd_member_def container_simps fun_eq_iff split: option.splits)

lemma smap_inv_upd_member [simp]:
  "smap_inv (playersStore c) \<Longrightarrow> smap_inv (playersStore (upd_member g f c))"
  by (auto simp: upd_member_def smap.inv_put split: option.splits)

lemma upd_member_frame [frame_simps]:
  "announceEnabled (upd_member g f c) = announceEnabled c"
  "ownershipEnabled (upd_member g f c) = ownershipEnabled c"
  "isOwnerInvisible (upd_member g f c) = isOwnerInvisible c"
  "channelId (upd_member g f c) = channelId c"
  "channelPassword (upd_member g f c) = channelPassword c"
  "ownerGuid (upd_member g f c) = ownerGuid c"
  "bannedStore (upd_member g f c) = bannedStore c"
  by (auto simp: upd_member_def split: option.splits)

lemma SetOwner_guid_frame [frame_simps]:
  "ownershipEnabled (fst (SetOwner_guid W g e c)) = ownershipEnabled c"
  "channelId (fst (SetOwner_guid W g e c)) = channelId c"
  "isOwnerInvisible (fst (SetOwner_guid W g e c)) = isOwnerInvisible c"
  "announceEnabled (fst (SetOwner_guid W g e c)) = announceEnabled c"
  "channelPassword (fst (SetOwner_guid W g e c)) = channelPassword c"
  "ownerGuid (fst (SetOwner_guid W g e c)) = g"
  "bannedStore (fst (SetOwner_guid W g e c)) = bannedStore c"
  by (auto simp: SetOwner_guid_def Let_def frame_simps)

lemma no_members: "member c = Map.empty \<longleftrightarrow> playersStore c = []"
  by (auto simp: smap_find_def[abs_def])

section \<open>Well-formed channels\<close>

text \<open>
  The members are a map, nobody is a member and banned, the empty guid is neither, and no member
  but the recorded owner has the owner flag.
\<close>

definition chan_wf :: "Channel \<Rightarrow> bool" where
  "chan_wf c \<longleftrightarrow>
     smap_inv (playersStore c) \<and> member c 0 = None \<and> 0 \<notin> set (bannedStore c)
     \<and> (\<forall>g \<in> set (bannedStore c). member c g = None)
     \<and> (\<forall>g i. member c g = Some i \<longrightarrow> IsOwner i \<longrightarrow> g = ownerGuid c)"

text \<open>The recorded owner is a member with both flags.\<close>

definition owner_in :: "Channel \<Rightarrow> bool" where
  "owner_in c \<longleftrightarrow>
     (case member c (ownerGuid c) of None \<Rightarrow> False | Some i \<Rightarrow> IsOwner i \<and> IsModerator i)"

lemma chan_wfI:
  assumes "smap_inv (playersStore c)" and "member c 0 = None" and "0 \<notin> set (bannedStore c)"
    and "\<And>g. g \<in> set (bannedStore c) \<Longrightarrow> member c g = None"
    and "\<And>g i. member c g = Some i \<Longrightarrow> IsOwner i \<Longrightarrow> g = ownerGuid c"
  shows "chan_wf c"
  using assms by (auto simp: chan_wf_def)

lemma chan_wfD:
  assumes "chan_wf c"
  shows "smap_inv (playersStore c)" and "member c 0 = None" and "0 \<notin> set (bannedStore c)"
    and "g \<in> set (bannedStore c) \<Longrightarrow> member c g = None"
    and "member c g = Some i \<Longrightarrow> IsOwner i \<Longrightarrow> g = ownerGuid c"
  using assms by (auto simp: chan_wf_def)

text \<open>A change of members that keeps the owner flag keeps the channel well formed.\<close>

lemma chan_wf_upd_member:
  assumes "chan_wf c" and "\<And>i. IsOwner (f i) = IsOwner i"
  shows "chan_wf (upd_member g f c)"
  using assms(2) chan_wfD[OF assms(1)]
  by (intro chan_wfI) (auto simp: member_upd_member frame_simps split: if_splits)

lemma member_erase:
  "smap_inv m \<Longrightarrow> smap_find (smap_erase g m) = (smap_find m)(g := None)"
  by (rule smap.lkp_ers)

lemma chan_wf_erase:
  assumes "chan_wf c"
  shows "chan_wf (c\<lparr>playersStore := smap_erase g (playersStore c)\<rparr>)"
  using chan_wfD[OF assms]
  by (intro chan_wfI) (auto simp: member_erase smap.inv_ers split: if_splits)

lemma member_SetOwner_guid:
  assumes "smap_inv (playersStore c)" and "g \<noteq> 0"
  shows "member (fst (SetOwner_guid W g e c)) =
    (let m = (if ownerGuid c \<noteq> 0
              then (member c)(ownerGuid c := map_option (info_SetOwner False) (member c (ownerGuid c)))
              else member c)
     in m(g := map_option (\<lambda>i. info_SetOwner True (info_SetModerator True i)) (m g)))"
  using assms
  by (auto simp: SetOwner_guid_def Let_def member_upd_member IsOn_def fun_eq_iff)

lemma smap_inv_SetOwner_guid:
  "smap_inv (playersStore c) \<Longrightarrow> smap_inv (playersStore (fst (SetOwner_guid W g e c)))"
  by (auto simp: SetOwner_guid_def Let_def)

lemma SetOwner_guid_wf:
  assumes "chan_wf c" and "g \<noteq> 0"
  shows "chan_wf (fst (SetOwner_guid W g e c))"
proof (rule chan_wfI)
  note wf = chan_wfD[OF assms(1)]
  note m = member_SetOwner_guid[OF wf(1) assms(2)]
  show "smap_inv (playersStore (fst (SetOwner_guid W g e c)))" using wf(1) by (rule smap_inv_SetOwner_guid)
  show "member (fst (SetOwner_guid W g e c)) 0 = None" using wf(2) assms(2) by (simp add: m Let_def)
  show "0 \<notin> set (bannedStore (fst (SetOwner_guid W g e c)))" using wf(3) by (simp add: frame_simps)
  show "member (fst (SetOwner_guid W g e c)) h = None"
    if "h \<in> set (bannedStore (fst (SetOwner_guid W g e c)))" for h
    using that wf(4)[of h] by (auto simp: m Let_def frame_simps)
  show "h = ownerGuid (fst (SetOwner_guid W g e c))"
    if "member (fst (SetOwner_guid W g e c)) h = Some i" and "IsOwner i" for h i
    using that wf(2) wf(5)[of h] by (auto simp: m Let_def frame_simps split: if_splits)
qed

lemma SetOwner_guid_owner:
  assumes "chan_wf c" and "g \<noteq> 0" and "member c g \<noteq> None"
  shows "owner_in (fst (SetOwner_guid W g e c))"
  using assms(3) member_SetOwner_guid[OF chan_wfD(1)[OF assms(1)] assms(2), of W e]
  by (auto simp: owner_in_def frame_simps Let_def)

section \<open>The operations of a channel as steps\<close>

datatype chan_op =
    OpJoin chat_player string
  | OpLeave chat_player bool
  | OpKick chat_player string
  | OpBan chat_player string
  | OpUnBan chat_player string
  | OpPassword chat_player string
  | OpSetMode chat_player string bool bool
  | OpSetInvisible chat_player bool
  | OpSetOwner chat_player string
  | OpAnnounce chat_player

fun chan_exec :: "world \<Rightarrow> chan_op \<Rightarrow> Channel \<Rightarrow> (Channel \<times> chan_out list) option" where
  "chan_exec W (OpJoin p pass) c = Some (JoinChannel W p pass c)"
| "chan_exec W (OpLeave p send) c = Some (LeaveChannel W p send c)"
| "chan_exec W (OpKick p n) c = KickOrBan W p n False c"
| "chan_exec W (OpBan p n) c = KickOrBan W p n True c"
| "chan_exec W (OpUnBan p n) c = Some (UnBan W p n c)"
| "chan_exec W (OpPassword p pass) c = Some (Password W p pass c)"
| "chan_exec W (OpSetMode p n md st) c = Some (SetMode W p n md st c)"
| "chan_exec W (OpSetInvisible p v) c = Some (SetInvisible p v c, [])"
| "chan_exec W (OpSetOwner p n) c = Some (SetOwner W p n c)"
| "chan_exec W (OpAnnounce p) c = Some (Announce W p c)"

fun op_player :: "chan_op \<Rightarrow> chat_player" where
  "op_player (OpJoin p _) = p"
| "op_player (OpLeave p _) = p"
| "op_player (OpKick p _) = p"
| "op_player (OpBan p _) = p"
| "op_player (OpUnBan p _) = p"
| "op_player (OpPassword p _) = p"
| "op_player (OpSetMode p _ _ _) = p"
| "op_player (OpSetInvisible p _) = p"
| "op_player (OpSetOwner p _) = p"
| "op_player (OpAnnounce p) = p"

lemma pick_owner_mem: "ps \<noteq> [] \<Longrightarrow> pick_owner ps \<in> set ps"
  by (cases "find (\<lambda>(g, i). \<not> pi_invisible i) ps")
    (auto simp: pick_owner_def dest: find_Some_mem)

lemma pick_owner_member:
  assumes "smap_inv (playersStore c)" and "playersStore c \<noteq> []"
    and "pick_owner (playersStore c) = (g, i)"
  shows "member c g = Some i"
  using assms pick_owner_mem[of "playersStore c"] by (simp add: smap_find_mem)

lemma chan_wf_fields [simp]:
  "chan_wf (c\<lparr>isOwnerInvisible := b\<rparr>) = chan_wf c"
  "chan_wf (c\<lparr>channelPassword := s\<rparr>) = chan_wf c"
  "chan_wf (c\<lparr>announceEnabled := b\<rparr>) = chan_wf c"
  by (simp_all add: chan_wf_def)

lemma owner_in_fields [simp]:
  "owner_in (c\<lparr>isOwnerInvisible := b\<rparr>) = owner_in c"
  "owner_in (c\<lparr>channelPassword := s\<rparr>) = owner_in c"
  "owner_in (c\<lparr>announceEnabled := b\<rparr>) = owner_in c"
  "owner_in (c\<lparr>bannedStore := bs\<rparr>) = owner_in c"
  by (simp_all add: owner_in_def)

text \<open>Entering: the new member has no flag, so the owner flag stays where it was.\<close>

lemma chan_wf_enter:
  assumes "chan_wf c" and "g \<noteq> 0" and "g \<notin> set (bannedStore c)" and "\<not> IsOwner i"
  shows "chan_wf (c\<lparr>playersStore := smap_put g i (playersStore c)\<rparr>)"
  using assms(2-) chan_wfD[OF assms(1)]
  by (intro chan_wfI) (auto simp: container_simps smap.inv_put split: if_splits)

lemma not_owner_new [simp]: "\<not> IsOwner \<lparr>pi_flags = 0, pi_invisible = b\<rparr>"
  by (simp add: IsOwner_def)

text \<open>The channel with the new member in it, and the two ways the entry can end.\<close>

definition entered :: "chat_player \<Rightarrow> Channel \<Rightarrow> Channel" where
  "entered p c = c\<lparr>playersStore := smap_put (cp_guid p)
     \<lparr>pi_flags = MEMBER_FLAG_NONE, pi_invisible = \<not> cp_gmVisible p\<rparr> (playersStore c)\<rparr>"

definition takes_over :: "chat_player \<Rightarrow> Channel \<Rightarrow> bool" where
  "takes_over p c \<longleftrightarrow>
     \<not> IsConstant c \<and> ownershipEnabled c \<and> (playersStore c = [] \<or> cp_gmVisible p)
     \<and> (ownerGuid c = 0 \<or> isOwnerInvisible c)"

lemma enter_channel_cases:
  shows "\<not> takes_over p c \<Longrightarrow> fst (enter_channel W p c) = entered p c"
    and "takes_over p c \<Longrightarrow> \<exists>e. fst (enter_channel W p c) =
      upd_member (cp_guid p) (info_SetModerator True)
        (fst (SetOwner_guid W (cp_guid p) e ((entered p c)\<lparr>isOwnerInvisible := \<not> cp_gmVisible p\<rparr>)))"
  by (auto simp: enter_channel_def Let_def split_def takes_over_def entered_def IsConstant_def)

lemma entered_wf:
  "chan_wf c \<Longrightarrow> cp_guid p \<noteq> 0 \<Longrightarrow> \<not> IsBanned c (cp_guid p) \<Longrightarrow> chan_wf (entered p c)"
  by (simp add: entered_def chan_wf_enter IsBanned_def sset.fnd_elems)

lemma enter_channel_wf:
  assumes "chan_wf c" and "cp_guid p \<noteq> 0" and "\<not> IsBanned c (cp_guid p)"
  shows "chan_wf (fst (enter_channel W p c))"
proof (cases "takes_over p c")
  case True
  then show ?thesis
    using enter_channel_cases(2)[OF True, of W] entered_wf[OF assms] assms(2)
    by (auto simp: frame_simps intro!: chan_wf_upd_member SetOwner_guid_wf)
next
  case False
  then show ?thesis using entered_wf[OF assms] by (simp add: enter_channel_cases)
qed

lemma JoinChannel_wf:
  assumes "chan_wf c" and "cp_guid p \<noteq> 0"
  shows "chan_wf (fst (JoinChannel W p pass c))"
  using assms by (simp add: JoinChannel_def Let_def enter_channel_wf)

lemma pick_owner_nonzero:
  assumes "chan_wf c" and "playersStore c \<noteq> []"
  shows "fst (pick_owner (playersStore c)) \<noteq> 0"
  using pick_owner_member[OF chan_wfD(1)[OF assms(1)] assms(2)] chan_wfD(2)[OF assms(1)]
  by (metis option.discI prod.collapse)

lemma LeaveChannel_wf:
  assumes "chan_wf c"
  shows "chan_wf (fst (LeaveChannel W p send c))"
proof -
  let ?c1 = "c\<lparr>playersStore := smap_erase (cp_guid p) (playersStore c)\<rparr>"
  have w: "chan_wf ?c1" using assms by (rule chan_wf_erase)
  have "chan_wf (fst (SetOwner_guid W g True (upd_member g (info_SetModerator True) ?c1)))"
    if "g \<noteq> 0" for g
    using that w by (intro SetOwner_guid_wf chan_wf_upd_member) (auto simp: frame_simps)
  with w pick_owner_nonzero[OF w] assms show ?thesis
    by (auto simp: LeaveChannel_def Let_def split_def)
qed

lemma chan_wf_ban:
  assumes "chan_wf c" and "g \<noteq> 0"
  shows "chan_wf (c\<lparr>bannedStore := sset_insert g (bannedStore c),
                    playersStore := smap_erase g (playersStore c)\<rparr>)"
  using assms(2) chan_wfD[OF assms(1)]
  by (intro chan_wfI) (auto simp: member_erase smap.inv_ers container_simps split: if_splits)

text \<open>The channel without the victim, which is banned if it was not yet.\<close>

definition kicked :: "bool \<Rightarrow> guid \<Rightarrow> Channel \<Rightarrow> Channel" where
  "kicked ban victim c =
     (if ban \<and> \<not> IsBanned c victim then c\<lparr>bannedStore := sset_insert victim (bannedStore c)\<rparr> else c)
        \<lparr>playersStore := smap_erase victim (playersStore c)\<rparr>"

lemma kicked_wf: "chan_wf c \<Longrightarrow> victim \<noteq> 0 \<Longrightarrow> chan_wf (kicked ban victim c)"
  by (simp add: kicked_def chan_wf_ban chan_wf_erase)

lemma kicked_simps [frame_simps]:
  "ownerGuid (kicked ban v c) = ownerGuid c" "ownershipEnabled (kicked ban v c) = ownershipEnabled c"
  "channelId (kicked ban v c) = channelId c" "channelPassword (kicked ban v c) = channelPassword c"
  "announceEnabled (kicked ban v c) = announceEnabled c"
  "playersStore (kicked ban v c) = smap_erase v (playersStore c)"
  by (simp_all add: kicked_def)

text \<open>What a kick or ban that is not refused finds.\<close>

definition kick_ok :: "world \<Rightarrow> chat_player \<Rightarrow> string \<Rightarrow> Channel \<Rightarrow> bool" where
  "kick_ok W p n c \<longleftrightarrow>
     (let v = victim_of (FindConnectedPlayerByName W n)
      in IsOn c (cp_guid p) \<and> moderates c p \<and> v \<noteq> 0 \<and> IsOn c v
         \<and> (has_perm p RBAC_PERM_CHANGE_CHANNEL_NOT_MODERATOR \<or> ownerGuid c \<noteq> v \<or> cp_guid p = v))"

lemma KickOrBan_refused:
  "\<not> kick_ok W p n c \<Longrightarrow> \<exists>out. KickOrBan W p n ban c = Some (c, out)"
  by (auto simp: KickOrBan_def kick_ok_def Let_def)

lemma KickOrBan_accepted:
  "kick_ok W p n c \<Longrightarrow>
     KickOrBan W p n ban c = remove_victim W p (victim_of (FindConnectedPlayerByName W n)) ban c"
  by (auto simp: KickOrBan_def kick_ok_def Let_def)

lemma record_ban_kicked:
  "ownershipEnabled (fst (record_ban W p v ban c)) = ownershipEnabled c"
  "playersStore (fst (record_ban W p v ban c)) = playersStore c"
  "(fst (record_ban W p v ban c))\<lparr>playersStore := smap_erase v (playersStore c)\<rparr> = kicked ban v c"
  by (simp_all add: record_ban_def kicked_def Let_def)

lemma remove_victim_cases:
  "if ownerGuid c = v \<and> ownershipEnabled c \<and> smap_erase v (playersStore c) \<noteq> []
   then if cp_guid p = v then remove_victim W p v ban c = None
        else \<exists>out. remove_victim W p v ban c =
          Some (fst (SetOwner_guid W (cp_guid p) True
                 (upd_member (cp_guid p) (info_SetModerator True) (kicked ban v c))), out)
   else \<exists>out. remove_victim W p v ban c = Some (kicked ban v c, out)"
  by (simp add: remove_victim_def Let_def split_def record_ban_kicked frame_simps)

lemma KickOrBan_done:
  assumes "kick_ok W p n c" and "v = victim_of (FindConnectedPlayerByName W n)"
  shows "if ownerGuid c = v \<and> ownershipEnabled c \<and> smap_erase v (playersStore c) \<noteq> []
         then if cp_guid p = v then KickOrBan W p n ban c = None
              else \<exists>out. KickOrBan W p n ban c =
                Some (fst (SetOwner_guid W (cp_guid p) True
                       (upd_member (cp_guid p) (info_SetModerator True) (kicked ban v c))), out)
         else \<exists>out. KickOrBan W p n ban c = Some (kicked ban v c, out)"
  using remove_victim_cases[of c v p W ban] KickOrBan_accepted[OF assms(1), of ban]
  by (simp only: assms(2))

lemma KickOrBan_wf:
  assumes "chan_wf c" and "KickOrBan W p n ban c = Some (c', out)"
  shows "chan_wf c'"
proof (cases "kick_ok W p n c")
  case False
  then show ?thesis using KickOrBan_refused[OF False, of ban] assms by auto
next
  case True
  define v where "v = victim_of (FindConnectedPlayerByName W n)"
  have "v \<noteq> 0" "cp_guid p \<noteq> 0"
    using True chan_wfD(2)[OF assms(1)] by (auto simp: kick_ok_def Let_def v_def IsOn_def)
  then have "chan_wf (kicked ban v c)"
    "chan_wf (fst (SetOwner_guid W (cp_guid p) True
       (upd_member (cp_guid p) (info_SetModerator True) (kicked ban v c))))"
    using kicked_wf[OF assms(1)]
    by (auto intro!: SetOwner_guid_wf chan_wf_upd_member simp: frame_simps)
  then show ?thesis
    using KickOrBan_done[OF True v_def, of ban] assms(2) by (auto split: if_splits)
qed

lemma UnBan_wf: "chan_wf c \<Longrightarrow> chan_wf (fst (UnBan W p n c))"
  by (auto simp: UnBan_def Let_def chan_wf_def container_simps)

lemma Password_wf: "chan_wf c \<Longrightarrow> chan_wf (fst (Password W p s c))"
  by (auto simp: Password_def Let_def)

lemma Announce_wf: "chan_wf c \<Longrightarrow> chan_wf (fst (Announce W p c))"
  by (auto simp: Announce_def Let_def)

lemma SetMode_guid_cases:
  "fst (SetModerator_guid W g st c) \<in> {c, upd_member g (info_SetModerator st) c}"
  "fst (SetMute_guid W g st c) \<in> {c, upd_member g (info_SetMuted st) c}"
  by (auto simp: SetModerator_guid_def SetMute_guid_def Let_def split: option.splits)

definition mode_ok :: "world \<Rightarrow> chat_player \<Rightarrow> string \<Rightarrow> bool \<Rightarrow> Channel \<Rightarrow> bool" where
  "mode_ok W p n md c \<longleftrightarrow>
     (let newp = FindConnectedPlayerByName W n; g = cp_guid p
      in IsOn c g \<and> moderates c p \<and> \<not> (g = ownerGuid c \<and> n = cp_name p \<and> md)
         \<and> \<not> unreachable c p newp \<and> \<not> (ownerGuid c = victim_of newp \<and> ownerGuid c \<noteq> g))"

lemma SetMode_refused: "\<not> mode_ok W p n md c \<Longrightarrow> fst (SetMode W p n md st c) = c"
  by (auto simp: SetMode_def mode_ok_def Let_def)

lemma SetMode_accepted:
  assumes "mode_ok W p n md c"
  shows "fst (SetMode W p n md st c) \<in>
    {c, upd_member (victim_of (FindConnectedPlayerByName W n))
          (if md then info_SetModerator st else info_SetMuted st) c}"
proof -
  let ?v = "victim_of (FindConnectedPlayerByName W n)"
  from assms have "SetMode W p n md st c =
      (if md then SetModerator_guid W ?v st c else SetMute_guid W ?v st c)"
    by (auto simp: SetMode_def mode_ok_def Let_def)
  then show ?thesis
    using SetMode_guid_cases[of W ?v st c] by (cases md) simp_all
qed

lemma SetMode_wf: "chan_wf c \<Longrightarrow> chan_wf (fst (SetMode W p n md st c))"
  using SetMode_refused[of W p n md c st] SetMode_accepted[of W p n md c st]
    chan_wf_upd_member[of c "if md then info_SetModerator st else info_SetMuted st"]
  by (cases "mode_ok W p n md c") (auto simp: frame_simps)

lemma SetInvisible_wf: "chan_wf c \<Longrightarrow> chan_wf (SetInvisible p v c)"
  by (auto simp: SetInvisible_def Let_def frame_simps intro!: chan_wf_upd_member)

lemma SetOwner_wf:
  assumes "chan_wf c"
  shows "chan_wf (fst (SetOwner W p n c))"
  using assms
  by (auto simp: SetOwner_def Let_def unreachable_def victim_of_def frame_simps
      intro!: SetOwner_guid_wf chan_wf_upd_member split: option.splits)

lemma chan_exec_wf:
  assumes "chan_wf c" and "cp_guid (op_player x) \<noteq> 0" and "chan_exec W x c = Some (c', out)"
  shows "chan_wf c'"
proof (cases x)
  case (OpJoin p s) then show ?thesis using assms JoinChannel_wf[of c p W s] by auto
next
  case (OpLeave p s) then show ?thesis using assms LeaveChannel_wf[of c W p s] by auto
next
  case (OpUnBan p s) then show ?thesis using assms UnBan_wf[of c W p s] by auto
next
  case (OpPassword p s) then show ?thesis using assms Password_wf[of c W p s] by auto
next
  case (OpSetMode p s md st) then show ?thesis using assms SetMode_wf[of c W p s md st] by auto
next
  case (OpSetOwner p s) then show ?thesis using assms SetOwner_wf[of c W p s] by auto
next
  case (OpAnnounce p) then show ?thesis using assms Announce_wf[of c W p] by auto
qed (use assms KickOrBan_wf SetInvisible_wf in auto)

section \<open>Channels with an owner\<close>

text \<open>A custom channel with ownership is new and empty, or its owner is in it.\<close>

definition owned :: "Channel \<Rightarrow> bool" where
  "owned c \<longleftrightarrow> ownershipEnabled c \<and> \<not> IsConstant c
     \<and> (playersStore c = [] \<and> ownerGuid c = 0 \<or> owner_in c)"

lemma owner_in_upd_member:
  assumes "chan_wf c" and "owner_in c"
    and "\<And>i. IsOwner (f i) = IsOwner i"
    and "\<And>i. g = ownerGuid c \<Longrightarrow> IsModerator i \<Longrightarrow> IsModerator (f i)"
  shows "owner_in (upd_member g f c)"
  using assms(2-) chan_wfD(1)[OF assms(1)]
  by (auto simp: owner_in_def member_upd_member frame_simps split: option.splits)

lemma owner_inE:
  assumes "owner_in c"
  obtains i where "member c (ownerGuid c) = Some i" "IsOwner i" "IsModerator i"
  using assms unfolding owner_in_def by (cases "member c (ownerGuid c)") auto

lemma owner_in_owner: "owner_in c \<Longrightarrow> IsOn c (ownerGuid c) \<and> member_is IsOwner c (ownerGuid c)"
  by (erule owner_inE) (simp add: IsOn_def member_is_def)

lemma owner_in_store:
  "owner_in c \<Longrightarrow> ownerGuid c' = ownerGuid c \<Longrightarrow> member c' (ownerGuid c) = member c (ownerGuid c)
     \<Longrightarrow> owner_in c'"
  by (simp add: owner_in_def)

lemma owner_in_mod:
  "chan_wf c \<Longrightarrow> owner_in c \<Longrightarrow> owner_in (upd_member g (info_SetModerator True) c)"
  by (rule owner_in_upd_member) (simp_all add: frame_simps)

lemma IsConstant_frame [frame_simps]:
  "IsConstant (upd_member g f c) = IsConstant c"
  "IsConstant (fst (SetOwner_guid W g e c)) = IsConstant c"
  "IsConstant (kicked ban g c) = IsConstant c"
  by (simp_all add: IsConstant_def frame_simps)

lemma entered_frame [frame_simps]:
  "ownershipEnabled (entered p c) = ownershipEnabled c" "IsConstant (entered p c) = IsConstant c"
  "ownerGuid (entered p c) = ownerGuid c" "bannedStore (entered p c) = bannedStore c"
  "channelPassword (entered p c) = channelPassword c" "announceEnabled (entered p c) = announceEnabled c"
  by (simp_all add: entered_def IsConstant_def)

lemma IsConstant_inv [simp]: "IsConstant (c\<lparr>isOwnerInvisible := b\<rparr>) = IsConstant c"
  "IsConstant (c\<lparr>channelPassword := s\<rparr>) = IsConstant c"
  "IsConstant (c\<lparr>announceEnabled := b\<rparr>) = IsConstant c"
  "IsConstant (c\<lparr>bannedStore := bs\<rparr>) = IsConstant c"
  "IsConstant (c\<lparr>playersStore := m\<rparr>) = IsConstant c"
  by (simp_all add: IsConstant_def)

lemma member_entered:
  "chan_wf c \<Longrightarrow> member (entered p c) =
     (member c)(cp_guid p \<mapsto> \<lparr>pi_flags = MEMBER_FLAG_NONE, pi_invisible = \<not> cp_gmVisible p\<rparr>)"
  by (simp add: entered_def chan_wfD(1) container_simps)

lemma SetOwner_guid_owned:
  assumes "chan_wf c" and "ownershipEnabled c" and "\<not> IsConstant c" and "g \<noteq> 0" and "member c g \<noteq> None"
  shows "owned (fst (SetOwner_guid W g e c))"
  using assms SetOwner_guid_owner[OF assms(1,4,5)] by (simp add: owned_def frame_simps)

lemma JoinChannel_owned:
  assumes "chan_wf c" and "owned c" and "cp_guid p \<noteq> 0"
  shows "owned (fst (JoinChannel W p s c))"
proof -
  have "owned (fst (enter_channel W p c))" if g: "\<not> IsOn c (cp_guid p)" "\<not> IsBanned c (cp_guid p)"
  proof (cases "takes_over p c")
    case True
    let ?c1 = "(entered p c)\<lparr>isOwnerInvisible := \<not> cp_gmVisible p\<rparr>"
    have w: "chan_wf ?c1" using entered_wf[OF assms(1,3) g(2)] by simp
    have own: "owned (fst (SetOwner_guid W (cp_guid p) e ?c1))" for e
      using assms w by (intro SetOwner_guid_owned)
        (auto simp: owned_def frame_simps member_entered)
    then have "owner_in (fst (SetOwner_guid W (cp_guid p) e ?c1))" for e
      using assms(3) by (auto simp: owned_def frame_simps)
    with own show ?thesis
      using enter_channel_cases(2)[OF True, of W] owner_in_mod[OF SetOwner_guid_wf[OF w assms(3)]]
      by (elim exE) (simp add: owned_def frame_simps)
  next
    case False
    have "owner_in c" using False assms(2) by (auto simp: owned_def takes_over_def)
    moreover have "cp_guid p \<noteq> ownerGuid c"
      using owner_in_owner[OF \<open>owner_in c\<close>] g(1) by metis
    ultimately have "owner_in (entered p c)"
      using owner_in_store[of c "entered p c"] assms(1) by (simp add: member_entered frame_simps)
    then show ?thesis
      using assms(2) enter_channel_cases(1)[OF False] by (simp add: owned_def frame_simps)
  qed
  then show ?thesis using assms(2) by (simp add: JoinChannel_def Let_def)
qed

text \<open>What is left of the channel after the leaver's entry is erased.\<close>

abbreviation "left_by p c \<equiv> c\<lparr>playersStore := smap_erase (cp_guid p) (playersStore c)\<rparr>"

definition hands_over :: "chat_player \<Rightarrow> Channel \<Rightarrow> bool" where
  "hands_over p c \<longleftrightarrow> \<not> IsConstant c \<and> member_is IsOwner c (cp_guid p) \<and> ownershipEnabled c
     \<and> smap_erase (cp_guid p) (playersStore c) \<noteq> []"

lemma LeaveChannel_cases:
  shows "\<not> IsOn c (cp_guid p) \<Longrightarrow> fst (LeaveChannel W p send c) = c"
    and "IsOn c (cp_guid p) \<Longrightarrow> \<not> hands_over p c \<Longrightarrow> fst (LeaveChannel W p send c) = left_by p c"
    and "IsOn c (cp_guid p) \<Longrightarrow> hands_over p c \<Longrightarrow>
      \<exists>b. let g = fst (pick_owner (playersStore (left_by p c)));
              d = fst (SetOwner_guid W g True (upd_member g (info_SetModerator True) (left_by p c)))
          in fst (LeaveChannel W p send c) = (if b then d\<lparr>isOwnerInvisible := True\<rparr> else d)"
proof -
  show "\<not> IsOn c (cp_guid p) \<Longrightarrow> fst (LeaveChannel W p send c) = c"
    by (simp add: LeaveChannel_def Let_def)
  show "IsOn c (cp_guid p) \<Longrightarrow> \<not> hands_over p c \<Longrightarrow> fst (LeaveChannel W p send c) = left_by p c"
    by (auto simp: LeaveChannel_def Let_def hands_over_def)
  assume "IsOn c (cp_guid p)" and "hands_over p c"
  then show "\<exists>b. let g = fst (pick_owner (playersStore (left_by p c)));
              d = fst (SetOwner_guid W g True (upd_member g (info_SetModerator True) (left_by p c)))
          in fst (LeaveChannel W p send c) = (if b then d\<lparr>isOwnerInvisible := True\<rparr> else d)"
    by (intro exI[of _ "pi_invisible (snd (pick_owner (playersStore (left_by p c))))"])
      (simp add: LeaveChannel_def Let_def hands_over_def split_def)
qed

lemma LeaveChannel_owned:
  assumes "chan_wf c" and "owned c"
    and "playersStore (fst (LeaveChannel W p s c)) = [] \<Longrightarrow> fst (LeaveChannel W p s c) = c"
  shows "owned (fst (LeaveChannel W p s c))"
proof (cases "IsOn c (cp_guid p)")
  case on: True
  have w: "chan_wf (left_by p c)" using assms(1) by (rule chan_wf_erase)
  show ?thesis
  proof (cases "hands_over p c")
    case True
    let ?g = "fst (pick_owner (playersStore (left_by p c)))"
    have ne: "playersStore (left_by p c) \<noteq> []" using True by (simp add: hands_over_def)
    have g: "?g \<noteq> 0" "member (left_by p c) ?g \<noteq> None"
      using pick_owner_nonzero[OF w ne] pick_owner_member[OF chan_wfD(1)[OF w] ne]
      by (auto simp: prod_eq_iff)
    have "owned (fst (SetOwner_guid W ?g True (upd_member ?g (info_SetModerator True) (left_by p c))))"
      using g w True chan_wfD(1)[OF w]
      by (intro SetOwner_guid_owned chan_wf_upd_member)
        (auto simp: frame_simps hands_over_def member_upd_member)
    then show ?thesis
      using LeaveChannel_cases(3)[OF on True, of W s]
      by (auto simp: Let_def owned_def split: if_splits)
  next
    case False
    have l: "fst (LeaveChannel W p s c) = left_by p c" using LeaveChannel_cases(2)[OF on False] .
    have own: "owner_in c" and en: "ownershipEnabled c" "\<not> IsConstant c"
      using assms(2) on by (auto simp: owned_def IsOn_def)
    show ?thesis
    proof (cases "cp_guid p = ownerGuid c")
      case True
      then have "smap_erase (cp_guid p) (playersStore c) = []"
        using owner_in_owner[OF own] \<open>\<not> hands_over p c\<close> en by (simp add: hands_over_def)
      then have "left_by p c = c" using assms(3) l by simp
      then show ?thesis using l assms(2) by simp
    next
      case False
      then have "owner_in (left_by p c)"
        using owner_in_store[OF own, of "left_by p c"] chan_wfD(1)[OF assms(1)]
        by (simp add: member_erase)
      then show ?thesis using l assms(2) by (simp add: owned_def)
    qed
  qed
qed (use assms(2) LeaveChannel_cases(1) in auto)

end
