(* ===== verification/ChatRules.thy ===== *)
theory ChatRules
  imports ChatChannel
begin

text \<open>
  What the operations of a chat channel guarantee: the owner of a custom channel, who may change
  what, who hears a message, and what is left of a channel that is saved and loaded again.
\<close>

section \<open>The owner stays with the other operations\<close>

text \<open>
  A player acts on a channel under the handlers' conditions: he is connected, connected players
  have different guids, and the name he gives has been normalised.
\<close>

fun op_name :: "chan_op \<Rightarrow> string option" where
  "op_name (OpKick _ n) = Some n"
| "op_name (OpBan _ n) = Some n"
| "op_name (OpUnBan _ n) = Some n"
| "op_name (OpSetMode _ n _ _) = Some n"
| "op_name (OpSetOwner _ n) = Some n"
| "op_name _ = None"

definition handled :: "world \<Rightarrow> chan_op \<Rightarrow> bool" where
  "handled W x \<longleftrightarrow>
     op_player x \<in> set (online W) \<and> distinct (map cp_guid (online W)) \<and> 0 \<notin> cp_guid ` set (online W)
     \<and> (case op_name x of None \<Rightarrow> True | Some n \<Rightarrow> normalize W n = Some n)"

text \<open>The owner of a channel kicks or bans himself; other members may.\<close>

definition kicks_himself :: "world \<Rightarrow> chat_player \<Rightarrow> string \<Rightarrow> Channel \<Rightarrow> bool" where
  "kicks_himself W p n c \<longleftrightarrow>
     kick_ok W p n c \<and> victim_of (FindConnectedPlayerByName W n) = cp_guid p \<and> ownerGuid c = cp_guid p"

definition owner_kicks_himself :: "world \<Rightarrow> chan_op \<Rightarrow> Channel \<Rightarrow> bool" where
  "owner_kicks_himself W x c = (case x of OpKick p n \<Rightarrow> kicks_himself W p n c | OpBan p n \<Rightarrow> kicks_himself W p n c | _ \<Rightarrow> False)"

lemma handled_by_name:
  assumes "handled W x" and "op_name x = Some n"
    and "FindConnectedPlayerByName W n = Some q" and "cp_guid q = cp_guid (op_player x)"
  shows "n = cp_name (op_player x)"
proof -
  have "q \<in> set (online W)" "cp_name q = n"
    using assms(1-3) by (auto simp: handled_def FindConnectedPlayerByName_def dest: find_Some_mem)
  moreover have "q = op_player x"
    using assms(1,4) \<open>q \<in> set (online W)\<close> unfolding handled_def distinct_map
    by (auto dest: inj_onD)
  ultimately show ?thesis by simp
qed

lemma member_kicked:
  "smap_inv (playersStore c) \<Longrightarrow> member (kicked ban v c) = (member c)(v := None)"
  by (simp add: frame_simps member_erase)

lemma KickOrBan_owned:
  assumes "chan_wf c" and "owned c" and "KickOrBan W p n ban c = Some (c', out)"
    and "\<not> kicks_himself W p n c"
  shows "owned c'"
proof (cases "kick_ok W p n c")
  case False
  then show ?thesis using KickOrBan_refused[OF False, of ban] assms(2,3) by auto
next
  case True
  define v where "v = victim_of (FindConnectedPlayerByName W n)"
  have on: "IsOn c (cp_guid p)" "v \<noteq> 0" using True by (auto simp: kick_ok_def Let_def v_def)
  have self: "v \<noteq> cp_guid p" if "ownerGuid c = v" using assms(4) True that by (auto simp: kicks_himself_def v_def)
  have wf: "chan_wf (kicked ban v c)" using kicked_wf[OF assms(1) on(2)] .
  have own: "owner_in c" and en: "ownershipEnabled c" "\<not> IsConstant c"
    using assms(2) on by (auto simp: owned_def IsOn_def)
  show ?thesis
  proof (cases "ownerGuid c = v")
    case True
    have m: "member (kicked ban v c) (cp_guid p) = member c (cp_guid p)"
      using self[OF True] chan_wfD(1)[OF assms(1)] by (simp add: member_kicked)
    have "playersStore (kicked ban v c) \<noteq> []"
      using m on(1) by (auto simp: IsOn_def)
    then have "c' = fst (SetOwner_guid W (cp_guid p) True
                 (upd_member (cp_guid p) (info_SetModerator True) (kicked ban v c)))"
      using KickOrBan_done[OF \<open>kick_ok W p n c\<close> v_def, of ban] True en assms(3) self
      by (auto simp: frame_simps)
    moreover have "cp_guid p \<noteq> 0" using on(1) chan_wfD(2)[OF assms(1)] by (auto simp: IsOn_def)
    ultimately show ?thesis
      using wf en m on(1) chan_wfD(1)[OF wf]
      by (auto simp: frame_simps member_upd_member IsOn_def
          intro!: SetOwner_guid_owned chan_wf_upd_member)
  next
    case False
    then have "c' = kicked ban v c"
      using KickOrBan_done[OF \<open>kick_ok W p n c\<close> v_def, of ban] assms(3) by simp
    then show ?thesis
      using owner_in_store[OF own, of c'] False en chan_wfD(1)[OF assms(1)]
      by (simp add: owned_def frame_simps member_erase)
  qed
qed

lemma SetMode_owned:
  assumes "chan_wf c" and "owned c" and "handled W (OpSetMode p n md st)"
  shows "owned (fst (SetMode W p n md st c))"
proof (cases "mode_ok W p n md c")
  case True
  let ?v = "victim_of (FindConnectedPlayerByName W n)"
  let ?f = "if md then info_SetModerator st else info_SetMuted st"
  have own: "owner_in c" and en: "ownershipEnabled c" "\<not> IsConstant c"
    using assms(2) True by (auto simp: owned_def IsOn_def mode_ok_def Let_def)
  have "\<not> md" if v: "?v = ownerGuid c"
  proof
    assume "md"
    from v True have g: "cp_guid p = ownerGuid c" "n \<noteq> cp_name p" using \<open>md\<close>
      by (auto simp: mode_ok_def Let_def)
    from True obtain q where "FindConnectedPlayerByName W n = Some q"
      by (auto simp: mode_ok_def Let_def unreachable_def split: option.splits)
    with g v handled_by_name[OF assms(3), of n q] show False by (simp add: victim_of_def)
  qed
  then have "owner_in (upd_member ?v ?f c)"
    using assms(1) own by (intro owner_in_upd_member) (auto simp: frame_simps)
  then show ?thesis
    using SetMode_accepted[OF True, of st] assms(2) en by (auto simp: owned_def frame_simps)
qed (use SetMode_refused[of W p n md c st] assms(2) in simp)

lemma SetOwner_owned:
  assumes "chan_wf c" and "owned c"
  shows "owned (fst (SetOwner W p n c))"
proof -
  let ?v = "victim_of (FindConnectedPlayerByName W n)"
  have "owned (fst (SetOwner_guid W ?v True (upd_member ?v (info_SetModerator True) c)))"
    if on: "\<not> unreachable c p (FindConnectedPlayerByName W n)"
  proof -
    have v: "?v \<noteq> 0" "member c ?v \<noteq> None"
      using on by (auto simp: unreachable_def victim_of_def IsOn_def split: option.splits)
    have "ownershipEnabled c" "\<not> IsConstant c" using assms(2) by (auto simp: owned_def)
    then show ?thesis
      using v assms(1) chan_wfD(1)[OF assms(1)]
      by (intro SetOwner_guid_owned chan_wf_upd_member) (simp_all add: frame_simps member_upd_member)
  qed
  then show ?thesis using assms(2) by (simp add: SetOwner_def Let_def)
qed

lemma owned_keep:
  assumes "owned c" and "ownershipEnabled c' = ownershipEnabled c" and "IsConstant c' = IsConstant c"
    and "playersStore c' = playersStore c" and "ownerGuid c' = ownerGuid c"
  shows "owned c'"
  using assms by (simp add: owned_def owner_in_def)

lemma UnBan_owned: "owned c \<Longrightarrow> owned (fst (UnBan W p n c))"
  by (erule owned_keep) (simp_all add: UnBan_def Let_def)

lemma Password_owned: "owned c \<Longrightarrow> owned (fst (Password W p s c))"
  by (erule owned_keep) (simp_all add: Password_def Let_def)

lemma Announce_owned: "owned c \<Longrightarrow> owned (fst (Announce W p c))"
  by (erule owned_keep) (simp_all add: Announce_def Let_def)

lemma SetInvisible_owned:
  assumes "chan_wf c" and "owned c"
  shows "owned (SetInvisible p v c)"
proof -
  let ?d = "upd_member (cp_guid p) (\<lambda>i. i\<lparr>pi_invisible := v\<rparr>) c"
  have "owner_in ?d" if "owner_in c"
    using assms(1) that by (rule owner_in_upd_member) (simp_all add: frame_simps)
  moreover have "owner_in c" if "IsOn c (cp_guid p)"
    using that assms(2) by (auto simp: owned_def IsOn_def)
  ultimately show ?thesis
    using assms(2) by (auto simp: SetInvisible_def Let_def owned_def frame_simps)
qed

section \<open>Reachable channels\<close>

text \<open>
  A custom channel with ownership, from its constructor on, under any operations but the owner's kick or ban of himself,
  whose effects are below. After the last member has left, \<open>ChannelMgr::LeftChannel\<close> deletes the channel, so that it makes no
  further step; a kick does not call it.
\<close>

definition deleted :: "chan_op \<Rightarrow> Channel \<Rightarrow> Channel \<Rightarrow> bool" where
  "deleted x c c' \<longleftrightarrow> (\<exists>p s. x = OpLeave p s) \<and> playersStore c' = [] \<and> c' \<noteq> c"

inductive chan_reach :: "Channel \<Rightarrow> bool" where
  fresh: "mk_custom_channel preserve query name team = (c, out) \<Longrightarrow> ownershipEnabled c \<Longrightarrow> chan_reach c"
| step: "chan_reach c \<Longrightarrow> handled W x \<Longrightarrow> \<not> owner_kicks_himself W x c \<Longrightarrow> chan_exec W x c = Some (c', out)
    \<Longrightarrow> \<not> deleted x c c' \<Longrightarrow> chan_reach c'"

lemma load_bans_nonzero: "0 \<notin> set (load_bans text)"
proof -
  have "0 \<notin> set (foldl (\<lambda>b token. let g = atoull token in if g \<noteq> 0 then sset_insert g b else b) b ts)"
    if "0 \<notin> set b" for b ts
    using that by (induction ts arbitrary: b) (auto simp: Let_def set_sset_insert)
  then show ?thesis by (simp add: load_bans_def)
qed

lemma fresh_channel:
  assumes "mk_custom_channel preserve query name team = (c, out)"
  shows "chan_wf c" and "playersStore c = []" and "ownerGuid c = 0" and "\<not> IsConstant c"
  using assms load_bans_nonzero
  by (auto simp: mk_custom_channel_def Let_def new_custom_channel_def IsConstant_def chan_wf_def
      split: if_splits option.splits)

lemma handled_player: "handled W x \<Longrightarrow> cp_guid (op_player x) \<noteq> 0"
  by (auto simp: handled_def)

lemma chan_exec_owned:
  assumes "chan_wf c" and "owned c" and h: "handled W x" and "\<not> owner_kicks_himself W x c"
    and e: "chan_exec W x c = Some (c', out)" and "\<not> deleted x c c'"
  shows "owned c'"
proof (cases x)
  case (OpJoin p s)
  then show ?thesis using JoinChannel_owned[OF assms(1,2), of p W s] handled_player[OF h] e by auto
next
  case (OpLeave p s)
  then have c': "c' = fst (LeaveChannel W p s c)" using e by simp
  have "playersStore c' = [] \<Longrightarrow> c' = c" using assms(6) OpLeave by (auto simp: deleted_def)
  then show ?thesis unfolding c' by (rule LeaveChannel_owned[OF assms(1,2)])
next
  case (OpSetMode p n md st)
  then show ?thesis using SetMode_owned[OF assms(1,2), of W p n md st] h e by auto
next
  case (OpKick p n)
  then show ?thesis using KickOrBan_owned[OF assms(1,2)] e assms(4) by (auto simp: owner_kicks_himself_def)
next
  case (OpBan p n)
  then show ?thesis using KickOrBan_owned[OF assms(1,2)] e assms(4) by (auto simp: owner_kicks_himself_def)
next
  case (OpUnBan p n) then show ?thesis using UnBan_owned[OF assms(2), of W p n] e by auto
next
  case (OpPassword p n) then show ?thesis using Password_owned[OF assms(2), of W p n] e by auto
next
  case (OpSetOwner p n) then show ?thesis using SetOwner_owned[OF assms(1,2), of W p n] e by auto
next
  case (OpAnnounce p) then show ?thesis using Announce_owned[OF assms(2), of W p] e by auto
qed (use e SetInvisible_owned[OF assms(1,2)] in auto)

lemma chan_reach_invariant: "chan_reach c \<Longrightarrow> chan_wf c \<and> owned c"
proof (induction rule: chan_reach.induct)
  case (fresh preserve query name team c out)
  then show ?case using fresh_channel[OF fresh(1)] by (simp add: owned_def)
next
  case (step c W x c' out)
  then show ?case
    using chan_exec_owned[of c W x c' out] chan_exec_wf[of c x W c' out] handled_player[of W x] by blast
qed

section \<open>Who may change what\<close>

text \<open>Operations other than the three that the moderator guard does not protect.\<close>

lemma exec_guarded:
  assumes "chan_exec W x c = Some (c', out)" and "\<not> moderates c p" and p: "p = op_player x"
    and "\<And>q s. x \<noteq> OpJoin q s" and "\<And>q s. x \<noteq> OpLeave q s" and "\<And>q v. x \<noteq> OpSetInvisible q v"
    and "\<And>q n. x = OpSetOwner q n \<Longrightarrow> cp_guid q \<noteq> ownerGuid c"
  shows "c' = c"
proof (cases x)
  case (OpKick q n)
  then show ?thesis using assms(1,2) p KickOrBan_refused[of W q n c False]
    by (auto simp: kick_ok_def Let_def)
next
  case (OpBan q n)
  then show ?thesis using assms(1,2) p KickOrBan_refused[of W q n c True]
    by (auto simp: kick_ok_def Let_def)
next
  case (OpSetMode q n md st)
  then show ?thesis using assms(1,2) p SetMode_refused[of W q n md c st]
    by (auto simp: mode_ok_def Let_def)
next
  case (OpSetOwner q n)
  then show ?thesis using assms(1,2,7) p by (auto simp: SetOwner_def Let_def moderates_def split: if_splits)
qed (use assms in \<open>auto simp: UnBan_def Password_def Announce_def Let_def split: if_splits\<close>)

text \<open>Membership and mutes of everybody else.\<close>

definition same_for :: "guid \<Rightarrow> Channel \<Rightarrow> Channel \<Rightarrow> bool" where
  "same_for g c d \<longleftrightarrow> IsOn d g = IsOn c g \<and> member_is IsMuted d g = member_is IsMuted c g"

lemma same_for_refl [simp]: "same_for g c c"
  by (simp add: same_for_def)

lemma same_for_trans: "same_for g c d \<Longrightarrow> same_for g d e \<Longrightarrow> same_for g c e"
  by (simp add: same_for_def)

lemma same_for_store:
  "member d g = member c g \<Longrightarrow> same_for g c d"
  by (simp add: same_for_def IsOn_def member_is_def)

lemma same_for_upd:
  "smap_inv (playersStore d) \<Longrightarrow> (\<And>i. IsMuted (f i) = IsMuted i) \<Longrightarrow> same_for g d (upd_member h f d)"
  by (auto simp: same_for_def IsOn_def member_is_def member_upd_member split: option.splits)

lemma same_for_SetOwner:
  assumes "smap_inv (playersStore d)" and "h \<noteq> 0"
  shows "same_for g d (fst (SetOwner_guid W h e d))"
  unfolding same_for_def IsOn_def member_is_def member_SetOwner_guid[OF assms]
  by (auto simp: Let_def frame_simps split: option.splits)

lemma Leave_others:
  assumes "chan_wf c" and "g \<noteq> cp_guid p"
  shows "same_for g c (fst (LeaveChannel W p s c))"
proof (cases "IsOn c (cp_guid p)")
  case on: True
  note wf = chan_wf_erase[OF assms(1)]
  have l: "same_for g c (left_by p c)"
    using assms chan_wfD(1) by (intro same_for_store) (simp add: member_erase)
  show ?thesis
  proof (cases "hands_over p c")
    case True
    let ?h = "fst (pick_owner (playersStore (left_by p c)))"
    let ?d = "upd_member ?h (info_SetModerator True) (left_by p c)"
    have "?h \<noteq> 0" using True pick_owner_nonzero[OF wf] by (simp add: hands_over_def)
    then have "same_for g c (fst (SetOwner_guid W ?h True ?d))"
      using l same_for_upd[of "left_by p c" "info_SetModerator True" g ?h]
        same_for_SetOwner[of ?d ?h g W True] chan_wfD(1)[OF wf]
      by (simp add: frame_simps) (blast intro: same_for_trans)
    moreover have "same_for g d (d\<lparr>isOwnerInvisible := b\<rparr>)" for d b
      by (rule same_for_store) simp
    ultimately show ?thesis
      using LeaveChannel_cases(3)[OF on True, of W s] same_for_trans
      by (auto simp: Let_def split: if_splits)
  qed (use LeaveChannel_cases(2)[OF on] l in simp)
qed (use LeaveChannel_cases(1) in simp)

lemma Join_others:
  assumes "chan_wf c" and "cp_guid p \<noteq> 0" and "g \<noteq> cp_guid p"
  shows "same_for g c (fst (JoinChannel W p s c))"
proof -
  have e: "same_for g c ((entered p c)\<lparr>isOwnerInvisible := b\<rparr>)" "same_for g c (entered p c)" for b
    using assms by (auto intro!: same_for_store simp: member_entered)
  have si: "smap_inv (playersStore ((entered p c)\<lparr>isOwnerInvisible := b\<rparr>))" for b
    using assms(1) by (simp add: entered_def chan_wfD(1) smap.inv_put)
  have "same_for g c (fst (enter_channel W p c))"
  proof (cases "takes_over p c")
    case True
    have "same_for g c (upd_member (cp_guid p) (info_SetModerator True)
        (fst (SetOwner_guid W (cp_guid p) x ((entered p c)\<lparr>isOwnerInvisible := b\<rparr>))))" for x b
      by (rule same_for_trans[OF same_for_trans[OF e(1) same_for_SetOwner[OF si assms(2)]] same_for_upd])
        (use smap_inv_SetOwner_guid[OF si] in \<open>simp_all add: frame_simps\<close>)
    then show ?thesis using enter_channel_cases(2)[OF True, of W] by auto
  qed (use enter_channel_cases(1) e in simp)
  then show ?thesis by (simp add: JoinChannel_def Let_def)
qed

text \<open>The password, the ban list and the announcements.\<close>

definition same_rules :: "Channel \<Rightarrow> Channel \<Rightarrow> bool" where
  "same_rules c d \<longleftrightarrow> channelPassword d = channelPassword c \<and> bannedStore d = bannedStore c
     \<and> announceEnabled d = announceEnabled c"

lemma Join_rules: "same_rules c (fst (JoinChannel W p s c))"
proof -
  have "same_rules c (fst (enter_channel W p c))"
    using enter_channel_cases[of p c W]
    by (cases "takes_over p c") (auto simp: same_rules_def frame_simps)
  then show ?thesis by (simp add: JoinChannel_def Let_def same_rules_def)
qed

lemma Leave_rules: "same_rules c (fst (LeaveChannel W p s c))"
proof (cases "IsOn c (cp_guid p)")
  case on: True
  show ?thesis
  proof (cases "hands_over p c")
    case True
    then show ?thesis
      using LeaveChannel_cases(3)[OF on True, of W s]
      by (auto simp: same_rules_def frame_simps Let_def split: if_splits)
  qed (use LeaveChannel_cases(2)[OF on] in \<open>simp add: same_rules_def\<close>)
qed (use LeaveChannel_cases(1) in \<open>simp add: same_rules_def\<close>)

lemma SetInvisible_others: "same_rules c (SetInvisible p v c)"
  "chan_wf c \<Longrightarrow> g \<noteq> cp_guid p \<Longrightarrow> same_for g c (SetInvisible p v c)"
  by (auto simp: SetInvisible_def Let_def same_rules_def frame_simps chan_wfD(1) member_upd_member
      intro!: same_for_store)

section \<open>Example players and channels\<close>

definition ex_player :: "guid \<Rightarrow> string \<Rightarrow> bool \<Rightarrow> chat_player" where
  "ex_player g n vis = \<lparr>cp_guid = g, cp_name = n, cp_team = 469, cp_security = 0,
     cp_rbac = mk_RBACData 1 [] 1 0, cp_gmVisible = vis, cp_visible = vis, cp_inGroup = False,
     cp_ignores = []\<rparr>"

definition ex_world :: world where
  "ex_world = \<lparr>online = [ex_player 7 ''Anna'' True, ex_player 9 ''Bert'' True, ex_player 8 ''Gm'' False],
     normalize = Some, character_name = (\<lambda>_. None), config_restricted_lfg = False,
     config_two_side_channel = False, config_gm_level_in_who_list = 3\<rparr>"

text \<open>Anna opened the channel; Bert is its second member.\<close>

definition ex_channel :: Channel where
  "ex_channel = fst (JoinChannel ex_world (ex_player 9 ''Bert'' True) []
     (fst (JoinChannel ex_world (ex_player 7 ''Anna'' True) [] (new_custom_channel ''lfg'' 469))))"

lemmas ex_defs = ex_player_def ex_world_def new_custom_channel_def JoinChannel_def
  enter_channel_def IsOn_def IsBanned_def sset_find_def channel_HasFlag_def IsConstant_def
  SetOwner_guid_def upd_member_def smap_find_def Let_def has_perm_def HasPermission_def
  mk_RBACData_def

lemma ex_channel_store:
  "playersStore ex_channel =
     [(7, \<lparr>pi_flags = 3, pi_invisible = False\<rparr>), (9, \<lparr>pi_flags = 0, pi_invisible = False\<rparr>)]
   \<and> ownerGuid ex_channel = 7 \<and> bannedStore ex_channel = [] \<and> ownershipEnabled ex_channel
   \<and> channelPassword ex_channel = [] \<and> channelId ex_channel = 0 \<and> channelFlags ex_channel = 1"
  by code_simp

lemma ex_handled: "handled ex_world (OpJoin (ex_player 7 ''Anna'' True) [])"
  "handled ex_world (OpJoin (ex_player 9 ''Bert'' True) [])"
  by (simp_all add: handled_def ex_world_def ex_player_def)

lemma ex_channel_reach: "chan_reach ex_channel"
proof -
  let ?a = "OpJoin (ex_player 7 ''Anna'' True) []" and ?b = "OpJoin (ex_player 9 ''Bert'' True) []"
  let ?c1 = "fst (JoinChannel ex_world (ex_player 7 ''Anna'' True) [] (new_custom_channel ''lfg'' 469))"
  have "chan_reach (new_custom_channel ''lfg'' 469)"
    by (rule chan_reach.fresh[of False "\<lambda>_ _. None" "''lfg''" 469])
      (simp_all add: mk_custom_channel_def new_custom_channel_def)
  then have "chan_reach ?c1"
    by (rule chan_reach.step[OF _ ex_handled(1)])
      (simp_all add: owner_kicks_himself_def deleted_def prod_eq_iff)
  then show ?thesis
    by (rule chan_reach.step[OF _ ex_handled(2)])
      (simp_all add: owner_kicks_himself_def deleted_def prod_eq_iff ex_channel_def)
qed

section \<open>Properties\<close>



text \<open>Property C21: a player who does not moderate the channel and does not own it changes neither the
  password, nor the ban list, nor the announcements, removes or adds nobody but himself, and mutes
  or unmutes nobody else.\<close>

theorem unauthorised_changes_nothing:
  assumes "chan_wf c" and "handled W x" and e: "chan_exec W x c = Some (c', out)"
    and "\<not> moderates c (op_player x)" and "cp_guid (op_player x) \<noteq> ownerGuid c"
    and g: "g \<noteq> cp_guid (op_player x)"
  shows "channelPassword c' = channelPassword c \<and> bannedStore c' = bannedStore c
    \<and> announceEnabled c' = announceEnabled c
    \<and> IsOn c' g = IsOn c g \<and> member_is IsMuted c' g = member_is IsMuted c g"
proof -
  have "same_rules c c' \<and> same_for g c c'"
  proof (cases "(\<exists>q s. x = OpJoin q s) \<or> (\<exists>q s. x = OpLeave q s) \<or> (\<exists>q v. x = OpSetInvisible q v)")
    case False
    then have "c' = c"
      using e assms(4,5) by (intro exec_guarded[of W x c c' out]) auto
    then show ?thesis by (simp add: same_rules_def)
  next
    case True
    then consider q s where "x = OpJoin q s" | q s where "x = OpLeave q s" | q v where "x = OpSetInvisible q v"
      by blast
    then show ?thesis
    proof cases
      case 1
      then have "c' = fst (JoinChannel W q s c)" using e by simp
      with 1 show ?thesis
        using Join_rules Join_others[OF assms(1)] g handled_player[OF assms(2)] by simp
    next
      case 2
      then have "c' = fst (LeaveChannel W q s c)" using e by simp
      with 2 show ?thesis using Leave_rules Leave_others[OF assms(1)] g by simp
    next
      case 3
      then have "c' = SetInvisible q v c" using e by simp
      with 3 show ?thesis using SetInvisible_others assms(1) g by simp
    qed
  qed
  then show ?thesis by (simp add: same_rules_def same_for_def)
qed

theorem unauthorised_changes_nothing_witness:
  "\<exists>c' out. chan_exec ex_world (OpBan (ex_player 9 ''Bert'' True) ''Anna'') ex_channel = Some (c', out)
    \<and> bannedStore c' = [] \<and> IsOn c' 7"
proof -
  let ?x = "OpBan (ex_player 9 ''Bert'' True) ''Anna''"
  have m: "\<not> moderates ex_channel (op_player ?x)" by code_simp
  then obtain c' out where e: "chan_exec ex_world ?x ex_channel = Some (c', out)"
    using KickOrBan_refused[of ex_world "ex_player 9 ''Bert'' True" "''Anna''" ex_channel True]
    by (auto simp: kick_ok_def Let_def)
  have "handled ex_world ?x" by (simp add: handled_def ex_world_def ex_player_def)
  from unauthorised_changes_nothing[OF _ this e m, of 7]
  have "bannedStore c' = bannedStore ex_channel \<and> IsOn c' 7 = IsOn ex_channel 7"
    using chan_reach_invariant[OF ex_channel_reach] by (simp add: ex_channel_store ex_player_def)
  then show ?thesis using e by (simp add: ex_channel_store IsOn_def smap_find_def)
qed

text \<open>The recorded owner and his entry.\<close>

definition owner_kept :: "Channel \<Rightarrow> Channel \<Rightarrow> bool" where
  "owner_kept c d \<longleftrightarrow> ownerGuid d = ownerGuid c \<and> member d (ownerGuid c) = member c (ownerGuid c)"

lemma owner_kept_refl [simp]: "owner_kept c c"
  by (simp add: owner_kept_def)

lemma owner_kept_upd:
  "chan_wf c \<Longrightarrow> g \<noteq> ownerGuid c \<Longrightarrow> owner_kept c (upd_member g f c)"
  by (simp add: owner_kept_def frame_simps member_upd_member chan_wfD(1))

lemma Join_owner_kept:
  assumes "chan_wf c" and "cp_guid p \<noteq> ownerGuid c" and "ownerGuid c \<noteq> 0" and "\<not> isOwnerInvisible c"
  shows "owner_kept c (fst (JoinChannel W p s c))"
proof -
  have "\<not> takes_over p c" using assms by (simp add: takes_over_def)
  then have "owner_kept c (fst (enter_channel W p c))"
    using assms by (simp add: enter_channel_cases owner_kept_def frame_simps member_entered)
  then show ?thesis by (simp add: JoinChannel_def Let_def)
qed

lemma Leave_owner_kept:
  assumes "chan_wf c" and "cp_guid p \<noteq> ownerGuid c"
  shows "owner_kept c (fst (LeaveChannel W p s c))"
proof (cases "IsOn c (cp_guid p)")
  case True
  then have "\<not> hands_over p c"
    using chan_wfD(5)[OF assms(1)] assms(2)
    by (auto simp: hands_over_def member_is_def split: option.splits)
  then show ?thesis
    using LeaveChannel_cases(2)[OF True] assms chan_wfD(1)
    by (simp add: owner_kept_def member_erase)
qed (use LeaveChannel_cases(1) in simp)

lemma Kick_owner_kept:
  assumes "chan_wf c" and "cp_guid p \<noteq> ownerGuid c"
    and "\<not> has_perm p RBAC_PERM_CHANGE_CHANNEL_NOT_MODERATOR"
    and "KickOrBan W p n ban c = Some (c', out)"
  shows "owner_kept c c'"
proof (cases "kick_ok W p n c")
  case True
  define v where "v = victim_of (FindConnectedPlayerByName W n)"
  have "ownerGuid c \<noteq> v" using True assms(2,3) by (auto simp: kick_ok_def Let_def v_def)
  then show ?thesis
    using KickOrBan_done[OF True v_def, of ban] assms(1,4)
    by (auto simp: owner_kept_def frame_simps member_erase chan_wfD(1))
qed (use KickOrBan_refused[of W p n c ban] assms(4) in auto)

lemma SetMode_owner_kept:
  assumes "chan_wf c" and "cp_guid p \<noteq> ownerGuid c"
  shows "owner_kept c (fst (SetMode W p n md st c))"
proof (cases "mode_ok W p n md c")
  case True
  then have "victim_of (FindConnectedPlayerByName W n) \<noteq> ownerGuid c"
    using assms(2) by (auto simp: mode_ok_def Let_def)
  then show ?thesis using SetMode_accepted[OF True, of st] owner_kept_upd[OF assms(1)] by auto
qed (use SetMode_refused[of W p n md c st] in simp)

text \<open>Property C19: nobody but the owner and game masters with the channel permission moves the ownership
  or touches the entry of the owner (his flags, his place in the channel), unless the owner is
  recorded as invisible and another player joins.\<close>

theorem owner_is_protected:
  assumes "chan_wf c" and "handled W x" and e: "chan_exec W x c = Some (c', out)"
    and "\<not> has_perm (op_player x) RBAC_PERM_CHANGE_CHANNEL_NOT_MODERATOR"
    and "cp_guid (op_player x) \<noteq> ownerGuid c" and "ownerGuid c \<noteq> 0"
    and "isOwnerInvisible c \<Longrightarrow> \<forall>q s. x \<noteq> OpJoin q s"
  shows "ownerGuid c' = ownerGuid c
    \<and> smap_find (playersStore c') (ownerGuid c) = smap_find (playersStore c) (ownerGuid c)"
proof -
  have "owner_kept c c'"
  proof (cases x)
    case (OpJoin p s)
    then show ?thesis using Join_owner_kept[OF assms(1), of p W s] e assms(5-7) by auto
  next
    case (OpLeave p s)
    then show ?thesis using Leave_owner_kept[OF assms(1), of p W s] e assms(5) by auto
  next
    case (OpSetMode p n md st)
    then show ?thesis using SetMode_owner_kept[OF assms(1), of p W n md st] e assms(5) by auto
  next
    case (OpSetOwner p n)
    then show ?thesis using e assms(4,5) by (auto simp: SetOwner_def Let_def split: if_splits)
  next
    case (OpSetInvisible p v)
    then show ?thesis
      using e assms(1,5) owner_kept_upd[OF assms(1)]
      by (auto simp: SetInvisible_def Let_def frame_simps)
  qed (use e assms Kick_owner_kept[OF assms(1)] in
      \<open>auto simp: UnBan_def Password_def Announce_def Let_def owner_kept_def split: if_splits\<close>)
  then show ?thesis by (simp add: owner_kept_def)
qed

theorem owner_is_protected_witness:
  "\<exists>c' out. chan_exec ex_world (OpKick (ex_player 9 ''Bert'' True) ''Anna'') ex_channel = Some (c', out)
    \<and> ownerGuid c' = 7"
proof -
  let ?x = "OpKick (ex_player 9 ''Bert'' True) ''Anna''"
  have m: "\<not> moderates ex_channel (op_player ?x)" by code_simp
  then obtain c' out where e: "chan_exec ex_world ?x ex_channel = Some (c', out)"
    using KickOrBan_refused[of ex_world "ex_player 9 ''Bert'' True" "''Anna''" ex_channel False]
    by (auto simp: kick_ok_def Let_def)
  have "handled ex_world ?x" by (simp add: handled_def ex_world_def ex_player_def)
  from owner_is_protected[OF _ this e]
  have "ownerGuid c' = ownerGuid ex_channel"
    using chan_reach_invariant[OF ex_channel_reach] m
    by (simp add: ex_channel_store ex_player_def moderates_def)
  then show ?thesis using e by (simp add: ex_channel_store)
qed

text \<open>Property C34: a message is sent exactly to the connected members that do not ignore the speaker,
  or to all of them if the speaker is a moderator, and only when the speaker is a member who is not
  muted; it carries the text and the language, which is universal if the teams may talk.\<close>

theorem Say_reaches:
  assumes "chan_wf c"
  shows "SendTo h (ChannelMessage l s t) \<in> set (Say W g what lang c) \<longleftrightarrow>
    what \<noteq> [] \<and> IsOn c g \<and> \<not> member_is IsMuted c g
    \<and> s = g \<and> t = what \<and> l = (if config_two_side_channel W then 0 else lang) \<and> IsOn c h
    \<and> (\<exists>q. FindConnectedPlayer W h = Some q \<and> (member_is IsModerator c g \<or> \<not> HasIgnore q g))"
proof (cases "what \<noteq> [] \<and> IsOn c g \<and> \<not> member_is IsMuted c g")
  case True
  then have "g \<noteq> 0" using chan_wfD(2)[OF assms] by (auto simp: IsOn_def)
  moreover have "h \<in> fst ` set (playersStore c) \<longleftrightarrow> IsOn c h" for h
    by (simp add: IsOn_def smap_find_dom)
  ultimately show ?thesis
    using True by (auto simp: Say_def Let_def SendToAll_def hears_def image_iff split: option.splits)
next
  case False
  then show ?thesis by (auto simp: Say_def Let_def SendToOne_def)
qed

theorem Say_reaches_witness:
  "SendTo 9 (ChannelMessage 7 7 ''hi'') \<in> set (Say ex_world 7 ''hi'' 7 ex_channel)"
proof -
  have "IsOn ex_channel 7" "IsOn ex_channel 9" "\<not> member_is IsMuted ex_channel 7"
    by (simp_all add: IsOn_def member_is_def smap_find_def ex_channel_store IsMuted_def has_bits_def)
  moreover have "FindConnectedPlayer ex_world 9 = Some (ex_player 9 ''Bert'' True)"
    by (simp add: FindConnectedPlayer_def ex_world_def ex_player_def)
  ultimately show ?thesis
    using chan_reach_invariant[OF ex_channel_reach]
    by (subst Say_reaches) (simp_all add: ex_world_def ex_player_def HasIgnore_def)
qed

lemma set_load_bans: "0 \<notin> set gs \<Longrightarrow> set (load_bans (banlist_text gs)) = set gs"
proof -
  assume "0 \<notin> set gs"
  then have "set (foldl (\<lambda>b token. let g = atoull token in if g \<noteq> 0 then sset_insert g b else b) b
               (map print_u64 gs)) = set b \<union> set gs" for b
    by (induction gs arbitrary: b) (auto simp: Let_def atoull_print set_sset_insert)
  moreover have "gs = []" if "concat (map (\<lambda>g. print_u64 g @ '' '') gs) = []"
    using that by (cases gs) auto
  ultimately show ?thesis
    unfolding load_bans_def banlist_text_def using Tokenizer_numbers[of gs True] by auto
qed

text \<open>A channel that is saved and loaded again has the name, the announcement and ownership
  switches, the password and the banned players it was saved with.\<close>

theorem channel_save_load:
  fixes query :: "string \<Rightarrow> u32 \<Rightarrow> channel_row option" and name :: string and team :: u32
  assumes "chan_wf c" and "SaveRow r t \<in> set (UpdateChannelInDB c)" and "query name team = Some r"
  defines "d \<equiv> fst (mk_custom_channel True query name team)"
  shows "channelName d = channelName c \<and> announceEnabled d = announceEnabled c
    \<and> ownershipEnabled d = ownershipEnabled c \<and> channelPassword d = channelPassword c
    \<and> set (bannedStore d) = set (bannedStore c) \<and> playersStore d = [] \<and> t = channelTeam c"
proof -
  have r: "r = \<lparr>row_name = channelName c, row_announce = announceEnabled c,
              row_ownership = ownershipEnabled c, row_password = channelPassword c,
              row_bannedList = banlist_text (bannedStore c)\<rparr>" "t = channelTeam c"
    using assms(2) by (auto simp: UpdateChannelInDB_def split: if_splits)
  then show ?thesis
    using assms(3) set_load_bans[OF chan_wfD(3)[OF assms(1)]]
    by (simp add: d_def mk_custom_channel_def new_custom_channel_def Let_def)
qed

text \<open>The example channel, preserved and with a banned player.\<close>

definition ex_saved :: Channel where
  "ex_saved = (new_custom_channel ''lfg'' 469)\<lparr>persistentChannel := True, bannedStore := [12, 345]\<rparr>"

theorem channel_save_load_witness:
  "\<exists>r. SaveRow r 469 \<in> set (UpdateChannelInDB ex_saved) \<and> row_bannedList r = ''12 345 ''
     \<and> set (bannedStore (fst (mk_custom_channel True (\<lambda>_ _. Some r) ''lfg'' 469))) = {12, 345}"
proof -
  let ?r = "\<lparr>row_name = ''lfg'', row_announce = True, row_ownership = True, row_password = [],
    row_bannedList = ''12 345 ''\<rparr>"
  have s: "SaveRow ?r 469 \<in> set (UpdateChannelInDB ex_saved)" by code_simp
  have "chan_wf ex_saved" by (simp add: ex_saved_def new_custom_channel_def chan_wf_def)
  from channel_save_load[OF this s, of "\<lambda>_ _. Some ?r" "''lfg''" 469]
  have "set (bannedStore (fst (mk_custom_channel True (\<lambda>_ _. Some ?r) ''lfg'' 469))) = {12, 345}"
    by (simp add: ex_saved_def)
  with s show ?thesis by (intro exI[of _ ?r]) simp
qed

text \<open>Property C35: kicking and banning use the reference to the kicker's entry after the entry was
  erased exactly when the owner of a channel with ownership kicks himself and other members stay.\<close>

theorem kick_dangling_reference:
  "KickOrBan W p n ban c = None \<longleftrightarrow>
     kick_ok W p n c \<and> victim_of (FindConnectedPlayerByName W n) = cp_guid p
     \<and> ownerGuid c = cp_guid p \<and> ownershipEnabled c
     \<and> smap_erase (cp_guid p) (playersStore c) \<noteq> []"
proof (cases "kick_ok W p n c")
  case True
  define v where "v = victim_of (FindConnectedPlayerByName W n)"
  show ?thesis using KickOrBan_done[OF True v_def, of ban] True
    by (auto simp: v_def[symmetric] split: if_splits)
next
  case False
  then show ?thesis using KickOrBan_refused[OF False, of ban] by auto
qed

lemma ex_self_kick: "KickOrBan ex_world (ex_player 7 ''Anna'' True) ''Anna'' False ex_channel = None"
  by code_simp

text \<open>
  An owner who is alone and kicks himself leaves an empty channel behind that is not deleted and still records him. Who
  enters it next is a member of a channel whose owner is not there, and does not become its owner.
\<close>

theorem lonely_kick_leaves_an_owner:
  assumes "chan_reach c" and "kicks_himself W p n c" and "playersStore c = [(cp_guid p, i)]"
  shows "\<exists>c' out. KickOrBan W p n ban c = Some (c', out) \<and> playersStore c' = [] \<and> ownerGuid c' = cp_guid p
    \<and> (\<forall>q. cp_guid q \<noteq> cp_guid p \<and> \<not> isOwnerInvisible c \<longrightarrow>
          (let d = fst (enter_channel W q c') in IsOn d (cp_guid q) \<and> ownerGuid d = cp_guid p \<and> \<not> IsOn d (cp_guid p)))"
proof -
  let ?k = "kicked ban (cp_guid p) c"
  have ok: "kick_ok W p n c" and v: "cp_guid p = victim_of (FindConnectedPlayerByName W n)" and own: "ownerGuid c = cp_guid p"
    using assms(2) by (simp_all add: kicks_himself_def)
  have wf: "chan_wf c" using chan_reach_invariant[OF assms(1)] by blast
  have nz: "cp_guid p \<noteq> 0" using chan_wfD(2)[OF wf] assms(3) by (auto simp: smap_find_def)
  have wf': "chan_wf ?k" by (rule kicked_wf[OF wf nz])
  have empty: "playersStore ?k = []" using assms(3) by (simp add: kicked_def smap_erase_def)
  obtain out where out: "KickOrBan W p n ban c = Some (?k, out)"
    using KickOrBan_done[OF ok v, of ban] assms(3) by (auto simp: smap_erase_def)
  have frame: "ownerGuid ?k = cp_guid p" "isOwnerInvisible ?k = isOwnerInvisible c" using own by (simp_all add: kicked_def)
  have "fst (enter_channel W q ?k) = entered q ?k" if "\<not> isOwnerInvisible c" for q
    using that frame nz by (intro enter_channel_cases(1)) (simp add: takes_over_def)
  then show ?thesis
    using out empty frame
    by (auto simp: IsOn_def member_entered[OF wf'] intro!: exI[of _ ?k]) (auto simp: entered_def smap_find_def)
qed

lemma channelFlags_frame:
  "channelFlags (upd_member g f c) = channelFlags c"
  "channelFlags (fst (SetOwner_guid W g e c)) = channelFlags c"
proof -
  show "channelFlags (upd_member g f c) = channelFlags c" for g f c
    by (simp add: upd_member_def split: option.splits)
  then show "channelFlags (fst (SetOwner_guid W g e c)) = channelFlags c"
    by (simp add: SetOwner_guid_def Let_def)
qed

text \<open>When an owner who is recorded as invisible leaves, the channel goes on recording an
  invisible owner, although the new owner is the first visible member: the next visible player who
  joins takes the ownership from him.\<close>

theorem ownership_goes_to_next_joiner:
  fixes W :: world
  assumes "chan_wf c" and "owner_in c" and "isOwnerInvisible c" and en: "ownershipEnabled c" "\<not> IsConstant c"
    and p: "cp_guid p = ownerGuid c" and rest: "smap_erase (cp_guid p) (playersStore c) \<noteq> []"
    and q: "cp_guid q \<noteq> 0" "\<not> IsOn c (cp_guid q)" "\<not> IsBanned c (cp_guid q)" "cp_gmVisible q"
    and "channelPassword c = []" and "\<not> channel_HasFlag c CHANNEL_FLAG_LFG"
  defines "d \<equiv> fst (LeaveChannel W p True c)"
  shows "IsOn d (ownerGuid d) \<and> isOwnerInvisible d
    \<and> ownerGuid (fst (JoinChannel W q pass d)) = cp_guid q"
proof -
  have on: "IsOn c (cp_guid p)" and h: "hands_over p c"
    using owner_in_owner[OF assms(2)] en rest p by (simp_all add: hands_over_def)
  note wf = chan_wf_erase[OF assms(1)]
  have ne: "playersStore (left_by p c) \<noteq> []" using rest by simp
  let ?g = "fst (pick_owner (playersStore (left_by p c)))"
  have g: "?g \<noteq> 0" "member (left_by p c) ?g \<noteq> None"
    using pick_owner_nonzero[OF wf ne] pick_owner_member[OF chan_wfD(1)[OF wf] ne]
    by (auto simp: prod_eq_iff)
  obtain b where b: "d = (let e = fst (SetOwner_guid W ?g True (upd_member ?g (info_SetModerator True) (left_by p c)))
      in if b then e\<lparr>isOwnerInvisible := True\<rparr> else e)"
    using LeaveChannel_cases(3)[OF on h, of W True] unfolding d_def Let_def by blast
  have inv: "isOwnerInvisible d" and fr: "ownerGuid d = ?g" "bannedStore d = bannedStore c"
      "channelPassword d = []" "ownershipEnabled d" "\<not> IsConstant d"
    using b assms(3,12) en by (auto simp: Let_def frame_simps)
  have wd: "chan_wf (upd_member ?g (info_SetModerator True) (left_by p c))"
    using wf by (rule chan_wf_upd_member) (simp add: frame_simps)
  have "same_for ?g (left_by p c) (fst (SetOwner_guid W ?g True
      (upd_member ?g (info_SetModerator True) (left_by p c))))"
    by (rule same_for_trans[OF same_for_upd same_for_SetOwner])
      (use chan_wfD(1)[OF wf] chan_wfD(1)[OF wd] g(1) in \<open>simp_all add: frame_simps\<close>)
  then have md: "IsOn d ?g"
    unfolding b Let_def using g(2) by (simp add: same_for_def IsOn_def)
  have flags: "channelFlags d = channelFlags c"
    unfolding b Let_def by (simp add: channelFlags_frame)
  have "IsOn d (cp_guid q) = IsOn c (cp_guid q)"
    using Leave_others[OF assms(1), of "cp_guid q" p W True] on q(2)
    unfolding d_def same_for_def by metis
  then have j: "JoinChannel W q pass d = enter_channel W q d"
    using q(2,3) fr assms(13) flags
    by (simp add: JoinChannel_def Let_def IsBanned_def channel_HasFlag_def)
  have "takes_over q d" using inv fr q(4) by (simp add: takes_over_def)
  from enter_channel_cases(2)[OF this, of W] have "ownerGuid (fst (enter_channel W q d)) = cp_guid q"
    by (auto simp: frame_simps)
  with j inv fr(1) md show ?thesis by simp
qed

text \<open>Anna, the owner, turns invisible and leaves; Bert owns the channel until the next one joins.\<close>

theorem ownership_goes_to_next_joiner_witness:
  "\<exists>d. ownerGuid (fst (JoinChannel ex_world (ex_player 11 ''Carl'' True) [] d)) = 11
     \<and> IsOn d (ownerGuid d) \<and> d = fst (LeaveChannel ex_world (ex_player 7 ''Anna'' False) True
         (SetInvisible (ex_player 7 ''Anna'' False) True ex_channel))"
proof -
  let ?c = "SetInvisible (ex_player 7 ''Anna'' False) True ex_channel"
  have "chan_wf ?c" using chan_reach_invariant[OF ex_channel_reach] SetInvisible_wf by blast
  moreover have "owner_in ?c" "isOwnerInvisible ?c" "ownershipEnabled ?c" "\<not> IsConstant ?c"
    "ownerGuid ?c = 7" "smap_erase 7 (playersStore ?c) \<noteq> []" "\<not> IsOn ?c 11" "\<not> IsBanned ?c 11"
    "channelPassword ?c = []" "\<not> channel_HasFlag ?c CHANNEL_FLAG_LFG"
    by code_simp+
  ultimately show ?thesis
    using ownership_goes_to_next_joiner[of ?c "ex_player 7 ''Anna'' False" "ex_player 11 ''Carl'' True"
        ex_world "[]"]
    by (simp add: ex_player_def)
qed

end
