(* ===== verification/LFGRoles.thy ===== *)
theory LFGRoles
  imports StdContainers
begin

text \<open>
  The role check of the dungeon finder, \<open>LFGMgr::CheckGroupRoles\<close> of
  \<open>DungeonFinding/LFGMgr.cpp\<close>: a backtracking search that narrows the roles the players of a group
  have chosen to one role for each, with at most one tank, one healer and three damage dealers. The
  search works on the map in place and calls itself on the changed map; the theory shows that it
  returns, that it finds a choice of roles exactly if there is one, and what it leaves in the map.
\<close>

section \<open>Roles\<close>

abbreviation "PLAYER_ROLE_NONE \<equiv> (0x00 :: u8)"
abbreviation "PLAYER_ROLE_LEADER \<equiv> (0x01 :: u8)"
abbreviation "PLAYER_ROLE_TANK \<equiv> (0x02 :: u8)"
abbreviation "PLAYER_ROLE_HEALER \<equiv> (0x04 :: u8)"
abbreviation "PLAYER_ROLE_DAMAGE \<equiv> (0x08 :: u8)"

abbreviation "LFG_TANKS_NEEDED \<equiv> (1 :: u8)"
abbreviation "LFG_HEALERS_NEEDED \<equiv> (1 :: u8)"
abbreviation "LFG_DPS_NEEDED \<equiv> (3 :: u8)"

text \<open>\<open>LfgRolesMap\<close>, a \<open>std::map\<close> from players to role masks, as its entries in order.\<close>

type_synonym LfgRolesMap = "(guid \<times> u8) list"

section \<open>The search\<close>

text \<open>
  One of the three blocks of the loop body, for the role \<open>b\<close> with its counter and its limit.
  \<open>check\<close> is the recursive call, \<open>None\<close> one that does not come back. Either the function returns, or the loop
  body goes on with the map and the counter.
\<close>

datatype role_step = Return "(bool \<times> LfgRolesMap) option" | GoOn LfgRolesMap u8

definition add_role :: "nat \<Rightarrow> u8 \<Rightarrow> LfgRolesMap \<Rightarrow> LfgRolesMap" where
  "add_role i b m = m[i := (fst (m ! i), snd (m ! i) + b)]"

definition role_block ::
  "(LfgRolesMap \<Rightarrow> (bool \<times> LfgRolesMap) option) \<Rightarrow> nat \<Rightarrow> u8 \<Rightarrow> u8 \<Rightarrow> u8 \<Rightarrow> LfgRolesMap \<Rightarrow> u8 \<Rightarrow> role_step" where
  "role_block check i role b needed m cnt =
     (if has_bits role b then
        (if role \<noteq> b then
           (case check (add_role i (- b) m) of
              None \<Rightarrow> Return None
            | Some (res, m') \<Rightarrow> if res then Return (Some (True, m')) else GoOn (add_role i b m') cnt)
         else if cnt = needed then Return (Some (False, m))
         else GoOn m (cnt + 1))
      else GoOn m cnt)"

text \<open>The loop from the entry \<open>i\<close> on; the map keeps its \<open>n\<close> entries.\<close>

fun role_loop ::
  "(LfgRolesMap \<Rightarrow> (bool \<times> LfgRolesMap) option) \<Rightarrow> nat list \<Rightarrow> LfgRolesMap \<Rightarrow> u8 \<Rightarrow> u8 \<Rightarrow> u8 \<Rightarrow> (bool \<times> LfgRolesMap) option" where
  "role_loop check [] m damage healer tank = Some (tank + healer + damage = of_nat (length m), m)"
| "role_loop check (i # is) m damage healer tank =
     (let role = snd (m ! i) AND NOT PLAYER_ROLE_LEADER
      in if role = PLAYER_ROLE_NONE then Some (False, m)
         else case role_block check i role PLAYER_ROLE_DAMAGE LFG_DPS_NEEDED m damage of
           Return r \<Rightarrow> r
         | GoOn m1 damage' \<Rightarrow>
             (case role_block check i role PLAYER_ROLE_HEALER LFG_HEALERS_NEEDED m1 healer of
                Return r \<Rightarrow> r
              | GoOn m2 healer' \<Rightarrow>
                  (case role_block check i role PLAYER_ROLE_TANK LFG_TANKS_NEEDED m2 tank of
                     Return r \<Rightarrow> r
                   | GoOn m3 tank' \<Rightarrow> role_loop check is m3 damage' healer' tank')))"

text \<open>
  \<open>check_fuel n\<close> is the function with at most \<open>n\<close> calls inside of each other, \<open>None\<close> if these are not enough. The
  recursion removes a role from one entry before each call, so the sum of the masks bounds its depth;
  \<open>CheckGroupRoles_returns\<close> below shows that this bound is enough and that \<open>CheckGroupRoles\<close> is the function without it.
\<close>

fun check_fuel :: "nat \<Rightarrow> LfgRolesMap \<Rightarrow> (bool \<times> LfgRolesMap) option" where
  "check_fuel 0 m = None"
| "check_fuel (Suc n) m =
     (if m = [] then Some (False, m) else role_loop (check_fuel n) [0..<length m] m 0 0 0)"

definition roles_weight :: "LfgRolesMap \<Rightarrow> nat" where
  "roles_weight m = sum_list (map (\<lambda>(g, v). unat v) m)"

definition CheckGroupRoles :: "LfgRolesMap \<Rightarrow> bool \<times> LfgRolesMap" where
  "CheckGroupRoles m = the (check_fuel (Suc (roles_weight m)) m)"

section \<open>What a choice of roles is\<close>

definition role_bits :: "u8 list" where
  "role_bits = [PLAYER_ROLE_TANK, PLAYER_ROLE_HEALER, PLAYER_ROLE_DAMAGE]"

text \<open>A player can take a role he has chosen; a mask with an unknown bit can take none.\<close>

definition can :: "u8 \<Rightarrow> u8 \<Rightarrow> bool" where
  "can v b \<longleftrightarrow> b \<in> set role_bits \<and> has_bits v b \<and> \<not> has_bits v 0xF0"

definition choice :: "LfgRolesMap \<Rightarrow> u8 list \<Rightarrow> bool" where
  "choice m pick \<longleftrightarrow> list_all2 (\<lambda>e b. can (snd e) b) m pick
     \<and> count_list pick PLAYER_ROLE_DAMAGE \<le> 3 \<and> count_list pick PLAYER_ROLE_HEALER \<le> 1
     \<and> count_list pick PLAYER_ROLE_TANK \<le> 1"

definition chosen :: "LfgRolesMap \<Rightarrow> u8 list \<Rightarrow> LfgRolesMap" where
  "chosen m pick = map2 (\<lambda>e b. (fst e, (snd e AND PLAYER_ROLE_LEADER) OR b)) m pick"

section \<open>Masks\<close>

text \<open>Masks are read bit by bit, at the width of the word.\<close>

declare bit_numeral_word_iff [simp del]

lemma role_bitsE:
  assumes "b \<in> set role_bits"
  obtains "b = 2" | "b = 4" | "b = 8"
  using assms by (auto simp: role_bits_def)

lemma bit_masks:
  "bit (1 :: u8) n \<longleftrightarrow> n = 0" "bit (2 :: u8) n \<longleftrightarrow> n = 1" "bit (4 :: u8) n \<longleftrightarrow> n = 2"
  "bit (8 :: u8) n \<longleftrightarrow> n = 3"
  by (auto simp: bit_numeral_word_iff bit_numeral_rec bit_1_iff eval_nat_numeral split: nat.splits)

lemma has_bits_single:
  "has_bits (v :: u8) 2 \<longleftrightarrow> bit v 1" "has_bits (v :: u8) 4 \<longleftrightarrow> bit v 2" "has_bits (v :: u8) 8 \<longleftrightarrow> bit v 3"
  by (simp_all add: has_bits_def bit_iff_and_push_bit_not_eq_0 push_bit_eq_mult)

lemma bit_F0: "bit (0xF0 :: u8) n \<longleftrightarrow> 4 \<le> n \<and> n < 8"
proof (cases "n < 8")
  case True
  then have "n \<in> {0,1,2,3,4,5,6,7}" by auto
  then show ?thesis by (auto simp: bit_numeral_word_iff)
next
  case False
  then show ?thesis using bit_imp_le_length[of "0xF0 :: u8" n] by auto
qed

lemma has_bits_F0: "\<not> has_bits (v :: u8) 0xF0 \<longleftrightarrow> (\<forall>n\<ge>4. \<not> bit v n)"
proof -
  have "\<not> has_bits v 0xF0 \<longleftrightarrow> (\<forall>n. \<not> (bit v n \<and> 4 \<le> n \<and> n < 8))"
    by (auto simp: has_bits_def bit_eq_iff bit_and_iff bit_F0)
  moreover have "bit v n \<Longrightarrow> n < 8" for n using bit_imp_le_length[of v n] by simp
  ultimately show ?thesis by blast
qed

lemma sub_bit:
  fixes v b :: u8
  assumes "b \<in> set role_bits" and "has_bits v b"
  shows "v - b = v AND NOT b" and "unat (v - b) < unat v"
proof -
  have vb: "v AND b = b"
    using assms by (elim role_bitsE) (auto intro!: bit_eqI simp: bit_and_iff bit_masks has_bits_single)
  have "(v AND NOT b) + (v AND b) = (v AND NOT b) OR (v AND b)"
  proof -
    have "(v AND NOT b) AND (v AND b) = 0" by (auto intro!: bit_eqI simp: bit_and_iff bit_not_iff)
    then show ?thesis using word_plus_and_or[of "v AND NOT b" "v AND b"] by simp
  qed
  also have "\<dots> = v" by (auto intro!: bit_eqI simp: bit_and_iff bit_not_iff bit_or_iff dest: bit_imp_le_length)
  finally have "(v AND NOT b) + b = v" by (simp add: vb)
  then show 1: "v - b = v AND NOT b" by (metis add_diff_cancel_right')
  have "b \<le> v" using vb by (metis word_and_le1 and.commute word_and_le2)
  moreover have "b \<noteq> 0" using assms(1) by (elim role_bitsE) auto
  ultimately show "unat (v - b) < unat v"
    using unat_sub_le[of b v] by (simp add: unat_gt_0 word_le_nat_alt) (metis unat_gt_0 diff_less less_le_trans)
qed

lemma bits_sub:
  "b \<in> set role_bits \<Longrightarrow> has_bits v b \<Longrightarrow> bit (v - b) n \<longleftrightarrow> bit v n \<and> \<not> bit b n"
  using bit_imp_le_length[of v n] by (auto simp: sub_bit bit_and_iff bit_not_iff)

lemma has_bits_bit: "b \<in> set role_bits \<Longrightarrow> has_bits v b \<longleftrightarrow> (\<exists>n. bit v n \<and> bit b n)"
  by (elim role_bitsE) (auto simp: bit_masks has_bits_single)

lemma role_bit_disj: "a \<in> set role_bits \<Longrightarrow> b \<in> set role_bits \<Longrightarrow> bit a n \<Longrightarrow> bit b n \<longleftrightarrow> a = b"
  by (elim role_bitsE) (auto simp: bit_masks)

lemma role_bit_low: "b \<in> set role_bits \<Longrightarrow> bit b n \<Longrightarrow> n \<noteq> 0 \<and> n < 4"
  by (elim role_bitsE) (auto simp: bit_masks)

lemma can_bits:
  "can v 2 \<longleftrightarrow> bit v 1 \<and> (\<forall>n\<ge>4. \<not> bit v n)" "can v 4 \<longleftrightarrow> bit v 2 \<and> (\<forall>n\<ge>4. \<not> bit v n)"
  "can v 8 \<longleftrightarrow> bit v 3 \<and> (\<forall>n\<ge>4. \<not> bit v n)"
  by (simp_all add: can_def role_bits_def has_bits_single has_bits_F0)

lemma can_sub:
  assumes "a \<in> set role_bits" and "has_bits v a"
  shows "can (v - a) b \<longleftrightarrow> can v b \<and> b \<noteq> a"
proof (cases "b \<in> set role_bits")
  case True
  note s = bits_sub[OF assms]
  show ?thesis
    using assms(1) True s by (elim role_bitsE) (auto simp: can_bits bit_masks)
qed (simp add: can_def)

lemma leader_sub:
  "a \<in> set role_bits \<Longrightarrow> has_bits v a \<Longrightarrow> (v - a) AND 1 = v AND 1"
  by (rule bit_eqI) (auto simp: bit_and_iff bits_sub bit_masks dest: role_bit_low)

lemma has_bits_no_leader: "b \<in> set role_bits \<Longrightarrow> has_bits (v AND NOT 1) b = has_bits v b"
  using role_bit_low[of b] bit_imp_le_length[of v]
  by (auto simp: has_bits_bit bit_and_iff bit_not_iff bit_masks)

lemma can_single:
  assumes "v AND NOT 1 = b" and "b \<in> set role_bits"
  shows "can v a \<longleftrightarrow> a = b" and "(v AND 1) OR b = v"
proof -
  have bits: "bit v n \<longleftrightarrow> bit b n" if "n \<noteq> 0" for n
    using that bit_imp_le_length[of v n] unfolding assms(1)[symmetric]
    by (auto simp: bit_and_iff bit_not_iff bit_masks)
  have hi: "\<not> bit v n" if "n \<ge> 4" for n using that bits[of n] role_bit_low[OF assms(2), of n] by auto
  show "can v a \<longleftrightarrow> a = b"
  proof (cases "a \<in> set role_bits")
    case True
    then show ?thesis
      using assms(2) bits[of 1] bits[of 2] bits[of 3] hi
      by (elim role_bitsE) (auto simp: can_bits bit_masks)
  next
    case False
    then show ?thesis using assms(2) by (auto simp: can_def)
  qed
  show "(v AND 1) OR b = v"
    using bits role_bit_low[OF assms(2)]
    by (intro bit_eqI) (auto simp: bit_and_iff bit_or_iff bit_masks)
qed

lemma can_multi:
  assumes "can v b" and "v AND NOT 1 \<noteq> b"
  shows "\<exists>a \<in> set role_bits. a \<noteq> b \<and> has_bits v a"
proof (rule ccontr)
  assume neg: "\<not> ?thesis"
  have b: "b \<in> set role_bits" using assms(1) by (simp add: can_def)
  have no: "\<not> bit v n" if "n \<noteq> 0" "\<not> bit b n" for n
  proof
    assume v: "bit v n"
    then have "n < 4" using assms(1) by (auto simp: can_def has_bits_F0 not_le)
    then have "n = 1 \<or> n = 2 \<or> n = 3" using that(1) by arith
    then have "\<exists>a \<in> set role_bits. bit a n" by (simp add: role_bits_def bit_masks)
    then obtain a where a: "a \<in> set role_bits" "bit a n" by blast
    then have "a \<noteq> b" "has_bits v a" using v that(2) by (auto simp: has_bits_bit)
    with a(1) neg show False by blast
  qed
  have yes: "bit v n" if "bit b n" for n
    using b assms(1) that by (elim role_bitsE) (auto simp: can_bits bit_masks)
  have "v AND NOT 1 = b"
  proof (rule bit_eqI)
    fix n
    show "bit (v AND NOT 1) n \<longleftrightarrow> bit b n"
      using no[of n] yes[of n] role_bit_low[OF b, of n] bit_imp_le_length[of v n]
      by (cases "n = 0") (auto simp: bit_and_iff bit_not_iff bit_masks)
  qed
  then show False using assms(2) by simp
qed

lemma can_none: "v AND NOT 1 = 0 \<Longrightarrow> \<not> can v b"
  by (auto simp: can_def dest: has_bits_no_leader[of b v])

section \<open>Narrowing one entry\<close>

lemma length_add_role [simp]: "length (add_role i b m) = length m"
  by (simp add: add_role_def)

lemma add_role_restore: "i < length m \<Longrightarrow> add_role i b (add_role i (- b) m) = m"
  by (simp add: add_role_def)

lemma add_role_nth:
  "i < length m \<Longrightarrow> j < length m \<Longrightarrow>
     add_role i b m ! j = (if j = i then (fst (m ! i), snd (m ! i) + b) else m ! j)"
  by (simp add: add_role_def nth_list_update)

lemma choice_narrow:
  assumes "i < length m" and "b \<in> set role_bits" and "has_bits (snd (m ! i)) b"
  shows "choice (add_role i (- b) m) pick \<longleftrightarrow> choice m pick \<and> pick ! i \<noteq> b"
proof -
  have "list_all2 (\<lambda>e b. can (snd e) b) (add_role i (- b) m) pick \<longleftrightarrow>
      list_all2 (\<lambda>e b. can (snd e) b) m pick \<and> pick ! i \<noteq> b"
    using assms can_sub[OF assms(2,3)]
    by (auto simp: list_all2_conv_all_nth add_role_nth)
  then show ?thesis by (auto simp: choice_def)
qed

lemma chosen_narrow:
  assumes "i < length m" and "b \<in> set role_bits" and "has_bits (snd (m ! i)) b"
  shows "chosen (add_role i (- b) m) pick = chosen m pick"
  using assms leader_sub[OF assms(2,3)]
  by (auto intro!: nth_equalityI simp: chosen_def add_role_nth)

lemma weight_narrow:
  assumes "i < length m" and "b \<in> set role_bits" and "has_bits (snd (m ! i)) b"
  shows "roles_weight (add_role i (- b) m) < roles_weight m"
proof -
  have m: "m = take i m @ m ! i # drop (Suc i) m" using assms(1) by (simp add: id_take_nth_drop)
  have "add_role i (- b) m = take i m @ (fst (m ! i), snd (m ! i) - b) # drop (Suc i) m"
    using assms(1) by (simp add: add_role_def upd_conv_take_nth_drop)
  then show ?thesis
    using sub_bit(2)[OF assms(2,3)]
    by (subst (2) m) (simp add: roles_weight_def split_def)
qed

section \<open>The loop\<close>

text \<open>The role of an entry without the leader flag, and these roles for the first \<open>k\<close> entries.\<close>

definition role_at :: "LfgRolesMap \<Rightarrow> nat \<Rightarrow> u8" where
  "role_at m j = snd (m ! j) AND NOT PLAYER_ROLE_LEADER"

definition roles_upto :: "LfgRolesMap \<Rightarrow> nat \<Rightarrow> u8 list" where
  "roles_upto m k = map (role_at m) [0..<k]"

text \<open>What a call of the search on \<open>m\<close> promises about its result.\<close>

definition answers :: "LfgRolesMap \<Rightarrow> bool \<times> LfgRolesMap \<Rightarrow> bool" where
  "answers m r \<longleftrightarrow>
     (if fst r then m \<noteq> [] \<and> (\<exists>pick. choice m pick \<and> snd r = chosen m pick)
      else snd r = m \<and> (m = [] \<or> (\<forall>pick. \<not> choice m pick)))"

definition returns :: "LfgRolesMap \<Rightarrow> (bool \<times> LfgRolesMap) option \<Rightarrow> bool" where
  "returns m x \<longleftrightarrow> (\<exists>r. x = Some r \<and> answers m r)"

definition answers_below :: "nat \<Rightarrow> (LfgRolesMap \<Rightarrow> (bool \<times> LfgRolesMap) option) \<Rightarrow> bool" where
  "answers_below k check \<longleftrightarrow>
     (\<forall>m. roles_weight m < k \<longrightarrow> length m < 256 \<longrightarrow> returns m (check m))"

lemma returns_Some [simp]: "returns m (Some r) = answers m r"
  by (simp add: returns_def)

lemma choice_role:
  assumes "choice m pick" and "j < length m"
  shows "can (snd (m ! j)) (pick ! j)"
  using assms by (auto simp: choice_def list_all2_conv_all_nth)

lemma choice_length: "choice m pick \<Longrightarrow> length pick = length m"
  by (auto simp: choice_def list_all2_conv_all_nth)

lemma choice_single:
  assumes "choice m pick" and "j < length m" and "role_at m j \<in> set role_bits"
  shows "pick ! j = role_at m j"
  using choice_role[OF assms(1,2)] can_single(1)[OF _ assms(3), of "snd (m ! j)"]
  by (simp add: role_at_def)

lemma choice_prefix:
  assumes "choice m pick" and "k \<le> length m" and "set (roles_upto m k) \<subseteq> set role_bits"
  shows "roles_upto m k = take k pick"
proof (rule nth_equalityI)
  show "length (roles_upto m k) = length (take k pick)"
    using assms(2) choice_length[OF assms(1)] by (simp add: roles_upto_def)
  show "roles_upto m k ! j = take k pick ! j" if "j < length (roles_upto m k)" for j
    using that assms choice_single[OF assms(1), of j] by (auto simp: roles_upto_def image_subset_iff)
qed

lemma count_take_le: "count_list (take k xs) x \<le> count_list xs x"
  by (metis append_take_drop_id count_list_append le_add1)

lemma choice_counts:
  assumes "choice m pick" and "k \<le> length m" and "set (roles_upto m k) \<subseteq> set role_bits"
  shows "count_list (roles_upto m k) b \<le> count_list pick b"
  using count_take_le[of k pick b] choice_prefix[OF assms] by simp

lemma count_roles:
  "set xs \<subseteq> set role_bits \<Longrightarrow> count_list xs 8 + count_list xs 4 + count_list xs 2 = length xs"
  by (induction xs) (auto simp: role_bits_def)

lemma roles_upto_Suc: "roles_upto m (Suc k) = roles_upto m k @ [role_at m k]"
  by (simp add: roles_upto_def)

text \<open>One block: it returns with a choice, or it finds the limit of its role passed, or the loop goes on
  with the map it had.\<close>

lemma role_block_cases:
  assumes ok: "answers_below (roles_weight m) check" and len: "length m < 256" and i: "i < length m"
    and b: "b \<in> set role_bits" and role: "role = role_at m i"
  shows "(\<exists>pick. choice m pick \<and> role_block check i role b needed m cnt = Return (Some (True, chosen m pick)))
    \<or> role = b \<and> cnt = needed \<and> role_block check i role b needed m cnt = Return (Some (False, m))
    \<or> role = b \<and> cnt \<noteq> needed \<and> role_block check i role b needed m cnt = GoOn m (cnt + 1)
    \<or> role \<noteq> b \<and> (has_bits role b \<longrightarrow> (\<forall>pick. choice m pick \<longrightarrow> pick ! i = b))
       \<and> role_block check i role b needed m cnt = GoOn m cnt"
proof (cases "has_bits role b")
  case True
  have hb: "has_bits (snd (m ! i)) b"
    using True has_bits_no_leader[OF b] by (simp add: role role_at_def)
  show ?thesis
  proof (cases "role = b")
    case False
    let ?m = "add_role i (- b) m"
    obtain res m' where c: "check ?m = Some (res, m')" and ans: "answers ?m (res, m')"
      using ok weight_narrow[OF i b hb] len by (auto simp: answers_below_def returns_def)
    show ?thesis
    proof (cases res)
      case True
      then obtain pick where "choice ?m pick" "m' = chosen ?m pick"
        using ans c by (auto simp: answers_def)
      then have "choice m pick" "m' = chosen m pick"
        using choice_narrow[OF i b hb] chosen_narrow[OF i b hb] by auto
      then show ?thesis
        using \<open>has_bits role b\<close> False c True by (auto simp: role_block_def)
    next
      case no: False
      have "m' = ?m" "\<forall>pick. \<not> choice ?m pick"
        using ans c no i by (auto simp: answers_def add_role_def)
      then have "\<forall>pick. choice m pick \<longrightarrow> pick ! i = b" "add_role i b m' = m"
        using choice_narrow[OF i b hb] add_role_restore[OF i] by auto
      then show ?thesis
        using \<open>has_bits role b\<close> False c no by (simp add: role_block_def)
    qed
  qed (use True in \<open>auto simp: role_block_def\<close>)
next
  case False
  then have "role \<noteq> b" using b by (elim role_bitsE) (auto simp: has_bits_def)
  with False show ?thesis by (simp add: role_block_def)
qed

text \<open>
  At the entry \<open>k\<close> the counters are those of the entries before it, all of which have one role; or no
  choice of roles exists and some entry was not counted.
\<close>

definition loop_inv :: "LfgRolesMap \<Rightarrow> nat \<Rightarrow> nat \<Rightarrow> nat \<Rightarrow> nat \<Rightarrow> bool" where
  "loop_inv m k nd nh nt \<longleftrightarrow> nd \<le> 3 \<and> nh \<le> 1 \<and> nt \<le> 1 \<and>
     (set (roles_upto m k) \<subseteq> set role_bits \<and> nd = count_list (roles_upto m k) 8
        \<and> nh = count_list (roles_upto m k) 4 \<and> nt = count_list (roles_upto m k) 2
      \<or> (\<forall>pick. \<not> choice m pick) \<and> nd + nh + nt < k)"

lemma of_nat_u8_eq: "a < 256 \<Longrightarrow> b < 256 \<Longrightarrow> (of_nat a :: u8) = of_nat b \<longleftrightarrow> a = b"
  using of_nat_inverse[of a "of_nat b :: u8"] of_nat_inverse[of b "of_nat b :: u8"] by auto

lemma loop_inv_single:
  assumes inv: "loop_inv m k nd nh nt" and k: "k < length m"
  shows "role_at m k = 8 \<Longrightarrow> if nd = 3 then \<forall>pick. \<not> choice m pick else loop_inv m (Suc k) (nd + 1) nh nt"
    and "role_at m k = 4 \<Longrightarrow> if nh = 1 then \<forall>pick. \<not> choice m pick else loop_inv m (Suc k) nd (nh + 1) nt"
    and "role_at m k = 2 \<Longrightarrow> if nt = 1 then \<forall>pick. \<not> choice m pick else loop_inv m (Suc k) nd nh (nt + 1)"
proof -
  have over: "\<not> choice m pick"
    if "set (roles_upto m k) \<subseteq> set role_bits" "role_at m k \<in> set role_bits"
      "count_list (roles_upto m (Suc k)) b > limit" "choice m pick \<Longrightarrow> count_list pick b \<le> limit" for pick b limit
  proof
    assume c: "choice m pick"
    have "set (roles_upto m (Suc k)) \<subseteq> set role_bits" using that(1,2) by (simp add: roles_upto_Suc)
    from choice_counts[OF c _ this, of b] k that(3) that(4)[OF c] show False by simp
  qed
  have lim: "choice m pick \<Longrightarrow> count_list pick 8 \<le> 3" "choice m pick \<Longrightarrow> count_list pick 4 \<le> 1"
    "choice m pick \<Longrightarrow> count_list pick 2 \<le> 1" for pick by (simp_all add: choice_def)
  show "if nd = 3 then \<forall>pick. \<not> choice m pick else loop_inv m (Suc k) (nd + 1) nh nt" if "role_at m k = 8"
    using inv over[OF _ _ _ lim(1)] that by (auto simp: loop_inv_def roles_upto_Suc role_bits_def)
  show "if nh = 1 then \<forall>pick. \<not> choice m pick else loop_inv m (Suc k) nd (nh + 1) nt" if "role_at m k = 4"
    using inv over[OF _ _ _ lim(2)] that by (auto simp: loop_inv_def roles_upto_Suc role_bits_def)
  show "if nt = 1 then \<forall>pick. \<not> choice m pick else loop_inv m (Suc k) nd nh (nt + 1)" if "role_at m k = 2"
    using inv over[OF _ _ _ lim(3)] that by (auto simp: loop_inv_def roles_upto_Suc role_bits_def)
qed

lemma loop_inv_sum: "loop_inv m k nd nh nt \<Longrightarrow> nd + nh + nt \<le> k"
  using count_roles[of "roles_upto m k"] by (auto simp: loop_inv_def) (simp add: roles_upto_def)

text \<open>At the end all entries have one role, or one entry was not counted.\<close>

lemma loop_end:
  assumes "loop_inv m (length m) nd nh nt" and "length m < 256" and "m \<noteq> []"
  shows "returns m (role_loop check [] m (of_nat nd) (of_nat nh) (of_nat nt))"
proof -
  let ?p = "roles_upto m (length m)"
  have n: "nd \<le> 3" "nh \<le> 1" "nt \<le> 1" using assms(1) by (auto simp: loop_inv_def)
  then have eq: "of_nat nt + of_nat nh + of_nat nd = (of_nat (length m) :: u8) \<longleftrightarrow> nt + nh + nd = length m"
    using assms(2) of_nat_u8_eq[of "nt + nh + nd" "length m"] by simp
  show ?thesis
  proof (cases "\<forall>pick. \<not> choice m pick")
    case True
    have "nt + nh + nd \<noteq> length m"
    proof
      assume e: "nt + nh + nd = length m"
      then have s: "set ?p \<subseteq> set role_bits" and c: "nd = count_list ?p 8" "nh = count_list ?p 4" "nt = count_list ?p 2"
        using assms(1) by (auto simp: loop_inv_def)
      have "choice m ?p"
        using s c n can_single(1) by (auto simp: choice_def roles_upto_def list_all2_conv_all_nth role_at_def image_subset_iff)
      then show False using True by blast
    qed
    then show ?thesis using True eq by (simp add: answers_def)
  next
    case False
    then have s: "set ?p \<subseteq> set role_bits" and c: "nd = count_list ?p 8" "nh = count_list ?p 4" "nt = count_list ?p 2"
      using assms(1) by (auto simp: loop_inv_def)
    have sum: "nt + nh + nd = length m" using count_roles[OF s] c by (simp add: roles_upto_def)
    have r: "role_at m j \<in> set role_bits" if "j < length m" for j
      using s that by (auto simp: roles_upto_def image_subset_iff)
    have "choice m ?p"
      using r c n can_single(1) by (auto simp: choice_def roles_upto_def list_all2_conv_all_nth role_at_def)
    moreover have "chosen m ?p = m"
      using r can_single(2) by (auto intro!: nth_equalityI simp: chosen_def roles_upto_def role_at_def)
    ultimately show ?thesis using sum eq assms(3) by (auto simp: answers_def intro: exI[of _ ?p])
  qed
qed

lemma role_loop_Cons:
  "role_loop check (i # is) m damage healer tank =
     (if role_at m i = 0 then Some (False, m)
      else case role_block check i (role_at m i) 8 3 m damage of
        Return r \<Rightarrow> r
      | GoOn m1 damage' \<Rightarrow>
          (case role_block check i (role_at m i) 4 1 m1 healer of
             Return r \<Rightarrow> r
           | GoOn m2 healer' \<Rightarrow>
               (case role_block check i (role_at m i) 2 1 m2 tank of
                  Return r \<Rightarrow> r
                | GoOn m3 tank' \<Rightarrow> role_loop check is m3 damage' healer' tank')))"
  unfolding role_loop.simps role_at_def Let_def ..

declare role_loop.simps(2) [simp del]

text \<open>An entry with one role is counted, or its counter is at the limit.\<close>

lemma role_block_single [simp]:
  "role_block check i 2 2 needed m cnt = (if cnt = needed then Return (Some (False, m)) else GoOn m (cnt + 1))"
  "role_block check i 4 4 needed m cnt = (if cnt = needed then Return (Some (False, m)) else GoOn m (cnt + 1))"
  "role_block check i 8 8 needed m cnt = (if cnt = needed then Return (Some (False, m)) else GoOn m (cnt + 1))"
  "role_block check i 2 4 needed m cnt = GoOn m cnt" "role_block check i 2 8 needed m cnt = GoOn m cnt"
  "role_block check i 4 2 needed m cnt = GoOn m cnt" "role_block check i 4 8 needed m cnt = GoOn m cnt"
  "role_block check i 8 2 needed m cnt = GoOn m cnt" "role_block check i 8 4 needed m cnt = GoOn m cnt"
  by (simp_all add: role_block_def has_bits_def)

lemma role_bits_simps [simp]: "2 \<in> set role_bits" "4 \<in> set role_bits" "8 \<in> set role_bits"
  by (simp_all add: role_bits_def)

lemma role_bits_nonzero [simp]: "(2 :: u8) \<noteq> 0" "(4 :: u8) \<noteq> 0" "(8 :: u8) \<noteq> 0"
  by code_simp+

lemma counter_limits:
  "nd \<le> 3 \<Longrightarrow> (of_nat nd :: u8) = 3 \<longleftrightarrow> nd = 3" "nh \<le> 1 \<Longrightarrow> (of_nat nh :: u8) = 1 \<longleftrightarrow> nh = 1"
  using of_nat_u8_eq[of nd 3] of_nat_u8_eq[of nh 1] by auto

lemma answers_no: "\<forall>pick. \<not> choice m pick \<Longrightarrow> answers m (False, m)"
  by (simp add: answers_def)

lemma role_loop_single:
  assumes "role_at m k \<in> set role_bits" and inv: "loop_inv m k nd nh nt" and k: "k < length m"
    and IH: "\<And>nd nh nt. loop_inv m (Suc k) nd nh nt \<Longrightarrow>
      returns m (role_loop check is m (of_nat nd) (of_nat nh) (of_nat nt))"
  shows "returns m (role_loop check (k # is) m (of_nat nd) (of_nat nh) (of_nat nt))"
proof -
  have n: "nd \<le> 3" "nh \<le> 1" "nt \<le> 1" using inv by (auto simp: loop_inv_def)
  note c = counter_limits(1)[OF n(1)] counter_limits(2)[OF n(2)] counter_limits(2)[OF n(3)]
  consider "role_at m k = 2" | "role_at m k = 4" | "role_at m k = 8"
    using assms(1) by (elim role_bitsE)
  then show ?thesis
  proof cases
    case 1
    show ?thesis
      using loop_inv_single(3)[OF inv k 1] IH[of nd nh "nt + 1"] c
      by (simp add: role_loop_Cons 1 answers_no add.commute del: word_eq_numeral_iff_iszero split: if_splits)
  next
    case 2
    show ?thesis
      using loop_inv_single(2)[OF inv k 2] IH[of nd "nh + 1" nt] c
      by (simp add: role_loop_Cons 2 answers_no add.commute del: word_eq_numeral_iff_iszero split: if_splits)
  next
    case 3
    show ?thesis
      using loop_inv_single(1)[OF inv k 3] IH[of "nd + 1" nh nt] c
      by (simp add: role_loop_Cons 3 answers_no add.commute del: word_eq_numeral_iff_iszero split: if_splits)
  qed
qed

text \<open>An entry with several roles: one of the recursive calls finds a choice, or there is none.\<close>

lemma role_loop_multi:
  assumes ok: "answers_below (roles_weight m) check" and len: "length m < 256" and k: "k < length m"
    and r: "role_at m k \<noteq> 0" "role_at m k \<notin> set role_bits" and inv: "loop_inv m k nd nh nt"
    and IH: "loop_inv m (Suc k) nd nh nt \<Longrightarrow>
      returns m (role_loop check is m (of_nat nd) (of_nat nh) (of_nat nt))"
  shows "returns m (role_loop check (k # is) m (of_nat nd) (of_nat nh) (of_nat nt))"
proof -
  let ?r = "role_at m k"
  have yes: "answers m (True, chosen m pick)" if "choice m pick" for pick
    using that k by (auto simp: answers_def)
  have blk: "(\<exists>pick. choice m pick \<and> role_block check k ?r b needed m cnt = Return (Some (True, chosen m pick)))
      \<or> (has_bits ?r b \<longrightarrow> (\<forall>pick. choice m pick \<longrightarrow> pick ! k = b)) \<and> role_block check k ?r b needed m cnt = GoOn m cnt"
    if "b \<in> set role_bits" for b needed cnt
    using role_block_cases[OF ok len k that refl, of needed cnt] r(2) that by metis
  show ?thesis
  proof (cases "\<exists>pick. choice m pick")
    case True
    then obtain pick where p: "choice m pick" by blast
    have "can (snd (m ! k)) (pick ! k)" by (rule choice_role[OF p k])
    moreover have "?r \<noteq> pick ! k" using calculation r(2) by (auto simp: can_def)
    ultimately obtain a where a: "a \<in> set role_bits" "a \<noteq> pick ! k" "has_bits ?r a"
      using can_multi[of "snd (m ! k)" "pick ! k"] has_bits_no_leader by (auto simp: role_at_def)
    have R: "\<exists>pick. choice m pick \<and> role_block check k ?r a needed m cnt = Return (Some (True, chosen m pick))" for needed cnt
      using blk[OF a(1)] a p by blast
    show ?thesis
      using a(1) R[of 3 "of_nat nd"] R[of 1 "of_nat nh"] R[of 1 "of_nat nt"] blk[of 8 3 "of_nat nd"] blk[of 4 1 "of_nat nh"] blk[of 2 1 "of_nat nt"] r(1)
      by (elim role_bitsE) (auto simp: role_loop_Cons intro: yes)
  next
    case False
    then have inv': "loop_inv m (Suc k) nd nh nt"
      using inv loop_inv_sum[OF inv] by (auto simp: loop_inv_def)
    have "role_block check k ?r b needed m cnt = GoOn m cnt" if "b \<in> set role_bits" for b needed cnt
      using blk[OF that] False by blast
    then show ?thesis using IH[OF inv'] r(1) by (simp add: role_loop_Cons)
  qed
qed

lemma role_loop_answers:
  assumes ok: "answers_below (roles_weight m) check" and len: "length m < 256" and "m \<noteq> []"
  shows "k \<le> length m \<Longrightarrow> loop_inv m k nd nh nt \<Longrightarrow>
    returns m (role_loop check [k..<length m] m (of_nat nd) (of_nat nh) (of_nat nt))"
proof (induction "length m - k" arbitrary: k nd nh nt)
  case 0
  then show ?case using loop_end[of m nd nh nt check] assms by simp
next
  case (Suc d)
  then have k: "k < length m" by simp
  then have up: "[k..<length m] = k # [Suc k..<length m]" by (rule upt_conv_Cons)
  have IH: "returns m (role_loop check [Suc k..<length m] m (of_nat nd) (of_nat nh) (of_nat nt))"
    if "loop_inv m (Suc k) nd nh nt" for nd nh nt
    using Suc.hyps(1)[of "Suc k" nd nh nt] Suc.hyps(2) k that by simp
  consider "role_at m k = 0" | "role_at m k \<in> set role_bits" | "role_at m k \<noteq> 0" "role_at m k \<notin> set role_bits"
    by blast
  then show ?case
  proof cases
    case 1
    then have "\<not> choice m pick" for pick
      using choice_role[of m pick k] k can_none[of "snd (m ! k)"] by (auto simp: role_at_def)
    then have "answers m (False, m)" by (simp add: answers_def)
    then show ?thesis using 1 by (simp add: up role_loop_Cons)
  next
    case 2
    then show ?thesis unfolding up using Suc.prems(2) k IH by (rule role_loop_single)
  next
    case 3
    then show ?thesis unfolding up using ok len k Suc.prems(2) IH by (intro role_loop_multi) auto
  qed
qed

lemma check_fuel_answers:
  "roles_weight m < n \<Longrightarrow> length m < 256 \<Longrightarrow> returns m (check_fuel n m)"
proof (induction n arbitrary: m)
  case (Suc n)
  show ?case
  proof (cases "m = []")
    case False
    have "answers_below (roles_weight m) (check_fuel n)"
      using Suc by (auto simp: answers_below_def)
    moreover have "loop_inv m 0 0 0 0" by (simp add: loop_inv_def roles_upto_def)
    ultimately show ?thesis
      using role_loop_answers[of m "check_fuel n" 0 0 0 0] Suc.prems(2) False by simp
  qed (simp add: answers_def)
qed simp

section \<open>The recursion without fuel\<close>

lemma role_block_same:
  assumes "\<And>m'. roles_weight m' < roles_weight m \<Longrightarrow> length m' < 256 \<Longrightarrow> f m' = g m'"
    and "length m < 256" and i: "i < length m" and b: "b \<in> set role_bits"
  shows "role_block f i (role_at m i) b needed m cnt = role_block g i (role_at m i) b needed m cnt"
proof (cases "has_bits (role_at m i) b")
  case True
  then have "has_bits (snd (m ! i)) b" using has_bits_no_leader[OF b] by (simp add: role_at_def)
  then have "f (add_role i (- b) m) = g (add_role i (- b) m)"
    using assms(1,2) weight_narrow[OF i b] by simp
  then show ?thesis by (simp add: role_block_def)
qed (simp add: role_block_def)

lemma role_block_map:
  assumes "answers_below (roles_weight m) check" and "length m < 256" and "i < length m"
    and "b \<in> set role_bits" and "role_block check i (role_at m i) b needed m cnt = GoOn m' cnt'"
  shows "m' = m"
  using role_block_cases[OF assms(1-4) refl, of needed cnt] assms(5) by auto

lemma role_loop_same:
  assumes same: "\<And>m'. roles_weight m' < roles_weight m \<Longrightarrow> length m' < 256 \<Longrightarrow> f m' = g m'"
    and ok: "answers_below (roles_weight m) g" and len: "length m < 256"
  shows "set is \<subseteq> {..<length m} \<Longrightarrow> role_loop f is m d h t = role_loop g is m d h t"
proof (induction "is" arbitrary: d h t)
  case (Cons i "is")
  then have i: "i < length m" by simp
  note blk = role_block_same[of m f g, OF same len i]
  note keep = role_block_map[OF ok len i]
  have IH: "role_loop f is m d h t = role_loop g is m d h t" for d h t using Cons by simp
  show ?case
  proof (cases "role_block g i (role_at m i) 8 3 m d")
    case one: (GoOn m1 d')
    have "m1 = m" using keep[OF _ one] by simp
    show ?thesis
    proof (cases "role_block g i (role_at m i) 4 1 m h")
      case two: (GoOn m2 h')
      have "m2 = m" using keep[OF _ two] by simp
      show ?thesis
      proof (cases "role_block g i (role_at m i) 2 1 m t")
        case three: (GoOn m3 t')
        have "m3 = m" using keep[OF _ three] by simp
        with one two three \<open>m1 = m\<close> \<open>m2 = m\<close> IH show ?thesis
          by (simp add: role_loop_Cons blk)
      qed (use one two \<open>m1 = m\<close> \<open>m2 = m\<close> in \<open>simp add: role_loop_Cons blk\<close>)
    qed (use one \<open>m1 = m\<close> in \<open>simp add: role_loop_Cons blk\<close>)
  qed (simp add: role_loop_Cons blk)
qed simp

lemma check_fuel_enough:
  "roles_weight m < n \<Longrightarrow> roles_weight m < n' \<Longrightarrow> length m < 256 \<Longrightarrow> check_fuel n m = check_fuel n' m"
proof (induction n arbitrary: m n')
  case (Suc n)
  then obtain k where k: "n' = Suc k" by (cases n') auto
  have "answers_below (roles_weight m) (check_fuel k)"
    using Suc.prems k by (auto simp: answers_below_def intro: check_fuel_answers)
  moreover have "check_fuel n m' = check_fuel k m'"
    if "roles_weight m' < roles_weight m" "length m' < 256" for m'
    by (rule Suc.IH) (use that Suc.prems k in simp_all)
  ultimately have "role_loop (check_fuel n) [0..<length m] m 0 0 0 = role_loop (check_fuel k) [0..<length m] m 0 0 0"
    using Suc.prems(3) by (intro role_loop_same) auto
  then show ?case by (simp add: k)
qed simp

lemma check_fuel_CheckGroupRoles: "roles_weight m < n \<Longrightarrow> length m < 256 \<Longrightarrow> check_fuel n m = Some (CheckGroupRoles m)"
  using check_fuel_answers[of m "Suc (roles_weight m)"] check_fuel_enough[of m n "Suc (roles_weight m)"]
  by (auto simp: CheckGroupRoles_def returns_def simp del: check_fuel.simps)

lemma CheckGroupRoles_answers: "length m < 256 \<Longrightarrow> answers m (CheckGroupRoles m)"
  using check_fuel_answers[of m "Suc (roles_weight m)"] check_fuel_CheckGroupRoles[of m "Suc (roles_weight m)"] by simp

section \<open>Properties\<close>

text \<open>Property C36: the role check returns. Every call inside of another is on a map with a role less, so that the sum of the
  masks bounds how deep they go: with any greater bound the answer is there and it is the same. It is the answer of
  the function that fails on an empty map and otherwise runs the loop with itself for the recursive calls.\<close>

theorem CheckGroupRoles_returns:
  assumes "length m < 256"
  shows "(\<forall>n. roles_weight m < n \<longrightarrow> check_fuel n m = Some (CheckGroupRoles m))
    \<and> Some (CheckGroupRoles m) =
        (if m = [] then Some (False, m) else role_loop (\<lambda>m. Some (CheckGroupRoles m)) [0..<length m] m 0 0 0)"
proof (intro conjI allI impI)
  show "check_fuel n m = Some (CheckGroupRoles m)" if "roles_weight m < n" for n
    using that assms by (rule check_fuel_CheckGroupRoles)
  have ok: "answers_below (roles_weight m) (\<lambda>m. Some (CheckGroupRoles m))"
    by (auto simp: answers_below_def intro: CheckGroupRoles_answers)
  have "check_fuel (roles_weight m) m' = Some (CheckGroupRoles m')"
    if "roles_weight m' < roles_weight m" "length m' < 256" for m'
    using that by (rule check_fuel_CheckGroupRoles)
  from role_loop_same[OF this ok assms]
  have "role_loop (check_fuel (roles_weight m)) [0..<length m] m 0 0 0 =
      role_loop (\<lambda>m. Some (CheckGroupRoles m)) [0..<length m] m 0 0 0" by (simp add: atLeast0LessThan)
  then show "Some (CheckGroupRoles m) =
      (if m = [] then Some (False, m) else role_loop (\<lambda>m. Some (CheckGroupRoles m)) [0..<length m] m 0 0 0)"
    using check_fuel_CheckGroupRoles[of m "Suc (roles_weight m)"] assms by (simp split: if_splits)
qed

theorem CheckGroupRoles_returns_witness:
  "check_fuel 13 [(7, 0xA), (9, 2)] = Some (CheckGroupRoles [(7, 0xA), (9, 2)])"
  using CheckGroupRoles_returns[of "[(7, 0xA), (9, 2)]"] by (simp add: roles_weight_def del: check_fuel.simps)

text \<open>Property C11: the role check succeeds exactly if the group is not empty and every player can be given
  one of the roles he chose with at most three damage dealers, one healer and one tank. It then
  leaves such a choice in the map, with the leader flags; when it fails, the map is as it was.\<close>

theorem CheckGroupRoles_correct:
  assumes "length m < 256"
  shows "(fst (CheckGroupRoles m) \<longleftrightarrow> m \<noteq> [] \<and> (\<exists>pick. choice m pick))
    \<and> (if fst (CheckGroupRoles m) then \<exists>pick. choice m pick \<and> snd (CheckGroupRoles m) = chosen m pick
       else snd (CheckGroupRoles m) = m)"
proof -
  have "answers m (CheckGroupRoles m)" using assms by (rule CheckGroupRoles_answers)
  then show ?thesis by (auto simp: answers_def split: if_splits)
qed

text \<open>A player who can deal damage and tank, and one who can only deal damage: the first one tanks.\<close>

theorem CheckGroupRoles_correct_witness:
  "fst (CheckGroupRoles [(7, 0xB), (9, 8), (11, 8), (12, 8), (13, 0xC)])
   \<and> \<not> fst (CheckGroupRoles [(7, 2), (9, 2)])
   \<and> snd (CheckGroupRoles [(7, 0xB), (9, 8), (11, 8), (12, 8), (13, 0xC)])
       = [(7, 3), (9, 8), (11, 8), (12, 8), (13, 4)]"
proof -
  have "choice [(7, 0xB), (9, 8), (11, 8), (12, 8), (13, 0xC)] [2, 8, 8, 8, 4]"
    by (simp add: choice_def can_def role_bits_def has_bits_def)
  then have "fst (CheckGroupRoles [(7, 0xB), (9, 8), (11, 8), (12, 8), (13, 0xC)])"
    using CheckGroupRoles_correct[of "[(7, 0xB), (9, 8), (11, 8), (12, 8), (13, 0xC)]"] by auto
  moreover have "\<not> fst (CheckGroupRoles [(7, 2), (9, 2)])" by code_simp
  moreover have "snd (CheckGroupRoles [(7, 0xB), (9, 8), (11, 8), (12, 8), (13, 0xC)])
       = [(7, 3), (9, 8), (11, 8), (12, 8), (13, 4)]" by code_simp
  ultimately show ?thesis by blast
qed

end
