(* ===== verification/LFGQueue.thy ===== *)
theory LFGQueue
  imports LFGRoles TextUtil "HOL-Library.Char_ord" "HOL-Library.List_Lexorder"
begin

text \<open>
  The queue of the dungeon finder (\<open>DungeonFinding/LFGQueue.h\<close>, \<open>LFGQueue.cpp\<close>): the data of the
  queued players and groups, the cache of compatible combinations, the search for a combination of
  five players, and the proposal it makes. What the queue asks of the manager is a record of
  functions, which the theory of the manager instantiates.
\<close>

section \<open>Data\<close>

datatype LfgCompatibility =
    LFG_COMPATIBILITY_PENDING
  | LFG_INCOMPATIBLES_WRONG_GROUP_SIZE
  | LFG_INCOMPATIBLES_TOO_MUCH_PLAYERS
  | LFG_INCOMPATIBLES_MULTIPLE_LFG_GROUPS
  | LFG_INCOMPATIBLES_HAS_IGNORES
  | LFG_INCOMPATIBLES_NO_ROLES
  | LFG_INCOMPATIBLES_NO_DUNGEONS
  | LFG_COMPATIBLES_WITH_LESS_PLAYERS
  | LFG_COMPATIBLES_BAD_STATES
  | LFG_COMPATIBLES_MATCH

text \<open>The values of the enumeration, which the code compares with \<open><\<close>.\<close>

fun compat_val :: "LfgCompatibility \<Rightarrow> nat" where
  "compat_val LFG_COMPATIBILITY_PENDING = 0"
| "compat_val LFG_INCOMPATIBLES_WRONG_GROUP_SIZE = 1"
| "compat_val LFG_INCOMPATIBLES_TOO_MUCH_PLAYERS = 2"
| "compat_val LFG_INCOMPATIBLES_MULTIPLE_LFG_GROUPS = 3"
| "compat_val LFG_INCOMPATIBLES_HAS_IGNORES = 4"
| "compat_val LFG_INCOMPATIBLES_NO_ROLES = 5"
| "compat_val LFG_INCOMPATIBLES_NO_DUNGEONS = 6"
| "compat_val LFG_COMPATIBLES_WITH_LESS_PLAYERS = 7"
| "compat_val LFG_COMPATIBLES_BAD_STATES = 8"
| "compat_val LFG_COMPATIBLES_MATCH = 9"

lemma compat_val_inject: "compat_val a = compat_val b \<Longrightarrow> a = b"
  by (cases a; cases b) simp_all

instantiation LfgCompatibility :: linorder
begin

definition less_LfgCompatibility :: "LfgCompatibility \<Rightarrow> LfgCompatibility \<Rightarrow> bool" where
  "less_LfgCompatibility a b \<longleftrightarrow> compat_val a < compat_val b"

definition less_eq_LfgCompatibility :: "LfgCompatibility \<Rightarrow> LfgCompatibility \<Rightarrow> bool" where
  "less_eq_LfgCompatibility a b \<longleftrightarrow> compat_val a \<le> compat_val b"

instance
  by standard (auto simp: less_LfgCompatibility_def less_eq_LfgCompatibility_def dest: compat_val_inject)

end

record LfgCompatibilityData =
  cd_compatibility :: LfgCompatibility
  cd_roles :: LfgRolesMap

record LfgQueueData =
  qd_joinTime :: int
  qd_tanks :: u8
  qd_healers :: u8
  qd_dps :: u8
  qd_dungeons :: "u32 list"
  qd_roles :: LfgRolesMap
  qd_bestCompatible :: string

definition mk_LfgQueueData :: "int \<Rightarrow> u32 list \<Rightarrow> LfgRolesMap \<Rightarrow> LfgQueueData" where
  "mk_LfgQueueData t dungeons roles =
     \<lparr>qd_joinTime = t, qd_tanks = LFG_TANKS_NEEDED, qd_healers = LFG_HEALERS_NEEDED,
      qd_dps = LFG_DPS_NEEDED, qd_dungeons = dungeons, qd_roles = roles, qd_bestCompatible = []\<rparr>"

text \<open>An \<open>int32\<close> average, kept at its width, and the number of samples.\<close>

record LfgWaitTime =
  wt_time :: u32
  wt_number :: u32

definition mk_LfgWaitTime :: LfgWaitTime where
  "mk_LfgWaitTime = \<lparr>wt_time = - 1, wt_number = 0\<rparr>"

record LFGQueue =
  QueueDataStore :: "(guid \<times> LfgQueueData) list"
  CompatibleMapStore :: "(string \<times> LfgCompatibilityData) list"
  waitTimesAvgStore :: "(u32 \<times> LfgWaitTime) list"
  waitTimesTankStore :: "(u32 \<times> LfgWaitTime) list"
  waitTimesHealerStore :: "(u32 \<times> LfgWaitTime) list"
  waitTimesDpsStore :: "(u32 \<times> LfgWaitTime) list"
  currentQueueStore :: "guid list"
  newToQueueStore :: "guid list"

section \<open>Proposals\<close>

datatype LfgAnswer = LFG_ANSWER_PENDING | LFG_ANSWER_DENY | LFG_ANSWER_AGREE

datatype LfgProposalState = LFG_PROPOSAL_INITIATING | LFG_PROPOSAL_FAILED | LFG_PROPOSAL_SUCCESS

record LfgProposalPlayer =
  pp_role :: u8
  pp_accept :: LfgAnswer
  pp_group :: guid

record LfgProposal =
  pr_id :: u32
  pr_dungeonId :: u32
  pr_state :: LfgProposalState
  pr_group :: guid
  pr_leader :: guid
  pr_cancelTime :: int
  pr_encounters :: u32
  pr_isNew :: bool
  pr_queues :: "guid list"
  pr_showorder :: "guid list"
  pr_players :: "(guid \<times> LfgProposalPlayer) list"

text \<open>
  What the queue reads from the manager, and the random draws of the proposal with a given id: an
  index into the common dungeons, and a coin for a player.
\<close>

record lfg_view =
  IsLfgGroup :: "guid \<Rightarrow> bool"
  Queued :: "guid \<Rightarrow> bool"
  InOldDungeon :: "guid \<Rightarrow> bool"
  Ignores :: "guid \<Rightarrow> guid \<Rightarrow> bool"
  now :: int
  draw_dungeon :: "u32 \<Rightarrow> nat"
  draw_coin :: "u32 \<Rightarrow> guid \<Rightarrow> bool"

text \<open>\<open>LFGMgr::AllQueued\<close>: the state of every one of them is \<open>LFG_STATE_QUEUED\<close>.\<close>

definition AllQueued :: "lfg_view \<Rightarrow> guid list \<Rightarrow> bool" where
  "AllQueued V check \<longleftrightarrow> check \<noteq> [] \<and> list_all (Queued V) check"

text \<open>The queue, the last proposal id of the manager, and the proposals it was given, newest first.\<close>

record queue_state =
  qs_queue :: LFGQueue
  qs_lastId :: u32
  qs_proposals :: "LfgProposal list"

section \<open>Keys\<close>

definition IsGroup :: "guid \<Rightarrow> bool" where
  "IsGroup g \<longleftrightarrow> drop_bit 48 g AND 0xFFFF = 0x1F50"

text \<open>\<open>ConcatenateGuids\<close>: the guids in order, without duplicates, with bars between them.\<close>

fun join_bar :: "string list \<Rightarrow> string" where
  "join_bar [] = []"
| "join_bar [s] = s"
| "join_bar (s # t # ss) = s @ ''|'' @ join_bar (t # ss)"

definition ConcatenateGuids :: "guid list \<Rightarrow> string" where
  "ConcatenateGuids check =
     join_bar (map print_u64 (foldl (\<lambda>s g. sset_insert g s) [] check))"

text \<open>\<open>npos != s.find(sub)\<close>\<close>

fun contains :: "string \<Rightarrow> string \<Rightarrow> bool" where
  "contains sub [] \<longleftrightarrow> sub = []"
| "contains sub (c # s) \<longleftrightarrow> take (length sub) (c # s) = sub \<or> contains sub s"

definition key_size :: "string \<Rightarrow> u8" where
  "key_size key = of_nat (count_list key (CHR ''|'')) + 1"

section \<open>The cache of compatible combinations\<close>

definition GetCompatibles :: "LFGQueue \<Rightarrow> string \<Rightarrow> LfgCompatibility" where
  "GetCompatibles q key =
     (case smap_find (CompatibleMapStore q) key of
        Some d \<Rightarrow> cd_compatibility d
      | None \<Rightarrow> LFG_COMPATIBILITY_PENDING)"

text \<open>\<open>CompatibleMapStore[key]\<close> makes a new entry with no roles if there is none.\<close>

definition SetCompatibles :: "string \<Rightarrow> LfgCompatibility \<Rightarrow> LFGQueue \<Rightarrow> LFGQueue" where
  "SetCompatibles key c q =
     (let d = (case smap_find (CompatibleMapStore q) key of
                 Some d \<Rightarrow> d
               | None \<Rightarrow> \<lparr>cd_compatibility = LFG_COMPATIBILITY_PENDING, cd_roles = []\<rparr>)
      in q\<lparr>CompatibleMapStore := smap_put key (d\<lparr>cd_compatibility := c\<rparr>) (CompatibleMapStore q)\<rparr>)"

definition SetCompatibilityData :: "string \<Rightarrow> LfgCompatibilityData \<Rightarrow> LFGQueue \<Rightarrow> LFGQueue" where
  "SetCompatibilityData key d q = q\<lparr>CompatibleMapStore := smap_put key d (CompatibleMapStore q)\<rparr>"

definition RemoveFromCompatibles :: "guid \<Rightarrow> LFGQueue \<Rightarrow> LFGQueue" where
  "RemoveFromCompatibles g q =
     q\<lparr>CompatibleMapStore :=
        filter (\<lambda>(key, d). \<not> contains (print_u64 g) key) (CompatibleMapStore q)\<rparr>"

text \<open>The roles still needed: one decrement for each player of the combination.\<close>

definition need_role :: "LfgQueueData \<Rightarrow> guid \<times> u8 \<Rightarrow> LfgQueueData" where
  "need_role d e =
     (if has_bits (snd e) PLAYER_ROLE_TANK then d\<lparr>qd_tanks := qd_tanks d - 1\<rparr>
      else if has_bits (snd e) PLAYER_ROLE_HEALER then d\<lparr>qd_healers := qd_healers d - 1\<rparr>
      else d\<lparr>qd_dps := qd_dps d - 1\<rparr>)"

definition best_compatible :: "string \<Rightarrow> LfgRolesMap \<Rightarrow> LfgQueueData \<Rightarrow> LfgQueueData" where
  "best_compatible key roles d =
     (let storedSize = (if qd_bestCompatible d = [] then 0 else key_size (qd_bestCompatible d));
          size = key_size key
      in if size \<le> storedSize then d
         else foldl need_role
                (d\<lparr>qd_bestCompatible := key, qd_tanks := LFG_TANKS_NEEDED,
                   qd_healers := LFG_HEALERS_NEEDED, qd_dps := LFG_DPS_NEEDED\<rparr>) roles)"

text \<open>\<open>UpdateBestCompatibleInQueue\<close> on the entry of \<open>g\<close>, which the callers have found.\<close>

definition UpdateBestCompatibleInQueue :: "guid \<Rightarrow> string \<Rightarrow> LfgRolesMap \<Rightarrow> LFGQueue \<Rightarrow> LFGQueue" where
  "UpdateBestCompatibleInQueue g key roles q =
     (case smap_find (QueueDataStore q) g of
        None \<Rightarrow> q
      | Some d \<Rightarrow>
          q\<lparr>QueueDataStore := smap_put g (best_compatible key roles d) (QueueDataStore q)\<rparr>)"

definition FindBestCompatibleInQueue :: "guid \<Rightarrow> LFGQueue \<Rightarrow> LFGQueue" where
  "FindBestCompatibleInQueue g q =
     foldl (\<lambda>q (key, d).
              if cd_compatibility d = LFG_COMPATIBLES_WITH_LESS_PLAYERS \<and> contains (print_u64 g) key
              then UpdateBestCompatibleInQueue g key (cd_roles d) q else q)
       q (CompatibleMapStore q)"

section \<open>Entering and leaving the queue\<close>

definition AddToNewQueue :: "guid \<Rightarrow> LFGQueue \<Rightarrow> LFGQueue" where
  "AddToNewQueue g q = q\<lparr>newToQueueStore := newToQueueStore q @ [g]\<rparr>"

definition RemoveFromNewQueue :: "guid \<Rightarrow> LFGQueue \<Rightarrow> LFGQueue" where
  "RemoveFromNewQueue g q = q\<lparr>newToQueueStore := filter (\<lambda>h. h \<noteq> g) (newToQueueStore q)\<rparr>"

definition AddToCurrentQueue :: "guid \<Rightarrow> LFGQueue \<Rightarrow> LFGQueue" where
  "AddToCurrentQueue g q = q\<lparr>currentQueueStore := currentQueueStore q @ [g]\<rparr>"

definition AddToFrontCurrentQueue :: "guid \<Rightarrow> LFGQueue \<Rightarrow> LFGQueue" where
  "AddToFrontCurrentQueue g q = q\<lparr>currentQueueStore := g # currentQueueStore q\<rparr>"

definition RemoveFromCurrentQueue :: "guid \<Rightarrow> LFGQueue \<Rightarrow> LFGQueue" where
  "RemoveFromCurrentQueue g q = q\<lparr>currentQueueStore := filter (\<lambda>h. h \<noteq> g) (currentQueueStore q)\<rparr>"

definition AddToQueue :: "guid \<Rightarrow> bool \<Rightarrow> LFGQueue \<Rightarrow> LFGQueue" where
  "AddToQueue g reAdd q =
     (if smap_find (QueueDataStore q) g = None then q
      else if reAdd then AddToFrontCurrentQueue g q else AddToNewQueue g q)"

definition AddQueueData :: "guid \<Rightarrow> int \<Rightarrow> u32 list \<Rightarrow> LfgRolesMap \<Rightarrow> LFGQueue \<Rightarrow> LFGQueue" where
  "AddQueueData g t dungeons roles q =
     AddToQueue g False
       (q\<lparr>QueueDataStore := smap_put g (mk_LfgQueueData t dungeons roles) (QueueDataStore q)\<rparr>)"

definition RemoveQueueData :: "guid \<Rightarrow> LFGQueue \<Rightarrow> LFGQueue" where
  "RemoveQueueData g q = q\<lparr>QueueDataStore := smap_erase g (QueueDataStore q)\<rparr>"

text \<open>The entries whose best combination names the leaver look for another one.\<close>

definition forget_best :: "guid \<Rightarrow> guid \<Rightarrow> LFGQueue \<Rightarrow> LFGQueue" where
  "forget_best g h q =
     (case smap_find (QueueDataStore q) h of
        None \<Rightarrow> q
      | Some d \<Rightarrow>
          (if h \<noteq> g \<and> contains (print_u64 g) (qd_bestCompatible d)
           then FindBestCompatibleInQueue h
                  (q\<lparr>QueueDataStore := smap_put h (d\<lparr>qd_bestCompatible := []\<rparr>) (QueueDataStore q)\<rparr>)
           else q))"

definition RemoveFromQueue :: "guid \<Rightarrow> LFGQueue \<Rightarrow> LFGQueue" where
  "RemoveFromQueue g q =
     (let q1 = RemoveFromCompatibles g (RemoveFromCurrentQueue g (RemoveFromNewQueue g q));
          q2 = foldl (\<lambda>q h. forget_best g h q) q1 (map fst (QueueDataStore q1))
      in q2\<lparr>QueueDataStore := smap_erase g (QueueDataStore q2)\<rparr>)"

section \<open>Waiting times\<close>

definition add_sample :: "u32 \<Rightarrow> u32 \<Rightarrow> (u32 \<times> LfgWaitTime) list \<Rightarrow> (u32 \<times> LfgWaitTime) list" where
  "add_sample waitTime dungeonId store =
     (let wt = (case smap_find store dungeonId of Some w \<Rightarrow> w | None \<Rightarrow> mk_LfgWaitTime);
          old_number = wt_number wt;
          n = old_number + 1
      in smap_put dungeonId
           \<lparr>wt_time = (wt_time wt * old_number + waitTime) div n, wt_number = n\<rparr> store)"

definition UpdateWaitTimeAvg :: "u32 \<Rightarrow> u32 \<Rightarrow> LFGQueue \<Rightarrow> LFGQueue" where
  "UpdateWaitTimeAvg w i q = q\<lparr>waitTimesAvgStore := add_sample w i (waitTimesAvgStore q)\<rparr>"

definition UpdateWaitTimeTank :: "u32 \<Rightarrow> u32 \<Rightarrow> LFGQueue \<Rightarrow> LFGQueue" where
  "UpdateWaitTimeTank w i q = q\<lparr>waitTimesTankStore := add_sample w i (waitTimesTankStore q)\<rparr>"

definition UpdateWaitTimeHealer :: "u32 \<Rightarrow> u32 \<Rightarrow> LFGQueue \<Rightarrow> LFGQueue" where
  "UpdateWaitTimeHealer w i q = q\<lparr>waitTimesHealerStore := add_sample w i (waitTimesHealerStore q)\<rparr>"

definition UpdateWaitTimeDps :: "u32 \<Rightarrow> u32 \<Rightarrow> LFGQueue \<Rightarrow> LFGQueue" where
  "UpdateWaitTimeDps w i q = q\<lparr>waitTimesDpsStore := add_sample w i (waitTimesDpsStore q)\<rparr>"

text \<open>\<open>QueueDataStore[guid]\<close> makes an entry that joined now if there is none.\<close>

definition GetJoinTime :: "int \<Rightarrow> guid \<Rightarrow> LFGQueue \<Rightarrow> int \<times> LFGQueue" where
  "GetJoinTime t g q =
     (case smap_find (QueueDataStore q) g of
        Some d \<Rightarrow> (qd_joinTime d, q)
      | None \<Rightarrow> (t, q\<lparr>QueueDataStore := smap_put g (mk_LfgQueueData t [] []) (QueueDataStore q)\<rparr>))"

text \<open>
  \<open>UpdateQueueTimers\<close>: each entry shows the waiting times of its first dungeon, which are made in the
  stores if there are none, and looks for a best combination if it has none. \<open>None\<close> is
  \<open>dungeons.begin()\<close> of an empty set.
\<close>

record LfgQueueStatusData =
  st_dungeonId :: u32
  st_waitTime :: u32
  st_waitTimeAvg :: u32
  st_waitTimeTank :: u32
  st_waitTimeHealer :: u32
  st_waitTimeDps :: u32
  st_queuedTime :: u32
  st_tanks :: u8
  st_healers :: u8
  st_dps :: u8

definition wait_time :: "u32 \<Rightarrow> (u32 \<times> LfgWaitTime) list \<Rightarrow> u32 \<times> (u32 \<times> LfgWaitTime) list" where
  "wait_time i store =
     (case smap_find store i of
        Some w \<Rightarrow> (wt_time w, store)
      | None \<Rightarrow> (wt_time mk_LfgWaitTime, smap_put i mk_LfgWaitTime store))"

definition timers_of_entry ::
  "int \<Rightarrow> guid \<Rightarrow> LfgQueueData \<Rightarrow> LFGQueue \<Rightarrow> (LFGQueue \<times> (guid \<times> LfgQueueStatusData) list) option" where
  "timers_of_entry currTime g d q =
     (case qd_dungeons d of
        [] \<Rightarrow> None
      | dungeonId # _ \<Rightarrow>
          (let (wtTank, tanks) = wait_time dungeonId (waitTimesTankStore q);
               (wtHealer, healers) = wait_time dungeonId (waitTimesHealerStore q);
               (wtDps, dps) = wait_time dungeonId (waitTimesDpsStore q);
               (wtAvg, avg) = wait_time dungeonId (waitTimesAvgStore q);
               role = foldl (\<lambda>v (p, r). v OR r) PLAYER_ROLE_NONE (qd_roles d) AND NOT PLAYER_ROLE_LEADER;
               waitTime = (if role = PLAYER_ROLE_NONE then - 1
                           else if role = PLAYER_ROLE_TANK then wtTank
                           else if role = PLAYER_ROLE_HEALER then wtHealer
                           else if role = PLAYER_ROLE_DAMAGE then wtDps
                           else wtAvg);
               q1 = q\<lparr>waitTimesTankStore := tanks, waitTimesHealerStore := healers,
                      waitTimesDpsStore := dps, waitTimesAvgStore := avg\<rparr>;
               q2 = (if qd_bestCompatible d = [] then FindBestCompatibleInQueue g q1 else q1);
               d2 = (case smap_find (QueueDataStore q2) g of Some e \<Rightarrow> e | None \<Rightarrow> d);
               status = \<lparr>st_dungeonId = dungeonId, st_waitTime = waitTime, st_waitTimeAvg = wtAvg,
                         st_waitTimeTank = wtTank, st_waitTimeHealer = wtHealer, st_waitTimeDps = wtDps,
                         st_queuedTime = word_of_int (currTime - qd_joinTime d),
                         st_tanks = qd_tanks d2, st_healers = qd_healers d2, st_dps = qd_dps d2\<rparr>
           in Some (q2, map (\<lambda>(p, r). (p, status)) (qd_roles d))))"

fun timers_loop ::
  "int \<Rightarrow> (guid \<times> LfgQueueData) list \<Rightarrow> LFGQueue \<Rightarrow> (guid \<times> LfgQueueStatusData) list
     \<Rightarrow> (LFGQueue \<times> (guid \<times> LfgQueueStatusData) list) option" where
  "timers_loop t [] q sent = Some (q, sent)"
| "timers_loop t ((g, d) # es) q sent =
     (case timers_of_entry t g d q of
        None \<Rightarrow> None
      | Some (q', out) \<Rightarrow> timers_loop t es q' (sent @ out))"

definition UpdateQueueTimers :: "int \<Rightarrow> LFGQueue \<Rightarrow> (LFGQueue \<times> (guid \<times> LfgQueueStatusData) list) option" where
  "UpdateQueueTimers t q = timers_loop t (QueueDataStore q) q []"

section \<open>Checking a combination\<close>

abbreviation "MAXGROUPSIZE \<equiv> (5 :: u8)"

text \<open>
  The first loop of \<open>CheckCompatibility\<close>: the group of each player, the number of players, the
  number of dungeon finder groups and the first of them. It stops at a guid without queue data
  (\<open>Inl\<close>), at the second dungeon finder group, or when the players are too many.
\<close>

record scan_state =
  sc_groups :: "(guid \<times> guid) list"
  sc_players :: u8
  sc_lfgGroups :: u8
  sc_group :: guid

definition scan_entry :: "lfg_view \<Rightarrow> guid \<Rightarrow> LfgQueueData \<Rightarrow> scan_state \<Rightarrow> scan_state" where
  "scan_entry V g d sc =
     (let sc1 = sc\<lparr>sc_groups := foldl (\<lambda>m (p, r). smap_put p (if IsGroup g then g else 0) m)
                                (sc_groups sc) (qd_roles d),
                   sc_players := sc_players sc + of_nat (length (qd_roles d))\<rparr>
      in if IsLfgGroup V g then
           (if sc_lfgGroups sc1 = 0 then sc1\<lparr>sc_group := g, sc_lfgGroups := sc_lfgGroups sc1 + 1\<rparr>
            else sc1\<lparr>sc_lfgGroups := sc_lfgGroups sc1 + 1\<rparr>)
         else sc1)"

fun scan_check :: "lfg_view \<Rightarrow> LFGQueue \<Rightarrow> guid list \<Rightarrow> scan_state \<Rightarrow> guid + scan_state" where
  "scan_check V q [] sc = Inr sc"
| "scan_check V q (g # gs) sc =
     (if sc_lfgGroups sc < 2 \<and> sc_players sc \<le> MAXGROUPSIZE then
        (case smap_find (QueueDataStore q) g of
           None \<Rightarrow> Inl g
         | Some d \<Rightarrow> scan_check V q gs (scan_entry V g d sc))
      else Inr sc)"

text \<open>
  The players with their roles, leaving out a player who ignores or is ignored by one already
  there; \<open>queue_data\<close> is \<open>QueueDataStore[guid]\<close> of a guid the first loop has found.
\<close>

definition queue_data :: "LFGQueue \<Rightarrow> guid \<Rightarrow> LfgQueueData" where
  "queue_data q g = (case smap_find (QueueDataStore q) g of Some d \<Rightarrow> d | None \<Rightarrow> mk_LfgQueueData 0 [] [])"

definition add_player :: "lfg_view \<Rightarrow> LfgRolesMap \<Rightarrow> guid \<times> u8 \<Rightarrow> LfgRolesMap" where
  "add_player V m e =
     (if \<exists>x \<in> set m. fst e \<noteq> fst x \<and> Ignores V (fst e) (fst x) then m
      else smap_put (fst e) (snd e) m)"

definition gather_roles :: "lfg_view \<Rightarrow> LFGQueue \<Rightarrow> guid list \<Rightarrow> LfgRolesMap" where
  "gather_roles V q check =
     foldl (\<lambda>m g. foldl (add_player V) m (qd_roles (queue_data q g))) [] check"

text \<open>\<open>std::set_intersection\<close> of two sets in order.\<close>

definition common_dungeons :: "LFGQueue \<Rightarrow> guid list \<Rightarrow> u32 list" where
  "common_dungeons q check =
     (case check of
        [] \<Rightarrow> []
      | g # gs \<Rightarrow> foldl (\<lambda>ds h. filter (\<lambda>d. d \<in> set (qd_dungeons (queue_data q h))) ds)
                   (qd_dungeons (queue_data q g)) gs)"

text \<open>The loop that assigns the leader and the players of a proposal.\<close>

fun assign_players ::
  "lfg_view \<Rightarrow> (guid \<times> guid) list \<Rightarrow> LfgRolesMap \<Rightarrow> bool \<Rightarrow> LfgProposal \<Rightarrow> LfgProposal" where
  "assign_players V groups [] leader pr = pr"
| "assign_players V groups ((p, r) # m) leader pr =
     (let coin = draw_coin V (pr_id pr) p;
          lead = has_bits r PLAYER_ROLE_LEADER;
          pr1 = (if lead then
                   (if \<not> leader \<or> pr_leader pr = 0 \<or> coin then pr\<lparr>pr_leader := p\<rparr> else pr)
                 else if \<not> leader \<and> (pr_leader pr = 0 \<or> coin) then pr\<lparr>pr_leader := p\<rparr>
                 else pr);
          grp = (case smap_find groups p of Some g \<Rightarrow> g | None \<Rightarrow> 0);
          acc = (if \<not> pr_isNew pr \<and> grp \<noteq> 0 \<and> grp = pr_group pr then LFG_ANSWER_AGREE
                 else LFG_ANSWER_PENDING);
          pr2 = pr1\<lparr>pr_players := smap_put p \<lparr>pp_role = r, pp_accept = acc, pp_group = grp\<rparr>
                                  (pr_players pr1)\<rparr>
      in assign_players V groups m (leader \<or> lead) pr2)"

abbreviation "LFG_TIME_PROPOSAL \<equiv> (45 :: int)"

text \<open>\<open>AddProposal\<close> gives the proposal the next id; the draws are those of that id.\<close>

definition make_proposal ::
  "lfg_view \<Rightarrow> guid list \<Rightarrow> scan_state \<Rightarrow> LfgRolesMap \<Rightarrow> u32 list \<Rightarrow> u32 \<Rightarrow> LfgProposal" where
  "make_proposal V check sc roles dungeons newId =
     assign_players V (sc_groups sc) roles False
       \<lparr>pr_id = newId, pr_dungeonId = dungeons ! (draw_dungeon V newId mod length dungeons),
        pr_state = LFG_PROPOSAL_INITIATING, pr_group = sc_group sc, pr_leader = 0,
        pr_cancelTime = now V + LFG_TIME_PROPOSAL, pr_encounters = 0,
        pr_isNew = (sc_lfgGroups sc \<noteq> 1 \<or> \<not> InOldDungeon V (hd check)),
        pr_queues = check, pr_showorder = [], pr_players = []\<rparr>"

definition upd_queue :: "(LFGQueue \<Rightarrow> LFGQueue) \<Rightarrow> queue_state \<Rightarrow> queue_state" where
  "upd_queue f s = s\<lparr>qs_queue := f (qs_queue s)\<rparr>"

text \<open>The end of \<open>CheckCompatibility\<close>, when the roles and the dungeons are known.\<close>

definition propose ::
  "lfg_view \<Rightarrow> guid list \<Rightarrow> scan_state \<Rightarrow> LfgRolesMap \<Rightarrow> u32 list \<Rightarrow> queue_state \<Rightarrow> LfgCompatibility \<times> queue_state" where
  "propose V check sc roles dungeons s =
     (let key = ConcatenateGuids check
      in if sc_players sc \<noteq> MAXGROUPSIZE then
           (LFG_COMPATIBLES_WITH_LESS_PLAYERS,
            upd_queue (\<lambda>q. SetCompatibilityData key
                \<lparr>cd_compatibility = LFG_COMPATIBLES_WITH_LESS_PLAYERS, cd_roles = roles\<rparr>
                (foldl (\<lambda>q g. UpdateBestCompatibleInQueue g key roles q) q check)) s)
         else if \<not> AllQueued V check then
           (LFG_COMPATIBLES_BAD_STATES, upd_queue (SetCompatibles key LFG_COMPATIBLES_BAD_STATES) s)
         else
           let newId = qs_lastId s + 1;
               pr = make_proposal V check sc roles dungeons newId;
               s1 = upd_queue (\<lambda>q. foldl (\<lambda>q g. RemoveFromCurrentQueue g (RemoveFromNewQueue g q)) q check) s
           in (LFG_COMPATIBLES_MATCH,
               upd_queue (SetCompatibles key LFG_COMPATIBLES_MATCH)
                 (s1\<lparr>qs_lastId := newId, qs_proposals := pr # qs_proposals s1\<rparr>)))"

text \<open>\<open>CheckCompatibility\<close> behind the size test and the check of the combination without its head.\<close>

definition check_players :: "lfg_view \<Rightarrow> guid list \<Rightarrow> queue_state \<Rightarrow> LfgCompatibility \<times> queue_state" where
  "check_players V check s =
     (let key = ConcatenateGuids check; q = qs_queue s
      in case scan_check V q check \<lparr>sc_groups = [], sc_players = 0, sc_lfgGroups = 0, sc_group = 0\<rparr> of
           Inl g \<Rightarrow> (LFG_COMPATIBILITY_PENDING, upd_queue (RemoveFromQueue g) s)
         | Inr sc \<Rightarrow>
             if length check = 1 \<and> sc_players sc \<noteq> MAXGROUPSIZE then
               let roles = snd (CheckGroupRoles (qd_roles (queue_data q (hd check))))
               in (LFG_COMPATIBLES_WITH_LESS_PLAYERS,
                   upd_queue (\<lambda>q. SetCompatibilityData key
                       \<lparr>cd_compatibility = LFG_COMPATIBLES_WITH_LESS_PLAYERS, cd_roles = roles\<rparr>
                       (UpdateBestCompatibleInQueue (hd check) key roles q)) s)
             else if sc_lfgGroups sc > 1 then
               (LFG_INCOMPATIBLES_MULTIPLE_LFG_GROUPS,
                upd_queue (SetCompatibles key LFG_INCOMPATIBLES_MULTIPLE_LFG_GROUPS) s)
             else if sc_players sc > MAXGROUPSIZE then
               (LFG_INCOMPATIBLES_TOO_MUCH_PLAYERS,
                upd_queue (SetCompatibles key LFG_INCOMPATIBLES_TOO_MUCH_PLAYERS) s)
             else if length check > 1 then
               let gathered = gather_roles V q check
               in if sc_players sc - of_nat (length gathered) \<noteq> 0 then
                    (LFG_INCOMPATIBLES_HAS_IGNORES,
                     upd_queue (SetCompatibles key LFG_INCOMPATIBLES_HAS_IGNORES) s)
                  else
                    let (fits, roles) = CheckGroupRoles gathered
                    in if \<not> fits then
                         (LFG_INCOMPATIBLES_NO_ROLES,
                          upd_queue (SetCompatibles key LFG_INCOMPATIBLES_NO_ROLES) s)
                       else
                         let dungeons = common_dungeons q check
                         in if dungeons = [] then
                              (LFG_INCOMPATIBLES_NO_DUNGEONS,
                               upd_queue (SetCompatibles key LFG_INCOMPATIBLES_NO_DUNGEONS) s)
                            else propose V check sc roles dungeons s
             else
               let d = queue_data q (hd check)
               in propose V check sc (snd (CheckGroupRoles (qd_roles d))) (qd_dungeons d) s)"

fun CheckCompatibility :: "lfg_view \<Rightarrow> guid list \<Rightarrow> queue_state \<Rightarrow> LfgCompatibility \<times> queue_state" where
  "CheckCompatibility V [] s = (LFG_INCOMPATIBLES_WRONG_GROUP_SIZE, s)"
| "CheckCompatibility V (g # rest) s =
     (if length (g # rest) > 5 then (LFG_INCOMPATIBLES_WRONG_GROUP_SIZE, s)
      else if length (g # rest) > 2 then
        (case CheckCompatibility V rest s of
           (child, s1) \<Rightarrow>
             (if child < LFG_COMPATIBLES_WITH_LESS_PLAYERS then
                (child, upd_queue (SetCompatibles (ConcatenateGuids (g # rest)) child) s1)
              else check_players V (g # rest) s1))
      else check_players V (g # rest) s)"

section \<open>Searching\<close>

text \<open>
  \<open>FindNewGroups\<close> and its loop share the list \<open>all\<close>: what a recursive call takes from it is gone for
  the caller. Every turn of the loop takes one guid, so the length of \<open>all\<close> bounds the recursion;
  \<open>fuel\<close> is that bound.
\<close>

definition start_search :: "lfg_view \<Rightarrow> guid list \<Rightarrow> queue_state \<Rightarrow> LfgCompatibility \<times> queue_state" where
  "start_search V check s =
     (let key = ConcatenateGuids check;
          cached = GetCompatibles (qs_queue s) key;
          (c, s1) = (if cached = LFG_COMPATIBILITY_PENDING then CheckCompatibility V check s
                     else (cached, s))
      in if c = LFG_COMPATIBLES_BAD_STATES \<and> AllQueued V check then
           (LFG_COMPATIBLES_MATCH, upd_queue (SetCompatibles key LFG_COMPATIBLES_MATCH) s1)
         else (c, s1))"

fun search_loop ::
  "nat \<Rightarrow> lfg_view \<Rightarrow> guid list \<Rightarrow> guid list \<Rightarrow> LfgCompatibility \<Rightarrow> queue_state
     \<Rightarrow> LfgCompatibility \<times> guid list \<times> queue_state" where
  "search_loop fuel V check [] c s = (c, [], s)"
| "search_loop 0 V check (x # all) c s = (c, x # all, s)"
| "search_loop (Suc fuel) V check (x # all) c s =
     (let (c1, s1) = start_search V (check @ [x]) s;
          (sub, all', s') = (if c1 \<noteq> LFG_COMPATIBLES_WITH_LESS_PLAYERS then (c1, all, s1)
                             else search_loop fuel V (check @ [x]) all c1 s1)
      in if sub = LFG_COMPATIBLES_MATCH then (LFG_COMPATIBLES_MATCH, all', s')
         else search_loop fuel V check all' c s')"

definition FindNewGroups ::
  "lfg_view \<Rightarrow> guid list \<Rightarrow> guid list \<Rightarrow> queue_state \<Rightarrow> LfgCompatibility \<times> guid list \<times> queue_state" where
  "FindNewGroups V check all s =
     (let (c, s1) = start_search V check s
      in if c \<noteq> LFG_COMPATIBLES_WITH_LESS_PLAYERS then (c, all, s1)
         else search_loop (length all) V check all c s1)"

text \<open>\<open>FindGroups\<close>: every turn takes the guids equal to the first one from the new queue.\<close>

definition find_group :: "lfg_view \<Rightarrow> guid \<Rightarrow> queue_state \<Rightarrow> u8 \<times> queue_state" where
  "find_group V g s =
     (let s1 = upd_queue (RemoveFromNewQueue g) s;
          (c, rest, s2) = FindNewGroups V [g] (currentQueueStore (qs_queue s1)) s1
      in if c = LFG_COMPATIBLES_MATCH then (1, s2) else (0, upd_queue (AddToCurrentQueue g) s2))"


subsection \<open>The turns take guids away from the new queue\<close>

lemma newToQueue_simps [simp]:
  "newToQueueStore (SetCompatibles k c q) = newToQueueStore q"
  "newToQueueStore (SetCompatibilityData k d q) = newToQueueStore q"
  "newToQueueStore (RemoveFromCompatibles g q) = newToQueueStore q"
  "newToQueueStore (UpdateBestCompatibleInQueue g k r q) = newToQueueStore q"
  "newToQueueStore (RemoveFromCurrentQueue g q) = newToQueueStore q"
  "newToQueueStore (AddToCurrentQueue g q) = newToQueueStore q"
  by (simp_all add: SetCompatibles_def SetCompatibilityData_def RemoveFromCompatibles_def
      UpdateBestCompatibleInQueue_def RemoveFromCurrentQueue_def AddToCurrentQueue_def Let_def
      split: option.splits)

lemma newToQueue_FindBest [simp]: "newToQueueStore (FindBestCompatibleInQueue g q) = newToQueueStore q"
  unfolding FindBestCompatibleInQueue_def by (rule foldl_invariant) auto

lemma newToQueue_forget [simp]: "newToQueueStore (forget_best g h q) = newToQueueStore q"
  by (simp add: forget_best_def split: option.splits)

lemma newToQueue_RemoveFromQueue [simp]:
  "newToQueueStore (RemoveFromQueue g q) = filter (\<lambda>h. h \<noteq> g) (newToQueueStore q)"
proof -
  let ?q = "RemoveFromCompatibles g (RemoveFromCurrentQueue g (RemoveFromNewQueue g q))"
  have "newToQueueStore (foldl (\<lambda>q h. forget_best g h q) ?q hs) = newToQueueStore ?q" for hs
    by (rule foldl_invariant) auto
  then show ?thesis by (simp add: RemoveFromQueue_def Let_def RemoveFromNewQueue_def)
qed


subsection \<open>The outcomes of a check\<close>

definition scan0 :: scan_state where
  "scan0 = \<lparr>sc_groups = [], sc_players = 0, sc_lfgGroups = 0, sc_group = 0\<rparr>"

text \<open>Five players in at most one dungeon finder group, with the roles and the dungeons they share.\<close>

definition full_match ::
  "lfg_view \<Rightarrow> LFGQueue \<Rightarrow> guid list \<Rightarrow> scan_state \<Rightarrow> LfgRolesMap \<Rightarrow> u32 list \<Rightarrow> bool" where
  "full_match V q check sc roles dungeons \<longleftrightarrow>
     scan_check V q check scan0 = Inr sc \<and> sc_players sc = MAXGROUPSIZE \<and> \<not> sc_lfgGroups sc > 1 \<and>
     (if length check > 1 then
        sc_players sc - of_nat (length (gather_roles V q check)) = 0 \<and>
        CheckGroupRoles (gather_roles V q check) = (True, roles) \<and>
        dungeons = common_dungeons q check \<and> dungeons \<noteq> []
      else
        roles = snd (CheckGroupRoles (qd_roles (queue_data q (hd check)))) \<and>
        dungeons = qd_dungeons (queue_data q (hd check)))"

text \<open>The outcome is final, with the cache entry of the combination as the only change.\<close>

definition incompatible_outcome :: "lfg_view \<Rightarrow> guid list \<Rightarrow> queue_state \<Rightarrow> bool" where
  "incompatible_outcome V check s \<longleftrightarrow>
     (\<exists>c. c < LFG_COMPATIBLES_WITH_LESS_PLAYERS \<and> c \<noteq> LFG_COMPATIBILITY_PENDING
        \<and> check_players V check s = (c, upd_queue (SetCompatibles (ConcatenateGuids check) c) s))"

lemma incompatible_outcomeI:
  "check_players V check s = (c, upd_queue (SetCompatibles (ConcatenateGuids check) c) s)
   \<Longrightarrow> compat_val c < 7 \<Longrightarrow> compat_val c \<noteq> 0 \<Longrightarrow> incompatible_outcome V check s"
  unfolding incompatible_outcome_def less_LfgCompatibility_def
  by (rule exI[of _ c]) (cases c; simp)

definition less_outcome :: "lfg_view \<Rightarrow> guid list \<Rightarrow> queue_state \<Rightarrow> bool" where
  "less_outcome V check s \<longleftrightarrow>
     (\<exists>gs roles. check_players V check s = (LFG_COMPATIBLES_WITH_LESS_PLAYERS,
         upd_queue (\<lambda>q. SetCompatibilityData (ConcatenateGuids check)
           \<lparr>cd_compatibility = LFG_COMPATIBLES_WITH_LESS_PLAYERS, cd_roles = roles\<rparr>
           (foldl (\<lambda>q g. UpdateBestCompatibleInQueue g (ConcatenateGuids check) roles q) q gs)) s))"

lemma check_players_five:
  assumes "scan_check V (qs_queue s) check scan0 = Inr sc" and "sc_players sc = MAXGROUPSIZE"
    and "\<not> sc_lfgGroups sc > 1"
  shows "incompatible_outcome V check s \<or>
    (\<exists>roles dungeons. full_match V (qs_queue s) check sc roles dungeons
       \<and> check_players V check s = propose V check sc roles dungeons s)"
proof (cases "length check > 1")
  case True
  let ?G = "gather_roles V (qs_queue s) check" and ?D = "common_dungeons (qs_queue s) check"
  obtain fits roles where r: "CheckGroupRoles ?G = (fits, roles)" by (cases "CheckGroupRoles ?G")
  consider (bad) c where "check_players V check s = (c, upd_queue (SetCompatibles (ConcatenateGuids check) c) s)"
      "compat_val c < 7" "compat_val c \<noteq> 0"
    | (full) "sc_players sc - of_nat (length ?G) = 0" "fits" "?D \<noteq> []"
  proof -
    consider "sc_players sc - of_nat (length ?G) \<noteq> 0"
      | "sc_players sc - of_nat (length ?G) = 0" "\<not> fits"
      | "sc_players sc - of_nat (length ?G) = 0" "fits" "?D = []"
      | "sc_players sc - of_nat (length ?G) = 0" "fits" "?D \<noteq> []"
      by blast
    then show thesis
      by cases (use assms r True that in \<open>auto simp: check_players_def scan0_def Let_def\<close>)
  qed
  then show ?thesis
  proof cases
    case full
    with assms r True have "full_match V (qs_queue s) check sc roles ?D"
      "check_players V check s = propose V check sc roles ?D s"
      by (simp_all add: full_match_def check_players_def scan0_def Let_def)
    then show ?thesis by blast
  qed (use incompatible_outcomeI in blast)
next
  case False
  let ?d = "queue_data (qs_queue s) (hd check)"
  from False assms have
    "full_match V (qs_queue s) check sc (snd (CheckGroupRoles (qd_roles ?d))) (qd_dungeons ?d)"
    "check_players V check s = propose V check sc (snd (CheckGroupRoles (qd_roles ?d))) (qd_dungeons ?d) s"
    by (auto simp: full_match_def check_players_def scan0_def Let_def)
  then show ?thesis by blast
qed

lemma check_players_other:
  assumes scan: "scan_check V (qs_queue s) check scan0 = Inr sc"
    and other: "sc_players sc \<noteq> MAXGROUPSIZE \<or> sc_lfgGroups sc > 1"
  shows "incompatible_outcome V check s \<or> less_outcome V check s"
proof -
  let ?G = "gather_roles V (qs_queue s) check" and ?D = "common_dungeons (qs_queue s) check"
  obtain fits roles where r: "CheckGroupRoles ?G = (fits, roles)" by (cases "CheckGroupRoles ?G")
  note eqs = check_players_def[of V check s, folded scan0_def, unfolded scan Let_def sum.case r prod.case]
  consider (bad) c where "check_players V check s = (c, upd_queue (SetCompatibles (ConcatenateGuids check) c) s)"
      "compat_val c < 7" "compat_val c \<noteq> 0"
    | (single) "length check = 1" "sc_players sc \<noteq> MAXGROUPSIZE"
    | (fit) "length check > 1" "\<not> sc_lfgGroups sc > 1" "\<not> sc_players sc > MAXGROUPSIZE"
        "sc_players sc - of_nat (length ?G) = 0" "fits" "?D \<noteq> []"
    | (none) "check = []" "\<not> sc_lfgGroups sc > 1" "\<not> sc_players sc > MAXGROUPSIZE"
  proof -
    have length_split: "length check = 1 \<or> length check > 1 \<or> check = []" by (cases check; cases "tl check") auto
    consider "length check = 1" "sc_players sc \<noteq> MAXGROUPSIZE"
      | "\<not> (length check = 1 \<and> sc_players sc \<noteq> MAXGROUPSIZE)" "sc_lfgGroups sc > 1"
      | "length check \<noteq> 1" "\<not> sc_lfgGroups sc > 1" "sc_players sc > MAXGROUPSIZE"
      | "length check > 1" "\<not> sc_lfgGroups sc > 1" "\<not> sc_players sc > MAXGROUPSIZE"
          "sc_players sc - of_nat (length ?G) \<noteq> 0"
      | "length check > 1" "\<not> sc_lfgGroups sc > 1" "\<not> sc_players sc > MAXGROUPSIZE"
          "sc_players sc - of_nat (length ?G) = 0" "\<not> fits"
      | "length check > 1" "\<not> sc_lfgGroups sc > 1" "\<not> sc_players sc > MAXGROUPSIZE"
          "sc_players sc - of_nat (length ?G) = 0" "fits" "?D = []"
      | "length check > 1" "\<not> sc_lfgGroups sc > 1" "\<not> sc_players sc > MAXGROUPSIZE"
          "sc_players sc - of_nat (length ?G) = 0" "fits" "?D \<noteq> []"
      | "check = []" "\<not> sc_lfgGroups sc > 1" "\<not> sc_players sc > MAXGROUPSIZE"
      using other length_split by argo
    then show thesis
      by cases (use that in \<open>auto simp: eqs\<close>)
  qed
  then show ?thesis
  proof cases
    case bad
    with incompatible_outcomeI show ?thesis by blast
  next
    case single
    then have "less_outcome V check s" unfolding less_outcome_def
      by (intro exI[of _ "[hd check]"] exI) (simp add: eqs)
    then show ?thesis ..
  next
    case fit
    then have "less_outcome V check s" unfolding less_outcome_def
      by (intro exI[of _ check] exI[of _ roles])
        (use other in \<open>auto simp: eqs propose_def Let_def\<close>)
    then show ?thesis ..
  next
    case none
    then have "less_outcome V check s" unfolding less_outcome_def
      by (intro exI[of _ "[]"] exI) (use eqs other in \<open>auto simp: propose_def Let_def\<close>)
    then show ?thesis ..
  qed
qed

lemma scan_check_missing:
  "scan_check V q gs sc = Inl g \<Longrightarrow> smap_find (QueueDataStore q) g = None"
  by (induction gs arbitrary: sc) (auto split: if_splits option.splits)

lemma check_players_cases:
  obtains (gone) g where "smap_find (QueueDataStore (qs_queue s)) g = None"
      "check_players V check s = (LFG_COMPATIBILITY_PENDING, upd_queue (RemoveFromQueue g) s)"
  | (incompatible) "incompatible_outcome V check s"
  | (less) "less_outcome V check s"
  | (full) sc roles dungeons where "full_match V (qs_queue s) check sc roles dungeons"
      "check_players V check s = propose V check sc roles dungeons s"
proof (cases "scan_check V (qs_queue s) check scan0")
  case (Inl g)
  then show ?thesis
    using gone[of g] scan_check_missing[OF Inl] by (simp add: check_players_def scan0_def)
next
  case (Inr sc)
  show ?thesis
  proof (cases "sc_players sc = MAXGROUPSIZE \<and> \<not> sc_lfgGroups sc > 1")
    case True
    with check_players_five[OF Inr] incompatible full show ?thesis by blast
  next
    case False
    with check_players_other[OF Inr] incompatible less show ?thesis by blast
  qed
qed

end
