(* ===== verification/LFGSearch.thy ===== *)
theory LFGSearch
  imports LFGQueue
begin

text \<open>
  The loop of \<open>FindNewGroups\<close>, the turns of \<open>LFGQueue::FindGroups\<close>, and what a search promises: a contract for the relations every
  step keeps, the proposals it makes, the players it keeps in the queue, and the combinations it
  misses or proposes twice.
\<close>

section \<open>The loop and its fuel\<close>

lemma search_loop_shorter:
  "search_loop fuel V check all c s = (sub, rest, t) \<Longrightarrow> length rest \<le> length all"
proof (induction fuel arbitrary: check all c s sub rest t)
  case 0
  then show ?case by (cases all) simp_all
next
  case (Suc fuel)
  show ?case
  proof (cases all)
    case (Cons x xs)
    obtain c1 s1 where start: "start_search V (check @ [x]) s = (c1, s1)"
      by (cases "start_search V (check @ [x]) s")
    obtain sub' all' s' where loop: "(if c1 \<noteq> LFG_COMPATIBLES_WITH_LESS_PLAYERS then (c1, xs, s1)
        else search_loop fuel V (check @ [x]) xs c1 s1) = (sub', all', s')" by (metis prod_cases3)
    have "length all' \<le> length xs" using loop Suc.IH by (auto split: if_splits)
    moreover have "(sub, rest) = (LFG_COMPATIBLES_MATCH, all') \<or> search_loop fuel V check all' c s' = (sub, rest, t)"
      using Suc.prems loop by (cases "c1 = LFG_COMPATIBLES_WITH_LESS_PLAYERS") (auto simp: Cons start split: if_splits)
    ultimately show ?thesis using Suc.IH[of check all' c s'] by (auto simp: Cons dest: le_SucI)
  qed (use Suc.prems in simp)
qed

text \<open>The length of the list is enough, and more fuel changes nothing.\<close>

lemma search_loop_fuel:
  "length all \<le> fuel \<Longrightarrow> search_loop fuel V check all c s = search_loop (length all) V check all c s"
proof (induction "length all" arbitrary: fuel check all c s rule: less_induct)
  case less
  show ?case
  proof (cases all)
    case (Cons x xs)
    then obtain n where n: "fuel = Suc n" "length xs \<le> n" using less.prems by (cases fuel) auto
    obtain c1 s1 where start: "start_search V (check @ [x]) s = (c1, s1)"
      by (cases "start_search V (check @ [x]) s")
    have inner: "search_loop n V (check @ [x]) xs c1 s1 = search_loop (length xs) V (check @ [x]) xs c1 s1"
      using n(2) by (intro less.hyps) (simp_all add: Cons)
    obtain sub' all' s' where loop: "(if c1 \<noteq> LFG_COMPATIBLES_WITH_LESS_PLAYERS then (c1, xs, s1)
        else search_loop (length xs) V (check @ [x]) xs c1 s1) = (sub', all', s')" by (metis prod_cases3)
    have short: "length all' \<le> length xs" using loop search_loop_shorter by (auto split: if_splits)
    then have "search_loop n V check all' c s' = search_loop (length all') V check all' c s'"
      "search_loop (length xs) V check all' c s' = search_loop (length all') V check all' c s'"
      using n(2) by (auto intro!: less.hyps simp: Cons)
    then show ?thesis
      using loop inner by (cases "c1 = LFG_COMPATIBLES_WITH_LESS_PLAYERS") (auto simp: Cons n(1) start)
  qed simp
qed

text \<open>So the loop is the one of the code, in which each round calls the whole search again.\<close>

lemma search_loop_equation:
  "search_loop (length (x # all)) V check (x # all) c s =
     (let (sub, all', s') = FindNewGroups V (check @ [x]) all s
      in if sub = LFG_COMPATIBLES_MATCH then (LFG_COMPATIBLES_MATCH, all', s')
         else search_loop (length all') V check all' c s')"
proof -
  obtain c1 s1 where start: "start_search V (check @ [x]) s = (c1, s1)"
    by (cases "start_search V (check @ [x]) s")
  obtain sub' all' s' where loop: "FindNewGroups V (check @ [x]) all s = (sub', all', s')"
    by (metis prod_cases3)
  then have "length all' \<le> length all"
    using search_loop_shorter by (auto simp: FindNewGroups_def start split: if_splits)
  then show ?thesis
    using loop search_loop_fuel[of all' "length all"] by (auto simp: FindNewGroups_def start split: if_splits)
qed

section \<open>Relations every step of the search keeps\<close>

text \<open>
  A reflexive and transitive relation on the states of the queue that holds for each elementary change
  holds for the whole search. \<open>R_full\<close> is about the proposal, and the cached answer when a player is
  not in the queued state; \<open>R_turn\<close> about the answer that becomes a match when they all are.
\<close>

lemma upd_queue_comp: "upd_queue (\<lambda>q. f (g q)) s = upd_queue f (upd_queue g s)"
  by (simp add: upd_queue_def)

lemma qs_queue_upd [simp]: "qs_queue (upd_queue f s) = f (qs_queue s)"
  "qs_proposals (upd_queue f s) = qs_proposals s" "qs_lastId (upd_queue f s) = qs_lastId s"
  by (simp_all add: upd_queue_def)

lemma check_players_bad:
  "fst (check_players V check s) = LFG_COMPATIBLES_BAD_STATES \<Longrightarrow> \<not> AllQueued V check"
  by (cases rule: check_players_cases[of s V check])
    (auto simp: incompatible_outcome_def less_outcome_def less_LfgCompatibility_def propose_def
      Let_def split: if_splits)

lemma CheckCompatibility_bad:
  "fst (CheckCompatibility V check s) = LFG_COMPATIBLES_BAD_STATES \<Longrightarrow> \<not> AllQueued V check"
  by (induction V check s rule: CheckCompatibility.induct)
    (auto dest: check_players_bad simp: less_LfgCompatibility_def split: if_splits prod.splits)

text \<open>A full match is proposed, or not all of its players are in the queued state.\<close>

lemma propose_full:
  assumes "full_match V q check sc roles dungeons"
  shows "propose V check sc roles dungeons s =
    (let key = ConcatenateGuids check; newId = qs_lastId s + 1
     in if \<not> AllQueued V check then
          (LFG_COMPATIBLES_BAD_STATES, upd_queue (SetCompatibles key LFG_COMPATIBLES_BAD_STATES) s)
        else (LFG_COMPATIBLES_MATCH,
          s\<lparr>qs_queue := SetCompatibles key LFG_COMPATIBLES_MATCH
              (foldl (\<lambda>q g. RemoveFromCurrentQueue g (RemoveFromNewQueue g q)) (qs_queue s) check),
            qs_lastId := newId,
            qs_proposals := make_proposal V check sc roles dungeons newId # qs_proposals s\<rparr>))"
  using assms by (simp add: propose_def full_match_def upd_queue_def Let_def)

locale queue_relation =
  fixes V :: lfg_view and R :: "queue_state \<Rightarrow> queue_state \<Rightarrow> bool"
  assumes R_refl: "R s s"
    and R_trans: "R s t \<Longrightarrow> R t u \<Longrightarrow> R s u"
    and R_gone: "smap_find (QueueDataStore (qs_queue s)) g = None \<Longrightarrow> R s (upd_queue (RemoveFromQueue g) s)"
    and R_incompatible: "c < LFG_COMPATIBLES_WITH_LESS_PLAYERS \<Longrightarrow> R s (upd_queue (SetCompatibles key c) s)"
    and R_less: "R s (upd_queue (SetCompatibilityData key
       \<lparr>cd_compatibility = LFG_COMPATIBLES_WITH_LESS_PLAYERS, cd_roles = roles\<rparr>) s)"
    and R_best: "R s (upd_queue (UpdateBestCompatibleInQueue g key roles) s)"
    and R_full: "full_match V (qs_queue s) check sc roles dungeons \<Longrightarrow>
       R s (snd (propose V check sc roles dungeons s))"
    and R_turn: "GetCompatibles (qs_queue s) (ConcatenateGuids check) = LFG_COMPATIBLES_BAD_STATES \<Longrightarrow>
       AllQueued V check \<Longrightarrow>
       R s (upd_queue (SetCompatibles (ConcatenateGuids check) LFG_COMPATIBLES_MATCH) s)"
begin

lemma best_all: "R s (upd_queue (\<lambda>q. foldl (\<lambda>q g. UpdateBestCompatibleInQueue g key roles q) q gs) s)"
proof (induction gs arbitrary: s)
  case Nil
  then show ?case by (simp add: upd_queue_def R_refl)
next
  case (Cons g gs)
  show ?case using R_trans[OF R_best[of s g key roles] Cons] by (simp add: upd_queue_def)
qed

lemma check_players_R: "R s (snd (check_players V check s))"
proof (cases rule: check_players_cases[of s V check])
  case gone
  then show ?thesis by (simp add: R_gone)
next
  case incompatible
  then show ?thesis by (auto simp: incompatible_outcome_def R_incompatible)
next
  case less
  then obtain gs roles where "snd (check_players V check s) =
      upd_queue (\<lambda>q. SetCompatibilityData (ConcatenateGuids check)
           \<lparr>cd_compatibility = LFG_COMPATIBLES_WITH_LESS_PLAYERS, cd_roles = roles\<rparr>
           (foldl (\<lambda>q g. UpdateBestCompatibleInQueue g (ConcatenateGuids check) roles q) q gs)) s"
    by (auto simp: less_outcome_def)
  with R_trans[OF best_all R_less] show ?thesis by (simp add: upd_queue_def)
next
  case full
  then show ?thesis by (simp add: R_full)
qed

lemma CheckCompatibility_R: "R s (snd (CheckCompatibility V check s))"
proof (induction check arbitrary: s)
  case (Cons g rest)
  obtain child s1 where c: "CheckCompatibility V rest s = (child, s1)" by (cases "CheckCompatibility V rest s")
  then have "R s s1" using Cons[of s] by simp
  then show ?case
    using c R_trans[OF \<open>R s s1\<close> check_players_R] R_trans[OF \<open>R s s1\<close> R_incompatible]
    by (auto simp: R_refl check_players_R)
qed (simp add: R_refl)

lemma start_search_R: "R s (snd (start_search V check s))"
proof (cases "GetCompatibles (qs_queue s) (ConcatenateGuids check) = LFG_COMPATIBILITY_PENDING")
  case True
  then show ?thesis
    using CheckCompatibility_R[of s check] CheckCompatibility_bad[of V check s]
    by (auto simp: start_search_def Let_def split: prod.splits)
next
  case False
  then show ?thesis by (auto simp: start_search_def Let_def R_refl R_turn)
qed

lemma search_loop_R: "R s (snd (snd (search_loop fuel V check all c s)))"
proof (induction fuel arbitrary: check all c s)
  case 0
  then show ?case by (cases all) (simp_all add: R_refl)
next
  case (Suc fuel)
  show ?case
  proof (cases all)
    case (Cons x xs)
    obtain c1 s1 where start: "start_search V (check @ [x]) s = (c1, s1)"
      by (cases "start_search V (check @ [x]) s")
    have one: "R s s1" using start_search_R[of s "check @ [x]"] start by simp
    obtain sub all' s' where loop: "(if c1 \<noteq> LFG_COMPATIBLES_WITH_LESS_PLAYERS then (c1, xs, s1)
        else search_loop fuel V (check @ [x]) xs c1 s1) = (sub, all', s')" by (metis prod_cases3)
    have "R s1 s'" using loop Suc[of s1 "check @ [x]" xs c1] by (auto simp: R_refl split: if_splits)
    with one have two: "R s s'" by (rule R_trans)
    show ?thesis
      using two R_trans[OF two Suc[of s' check all' c]] by (simp add: Cons start loop del: if_not_P if_P)
  qed (simp add: R_refl)
qed

lemma FindNewGroups_R: "R s (snd (snd (FindNewGroups V check all s)))"
  using start_search_R[of s check] R_trans[OF start_search_R[of s check] search_loop_R]
  by (auto simp: FindNewGroups_def split: prod.splits)

end

section \<open>The turns\<close>

text \<open>The search never adds to the new queue.\<close>

definition new_shrinks :: "queue_state \<Rightarrow> queue_state \<Rightarrow> bool" where
  "new_shrinks s t \<longleftrightarrow> length (newToQueueStore (qs_queue t)) \<le> length (newToQueueStore (qs_queue s))"

lemma new_shrinks_drop:
  "length (newToQueueStore (foldl (\<lambda>q g. RemoveFromCurrentQueue g (RemoveFromNewQueue g q)) q check))
   \<le> length (newToQueueStore q)"
  by (rule foldl_invariant) (auto simp: RemoveFromNewQueue_def intro: le_trans[OF length_filter_le])

interpretation shrink: queue_relation V new_shrinks for V
  by unfold_locales
    (auto simp: new_shrinks_def propose_full Let_def length_filter_le new_shrinks_drop)

text \<open>\<open>FindGroups\<close>: the number of proposals it counts is a \<open>uint8\<close>.\<close>

function FindGroups :: "lfg_view \<Rightarrow> queue_state \<Rightarrow> u8 \<times> queue_state" where
  "FindGroups V s =
     (case newToQueueStore (qs_queue s) of
        [] \<Rightarrow> (0, s)
      | g # _ \<Rightarrow>
          (case find_group V g s of
             (n, s1) \<Rightarrow> (case FindGroups V s1 of (m, s2) \<Rightarrow> (n + m, s2))))"
  by pat_completeness auto

lemma find_group_shrinks:
  assumes "newToQueueStore (qs_queue s) = g # gs"
  shows "length (newToQueueStore (qs_queue (snd (find_group V g s)))) < length (newToQueueStore (qs_queue s))"
proof -
  let ?s = "upd_queue (RemoveFromNewQueue g) s"
  have "length (newToQueueStore (qs_queue ?s)) \<le> length gs"
    using assms by (simp add: RemoveFromNewQueue_def length_filter_le)
  then show ?thesis
    using shrink.FindNewGroups_R[of ?s V "[g]" "currentQueueStore (qs_queue ?s)"] assms
    by (auto simp: find_group_def new_shrinks_def Let_def split: prod.splits)
qed

termination FindGroups
proof (relation "measure (\<lambda>(V, s). length (newToQueueStore (qs_queue s)))")
  fix V s g gs n s1
  assume "newToQueueStore (qs_queue s) = g # gs" and "(n, s1) = find_group V g s"
  then show "((V, s1), V, s) \<in> measure (\<lambda>(V, s). length (newToQueueStore (qs_queue s)))"
    using find_group_shrinks[of s g gs V] by (simp add: prod_eq_iff)
qed simp

declare FindGroups.simps [simp del, code]

text \<open>The contract of a relation that also holds for a whole turn.\<close>

locale queue_turns = queue_relation +
  assumes R_group: "newToQueueStore (qs_queue s) = g # gs \<Longrightarrow> R s (snd (find_group V g s))"
begin

lemma FindGroups_R: "R s (snd (FindGroups V s))"
proof (induction "length (newToQueueStore (qs_queue s))" arbitrary: s rule: less_induct)
  case less
  show ?case
  proof (cases "newToQueueStore (qs_queue s)")
    case Nil
    then show ?thesis by (simp add: FindGroups.simps R_refl)
  next
    case (Cons g gs)
    obtain n s1 where one: "find_group V g s = (n, s1)" by (cases "find_group V g s")
    have "R s s1" using R_group[OF Cons] one by simp
    moreover have "R s1 (snd (FindGroups V s1))"
      by (rule less) (use find_group_shrinks[OF Cons, of V] one in simp)
    ultimately show ?thesis
      using Cons one by (subst FindGroups.simps) (auto intro: R_trans split: prod.splits)
  qed
qed

end

lemma FindGroups_empties: "newToQueueStore (qs_queue (snd (FindGroups V s))) = []"
proof (induction V s rule: FindGroups.induct)
  case (1 V s)
  then show ?case
    by (subst FindGroups.simps) (auto split: list.splits prod.splits, metis snd_conv)
qed

end
