(* ===== verification/LFGMatch.thy ===== *)
theory LFGMatch
  imports LFGSearch
begin

text \<open>
  The proposals of the dungeon finder queue: five players with one role each, in a dungeon they all
  asked for; and the combinations the search misses or proposes twice.
\<close>

section \<open>What a proposal promises\<close>

text \<open>What the search reads of a queue entry: its dungeons and the roles of its players.\<close>

definition entry :: "LFGQueue \<Rightarrow> guid \<Rightarrow> (u32 list \<times> LfgRolesMap) option" where
  "entry q g = map_option (\<lambda>d. (qd_dungeons d, qd_roles d)) (smap_find (QueueDataStore q) g)"

text \<open>
  What joining the finder makes sure of: at most five players with one entry each, roles that fit when
  the group is full, and a dungeon.
\<close>

definition roles_ok :: "(guid \<Rightarrow> (u32 list \<times> LfgRolesMap) option) \<Rightarrow> bool" where
  "roles_ok E \<longleftrightarrow> (\<forall>g ds rs. E g = Some (ds, rs) \<longrightarrow>
     smap_inv rs \<and> length rs \<le> 5 \<and> (length rs = 5 \<longrightarrow> fst (CheckGroupRoles rs)))"

definition entries_ok :: "(guid \<Rightarrow> (u32 list \<times> LfgRolesMap) option) \<Rightarrow> bool" where
  "entries_ok E \<longleftrightarrow> roles_ok E \<and> (\<forall>g ds rs. E g = Some (ds, rs) \<longrightarrow> ds \<noteq> [])"

definition pr_roles :: "LfgProposal \<Rightarrow> u8 list" where
  "pr_roles pr = map (\<lambda>(p, d). pp_role d AND NOT PLAYER_ROLE_LEADER) (pr_players pr)"

definition one_role_each :: "LfgProposal \<Rightarrow> bool" where
  "one_role_each pr \<longleftrightarrow> length (pr_players pr) = 5 \<and> smap_inv (pr_players pr)
     \<and> count_list (pr_roles pr) PLAYER_ROLE_TANK = 1 \<and> count_list (pr_roles pr) PLAYER_ROLE_HEALER = 1
     \<and> count_list (pr_roles pr) PLAYER_ROLE_DAMAGE = 3"

definition asked_for :: "(guid \<Rightarrow> (u32 list \<times> LfgRolesMap) option) \<Rightarrow> LfgProposal \<Rightarrow> bool" where
  "asked_for E pr \<longleftrightarrow>
     (\<forall>g \<in> set (pr_queues pr). \<exists>ds rs. E g = Some (ds, rs) \<and> pr_dungeonId pr \<in> set ds
        \<and> (\<forall>(p, r) \<in> set rs. \<exists>d. (p, d) \<in> set (pr_players pr)
             \<and> can r (pp_role d AND NOT PLAYER_ROLE_LEADER)))"

text \<open>
  Players of a single entry came together, and the search does not ask whether they ignore each other. Of two players of
  different entries it asks in one order, which is enough because \<open>HasIgnore\<close> looks at both lists.
\<close>

definition nobody_ignored :: "lfg_view \<Rightarrow> LfgProposal \<Rightarrow> bool" where
  "nobody_ignored V pr \<longleftrightarrow> (length (pr_queues pr) \<noteq> 1 \<longrightarrow>
     (\<forall>p \<in> fst ` set (pr_players pr). \<forall>r \<in> fst ` set (pr_players pr). p \<noteq> r \<longrightarrow> \<not> Ignores V p r))"

definition asked_once :: "lfg_view \<Rightarrow> LfgProposal \<Rightarrow> bool" where
  "asked_once V pr \<longleftrightarrow> length (pr_queues pr) = 1 \<or>
     (\<forall>p \<in> fst ` set (pr_players pr). \<forall>r \<in> fst ` set (pr_players pr).
        p \<noteq> r \<longrightarrow> \<not> (Ignores V p r \<and> Ignores V r p))"

definition ignores_both_ways :: "lfg_view \<Rightarrow> bool" where
  "ignores_both_ways V \<longleftrightarrow> (\<forall>p r. Ignores V p r \<longleftrightarrow> Ignores V r p)"

lemma asked_once_enough: "ignores_both_ways V \<Longrightarrow> asked_once V pr \<Longrightarrow> nobody_ignored V pr"
  unfolding ignores_both_ways_def asked_once_def nobody_ignored_def by blast

definition good_proposal ::
  "lfg_view \<Rightarrow> (guid \<Rightarrow> (u32 list \<times> LfgRolesMap) option) \<Rightarrow> LfgProposal \<Rightarrow> bool" where
  "good_proposal V E pr \<longleftrightarrow> one_role_each pr \<and> asked_for E pr \<and> asked_once V pr
     \<and> (\<exists>d. (pr_leader pr, d) \<in> set (pr_players pr) \<and>
          (has_bits (pp_role d) PLAYER_ROLE_LEADER \<or>
           (\<forall>(p, d') \<in> set (pr_players pr). \<not> has_bits (pp_role d') PLAYER_ROLE_LEADER)))"

section \<open>The players of a combination\<close>

lemma scan_check_all:
  assumes "scan_check V q gs sc = Inr sc'" and "\<not> sc_lfgGroups sc' > 1" and "sc_players sc' \<le> 5"
    and "\<And>g d. smap_find (QueueDataStore q) g = Some d \<Longrightarrow> length (qd_roles d) \<le> 5"
  shows "(\<forall>g \<in> set gs. smap_find (QueueDataStore q) g \<noteq> None)
    \<and> unat (sc_players sc') = unat (sc_players sc) + length (concat (map (\<lambda>g. qd_roles (queue_data q g)) gs))"
  using assms(1)
proof (induction gs arbitrary: sc)
  case (Cons g gs)
  have go: "sc_lfgGroups sc < 2 \<and> sc_players sc \<le> MAXGROUPSIZE"
    using Cons.prems assms(2,3) by (auto simp: word_less_nat_alt split: if_splits)
  then obtain d where d: "smap_find (QueueDataStore q) g = Some d"
    and rest: "scan_check V q gs (scan_entry V g d sc) = Inr sc'"
    using Cons.prems by (auto split: option.splits)
  have "unat (sc_players sc + of_nat (length (qd_roles d))) = unat (sc_players sc) + length (qd_roles d)"
    using go assms(4)[OF d] by (subst unat_add_lem[THEN iffD1]) (auto simp: unat_of_nat word_le_nat_alt)
  then have "unat (sc_players (scan_entry V g d sc)) = unat (sc_players sc) + length (qd_roles d)"
    by (simp add: scan_entry_def Let_def)
  with Cons.IH[OF rest] d show ?case by (simp add: queue_data_def)
qed simp

text \<open>The players that ignore each other are not gathered; if nobody is missing, everybody is there.\<close>

definition no_ignores :: "lfg_view \<Rightarrow> LfgRolesMap \<Rightarrow> bool" where
  "no_ignores V m \<longleftrightarrow> (\<forall>a \<in> fst ` set m. \<forall>b \<in> fst ` set m. a \<noteq> b \<longrightarrow> \<not> (Ignores V a b \<and> Ignores V b a))"

lemma length_smap_put: "length (smap_put k v m) \<le> Suc (length m)"
  by (induction k v m rule: smap_put.induct) auto

lemma smap_put_new:
  "smap_inv m \<Longrightarrow> length (smap_put k v m) = Suc (length m) \<Longrightarrow> set (smap_put k v m) = insert (k, v) (set m)"
  by (induction k v m rule: smap_put.induct) (auto simp: smap_inv_def split: if_splits)

lemma no_ignores_add:
  assumes "no_ignores V m"
  shows "no_ignores V (add_player V m e)"
proof (cases "\<exists>x \<in> set m. fst e \<noteq> fst x \<and> Ignores V (fst e) (fst x)")
  case False
  then have "\<forall>a \<in> fst ` set m. fst e \<noteq> a \<longrightarrow> \<not> Ignores V (fst e) a" by auto
  moreover have "add_player V m e = smap_put (fst e) (snd e) m" using False by (auto simp: add_player_def)
  ultimately show ?thesis
    using assms unfolding no_ignores_def by (simp only: fst_smap_put) blast
qed (use assms in \<open>auto simp: add_player_def\<close>)

lemma add_players:
  assumes "smap_inv m"
  shows "length (foldl (add_player V) m rs) \<le> length m + length rs
    \<and> smap_inv (foldl (add_player V) m rs)
    \<and> (length (foldl (add_player V) m rs) = length m + length rs
        \<longrightarrow> set (foldl (add_player V) m rs) = set m \<union> set rs)"
  using assms
proof (induction rs arbitrary: m)
  case (Cons e rs)
  let ?m = "add_player V m e"
  have inv: "smap_inv ?m" using Cons.prems by (simp add: add_player_def smap_inv_put)
  have len: "length ?m \<le> Suc (length m)" by (simp add: add_player_def length_smap_put)
  have "set ?m = insert e (set m)" if "length ?m = Suc (length m)"
    using that smap_put_new[OF Cons.prems] by (auto simp: add_player_def split: if_splits)
  with Cons.IH[OF inv] len inv show ?case by auto
qed simp

lemma foldl_concat_map: "foldl (\<lambda>m g. foldl f m (h g)) m gs = foldl f m (concat (map h gs))"
  by (induction gs arbitrary: m) auto

lemma gather_roles_all:
  fixes q :: LFGQueue and gs :: "guid list"
  defines "rs \<equiv> concat (map (\<lambda>g. qd_roles (queue_data q g)) gs)"
  shows "length (gather_roles V q gs) \<le> length rs" and "smap_inv (gather_roles V q gs)"
    and "no_ignores V (gather_roles V q gs)"
    and "length (gather_roles V q gs) = length rs \<Longrightarrow> set (gather_roles V q gs) = set rs"
proof -
  have eq: "gather_roles V q gs = foldl (add_player V) [] rs"
    by (simp add: gather_roles_def rs_def foldl_concat_map)
  show "no_ignores V (gather_roles V q gs)"
    unfolding eq by (rule foldl_invariant) (simp_all add: no_ignores_add, simp add: no_ignores_def)
qed (use add_players[of "[]" V rs] in \<open>auto simp: gather_roles_def rs_def foldl_concat_map\<close>)

lemma common_dungeons_all:
  assumes "d \<in> set (common_dungeons q gs)" and "g \<in> set gs"
  shows "d \<in> set (qd_dungeons (queue_data q g))"
proof -
  have "d \<in> set (foldl (\<lambda>ds h. filter (\<lambda>d. d \<in> set (qd_dungeons (queue_data q h))) ds) ds hs)
    \<longleftrightarrow> d \<in> set ds \<and> (\<forall>h \<in> set hs. d \<in> set (qd_dungeons (queue_data q h)))" for ds hs
    by (induction hs arbitrary: ds) auto
  with assms show ?thesis by (auto simp: common_dungeons_def split: list.splits)
qed

section \<open>The roles of a proposal\<close>

lemma leader_clear: "b \<in> set role_bits \<Longrightarrow> ((v AND PLAYER_ROLE_LEADER) OR b) AND NOT PLAYER_ROLE_LEADER = b"
  by (rule bit_eqI) (use role_bit_low[of b] in \<open>auto simp: bit_simps bit_masks\<close>)

lemma chosen_props:
  assumes "choice m pick"
  shows "map fst (chosen m pick) = map fst m"
    and "map (\<lambda>(p, r). r AND NOT PLAYER_ROLE_LEADER) (chosen m pick) = pick"
    and "(p, v) \<in> set m \<Longrightarrow> \<exists>r. (p, r) \<in> set (chosen m pick) \<and> can v (r AND NOT PLAYER_ROLE_LEADER)"
proof -
  have all: "list_all2 (\<lambda>e b. can (snd e) b) m pick" using assms by (simp add: choice_def)
  then show "map fst (chosen m pick) = map fst m"
    unfolding chosen_def by (induction rule: list_all2_induct) auto
  from all show "map (\<lambda>(p, r). r AND NOT PLAYER_ROLE_LEADER) (chosen m pick) = pick"
    unfolding chosen_def
    by (induction rule: list_all2_induct) (auto simp: can_def leader_clear leader_clear[simplified])
  from all show "(p, v) \<in> set m \<Longrightarrow> \<exists>r. (p, r) \<in> set (chosen m pick) \<and> can v (r AND NOT PLAYER_ROLE_LEADER)"
    unfolding chosen_def
  proof (induction rule: list_all2_induct)
    case (Cons e m b pick)
    then show ?case
      using leader_clear[of b "snd e"] by (cases "e = (p, v)") (force simp: can_def)+
  qed simp
qed

definition fits_five :: "LfgRolesMap \<Rightarrow> LfgRolesMap \<Rightarrow> bool" where
  "fits_five m roles \<longleftrightarrow> map fst roles = map fst m \<and> length roles = 5
     \<and> (let rs = map (\<lambda>(p, r). r AND NOT PLAYER_ROLE_LEADER) roles
        in count_list rs PLAYER_ROLE_TANK = 1 \<and> count_list rs PLAYER_ROLE_HEALER = 1
          \<and> count_list rs PLAYER_ROLE_DAMAGE = 3)
     \<and> (\<forall>(p, v) \<in> set m. \<exists>r. (p, r) \<in> set roles \<and> can v (r AND NOT PLAYER_ROLE_LEADER))"

lemma CheckGroupRoles_five:
  assumes "length m = 5" and "CheckGroupRoles m = (True, roles)"
  shows "fits_five m roles"
proof -
  have "answers m (True, roles)" using CheckGroupRoles_answers[of m] assms by simp
  then obtain pick where c: "choice m pick" and r: "roles = chosen m pick" by (auto simp: answers_def)
  have len: "length pick = 5" using choice_length[OF c] assms(1) by simp
  have "set pick \<subseteq> set role_bits"
    using c by (auto simp: choice_def can_def list_all2_conv_all_nth in_set_conv_nth)
  from count_roles[OF this] len c
  have "count_list pick 2 = 1" "count_list pick 4 = 1" "count_list pick 8 = 3"
    by (auto simp: choice_def)
  moreover have "length roles = 5"
    using chosen_props(1)[OF c] r assms(1) by (metis length_map)
  ultimately show ?thesis
    using chosen_props[OF c] r unfolding fits_five_def by auto
qed

lemma smap_put_end:
  "sorted_wrt (<) (map fst m @ [k]) \<Longrightarrow> smap_put k v m = m @ [(k, v)]"
  by (induction k v m rule: smap_put.induct) auto

lemma assign_players_roles:
  "sorted_wrt (<) (map fst (pr_players pr) @ map fst m) \<Longrightarrow>
   map (\<lambda>(p, d). (p, pp_role d)) (pr_players (assign_players V groups m leader pr)) =
     map (\<lambda>(p, d). (p, pp_role d)) (pr_players pr) @ m"
proof (induction V groups m leader pr rule: assign_players.induct)
  case (2 V groups p r m leader pr)
  then have "sorted_wrt (<) (map fst (pr_players pr) @ [p])" by (auto simp: sorted_wrt_append)
  with 2 show ?case by (simp add: smap_put_end Let_def)
qed simp

lemma assign_players_fields [simp]:
  "pr_queues (assign_players V groups m leader pr) = pr_queues pr"
  "pr_dungeonId (assign_players V groups m leader pr) = pr_dungeonId pr"
  "pr_group (assign_players V groups m leader pr) = pr_group pr"
  "pr_isNew (assign_players V groups m leader pr) = pr_isNew pr"
  by (induction V groups m leader pr rule: assign_players.induct) (simp_all add: Let_def)

text \<open>The leader is one of the players who asked to lead, if there is one.\<close>

definition leads :: "LfgRolesMap \<Rightarrow> guid \<Rightarrow> bool" where
  "leads m g \<longleftrightarrow> (\<exists>r. (g, r) \<in> set m \<and> has_bits r PLAYER_ROLE_LEADER)"

lemma leads_Nil [simp]: "\<not> leads [] g"
  by (simp add: leads_def)

lemma leads_Cons: "leads ((p, r) # m) g \<longleftrightarrow> (g = p \<and> has_bits r PLAYER_ROLE_LEADER) \<or> leads m g"
  by (auto simp: leads_def)

fun lead_of :: "(guid \<Rightarrow> bool) \<Rightarrow> LfgRolesMap \<Rightarrow> bool \<Rightarrow> guid \<Rightarrow> guid" where
  "lead_of coin [] leader l = l"
| "lead_of coin ((p, r) # m) leader l =
     (if has_bits r PLAYER_ROLE_LEADER then lead_of coin m True (if \<not> leader \<or> l = 0 \<or> coin p then p else l)
      else lead_of coin m leader (if \<not> leader \<and> (l = 0 \<or> coin p) then p else l))"

lemma assign_players_lead_of:
  "pr_leader (assign_players V groups m leader pr) = lead_of (draw_coin V (pr_id pr)) m leader (pr_leader pr)"
  by (induction V groups m leader pr rule: assign_players.induct) (simp_all add: Let_def)

lemma lead_of_leads: "lead_of coin m True l = l \<or> leads m (lead_of coin m True l)"
proof (induction m arbitrary: l)
  case (Cons e m)
  obtain p r where e: "e = (p, r)" by (cases e)
  show ?case using Cons[of p] Cons[of l] by (auto simp: e leads_Cons)
qed simp

lemma lead_of_player: "lead_of coin m leader l = l \<or> lead_of coin m leader l \<in> fst ` set m"
proof (induction m arbitrary: leader l)
  case (Cons e m)
  obtain p r where e: "e = (p, r)" by (cases e)
  let ?b = "has_bits r PLAYER_ROLE_LEADER"
  show ?case using Cons[of "leader \<or> ?b" p] Cons[of "leader \<or> ?b" l] by (auto simp: e del: imageE)
qed simp

lemma lead_of_first:
  assumes "m \<noteq> []"
  shows "leads m (lead_of coin m False 0) \<or> (\<nexists>g. leads m g) \<and> lead_of coin m False 0 \<in> fst ` set m"
proof -
  have "leads m (lead_of coin m False l)" if "\<exists>g. leads m g" for l
    using that
  proof (induction m arbitrary: l)
    case (Cons e m)
    obtain p r where e: "e = (p, r)" by (cases e)
    show ?case
    proof (cases "has_bits r PLAYER_ROLE_LEADER")
      case True
      then show ?thesis using lead_of_leads[of coin m p] by (auto simp: e leads_Cons)
    next
      case False
      with Cons.prems have "\<exists>g. leads m g" by (auto simp: e leads_Cons)
      then show ?thesis using Cons.IH False by (simp add: e leads_Cons)
    qed
  qed auto
  moreover have "lead_of coin m False 0 \<in> fst ` set m"
    using assms lead_of_player[of coin "tl m" _ "fst (hd m)"] by (cases m) (auto, metis+)
  ultimately show ?thesis by blast
qed

section \<open>Full matches\<close>

lemma fits_five_proposal:
  fixes V :: lfg_view and pr0 :: LfgProposal and groups :: "(guid \<times> guid) list" and roles :: LfgRolesMap
  defines "pr \<equiv> assign_players V groups roles False pr0"
  assumes fit: "fits_five m roles" and inv: "smap_inv m" and pr0: "pr_players pr0 = []" "pr_leader pr0 = 0"
  shows "one_role_each pr" and "fst ` set (pr_players pr) = fst ` set m"
    and "\<And>p v. (p, v) \<in> set m \<Longrightarrow> \<exists>d. (p, d) \<in> set (pr_players pr) \<and> can v (pp_role d AND NOT PLAYER_ROLE_LEADER)"
    and "\<exists>d. (pr_leader pr, d) \<in> set (pr_players pr) \<and> (has_bits (pp_role d) PLAYER_ROLE_LEADER \<or>
           (\<forall>(p, d') \<in> set (pr_players pr). \<not> has_bits (pp_role d') PLAYER_ROLE_LEADER))"
proof -
  have keys: "map fst roles = map fst m" "length roles = 5" using fit by (auto simp: fits_five_def)
  have eq: "map (\<lambda>(p, d). (p, pp_role d)) (pr_players pr) = roles"
    unfolding pr_def using keys inv pr0 by (subst assign_players_roles) (auto simp: smap_inv_def)
  have fsts: "map fst (pr_players pr) = map fst roles" unfolding eq[symmetric] by (simp add: split_def)
  have rs: "pr_roles pr = map (\<lambda>(p, r). r AND NOT PLAYER_ROLE_LEADER) roles"
    unfolding pr_roles_def eq[symmetric] by (simp add: split_def)
  have len: "length (pr_players pr) = 5" using fsts keys by (metis length_map)
  show "one_role_each pr"
    using fit len inv keys fsts unfolding one_role_each_def rs smap_inv_def fits_five_def Let_def by simp
  show "fst ` set (pr_players pr) = fst ` set m" using fsts keys by (metis list.set_map)
  have role: "(p, r) \<in> set roles \<longleftrightarrow> (\<exists>d. (p, d) \<in> set (pr_players pr) \<and> pp_role d = r)" for p r
    unfolding eq[symmetric] by force
  show "\<exists>d. (p, d) \<in> set (pr_players pr) \<and> can v (pp_role d AND NOT PLAYER_ROLE_LEADER)"
    if "(p, v) \<in> set m" for p v
    using fit that role unfolding fits_five_def by fastforce
  have "roles \<noteq> []" using keys by auto
  have "leads roles (pr_leader pr) \<or> (\<nexists>g. leads roles g) \<and> pr_leader pr \<in> fst ` set roles"
    unfolding pr_def assign_players_lead_of pr0 by (rule lead_of_first) fact
  then show "\<exists>d. (pr_leader pr, d) \<in> set (pr_players pr) \<and> (has_bits (pp_role d) PLAYER_ROLE_LEADER \<or>
           (\<forall>(p, d') \<in> set (pr_players pr). \<not> has_bits (pp_role d') PLAYER_ROLE_LEADER))"
    unfolding leads_def using role by fastforce
qed

lemma full_match_entries:
  assumes full: "full_match V q check sc roles dungeons" and ok: "roles_ok (entry q)"
  shows "\<forall>g \<in> set check. \<exists>d. smap_find (QueueDataStore q) g = Some d"
    and "length (concat (map (\<lambda>g. qd_roles (queue_data q g)) check)) = 5"
proof -
  have "length (qd_roles d) \<le> 5" if "smap_find (QueueDataStore q) g = Some d" for g d
    using ok that unfolding roles_ok_def entry_def by fastforce
  then have "(\<forall>g \<in> set check. smap_find (QueueDataStore q) g \<noteq> None)
    \<and> unat (sc_players sc) = unat (sc_players scan0) + length (concat (map (\<lambda>g. qd_roles (queue_data q g)) check))"
    using full unfolding full_match_def by (intro scan_check_all) auto
  then show "\<forall>g \<in> set check. \<exists>d. smap_find (QueueDataStore q) g = Some d"
    "length (concat (map (\<lambda>g. qd_roles (queue_data q g)) check)) = 5"
    using full by (auto simp: full_match_def scan0_def)
qed

text \<open>The players of a full match with the roles they asked for, and the roles they get.\<close>

lemma full_match_players:
  assumes full: "full_match V q check sc roles dungeons" and ok: "roles_ok (entry q)"
  shows "\<exists>m. smap_inv m \<and> fits_five m roles \<and> set m = set (concat (map (\<lambda>g. qd_roles (queue_data q g)) check))
    \<and> (length check = 1 \<or> no_ignores V m)"
proof (cases "length check > 1")
  case True
  let ?G = "gather_roles V q check"
  note all = gather_roles_all[of V q check]
  have "of_nat (length ?G) = (5 :: u8)" and roles: "CheckGroupRoles ?G = (True, roles)"
    using full True by (auto simp: full_match_def)
  moreover have "length ?G \<le> 5" using all(1) full_match_entries(2)[OF assms] by simp
  ultimately have "length ?G = 5" using of_nat_u8_eq[of "length ?G" 5] by simp
  with roles all full_match_entries(2)[OF assms] CheckGroupRoles_five[of ?G roles] show ?thesis
    by (intro exI[of _ ?G]) simp
next
  case False
  then obtain g where g: "check = [g]"
    using full_match_entries(2)[OF assms] by (cases check; cases "tl check") auto
  obtain d where d: "smap_find (QueueDataStore q) g = Some d" using full_match_entries(1)[OF assms] g by auto
  have five: "length (qd_roles d) = 5" using full_match_entries(2)[OF assms] g d by (simp add: queue_data_def)
  have "entry q g = Some (qd_dungeons d, qd_roles d)" by (simp add: entry_def d)
  then have "smap_inv (qd_roles d)" and "fst (CheckGroupRoles (qd_roles d))"
    using ok five unfolding roles_ok_def by auto
  moreover have "CheckGroupRoles (qd_roles d) = (True, roles)"
    using calculation full g d False by (auto simp: full_match_def queue_data_def prod_eq_iff)
  ultimately show ?thesis using CheckGroupRoles_five[OF five, of roles] g d by (auto simp: queue_data_def)
qed

lemma full_match_dungeons:
  assumes full: "full_match V q check sc roles dungeons" and "i \<in> set dungeons" and "g \<in> set check"
  shows "i \<in> set (qd_dungeons (queue_data q g))"
proof (cases "length check > 1")
  case True
  with assms show ?thesis by (auto simp: full_match_def common_dungeons_all)
next
  case False
  then have "check = [g]" using assms(3) by (cases check; cases "tl check") auto
  with full assms(2) False show ?thesis by (simp add: full_match_def)
qed

lemma full_match_nonempty:
  assumes full: "full_match V q check sc roles dungeons" and ok: "entries_ok (entry q)"
  shows "dungeons \<noteq> []"
proof (cases "length check > 1")
  case False
  have ok': "roles_ok (entry q)" using ok by (simp add: entries_ok_def)
  obtain g where g: "check = [g]"
    using full_match_entries(2)[OF full ok'] False by (cases check; cases "tl check") auto
  obtain d where d: "smap_find (QueueDataStore q) g = Some d" using full_match_entries(1)[OF full ok'] g by auto
  have "entry q g = Some (qd_dungeons d, qd_roles d)" by (simp add: entry_def d)
  then have "qd_dungeons d \<noteq> []" using ok unfolding entries_ok_def by blast
  with full g d show ?thesis by (simp add: full_match_def queue_data_def)
qed (use full in \<open>auto simp: full_match_def\<close>)

text \<open>Five players with one role each need no dungeon.\<close>

lemma full_match_proposal:
  fixes n :: u32
  assumes full: "full_match V q check sc roles dungeons" and ok: "roles_ok (entry q)"
  defines "pr \<equiv> make_proposal V check sc roles dungeons n"
  obtains m where "set m = set (concat (map (\<lambda>g. qd_roles (queue_data q g)) check))"
    "length check = 1 \<or> no_ignores V m"
    "one_role_each pr" "fst ` set (pr_players pr) = fst ` set m"
    "\<And>p v. (p, v) \<in> set m \<Longrightarrow> \<exists>d. (p, d) \<in> set (pr_players pr) \<and> can v (pp_role d AND NOT PLAYER_ROLE_LEADER)"
    "\<exists>d. (pr_leader pr, d) \<in> set (pr_players pr) \<and> (has_bits (pp_role d) PLAYER_ROLE_LEADER \<or>
           (\<forall>(p, d') \<in> set (pr_players pr). \<not> has_bits (pp_role d') PLAYER_ROLE_LEADER))"
proof -
  obtain m where m: "smap_inv m" "fits_five m roles"
    "set m = set (concat (map (\<lambda>g. qd_roles (queue_data q g)) check))" "length check = 1 \<or> no_ignores V m"
    using full_match_players[OF full ok] by blast
  show thesis
    by (rule that[OF m(3,4)]; unfold pr_def make_proposal_def; (rule fits_five_proposal[OF m(2,1)]; simp))
qed

lemma full_match_good:
  assumes full: "full_match V q check sc roles dungeons" and ok: "entries_ok (entry q)"
  shows "good_proposal V (entry q) (make_proposal V check sc roles dungeons n)"
proof -
  let ?pr = "make_proposal V check sc roles dungeons n"
  have ok': "roles_ok (entry q)" using ok by (simp add: entries_ok_def)
  obtain m where m: "set m = set (concat (map (\<lambda>g. qd_roles (queue_data q g)) check))"
    "length check = 1 \<or> no_ignores V m" and players: "one_role_each ?pr" "fst ` set (pr_players ?pr) = fst ` set m"
    "\<And>p v. (p, v) \<in> set m \<Longrightarrow> \<exists>d. (p, d) \<in> set (pr_players ?pr) \<and> can v (pp_role d AND NOT PLAYER_ROLE_LEADER)"
    "\<exists>d. (pr_leader ?pr, d) \<in> set (pr_players ?pr) \<and> (has_bits (pp_role d) PLAYER_ROLE_LEADER \<or>
           (\<forall>(p, d') \<in> set (pr_players ?pr). \<not> has_bits (pp_role d') PLAYER_ROLE_LEADER))"
    by (rule full_match_proposal[OF full ok']) blast
  have fields: "pr_queues ?pr = check" "pr_dungeonId ?pr \<in> set dungeons"
    using full_match_nonempty[OF assms] by (simp_all add: make_proposal_def)
  have "asked_for (entry q) ?pr" unfolding asked_for_def fields
  proof
    fix g
    assume g: "g \<in> set check"
    then obtain d where d: "smap_find (QueueDataStore q) g = Some d" using full_match_entries(1)[OF full ok'] by blast
    then have "entry q g = Some (qd_dungeons d, qd_roles d)" by (simp add: entry_def)
    moreover have "pr_dungeonId ?pr \<in> set (qd_dungeons d)"
      using full_match_dungeons[OF full fields(2) g] d by (simp add: queue_data_def)
    moreover have "(p, r) \<in> set m" if "(p, r) \<in> set (qd_roles d)" for p r
      using that g d unfolding m(1) by (auto simp: queue_data_def intro!: bexI[of _ g])
    ultimately show "\<exists>ds rs. entry q g = Some (ds, rs) \<and> pr_dungeonId ?pr \<in> set ds
        \<and> (\<forall>(p, r) \<in> set rs. \<exists>d. (p, d) \<in> set (pr_players ?pr)
             \<and> can r (pp_role d AND NOT PLAYER_ROLE_LEADER))"
      using players(3) by blast
  qed
  moreover have "asked_once V ?pr"
    using m(2) unfolding asked_once_def no_ignores_def fields players(2) by blast
  ultimately show ?thesis using players(1,4) unfolding good_proposal_def by blast
qed

section \<open>The search keeps the entries\<close>

definition keeps_entries :: "LFGQueue \<Rightarrow> LFGQueue \<Rightarrow> bool" where
  "keeps_entries q q' \<longleftrightarrow> (smap_inv (QueueDataStore q) \<longrightarrow>
     smap_inv (QueueDataStore q') \<and> entry q' = entry q)"

lemma keeps_refl: "QueueDataStore q' = QueueDataStore q \<Longrightarrow> keeps_entries q q'"
  by (simp add: keeps_entries_def entry_def[abs_def])

lemma keeps_trans: "keeps_entries q r \<Longrightarrow> keeps_entries r t \<Longrightarrow> keeps_entries q t"
  by (simp add: keeps_entries_def)

lemma best_compatible_data [simp]:
  "qd_dungeons (best_compatible k rs d) = qd_dungeons d" "qd_roles (best_compatible k rs d) = qd_roles d"
proof -
  have "qd_dungeons (foldl need_role d rs) = qd_dungeons d \<and> qd_roles (foldl need_role d rs) = qd_roles d" for d
    by (rule foldl_invariant) (auto simp: need_role_def)
  then show "qd_dungeons (best_compatible k rs d) = qd_dungeons d" "qd_roles (best_compatible k rs d) = qd_roles d"
    by (auto simp: best_compatible_def Let_def)
qed

lemma keeps_put:
  assumes "smap_find (QueueDataStore q) g = Some d" and "qd_dungeons d' = qd_dungeons d" and "qd_roles d' = qd_roles d"
  shows "keeps_entries q (q\<lparr>QueueDataStore := smap_put g d' (QueueDataStore q)\<rparr>)"
  using assms by (simp add: keeps_entries_def entry_def[abs_def] container_simps smap.inv_put fun_eq_iff)

lemma keeps_best: "keeps_entries q (UpdateBestCompatibleInQueue g k rs q)"
  unfolding UpdateBestCompatibleInQueue_def
  by (auto split: option.splits intro: keeps_refl keeps_put)

lemma keeps_foldl: "(\<And>q x. keeps_entries q (f q x)) \<Longrightarrow> keeps_entries q (foldl f q xs)"
  by (rule foldl_invariant) (auto intro: keeps_refl keeps_trans)

lemma keeps_FindBest: "keeps_entries q (FindBestCompatibleInQueue g q)"
  unfolding FindBestCompatibleInQueue_def
  by (rule keeps_foldl) (auto intro: keeps_refl keeps_best)

lemma keeps_forget: "keeps_entries q (forget_best g h q)"
  unfolding forget_best_def
  by (auto split: option.splits intro: keeps_refl keeps_trans[OF keeps_put keeps_FindBest])

text \<open>Leaving the queue removes the entry of the leaver, and no other one.\<close>

lemma RemoveFromQueue_entries:
  assumes "smap_inv (QueueDataStore q)"
  shows "smap_inv (QueueDataStore (RemoveFromQueue g q)) \<and> entry (RemoveFromQueue g q) = (entry q)(g := None)"
proof -
  let ?q1 = "RemoveFromCompatibles g (RemoveFromCurrentQueue g (RemoveFromNewQueue g q))"
  let ?q2 = "foldl (\<lambda>q h. forget_best g h q) ?q1 (map fst (QueueDataStore ?q1))"
  have "keeps_entries q ?q1"
    by (rule keeps_refl) (simp add: RemoveFromCompatibles_def RemoveFromCurrentQueue_def RemoveFromNewQueue_def)
  moreover have "keeps_entries ?q1 ?q2" by (rule keeps_foldl) (rule keeps_forget)
  ultimately have "smap_inv (QueueDataStore ?q2)" "entry ?q2 = entry q" using assms by (simp_all add: keeps_entries_def)
  moreover have "RemoveFromQueue g q = ?q2\<lparr>QueueDataStore := smap_erase g (QueueDataStore ?q2)\<rparr>"
    by (simp add: RemoveFromQueue_def Let_def)
  ultimately show ?thesis by (auto simp: entry_def fun_eq_iff container_simps smap.inv_ers)
qed

lemma keeps_gone:
  assumes "smap_find (QueueDataStore q) g = None"
  shows "keeps_entries q (RemoveFromQueue g q)"
  using RemoveFromQueue_entries[of q g] assms by (auto simp: keeps_entries_def entry_def fun_eq_iff)

section \<open>Every new proposal keeps a promise\<close>

text \<open>The entries stay as they are, and every new proposal is good for them, if they are ok.\<close>

type_synonym entries = "guid \<Rightarrow> (u32 list \<times> LfgRolesMap) option"

definition proposes :: "(entries \<Rightarrow> bool) \<Rightarrow> (entries \<Rightarrow> LfgProposal \<Rightarrow> bool) \<Rightarrow> queue_state \<Rightarrow> queue_state \<Rightarrow> bool" where
  "proposes ok good s t \<longleftrightarrow> (smap_inv (QueueDataStore (qs_queue s)) \<and> ok (entry (qs_queue s)) \<longrightarrow>
     smap_inv (QueueDataStore (qs_queue t)) \<and> entry (qs_queue t) = entry (qs_queue s) \<and>
     (\<forall>pr \<in> set (qs_proposals t). pr \<in> set (qs_proposals s) \<or> good (entry (qs_queue s)) pr))"

lemma proposes_trans: "proposes ok good s t \<Longrightarrow> proposes ok good t u \<Longrightarrow> proposes ok good s u"
  unfolding proposes_def by fastforce

lemma proposes_queue:
  "keeps_entries (qs_queue s) (qs_queue t) \<Longrightarrow> qs_proposals t = qs_proposals s \<Longrightarrow> proposes ok good s t"
  by (simp add: proposes_def keeps_entries_def)

lemma proposes_upd: "keeps_entries (qs_queue s) (f (qs_queue s)) \<Longrightarrow> proposes ok good s (upd_queue f s)"
  by (simp add: proposes_queue)

lemma proposes_upd_frame:
  "QueueDataStore (f (qs_queue s)) = QueueDataStore (qs_queue s) \<Longrightarrow> proposes ok good s (upd_queue f s)"
  by (simp add: proposes_upd keeps_refl)

lemma QueueData_frame [simp]:
  "QueueDataStore (SetCompatibles k c q) = QueueDataStore q"
  "QueueDataStore (SetCompatibilityData k d q) = QueueDataStore q"
  "QueueDataStore (RemoveFromNewQueue g q) = QueueDataStore q"
  "QueueDataStore (RemoveFromCurrentQueue g q) = QueueDataStore q"
  "QueueDataStore (AddToCurrentQueue g q) = QueueDataStore q"
  by (simp_all add: SetCompatibles_def SetCompatibilityData_def RemoveFromNewQueue_def
      RemoveFromCurrentQueue_def AddToCurrentQueue_def Let_def)

lemma QueueData_dequeue [simp]:
  "QueueDataStore (foldl (\<lambda>q g. RemoveFromCurrentQueue g (RemoveFromNewQueue g q)) q gs) = QueueDataStore q"
  by (rule foldl_invariant) auto

text \<open>A promise that every full match keeps is kept by the whole search.\<close>

locale proposal_promise =
  fixes V :: lfg_view and ok :: "entries \<Rightarrow> bool" and good :: "entries \<Rightarrow> LfgProposal \<Rightarrow> bool"
  assumes promise: "full_match V q check sc roles dungeons \<Longrightarrow> ok (entry q) \<Longrightarrow>
    good (entry q) (make_proposal V check sc roles dungeons n)"
begin

lemma proposes_full:
  assumes "full_match V (qs_queue s) check sc roles dungeons"
  shows "proposes ok good s (snd (propose V check sc roles dungeons s))"
  using promise[OF assms]
  by (auto simp: proposes_def propose_full[OF assms] Let_def entry_def fun_eq_iff)

end

sublocale proposal_promise < search: queue_relation V "proposes ok good"
proof unfold_locales
  show "proposes ok good s (snd (propose V check sc roles dungeons s))"
    if "full_match V (qs_queue s) check sc roles dungeons" for s check sc roles dungeons
    using that by (rule proposes_full)
qed (auto intro: proposes_trans proposes_upd_frame proposes_queue[OF keeps_refl]
    proposes_upd keeps_best keeps_gone)

context proposal_promise
begin

lemma proposes_group: "proposes ok good s (snd (find_group V g s))"
proof -
  let ?s = "upd_queue (RemoveFromNewQueue g) s"
  let ?r = "FindNewGroups V [g] (currentQueueStore (qs_queue ?s)) ?s"
  have "proposes ok good s ?s" by (rule proposes_upd_frame) simp
  then have one: "proposes ok good s (snd (snd ?r))" using search.FindNewGroups_R by (rule proposes_trans)
  have "proposes ok good (snd (snd ?r)) (upd_queue (AddToCurrentQueue g) (snd (snd ?r)))"
    by (rule proposes_upd_frame) simp
  with one have "proposes ok good s (upd_queue (AddToCurrentQueue g) (snd (snd ?r)))"
    by (rule proposes_trans)
  with one show ?thesis by (cases ?r) (auto simp: find_group_def Let_def)
qed

end

sublocale proposal_promise < turns: queue_turns V "proposes ok good"
  by unfold_locales (rule proposes_group)

context proposal_promise
begin

lemma FindGroups_promise:
  assumes "smap_inv (QueueDataStore (qs_queue s))" and "ok (entry (qs_queue s))"
    and "FindGroups V s = (n, t)"
  shows "smap_inv (QueueDataStore (qs_queue t))" and "entry (qs_queue t) = entry (qs_queue s)"
    and "pr \<in> set (qs_proposals t) \<Longrightarrow> pr \<in> set (qs_proposals s) \<or> good (entry (qs_queue s)) pr"
  using turns.FindGroups_R[of s] assms by (auto simp: proposes_def)

end

interpretation well: proposal_promise V entries_ok "good_proposal V" for V
  by unfold_locales (rule full_match_good)

interpretation five: proposal_promise V roles_ok "\<lambda>E. one_role_each" for V
  by unfold_locales (metis full_match_proposal)

text \<open>The entries of a concrete queue are checked one by one.\<close>

lemma entries_okI:
  "list_all (\<lambda>(g, d). smap_inv (qd_roles d) \<and> length (qd_roles d) \<le> 5 \<and> qd_dungeons d \<noteq> [] \<and>
      (length (qd_roles d) = 5 \<longrightarrow> fst (CheckGroupRoles (qd_roles d)))) (QueueDataStore q) \<Longrightarrow>
   entries_ok (entry q)"
  unfolding entries_ok_def roles_ok_def entry_def list_all_iff by (fastforce dest: smap_find_SomeD)

definition example_view :: lfg_view where
  "example_view = \<lparr>IsLfgGroup = (\<lambda>_. False), Queued = (\<lambda>_. True), InOldDungeon = (\<lambda>_. False),
     Ignores = (\<lambda>_ _. False), now = 0, draw_dungeon = (\<lambda>_. 0), draw_coin = (\<lambda>_ _. False)\<rparr>"

text \<open>
  A tank alone (1), two players who can tank or heal (2), two groups of three damage dealers (3 and
  4), and a damage dealer alone (5).
\<close>

definition example_data :: "(guid \<times> LfgQueueData) list" where
  "example_data = [(1, mk_LfgQueueData 0 [30] [(1, 2)]), (2, mk_LfgQueueData 0 [30] [(21, 6), (22, 14)]),
     (3, mk_LfgQueueData 0 [30] [(31, 8), (32, 8), (33, 8)]),
     (4, mk_LfgQueueData 0 [30] [(41, 8), (42, 8), (43, 8)]), (5, mk_LfgQueueData 0 [30] [(5, 8)])]"

definition example_state :: "guid list \<Rightarrow> queue_state" where
  "example_state gs = \<lparr>qs_queue = \<lparr>QueueDataStore = example_data, CompatibleMapStore = [],
     waitTimesAvgStore = [], waitTimesTankStore = [], waitTimesHealerStore = [], waitTimesDpsStore = [],
     currentQueueStore = [], newToQueueStore = gs\<rparr>, qs_lastId = 0, qs_proposals = []\<rparr>"

lemma example_ok:
  "smap_inv (QueueDataStore (qs_queue (example_state gs)))" "entries_ok (entry (qs_queue (example_state gs)))"
proof -
  show "smap_inv (QueueDataStore (qs_queue (example_state gs)))"
    by (simp add: example_state_def example_data_def smap_inv_def)
  show "entries_ok (entry (qs_queue (example_state gs)))"
    by (rule entries_okI) (simp add: example_state_def example_data_def mk_LfgQueueData_def smap_inv_def)
qed

text \<open>Property C4: every proposal \<open>FindGroups\<close> makes has five different players, each with one of the roles he
  chose: one tank, one healer and three damage dealers. It holds all players of its queue entries, its
  dungeon is one each of the entries asked for, and its leader is one of the players, one who asked to lead if there is one.
  When several entries were put together, no player ignores another one; a group that joined as one entry was not asked. The
  entries are those joining the finder lets in: at most five players with roles that fit when there are five, and a dungeon.\<close>

theorem FindGroups_proposals:
  assumes "smap_inv (QueueDataStore (qs_queue s))" and "entries_ok (entry (qs_queue s))" and "ignores_both_ways V"
    and "pr \<in> set (qs_proposals (snd (FindGroups V s))) - set (qs_proposals s)"
  shows "good_proposal V (entry (qs_queue s)) pr \<and> nobody_ignored V pr"
proof -
  have "good_proposal V (entry (qs_queue s)) pr"
    using well.FindGroups_promise(3)[OF assms(1,2) surjective_pairing] assms(4) by blast
  then show ?thesis using asked_once_enough[OF assms(3)] by (simp add: good_proposal_def)
qed

theorem FindGroups_proposals_witness:
  "\<exists>pr. set (qs_proposals (snd (FindGroups example_view (example_state [2, 3])))) = {pr} \<and>
     pr_queues pr = [3, 2] \<and> good_proposal example_view (entry (qs_queue (example_state [2, 3]))) pr \<and> nobody_ignored example_view pr"
proof -
  have one: "map pr_queues (qs_proposals (snd (FindGroups example_view (example_state [2, 3])))) = [[3, 2]]"
    by code_simp
  then obtain pr where pr: "qs_proposals (snd (FindGroups example_view (example_state [2, 3]))) = [pr]"
    by (cases "qs_proposals (snd (FindGroups example_view (example_state [2, 3])))") auto
  moreover have "ignores_both_ways example_view" by (simp add: ignores_both_ways_def example_view_def)
  ultimately have "good_proposal example_view (entry (qs_queue (example_state [2, 3]))) pr \<and> nobody_ignored example_view pr"
    using example_ok by (intro FindGroups_proposals) (simp_all add: example_state_def)
  with pr one show ?thesis by simp
qed

text \<open>A queue entry can end up in two proposals at once. The check of a longer combination checks
  the combination without its head again and makes the proposal, which does not end the search: with
  the five entries of the example the entry 2 is proposed with 4 and with 3, and \<open>FindGroups\<close>
  reports no proposal at all.\<close>

theorem one_entry_two_proposals:
  "map pr_queues (qs_proposals (snd (FindGroups example_view (example_state [1, 2, 3, 4, 5])))) = [[2, 4], [2, 3]]
   \<and> fst (FindGroups example_view (example_state [1, 2, 3, 4, 5])) = 0"
  by (intro conjI) code_simp+

text \<open>The search can miss a match. The recursive search takes the guids it tries from the list of
  its caller: after the entries 1, 2 and 3 there is no proposal, and the pair 2 and 3, which matches,
  was never checked.\<close>

theorem search_misses_a_pair:
  "qs_proposals (snd (FindGroups example_view (example_state [1, 2, 3]))) = []
   \<and> GetCompatibles (qs_queue (snd (FindGroups example_view (example_state [1, 2, 3])))) (ConcatenateGuids [3, 2])
       = LFG_COMPATIBILITY_PENDING
   \<and> fst (CheckCompatibility example_view [3, 2] (snd (FindGroups example_view (example_state [1, 2, 3]))))
       = LFG_COMPATIBLES_MATCH"
  by (intro conjI) code_simp+

end
