(* ===== verification/LFGKeep.thy ===== *)
theory LFGKeep
  imports LFGMatch
begin

text \<open>
  Nobody gets lost in the dungeon finder queue: the key of a combination determines its guids, so the
  cache of answers tells of the right combinations, and a guid leaves the queue only for a proposal.
\<close>

section \<open>The key of a combination\<close>

lemma join_bar_first: "CHR ''|'' \<notin> set s \<Longrightarrow> takeWhile (\<lambda>c. c \<noteq> CHR ''|'') (join_bar (s # ss)) = s"
  by (cases ss) (auto simp: takeWhile_append2 takeWhile_tail)

lemma join_bar_rest:
  "CHR ''|'' \<notin> set s \<Longrightarrow> dropWhile (\<lambda>c. c \<noteq> CHR ''|'') (join_bar (s # ss)) =
     (if ss = [] then [] else CHR ''|'' # join_bar ss)"
  by (cases ss) (auto simp: dropWhile_append)

lemma join_bar_inject:
  "join_bar ss = join_bar ts \<Longrightarrow> \<forall>s \<in> set ss \<union> set ts. CHR ''|'' \<notin> set s \<and> s \<noteq> [] \<Longrightarrow> ss = ts"
proof (induction ss arbitrary: ts)
  case Nil
  then show ?case by (cases ts; cases "tl ts") auto
next
  case (Cons s ss)
  show ?case
  proof (cases ts)
    case Nil
    with Cons.prems show ?thesis by (cases ss) auto
  next
    case (Cons t ts')
    have s: "CHR ''|'' \<notin> set s" and t: "CHR ''|'' \<notin> set t" using Cons.prems(2) Cons by auto
    have "s = t" using join_bar_first[OF s, of ss] join_bar_first[OF t, of ts'] Cons.prems(1) Cons by simp
    moreover have "ss = [] \<longleftrightarrow> ts' = []" "join_bar ss = join_bar ts'"
      using join_bar_rest[OF s, of ss] join_bar_rest[OF t, of ts'] Cons.prems(1) Cons by (auto split: if_splits)
    moreover have "ss = ts'" by (rule Cons.IH) (use calculation(3) Cons.prems(2) Cons in auto)
    ultimately show ?thesis using Cons by simp
  qed
qed

lemma print_u64_inject: "print_u64 v = print_u64 w \<longleftrightarrow> v = w"
  using atoull_print by metis

lemma print_u64_plain: "CHR ''|'' \<notin> set (print_u64 w)" "print_u64 w \<noteq> []"
  using decimal_digits[of "CHR ''|''" "unat w"] by (auto simp: print_u64_def isdigit_def)

lemma ConcatenateGuids_set:
  assumes "ConcatenateGuids gs = ConcatenateGuids hs"
  shows "set gs = set hs"
proof -
  let ?sort = "\<lambda>gs. foldl (\<lambda>s g. sset_insert g s) [] (gs :: guid list)"
  have "map print_u64 (?sort gs) = map print_u64 (?sort hs)"
    using assms unfolding ConcatenateGuids_def by (rule join_bar_inject) (auto simp: print_u64_plain)
  then have "?sort gs = ?sort hs" by (simp add: inj_map_eq_map inj_def print_u64_inject)
  then have "set (?sort gs) = set (?sort hs)" by simp
  then show ?thesis by (simp add: sset.elems_ins_all)
qed

section \<open>The cache tells the truth\<close>

text \<open>
  A cached match is true when it was proposed, and a cached bad state is true when a player of the combination is not
  in the queued state. Nothing in the queue takes these answers back when the players change their states, so there can be
  answers that are no longer true: they are stale. The search keeps all answers true but those under the keys \<open>K\<close>.
\<close>

definition true_match :: "queue_state \<Rightarrow> string \<Rightarrow> bool" where
  "true_match s k \<longleftrightarrow> (\<exists>pr \<in> set (qs_proposals s). ConcatenateGuids (pr_queues pr) = k)"

definition true_bad :: "lfg_view \<Rightarrow> string \<Rightarrow> bool" where
  "true_bad V k \<longleftrightarrow> (\<exists>check. ConcatenateGuids check = k \<and> check \<noteq> [] \<and> \<not> AllQueued V check)"

definition stale :: "lfg_view \<Rightarrow> queue_state \<Rightarrow> string set" where
  "stale V s = {k. GetCompatibles (qs_queue s) k = LFG_COMPATIBLES_MATCH \<and> \<not> true_match s k
                 \<or> GetCompatibles (qs_queue s) k = LFG_COMPATIBLES_BAD_STATES \<and> \<not> true_bad V k}"

definition cache_ok :: "lfg_view \<Rightarrow> string set \<Rightarrow> queue_state \<Rightarrow> bool" where
  "cache_ok V K s \<longleftrightarrow> smap_inv (CompatibleMapStore (qs_queue s)) \<and> stale V s \<subseteq> K"

lemma cache_ok_turn:
  assumes "cache_ok V K s" and "GetCompatibles (qs_queue s) (ConcatenateGuids check) = LFG_COMPATIBLES_BAD_STATES"
    and "ConcatenateGuids check \<notin> K"
  shows "\<not> AllQueued V check"
proof -
  obtain check' where "ConcatenateGuids check' = ConcatenateGuids check" "check' \<noteq> []" "\<not> AllQueued V check'"
    using assms unfolding cache_ok_def stale_def true_bad_def by blast
  moreover have "set check' = set check" using calculation(1) by (rule ConcatenateGuids_set)
  ultimately show ?thesis by (auto simp: AllQueued_def list_all_iff)
qed

lemma GetCompatibles_set:
  "smap_inv (CompatibleMapStore q) \<Longrightarrow> GetCompatibles (SetCompatibles k c q) l = (if l = k then c else GetCompatibles q l)"
  by (auto simp: GetCompatibles_def SetCompatibles_def Let_def container_simps)

lemma GetCompatibles_data:
  "smap_inv (CompatibleMapStore q) \<Longrightarrow>
   GetCompatibles (SetCompatibilityData k d q) l = (if l = k then cd_compatibility d else GetCompatibles q l)"
  by (auto simp: GetCompatibles_def SetCompatibilityData_def container_simps)

lemma Compatible_inv:
  "smap_inv (CompatibleMapStore q) \<Longrightarrow> smap_inv (CompatibleMapStore (SetCompatibles k c q))"
  "smap_inv (CompatibleMapStore q) \<Longrightarrow> smap_inv (CompatibleMapStore (SetCompatibilityData k d q))"
  by (simp_all add: SetCompatibles_def SetCompatibilityData_def Let_def smap.inv_put)

text \<open>An operation that only touches the entries of the queue data.\<close>

definition data_only :: "LFGQueue \<Rightarrow> LFGQueue \<Rightarrow> bool" where
  "data_only q q' \<longleftrightarrow> CompatibleMapStore q' = CompatibleMapStore q \<and> currentQueueStore q' = currentQueueStore q
     \<and> newToQueueStore q' = newToQueueStore q"

lemma data_only_refl: "data_only q q"
  by (simp add: data_only_def)

lemma data_only_foldl: "(\<And>q x. data_only q (f q x)) \<Longrightarrow> data_only q (foldl f q xs)"
  by (rule foldl_invariant) (auto simp: data_only_def)

lemma data_only_best: "data_only q (UpdateBestCompatibleInQueue g k rs q)"
  by (auto simp: data_only_def UpdateBestCompatibleInQueue_def split: option.splits)

lemma data_only_find: "data_only q (FindBestCompatibleInQueue g q)"
  unfolding FindBestCompatibleInQueue_def
  by (rule data_only_foldl) (auto simp: data_only_best data_only_refl)

lemma data_only_forget: "data_only q (forget_best g h q)"
  unfolding forget_best_def using data_only_find
  by (auto simp: data_only_def split: option.splits)

lemma RemoveFromQueue_frame:
  "CompatibleMapStore (RemoveFromQueue g q) = filter (\<lambda>(key, d). \<not> contains (print_u64 g) key) (CompatibleMapStore q)"
  "currentQueueStore (RemoveFromQueue g q) = filter (\<lambda>h. h \<noteq> g) (currentQueueStore q)"
proof -
  let ?q1 = "RemoveFromCompatibles g (RemoveFromCurrentQueue g (RemoveFromNewQueue g q))"
  have "data_only ?q1 (foldl (\<lambda>q h. forget_best g h q) ?q1 (map fst (QueueDataStore ?q1)))"
    by (rule data_only_foldl) (rule data_only_forget)
  then show "CompatibleMapStore (RemoveFromQueue g q) =
      filter (\<lambda>(key, d). \<not> contains (print_u64 g) key) (CompatibleMapStore q)"
    "currentQueueStore (RemoveFromQueue g q) = filter (\<lambda>h. h \<noteq> g) (currentQueueStore q)"
    by (simp_all add: RemoveFromQueue_def Let_def data_only_def RemoveFromCompatibles_def
        RemoveFromCurrentQueue_def RemoveFromNewQueue_def)
qed

lemma smap_find_filter: "smap_inv m \<Longrightarrow> smap_find (filter P m) k = Some v \<Longrightarrow> smap_find m k = Some v"
  by (metis (no_types, lifting) filter_is_subset smap_find_SomeD smap_find_mem subset_iff)

lemma smap_inv_filter: "smap_inv m \<Longrightarrow> smap_inv (filter P m)"
  by (simp add: smap_inv_def sorted_wrt_map sorted_wrt_filter)

lemma GetCompatibles_gone:
  assumes "smap_inv (CompatibleMapStore q)" and "GetCompatibles (RemoveFromQueue g q) k \<noteq> LFG_COMPATIBILITY_PENDING"
  shows "GetCompatibles (RemoveFromQueue g q) k = GetCompatibles q k"
  using assms smap_find_filter[OF assms(1)]
  by (auto simp: GetCompatibles_def RemoveFromQueue_frame split: option.splits)

section \<open>Who waits\<close>

definition waiting :: "queue_state \<Rightarrow> guid set" where
  "waiting s = set (currentQueueStore (qs_queue s)) \<union> set (newToQueueStore (qs_queue s))"

definition proposed :: "queue_state \<Rightarrow> guid set" where
  "proposed s = (\<Union>pr \<in> set (qs_proposals s). set (pr_queues pr))"

text \<open>A guid stays where it waits, goes into a proposal, had no queue data, or a stale answer is about it.\<close>

definition named_in :: "string set \<Rightarrow> guid set" where
  "named_in K = {g. \<exists>check. g \<in> set check \<and> ConcatenateGuids check \<in> K}"

definition keeps_waiting :: "lfg_view \<Rightarrow> string set \<Rightarrow> queue_state \<Rightarrow> queue_state \<Rightarrow> bool" where
  "keeps_waiting V K s t \<longleftrightarrow> (cache_ok V K s \<and> smap_inv (QueueDataStore (qs_queue s)) \<longrightarrow>
     cache_ok V K t \<and> smap_inv (QueueDataStore (qs_queue t)) \<and> entry (qs_queue t) = entry (qs_queue s) \<and>
     set (qs_proposals s) \<subseteq> set (qs_proposals t) \<and>
     waiting s \<subseteq> waiting t \<union> proposed t \<union> named_in K \<union> {g. entry (qs_queue s) g = None})"

lemma keeps_waiting_trans:
  assumes "keeps_waiting V K s t" and "keeps_waiting V K t u"
  shows "keeps_waiting V K s u"
  using assms unfolding keeps_waiting_def proposed_def by (auto 0 4)

text \<open>Steps that leave the two queues and the proposals alone.\<close>

lemma keeps_waiting_upd:
  assumes "\<And>q. keeps_entries q (f q)" and "\<And>q. currentQueueStore (f q) = currentQueueStore q"
    and "\<And>q. newToQueueStore (f q) = newToQueueStore q"
    and "cache_ok V K s \<Longrightarrow> cache_ok V K (upd_queue f s)"
  shows "keeps_waiting V K s (upd_queue f s)"
  using assms by (auto simp: keeps_waiting_def waiting_def keeps_entries_def)

lemma current_frame [simp]:
  "currentQueueStore (SetCompatibles k c q) = currentQueueStore q"
  "currentQueueStore (SetCompatibilityData k d q) = currentQueueStore q"
  "currentQueueStore (UpdateBestCompatibleInQueue g k rs q) = currentQueueStore q"
  "currentQueueStore (RemoveFromNewQueue g q) = currentQueueStore q"
  using data_only_best[of q g k rs]
  by (simp_all add: SetCompatibles_def SetCompatibilityData_def Let_def RemoveFromNewQueue_def data_only_def)

lemma cache_ok_set:
  assumes "cache_ok V K s"
    and "c = LFG_COMPATIBLES_MATCH \<Longrightarrow> k \<in> K \<or> true_match s k"
    and "c = LFG_COMPATIBLES_BAD_STATES \<Longrightarrow> true_bad V k"
  shows "cache_ok V K (upd_queue (SetCompatibles k c) s)"
  using assms by (auto simp: cache_ok_def stale_def true_match_def GetCompatibles_set Compatible_inv split: if_splits)

lemma cache_ok_less:
  assumes "cache_ok V K s" and "cd_compatibility d = LFG_COMPATIBLES_WITH_LESS_PLAYERS"
  shows "cache_ok V K (upd_queue (SetCompatibilityData k d) s)"
  using assms by (auto simp: cache_ok_def stale_def true_match_def GetCompatibles_data Compatible_inv split: if_splits)

lemma cache_ok_same:
  assumes "cache_ok V K s" and "CompatibleMapStore (qs_queue t) = CompatibleMapStore (qs_queue s)"
    and "set (qs_proposals s) \<subseteq> set (qs_proposals t)"
  shows "cache_ok V K t"
proof -
  have "GetCompatibles (qs_queue t) k = GetCompatibles (qs_queue s) k" for k
    by (simp add: GetCompatibles_def assms(2))
  then show ?thesis using assms unfolding cache_ok_def stale_def true_match_def by (simp only:) blast
qed

lemma cache_ok_gone: "cache_ok V K s \<Longrightarrow> cache_ok V K (upd_queue (RemoveFromQueue g) s)"
  using GetCompatibles_gone[of "qs_queue s" g]
  by (auto simp: cache_ok_def stale_def true_match_def RemoveFromQueue_frame smap_inv_filter)

lemma dequeue_frame:
  fixes check :: "guid list" and q :: LFGQueue
  defines "q' \<equiv> foldl (\<lambda>q g. RemoveFromCurrentQueue g (RemoveFromNewQueue g q)) q check"
  shows "set (currentQueueStore q') = set (currentQueueStore q) - set check"
    and "set (newToQueueStore q') = set (newToQueueStore q) - set check"
    and "CompatibleMapStore q' = CompatibleMapStore q"
proof -
  have "set (currentQueueStore q') = set (currentQueueStore q) - set check
    \<and> set (newToQueueStore q') = set (newToQueueStore q) - set check
    \<and> CompatibleMapStore q' = CompatibleMapStore q"
    unfolding q'_def
    by (induction check arbitrary: q) (auto simp: RemoveFromCurrentQueue_def RemoveFromNewQueue_def)
  then show "set (currentQueueStore q') = set (currentQueueStore q) - set check"
    "set (newToQueueStore q') = set (newToQueueStore q) - set check"
    "CompatibleMapStore q' = CompatibleMapStore q" by blast+
qed

lemma make_proposal_queues [simp]: "pr_queues (make_proposal V check sc roles dungeons n) = check"
  by (simp add: make_proposal_def)

text \<open>A full match is proposed, or remembered as one in a bad state.\<close>

lemma full_match_check: "full_match V q check sc roles dungeons \<Longrightarrow> check \<noteq> []"
  by (auto simp: full_match_def scan0_def)

lemma keeps_waiting_full:
  assumes full: "full_match V (qs_queue s) check sc roles dungeons"
  shows "keeps_waiting V K s (snd (propose V check sc roles dungeons s))"
proof (cases "AllQueued V check")
  case True
  let ?pr = "make_proposal V check sc roles dungeons (qs_lastId s + 1)"
  let ?q = "foldl (\<lambda>q g. RemoveFromCurrentQueue g (RemoveFromNewQueue g q)) (qs_queue s) check"
  let ?s = "s\<lparr>qs_queue := ?q, qs_lastId := qs_lastId s + 1, qs_proposals := ?pr # qs_proposals s\<rparr>"
  have t: "snd (propose V check sc roles dungeons s) =
      upd_queue (SetCompatibles (ConcatenateGuids check) LFG_COMPATIBLES_MATCH) ?s"
    using True by (simp add: propose_full[OF full] Let_def upd_queue_def)
  have "cache_ok V K (upd_queue (SetCompatibles (ConcatenateGuids check) LFG_COMPATIBLES_MATCH) ?s)"
    if "cache_ok V K s"
    by (rule cache_ok_set[OF cache_ok_same[OF that]]) (auto simp: dequeue_frame true_match_def)
  then show ?thesis
    unfolding t keeps_waiting_def waiting_def proposed_def
    by (auto simp: dequeue_frame entry_def fun_eq_iff)
next
  case False
  then show ?thesis
    using full_match_check[OF full]
    by (auto simp: propose_full[OF full] Let_def keeps_refl true_bad_def intro!: keeps_waiting_upd cache_ok_set)
qed

interpretation keep: queue_relation V "keeps_waiting V K" for V K
proof unfold_locales
  show "keeps_waiting V K s u" if "keeps_waiting V K s t" "keeps_waiting V K t u" for s t u
    using that by (rule keeps_waiting_trans)
  show "keeps_waiting V K s (upd_queue (RemoveFromQueue g) s)"
    if "smap_find (QueueDataStore (qs_queue s)) g = None" for s g
    using keeps_gone[OF that] that cache_ok_gone[of V K s g]
    by (auto simp: keeps_waiting_def waiting_def keeps_entries_def RemoveFromQueue_frame entry_def)
  show "keeps_waiting V K s (upd_queue (SetCompatibles key c) s)" if "c < LFG_COMPATIBLES_WITH_LESS_PLAYERS" for s c key
    using that by (intro keeps_waiting_upd keeps_refl cache_ok_set) (auto simp: less_LfgCompatibility_def)
  show "keeps_waiting V K s (upd_queue (SetCompatibilityData key
       \<lparr>cd_compatibility = LFG_COMPATIBLES_WITH_LESS_PLAYERS, cd_roles = roles\<rparr>) s)" for s key roles
    by (intro keeps_waiting_upd keeps_refl cache_ok_less) auto
  show "keeps_waiting V K s (upd_queue (UpdateBestCompatibleInQueue g key roles) s)" for s g key roles
  proof (rule keeps_waiting_upd)
    show "cache_ok V K (upd_queue (UpdateBestCompatibleInQueue g key roles) s)" if "cache_ok V K s"
      using that by (rule cache_ok_same)
        (use data_only_best[of "qs_queue s" g key roles] in \<open>simp_all add: data_only_def\<close>)
  qed (simp_all add: keeps_best)
  show "keeps_waiting V K s (snd (propose V check sc roles dungeons s))"
    if "full_match V (qs_queue s) check sc roles dungeons" for s check sc roles dungeons
    using that by (rule keeps_waiting_full)
  show "keeps_waiting V K s (upd_queue (SetCompatibles (ConcatenateGuids check) LFG_COMPATIBLES_MATCH) s)"
    if "GetCompatibles (qs_queue s) (ConcatenateGuids check) = LFG_COMPATIBLES_BAD_STATES" "AllQueued V check"
    for s check
    using cache_ok_turn[OF _ that(1)] that(2) by (intro keeps_waiting_upd keeps_refl cache_ok_set) auto
qed (auto simp: keeps_waiting_def)

section \<open>A search that ends with a match\<close>

definition found :: "string set \<Rightarrow> guid list \<Rightarrow> queue_state \<Rightarrow> bool" where
  "found K check s \<longleftrightarrow> (\<exists>pr \<in> set (qs_proposals s). set check \<subseteq> set (pr_queues pr))
     \<or> (\<exists>check'. set check \<subseteq> set check' \<and> ConcatenateGuids check' \<in> K)"

lemma CheckCompatibility_match:
  "fst (CheckCompatibility V check s) = LFG_COMPATIBLES_MATCH \<Longrightarrow> found K check (snd (CheckCompatibility V check s))"
proof (cases check)
  case (Cons g rest)
  have players: "fst (check_players V check s) = LFG_COMPATIBLES_MATCH \<Longrightarrow>
      found K check (snd (check_players V check s))" for s
  proof (cases rule: check_players_cases[of s V check])
    case (full sc roles dungeons)
    assume "fst (check_players V check s) = LFG_COMPATIBLES_MATCH"
    then show ?thesis
      unfolding full(2) propose_full[OF full(1)] by (auto simp: found_def Let_def split: if_splits)
  qed (auto simp: incompatible_outcome_def less_outcome_def less_LfgCompatibility_def)
  assume "fst (CheckCompatibility V check s) = LFG_COMPATIBLES_MATCH"
  then show ?thesis
    using players[unfolded Cons] unfolding Cons
    by (auto simp: less_LfgCompatibility_def split: if_splits prod.splits)
qed simp

lemma start_search_match:
  assumes "cache_ok V K s" and m: "fst (start_search V check s) = LFG_COMPATIBLES_MATCH"
  shows "found K check (snd (start_search V check s))"
proof (cases "GetCompatibles (qs_queue s) (ConcatenateGuids check) = LFG_COMPATIBILITY_PENDING")
  case True
  then show ?thesis
    using m CheckCompatibility_match[of V check s] CheckCompatibility_bad[of V check s]
    by (auto simp: start_search_def Let_def split: prod.splits if_splits)
next
  case False
  show ?thesis
  proof (cases "ConcatenateGuids check \<in> K")
    case fresh: False
    then have hit: "GetCompatibles (qs_queue s) (ConcatenateGuids check) = LFG_COMPATIBLES_MATCH"
      using m cache_ok_turn[OF assms(1)] False by (auto simp: start_search_def Let_def split: if_splits)
    then obtain pr where "pr \<in> set (qs_proposals s)" "ConcatenateGuids (pr_queues pr) = ConcatenateGuids check"
      using assms(1) fresh unfolding cache_ok_def stale_def true_match_def by blast
    moreover have "set (pr_queues pr) = set check" using calculation(2) by (rule ConcatenateGuids_set)
    ultimately show ?thesis using False hit by (auto simp: start_search_def Let_def found_def)
  qed (auto simp: found_def)
qed

lemma search_loop_match:
  assumes "cache_ok V K s" and "smap_inv (QueueDataStore (qs_queue s))" and "c \<noteq> LFG_COMPATIBLES_MATCH"
    and "search_loop fuel V check all c s = (LFG_COMPATIBLES_MATCH, rest, t)"
  shows "found K check t"
  using assms
proof (induction fuel arbitrary: check all c s rest t)
  case 0
  then show ?case by (cases all) auto
next
  case (Suc fuel)
  then obtain x xs where all: "all = x # xs" by (cases all) auto
  obtain c1 s1 where start: "start_search V (check @ [x]) s = (c1, s1)"
    by (cases "start_search V (check @ [x]) s")
  have one: "cache_ok V K s1" "smap_inv (QueueDataStore (qs_queue s1))"
    using keep.start_search_R[of V K s "check @ [x]"] start Suc.prems by (auto simp: keeps_waiting_def)
  obtain sub all' s' where loop: "(if c1 \<noteq> LFG_COMPATIBLES_WITH_LESS_PLAYERS then (c1, xs, s1)
      else search_loop fuel V (check @ [x]) xs c1 s1) = (sub, all', s')" by (metis prod_cases3)
  show ?case
  proof (cases "sub = LFG_COMPATIBLES_MATCH")
    case True
    then have "t = s'" using Suc.prems(4) start loop all by (simp add: Let_def split: prod.splits)
    moreover have "found K (check @ [x]) s'"
    proof (cases "c1 = LFG_COMPATIBLES_WITH_LESS_PLAYERS")
      case True
      with loop \<open>sub = _\<close> show ?thesis by (intro Suc.IH[OF one, of c1 "check @ [x]" xs]) auto
    next
      case False
      with loop \<open>sub = _\<close> start start_search_match[OF Suc.prems(1), of "check @ [x]"] show ?thesis by auto
    qed
    ultimately show ?thesis by (auto simp: found_def)
  next
    case False
    have "keeps_waiting V K s1 s'"
      using loop keep.search_loop_R[of V K s1 fuel "check @ [x]" xs c1] keep.R_refl[of V K s1]
      by (auto split: if_splits)
    then have "cache_ok V K s'" "smap_inv (QueueDataStore (qs_queue s'))" using one by (auto simp: keeps_waiting_def)
    moreover have "search_loop fuel V check all' c s' = (LFG_COMPATIBLES_MATCH, rest, t)"
      using Suc.prems(4) start loop all False by (simp add: Let_def split: prod.splits)
    ultimately show ?thesis using Suc.IH Suc.prems(3) by blast
  qed
qed

lemma FindNewGroups_match:
  assumes "cache_ok V K s" and "smap_inv (QueueDataStore (qs_queue s))"
    and "FindNewGroups V check all s = (LFG_COMPATIBLES_MATCH, rest, t)"
  shows "found K check t"
proof -
  obtain c1 s1 where start: "start_search V check s = (c1, s1)" by (cases "start_search V check s")
  have one: "cache_ok V K s1" "smap_inv (QueueDataStore (qs_queue s1))"
    using keep.start_search_R[of V K s check] start assms by (auto simp: keeps_waiting_def)
  show ?thesis
  proof (cases "c1 = LFG_COMPATIBLES_WITH_LESS_PLAYERS")
    case True
    with assms(3) start have "search_loop (length all) V check all c1 s1 = (LFG_COMPATIBLES_MATCH, rest, t)"
      by (simp add: FindNewGroups_def)
    with True one show ?thesis by (intro search_loop_match[of V K s1 c1]) simp_all
  next
    case False
    with assms start show ?thesis using start_search_match[OF assms(1), of check] by (simp add: FindNewGroups_def)
  qed
qed

text \<open>A whole turn: the first new guid is in a proposal, or it waits in the current queue.\<close>

lemma keeps_waiting_group:
  assumes new: "newToQueueStore (qs_queue s) = g # gs"
  shows "keeps_waiting V K s (snd (find_group V g s))"
proof (cases "cache_ok V K s \<and> smap_inv (QueueDataStore (qs_queue s))")
  case True
  let ?s = "upd_queue (RemoveFromNewQueue g) s"
  obtain c rest t where r: "FindNewGroups V [g] (currentQueueStore (qs_queue ?s)) ?s = (c, rest, t)"
    by (metis prod_cases3)
  have s': "cache_ok V K ?s" "smap_inv (QueueDataStore (qs_queue ?s))"
    using True cache_ok_same[of V K s ?s] by (auto simp: RemoveFromNewQueue_def)
  have t: "cache_ok V K t" "smap_inv (QueueDataStore (qs_queue t))" "entry (qs_queue t) = entry (qs_queue s)"
    "set (qs_proposals s) \<subseteq> set (qs_proposals t)"
    "waiting ?s \<subseteq> waiting t \<union> proposed t \<union> named_in K \<union> {g. entry (qs_queue s) g = None}"
    using keep.FindNewGroups_R[of V K ?s "[g]" "currentQueueStore (qs_queue ?s)"] s' r
    by (auto simp: keeps_waiting_def entry_def[abs_def])
  have wait: "waiting s \<subseteq> insert g (waiting ?s)"
    by (auto simp: waiting_def RemoveFromNewQueue_def)
  show ?thesis
  proof (cases "c = LFG_COMPATIBLES_MATCH")
    case True
    then have "g \<in> proposed t \<union> named_in K"
      using FindNewGroups_match[OF s', of "[g]"] r by (auto simp: found_def proposed_def named_in_def)
    with True r t wait show ?thesis
      by (auto simp: find_group_def keeps_waiting_def Let_def)
  next
    case False
    let ?t = "upd_queue (AddToCurrentQueue g) t"
    have "snd (find_group V g s) = ?t" using False r by (simp add: find_group_def Let_def)
    moreover have "waiting ?t = insert g (waiting t)" by (auto simp: waiting_def AddToCurrentQueue_def)
    moreover have "cache_ok V K ?t" using t(1) by (rule cache_ok_same) (simp_all add: AddToCurrentQueue_def)
    ultimately show ?thesis
      using t wait by (auto simp: keeps_waiting_def entry_def[abs_def] proposed_def)
  qed
qed (auto simp: keeps_waiting_def)

interpretation keep_turns: queue_turns V "keeps_waiting V K" for V K
  by unfold_locales (rule keeps_waiting_group)

text \<open>Property C6: every guid with queue data that waited before \<open>FindGroups\<close> waits in the current queue afterwards or is in a
  proposal, unless a stale answer of the cache is about a combination it is in: a match that was not proposed, or a bad
  state although all players are in the queued state now. The new queue is empty, and no answer has become stale.\<close>

theorem FindGroups_keeps_everyone:
  fixes V :: lfg_view and s :: queue_state
  defines "t \<equiv> snd (FindGroups V s)"
  assumes "smap_inv (CompatibleMapStore (qs_queue s))" and "smap_inv (QueueDataStore (qs_queue s))"
  shows "newToQueueStore (qs_queue t) = [] \<and> stale V t \<subseteq> stale V s
    \<and> (\<forall>g \<in> waiting s. entry (qs_queue s) g \<noteq> None \<longrightarrow>
         g \<in> set (currentQueueStore (qs_queue t)) \<or> (\<exists>pr \<in> set (qs_proposals t). g \<in> set (pr_queues pr))
         \<or> (\<exists>check. g \<in> set check \<and> ConcatenateGuids check \<in> stale V s))"
proof -
  have new: "newToQueueStore (qs_queue t) = []" unfolding t_def by (rule FindGroups_empties)
  have "cache_ok V (stale V s) s" using assms by (simp add: cache_ok_def)
  then have "cache_ok V (stale V s) t"
    and keep: "waiting s \<subseteq> waiting t \<union> proposed t \<union> named_in (stale V s) \<union> {g. entry (qs_queue s) g = None}"
    using keep_turns.FindGroups_R[of V "stale V s" s] assms(3) by (auto simp: keeps_waiting_def t_def)
  then have "stale V t \<subseteq> stale V s" by (simp add: cache_ok_def)
  moreover have "waiting t = set (currentQueueStore (qs_queue t))" using new by (simp add: waiting_def)
  ultimately show ?thesis using new keep unfolding proposed_def named_in_def by auto
qed

theorem FindGroups_keeps_everyone_witness:
  "set (currentQueueStore (qs_queue (snd (FindGroups example_view (example_state [1, 2]))))) = {1, 2}
   \<and> (let t = snd (FindGroups example_view (example_state [2, 3]))
      in \<forall>g \<in> {2, 3}. \<exists>pr \<in> set (qs_proposals t). g \<in> set (pr_queues pr))"
proof -
  have cache: "smap_inv (CompatibleMapStore (qs_queue (example_state gs)))" for gs
    by (simp add: example_state_def)
  have fresh: "stale example_view (example_state gs) = {}" for gs
    by (simp add: stale_def GetCompatibles_def example_state_def)
  note ev = FindGroups_keeps_everyone[where V = example_view, OF cache example_ok(1)]
  have wait: "waiting (example_state gs) = set gs" for gs by (simp add: waiting_def example_state_def)
  have entries: "entry (qs_queue (example_state gs)) g \<noteq> None" if "g \<in> {1, 2, 3}" for g gs
    using that by (auto simp: entry_def example_state_def example_data_def smap_find_def)
  have "qs_proposals (snd (FindGroups example_view (example_state [1, 2]))) = []"
    "currentQueueStore (qs_queue (snd (FindGroups example_view (example_state [2, 3])))) = []"
    "set (currentQueueStore (qs_queue (snd (FindGroups example_view (example_state [1, 2]))))) \<subseteq> {1, 2}"
    by code_simp+
  then show ?thesis
    using ev[of "[1, 2]", unfolded fresh] ev[of "[2, 3]", unfolded fresh] entries by (auto simp: wait Let_def)
qed

section \<open>A stale answer loses a guid\<close>

text \<open>
  The entries 2 and 3 match while a player is not in the queued state, and the answer is cached. 3 leaves the current queue
  with a proposal and joins again before it is decided, so that it is new and its answers are still there. Now all are in
  the queued state: the search turns the cached answer into a match and returns, no proposal is made, and 3 waits nowhere.
\<close>

theorem stale_answer_loses_a_guid:
  fixes s1 t :: queue_state
  defines "s1 \<equiv> snd (FindGroups (example_view\<lparr>Queued := \<lambda>g. g \<noteq> 3\<rparr>) (example_state [2, 3]))"
  defines "t \<equiv> snd (FindGroups example_view (upd_queue (\<lambda>q. AddToNewQueue 3 (RemoveFromCurrentQueue 3 q)) s1))"
  shows "currentQueueStore (qs_queue s1) = [2, 3] \<and> qs_proposals t = []
    \<and> currentQueueStore (qs_queue t) = [2] \<and> newToQueueStore (qs_queue t) = []"
  unfolding s1_def t_def by (intro conjI) code_simp+

end
