(* ===== verification/LFGData.thy ===== *)
theory LFGData
  imports LFGQueue
begin

text \<open>
  What the dungeon finder keeps of each player and group (\<open>DungeonFinding/LFGPlayerData.cpp\<close>,
  \<open>LFGGroupData.cpp\<close>), the role checks and kick votes, the state of the manager
  (\<open>DungeonFinding/LFGMgr.h\<close>) and its accessors.
\<close>

section \<open>States\<close>

datatype LfgState =
    LFG_STATE_NONE | LFG_STATE_ROLECHECK | LFG_STATE_QUEUED | LFG_STATE_PROPOSAL
  | LFG_STATE_DUNGEON | LFG_STATE_FINISHED_DUNGEON | LFG_STATE_RAIDBROWSER

datatype LfgRoleCheckState =
    LFG_ROLECHECK_DEFAULT | LFG_ROLECHECK_FINISHED | LFG_ROLECHECK_INITIALITING
  | LFG_ROLECHECK_MISSING_ROLE | LFG_ROLECHECK_WRONG_ROLES | LFG_ROLECHECK_ABORTED
  | LFG_ROLECHECK_NO_ROLE

datatype LfgUpdateType =
    LFG_UPDATETYPE_DEFAULT | LFG_UPDATETYPE_LEADER_UNK1 | LFG_UPDATETYPE_ROLECHECK_ABORTED
  | LFG_UPDATETYPE_JOIN_QUEUE | LFG_UPDATETYPE_ROLECHECK_FAILED | LFG_UPDATETYPE_REMOVED_FROM_QUEUE
  | LFG_UPDATETYPE_PROPOSAL_FAILED | LFG_UPDATETYPE_PROPOSAL_DECLINED | LFG_UPDATETYPE_GROUP_FOUND
  | LFG_UPDATETYPE_ADDED_TO_QUEUE | LFG_UPDATETYPE_PROPOSAL_BEGIN | LFG_UPDATETYPE_UPDATE_STATUS
  | LFG_UPDATETYPE_GROUP_MEMBER_OFFLINE | LFG_UPDATETYPE_GROUP_DISBAND_UNK16

datatype LfgJoinResult =
    LFG_JOIN_OK | LFG_JOIN_FAILED | LFG_JOIN_GROUPFULL | LFG_JOIN_INTERNAL_ERROR
  | LFG_JOIN_NOT_MEET_REQS | LFG_JOIN_PARTY_NOT_MEET_REQS | LFG_JOIN_MIXED_RAID_DUNGEON
  | LFG_JOIN_MULTI_REALM | LFG_JOIN_DISCONNECTED | LFG_JOIN_PARTY_INFO_FAILED
  | LFG_JOIN_DUNGEON_INVALID | LFG_JOIN_DESERTER | LFG_JOIN_PARTY_DESERTER
  | LFG_JOIN_RANDOM_COOLDOWN | LFG_JOIN_PARTY_RANDOM_COOLDOWN | LFG_JOIN_TOO_MUCH_MEMBERS
  | LFG_JOIN_USING_BG_SYSTEM

datatype LfgType = LFG_TYPE_NONE | LFG_TYPE_DUNGEON | LFG_TYPE_RAID | LFG_TYPE_HEROIC | LFG_TYPE_RANDOM

section \<open>Groups\<close>

abbreviation "LFG_GROUP_MAX_KICKS \<equiv> (3 :: u8)"

record LfgGroupData =
  gd_State :: LfgState
  gd_OldState :: LfgState
  gd_Leader :: guid
  gd_Players :: "guid list"
  gd_Dungeon :: u32
  gd_KicksLeft :: u8
  gd_VoteKickActive :: bool

definition mk_LfgGroupData :: LfgGroupData where
  "mk_LfgGroupData = \<lparr>gd_State = LFG_STATE_NONE, gd_OldState = LFG_STATE_NONE, gd_Leader = 0,
     gd_Players = [], gd_Dungeon = 0, gd_KicksLeft = LFG_GROUP_MAX_KICKS, gd_VoteKickActive = False\<rparr>"

definition group_SetState :: "LfgState \<Rightarrow> LfgGroupData \<Rightarrow> LfgGroupData" where
  "group_SetState state d =
     (let d1 = (if state = LFG_STATE_NONE
                then d\<lparr>gd_Dungeon := 0, gd_KicksLeft := LFG_GROUP_MAX_KICKS\<rparr> else d);
          d2 = (if state \<in> {LFG_STATE_NONE, LFG_STATE_FINISHED_DUNGEON, LFG_STATE_DUNGEON}
                then d1\<lparr>gd_OldState := state\<rparr> else d1)
      in d2\<lparr>gd_State := state\<rparr>)"

definition group_RestoreState :: "LfgGroupData \<Rightarrow> LfgGroupData" where
  "group_RestoreState d = d\<lparr>gd_State := gd_OldState d\<rparr>"

definition group_AddPlayer :: "guid \<Rightarrow> LfgGroupData \<Rightarrow> LfgGroupData" where
  "group_AddPlayer g d = d\<lparr>gd_Players := sset_insert g (gd_Players d)\<rparr>"

definition group_RemovePlayer :: "guid \<Rightarrow> LfgGroupData \<Rightarrow> u8 \<times> LfgGroupData" where
  "group_RemovePlayer g d =
     (let d' = d\<lparr>gd_Players := sset_erase g (gd_Players d)\<rparr> in (of_nat (length (gd_Players d')), d'))"

definition group_RemoveAllPlayers :: "LfgGroupData \<Rightarrow> LfgGroupData" where
  "group_RemoveAllPlayers d = d\<lparr>gd_Players := []\<rparr>"

definition group_DecreaseKicksLeft :: "LfgGroupData \<Rightarrow> LfgGroupData" where
  "group_DecreaseKicksLeft d =
     (if gd_KicksLeft d \<noteq> 0 then d\<lparr>gd_KicksLeft := gd_KicksLeft d - 1\<rparr> else d)"

definition group_GetDungeon :: "bool \<Rightarrow> LfgGroupData \<Rightarrow> u32" where
  "group_GetDungeon asId d = (if asId then gd_Dungeon d AND 0x00FFFFFF else gd_Dungeon d)"

section \<open>Players\<close>

record LfgPlayerData =
  pd_State :: LfgState
  pd_OldState :: LfgState
  pd_Team :: u8
  pd_Group :: guid
  pd_Roles :: u8
  pd_Comment :: string
  pd_SelectedDungeons :: "u32 list"

definition mk_LfgPlayerData :: LfgPlayerData where
  "mk_LfgPlayerData = \<lparr>pd_State = LFG_STATE_NONE, pd_OldState = LFG_STATE_NONE, pd_Team = 0,
     pd_Group = 0, pd_Roles = 0, pd_Comment = [], pd_SelectedDungeons = []\<rparr>"

definition player_SetState :: "LfgState \<Rightarrow> LfgPlayerData \<Rightarrow> LfgPlayerData" where
  "player_SetState state d =
     (let d1 = (if state \<in> {LFG_STATE_NONE, LFG_STATE_FINISHED_DUNGEON}
                then d\<lparr>pd_Roles := 0, pd_SelectedDungeons := [], pd_Comment := []\<rparr> else d);
          d2 = (if state \<in> {LFG_STATE_NONE, LFG_STATE_FINISHED_DUNGEON, LFG_STATE_DUNGEON}
                then d1\<lparr>pd_OldState := state\<rparr> else d1)
      in d2\<lparr>pd_State := state\<rparr>)"

definition player_RestoreState :: "LfgPlayerData \<Rightarrow> LfgPlayerData" where
  "player_RestoreState d =
     (let d1 = (if pd_OldState d = LFG_STATE_NONE then d\<lparr>pd_SelectedDungeons := [], pd_Roles := 0\<rparr> else d)
      in d1\<lparr>pd_State := pd_OldState d1\<rparr>)"

section \<open>Role checks, kick votes and messages\<close>

record LfgRoleCheck =
  rc_cancelTime :: int
  rc_roles :: LfgRolesMap
  rc_state :: LfgRoleCheckState
  rc_dungeons :: "u32 list"
  rc_rDungeonId :: u32
  rc_leader :: guid

record LfgPlayerBoot =
  bt_cancelTime :: int
  bt_inProgress :: bool
  bt_votes :: "(guid \<times> LfgAnswer) list"
  bt_victim :: guid
  bt_reason :: string

record LfgUpdateData =
  ud_updateType :: LfgUpdateType
  ud_state :: LfgState
  ud_dungeons :: "u32 list"
  ud_comment :: string

definition mk_LfgUpdateData :: "LfgUpdateType \<Rightarrow> LfgUpdateData" where
  "mk_LfgUpdateData t = \<lparr>ud_updateType = t, ud_state = LFG_STATE_NONE, ud_dungeons = [], ud_comment = []\<rparr>"

definition mk_LfgUpdateData_dungeons :: "LfgUpdateType \<Rightarrow> u32 list \<Rightarrow> string \<Rightarrow> LfgUpdateData" where
  "mk_LfgUpdateData_dungeons t ds c =
     \<lparr>ud_updateType = t, ud_state = LFG_STATE_NONE, ud_dungeons = ds, ud_comment = c\<rparr>"

record LfgJoinResultData =
  jr_result :: LfgJoinResult
  jr_state :: LfgRoleCheckState
  jr_lockmap :: "(guid \<times> (u32 \<times> u32) list) list"

definition mk_LfgJoinResultData :: "LfgJoinResult \<Rightarrow> LfgRoleCheckState \<Rightarrow> LfgJoinResultData" where
  "mk_LfgJoinResultData r s = \<lparr>jr_result = r, jr_state = s, jr_lockmap = []\<rparr>"

text \<open>
  What the manager tells a player's client, and the calls it makes to the groups of the server.
\<close>

datatype lfg_msg =
    SendLfgRoleChosen guid guid u8
  | SendLfgRoleCheckUpdate guid LfgRoleCheck
  | SendLfgUpdatePlayer guid LfgUpdateData
  | SendLfgUpdateParty guid LfgUpdateData
  | SendLfgJoinResult guid LfgJoinResultData
  | SendLfgBootProposalUpdate guid LfgPlayerBoot
  | SendLfgUpdateProposal guid LfgProposal
  | SendLfgQueueStatus guid LfgQueueStatusData
  | MakeNewGroup LfgProposal
  | RemoveFromGroup guid guid

section \<open>The manager\<close>

text \<open>
  \<open>lm_undefined\<close> records that the code dereferenced \<open>begin()\<close> of an empty set or went on from an
  erased entry. \<open>lm_sent\<close> is in the order of sending.
\<close>

record LFGMgr =
  lm_QueueTimer :: u32
  lm_lfgProposalId :: u32
  lm_options :: u32
  lm_QueuesStore :: "(u8 \<times> LFGQueue) list"
  lm_RoleChecksStore :: "(guid \<times> LfgRoleCheck) list"
  lm_ProposalsStore :: "(u32 \<times> LfgProposal) list"
  lm_BootsStore :: "(guid \<times> LfgPlayerBoot) list"
  lm_PlayersStore :: "(guid \<times> LfgPlayerData) list"
  lm_GroupsStore :: "(guid \<times> LfgGroupData) list"
  lm_sent :: "lfg_msg list"
  lm_undefined :: bool

text \<open>
  \<open>PlayersStore[guid]\<close> and \<open>GroupsStore[guid]\<close> read a default entry when there is none. The code adds
  it to the map, which no operation can tell; here an entry is added by the operations that write.
\<close>

definition group_data :: "LFGMgr \<Rightarrow> guid \<Rightarrow> LfgGroupData" where
  "group_data m g = (case smap_find (lm_GroupsStore m) g of Some d \<Rightarrow> d | None \<Rightarrow> mk_LfgGroupData)"

definition player_data :: "LFGMgr \<Rightarrow> guid \<Rightarrow> LfgPlayerData" where
  "player_data m g = (case smap_find (lm_PlayersStore m) g of Some d \<Rightarrow> d | None \<Rightarrow> mk_LfgPlayerData)"

definition upd_group :: "guid \<Rightarrow> (LfgGroupData \<Rightarrow> LfgGroupData) \<Rightarrow> LFGMgr \<Rightarrow> LFGMgr" where
  "upd_group g f m = m\<lparr>lm_GroupsStore := smap_put g (f (group_data m g)) (lm_GroupsStore m)\<rparr>"

definition upd_player :: "guid \<Rightarrow> (LfgPlayerData \<Rightarrow> LfgPlayerData) \<Rightarrow> LFGMgr \<Rightarrow> LFGMgr" where
  "upd_player g f m = m\<lparr>lm_PlayersStore := smap_put g (f (player_data m g)) (lm_PlayersStore m)\<rparr>"

definition send :: "lfg_msg \<Rightarrow> LFGMgr \<Rightarrow> LFGMgr" where
  "send x m = m\<lparr>lm_sent := lm_sent m @ [x]\<rparr>"

definition GetState :: "LFGMgr \<Rightarrow> guid \<Rightarrow> LfgState" where
  "GetState m g = (if IsGroup g then gd_State (group_data m g) else pd_State (player_data m g))"

definition GetOldState :: "LFGMgr \<Rightarrow> guid \<Rightarrow> LfgState" where
  "GetOldState m g = (if IsGroup g then gd_OldState (group_data m g) else pd_OldState (player_data m g))"

definition SetState :: "guid \<Rightarrow> LfgState \<Rightarrow> LFGMgr \<Rightarrow> LFGMgr" where
  "SetState g st m = (if IsGroup g then upd_group g (group_SetState st) m else upd_player g (player_SetState st) m)"

definition RestoreState :: "guid \<Rightarrow> LFGMgr \<Rightarrow> LFGMgr" where
  "RestoreState g m = (if IsGroup g then upd_group g group_RestoreState m else upd_player g player_RestoreState m)"

definition IsVoteKickActive :: "LFGMgr \<Rightarrow> guid \<Rightarrow> bool" where
  "IsVoteKickActive m g = gd_VoteKickActive (group_data m g)"

definition SetVoteKick :: "guid \<Rightarrow> bool \<Rightarrow> LFGMgr \<Rightarrow> LFGMgr" where
  "SetVoteKick g b = upd_group g (\<lambda>d. d\<lparr>gd_VoteKickActive := b\<rparr>)"

definition GetDungeon :: "LFGMgr \<Rightarrow> guid \<Rightarrow> u32" where
  "GetDungeon m g = group_GetDungeon True (group_data m g)"

definition SetDungeon :: "guid \<Rightarrow> u32 \<Rightarrow> LFGMgr \<Rightarrow> LFGMgr" where
  "SetDungeon g i = upd_group g (\<lambda>d. d\<lparr>gd_Dungeon := i\<rparr>)"

definition GetRoles :: "LFGMgr \<Rightarrow> guid \<Rightarrow> u8" where
  "GetRoles m g = pd_Roles (player_data m g)"

definition SetRoles :: "guid \<Rightarrow> u8 \<Rightarrow> LFGMgr \<Rightarrow> LFGMgr" where
  "SetRoles g r = upd_player g (\<lambda>d. d\<lparr>pd_Roles := r\<rparr>)"

definition GetComment :: "LFGMgr \<Rightarrow> guid \<Rightarrow> string" where
  "GetComment m g = pd_Comment (player_data m g)"

definition SetComment :: "guid \<Rightarrow> string \<Rightarrow> LFGMgr \<Rightarrow> LFGMgr" where
  "SetComment g c = upd_player g (\<lambda>d. d\<lparr>pd_Comment := c\<rparr>)"

definition GetSelectedDungeons :: "LFGMgr \<Rightarrow> guid \<Rightarrow> u32 list" where
  "GetSelectedDungeons m g = pd_SelectedDungeons (player_data m g)"

definition SetSelectedDungeons :: "guid \<Rightarrow> u32 list \<Rightarrow> LFGMgr \<Rightarrow> LFGMgr" where
  "SetSelectedDungeons g ds = upd_player g (\<lambda>d. d\<lparr>pd_SelectedDungeons := ds\<rparr>)"

definition GetLfgStatus :: "LFGMgr \<Rightarrow> guid \<Rightarrow> LfgUpdateData" where
  "GetLfgStatus m g =
     \<lparr>ud_updateType = LFG_UPDATETYPE_UPDATE_STATUS, ud_state = pd_State (player_data m g),
      ud_dungeons = pd_SelectedDungeons (player_data m g), ud_comment = []\<rparr>"

definition GetKicksLeft :: "LFGMgr \<Rightarrow> guid \<Rightarrow> u8" where
  "GetKicksLeft m g = gd_KicksLeft (group_data m g)"

definition DecreaseKicksLeft :: "guid \<Rightarrow> LFGMgr \<Rightarrow> LFGMgr" where
  "DecreaseKicksLeft g = upd_group g group_DecreaseKicksLeft"

definition GetTeam :: "LFGMgr \<Rightarrow> guid \<Rightarrow> u8" where
  "GetTeam m g = pd_Team (player_data m g)"

text \<open>With two side groups allowed (\<open>CONFIG_ALLOW_TWO_SIDE_INTERACTION_GROUP\<close>) everybody is in queue 0.\<close>

definition SetTeam :: "bool \<Rightarrow> guid \<Rightarrow> u8 \<Rightarrow> LFGMgr \<Rightarrow> LFGMgr" where
  "SetTeam two_side g team = upd_player g (\<lambda>d. d\<lparr>pd_Team := (if two_side then 0 else team)\<rparr>)"

definition GetGroup :: "LFGMgr \<Rightarrow> guid \<Rightarrow> guid" where
  "GetGroup m g = pd_Group (player_data m g)"

definition SetGroup :: "guid \<Rightarrow> guid \<Rightarrow> LFGMgr \<Rightarrow> LFGMgr" where
  "SetGroup g grp = upd_player g (\<lambda>d. d\<lparr>pd_Group := grp\<rparr>)"

definition GetPlayers :: "LFGMgr \<Rightarrow> guid \<Rightarrow> guid list" where
  "GetPlayers m g = gd_Players (group_data m g)"

definition GetPlayerCount :: "LFGMgr \<Rightarrow> guid \<Rightarrow> u8" where
  "GetPlayerCount m g = of_nat (length (gd_Players (group_data m g)))"

definition GetLeader :: "LFGMgr \<Rightarrow> guid \<Rightarrow> guid" where
  "GetLeader m g = gd_Leader (group_data m g)"

definition SetLeader :: "guid \<Rightarrow> guid \<Rightarrow> LFGMgr \<Rightarrow> LFGMgr" where
  "SetLeader g l = upd_group g (\<lambda>d. d\<lparr>gd_Leader := l\<rparr>)"

definition AddPlayerToGroup :: "guid \<Rightarrow> guid \<Rightarrow> LFGMgr \<Rightarrow> LFGMgr" where
  "AddPlayerToGroup g p = upd_group g (group_AddPlayer p)"

definition RemovePlayerFromGroup :: "guid \<Rightarrow> guid \<Rightarrow> LFGMgr \<Rightarrow> u8 \<times> LFGMgr" where
  "RemovePlayerFromGroup g p m =
     (fst (group_RemovePlayer p (group_data m g)), upd_group g (\<lambda>d. snd (group_RemovePlayer p d)) m)"

definition mgr_IsLfgGroup :: "LFGMgr \<Rightarrow> guid \<Rightarrow> bool" where
  "mgr_IsLfgGroup m g \<longleftrightarrow> g \<noteq> 0 \<and> IsGroup g \<and> gd_OldState (group_data m g) \<noteq> LFG_STATE_NONE"

definition RemovePlayerData :: "guid \<Rightarrow> LFGMgr \<Rightarrow> LFGMgr" where
  "RemovePlayerData g m = m\<lparr>lm_PlayersStore := smap_erase g (lm_PlayersStore m)\<rparr>"

text \<open>A group that is being formed from a proposal keeps the state of its players.\<close>

definition RemoveGroupData :: "guid \<Rightarrow> LFGMgr \<Rightarrow> LFGMgr" where
  "RemoveGroupData g m =
     (let st = GetState m g;
          m1 = foldl (\<lambda>m p.
                  (let m1 = SetGroup p 0 m
                   in if st \<noteq> LFG_STATE_PROPOSAL then
                        send (SendLfgUpdateParty p (mk_LfgUpdateData LFG_UPDATETYPE_REMOVED_FROM_QUEUE))
                          (SetState p LFG_STATE_NONE m1)
                      else m1)) m (GetPlayers m g)
      in m1\<lparr>lm_GroupsStore := smap_erase g (lm_GroupsStore m1)\<rparr>)"

text \<open>The queue of a player, or of the first player of a group, is the one of his team.\<close>

definition queue_id :: "LFGMgr \<Rightarrow> guid \<Rightarrow> u8" where
  "queue_id m g =
     (if IsGroup g then
        (case GetPlayers m g of
           [] \<Rightarrow> 0
         | p # _ \<Rightarrow> if p \<noteq> 0 then GetTeam m p else 0)
      else GetTeam m g)"

definition empty_queue :: LFGQueue where
  "empty_queue = \<lparr>QueueDataStore = [], CompatibleMapStore = [], waitTimesAvgStore = [],
     waitTimesTankStore = [], waitTimesHealerStore = [], waitTimesDpsStore = [],
     currentQueueStore = [], newToQueueStore = []\<rparr>"

definition queue_of :: "LFGMgr \<Rightarrow> u8 \<Rightarrow> LFGQueue" where
  "queue_of m i = (case smap_find (lm_QueuesStore m) i of Some q \<Rightarrow> q | None \<Rightarrow> empty_queue)"

definition with_queue :: "u8 \<Rightarrow> (LFGQueue \<Rightarrow> LFGQueue) \<Rightarrow> LFGMgr \<Rightarrow> LFGMgr" where
  "with_queue i f m = m\<lparr>lm_QueuesStore := smap_put i (f (queue_of m i)) (lm_QueuesStore m)\<rparr>"

end
