(* ===== verification/LFGManager.thy ===== *)
theory LFGManager
  imports LFGSearch LFGData "HOL-Library.Signed_Division"
begin

text \<open>
  The manager of the dungeon finder, \<open>DungeonFinding/LFGMgr.cpp\<close>: joining and leaving, role checks,
  proposals, kick votes and the periodic update.
\<close>

section \<open>The world around\<close>

text \<open>
  What the manager asks of the rest of the server: who is connected and ignores whom, the group that
  exists for a guid, and the random draws of the queue.
\<close>

record lfg_env =
  le_connected :: "guid \<Rightarrow> bool"
  le_ignores :: "guid \<Rightarrow> guid \<Rightarrow> bool"
  le_groupExists :: "guid \<Rightarrow> bool"
  le_dungeon :: "u32 \<Rightarrow> nat"
  le_coin :: "u32 \<Rightarrow> guid \<Rightarrow> bool"

definition HasIgnore :: "lfg_env \<Rightarrow> guid \<Rightarrow> guid \<Rightarrow> bool" where
  "HasIgnore E a b \<longleftrightarrow> le_connected E a \<and> le_connected E b \<and> (le_ignores E a b \<or> le_ignores E b a)"

definition view_of :: "lfg_env \<Rightarrow> int \<Rightarrow> LFGMgr \<Rightarrow> lfg_view" where
  "view_of E t m =
     \<lparr>IsLfgGroup = mgr_IsLfgGroup m, Queued = (\<lambda>g. GetState m g = LFG_STATE_QUEUED),
      InOldDungeon = (\<lambda>g. GetOldState m g = LFG_STATE_DUNGEON), Ignores = HasIgnore E,
      now = t, draw_dungeon = le_dungeon E, draw_coin = le_coin E\<rparr>"

section \<open>Role checks\<close>

text \<open>The answer of a player; guid 0 aborts the check.\<close>

definition role_check_answer :: "guid \<Rightarrow> u8 \<Rightarrow> LfgRoleCheck \<Rightarrow> LfgRoleCheck" where
  "role_check_answer g roles rc =
     (if g = 0 then rc\<lparr>rc_state := LFG_ROLECHECK_ABORTED\<rparr>
      else if roles < PLAYER_ROLE_TANK then rc\<lparr>rc_state := LFG_ROLECHECK_NO_ROLE\<rparr>
      else
        let rc1 = rc\<lparr>rc_roles := smap_put g roles (rc_roles rc)\<rparr>
        in if list_all (\<lambda>(p, r). r \<noteq> PLAYER_ROLE_NONE) (rc_roles rc1) then
             rc1\<lparr>rc_state := (if fst (CheckGroupRoles (rc_roles rc1)) then LFG_ROLECHECK_FINISHED
                              else LFG_ROLECHECK_WRONG_ROLES)\<rparr>
           else rc1)"

text \<open>What each player of the role check is told, and his new state.\<close>

definition role_check_player ::
  "bool \<Rightarrow> guid \<Rightarrow> u8 \<Rightarrow> LfgRoleCheck \<Rightarrow> u32 list \<Rightarrow> LFGMgr \<Rightarrow> guid \<times> u8 \<Rightarrow> LFGMgr" where
  "role_check_player sendRoleChosen g roles rc dungeons m e =
     (let p = fst e;
          m1 = (if sendRoleChosen then send (SendLfgRoleChosen p g roles) m else m);
          m2 = send (SendLfgRoleCheckUpdate p rc) m1
      in case rc_state rc of
           LFG_ROLECHECK_INITIALITING \<Rightarrow> m2
         | LFG_ROLECHECK_FINISHED \<Rightarrow>
             (let m3 = SetRoles p (snd e) (SetState p LFG_STATE_QUEUED m2)
              in send (SendLfgUpdateParty p
                   (mk_LfgUpdateData_dungeons LFG_UPDATETYPE_ADDED_TO_QUEUE dungeons (GetComment m3 p))) m3)
         | _ \<Rightarrow>
             (let m3 = (if rc_leader rc = p
                        then send (SendLfgJoinResult p (mk_LfgJoinResultData LFG_JOIN_FAILED (rc_state rc))) m2
                        else m2)
              in RestoreState p
                   (send (SendLfgUpdateParty p (mk_LfgUpdateData LFG_UPDATETYPE_ROLECHECK_FAILED)) m3)))"

definition UpdateRoleCheck :: "int \<Rightarrow> guid \<Rightarrow> guid \<Rightarrow> u8 \<Rightarrow> LFGMgr \<Rightarrow> LFGMgr" where
  "UpdateRoleCheck t gg g roles m =
     (if gg = 0 then m
      else case smap_find (lm_RoleChecksStore m) gg of
        None \<Rightarrow> m
      | Some rc0 \<Rightarrow>
          (let sendRoleChosen = (rc_state rc0 \<noteq> LFG_ROLECHECK_DEFAULT \<and> g \<noteq> 0);
               rc = role_check_answer g roles rc0;
               dungeons = (if rc_rDungeonId rc \<noteq> 0 then [rc_rDungeonId rc] else rc_dungeons rc);
               m1 = m\<lparr>lm_RoleChecksStore := smap_put gg rc (lm_RoleChecksStore m)\<rparr>;
               m2 = foldl (role_check_player sendRoleChosen g roles rc dungeons) m1 (rc_roles rc)
           in if rc_state rc = LFG_ROLECHECK_FINISHED then
                let m3 = SetState gg LFG_STATE_QUEUED m2;
                    m4 = with_queue (queue_id m3 gg) (AddQueueData gg t (rc_dungeons rc) (rc_roles rc)) m3
                in m4\<lparr>lm_RoleChecksStore := smap_erase gg (lm_RoleChecksStore m4)\<rparr>
              else if rc_state rc \<noteq> LFG_ROLECHECK_INITIALITING then
                let m3 = RestoreState gg m2
                in m3\<lparr>lm_RoleChecksStore := smap_erase gg (lm_RoleChecksStore m3)\<rparr>
              else m2))"

section \<open>Proposals\<close>

text \<open>Who did not accept: his group, or he himself, leaves the queue.\<close>

definition deny_pending :: "LfgUpdateType \<Rightarrow> LfgProposalPlayer \<Rightarrow> LfgProposalPlayer" where
  "deny_pending type d =
     (if pp_accept d = LFG_ANSWER_PENDING \<and> type = LFG_UPDATETYPE_PROPOSAL_FAILED
      then d\<lparr>pp_accept := LFG_ANSWER_DENY\<rparr> else d)"

definition queued_as :: "guid \<times> LfgProposalPlayer \<Rightarrow> guid" where
  "queued_as e = (if pp_group (snd e) \<noteq> 0 then pp_group (snd e) else fst e)"

definition to_remove :: "(guid \<times> LfgProposalPlayer) list \<Rightarrow> guid list" where
  "to_remove players =
     foldl (\<lambda>s e. if pp_accept (snd e) = LFG_ANSWER_DENY then sset_insert (queued_as e) s else s) [] players"

definition proposal_removed_player ::
  "LfgUpdateType \<Rightarrow> LfgProposal \<Rightarrow> guid list \<Rightarrow> LFGMgr \<Rightarrow> guid \<times> LfgProposalPlayer \<Rightarrow> LFGMgr" where
  "proposal_removed_player type pr removed m e =
     (let p = fst e; gg = queued_as e; m1 = send (SendLfgUpdateProposal p pr) m
      in if gg \<in> set removed then
           (let data = mk_LfgUpdateData (if pp_accept (snd e) = LFG_ANSWER_DENY then type
                                         else LFG_UPDATETYPE_REMOVED_FROM_QUEUE);
                m2 = RestoreState p m1
            in if gg \<noteq> p then send (SendLfgUpdateParty p data) (RestoreState (pp_group (snd e)) m2)
               else send (SendLfgUpdatePlayer p data) m2)
         else
           (let m2 = SetState p LFG_STATE_QUEUED m1
            in if gg \<noteq> p then
                 (let m3 = SetState gg LFG_STATE_QUEUED m2
                  in send (SendLfgUpdateParty p (mk_LfgUpdateData_dungeons LFG_UPDATETYPE_ADDED_TO_QUEUE
                       (GetSelectedDungeons m3 p) (GetComment m3 p))) m3)
               else send (SendLfgUpdatePlayer p (mk_LfgUpdateData_dungeons LFG_UPDATETYPE_ADDED_TO_QUEUE
                       (GetSelectedDungeons m2 p) (GetComment m2 p))) m2))"

definition failed_proposal :: "LfgUpdateType \<Rightarrow> LfgProposal \<Rightarrow> LfgProposal" where
  "failed_proposal type pr =
     pr\<lparr>pr_state := LFG_PROPOSAL_FAILED,
        pr_players := map (\<lambda>(p, d). (p, deny_pending type d)) (pr_players pr)\<rparr>"

text \<open>The entry with the given id, which the callers have found.\<close>

definition RemoveProposal :: "u32 \<Rightarrow> LfgUpdateType \<Rightarrow> LFGMgr \<Rightarrow> LFGMgr" where
  "RemoveProposal i type m =
     (case smap_find (lm_ProposalsStore m) i of
        None \<Rightarrow> m
      | Some pr0 \<Rightarrow>
          (let pr = failed_proposal type pr0;
               removed = to_remove (pr_players pr);
               m1 = foldl (proposal_removed_player type pr removed) m (pr_players pr);
               qi = (case pr_players pr of e # _ \<Rightarrow> queue_id m1 (fst e) | [] \<Rightarrow> 0);
               rest = filter (\<lambda>g. g \<notin> set removed) (pr_queues pr);
               m2 = with_queue qi (\<lambda>q. foldl (\<lambda>q g. AddToQueue g True q)
                       (foldl (\<lambda>q g. RemoveFromQueue g q) q removed) rest) m1
           in m2\<lparr>lm_ProposalsStore := smap_erase i (lm_ProposalsStore m2)\<rparr>))"

text \<open>
  All have accepted: the waiting times of the queue learn from each player, \<open>IN_MILLISECONDS\<close> being
  1000, and the players are in the dungeon.
\<close>

definition wait_sample :: "u8 \<Rightarrow> u32 \<Rightarrow> u32 \<Rightarrow> LFGQueue \<Rightarrow> LFGQueue" where
  "wait_sample roles w i =
     (let role = roles AND NOT PLAYER_ROLE_LEADER
      in if role = PLAYER_ROLE_DAMAGE then UpdateWaitTimeDps w i
         else if role = PLAYER_ROLE_HEALER then UpdateWaitTimeHealer w i
         else if role = PLAYER_ROLE_TANK then UpdateWaitTimeTank w i
         else UpdateWaitTimeAvg w i)"

definition proposal_success_player ::
  "int \<Rightarrow> u8 \<Rightarrow> bool \<Rightarrow> LfgProposal \<Rightarrow> LfgUpdateType \<times> LFGMgr \<Rightarrow> guid \<times> LfgProposalPlayer
     \<Rightarrow> LfgUpdateType \<times> LFGMgr" where
  "proposal_success_player joinTime qi sendUpdate pr um e =
     (let (ut, m) = um; p = fst e; gg = pp_group (snd e);
          (dungeonId, bad) = (case GetSelectedDungeons m p of d # _ \<Rightarrow> (d, False) | [] \<Rightarrow> (0, True));
          m1 = m\<lparr>lm_undefined := (lm_undefined m \<or> bad)\<rparr>;
          m2 = (if sendUpdate then send (SendLfgUpdateProposal p pr) m1 else m1);
          (t0, q) = GetJoinTime joinTime (if gg \<noteq> 0 then gg else p) (queue_of m2 qi);
          m3 = with_queue qi (\<lambda>_. q) m2;
          waitTime = word_of_int ((joinTime - t0) sdiv 1000);
          m4 = (if gg \<noteq> 0 then send (SendLfgUpdateParty p (mk_LfgUpdateData ut)) m3
                else send (SendLfgUpdatePlayer p (mk_LfgUpdateData ut)) m3);
          removed = mk_LfgUpdateData LFG_UPDATETYPE_REMOVED_FROM_QUEUE;
          m5 = send (SendLfgUpdateParty p removed) (send (SendLfgUpdatePlayer p removed) m4);
          m6 = with_queue qi (wait_sample (GetRoles m5 p) waitTime dungeonId) m5
      in (LFG_UPDATETYPE_REMOVED_FROM_QUEUE, SetState p LFG_STATE_DUNGEON m6))"

text \<open>
  \<open>MakeNewGroup\<close> builds the group of the server, which calls the manager back; here it is a message.
\<close>

definition proposal_success :: "int \<Rightarrow> u32 \<Rightarrow> guid \<Rightarrow> LfgProposal \<Rightarrow> LFGMgr \<Rightarrow> LFGMgr" where
  "proposal_success t i g pr0 m =
     (let sendUpdate = (pr_state pr0 \<noteq> LFG_PROPOSAL_SUCCESS);
          pr = pr0\<lparr>pr_state := LFG_PROPOSAL_SUCCESS\<rparr>;
          m0 = m\<lparr>lm_ProposalsStore := smap_put i pr (lm_ProposalsStore m)\<rparr>;
          qi = queue_id m0 g;
          (_, m1) = foldl (proposal_success_player t qi sendUpdate pr) (LFG_UPDATETYPE_GROUP_FOUND, m0) (pr_players pr);
          m2 = with_queue qi (\<lambda>q. foldl (\<lambda>q g. RemoveFromQueue g q) q (pr_queues pr)) m1;
          m3 = send (MakeNewGroup pr) m2
      in m3\<lparr>lm_ProposalsStore := smap_erase i (lm_ProposalsStore m3)\<rparr>)"

definition UpdateProposal :: "int \<Rightarrow> u32 \<Rightarrow> guid \<Rightarrow> bool \<Rightarrow> LFGMgr \<Rightarrow> LFGMgr" where
  "UpdateProposal t i g accept m =
     (case smap_find (lm_ProposalsStore m) i of
        None \<Rightarrow> m
      | Some pr0 \<Rightarrow>
          (case smap_find (pr_players pr0) g of
             None \<Rightarrow> m
           | Some d \<Rightarrow>
               (let d' = d\<lparr>pp_accept := (if accept then LFG_ANSWER_AGREE else LFG_ANSWER_DENY)\<rparr>;
                    pr = pr0\<lparr>pr_players := smap_put g d' (pr_players pr0)\<rparr>;
                    m1 = m\<lparr>lm_ProposalsStore := smap_put i pr (lm_ProposalsStore m)\<rparr>
                in if \<not> accept then RemoveProposal i LFG_UPDATETYPE_PROPOSAL_DECLINED m1
                   else if \<not> list_all (\<lambda>(p, d). pp_accept d = LFG_ANSWER_AGREE) (pr_players pr) then
                     foldl (\<lambda>m (p, d). send (SendLfgUpdateProposal p pr) m) m1 (pr_players pr)
                   else proposal_success t i g pr m1)))"

section \<open>Kick votes\<close>

abbreviation "LFG_TIME_BOOT \<equiv> (120 :: int)"
abbreviation "LFG_GROUP_KICK_VOTES_NEEDED \<equiv> (3 :: u8)"

text \<open>\<open>BootsStore[gguid]\<close> keeps the votes of an entry that is there already.\<close>

definition InitBoot :: "int \<Rightarrow> guid \<Rightarrow> guid \<Rightarrow> guid \<Rightarrow> string \<Rightarrow> LFGMgr \<Rightarrow> LFGMgr" where
  "InitBoot t gg kicker victim reason m =
     (let m1 = SetVoteKick gg True m;
          old = (case smap_find (lm_BootsStore m1) gg of Some b \<Rightarrow> bt_votes b | None \<Rightarrow> []);
          players = GetPlayers m1 gg;
          votes = foldl (\<lambda>v p. smap_put p LFG_ANSWER_PENDING v) old players;
          boot = \<lparr>bt_cancelTime = t + LFG_TIME_BOOT, bt_inProgress = True,
                  bt_votes = smap_put kicker LFG_ANSWER_AGREE (smap_put victim LFG_ANSWER_DENY votes),
                  bt_victim = victim, bt_reason = reason\<rparr>
      in foldl (\<lambda>m p. send (SendLfgBootProposalUpdate p boot) m)
           (m1\<lparr>lm_BootsStore := smap_put gg boot (lm_BootsStore m1)\<rparr>) players)"

text \<open>The votes given, and those that agree, as \<open>uint8\<close> counters.\<close>

definition votesNum :: "(guid \<times> LfgAnswer) list \<Rightarrow> u8" where
  "votesNum votes = of_nat (length (filter (\<lambda>(p, v). v \<noteq> LFG_ANSWER_PENDING) votes))"

definition agreeNum :: "(guid \<times> LfgAnswer) list \<Rightarrow> u8" where
  "agreeNum votes = of_nat (length (filter (\<lambda>(p, v). v = LFG_ANSWER_AGREE) votes))"

definition tell_vote_ended :: "LfgPlayerBoot \<Rightarrow> LFGMgr \<Rightarrow> LFGMgr" where
  "tell_vote_ended boot m =
     foldl (\<lambda>m (p, v). if p \<noteq> bt_victim boot then send (SendLfgBootProposalUpdate p boot) m else m)
       m (bt_votes boot)"

text \<open>
  \<open>boot.votes[guid]\<close> of a player without a vote makes the entry with the value 0, which is
  \<open>LFG_ANSWER_DENY\<close>. The votes stay in the store when the vote goes on.
\<close>

definition UpdateBoot :: "lfg_env \<Rightarrow> guid \<Rightarrow> bool \<Rightarrow> LFGMgr \<Rightarrow> LFGMgr" where
  "UpdateBoot E g accept m =
     (let gg = GetGroup m g
      in if gg = 0 then m
         else case smap_find (lm_BootsStore m) gg of
           None \<Rightarrow> m
         | Some b \<Rightarrow>
             (case smap_find (bt_votes b) g of
                None \<Rightarrow> m\<lparr>lm_BootsStore := smap_put gg (b\<lparr>bt_votes := smap_put g LFG_ANSWER_DENY (bt_votes b)\<rparr>)
                                             (lm_BootsStore m)\<rparr>
              | Some v \<Rightarrow>
                  if v \<noteq> LFG_ANSWER_PENDING then m
                  else
                    let votes = smap_put g (if accept then LFG_ANSWER_AGREE else LFG_ANSWER_DENY) (bt_votes b);
                        b1 = b\<lparr>bt_votes := votes\<rparr>;
                        m1 = m\<lparr>lm_BootsStore := smap_put gg b1 (lm_BootsStore m)\<rparr>;
                        n = votesNum votes; k = agreeNum votes
                    in if k < LFG_GROUP_KICK_VOTES_NEEDED \<and> n - k < LFG_GROUP_KICK_VOTES_NEEDED then m1
                       else
                         let b2 = b1\<lparr>bt_inProgress := False\<rparr>;
                             m2 = SetVoteKick gg False (tell_vote_ended b2 m1);
                             m3 = (if k = LFG_GROUP_KICK_VOTES_NEEDED then
                                     DecreaseKicksLeft gg
                                       (if le_groupExists E gg then send (RemoveFromGroup gg (bt_victim b2)) m2 else m2)
                                   else m2)
                         in m3\<lparr>lm_BootsStore := smap_erase gg (lm_BootsStore m3)\<rparr>))"

section \<open>Joining\<close>

text \<open>What joining asks of a player, of his group, and of the dungeons.\<close>

record joiner =
  jn_guid :: guid
  jn_permission :: bool
  jn_usesBattleground :: bool
  jn_deserter :: bool
  jn_cooldown :: bool
  jn_frozen :: bool

record join_group =
  jg_guid :: guid
  jg_isLFGGroup :: bool
  jg_membersCount :: u32
  jg_members :: "joiner option list"

record dungeon_env =
  de_type :: "u32 \<Rightarrow> LfgType"
  de_byRandom :: "u32 \<Rightarrow> u32 list"
  de_locked :: "guid \<Rightarrow> (u32 \<times> u32) list"
  de_boundInstance :: "guid \<Rightarrow> u32 \<Rightarrow> u32 option"

abbreviation "LFG_LOCKSTATUS_RAID_LOCKED \<equiv> (6 :: u32)"

text \<open>
  \<open>GetCompatibleDungeons\<close>: one lock of one player. The state is the dungeons left, the locks to
  show, and the instances the players are bound to.
\<close>

type_synonym compat_state = "u32 list \<times> (guid \<times> (u32 \<times> u32) list) list \<times> (u32 \<times> u32) list"

definition add_lock :: "guid \<Rightarrow> u32 \<Rightarrow> u32 \<Rightarrow> (guid \<times> (u32 \<times> u32) list) list \<Rightarrow> (guid \<times> (u32 \<times> u32) list) list" where
  "add_lock g d st lockMap =
     smap_put g (smap_put d st (case smap_find lockMap g of Some l \<Rightarrow> l | None \<Rightarrow> [])) lockMap"

definition check_lock :: "dungeon_env \<Rightarrow> bool \<Rightarrow> guid \<Rightarrow> u32 \<times> u32 \<Rightarrow> compat_state \<Rightarrow> compat_state" where
  "check_lock D isContinue g lk cs =
     (let (dungeons, lockMap, bound) = cs;
          d = fst lk AND 0x00FFFFFF
      in if d \<notin> set dungeons then cs
         else
           let (eraseDungeon, bound') =
                 (if snd lk = LFG_LOCKSTATUS_RAID_LOCKED \<and> isContinue then
                    (case de_boundInstance D g d of
                       None \<Rightarrow> (True, bound)
                     | Some inst \<Rightarrow>
                         ((case smap_find bound d of None \<Rightarrow> False | Some i \<Rightarrow> i \<noteq> inst), smap_put d inst bound))
                  else (True, bound))
           in (if eraseDungeon then sset_erase d dungeons else dungeons, add_lock g d (snd lk) lockMap, bound'))"

fun check_locks :: "dungeon_env \<Rightarrow> bool \<Rightarrow> guid \<Rightarrow> (u32 \<times> u32) list \<Rightarrow> compat_state \<Rightarrow> compat_state" where
  "check_locks D isContinue g [] cs = cs"
| "check_locks D isContinue g (lk # lks) cs =
     (if fst cs = [] then cs else check_locks D isContinue g lks (check_lock D isContinue g lk cs))"

fun check_members :: "dungeon_env \<Rightarrow> bool \<Rightarrow> guid list \<Rightarrow> compat_state \<Rightarrow> compat_state" where
  "check_members D isContinue [] cs = cs"
| "check_members D isContinue (g # gs) cs =
     (if fst cs = [] then cs
      else check_members D isContinue gs (check_locks D isContinue g (de_locked D g) cs))"

definition GetCompatibleDungeons ::
  "dungeon_env \<Rightarrow> u32 list \<Rightarrow> guid list \<Rightarrow> bool \<Rightarrow> u32 list \<times> (guid \<times> (u32 \<times> u32) list) list" where
  "GetCompatibleDungeons D dungeons players isContinue =
     (let (ds, lockMap, _) = check_members D isContinue players (dungeons, [], [])
      in (ds, if ds \<noteq> [] then [] else lockMap))"

text \<open>The restrictions of the player himself, and of the members of his group.\<close>

definition join_self :: "joiner \<Rightarrow> u32 list \<Rightarrow> LfgJoinResult" where
  "join_self p dungeons =
     (if \<not> jn_permission p then LFG_JOIN_NOT_MEET_REQS
      else if jn_usesBattleground p then LFG_JOIN_USING_BG_SYSTEM
      else if jn_deserter p then LFG_JOIN_DESERTER
      else if jn_cooldown p then LFG_JOIN_RANDOM_COOLDOWN
      else if dungeons = [] then LFG_JOIN_NOT_MEET_REQS
      else if jn_frozen p then LFG_JOIN_NOT_MEET_REQS
      else LFG_JOIN_OK)"

definition join_member :: "joiner \<Rightarrow> LfgJoinResult" where
  "join_member p =
     (if jn_deserter p then LFG_JOIN_PARTY_DESERTER
      else if jn_cooldown p then LFG_JOIN_PARTY_RANDOM_COOLDOWN
      else if jn_usesBattleground p then LFG_JOIN_USING_BG_SYSTEM
      else if jn_frozen p then LFG_JOIN_PARTY_NOT_MEET_REQS
      else if \<not> jn_permission p then LFG_JOIN_PARTY_NOT_MEET_REQS
      else LFG_JOIN_OK)"

fun join_members :: "joiner option list \<Rightarrow> u8 \<Rightarrow> guid list \<Rightarrow> LfgJoinResult \<times> u8 \<times> guid list" where
  "join_members [] n players = (LFG_JOIN_OK, n, players)"
| "join_members (None # ms) n players = join_members ms n players"
| "join_members (Some p # ms) n players =
     (if join_member p \<noteq> LFG_JOIN_OK then (join_member p, n + 1, sset_insert (jn_guid p) players)
      else join_members ms (n + 1) (sset_insert (jn_guid p) players))"

definition join_party :: "joiner \<Rightarrow> join_group option \<Rightarrow> u32 list \<Rightarrow> LfgJoinResult \<times> guid list" where
  "join_party p grp dungeons =
     (case grp of
        None \<Rightarrow> (join_self p dungeons, [jn_guid p])
      | Some g \<Rightarrow>
          if join_self p dungeons \<noteq> LFG_JOIN_OK then (join_self p dungeons, [])
          else if jg_membersCount g > 5 then (LFG_JOIN_TOO_MUCH_MEMBERS, [])
          else (case join_members (jg_members g) 0 [] of
                  (r, n, players) \<Rightarrow>
                    (if r = LFG_JOIN_OK \<and> ucast n \<noteq> jg_membersCount g then LFG_JOIN_DISCONNECTED else r, players)))"

text \<open>The kinds of the dungeons asked for; a random one stands alone.\<close>

fun check_types ::
  "dungeon_env \<Rightarrow> u32 list \<Rightarrow> u32 list \<Rightarrow> bool \<Rightarrow> bool \<Rightarrow> u32 \<Rightarrow> LfgJoinResult \<times> bool \<times> u32" where
  "check_types D all [] isRaid isDungeon rid = (LFG_JOIN_OK, isRaid, rid)"
| "check_types D all (d # ds) isRaid isDungeon rid =
     (let instance_dungeon = (\<lambda>r rid'.
            (let r' = (if isRaid then LFG_JOIN_MIXED_RAID_DUNGEON else r)
             in if r' \<noteq> LFG_JOIN_OK then (r', isRaid, rid')
                else check_types D all ds isRaid True rid'))
      in case de_type D d of
           LFG_TYPE_RANDOM \<Rightarrow>
             (if length all > 1 then instance_dungeon LFG_JOIN_DUNGEON_INVALID rid
              else instance_dungeon LFG_JOIN_OK (hd all))
         | LFG_TYPE_HEROIC \<Rightarrow> instance_dungeon LFG_JOIN_OK rid
         | LFG_TYPE_DUNGEON \<Rightarrow> instance_dungeon LFG_JOIN_OK rid
         | LFG_TYPE_RAID \<Rightarrow>
             (if isDungeon then (LFG_JOIN_MIXED_RAID_DUNGEON, True, rid)
              else check_types D all ds True isDungeon rid)
         | LFG_TYPE_NONE \<Rightarrow> (LFG_JOIN_DUNGEON_INVALID, isRaid, rid))"

record join_check =
  jc_result :: LfgJoinResult
  jc_lockmap :: "(guid \<times> (u32 \<times> u32) list) list"
  jc_dungeons :: "u32 list"
  jc_rDungeonId :: u32
  jc_isRaid :: bool

definition check_join :: "dungeon_env \<Rightarrow> joiner \<Rightarrow> join_group option \<Rightarrow> u32 list \<Rightarrow> bool \<Rightarrow> join_check" where
  "check_join D p grp dungeons isContinue =
     (let (r0, players) = join_party p grp dungeons
      in if r0 \<noteq> LFG_JOIN_OK then
           \<lparr>jc_result = r0, jc_lockmap = [], jc_dungeons = dungeons, jc_rDungeonId = 0, jc_isRaid = False\<rparr>
         else
           let (r1, isRaid, rid) = check_types D dungeons dungeons False False 0
           in if r1 \<noteq> LFG_JOIN_OK then
                \<lparr>jc_result = r1, jc_lockmap = [], jc_dungeons = dungeons, jc_rDungeonId = rid, jc_isRaid = isRaid\<rparr>
              else
                let (ds, lockMap) = GetCompatibleDungeons D (if rid \<noteq> 0 then de_byRandom D rid else dungeons)
                                      players isContinue;
                    r2 = (if ds = [] then (if grp \<noteq> None then LFG_JOIN_PARTY_NOT_MEET_REQS
                                           else LFG_JOIN_NOT_MEET_REQS)
                          else LFG_JOIN_OK)
                in \<lparr>jc_result = r2, jc_lockmap = lockMap, jc_dungeons = ds, jc_rDungeonId = rid, jc_isRaid = isRaid\<rparr>)"

abbreviation "LFG_TIME_ROLECHECK \<equiv> (45 * 1000 :: int)"

text \<open>A group begins a role check, with no role chosen by the connected members.\<close>

definition begin_role_check ::
  "int \<Rightarrow> join_group \<Rightarrow> guid \<Rightarrow> u8 \<Rightarrow> string \<Rightarrow> bool \<Rightarrow> join_check \<Rightarrow> LFGMgr \<Rightarrow> LFGMgr" where
  "begin_role_check t grp g roles comment isContinue jc m =
     (let gg = jg_guid grp; rid = jc_rDungeonId jc;
          old = (case smap_find (lm_RoleChecksStore m) gg of Some rc \<Rightarrow> rc_roles rc | None \<Rightarrow> []);
          members = map jn_guid (List.map_filter id (jg_members grp));
          rc = \<lparr>rc_cancelTime = t + LFG_TIME_ROLECHECK,
                rc_roles = foldl (\<lambda>rs p. smap_put p PLAYER_ROLE_NONE rs) old members,
                rc_state = LFG_ROLECHECK_INITIALITING, rc_dungeons = jc_dungeons jc,
                rc_rDungeonId = rid, rc_leader = g\<rparr>;
          dungeons = (if rid \<noteq> 0 then [rid] else jc_dungeons jc);
          data = mk_LfgUpdateData_dungeons LFG_UPDATETYPE_JOIN_QUEUE dungeons comment;
          m1 = SetState gg LFG_STATE_ROLECHECK m;
          m2 = foldl (\<lambda>m p.
                 (let m1 = SetState p LFG_STATE_ROLECHECK (send (SendLfgUpdateParty p data) m)
                  in if \<not> isContinue then SetSelectedDungeons p dungeons m1 else m1)) m1 members
      in UpdateRoleCheck t gg g roles
           (m2\<lparr>lm_RoleChecksStore := smap_put gg rc (lm_RoleChecksStore m2)\<rparr>))"

text \<open>A player alone goes to the queue of his team.\<close>

definition join_alone :: "int \<Rightarrow> guid \<Rightarrow> u8 \<Rightarrow> string \<Rightarrow> bool \<Rightarrow> join_check \<Rightarrow> LFGMgr \<Rightarrow> LFGMgr" where
  "join_alone t g roles comment isContinue jc m =
     (let rid = jc_rDungeonId jc;
          m1 = with_queue (queue_id m g) (AddQueueData g t (jc_dungeons jc) [(g, roles)]) m;
          dungeons = (if \<not> isContinue \<and> rid \<noteq> 0 then [rid] else jc_dungeons jc);
          m2 = (if \<not> isContinue then SetSelectedDungeons g dungeons m1 else m1);
          m3 = send (SendLfgJoinResult g \<lparr>jr_result = jc_result jc, jr_state = LFG_ROLECHECK_DEFAULT,
                                           jr_lockmap = jc_lockmap jc\<rparr>) m2;
          m4 = send (SendLfgUpdatePlayer g (mk_LfgUpdateData_dungeons LFG_UPDATETYPE_JOIN_QUEUE dungeons comment)) m3
      in SetRoles g roles (SetState g LFG_STATE_QUEUED m4))"

definition JoinLfg ::
  "dungeon_env \<Rightarrow> int \<Rightarrow> joiner \<Rightarrow> join_group option \<Rightarrow> u8 \<Rightarrow> u32 list \<Rightarrow> string \<Rightarrow> LFGMgr \<Rightarrow> LFGMgr" where
  "JoinLfg D t p grp roles dungeons0 comment m =
     (if dungeons0 = [] then m
      else
        let g = jn_guid p;
            gg = (case grp of Some x \<Rightarrow> jg_guid x | None \<Rightarrow> g);
            isContinue = (case grp of Some x \<Rightarrow> jg_isLFGGroup x \<and> GetState m gg \<noteq> LFG_STATE_FINISHED_DUNGEON
                                    | None \<Rightarrow> False);
            dungeons = (if isContinue then [GetDungeon m gg] else dungeons0);
            m1 = (if GetState m gg = LFG_STATE_QUEUED then with_queue (queue_id m gg) (RemoveFromQueue gg) m else m);
            jc = check_join D p grp dungeons isContinue
        in if jc_result jc \<noteq> LFG_JOIN_OK then
             send (SendLfgJoinResult g \<lparr>jr_result = jc_result jc, jr_state = LFG_ROLECHECK_DEFAULT,
                     jr_lockmap = (if jc_dungeons jc \<noteq> [] then [] else jc_lockmap jc)\<rparr>) m1
           else
             let m2 = SetComment g comment m1
             in if jc_isRaid jc then m2
                else case grp of
                       Some x \<Rightarrow> begin_role_check t x g roles comment isContinue jc m2
                     | None \<Rightarrow> join_alone t g roles comment isContinue jc m2)"

section \<open>Leaving\<close>

definition LeaveLfg :: "int \<Rightarrow> guid \<Rightarrow> bool \<Rightarrow> LFGMgr \<Rightarrow> LFGMgr" where
  "LeaveLfg t g disconnected m =
     (let gg = (if IsGroup g then g else GetGroup m g);
          removed = mk_LfgUpdateData LFG_UPDATETYPE_REMOVED_FROM_QUEUE
      in case GetState m g of
           LFG_STATE_QUEUED \<Rightarrow>
             (if gg \<noteq> 0 then
                let m1 = SetState gg LFG_STATE_NONE (with_queue (queue_id m gg) (RemoveFromQueue gg) m)
                in foldl (\<lambda>m p. send (SendLfgUpdateParty p removed) (SetState p LFG_STATE_NONE m)) m1
                     (GetPlayers m1 gg)
              else
                SetState g LFG_STATE_NONE
                  (send (SendLfgUpdatePlayer g removed) (with_queue (queue_id m g) (RemoveFromQueue g) m)))
         | LFG_STATE_ROLECHECK \<Rightarrow> (if gg \<noteq> 0 then UpdateRoleCheck t gg 0 PLAYER_ROLE_NONE m else m)
         | LFG_STATE_PROPOSAL \<Rightarrow>
             (let p = (if gg = g then GetLeader m gg else g)
              in case find (\<lambda>(i, pr). smap_find (pr_players pr) p \<noteq> None) (lm_ProposalsStore m) of
                   None \<Rightarrow> m
                 | Some (i, pr) \<Rightarrow>
                     (let d = the (smap_find (pr_players pr) p);
                          pr1 = pr\<lparr>pr_players := smap_put p (d\<lparr>pp_accept := LFG_ANSWER_DENY\<rparr>) (pr_players pr)\<rparr>
                      in RemoveProposal i LFG_UPDATETYPE_PROPOSAL_DECLINED
                           (m\<lparr>lm_ProposalsStore := smap_put i pr1 (lm_ProposalsStore m)\<rparr>)))
         | LFG_STATE_NONE \<Rightarrow> m
         | LFG_STATE_RAIDBROWSER \<Rightarrow> m
         | LFG_STATE_DUNGEON \<Rightarrow> (if g \<noteq> gg \<and> \<not> disconnected then SetState g LFG_STATE_NONE m else m)
         | LFG_STATE_FINISHED_DUNGEON \<Rightarrow> (if g \<noteq> gg \<and> \<not> disconnected then SetState g LFG_STATE_NONE m else m))"

section \<open>The update\<close>

text \<open>A role check nobody finished in time.\<close>

definition obsolete_role_check :: "LFGMgr \<Rightarrow> guid \<times> LfgRoleCheck \<Rightarrow> LFGMgr" where
  "obsolete_role_check m e =
     (let gg = fst e;
          rc = (snd e)\<lparr>rc_state := LFG_ROLECHECK_MISSING_ROLE\<rparr>;
          m1 = foldl (\<lambda>m (p, r).
                 (let m1 = send (SendLfgRoleCheckUpdate p rc) (RestoreState p m)
                  in if p = rc_leader rc then
                       send (SendLfgJoinResult p (mk_LfgJoinResultData LFG_JOIN_FAILED LFG_ROLECHECK_MISSING_ROLE)) m1
                     else m1)) m (rc_roles rc);
          m2 = RestoreState gg m1
      in m2\<lparr>lm_RoleChecksStore := smap_erase gg (lm_RoleChecksStore m2)\<rparr>)"

definition obsolete_boot :: "LFGMgr \<Rightarrow> guid \<times> LfgPlayerBoot \<Rightarrow> LFGMgr" where
  "obsolete_boot m e =
     (let b = (snd e)\<lparr>bt_inProgress := False\<rparr>;
          m1 = SetVoteKick (fst e) False (tell_vote_ended b m)
      in m1\<lparr>lm_BootsStore := smap_erase (fst e) (lm_BootsStore m1)\<rparr>)"

text \<open>The search of one queue, whose proposals go to the store with the next ids.\<close>

definition find_groups_in :: "lfg_env \<Rightarrow> int \<Rightarrow> LFGMgr \<Rightarrow> u8 \<Rightarrow> LFGMgr" where
  "find_groups_in E t m i =
     (let (n, s) = FindGroups (view_of E t m)
                     \<lparr>qs_queue = queue_of m i, qs_lastId = lm_lfgProposalId m, qs_proposals = []\<rparr>
      in m\<lparr>lm_QueuesStore := smap_put i (qs_queue s) (lm_QueuesStore m), lm_lfgProposalId := qs_lastId s,
           lm_ProposalsStore := foldl (\<lambda>ps pr. smap_put (pr_id pr) pr ps) (lm_ProposalsStore m)
                                  (rev (qs_proposals s))\<rparr>)"

text \<open>What the players of a new proposal are told.\<close>

definition announce_player :: "LfgProposal \<Rightarrow> LFGMgr \<Rightarrow> guid \<times> LfgProposalPlayer \<Rightarrow> LFGMgr" where
  "announce_player pr m e =
     (let p = fst e;
          m1 = SetState p LFG_STATE_PROPOSAL m;
          gg = GetGroup m1 p;
          data = (\<lambda>m. mk_LfgUpdateData_dungeons LFG_UPDATETYPE_PROPOSAL_BEGIN (GetSelectedDungeons m p) (GetComment m p));
          m2 = (if gg \<noteq> 0 then
                  (let m2 = SetState gg LFG_STATE_PROPOSAL m1 in send (SendLfgUpdateParty p (data m2)) m2)
                else send (SendLfgUpdatePlayer p (data m1)) m1)
      in send (SendLfgUpdateProposal p pr) m2)"

text \<open>
  When \<open>UpdateProposal\<close> erases the proposal the loop is at, the increment of its iterator is undefined.
\<close>

definition announce :: "int \<Rightarrow> LFGMgr \<Rightarrow> u32 \<times> LfgProposal \<Rightarrow> LFGMgr" where
  "announce t m e =
     (let pr = snd e;
          m1 = foldl (announce_player pr) m (pr_players pr)
      in if pr_state pr = LFG_PROPOSAL_SUCCESS then
           let m2 = UpdateProposal t (fst e) (if pr_players pr = [] then 0 else fst (last (pr_players pr))) True m1
           in m2\<lparr>lm_undefined := (lm_undefined m2 \<or> smap_find (lm_ProposalsStore m2) (fst e) = None)\<rparr>
         else m1)"

text \<open>
  The proposals from the last id on (\<open>ProposalsStore.find(m_lfgProposalId)\<close> and what follows it in the
  order of the ids).
\<close>

definition announced :: "LFGMgr \<Rightarrow> (u32 \<times> LfgProposal) list" where
  "announced m = dropWhile (\<lambda>e. fst e \<noteq> lm_lfgProposalId m) (lm_ProposalsStore m)"

abbreviation "LFG_QUEUEUPDATE_INTERVAL \<equiv> (15000 :: u32)"

definition update_timers :: "int \<Rightarrow> LFGMgr \<Rightarrow> u8 \<Rightarrow> LFGMgr" where
  "update_timers t m i =
     (case UpdateQueueTimers t (queue_of m i) of
        None \<Rightarrow> m\<lparr>lm_undefined := True\<rparr>
      | Some (q, out) \<Rightarrow>
          foldl (\<lambda>m (p, d). send (SendLfgQueueStatus p d) m)
            (m\<lparr>lm_QueuesStore := smap_put i q (lm_QueuesStore m)\<rparr>) out)"

definition remove_obsolete :: "int \<Rightarrow> LFGMgr \<Rightarrow> LFGMgr" where
  "remove_obsolete t m =
     (let m1 = foldl obsolete_role_check m (filter (\<lambda>(g, rc). rc_cancelTime rc \<le> t) (lm_RoleChecksStore m));
          m2 = foldl (\<lambda>m (i, pr). RemoveProposal i LFG_UPDATETYPE_PROPOSAL_FAILED m) m1
                 (filter (\<lambda>(i, pr). pr_cancelTime pr < t) (lm_ProposalsStore m1))
      in foldl obsolete_boot m2 (filter (\<lambda>(g, b). bt_cancelTime b < t) (lm_BootsStore m2)))"

definition search_queues :: "lfg_env \<Rightarrow> int \<Rightarrow> LFGMgr \<Rightarrow> LFGMgr" where
  "search_queues E t m =
     (let lastProposalId = lm_lfgProposalId m;
          m1 = foldl (find_groups_in E t) m (map fst (lm_QueuesStore m))
      in if lastProposalId \<noteq> lm_lfgProposalId m1 then foldl (announce t) m1 (announced m1) else m1)"

definition Update :: "lfg_env \<Rightarrow> int \<Rightarrow> u32 \<Rightarrow> LFGMgr \<Rightarrow> LFGMgr" where
  "Update E t diff m =
     (if lm_options m AND 3 = 0 then m
      else
        let m1 = search_queues E t (remove_obsolete t m)
        in if lm_QueueTimer m1 > LFG_QUEUEUPDATE_INTERVAL then
             foldl (update_timers t) (m1\<lparr>lm_QueueTimer := 0\<rparr>) (map fst (lm_QueuesStore m1))
           else m1\<lparr>lm_QueueTimer := lm_QueueTimer m1 + diff\<rparr>)"

end
