(* ===== verification/LFGRules.thy ===== *)
theory LFGRules
  imports LFGKeep LFGManager
begin

text \<open>
  What the manager of the dungeon finder keeps true: the queues only hold entries whose roles and
  dungeons were checked, so every proposal has five players with the roles of a group, and a group is
  only made of five players who all agreed.
\<close>

text \<open>The manager asks both ignore lists, so that the queue may ask once for two players.\<close>

lemma view_of_ignores: "ignores_both_ways (view_of E t m)"
  by (auto simp: ignores_both_ways_def view_of_def HasIgnore_def)

section \<open>What an operation leaves alone\<close>

definition groups_made :: "LFGMgr \<Rightarrow> LfgProposal set" where
  "groups_made m = {pr. MakeNewGroup pr \<in> set (lm_sent m)}"

lemma groups_made_send [simp]:
  "groups_made (send x m) = (case x of MakeNewGroup pr \<Rightarrow> insert pr (groups_made m) | _ \<Rightarrow> groups_made m)"
  by (auto simp: groups_made_def send_def split: lfg_msg.splits)

lemma groups_made_fields [simp]:
  "groups_made (m\<lparr>lm_QueuesStore := qs\<rparr>) = groups_made m"
  "groups_made (m\<lparr>lm_RoleChecksStore := rs\<rparr>) = groups_made m"
  "groups_made (m\<lparr>lm_ProposalsStore := ps\<rparr>) = groups_made m"
  "groups_made (m\<lparr>lm_BootsStore := bs\<rparr>) = groups_made m"
  "groups_made (m\<lparr>lm_lfgProposalId := i\<rparr>) = groups_made m"
  "groups_made (m\<lparr>lm_QueueTimer := t\<rparr>) = groups_made m"
  "groups_made (m\<lparr>lm_undefined := b\<rparr>) = groups_made m"
  "groups_made (m\<lparr>lm_PlayersStore := pl\<rparr>) = groups_made m"
  "groups_made (m\<lparr>lm_GroupsStore := gr\<rparr>) = groups_made m"
  by (simp_all add: groups_made_def)

text \<open>The stores of the manager apart from the data of players and groups.\<close>

definition same_stores :: "LFGMgr \<Rightarrow> LFGMgr \<Rightarrow> bool" where
  "same_stores m m' \<longleftrightarrow> lm_QueuesStore m' = lm_QueuesStore m \<and> lm_RoleChecksStore m' = lm_RoleChecksStore m
     \<and> lm_ProposalsStore m' = lm_ProposalsStore m \<and> groups_made m' = groups_made m"

lemma same_stores_refl [simp]: "same_stores m m"
  by (simp add: same_stores_def)

lemma same_stores_trans: "same_stores m n \<Longrightarrow> same_stores n k \<Longrightarrow> same_stores m k"
  by (simp add: same_stores_def)

lemma same_stores_foldl:
  "(\<And>m x. same_stores m (f m x)) \<Longrightarrow> same_stores m (foldl f m xs)"
  by (rule foldl_invariant) (auto intro: same_stores_trans)

lemma upd_stores:
  "lm_QueuesStore (upd_player g f m) = lm_QueuesStore m" "lm_QueuesStore (upd_group g h m) = lm_QueuesStore m"
  "lm_RoleChecksStore (upd_player g f m) = lm_RoleChecksStore m" "lm_RoleChecksStore (upd_group g h m) = lm_RoleChecksStore m"
  "lm_ProposalsStore (upd_player g f m) = lm_ProposalsStore m" "lm_ProposalsStore (upd_group g h m) = lm_ProposalsStore m"
  "groups_made (upd_player g f m) = groups_made m" "groups_made (upd_group g h m) = groups_made m"
  by (simp_all add: upd_player_def upd_group_def groups_made_def)

lemma send_stores [simp]:
  "lm_QueuesStore (send x m) = lm_QueuesStore m" "lm_RoleChecksStore (send x m) = lm_RoleChecksStore m"
  "lm_ProposalsStore (send x m) = lm_ProposalsStore m" "lm_BootsStore (send x m) = lm_BootsStore m"
  "lm_PlayersStore (send x m) = lm_PlayersStore m" "lm_GroupsStore (send x m) = lm_GroupsStore m"
  "lm_lfgProposalId (send x m) = lm_lfgProposalId m"
  by (simp_all add: send_def)

named_theorems data_ops \<open>operations on the data of a player or a group\<close>

declare SetState_def [data_ops] RestoreState_def [data_ops] SetVoteKick_def [data_ops]
  SetDungeon_def [data_ops] SetRoles_def [data_ops] SetComment_def [data_ops]
  SetSelectedDungeons_def [data_ops] DecreaseKicksLeft_def [data_ops] SetTeam_def [data_ops]
  SetGroup_def [data_ops] SetLeader_def [data_ops] AddPlayerToGroup_def [data_ops]
  RemovePlayerData_def [data_ops]

lemma data_stores [simp]:
  "lm_QueuesStore (SetState g st m) = lm_QueuesStore m" "lm_RoleChecksStore (SetState g st m) = lm_RoleChecksStore m"
  "lm_ProposalsStore (SetState g st m) = lm_ProposalsStore m" "groups_made (SetState g st m) = groups_made m"
  "lm_QueuesStore (RestoreState g m) = lm_QueuesStore m" "lm_RoleChecksStore (RestoreState g m) = lm_RoleChecksStore m"
  "lm_ProposalsStore (RestoreState g m) = lm_ProposalsStore m" "groups_made (RestoreState g m) = groups_made m"
  "lm_QueuesStore (SetVoteKick g b m) = lm_QueuesStore m" "lm_RoleChecksStore (SetVoteKick g b m) = lm_RoleChecksStore m"
  "lm_ProposalsStore (SetVoteKick g b m) = lm_ProposalsStore m" "groups_made (SetVoteKick g b m) = groups_made m"
  "lm_QueuesStore (SetRoles g r m) = lm_QueuesStore m" "lm_RoleChecksStore (SetRoles g r m) = lm_RoleChecksStore m"
  "lm_ProposalsStore (SetRoles g r m) = lm_ProposalsStore m" "groups_made (SetRoles g r m) = groups_made m"
  "lm_QueuesStore (SetComment g c m) = lm_QueuesStore m" "lm_RoleChecksStore (SetComment g c m) = lm_RoleChecksStore m"
  "lm_ProposalsStore (SetComment g c m) = lm_ProposalsStore m" "groups_made (SetComment g c m) = groups_made m"
  "lm_QueuesStore (SetSelectedDungeons g ds m) = lm_QueuesStore m"
  "lm_RoleChecksStore (SetSelectedDungeons g ds m) = lm_RoleChecksStore m"
  "lm_ProposalsStore (SetSelectedDungeons g ds m) = lm_ProposalsStore m"
  "groups_made (SetSelectedDungeons g ds m) = groups_made m"
  "lm_QueuesStore (DecreaseKicksLeft g m) = lm_QueuesStore m" "lm_RoleChecksStore (DecreaseKicksLeft g m) = lm_RoleChecksStore m"
  "lm_ProposalsStore (DecreaseKicksLeft g m) = lm_ProposalsStore m" "groups_made (DecreaseKicksLeft g m) = groups_made m"
  "lm_QueuesStore (SetGroup g p m) = lm_QueuesStore m" "lm_RoleChecksStore (SetGroup g p m) = lm_RoleChecksStore m"
  "lm_ProposalsStore (SetGroup g p m) = lm_ProposalsStore m" "groups_made (SetGroup g p m) = groups_made m"
  by (simp_all add: data_ops upd_stores)

text \<open>The loops that tell players something and set their state.\<close>

lemma same_stores_steps:
  "same_stores m (role_check_player c g r rc ds m e)"
  "same_stores m (proposal_removed_player type pr removed m pe)"
  "same_stores m (announce_player pr m pe)"
  "same_stores m (SetState p st (send (SendLfgUpdateParty p ud) m))"
  by (simp_all add: role_check_player_def proposal_removed_player_def announce_player_def same_stores_def
      Let_def split: LfgRoleCheckState.splits)

lemma same_stores_loops:
  "same_stores m (foldl (role_check_player c g r rc ds) m es)"
  "same_stores m (foldl (proposal_removed_player type pr removed) m ps)"
  "same_stores m (foldl (announce_player pr) m ps)"
  "same_stores m (tell_vote_ended b m)"
proof -
  show "same_stores m (foldl (role_check_player c g r rc ds) m es)"
    "same_stores m (foldl (proposal_removed_player type pr removed) m ps)"
    "same_stores m (foldl (announce_player pr) m ps)"
    by (rule same_stores_foldl, rule same_stores_steps)+
  show "same_stores m (tell_vote_ended b m)"
    unfolding tell_vote_ended_def by (rule same_stores_foldl) (simp add: same_stores_def split: prod.splits)
qed

section \<open>The invariant\<close>

definition queue_ok :: "LFGQueue \<Rightarrow> bool" where
  "queue_ok q \<longleftrightarrow> smap_inv (QueueDataStore q) \<and> roles_ok (entry q)"

definition role_check_ok :: "LfgRoleCheck \<Rightarrow> bool" where
  "role_check_ok rc \<longleftrightarrow> smap_inv (rc_roles rc) \<and> length (rc_roles rc) \<le> 5
     \<and> rc_state rc = LFG_ROLECHECK_INITIALITING"

definition all_agreed :: "LfgProposal \<Rightarrow> bool" where
  "all_agreed pr \<longleftrightarrow> (\<forall>(p, d) \<in> set (pr_players pr). pp_accept d = LFG_ANSWER_AGREE)"

definition all_vals :: "('v \<Rightarrow> bool) \<Rightarrow> ('k::linorder \<times> 'v) list \<Rightarrow> bool" where
  "all_vals P m \<longleftrightarrow> smap_inv m \<and> (\<forall>e \<in> set m. P (snd e))"

lemma all_vals_put: "all_vals P m \<Longrightarrow> P v \<Longrightarrow> all_vals P (smap_put k v m)"
proof -
  have "set (smap_put k v m) \<subseteq> insert (k, v) (set m)" by (induction k v m rule: smap_put.induct) auto
  then show "all_vals P m \<Longrightarrow> P v \<Longrightarrow> all_vals P (smap_put k v m)"
    by (auto simp: all_vals_def smap.inv_put)
qed

lemma all_vals_erase: "all_vals P m \<Longrightarrow> all_vals P (smap_erase k m)"
  unfolding all_vals_def by (simp add: smap.inv_ers) (auto simp: smap_erase_def)

lemma all_vals_find: "all_vals P m \<Longrightarrow> smap_find m k = Some v \<Longrightarrow> P v"
  by (auto simp: all_vals_def dest!: smap_find_SomeD)

lemma all_vals_mem: "all_vals P m \<Longrightarrow> (k, v) \<in> set m \<Longrightarrow> P v"
  by (auto simp: all_vals_def)

definition mgr_ok :: "LFGMgr \<Rightarrow> bool" where
  "mgr_ok m \<longleftrightarrow> all_vals queue_ok (lm_QueuesStore m) \<and> all_vals role_check_ok (lm_RoleChecksStore m)
     \<and> all_vals one_role_each (lm_ProposalsStore m)
     \<and> (\<forall>pr \<in> groups_made m. one_role_each pr \<and> all_agreed pr)"

lemma mgr_ok_same: "mgr_ok m \<Longrightarrow> same_stores m m' \<Longrightarrow> mgr_ok m'"
  by (simp add: mgr_ok_def same_stores_def)

text \<open>The stores are changed one entry at a time.\<close>

lemma mgr_ok_queues:
  "mgr_ok m \<Longrightarrow> queue_ok q \<Longrightarrow> mgr_ok (m\<lparr>lm_QueuesStore := smap_put i q (lm_QueuesStore m)\<rparr>)"
  by (simp add: mgr_ok_def all_vals_put)

lemma mgr_ok_role_check:
  "mgr_ok m \<Longrightarrow> role_check_ok rc \<Longrightarrow> mgr_ok (m\<lparr>lm_RoleChecksStore := smap_put g rc (lm_RoleChecksStore m)\<rparr>)"
  "mgr_ok m \<Longrightarrow> mgr_ok (m\<lparr>lm_RoleChecksStore := smap_erase g (lm_RoleChecksStore m)\<rparr>)"
  by (simp_all add: mgr_ok_def all_vals_put all_vals_erase)

lemma mgr_ok_proposal:
  "mgr_ok m \<Longrightarrow> one_role_each pr \<Longrightarrow> mgr_ok (m\<lparr>lm_ProposalsStore := smap_put i pr (lm_ProposalsStore m)\<rparr>)"
  "mgr_ok m \<Longrightarrow> mgr_ok (m\<lparr>lm_ProposalsStore := smap_erase i (lm_ProposalsStore m)\<rparr>)"
  by (simp_all add: mgr_ok_def all_vals_put all_vals_erase)

lemma mgr_ok_other:
  "mgr_ok m \<Longrightarrow> mgr_ok (m\<lparr>lm_BootsStore := bs\<rparr>)" "mgr_ok m \<Longrightarrow> mgr_ok (m\<lparr>lm_QueueTimer := t\<rparr>)"
  "mgr_ok m \<Longrightarrow> mgr_ok (m\<lparr>lm_undefined := b\<rparr>)" "mgr_ok m \<Longrightarrow> mgr_ok (m\<lparr>lm_lfgProposalId := i\<rparr>)"
  by (simp_all add: mgr_ok_def)

lemma mgr_ok_find:
  assumes "mgr_ok m"
  shows "smap_find (lm_RoleChecksStore m) g = Some rc \<Longrightarrow> role_check_ok rc"
    and "smap_find (lm_ProposalsStore m) i = Some pr \<Longrightarrow> one_role_each pr"
  using assms by (auto simp: mgr_ok_def intro: all_vals_find)

lemma queue_ok_empty: "queue_ok empty_queue"
  by (simp add: queue_ok_def empty_queue_def roles_ok_def entry_def)

lemma queue_ok_of: "mgr_ok m \<Longrightarrow> queue_ok (queue_of m i)"
  by (auto simp: queue_of_def mgr_ok_def queue_ok_empty intro: all_vals_find split: option.splits)

lemma mgr_ok_with_queue: "mgr_ok m \<Longrightarrow> (\<And>q. queue_ok q \<Longrightarrow> queue_ok (f q)) \<Longrightarrow> mgr_ok (with_queue i f m)"
  unfolding with_queue_def by (blast intro: mgr_ok_queues queue_ok_of)

section \<open>The operations on a queue\<close>

lemma roles_ok_entries:
  "keeps_entries q q' \<Longrightarrow> queue_ok q \<Longrightarrow> queue_ok q'"
  by (simp add: queue_ok_def keeps_entries_def)

lemma queue_ok_frame: "QueueDataStore q' = QueueDataStore q \<Longrightarrow> queue_ok q \<Longrightarrow> queue_ok q'"
  by (rule roles_ok_entries[OF keeps_refl])

lemma queue_ok_remove: "queue_ok q \<Longrightarrow> queue_ok (RemoveFromQueue g q)"
  using RemoveFromQueue_entries[of q g] by (auto simp: queue_ok_def roles_ok_def)

lemma queue_ok_readd: "queue_ok q \<Longrightarrow> queue_ok (AddToQueue g b q)"
  by (erule queue_ok_frame[rotated]) (simp add: AddToQueue_def AddToFrontCurrentQueue_def AddToNewQueue_def)

lemma queue_ok_foldl: "(\<And>q x. queue_ok q \<Longrightarrow> queue_ok (f q x)) \<Longrightarrow> queue_ok q \<Longrightarrow> queue_ok (foldl f q xs)"
  by (rule foldl_invariant) auto

lemma queue_ok_put:
  assumes "queue_ok q" and "smap_inv (qd_roles d)" and "length (qd_roles d) \<le> 5"
    and "length (qd_roles d) = 5 \<Longrightarrow> fst (CheckGroupRoles (qd_roles d))"
  shows "queue_ok (q\<lparr>QueueDataStore := smap_put g d (QueueDataStore q)\<rparr>)"
  using assms by (auto simp: queue_ok_def roles_ok_def entry_def container_simps smap.inv_put)

lemma queue_ok_data:
  assumes "queue_ok q" and "smap_inv rs" and "length rs \<le> 5" and "length rs = 5 \<Longrightarrow> fst (CheckGroupRoles rs)"
  shows "queue_ok (AddQueueData g t ds rs q)"
  unfolding AddQueueData_def
  by (rule queue_ok_readd, rule queue_ok_put) (use assms in \<open>simp_all add: mk_LfgQueueData_def\<close>)

lemma queue_ok_join_time: "queue_ok q \<Longrightarrow> queue_ok (snd (GetJoinTime t g q))"
  by (auto simp: GetJoinTime_def mk_LfgQueueData_def split: option.splits intro!: queue_ok_put)

lemma queue_ok_sample: "queue_ok q \<Longrightarrow> queue_ok (wait_sample r w i q)"
  by (erule queue_ok_frame[rotated])
    (simp add: wait_sample_def Let_def UpdateWaitTimeDps_def UpdateWaitTimeHealer_def UpdateWaitTimeTank_def
      UpdateWaitTimeAvg_def)

lemma queue_ok_timers: "UpdateQueueTimers t q = Some (q', out) \<Longrightarrow> queue_ok q \<Longrightarrow> queue_ok q'"
proof -
  have one: "queue_ok q'" if "timers_of_entry t g d q = Some (q', out)" "queue_ok q" for t g d q q' out
  proof -
    define q1 where "q1 = q\<lparr>waitTimesTankStore := snd (wait_time (hd (qd_dungeons d)) (waitTimesTankStore q)),
      waitTimesHealerStore := snd (wait_time (hd (qd_dungeons d)) (waitTimesHealerStore q)),
      waitTimesDpsStore := snd (wait_time (hd (qd_dungeons d)) (waitTimesDpsStore q)),
      waitTimesAvgStore := snd (wait_time (hd (qd_dungeons d)) (waitTimesAvgStore q))\<rparr>"
    have "queue_ok q1" using that(2) by (rule queue_ok_frame[rotated]) (simp add: q1_def)
    moreover have "q' = (if qd_bestCompatible d = [] then FindBestCompatibleInQueue g q1 else q1)"
      using that(1) by (cases "qd_dungeons d") (auto simp: timers_of_entry_def q1_def Let_def split: prod.splits)
    ultimately show ?thesis using roles_ok_entries[OF keeps_FindBest] by simp
  qed
  have "timers_loop t es q sent = Some (q', out) \<Longrightarrow> queue_ok q \<Longrightarrow> queue_ok q'" for es q sent
  proof (induction t es q sent rule: timers_loop.induct)
    case (2 t g d es q sent)
    then obtain q1 out1 where e: "timers_of_entry t g d q = Some (q1, out1)" by (auto split: option.splits)
    show ?case
      by (rule 2(1)[OF e refl]) (use 2(2) e one[OF e 2(3)] in simp_all)
  qed simp
  then show "UpdateQueueTimers t q = Some (q', out) \<Longrightarrow> queue_ok q \<Longrightarrow> queue_ok q'"
    unfolding UpdateQueueTimers_def by blast
qed

section \<open>The operations of the manager\<close>

text \<open>The answer of a member, or of nobody (guid 0), to a role check.\<close>

lemma role_check_answer_ok:
  fixes roles :: u8
  assumes "role_check_ok rc" and "g = 0 \<or> g \<in> fst ` set (rc_roles rc)"
  defines "rc' \<equiv> role_check_answer g roles rc"
  shows "smap_inv (rc_roles rc')" and "length (rc_roles rc') \<le> 5"
    and "rc_state rc' = LFG_ROLECHECK_FINISHED \<Longrightarrow> fst (CheckGroupRoles (rc_roles rc'))"
proof -
  have len: "length (smap_put g roles m) = length m" if "smap_inv m" "g \<in> fst ` set m" for m
    using that by (induction g roles m rule: smap_put.induct) (force simp: smap_inv_def)+
  have "g \<noteq> 0 \<Longrightarrow> length (smap_put g roles (rc_roles rc)) \<le> 5"
    using len[of "rc_roles rc"] assms(1,2) by (simp add: role_check_ok_def)
  then show "smap_inv (rc_roles rc')" "length (rc_roles rc') \<le> 5"
    "rc_state rc' = LFG_ROLECHECK_FINISHED \<Longrightarrow> fst (CheckGroupRoles (rc_roles rc'))"
    using assms(1)
    by (auto simp: rc'_def role_check_answer_def role_check_ok_def Let_def smap.inv_put split: if_splits)
qed

lemma mgr_ok_UpdateRoleCheck:
  assumes ok: "mgr_ok m"
    and member: "\<And>rc. smap_find (lm_RoleChecksStore m) gg = Some rc \<Longrightarrow> g = 0 \<or> g \<in> fst ` set (rc_roles rc)"
  shows "mgr_ok (UpdateRoleCheck t gg g roles m)"
proof (cases "gg = 0 \<or> smap_find (lm_RoleChecksStore m) gg = None")
  case True
  then show ?thesis using ok by (auto simp: UpdateRoleCheck_def)
next
  case False
  then obtain rc0 where rc0: "smap_find (lm_RoleChecksStore m) gg = Some rc0" by auto
  define rc where "rc = role_check_answer g roles rc0"
  define m1 where "m1 = m\<lparr>lm_RoleChecksStore := smap_put gg rc (lm_RoleChecksStore m)\<rparr>"
  define m2 where "m2 = foldl (role_check_player (rc_state rc0 \<noteq> LFG_ROLECHECK_DEFAULT \<and> g \<noteq> 0) g roles rc
      (if rc_rDungeonId rc \<noteq> 0 then [rc_rDungeonId rc] else rc_dungeons rc)) m1 (rc_roles rc)"
  have same: "same_stores m1 m2" unfolding m2_def by (rule same_stores_loops)
  note ans = role_check_answer_ok[OF mgr_ok_find(1)[OF ok rc0] member[OF rc0], of roles, folded rc_def]
  have stores: "all_vals queue_ok (lm_QueuesStore m2)" "all_vals one_role_each (lm_ProposalsStore m2)"
    "\<forall>pr \<in> groups_made m2. one_role_each pr \<and> all_agreed pr"
    "lm_RoleChecksStore m2 = smap_put gg rc (lm_RoleChecksStore m)"
    using same ok by (auto simp: same_stores_def m1_def mgr_ok_def)
  have erase: "all_vals role_check_ok (smap_erase gg (smap_put gg rc (lm_RoleChecksStore m)))"
  proof -
    have "set (smap_erase gg (smap_put gg rc (lm_RoleChecksStore m))) \<subseteq> set (lm_RoleChecksStore m)"
    proof -
      have "set (smap_put gg rc n) \<subseteq> insert (gg, rc) (set n)" for n
        by (induction gg rc n rule: smap_put.induct) auto
      then show ?thesis by (auto simp: smap_erase_def)
    qed
    then show ?thesis using ok by (auto simp: all_vals_def mgr_ok_def smap.inv_put smap.inv_ers)
  qed
  have unfold: "UpdateRoleCheck t gg g roles m =
    (if rc_state rc = LFG_ROLECHECK_FINISHED then
       let m3 = SetState gg LFG_STATE_QUEUED m2;
           m4 = with_queue (queue_id m3 gg) (AddQueueData gg t (rc_dungeons rc) (rc_roles rc)) m3
       in m4\<lparr>lm_RoleChecksStore := smap_erase gg (lm_RoleChecksStore m4)\<rparr>
     else if rc_state rc \<noteq> LFG_ROLECHECK_INITIALITING then
       let m3 = RestoreState gg m2 in m3\<lparr>lm_RoleChecksStore := smap_erase gg (lm_RoleChecksStore m3)\<rparr>
     else m2)"
    using False rc0 by (simp add: UpdateRoleCheck_def Let_def rc_def m1_def m2_def)
  show ?thesis
  proof (cases "rc_state rc = LFG_ROLECHECK_FINISHED")
    case True
    have "queue_ok (AddQueueData gg t (rc_dungeons rc) (rc_roles rc) (queue_of (SetState gg LFG_STATE_QUEUED m2) i))" for i
    proof (rule queue_ok_data)
      show "queue_ok (queue_of (SetState gg LFG_STATE_QUEUED m2) i)"
        using stores(1) by (auto simp: queue_of_def queue_ok_empty intro: all_vals_find split: option.splits)
    qed (use ans True in auto)
    then show ?thesis
      using stores erase True unfold by (simp add: mgr_ok_def with_queue_def Let_def all_vals_put)
  next
    case False
    show ?thesis
    proof (cases "rc_state rc = LFG_ROLECHECK_INITIALITING")
      case True
      have "role_check_ok rc" using ans True by (simp add: role_check_ok_def)
      then show ?thesis using stores ok unfold True by (simp add: mgr_ok_def all_vals_put)
    next
      case init: False
      show ?thesis using stores erase unfold init False by (simp add: mgr_ok_def Let_def)
    qed
  qed
qed

text \<open>Answers do not change who is proposed with which role.\<close>

lemma one_role_each_players:
  assumes "map (\<lambda>(p, d). (p, pp_role d)) (pr_players pr') = map (\<lambda>(p, d). (p, pp_role d)) (pr_players pr)"
  shows "one_role_each pr' = one_role_each pr"
proof -
  have "map fst (pr_players pr') = map fst (pr_players pr)" "pr_roles pr' = pr_roles pr"
    "length (pr_players pr') = length (pr_players pr)"
    using arg_cong[OF assms, of "map fst"] arg_cong[OF assms, of "map (\<lambda>(p, r). r AND NOT PLAYER_ROLE_LEADER)"]
      arg_cong[OF assms, of length]
    by (simp_all add: pr_roles_def comp_def split_def)
  then show ?thesis by (simp add: one_role_each_def smap_inv_def)
qed

lemma smap_put_same_map:
  "smap_inv m \<Longrightarrow> smap_find m k = Some v \<Longrightarrow> f (k, v') = f (k, v) \<Longrightarrow> map f (smap_put k v' m) = map f m"
proof (induction k v' m rule: smap_put.induct)
  case (2 k va l w m)
  have m: "smap_inv m" and low: "\<forall>x \<in> fst ` set m. l < x" using 2(2) by (auto simp: smap_inv_def)
  have "k = l \<and> v = w \<or> smap_find m k = Some v" and "k \<noteq> l \<longrightarrow> k \<in> fst ` set m"
    using 2(3) by (auto simp: smap_find_def split: if_splits dest!: map_of_SomeD intro: rev_image_eqI)
  then have "\<not> k < l" and "k \<noteq> l \<Longrightarrow> smap_find m k = Some v" and "k = l \<Longrightarrow> v = w"
    using low 2(3) by (auto simp: smap_find_def)
  with 2(1)[OF _ _ m] 2(4) show ?case by auto
qed (simp add: smap_find_def)

lemma one_role_each_answer:
  assumes "one_role_each pr" and "smap_find (pr_players pr) g = Some d" and "pp_role d' = pp_role d"
  shows "one_role_each (pr\<lparr>pr_players := smap_put g d' (pr_players pr)\<rparr>)"
  using assms by (subst one_role_each_players[of _ pr])
    (auto simp: one_role_each_def intro!: smap_put_same_map)

lemma queue_ok_removals: "queue_ok q \<Longrightarrow> queue_ok (foldl (\<lambda>q g. RemoveFromQueue g q) q gs)"
  by (rule queue_ok_foldl) (rule queue_ok_remove)

lemma queue_ok_readds: "queue_ok q \<Longrightarrow> queue_ok (foldl (\<lambda>q g. AddToQueue g b q) q gs)"
  by (rule queue_ok_foldl) (rule queue_ok_readd)

lemma mgr_ok_RemoveProposal: "mgr_ok m \<Longrightarrow> mgr_ok (RemoveProposal i type m)"
  unfolding RemoveProposal_def Let_def
  by (auto split: option.splits
      intro!: mgr_ok_proposal(2) mgr_ok_with_queue queue_ok_removals queue_ok_readds
        mgr_ok_same[OF _ same_stores_loops(2)])

lemma mgr_ok_success_player:
  assumes "mgr_ok (snd um)"
  shows "mgr_ok (snd (proposal_success_player t qi su pr um e))"
proof -
  obtain ut m where um: "um = (ut, m)" by (cases um)
  define bad where "bad = (GetSelectedDungeons m (fst e) = [])"
  define m2 where "m2 = (if su then send (SendLfgUpdateProposal (fst e) pr) (m\<lparr>lm_undefined := (lm_undefined m \<or> bad)\<rparr>)
      else m\<lparr>lm_undefined := (lm_undefined m \<or> bad)\<rparr>)"
  have m2: "mgr_ok m2" using assms um by (auto simp: m2_def mgr_ok_def)
  define q where "q = snd (GetJoinTime t (if pp_group (snd e) \<noteq> 0 then pp_group (snd e) else fst e) (queue_of m2 qi))"
  define m3 where "m3 = with_queue qi (\<lambda>_. q) m2"
  have "queue_ok q" unfolding q_def by (rule queue_ok_join_time[OF queue_ok_of[OF m2]])
  then have m3: "mgr_ok m3" unfolding m3_def with_queue_def using m2 by (rule mgr_ok_queues[rotated])
  define told where "told = (\<lambda>x y z m. send x (send y (send z m)))"
  have told: "mgr_ok (send (SendLfgUpdateParty p d1) (send (SendLfgUpdatePlayer p d2) (send (SendLfgUpdateParty p d3) m3)))"
    "mgr_ok (send (SendLfgUpdateParty p d1) (send (SendLfgUpdatePlayer p d2) (send (SendLfgUpdatePlayer p d3) m3)))"
    for p d1 d2 d3 using m3 by (simp_all add: mgr_ok_def)
  have final: "mgr_ok (SetState p st (with_queue qi (wait_sample r w i) m'))" if "mgr_ok m'" for p st r w i m'
    using mgr_ok_with_queue[OF that queue_ok_sample, where i = qi] by (simp add: mgr_ok_def)
  show ?thesis
    using told final m3
    by (auto simp: proposal_success_player_def um Let_def m3_def q_def m2_def bad_def split: prod.splits list.splits)
qed

lemma mgr_ok_success:
  assumes "mgr_ok m" and "one_role_each pr" and "all_agreed pr"
  shows "mgr_ok (proposal_success t i g pr m)"
proof -
  let ?pr = "pr\<lparr>pr_state := LFG_PROPOSAL_SUCCESS\<rparr>"
  have pr: "one_role_each ?pr" "all_agreed ?pr"
    using assms(2,3) by (simp_all add: one_role_each_def pr_roles_def all_agreed_def)
  let ?m0 = "m\<lparr>lm_ProposalsStore := smap_put i ?pr (lm_ProposalsStore m)\<rparr>"
  have m0: "mgr_ok ?m0" using assms(1) pr(1) by (rule mgr_ok_proposal)
  let ?loop = "foldl (proposal_success_player t (queue_id ?m0 g) (pr_state pr \<noteq> LFG_PROPOSAL_SUCCESS) ?pr)
      (LFG_UPDATETYPE_GROUP_FOUND, ?m0) (pr_players ?pr)"
  have loop: "mgr_ok (snd ?loop)"
    by (rule foldl_invariant[where P = "\<lambda>um. mgr_ok (snd um)"]) (use m0 in \<open>simp_all add: mgr_ok_success_player\<close>)
  let ?m2 = "with_queue (queue_id ?m0 g) (\<lambda>q. foldl (\<lambda>q g. RemoveFromQueue g q) q (pr_queues ?pr)) (snd ?loop)"
  have "mgr_ok ?m2" using loop by (rule mgr_ok_with_queue) (rule queue_ok_removals)
  then have "mgr_ok (send (MakeNewGroup ?pr) ?m2)" using pr by (simp add: mgr_ok_def)
  then have "mgr_ok (send (MakeNewGroup ?pr) ?m2
      \<lparr>lm_ProposalsStore := smap_erase i (lm_ProposalsStore (send (MakeNewGroup ?pr) ?m2))\<rparr>)"
    by (rule mgr_ok_proposal(2))
  then show ?thesis by (simp add: proposal_success_def Let_def split_def)
qed

lemma mgr_ok_UpdateProposal:
  assumes ok: "mgr_ok m"
  shows "mgr_ok (UpdateProposal t i g accept m)"
proof (cases "smap_find (lm_ProposalsStore m) i")
  case (Some pr0)
  show ?thesis
  proof (cases "smap_find (pr_players pr0) g")
    case d: (Some d)
    define d' where "d' = d\<lparr>pp_accept := (if accept then LFG_ANSWER_AGREE else LFG_ANSWER_DENY)\<rparr>"
    define pr where "pr = pr0\<lparr>pr_players := smap_put g d' (pr_players pr0)\<rparr>"
    have pr: "one_role_each pr"
      unfolding pr_def using mgr_ok_find(2)[OF ok Some] d by (rule one_role_each_answer) (simp add: d'_def)
    define m1 where "m1 = m\<lparr>lm_ProposalsStore := smap_put i pr (lm_ProposalsStore m)\<rparr>"
    have m1: "mgr_ok m1" unfolding m1_def using ok pr by (rule mgr_ok_proposal)
    have told: "mgr_ok (foldl (\<lambda>m (p, d). send (SendLfgUpdateProposal p pr) m) m1 (pr_players pr))"
      by (rule mgr_ok_same[OF m1], rule same_stores_foldl) (simp add: same_stores_def split: prod.splits)
    have "UpdateProposal t i g accept m =
      (if \<not> accept then RemoveProposal i LFG_UPDATETYPE_PROPOSAL_DECLINED m1
       else if \<not> list_all (\<lambda>(p, d). pp_accept d = LFG_ANSWER_AGREE) (pr_players pr) then
         foldl (\<lambda>m (p, d). send (SendLfgUpdateProposal p pr) m) m1 (pr_players pr)
       else proposal_success t i g pr m1)"
      using Some d by (simp add: UpdateProposal_def Let_def pr_def m1_def d'_def)
    moreover have "all_agreed pr" if "list_all (\<lambda>(p, d). pp_accept d = LFG_ANSWER_AGREE) (pr_players pr)"
      using that by (simp add: all_agreed_def list_all_iff)
    ultimately show ?thesis using told m1 pr by (simp add: mgr_ok_RemoveProposal mgr_ok_success)
  qed (use ok Some in \<open>simp add: UpdateProposal_def\<close>)
qed (use ok in \<open>simp add: UpdateProposal_def\<close>)

lemma mgr_ok_fields [simp]:
  "mgr_ok (m\<lparr>lm_BootsStore := bs\<rparr>) = mgr_ok m"
  "mgr_ok (SetVoteKick g b m) = mgr_ok m" "mgr_ok (DecreaseKicksLeft g m) = mgr_ok m"
  "mgr_ok (SetState g st m) = mgr_ok m" "mgr_ok (RestoreState g m) = mgr_ok m"
  "mgr_ok (SetComment g c m) = mgr_ok m" "mgr_ok (SetRoles g r m) = mgr_ok m"
  "mgr_ok (SetSelectedDungeons g ds m) = mgr_ok m" "mgr_ok (SetGroup g p m) = mgr_ok m"
  by (simp_all add: mgr_ok_def)

lemma mgr_ok_send [simp]: "(\<And>pr. x \<noteq> MakeNewGroup pr) \<Longrightarrow> mgr_ok (send x m) = mgr_ok m"
  by (cases x) (simp_all add: mgr_ok_def, blast)

lemma mgr_ok_foldl: "mgr_ok m \<Longrightarrow> (\<And>m x. mgr_ok m \<Longrightarrow> x \<in> set xs \<Longrightarrow> mgr_ok (f m x)) \<Longrightarrow> mgr_ok (foldl f m xs)"
  by (rule foldl_invariant) auto

lemma mgr_ok_vote_ended: "mgr_ok m \<Longrightarrow> mgr_ok (tell_vote_ended b m)"
  by (rule mgr_ok_same[OF _ same_stores_loops(4)])

lemma mgr_ok_InitBoot: "mgr_ok m \<Longrightarrow> mgr_ok (InitBoot t gg k v r m)"
  unfolding InitBoot_def Let_def by (rule mgr_ok_foldl) simp_all

lemma mgr_ok_UpdateBoot: "mgr_ok m \<Longrightarrow> mgr_ok (UpdateBoot E g accept m)"
  unfolding UpdateBoot_def Let_def by (auto split: option.splits simp: mgr_ok_vote_ended)

lemma mgr_ok_LeaveLfg:
  assumes ok: "mgr_ok m"
  shows "mgr_ok (LeaveLfg t g dc m)"
proof -
  have queued: "mgr_ok (foldl (\<lambda>m p. send (SendLfgUpdateParty p ud) (SetState p st m)) (SetState gg st' (with_queue i (RemoveFromQueue h) m)) ps)"
    for ud st st' gg i h ps
    by (rule mgr_ok_foldl) (simp_all add: mgr_ok_with_queue ok queue_ok_remove)
  have role: "mgr_ok (UpdateRoleCheck t gg 0 r m)" for gg r by (rule mgr_ok_UpdateRoleCheck) (use ok in auto)
  have denied: "mgr_ok (RemoveProposal i ty (m\<lparr>lm_ProposalsStore :=
      smap_put i (pr\<lparr>pr_players := smap_put p (the (smap_find (pr_players pr) p)\<lparr>pp_accept := LFG_ANSWER_DENY\<rparr>) (pr_players pr)\<rparr>)
        (lm_ProposalsStore m)\<rparr>))"
    if "find (\<lambda>(i, pr). smap_find (pr_players pr) p \<noteq> None) (lm_ProposalsStore m) = Some (i, pr)" for p i pr ty
  proof -
    have "(i, pr) \<in> set (lm_ProposalsStore m)" and "smap_find (pr_players pr) p \<noteq> None"
      using find_Some_mem[OF that] by auto
    then obtain d where "smap_find (pr_players pr) p = Some d" and "one_role_each pr"
      using ok by (auto simp: mgr_ok_def intro: all_vals_mem)
    then show ?thesis
      by (intro mgr_ok_RemoveProposal mgr_ok_proposal(1)[OF ok] one_role_each_answer) auto
  qed
  show ?thesis
    using queued role denied ok
    by (auto simp: LeaveLfg_def Let_def mgr_ok_with_queue queue_ok_remove split: LfgState.splits option.splits)
qed

text \<open>The periodic update.\<close>

lemma mgr_ok_remove_obsolete:
  assumes "mgr_ok m"
  shows "mgr_ok (remove_obsolete t m)"
proof -
  have role: "mgr_ok (obsolete_role_check m e)" if "mgr_ok m" for m e
  proof -
    have "mgr_ok (foldl (\<lambda>m (p, r). let m1 = send (SendLfgRoleCheckUpdate p rc) (RestoreState p m)
        in if p = l then send (SendLfgJoinResult p jr) m1 else m1) m es)" for rc l es jr
      by (rule mgr_ok_foldl) (use that in \<open>auto simp: Let_def\<close>)
    then show ?thesis
      unfolding obsolete_role_check_def Let_def by (intro mgr_ok_role_check(2)) simp
  qed
  have boot: "mgr_ok (obsolete_boot m e)" if "mgr_ok m" for m e
    using that by (simp add: obsolete_boot_def Let_def mgr_ok_vote_ended)
  show ?thesis
    unfolding remove_obsolete_def Let_def
    by (intro mgr_ok_foldl) (use assms role boot in \<open>auto intro: mgr_ok_RemoveProposal\<close>)
qed

lemma mgr_ok_find_groups:
  assumes ok: "mgr_ok m"
  shows "mgr_ok (find_groups_in E t m i)"
proof -
  let ?s0 = "\<lparr>qs_queue = queue_of m i, qs_lastId = lm_lfgProposalId m, qs_proposals = []\<rparr>"
  obtain n s where r: "FindGroups (view_of E t m) ?s0 = (n, s)" by (cases "FindGroups (view_of E t m) ?s0")
  have q: "queue_ok (queue_of m i)" using ok by (rule queue_ok_of)
  have "smap_inv (QueueDataStore (qs_queue s))" "entry (qs_queue s) = entry (queue_of m i)"
    "\<And>pr. pr \<in> set (qs_proposals s) \<Longrightarrow> one_role_each pr"
    using five.FindGroups_promise[OF _ _ r] q by (auto simp: queue_ok_def)
  moreover have "queue_ok (qs_queue s)" using calculation q by (simp add: queue_ok_def)
  moreover have "all_vals one_role_each (foldl (\<lambda>ps pr. smap_put (pr_id pr) pr ps) (lm_ProposalsStore m)
      (rev (qs_proposals s)))"
    by (rule foldl_invariant) (use ok calculation in \<open>auto simp: mgr_ok_def intro: all_vals_put\<close>)
  ultimately show ?thesis using ok r by (simp add: find_groups_in_def mgr_ok_def all_vals_put)
qed

lemma mgr_ok_announce: "mgr_ok m \<Longrightarrow> mgr_ok (announce t m e)"
  using mgr_ok_same[OF _ same_stores_loops(3)]
  by (auto simp: announce_def Let_def intro!: mgr_ok_UpdateProposal mgr_ok_other(3))

lemma mgr_ok_timers:
  assumes ok: "mgr_ok m"
  shows "mgr_ok (update_timers t m i)"
proof (cases "UpdateQueueTimers t (queue_of m i)")
  case None
  then show ?thesis using ok by (simp add: update_timers_def mgr_ok_def)
next
  case (Some r)
  obtain q out where r: "r = (q, out)" by (cases r)
  have "queue_ok q" using queue_ok_timers Some r queue_ok_of[OF ok] by blast
  then have "mgr_ok (m\<lparr>lm_QueuesStore := smap_put i q (lm_QueuesStore m)\<rparr>)" by (rule mgr_ok_queues[OF ok])
  then have "mgr_ok (foldl (\<lambda>m (p, d). send (SendLfgQueueStatus p d) m)
      (m\<lparr>lm_QueuesStore := smap_put i q (lm_QueuesStore m)\<rparr>) out)"
    by (rule mgr_ok_foldl) (auto split: prod.splits)
  then show ?thesis by (simp add: update_timers_def Some r)
qed

lemma mgr_ok_Update:
  assumes "mgr_ok m"
  shows "mgr_ok (Update E t diff m)"
proof -
  have "mgr_ok (search_queues E t (remove_obsolete t m))"
    unfolding search_queues_def Let_def
    using mgr_ok_remove_obsolete[OF assms, of t]
    by (auto intro!: mgr_ok_foldl mgr_ok_find_groups mgr_ok_announce)
  then show ?thesis
    unfolding Update_def Let_def using assms mgr_ok_other
    by (auto intro!: mgr_ok_foldl mgr_ok_timers)
qed

text \<open>Joining: a group has at most five connected members when the role check begins.\<close>

definition connected :: "join_group \<Rightarrow> guid list" where
  "connected x = map jn_guid (List.map_filter id (jg_members x))"

definition join_wf :: "LFGMgr \<Rightarrow> joiner \<Rightarrow> join_group option \<Rightarrow> bool" where
  "join_wf m p grp \<longleftrightarrow> (\<forall>x. grp = Some x \<longrightarrow> length (jg_members x) \<le> 40 \<and> jn_guid p \<in> set (connected x)
     \<and> (\<forall>rc. smap_find (lm_RoleChecksStore m) (jg_guid x) = Some rc \<longrightarrow> fst ` set (rc_roles rc) \<subseteq> set (connected x)))"

lemma join_members_count:
  "join_members ms n ps = (LFG_JOIN_OK, k, players) \<Longrightarrow> k = n + of_nat (length (List.map_filter id ms))"
  by (induction ms n ps rule: join_members.induct) (auto simp: List.map_filter_simps split: if_splits)

lemma join_party_five:
  assumes "fst (join_party p (Some x) dungeons) = LFG_JOIN_OK" and "length (jg_members x) \<le> 40"
  shows "length (connected x) \<le> 5"
proof -
  obtain r n players where j: "join_members (jg_members x) 0 [] = (r, n, players)" by (metis prod_cases3)
  have le: "length (List.map_filter id (jg_members x)) \<le> 40"
    using assms(2) by (simp add: List.map_filter_def) (meson le_trans length_filter_le)
  have "r = LFG_JOIN_OK" "jg_membersCount x \<le> 5" "ucast n = jg_membersCount x"
    using assms(1) j by (auto simp: join_party_def split: if_splits)
  moreover have "n = of_nat (length (List.map_filter id (jg_members x)))"
    using join_members_count[of "jg_members x" 0 "[]" n players] j calculation(1) by simp
  ultimately have "unat (ucast n :: u32) \<le> 5" by (simp add: word_le_nat_alt)
  moreover have "unat (ucast n :: u32) = unat n" by transfer (simp add: take_bit_int_eq_self)
  ultimately have "unat n \<le> 5" by simp
  then show ?thesis using \<open>n = _\<close> le by (simp add: connected_def unat_of_nat)
qed

lemma fst_smap_puts: "fst ` set (foldl (\<lambda>rs p. smap_put p v rs) m ps) = fst ` set m \<union> set ps"
  by (induction ps arbitrary: m) (auto simp: fst_smap_put)

lemma smap_inv_puts: "smap_inv m \<Longrightarrow> smap_inv (foldl (\<lambda>rs p. smap_put p v rs) m ps)"
  by (rule foldl_invariant) (auto simp: smap.inv_put)

lemma smap_inv_length: "smap_inv m \<Longrightarrow> length m = card (fst ` set m)"
  using sset_inv_distinct[of "map fst m"] distinct_card[of "map fst m"]
  by (simp add: smap_inv_def sset_inv_def)

lemma mgr_ok_begin_role_check:
  assumes ok: "mgr_ok m" and wf: "join_wf m p (Some x)" and five: "length (connected x) \<le> 5"
  shows "mgr_ok (begin_role_check t x (jn_guid p) roles comment ic jc m)"
proof -
  define old where "old = (case smap_find (lm_RoleChecksStore m) (jg_guid x) of Some rc \<Rightarrow> rc_roles rc | None \<Rightarrow> [])"
  define rs where "rs = foldl (\<lambda>rs p. smap_put p PLAYER_ROLE_NONE rs) old (connected x)"
  have old: "smap_inv old" "fst ` set old \<subseteq> set (connected x)"
    using wf mgr_ok_find(1)[OF ok, of "jg_guid x"]
    by (cases "smap_find (lm_RoleChecksStore m) (jg_guid x)"; simp add: old_def join_wf_def role_check_ok_def)+
  have rs: "smap_inv rs" "fst ` set rs = set (connected x)"
    using old by (auto simp: rs_def smap_inv_puts fst_smap_puts)
  then have "length rs \<le> 5" using five card_length[of "connected x"] smap_inv_length[OF rs(1)] by simp
  with rs have rc: "role_check_ok \<lparr>rc_cancelTime = c, rc_roles = rs, rc_state = LFG_ROLECHECK_INITIALITING,
      rc_dungeons = ds, rc_rDungeonId = rid, rc_leader = l\<rparr>" for c ds rid l
    by (simp add: role_check_ok_def)
  have told: "same_stores m (foldl (\<lambda>m p. let m1 = SetState p LFG_STATE_ROLECHECK (send (SendLfgUpdateParty p data) m)
      in if \<not> ic then SetSelectedDungeons p ds m1 else m1) (SetState (jg_guid x) LFG_STATE_ROLECHECK m) ps)" for data ds ps
    by (rule same_stores_trans[OF _ same_stores_foldl]) (auto simp: same_stores_def Let_def)
  show ?thesis
    unfolding begin_role_check_def Let_def connected_def[symmetric] old_def[symmetric] rs_def[symmetric]
  proof (rule mgr_ok_UpdateRoleCheck, goal_cases)
    case 1
    show ?case by (rule mgr_ok_role_check(1)[OF mgr_ok_same[OF ok told[unfolded Let_def]] rc])
  next
    case (2 rc)
    then show ?case
      using wf rs ok told[unfolded Let_def]
      by (auto simp: join_wf_def container_simps mgr_ok_def all_vals_def same_stores_def)
  qed
qed

end
