(* ===== verification/LFGSafety.thy ===== *)
theory LFGSafety
  imports LFGRules LFGKeep
begin

text \<open>
  The reachable states of the dungeon finder: a group is only made of five players with the roles of a
  group who all agreed. Then the rules of kick votes and of declined proposals, and two things that go
  wrong in the manager.
\<close>

section \<open>Joining keeps the invariant\<close>

lemma mgr_ok_join_alone:
  assumes "mgr_ok m"
  shows "mgr_ok (join_alone t g roles comment ic jc m)"
proof -
  have "mgr_ok (with_queue i (AddQueueData g t ds [(g, roles)]) m)" for i ds
    using assms by (rule mgr_ok_with_queue) (auto intro: queue_ok_data simp: smap_inv_def)
  then show ?thesis by (simp add: join_alone_def Let_def)
qed

lemma check_join_party:
  "jc_result (check_join D p grp dungeons ic) = LFG_JOIN_OK \<Longrightarrow> fst (join_party p grp dungeons) = LFG_JOIN_OK"
  by (cases "join_party p grp dungeons") (auto simp: check_join_def split: if_splits)

lemma mgr_ok_JoinLfg:
  assumes ok: "mgr_ok m" and wf: "join_wf m p grp"
  shows "mgr_ok (JoinLfg D t p grp roles dungeons comment m)"
proof -
  have m1: "mgr_ok (if b then with_queue i (RemoveFromQueue gg) m else m)" for b i gg
    using ok by (simp add: mgr_ok_with_queue queue_ok_remove)
  have begun: "mgr_ok (begin_role_check t x (jn_guid p) roles comment ic
      (check_join D p grp ds ic) (SetComment (jn_guid p) comment
        (if b then with_queue i (RemoveFromQueue gg) m else m)))"
    if "grp = Some x" "jc_result (check_join D p grp ds ic) = LFG_JOIN_OK" for x ic ds b i gg
  proof (rule mgr_ok_begin_role_check)
    show "mgr_ok (SetComment (jn_guid p) comment (if b then with_queue i (RemoveFromQueue gg) m else m))"
      using m1 by simp
    show "join_wf (SetComment (jn_guid p) comment (if b then with_queue i (RemoveFromQueue gg) m else m)) p (Some x)"
      using wf that(1) by (simp add: join_wf_def with_queue_def)
    show "length (connected x) \<le> 5"
      by (rule join_party_five[of p x ds]) (use check_join_party[OF that(2)] that(1) wf in \<open>auto simp: join_wf_def\<close>)
  qed
  show ?thesis
  proof (cases grp)
    case None
    then show ?thesis using m1 ok by (simp add: JoinLfg_def Let_def mgr_ok_join_alone)
  next
    case (Some x)
    then show ?thesis using m1 ok begun[OF Some] by (simp add: JoinLfg_def Let_def)
  qed
qed

section \<open>The calls of the manager\<close>

text \<open>
  One call of the manager. A group joins with a connected leader, at most 40 members (a raid), and no
  role check of players that are gone; the answer to a role check comes from one of its players.
\<close>

inductive lfg_step :: "lfg_env \<Rightarrow> dungeon_env \<Rightarrow> LFGMgr \<Rightarrow> LFGMgr \<Rightarrow> bool" for E :: lfg_env and D :: dungeon_env where
  join: "join_wf m p grp \<Longrightarrow> lfg_step E D m (JoinLfg D t p grp roles dungeons comment m)"
| leave: "lfg_step E D m (LeaveLfg t g disconnected m)"
| role: "(\<And>rc. smap_find (lm_RoleChecksStore m) gg = Some rc \<Longrightarrow> g = 0 \<or> g \<in> fst ` set (rc_roles rc)) \<Longrightarrow>
     lfg_step E D m (UpdateRoleCheck t gg g roles m)"
| answer: "lfg_step E D m (UpdateProposal t i g accept m)"
| start_boot: "lfg_step E D m (InitBoot t gg kicker victim reason m)"
| vote: "lfg_step E D m (UpdateBoot E g accept m)"
| update: "lfg_step E D m (Update E t diff m)"
| team: "lfg_step E D m (SetTeam two_side g team m)"
| player_group: "lfg_step E D m (SetGroup g grp m)"
| member: "lfg_step E D m (AddPlayerToGroup gg g m)"
| member_gone: "lfg_step E D m (snd (RemovePlayerFromGroup gg g m))"
| leader: "lfg_step E D m (SetLeader gg g m)"
| player_data: "lfg_step E D m (RemovePlayerData g m)"
| group_data: "lfg_step E D m (RemoveGroupData gg m)"
| state: "lfg_step E D m (SetState g st m)"

inductive_cases lfg_stepE: "lfg_step E D m m'"

lemma mgr_ok_upd [simp]: "mgr_ok (upd_player g f m) = mgr_ok m" "mgr_ok (upd_group g h m) = mgr_ok m"
  "mgr_ok (m\<lparr>lm_PlayersStore := pl\<rparr>) = mgr_ok m" "mgr_ok (m\<lparr>lm_GroupsStore := gr\<rparr>) = mgr_ok m"
  by (simp_all add: mgr_ok_def upd_stores)

lemma mgr_ok_data [simp]:
  "mgr_ok (SetTeam ts g team m) = mgr_ok m" "mgr_ok (AddPlayerToGroup gg g m) = mgr_ok m"
  "mgr_ok (SetLeader gg g m) = mgr_ok m" "mgr_ok (RemovePlayerData g m) = mgr_ok m"
  "mgr_ok (snd (RemovePlayerFromGroup gg g m)) = mgr_ok m"
  by (simp_all add: SetTeam_def AddPlayerToGroup_def SetLeader_def RemovePlayerData_def RemovePlayerFromGroup_def)

lemma mgr_ok_RemoveGroupData: "mgr_ok m \<Longrightarrow> mgr_ok (RemoveGroupData gg m)"
proof -
  assume ok: "mgr_ok m"
  have "mgr_ok (foldl (\<lambda>m p. let m1 = SetGroup p 0 m in if b then
      send (SendLfgUpdateParty p ud) (SetState p LFG_STATE_NONE m1) else m1) m ps)" for b ud ps
    using ok by (rule mgr_ok_foldl) (auto simp: Let_def)
  then show ?thesis by (simp add: RemoveGroupData_def Let_def)
qed

lemma mgr_ok_step: "lfg_step E D m m' \<Longrightarrow> mgr_ok m \<Longrightarrow> mgr_ok m'"
  by (induction rule: lfg_step.induct)
    (auto intro: mgr_ok_JoinLfg mgr_ok_LeaveLfg mgr_ok_UpdateRoleCheck mgr_ok_UpdateProposal mgr_ok_InitBoot
      mgr_ok_UpdateBoot mgr_ok_Update mgr_ok_RemoveGroupData)

lemma mgr_ok_start:
  "lm_QueuesStore m = [] \<Longrightarrow> lm_RoleChecksStore m = [] \<Longrightarrow> lm_ProposalsStore m = [] \<Longrightarrow> lm_sent m = [] \<Longrightarrow>
   mgr_ok m"
  by (simp add: mgr_ok_def all_vals_def groups_made_def)

section \<open>What happens to a proposal\<close>

lemma mgr_ok_steps: "(lfg_step E D)\<^sup>*\<^sup>* m m' \<Longrightarrow> mgr_ok m \<Longrightarrow> mgr_ok m'"
  by (induction rule: rtranclp_induct) (auto intro: mgr_ok_step)

text \<open>The last answer makes the group.\<close>

lemma UpdateProposal_last_answer:
  assumes "smap_find (lm_ProposalsStore m) i = Some pr" and "smap_find (pr_players pr) g = Some d"
    and "list_all (\<lambda>(p, d). pp_accept d = LFG_ANSWER_AGREE)
           (smap_put g (d\<lparr>pp_accept := LFG_ANSWER_AGREE\<rparr>) (pr_players pr))"
  shows "MakeNewGroup (pr\<lparr>pr_players := smap_put g (d\<lparr>pp_accept := LFG_ANSWER_AGREE\<rparr>) (pr_players pr),
           pr_state := LFG_PROPOSAL_SUCCESS\<rparr>) \<in> set (lm_sent (UpdateProposal t i g True m))"
  using assms by (simp add: UpdateProposal_def proposal_success_def Let_def split_def send_def)

text \<open>Four of the five players have agreed to a proposal of the finder.\<close>

definition example_proposal :: LfgProposal where
  "example_proposal =
     \<lparr>pr_id = 1, pr_dungeonId = 30, pr_state = LFG_PROPOSAL_INITIATING, pr_group = 0, pr_leader = 5,
      pr_cancelTime = 40, pr_encounters = 0, pr_isNew = True, pr_queues = [1, 2, 3, 4, 5], pr_showorder = [],
      pr_players = map (\<lambda>(g, r, a). (g, \<lparr>pp_role = r, pp_accept = a, pp_group = 0\<rparr>))
        [(1, 2, LFG_ANSWER_AGREE), (2, 4, LFG_ANSWER_AGREE), (3, 8, LFG_ANSWER_AGREE),
         (4, 8, LFG_ANSWER_AGREE), (5, 9, LFG_ANSWER_PENDING)]\<rparr>"

definition example_queue :: LFGQueue where
  "example_queue = empty_queue\<lparr>QueueDataStore :=
     map (\<lambda>(g, r). (g, mk_LfgQueueData 0 [30] [(g, r)])) [(1, 2), (2, 4), (3, 8), (4, 8), (5, 9)]\<rparr>"

definition example_finder :: LFGMgr where
  "example_finder = \<lparr>lm_QueueTimer = 0, lm_lfgProposalId = 1, lm_options = 1,
     lm_QueuesStore = [(0, example_queue)], lm_RoleChecksStore = [],
     lm_ProposalsStore = [(1, example_proposal)], lm_BootsStore = [],
     lm_PlayersStore = map (\<lambda>(g, r). (g, mk_LfgPlayerData\<lparr>pd_State := LFG_STATE_PROPOSAL, pd_Roles := r,
       pd_SelectedDungeons := [30]\<rparr>)) [(1, 2), (2, 4), (3, 8), (4, 8), (5, 9)],
     lm_GroupsStore = [], lm_sent = [], lm_undefined = False\<rparr>"

lemma queue_okI:
  "smap_inv (QueueDataStore q) \<Longrightarrow>
   list_all (\<lambda>(g, d). smap_inv (qd_roles d) \<and> length (qd_roles d) < 5) (QueueDataStore q) \<Longrightarrow> queue_ok q"
  unfolding queue_ok_def roles_ok_def entry_def list_all_iff by (fastforce dest: smap_find_SomeD)

lemma example_finder_ok: "mgr_ok example_finder"
proof -
  have "queue_ok example_queue"
    by (rule queue_okI) (simp_all add: example_queue_def mk_LfgQueueData_def smap_inv_def)
  moreover have "one_role_each example_proposal"
    by (simp add: one_role_each_def pr_roles_def example_proposal_def smap_inv_def)
  ultimately show ?thesis
    by (simp add: mgr_ok_def all_vals_def groups_made_def example_finder_def smap_inv_def)
qed

text \<open>Property C7: whatever the players and the server ask of the dungeon finder, in any order, a group is only
  made of five different players who all agreed, one of them as a tank, one as a healer and three as
  damage dealers. The calls start from any state in which the entries of the queues, the role checks and
  the proposals are well formed, which the empty state is.\<close>

theorem groups_are_complete:
  assumes "(lfg_step E D)\<^sup>*\<^sup>* m m'" and "mgr_ok m" and "MakeNewGroup pr \<in> set (lm_sent m')"
  shows "one_role_each pr \<and> (\<forall>(p, d) \<in> set (pr_players pr). pp_accept d = LFG_ANSWER_AGREE)"
  using mgr_ok_steps[OF assms(1,2)] assms(3) unfolding mgr_ok_def groups_made_def all_agreed_def by blast

theorem groups_are_complete_witness:
  "\<exists>pr. MakeNewGroup pr \<in> set (lm_sent (UpdateProposal 5 1 5 True example_finder)) \<and> one_role_each pr"
proof -
  have "\<exists>pr. MakeNewGroup pr \<in> set (lm_sent (UpdateProposal 5 1 5 True example_finder))"
    using UpdateProposal_last_answer[of example_finder 1 example_proposal 5
        "\<lparr>pp_role = 9, pp_accept = LFG_ANSWER_PENDING, pp_group = 0\<rparr>" 5]
    by (auto simp: example_finder_def example_proposal_def smap_find_def)
  then obtain pr where pr: "MakeNewGroup pr \<in> set (lm_sent (UpdateProposal 5 1 5 True example_finder))" ..
  have "(lfg_step E D)\<^sup>*\<^sup>* example_finder (UpdateProposal 5 1 5 True example_finder)" for E D
    by (rule r_into_rtranclp) (rule lfg_step.answer)
  then have "one_role_each pr" using groups_are_complete example_finder_ok pr by blast
  with pr show ?thesis by blast
qed

section \<open>Kick votes\<close>

lemma lm_sent_data [simp]: "lm_sent (SetVoteKick g b m) = lm_sent m" "lm_sent (DecreaseKicksLeft g m) = lm_sent m"
  by (simp_all add: SetVoteKick_def DecreaseKicksLeft_def upd_group_def)

lemma tell_vote_ended_sent: "RemoveFromGroup gg v \<in> set (lm_sent (tell_vote_ended b m)) \<longleftrightarrow> RemoveFromGroup gg v \<in> set (lm_sent m)"
proof -
  have "RemoveFromGroup gg v \<in> set (lm_sent (foldl (\<lambda>m (p, a). if p \<noteq> x then send (SendLfgBootProposalUpdate p b) m else m) m vs))
      \<longleftrightarrow> RemoveFromGroup gg v \<in> set (lm_sent m)" for vs x
    by (induction vs arbitrary: m) (simp_all add: send_def split_def)
  then show ?thesis unfolding tell_vote_ended_def .
qed

lemma tell_vote_ended_data [simp]:
  "lm_BootsStore (tell_vote_ended b m) = lm_BootsStore m" "lm_GroupsStore (tell_vote_ended b m) = lm_GroupsStore m"
  unfolding tell_vote_ended_def by (rule foldl_invariant; auto simp: split_def)+

text \<open>Who voted for the kick and who against it.\<close>

definition voters :: "LfgAnswer \<Rightarrow> (guid \<times> LfgAnswer) list \<Rightarrow> nat" where
  "voters a votes = length (filter (\<lambda>(p, v). v = a) votes)"

lemma votes_split: "length (filter (\<lambda>(p, v). v \<noteq> LFG_ANSWER_PENDING) vs) = voters LFG_ANSWER_AGREE vs + voters LFG_ANSWER_DENY vs"
proof (induction vs)
  case (Cons e vs)
  then show ?case by (cases e; cases "snd e") (auto simp: voters_def)
qed (simp add: voters_def)

lemma voters_bound: "voters LFG_ANSWER_AGREE vs + voters LFG_ANSWER_DENY vs \<le> length vs"
  unfolding votes_split[symmetric] by (rule length_filter_le)

lemma length_smap_put_old: "smap_find m k = Some v \<Longrightarrow> smap_inv m \<Longrightarrow> length (smap_put k w m) = length m"
  using smap_put_same_map[of m k v "\<lambda>_. ()" w] by (metis length_map)

lemma boot_counts:
  assumes "length vs \<le> 255"
  shows "unat (agreeNum vs) = voters LFG_ANSWER_AGREE vs"
    and "unat (votesNum vs - agreeNum vs) = voters LFG_ANSWER_DENY vs"
proof -
  have k: "agreeNum vs = of_nat (voters LFG_ANSWER_AGREE vs)" by (simp add: agreeNum_def voters_def)
  have n: "votesNum vs = of_nat (voters LFG_ANSWER_AGREE vs + voters LFG_ANSWER_DENY vs)"
    by (simp add: votesNum_def votes_split)
  have "votesNum vs - agreeNum vs = of_nat (voters LFG_ANSWER_DENY vs)" by (simp add: k n)
  then show "unat (agreeNum vs) = voters LFG_ANSWER_AGREE vs" "unat (votesNum vs - agreeNum vs) = voters LFG_ANSWER_DENY vs"
    using voters_bound[of vs] assms by (simp_all add: k unat_of_nat)
qed

lemma less_three: "(k :: u8) < 3 \<longleftrightarrow> unat k < 3" "(k :: u8) = 3 \<longleftrightarrow> unat k = 3"
  by (simp_all add: word_less_nat_alt word_unat_eq_iff)

text \<open>Property C32: a vote of a player who has not voted is counted once. The kick vote goes on with his vote until
  three have agreed or three have denied; then it is erased, the vote of the group is over, and the
  victim is removed from the group (and a kick used up) exactly if three have agreed.\<close>

theorem UpdateBoot_counts:
  fixes m :: LFGMgr and g :: guid
  defines "gg \<equiv> GetGroup m g" and "sent \<equiv> set (lm_sent m)"
  assumes "gg \<noteq> 0" and "smap_find (lm_BootsStore m) gg = Some b" and "smap_find (bt_votes b) g = Some LFG_ANSWER_PENDING"
    and "smap_inv (bt_votes b)" and "length (bt_votes b) \<le> 255" and "smap_inv (lm_BootsStore m)" and "smap_inv (lm_GroupsStore m)"
    and "RemoveFromGroup gg (bt_victim b) \<notin> sent"
  shows "let votes = smap_put g (if accept then LFG_ANSWER_AGREE else LFG_ANSWER_DENY) (bt_votes b);
             agree = voters LFG_ANSWER_AGREE votes; deny = voters LFG_ANSWER_DENY votes;
             m' = UpdateBoot E g accept m; over = (agree \<ge> 3 \<or> deny \<ge> 3)
         in smap_find (lm_BootsStore m') gg = (if over then None else Some (b\<lparr>bt_votes := votes\<rparr>))
          \<and> IsVoteKickActive m' gg = (IsVoteKickActive m gg \<and> \<not> over)
          \<and> (RemoveFromGroup gg (bt_victim b) \<in> set (lm_sent m') \<longleftrightarrow> agree = 3 \<and> le_groupExists E gg)
          \<and> GetKicksLeft m' gg = (if agree = 3 then GetKicksLeft m gg - (if GetKicksLeft m gg = 0 then 0 else 1)
                                  else GetKicksLeft m gg)"
proof -
  define votes where "votes = smap_put g (if accept then LFG_ANSWER_AGREE else LFG_ANSWER_DENY) (bt_votes b)"
  have len: "length votes \<le> 255" using assms unfolding votes_def by (subst length_smap_put_old[of _ _ LFG_ANSWER_PENDING]) auto
  let ?k = "voters LFG_ANSWER_AGREE votes" and ?n = "voters LFG_ANSWER_DENY votes"
  let ?m1 = "m\<lparr>lm_BootsStore := smap_put gg (b\<lparr>bt_votes := votes\<rparr>) (lm_BootsStore m)\<rparr>"
  let ?m2 = "SetVoteKick gg False (tell_vote_ended (b\<lparr>bt_votes := votes, bt_inProgress := False\<rparr>) ?m1)"
  let ?m3 = "if ?k = 3 then DecreaseKicksLeft gg (if le_groupExists E gg then send (RemoveFromGroup gg (bt_victim b)) ?m2 else ?m2) else ?m2"
  have c: "agreeNum votes < 3 \<longleftrightarrow> ?k < 3" "votesNum votes - agreeNum votes < 3 \<longleftrightarrow> ?n < 3" "agreeNum votes = 3 \<longleftrightarrow> ?k = 3"
    by (simp_all only: less_three boot_counts[OF len])
  have m': "UpdateBoot E g accept m = (if ?k < 3 \<and> ?n < 3 then ?m1
      else ?m3\<lparr>lm_BootsStore := smap_erase gg (lm_BootsStore ?m3)\<rparr>)"
    using assms(3-5) unfolding UpdateBoot_def Let_def gg_def[symmetric]
    by (simp only: votes_def[symmetric] c option.case if_False if_True refl simp_thms) simp
  have kick: "RemoveFromGroup gg (bt_victim b) \<in> set (lm_sent ?m2) \<longleftrightarrow> False"
    using assms(10) by (simp add: tell_vote_ended_sent sent_def)
  have data: "group_data ?m2 gg = group_data m gg\<lparr>gd_VoteKickActive := False\<rparr>" "smap_inv (lm_GroupsStore ?m2)"
    using assms(9) by (simp_all add: SetVoteKick_def upd_group_def group_data_def container_simps smap.inv_put)
  show ?thesis
  proof (cases "?k < 3 \<and> ?n < 3")
    case True
    then show ?thesis
      using assms(8,10) unfolding Let_def votes_def[symmetric] m'
      by (auto simp: container_simps IsVoteKickActive_def GetKicksLeft_def group_data_def sent_def)
  next
    case False
    then have over: "(3 \<le> ?k \<or> 3 \<le> ?n) = True" by auto
    have eqs: "gd_VoteKickActive (group_data (x\<lparr>lm_BootsStore := y\<rparr>) z) = gd_VoteKickActive (group_data x z)"
      "gd_KicksLeft (group_data (x\<lparr>lm_BootsStore := y\<rparr>) z) = gd_KicksLeft (group_data x z)"
      "group_data (send w x) z = group_data x z" for x y z w by (simp_all add: group_data_def)
    have gone: "smap_find (smap_erase gg bs) gg = None" for bs :: "(guid \<times> LfgPlayerBoot) list"
      by (simp add: smap_find_def map_of_smap_erase)
    have dec: "group_data (DecreaseKicksLeft gg x) gg = group_DecreaseKicksLeft (group_data x gg)"
      if "smap_inv (lm_GroupsStore x)" for x
      using that by (simp add: DecreaseKicksLeft_def upd_group_def group_data_def container_simps)
    show ?thesis
      using kick data unfolding Let_def votes_def[symmetric] m' if_not_P[OF False] over
      by (cases "?k = 3"; cases "le_groupExists E gg")
        (simp_all add: gone IsVoteKickActive_def GetKicksLeft_def eqs dec group_DecreaseKicksLeft_def, simp_all add: send_def)
  qed
qed

definition example_boot :: LFGMgr where
  "example_boot = example_finder\<lparr>lm_BootsStore := [(7, \<lparr>bt_cancelTime = 120, bt_inProgress = True,
       bt_votes = [(1, LFG_ANSWER_AGREE), (2, LFG_ANSWER_AGREE), (3, LFG_ANSWER_PENDING), (4, LFG_ANSWER_DENY)],
       bt_victim = 4, bt_reason = []\<rparr>)],
     lm_PlayersStore := [(3, mk_LfgPlayerData\<lparr>pd_Group := 7\<rparr>)]\<rparr>"

theorem UpdateBoot_counts_witness:
  "RemoveFromGroup 7 4 \<in> set (lm_sent (UpdateBoot \<lparr>le_connected = (\<lambda>_. True), le_ignores = (\<lambda>_ _. False),
     le_groupExists = (\<lambda>_. True), le_dungeon = (\<lambda>_. 0), le_coin = (\<lambda>_ _. False)\<rparr> 3 True example_boot))"
  using UpdateBoot_counts[of example_boot 3 "\<lparr>bt_cancelTime = 120, bt_inProgress = True,
       bt_votes = [(1, LFG_ANSWER_AGREE), (2, LFG_ANSWER_AGREE), (3, LFG_ANSWER_PENDING), (4, LFG_ANSWER_DENY)],
       bt_victim = 4, bt_reason = []\<rparr>" True "\<lparr>le_connected = (\<lambda>_. True), le_ignores = (\<lambda>_ _. False),
     le_groupExists = (\<lambda>_. True), le_dungeon = (\<lambda>_. 0), le_coin = (\<lambda>_ _. False)\<rparr>"]
  by (simp add: example_boot_def example_finder_def GetGroup_def player_data_def smap_find_def smap_inv_def
      mk_LfgPlayerData_def voters_def Let_def)

section \<open>A proposal that is declined\<close>

text \<open>The queue of a player or group depends on his team and on the players of the group.\<close>

definition data_inv :: "LFGMgr \<Rightarrow> bool" where
  "data_inv m \<longleftrightarrow> smap_inv (lm_PlayersStore m) \<and> smap_inv (lm_GroupsStore m)"

definition same_teams :: "LFGMgr \<Rightarrow> LFGMgr \<Rightarrow> bool" where
  "same_teams m m' \<longleftrightarrow> (data_inv m \<longrightarrow> data_inv m' \<and> (\<forall>g. GetTeam m' g = GetTeam m g \<and> GetPlayers m' g = GetPlayers m g))"

lemma same_teams_trans: "same_teams m n \<Longrightarrow> same_teams n k \<Longrightarrow> same_teams m k"
  by (simp add: same_teams_def)

lemma same_teams_queue: "same_teams m m' \<Longrightarrow> data_inv m \<Longrightarrow> queue_id m' g = queue_id m g"
  by (auto simp: same_teams_def queue_id_def split: list.splits)

lemma same_teams_send: "same_teams m (send x m)"
  by (simp add: same_teams_def data_inv_def GetTeam_def GetPlayers_def player_data_def group_data_def)

lemma same_teams_upd_player: "(\<And>d. pd_Team (f d) = pd_Team d) \<Longrightarrow> same_teams m (upd_player g f m)"
  by (auto simp: same_teams_def data_inv_def upd_player_def GetTeam_def GetPlayers_def player_data_def
      group_data_def container_simps smap.inv_put)

lemma same_teams_upd_group: "(\<And>d. gd_Players (f d) = gd_Players d) \<Longrightarrow> same_teams m (upd_group g f m)"
  by (auto simp: same_teams_def data_inv_def upd_group_def GetTeam_def GetPlayers_def player_data_def
      group_data_def container_simps smap.inv_put)

lemma same_teams_states: "same_teams m (SetState g st m)" "same_teams m (RestoreState g m)"
  by (auto simp: SetState_def RestoreState_def player_SetState_def player_RestoreState_def group_SetState_def
      group_RestoreState_def Let_def intro!: same_teams_upd_player same_teams_upd_group)

lemma same_teams_removed_player: "same_teams m (proposal_removed_player type pr removed m e)"
proof -
  have s: "same_teams m (send x k)" "same_teams m (SetState g st k)" "same_teams m (RestoreState g k)"
    if "same_teams m k" for x g st k
    using same_teams_trans[OF that] same_teams_send same_teams_states by blast+
  have "same_teams m m" by (simp add: same_teams_def)
  then show ?thesis by (simp add: proposal_removed_player_def Let_def s)
qed

lemma removed_players_frame:
  fixes m :: LFGMgr and type :: LfgUpdateType and pr :: LfgProposal and removed :: "guid list" and ps :: "(guid \<times> LfgProposalPlayer) list"
  defines "m' \<equiv> foldl (proposal_removed_player type pr removed) m ps"
  assumes "data_inv m"
  shows "queue_id m' g = queue_id m g" and "queue_of m' i = queue_of m i"
proof -
  have "same_teams m m'" unfolding m'_def
  proof (rule foldl_invariant)
    show "same_teams m m" by (simp add: same_teams_def)
  qed (rule same_teams_trans[OF _ same_teams_removed_player])
  then show "queue_id m' g = queue_id m g" using assms(2) by (rule same_teams_queue)
  show "queue_of m' i = queue_of m i"
    using same_stores_loops(2)[of m type pr removed ps] by (simp add: same_stores_def queue_of_def m'_def)
qed

lemma set_to_remove: "set (to_remove ps) = queued_as ` set (filter (\<lambda>e. pp_accept (snd e) = LFG_ANSWER_DENY) ps)"
proof -
  have "set (foldl (\<lambda>s e. if pp_accept (snd e) = LFG_ANSWER_DENY then sset_insert (queued_as e) s else s) s ps)
      = set s \<union> queued_as ` set (filter (\<lambda>e. pp_accept (snd e) = LFG_ANSWER_DENY) ps)" for s
    by (induction ps arbitrary: s) (simp_all add: set_sset_insert)
  then show ?thesis by (simp add: to_remove_def)
qed

text \<open>The order of the queue: who is removed is gone, who is put back is in the queue of those waiting.\<close>

lemma removals:
  defines "rm \<equiv> foldl (\<lambda>q g. RemoveFromQueue g q)"
  assumes "smap_inv (QueueDataStore q)"
  shows "currentQueueStore (rm q gs) = filter (\<lambda>h. h \<notin> set gs) (currentQueueStore q)"
    and "newToQueueStore (rm q gs) = filter (\<lambda>h. h \<notin> set gs) (newToQueueStore q)"
    and "entry (rm q gs) h = (if h \<in> set gs then None else entry q h)"
proof -
  have "currentQueueStore (rm q gs) = filter (\<lambda>h. h \<notin> set gs) (currentQueueStore q)
    \<and> newToQueueStore (rm q gs) = filter (\<lambda>h. h \<notin> set gs) (newToQueueStore q)
    \<and> entry (rm q gs) h = (if h \<in> set gs then None else entry q h)"
    unfolding rm_def using assms(2)
  proof (induction gs arbitrary: q)
    case (Cons g gs)
    note q1 = RemoveFromQueue_entries[OF Cons.prems, of g]
    show ?case using Cons.IH[of "RemoveFromQueue g q"] q1 by (simp add: RemoveFromQueue_frame conj_commute)
  qed simp
  then show "currentQueueStore (rm q gs) = filter (\<lambda>h. h \<notin> set gs) (currentQueueStore q)"
    "newToQueueStore (rm q gs) = filter (\<lambda>h. h \<notin> set gs) (newToQueueStore q)"
    "entry (rm q gs) h = (if h \<in> set gs then None else entry q h)" by blast+
qed

lemma readds:
  defines "add \<equiv> foldl (\<lambda>q g. AddToQueue g True q)"
  shows "set (currentQueueStore (add q gs)) = set (currentQueueStore q) \<union> {g \<in> set gs. entry q g \<noteq> None}"
    and "newToQueueStore (add q gs) = newToQueueStore q" and "entry (add q gs) = entry q"
proof -
  have "set (currentQueueStore (add q gs)) = set (currentQueueStore q) \<union> {g \<in> set gs. entry q g \<noteq> None}
    \<and> newToQueueStore (add q gs) = newToQueueStore q \<and> entry (add q gs) = entry q"
    unfolding add_def
    by (induction gs arbitrary: q) (auto simp: AddToQueue_def AddToFrontCurrentQueue_def entry_def)
  then show "set (currentQueueStore (add q gs)) = set (currentQueueStore q) \<union> {g \<in> set gs. entry q g \<noteq> None}"
    "newToQueueStore (add q gs) = newToQueueStore q" "entry (add q gs) = entry q" by blast+
qed

lemma queue_of_with_queue: "smap_inv (lm_QueuesStore m) \<Longrightarrow> queue_of (with_queue i f m) j = (if j = i then f (queue_of m i) else queue_of m j)"
  by (simp add: queue_of_def with_queue_def container_simps)

lemma failed_declined [simp]:
  "failed_proposal LFG_UPDATETYPE_PROPOSAL_DECLINED pr = pr\<lparr>pr_state := LFG_PROPOSAL_FAILED\<rparr>"
  by (cases pr) (simp add: failed_proposal_def deny_pending_def)

text \<open>The players of a proposal after one of them has declined, who is the only one to be removed.\<close>

lemma declined_players:
  assumes "smap_inv players" and g: "smap_find players g = Some d"
    and others: "\<forall>(p, d) \<in> set players. p \<noteq> g \<longrightarrow> pp_accept d \<noteq> LFG_ANSWER_DENY"
  defines "ps \<equiv> smap_put g (d\<lparr>pp_accept := LFG_ANSWER_DENY\<rparr>) players"
  shows "set (to_remove ps) = {queued_as (g, d)}" and "ps \<noteq> []" and "fst (hd ps) = fst (hd players)"
proof -
  define d' where "d' = d\<lparr>pp_accept := LFG_ANSWER_DENY\<rparr>"
  have ps: "ps = smap_put g d' players" by (simp add: ps_def d'_def)
  have mem: "(p, x) \<in> set ps \<longleftrightarrow> p = g \<and> x = d' \<or> p \<noteq> g \<and> (p, x) \<in> set players" for p x
    using assms(1) unfolding ps by (simp flip: smap_find_mem add: smap.inv_put container_simps) auto
  have "(g, d') \<in> set (filter (\<lambda>e. pp_accept (snd e) = LFG_ANSWER_DENY) ps)"
    using mem[of g d'] by (simp add: d'_def)
  moreover have "set (filter (\<lambda>e. pp_accept (snd e) = LFG_ANSWER_DENY) ps) \<subseteq> {(g, d')}"
    using others mem by auto
  ultimately have "set (filter (\<lambda>e. pp_accept (snd e) = LFG_ANSWER_DENY) ps) = {(g, d')}" by blast
  then show "set (to_remove ps) = {queued_as (g, d)}"
    unfolding set_to_remove by (simp add: queued_as_def d'_def)
  have ne: "players \<noteq> []" using g by auto
  show "ps \<noteq> []" using mem[of g d'] by auto
  moreover have "map fst ps = map fst players"
    unfolding ps by (rule smap_put_same_map[OF assms(1) g]) simp
  ultimately show "fst (hd ps) = fst (hd players)" using ne by (metis hd_map)
qed

text \<open>Property C29: a player who declines ends the proposal. He, or the group he is in, leaves the queue, and every
  other entry of the proposal that is still known waits in the queue again.\<close>

theorem declined_proposal:
  fixes m :: LFGMgr and pr :: LfgProposal and g :: guid and d :: LfgProposalPlayer
  defines "qi \<equiv> queue_id m (fst (hd (pr_players pr)))" and "out \<equiv> queued_as (g, d)"
  assumes pr: "smap_find (lm_ProposalsStore m) i = Some pr" and g: "smap_find (pr_players pr) g = Some d"
    and others: "\<forall>(p, d) \<in> set (pr_players pr). p \<noteq> g \<longrightarrow> pp_accept d \<noteq> LFG_ANSWER_DENY"
    and inv: "mgr_ok m" "data_inv m"
  shows "let m' = UpdateProposal t i g False m; q = queue_of m qi; q' = queue_of m' qi
         in smap_find (lm_ProposalsStore m') i = None \<and> entry q' = (entry q)(out := None)
          \<and> out \<notin> set (newToQueueStore q') \<and> out \<notin> set (currentQueueStore q')
          \<and> (\<forall>h \<in> set (pr_queues pr) - {out}. entry q h \<noteq> None \<longrightarrow> h \<in> set (currentQueueStore q'))"
proof -
  define d' where "d' = d\<lparr>pp_accept := LFG_ANSWER_DENY\<rparr>"
  define ps where "ps = smap_put g d' (pr_players pr)"
  define pr1 where "pr1 = pr\<lparr>pr_players := ps\<rparr>"
  define m1 where "m1 = m\<lparr>lm_ProposalsStore := smap_put i pr1 (lm_ProposalsStore m)\<rparr>"
  define k where "k = foldl (proposal_removed_player LFG_UPDATETYPE_PROPOSAL_DECLINED
    (pr1\<lparr>pr_state := LFG_PROPOSAL_FAILED\<rparr>) (to_remove ps)) m1 ps"
  have stores: "smap_inv (lm_ProposalsStore m)" "smap_inv (lm_QueuesStore m)" "smap_inv (pr_players pr)"
    using inv(1) mgr_ok_find(2)[OF inv(1) pr] by (auto simp: mgr_ok_def all_vals_def one_role_each_def)
  have q: "smap_inv (QueueDataStore (queue_of m qi))" using queue_ok_of[OF inv(1), of qi] by (simp add: queue_ok_def)
  note ps = declined_players[OF stores(3) g others, folded d'_def ps_def out_def]
  have k: "queue_id k p = queue_id m p" "queue_of k j = queue_of m j" "lm_QueuesStore k = lm_QueuesStore m" for p j
  proof -
    have "data_inv m1" "queue_of m1 j = queue_of m j" using inv(2) by (simp_all add: m1_def data_inv_def queue_of_def)
    moreover have "queue_id m1 p = queue_id m p"
      by (simp add: m1_def queue_id_def GetPlayers_def GetTeam_def group_data_def player_data_def split: list.splits)
    ultimately show "queue_id k p = queue_id m p" "queue_of k j = queue_of m j"
      unfolding k_def by (simp_all add: removed_players_frame)
    show "lm_QueuesStore k = lm_QueuesStore m"
      using same_stores_loops(2)[of m1] by (simp add: same_stores_def k_def m1_def)
  qed
  let ?add = "foldl (\<lambda>q g. AddToQueue g True q)" and ?rm = "foldl (\<lambda>q g. RemoveFromQueue g q)"
  let ?rest = "filter (\<lambda>g. g \<notin> set (to_remove ps)) (pr_queues pr)"
  define q' where "q' = ?add (?rm (queue_of m qi) (to_remove ps)) ?rest"
  have qi: "(case ps of e # _ \<Rightarrow> queue_id k (fst e) | [] \<Rightarrow> 0) = qi"
    using ps(2,3) k(1) by (cases ps) (simp_all add: qi_def)
  have found: "smap_find (lm_ProposalsStore m1) i = Some pr1"
    using stores(1) by (simp add: m1_def container_simps)
  have fields: "pr_players (pr1\<lparr>pr_state := LFG_PROPOSAL_FAILED\<rparr>) = ps" "pr_queues (pr1\<lparr>pr_state := LFG_PROPOSAL_FAILED\<rparr>) = pr_queues pr"
    by (simp_all add: pr1_def)
  have "UpdateProposal t i g False m = RemoveProposal i LFG_UPDATETYPE_PROPOSAL_DECLINED m1"
    using pr g by (simp add: UpdateProposal_def Let_def m1_def pr1_def ps_def d'_def)
  also have "\<dots> = (let m2 = with_queue qi (\<lambda>q. ?add (?rm q (to_remove ps)) ?rest) k
      in m2\<lparr>lm_ProposalsStore := smap_erase i (lm_ProposalsStore m2)\<rparr>)"
    unfolding RemoveProposal_def found option.case failed_declined Let_def fields k_def[symmetric] qi by (rule refl)
  finally have m': "UpdateProposal t i g False m = \<dots>" .
  have q': "queue_of (UpdateProposal t i g False m) qi = q'" "smap_find (lm_ProposalsStore (UpdateProposal t i g False m)) i = None"
    unfolding m' Let_def using stores(2) k
    by (simp_all add: queue_of_def with_queue_def container_simps q'_def smap_find_def map_of_smap_erase)
  show ?thesis
    using removals[OF q, of "to_remove ps"] ps(1) unfolding Let_def q' q'_def
    by (auto simp: readds)
qed

theorem declined_proposal_witness:
  "let m' = UpdateProposal 5 1 5 False example_finder
   in smap_find (lm_ProposalsStore m') 1 = None \<and> entry (queue_of m' 0) 5 = None \<and> 4 \<in> set (currentQueueStore (queue_of m' 0))"
proof -
  have q: "queue_id example_finder (fst (hd (pr_players example_proposal))) = 0" "queue_of example_finder 0 = example_queue"
    by (simp_all add: queue_id_def example_proposal_def IsGroup_def GetTeam_def player_data_def example_finder_def
        smap_find_def mk_LfgPlayerData_def queue_of_def)
  have e: "entry example_queue 4 \<noteq> None" by (simp add: entry_def example_queue_def smap_find_def)
  have inv: "data_inv example_finder" by (simp add: data_inv_def example_finder_def smap_inv_def)
  show ?thesis
    using declined_proposal[of example_finder 1 example_proposal 5
        "\<lparr>pp_role = 9, pp_accept = LFG_ANSWER_PENDING, pp_group = 0\<rparr>" 5, OF _ _ _ example_finder_ok inv] q e
    by (auto simp: Let_def example_finder_def example_proposal_def smap_find_def queued_as_def)
qed

section \<open>Two flaws of the manager\<close>

text \<open>When one update makes several proposals, the players of all but the last are told nothing and
  keep their state: what is announced begins at the last id (\<open>LFGMgr.cpp\<close> has a FIXME for it). With the
  ids of all proposals up to the last one given out, the proposals announced are the one with that id,
  if it is there.\<close>

theorem only_the_last_is_announced:
  assumes "smap_inv (lm_ProposalsStore m)" and "\<forall>(i, pr) \<in> set (lm_ProposalsStore m). i \<le> lm_lfgProposalId m"
  shows "announced m = (case smap_find (lm_ProposalsStore m) (lm_lfgProposalId m) of
           None \<Rightarrow> [] | Some pr \<Rightarrow> [(lm_lfgProposalId m, pr)])"
proof -
  have "dropWhile (\<lambda>e. fst e \<noteq> n) ps = (case map_of ps n of None \<Rightarrow> [] | Some pr \<Rightarrow> [(n, pr)])"
    if "sorted_wrt (<) (map fst ps)" "\<forall>e \<in> set ps. fst e \<le> n" for n :: u32 and ps :: "(u32 \<times> LfgProposal) list"
    using that
  proof (induction ps)
    case (Cons e ps)
    have "ps = []" if "fst e = n"
      using that Cons.prems by (cases ps) auto
    then show ?case using Cons by (cases e) auto
  qed simp
  then show ?thesis using assms by (auto simp: announced_def smap_inv_def smap_find_def split_beta)
qed

theorem only_the_last_is_announced_witness:
  "announced (example_finder\<lparr>lm_lfgProposalId := 2,
     lm_ProposalsStore := [(1, example_proposal), (2, example_proposal\<lparr>pr_id := 2\<rparr>)]\<rparr>)
   = [(2, example_proposal\<lparr>pr_id := 2\<rparr>)]"
  by (subst only_the_last_is_announced) (simp_all add: smap_inv_def smap_find_def)

text \<open>Property C38: a player or group in the queue that asks again and is refused for something about the
  player who asks (no permission, a deserter, on cooldown, in a battleground, frozen) is taken out of its queue and
  out of both waiting lists, but its state stays \<open>LFG_STATE_QUEUED\<close>. For a manager that keeps \<open>mgr_ok\<close>, which all
  operations do.\<close>

theorem rejected_rejoin_is_stuck:
  fixes m :: LFGMgr and grp :: "join_group option" and p :: joiner
  defines "gg \<equiv> (case grp of Some x \<Rightarrow> jg_guid x | None \<Rightarrow> jn_guid p)"
  assumes "dungeons \<noteq> []" and "GetState m gg = LFG_STATE_QUEUED" and "mgr_ok m"
    and "join_self p dungeons \<noteq> LFG_JOIN_OK"
  shows "let m' = JoinLfg D t p grp roles dungeons comment m; q' = queue_of m' (queue_id m' gg)
         in GetState m' gg = LFG_STATE_QUEUED \<and> entry q' gg = None
            \<and> gg \<notin> set (newToQueueStore q') \<and> gg \<notin> set (currentQueueStore q')"
proof -
  have q: "smap_inv (QueueDataStore (queue_of m i))" for i using queue_ok_of[OF assms(4), of i] by (simp add: queue_ok_def)
  have "smap_inv (lm_QueuesStore m)" using assms(4) by (simp add: mgr_ok_def all_vals_def)
  then have s: "queue_of (send x (with_queue i f m)) i = f (queue_of m i)" for x i f
    by (simp add: queue_of_def with_queue_def container_simps)
  have r: "queue_id (send x (with_queue i f m)) h = queue_id m h" "GetState (send x (with_queue i f m)) h = GetState m h" for x i f h
    by (simp_all add: queue_id_def GetPlayers_def GetTeam_def GetState_def group_data_def player_data_def with_queue_def split: list.splits)
  have "jc_result (check_join D p grp ds ic) \<noteq> LFG_JOIN_OK" if "ds \<noteq> []" for ds ic
    using assms(2,5) that by (auto simp: check_join_def join_party_def join_self_def split: option.splits if_splits)
  then obtain x where "JoinLfg D t p grp roles dungeons comment m = send x (with_queue (queue_id m gg) (RemoveFromQueue gg) m)"
    using assms(2,3) unfolding JoinLfg_def Let_def gg_def by simp
  then show ?thesis
    using RemoveFromQueue_entries[OF q] assms(3) by (simp add: Let_def r s RemoveFromQueue_frame)
qed

text \<open>Player 1 is queued and is a deserter when he asks again.\<close>

theorem rejected_rejoin_is_stuck_witness:
  "\<forall>D. let m = SetState 1 LFG_STATE_QUEUED example_finder;
       m' = JoinLfg D 9 \<lparr>jn_guid = 1, jn_permission = True, jn_usesBattleground = False, jn_deserter = True,
              jn_cooldown = False, jn_frozen = False\<rparr> None 2 [30] [] m
   in GetState m' 1 = LFG_STATE_QUEUED \<and> entry (queue_of m' (queue_id m' 1)) 1 = None"
  (is "\<forall>D. ?P D")
proof
  fix D
  let ?m = "SetState 1 LFG_STATE_QUEUED example_finder"
  let ?p = "\<lparr>jn_guid = 1, jn_permission = True, jn_usesBattleground = False, jn_deserter = True,
              jn_cooldown = False, jn_frozen = False\<rparr>"
  have "GetState ?m 1 = LFG_STATE_QUEUED"
    by (simp add: GetState_def SetState_def IsGroup_def upd_player_def player_data_def example_finder_def
      smap_find_def player_SetState_def mk_LfgPlayerData_def)
  moreover have "mgr_ok ?m" "join_self ?p [30] \<noteq> LFG_JOIN_OK"
    by (simp_all add: example_finder_ok join_self_def)
  ultimately show "?P D"
    using rejected_rejoin_is_stuck[where m = ?m and grp = None and dungeons = "[30]" and p = ?p and D = D and t = 9
        and roles = 2 and comment = "[]"] by (simp add: Let_def)
qed

end
