(* ===== verification/Buffers.thy ===== *)
theory Buffers
  imports Prelude
begin

text \<open>
  The byte containers of the network code: \<open>MessageBuffer\<close> (\<open>common/Utilities/MessageBuffer.h\<close>), which
  the sockets read into and write from, and \<open>ByteBuffer\<close> (\<open>shared/Packets/ByteBuffer.h\<close>), which packets
  are built in and parsed from. Positions are \<open>size_t\<close> in the code; buffers are shorter than 10 million
  bytes (\<open>append\<close> asserts it) and lengths asked for have at most 32 bits, so sums of positions do not
  wrap and are natural numbers here. Access outside of the storage is \<open>None\<close> (\<open>MessageBuffer\<close>, which
  does not check) or an error (\<open>ByteBuffer\<close>, which does).
\<close>

section \<open>Message buffers\<close>

record MessageBuffer =
  mb_wpos :: nat
  mb_rpos :: nat
  mb_storage :: "u8 list"

definition mk_MessageBuffer :: "nat \<Rightarrow> MessageBuffer" where
  "mk_MessageBuffer n = \<lparr>mb_wpos = 0, mb_rpos = 0, mb_storage = replicate n 0\<rparr>"

definition vector_resize :: "nat \<Rightarrow> u8 list \<Rightarrow> u8 list" where
  "vector_resize n xs = take n xs @ replicate (n - length xs) 0"

definition mb_Reset :: "MessageBuffer \<Rightarrow> MessageBuffer" where
  "mb_Reset b = b\<lparr>mb_wpos := 0, mb_rpos := 0\<rparr>"

definition mb_Resize :: "nat \<Rightarrow> MessageBuffer \<Rightarrow> MessageBuffer" where
  "mb_Resize n b = b\<lparr>mb_storage := vector_resize n (mb_storage b)\<rparr>"

definition ReadCompleted :: "nat \<Rightarrow> MessageBuffer \<Rightarrow> MessageBuffer" where
  "ReadCompleted n b = b\<lparr>mb_rpos := mb_rpos b + n\<rparr>"

definition WriteCompleted :: "nat \<Rightarrow> MessageBuffer \<Rightarrow> MessageBuffer" where
  "WriteCompleted n b = b\<lparr>mb_wpos := mb_wpos b + n\<rparr>"

definition GetActiveSize :: "MessageBuffer \<Rightarrow> nat" where
  "GetActiveSize b = mb_wpos b - mb_rpos b"

definition GetRemainingSpace :: "MessageBuffer \<Rightarrow> nat" where
  "GetRemainingSpace b = length (mb_storage b) - mb_wpos b"

text \<open>\<open>memmove\<close> and \<open>memcpy\<close> of bytes to a position of the storage, which they must fit into.\<close>

definition copy_to :: "nat \<Rightarrow> u8 list \<Rightarrow> u8 list \<Rightarrow> u8 list" where
  "copy_to p bs xs = take p xs @ bs @ drop (p + length bs) xs"

text \<open>The \<open>n\<close> bytes at the read pointer.\<close>

definition read_at :: "nat \<Rightarrow> MessageBuffer \<Rightarrow> u8 list" where
  "read_at n b = take n (drop (mb_rpos b) (mb_storage b))"

definition Normalize :: "MessageBuffer \<Rightarrow> MessageBuffer" where
  "Normalize b =
     (if mb_rpos b \<noteq> 0 then
        let b1 = (if mb_rpos b \<noteq> mb_wpos b
                  then b\<lparr>mb_storage := copy_to 0 (read_at (GetActiveSize b) b) (mb_storage b)\<rparr> else b)
        in b1\<lparr>mb_wpos := mb_wpos b - mb_rpos b, mb_rpos := 0\<rparr>
      else b)"

definition EnsureFreeSpace :: "MessageBuffer \<Rightarrow> MessageBuffer" where
  "EnsureFreeSpace b =
     (if GetRemainingSpace b = 0 then mb_Resize (length (mb_storage b) * 3 div 2) b else b)"

definition mb_Write :: "u8 list \<Rightarrow> MessageBuffer \<Rightarrow> MessageBuffer option" where
  "mb_Write bs b =
     (if bs = [] then Some b
      else if mb_wpos b + length bs \<le> length (mb_storage b) then
        Some (WriteCompleted (length bs) (b\<lparr>mb_storage := copy_to (mb_wpos b) bs (mb_storage b)\<rparr>))
      else None)"

definition mb_Move :: "MessageBuffer \<Rightarrow> u8 list \<times> MessageBuffer" where
  "mb_Move b = (mb_storage b, \<lparr>mb_wpos = 0, mb_rpos = 0, mb_storage = []\<rparr>)"

subsection \<open>The bytes in a message buffer\<close>

definition mb_ok :: "MessageBuffer \<Rightarrow> bool" where
  "mb_ok b \<longleftrightarrow> mb_rpos b \<le> mb_wpos b \<and> mb_wpos b \<le> length (mb_storage b)"

definition mb_data :: "MessageBuffer \<Rightarrow> u8 list" where
  "mb_data b = take (mb_wpos b - mb_rpos b) (drop (mb_rpos b) (mb_storage b))"

named_theorems mb_defs \<open>the operations of a message buffer\<close>

declare mb_Reset_def [mb_defs] mb_Resize_def [mb_defs] ReadCompleted_def [mb_defs] WriteCompleted_def [mb_defs]
  GetActiveSize_def [mb_defs] GetRemainingSpace_def [mb_defs] mb_ok_def [mb_defs] mb_data_def [mb_defs]
  mk_MessageBuffer_def [mb_defs] copy_to_def [mb_defs] read_at_def [mb_defs]

lemma length_vector_resize [simp]: "length (vector_resize n xs) = n"
  by (simp add: vector_resize_def)

lemma length_mb_data: "mb_ok b \<Longrightarrow> length (mb_data b) = GetActiveSize b"
  by (auto simp: mb_defs)

lemma mb_new: "mb_ok (mk_MessageBuffer n)" "mb_data (mk_MessageBuffer n) = []" "GetRemainingSpace (mk_MessageBuffer n) = n"
  by (simp_all add: mb_defs)

lemma mb_Reset_ok: "mb_ok b \<Longrightarrow> mb_ok (mb_Reset b)" "mb_data (mb_Reset b) = []"
  "GetRemainingSpace (mb_Reset b) = length (mb_storage b)"
  by (simp_all add: mb_defs)

lemma read_at_data: "mb_ok b \<Longrightarrow> n \<le> GetActiveSize b \<Longrightarrow> read_at n b = take n (mb_data b)"
  by (simp add: mb_defs min_absorb1)

lemma ReadCompleted_ok:
  "mb_ok b \<Longrightarrow> n \<le> GetActiveSize b \<Longrightarrow> mb_ok (ReadCompleted n b)"
  "mb_data (ReadCompleted n b) = drop n (mb_data b)"
  "GetActiveSize (ReadCompleted n b) = GetActiveSize b - n"
  by (auto simp: mb_defs drop_take add.commute)

lemma Normalize_ok:
  assumes "mb_ok b"
  shows "mb_ok (Normalize b)" and "mb_data (Normalize b) = mb_data b"
    and "length (mb_storage (Normalize b)) = length (mb_storage b)"
  using assms by (auto simp: Normalize_def mb_defs Let_def)

lemma EnsureFreeSpace_ok:
  assumes "mb_ok b"
  shows "mb_ok (EnsureFreeSpace b)" and "mb_data (EnsureFreeSpace b) = mb_data b"
    and "2 \<le> length (mb_storage b) \<Longrightarrow> GetRemainingSpace (EnsureFreeSpace b) > 0"
  using assms by (auto simp: EnsureFreeSpace_def mb_defs vector_resize_def min_def)

text \<open>A write that fits appends to the bytes in the buffer.\<close>

lemma mb_Write_ok:
  assumes "mb_ok b" and "length bs \<le> GetRemainingSpace b"
  obtains b' where "mb_Write bs b = Some b'" and "mb_ok b'" and "mb_data b' = mb_data b @ bs"
    and "GetRemainingSpace b' = GetRemainingSpace b - length bs" and "length (mb_storage b') = length (mb_storage b)"
    and "mb_rpos b' = mb_rpos b"
proof (cases "bs = []")
  case True
  then show ?thesis using assms by (intro that[of b]) (simp_all add: mb_Write_def)
next
  case False
  let ?b = "WriteCompleted (length bs) (b\<lparr>mb_storage := copy_to (mb_wpos b) bs (mb_storage b)\<rparr>)"
  let ?r = "mb_rpos b" and ?w = "mb_wpos b" and ?s = "mb_storage b"
  have ok: "?r \<le> ?w" "?w + length bs \<le> length ?s"
    using assms unfolding mb_ok_def GetRemainingSpace_def by linarith+
  then have "mb_data ?b = drop ?r (take ?w ?s @ bs)" by (simp add: mb_defs take_drop)
  also have "\<dots> = mb_data b @ bs" using ok by (simp add: mb_defs drop_take)
  finally have "mb_data ?b = mb_data b @ bs" .
  show ?thesis
  proof (rule that[of ?b])
    show "mb_Write bs b = Some ?b" using ok False by (simp add: mb_Write_def)
    show "mb_data ?b = mb_data b @ bs" by fact
  qed (use ok in \<open>simp_all add: mb_defs\<close>)
qed

section \<open>Numbers in memory\<close>

text \<open>
  The bytes of a value of the host, lowest first (\<open>TRINITY_LITTLEENDIAN\<close>) or highest first, and
  \<open>EndianConvert\<close>, which turns the bytes around on a host of the second kind
  (\<open>common/Utilities/ByteConverter.h\<close>).
\<close>

definition sizeof :: "'a::len word \<Rightarrow> nat" where
  "sizeof v = LENGTH('a) div 8"

fun le_bytes :: "nat \<Rightarrow> 'a::len word \<Rightarrow> u8 list" where
  "le_bytes 0 v = []"
| "le_bytes (Suc n) v = ucast v # le_bytes n (drop_bit 8 v)"

fun le_word :: "u8 list \<Rightarrow> 'a::len word" where
  "le_word [] = 0"
| "le_word (b # bs) = ucast b OR push_bit 8 (le_word bs)"

text \<open>\<open>ByteConverter::convert\<close> swaps the first and the last byte, then the bytes between.\<close>

function convert :: "'a list \<Rightarrow> 'a list" where
  "convert xs = (if length xs \<le> 1 then xs else last xs # convert (butlast (tl xs)) @ [hd xs])"
  by auto
termination by (relation "measure length") auto

declare convert.simps [simp del]

definition EndianConvert :: "bool \<Rightarrow> u8 list \<Rightarrow> u8 list" where
  "EndianConvert big bs = (if big then convert bs else bs)"

definition memory :: "bool \<Rightarrow> 'a::len word \<Rightarrow> u8 list" where
  "memory big v = (if big then rev (le_bytes (sizeof v) v) else le_bytes (sizeof v) v)"

definition from_memory :: "bool \<Rightarrow> u8 list \<Rightarrow> 'a::len word" where
  "from_memory big bs = le_word (if big then rev bs else bs)"

text \<open>The recursion on the outer bytes is the reversal.\<close>

lemma convert_rev: "convert xs = rev xs"
proof (induction xs rule: convert.induct)
  case (1 xs)
  show ?case
  proof (cases "length xs \<le> 1")
    case True
    then show ?thesis by (cases xs) (simp_all add: convert.simps)
  next
    case False
    then obtain a zs z where xs: "xs = a # zs @ [z]"
      by (cases xs; cases "tl xs" rule: rev_cases) auto
    have "convert xs = last xs # convert (butlast (tl xs)) @ [hd xs]"
      using False by (subst convert.simps) simp
    then show ?thesis using 1[OF False] xs by simp
  qed
qed

lemma length_le_bytes [simp]: "length (le_bytes n v) = n"
  by (induction n arbitrary: v) auto

lemma length_memory [simp]: "length (memory big v) = sizeof v"
  by (simp add: memory_def)

lemma bit_le_word: "bit (le_word bs :: 'a::len word) k \<longleftrightarrow> k < LENGTH('a) \<and> k div 8 < length bs \<and> bit (bs ! (k div 8)) (k mod 8)"
proof (induction bs arbitrary: k)
  case (Cons b bs)
  show ?case
  proof (cases "k < 8")
    case True
    then show ?thesis by (auto simp: bit_simps)
  next
    case False
    then have "k div 8 = Suc ((k - 8) div 8)" "(k - 8) mod 8 = k mod 8" by (simp_all add: le_div_geq le_mod_geq)
    then show ?thesis using Cons[of "k - 8"] False
      by (auto simp: bit_simps dest: bit_imp_le_length)
  qed
qed simp

lemma le_word_bytes:
  "8 * n \<ge> LENGTH('a) \<Longrightarrow> le_word (le_bytes n (v :: 'a::len word)) = v"
proof -
  have nth: "i < n \<Longrightarrow> bit (le_bytes n v ! i) j \<longleftrightarrow> j < 8 \<and> bit v (8 * i + j)" for i j n and v :: "'a word"
  proof (induction n arbitrary: v i)
    case (Suc n)
    then show ?case by (cases i) (auto simp: bit_simps ac_simps dest: bit_imp_le_length)
  qed simp
  assume n: "8 * n \<ge> LENGTH('a)"
  show ?thesis
  proof (rule bit_word_eqI)
    fix k assume "k < LENGTH('a)"
    then show "bit (le_word (le_bytes n v) :: 'a word) k = bit v k"
      using n nth[of "k div 8" n v "k mod 8"] by (auto simp: bit_le_word)
  qed
qed

text \<open>What goes out is the same on every host, and comes back.\<close>

lemma EndianConvert_memory: "EndianConvert big (memory big v) = le_bytes (sizeof v) v"
  by (simp add: EndianConvert_def memory_def convert_rev)

lemma from_memory_EndianConvert: "from_memory big (EndianConvert big bs) = le_word bs"
  by (simp add: EndianConvert_def from_memory_def convert_rev)

section \<open>Byte buffers\<close>

record ByteBuffer =
  bb_rpos :: nat
  bb_wpos :: nat
  bb_storage :: "u8 list"

text \<open>
  What can go wrong: the two exceptions the readers catch (\<open>ByteBufferException\<close> and its position
  exception), and a failed \<open>ASSERT\<close>, which ends the server.
\<close>

datatype buf_error = ByteBufferException | ByteBufferPositionException | AssertFailed

definition mk_ByteBuffer :: ByteBuffer where
  "mk_ByteBuffer = \<lparr>bb_rpos = 0, bb_wpos = 0, bb_storage = []\<rparr>"

definition buffer_of_message :: "MessageBuffer \<Rightarrow> ByteBuffer \<times> MessageBuffer" where
  "buffer_of_message m = (\<lparr>bb_rpos = 0, bb_wpos = 0, bb_storage = fst (mb_Move m)\<rparr>, snd (mb_Move m))"

definition bb_clear :: "ByteBuffer \<Rightarrow> ByteBuffer" where
  "bb_clear b = \<lparr>bb_rpos = 0, bb_wpos = 0, bb_storage = []\<rparr>"

subsection \<open>Writing\<close>

definition append_bytes :: "u8 list \<Rightarrow> ByteBuffer \<Rightarrow> buf_error + ByteBuffer" where
  "append_bytes bs b =
     (if bs = [] then Inl AssertFailed
      else if length (bb_storage b) \<ge> 10000000 then Inl AssertFailed
      else
        let newSize = bb_wpos b + length bs;
            st = (if length (bb_storage b) < newSize then vector_resize newSize (bb_storage b) else bb_storage b)
        in Inr (b\<lparr>bb_storage := copy_to (bb_wpos b) bs st, bb_wpos := newSize\<rparr>))"

definition append_value :: "bool \<Rightarrow> 'a::len word \<Rightarrow> ByteBuffer \<Rightarrow> buf_error + ByteBuffer" where
  "append_value big v b = append_bytes (EndianConvert big (memory big v)) b"

definition append_string :: "u8 list \<Rightarrow> ByteBuffer \<Rightarrow> buf_error + ByteBuffer" where
  "append_string s b =
     (case (if s \<noteq> [] then append_bytes s b else Inr b) of
        Inl e \<Rightarrow> Inl e
      | Inr b1 \<Rightarrow> append_bytes [0] b1)"

definition contents :: "ByteBuffer \<Rightarrow> buf_error + u8 list" where
  "contents b = (if bb_storage b = [] then Inl ByteBufferException else Inr (bb_storage b))"

definition append_buffer :: "ByteBuffer \<Rightarrow> ByteBuffer \<Rightarrow> buf_error + ByteBuffer" where
  "append_buffer other b =
     (if bb_wpos other \<noteq> 0 then
        (case contents other of
           Inl e \<Rightarrow> Inl e
         | Inr bs \<Rightarrow> append_bytes (take (bb_wpos other) bs) b)
      else Inr b)"

definition put_bytes :: "nat \<Rightarrow> u8 list \<Rightarrow> ByteBuffer \<Rightarrow> buf_error + ByteBuffer" where
  "put_bytes pos bs b =
     (if pos + length bs \<le> length (bb_storage b) \<and> bs \<noteq> []
      then Inr (b\<lparr>bb_storage := copy_to pos bs (bb_storage b)\<rparr>) else Inl AssertFailed)"

definition put_value :: "bool \<Rightarrow> nat \<Rightarrow> 'a::len word \<Rightarrow> ByteBuffer \<Rightarrow> buf_error + ByteBuffer" where
  "put_value big pos v b = put_bytes pos (EndianConvert big (memory big v)) b"

definition bb_resize :: "nat \<Rightarrow> ByteBuffer \<Rightarrow> ByteBuffer" where
  "bb_resize n b = b\<lparr>bb_storage := vector_resize n (bb_storage b), bb_rpos := 0, bb_wpos := n\<rparr>"

lemma drop_bit_8_less: "(guid :: u64) \<noteq> 0 \<Longrightarrow> unat (drop_bit 8 guid) < unat guid"
  using unat_gt_0[of guid] by (simp add: drop_bit_eq_div unat_div)

text \<open>
  \<open>appendPackGUID\<close>: the bytes of the guid that are not 0, behind a mask of their positions. The loop
  state is the position, the guid left, the mask and the bytes so far.
\<close>

function pack_loop :: "nat \<Rightarrow> u64 \<Rightarrow> u8 \<Rightarrow> u8 list \<Rightarrow> u8 \<times> u8 list" where
  "pack_loop i guid marks bs =
     (if guid = 0 then (marks, bs)
      else if guid AND 0xFF \<noteq> 0
      then pack_loop (Suc i) (drop_bit 8 guid) (marks OR push_bit i 1) (bs @ [ucast (guid AND 0xFF)])
      else pack_loop (Suc i) (drop_bit 8 guid) marks bs)"
  by auto

termination by (relation "measure (\<lambda>(i, guid, m, bs). unat guid)") (auto simp: drop_bit_8_less)

declare pack_loop.simps [simp del]

definition packed_guid :: "u64 \<Rightarrow> u8 list" where
  "packed_guid guid = (case pack_loop 0 guid 0 [] of (marks, bs) \<Rightarrow> marks # bs)"

definition appendPackGUID :: "u64 \<Rightarrow> ByteBuffer \<Rightarrow> buf_error + ByteBuffer" where
  "appendPackGUID guid b = append_bytes (packed_guid guid) b"

text \<open>\<open>AppendPackedTime\<close> and \<open>ReadPackedTime\<close> behind \<open>localtime_r\<close> and \<open>mktime\<close>.\<close>

record tm =
  tm_min :: u32
  tm_hour :: u32
  tm_wday :: u32
  tm_mday :: u32
  tm_mon :: u32
  tm_year :: u32

definition packed_time :: "tm \<Rightarrow> u32" where
  "packed_time lt = push_bit 24 (tm_year lt - 100) OR push_bit 20 (tm_mon lt) OR push_bit 14 (tm_mday lt - 1)
     OR push_bit 11 (tm_wday lt) OR push_bit 6 (tm_hour lt) OR tm_min lt"

definition unpacked_time :: "u32 \<Rightarrow> tm" where
  "unpacked_time p =
     \<lparr>tm_min = p AND 0x3F, tm_hour = drop_bit 6 p AND 0x1F, tm_wday = 0,
      tm_mday = (drop_bit 14 p AND 0x3F) + 1, tm_mon = drop_bit 20 p AND 0xF,
      tm_year = (drop_bit 24 p AND 0x1F) + 100\<rparr>"

subsection \<open>Reading\<close>

definition at_position :: "nat \<Rightarrow> ByteBuffer \<Rightarrow> buf_error + u8" where
  "at_position pos b =
     (if pos \<ge> length (bb_storage b) then Inl ByteBufferPositionException else Inr (bb_storage b ! pos))"

definition rfinish :: "ByteBuffer \<Rightarrow> ByteBuffer" where
  "rfinish b = b\<lparr>bb_rpos := bb_wpos b\<rparr>"

definition read_skip :: "nat \<Rightarrow> ByteBuffer \<Rightarrow> buf_error + ByteBuffer" where
  "read_skip n b =
     (if bb_rpos b + n > length (bb_storage b) then Inl ByteBufferPositionException
      else Inr (b\<lparr>bb_rpos := bb_rpos b + n\<rparr>))"

definition read_bytes :: "nat \<Rightarrow> ByteBuffer \<Rightarrow> buf_error + (u8 list \<times> ByteBuffer)" where
  "read_bytes n b =
     (if bb_rpos b + n > length (bb_storage b) then Inl ByteBufferPositionException
      else Inr (take n (drop (bb_rpos b) (bb_storage b)), b\<lparr>bb_rpos := bb_rpos b + n\<rparr>))"

definition read_value :: "bool \<Rightarrow> ByteBuffer \<Rightarrow> buf_error + ('a::len word \<times> ByteBuffer)" where
  "read_value big b =
     (case read_bytes (LENGTH('a) div 8) b of
        Inl e \<Rightarrow> Inl e
      | Inr (bs, b1) \<Rightarrow> Inr (from_memory big (EndianConvert big bs), b1))"

text \<open>A \<open>bool\<close> is read as a \<open>char\<close>, which is signed.\<close>

definition read_bool :: "ByteBuffer \<Rightarrow> buf_error + (bool \<times> ByteBuffer)" where
  "read_bool b =
     (case read_bytes 1 b of
        Inl e \<Rightarrow> Inl e
      | Inr (bs, b1) \<Rightarrow> Inr (sint (hd bs) > 0, b1))"

fun string_loop :: "u8 list \<Rightarrow> u8 list \<times> nat" where
  "string_loop [] = ([], 0)"
| "string_loop (c # cs) =
     (if c = 0 then ([], 1) else (case string_loop cs of (s, n) \<Rightarrow> (c # s, Suc n)))"

definition read_string :: "ByteBuffer \<Rightarrow> u8 list \<times> ByteBuffer" where
  "read_string b =
     (case string_loop (drop (bb_rpos b) (bb_storage b)) of (s, n) \<Rightarrow> (s, b\<lparr>bb_rpos := bb_rpos b + n\<rparr>))"

fun unpack_loop :: "nat list \<Rightarrow> u8 \<Rightarrow> u64 \<Rightarrow> ByteBuffer \<Rightarrow> buf_error + (u64 \<times> ByteBuffer)" where
  "unpack_loop [] marks guid b = Inr (guid, b)"
| "unpack_loop (i # is) marks guid b =
     (if has_bits marks (push_bit i 1) then
        (case read_bytes 1 b of
           Inl e \<Rightarrow> Inl e
         | Inr (bs, b1) \<Rightarrow> unpack_loop is marks (guid OR push_bit (i * 8) (ucast (hd bs))) b1)
      else unpack_loop is marks guid b)"

definition readPackGUID :: "ByteBuffer \<Rightarrow> buf_error + (u64 \<times> ByteBuffer)" where
  "readPackGUID b =
     (case read_bytes 1 b of
        Inl e \<Rightarrow> Inl e
      | Inr (bs, b1) \<Rightarrow> unpack_loop [0..<8] (hd bs) 0 b1)"

subsection \<open>What is not read yet\<close>

definition unread :: "ByteBuffer \<Rightarrow> u8 list" where
  "unread b = drop (bb_rpos b) (bb_storage b)"

definition at_end :: "ByteBuffer \<Rightarrow> bool" where
  "at_end b \<longleftrightarrow> bb_wpos b = length (bb_storage b) \<and> bb_rpos b \<le> length (bb_storage b)"

text \<open>Reads fail exactly past the end, and stay inside of the storage otherwise.\<close>

lemma read_bytes_iff:
  "bb_rpos b \<le> length (bb_storage b) \<Longrightarrow>
   read_bytes n b = (if n \<le> length (unread b) then Inr (take n (unread b), b\<lparr>bb_rpos := bb_rpos b + n\<rparr>)
                     else Inl ByteBufferPositionException)"
  by (auto simp: read_bytes_def unread_def)

lemma unread_advance [simp]: "unread (b\<lparr>bb_rpos := bb_rpos b + n\<rparr>) = drop n (unread b)"
  by (simp add: unread_def add.commute)

text \<open>A writer appends to the end of the storage.\<close>

definition appends :: "u8 list \<Rightarrow> ByteBuffer \<Rightarrow> buf_error + ByteBuffer \<Rightarrow> bool" where
  "appends bs b r \<longleftrightarrow> (\<exists>b'. r = Inr b' \<and> at_end b' \<and> bb_storage b' = bb_storage b @ bs \<and> bb_rpos b' = bb_rpos b)"

lemma append_bytes_end:
  assumes "at_end b" and "length (bb_storage b) < 10000000" and "bs \<noteq> []"
  shows "appends bs b (append_bytes bs b)"
  using assms by (auto simp: appends_def append_bytes_def at_end_def Let_def vector_resize_def copy_to_def)

lemma append_value_end:
  fixes v :: "'a::len word"
  assumes "at_end b" and "length (bb_storage b) < 10000000" and "LENGTH('a) \<ge> 8"
  shows "appends (le_bytes (LENGTH('a) div 8) v) b (append_value big v b)"
proof -
  have "LENGTH('a) div 8 > 0" using assms(3) by (simp add: div_greater_zero_iff)
  then have "le_bytes (LENGTH('a) div 8) v \<noteq> []" by (metis length_le_bytes list.size(3) not_gr_zero)
  then show ?thesis
    using append_bytes_end[OF assms(1,2)] by (simp add: append_value_def EndianConvert_memory sizeof_def)
qed

lemma append_string_end:
  assumes "at_end b" and "length (bb_storage b) + length s < 10000000"
  shows "appends (s @ [0]) b (append_string s b)"
proof (cases "s = []")
  case True
  then show ?thesis using assms append_bytes_end[of b "[0]"] by (simp add: append_string_def)
next
  case False
  obtain b1 where b1: "append_bytes s b = Inr b1" "at_end b1" "bb_storage b1 = bb_storage b @ s" "bb_rpos b1 = bb_rpos b"
    using append_bytes_end[OF assms(1) _ False] assms(2) by (auto simp: appends_def)
  then have "appends [0] b1 (append_bytes [0] b1)" using assms(2) by (intro append_bytes_end) auto
  then show ?thesis using False b1 by (simp add: append_string_def appends_def)
qed

lemma read_value_bytes:
  assumes "bb_rpos b \<le> length (bb_storage b)" and "unread b = le_bytes (LENGTH('a) div 8) (v :: 'a::len word) @ rest"
    and "8 dvd LENGTH('a)"
  shows "read_value big b = Inr (v, b\<lparr>bb_rpos := bb_rpos b + LENGTH('a) div 8\<rparr>)"
  using assms(1,2) le_word_bytes[of "LENGTH('a) div 8" v] assms(3)
  by (simp add: read_value_def read_bytes_iff from_memory_EndianConvert)

lemma string_loop_read: "0 \<notin> set s \<Longrightarrow> string_loop (s @ 0 # rest) = (s, Suc (length s))"
  by (induction s) auto

lemma read_string_bytes:
  "unread b = s @ 0 # rest \<Longrightarrow> 0 \<notin> set s \<Longrightarrow> read_string b = (s, b\<lparr>bb_rpos := bb_rpos b + Suc (length s)\<rparr>)"
  by (simp add: read_string_def unread_def string_loop_read)

subsection \<open>Packed guids\<close>

text \<open>The mask of the bytes that are not 0, from position \<open>i\<close> on.\<close>

fun marks_from :: "nat \<Rightarrow> u8 list \<Rightarrow> u8" where
  "marks_from i [] = 0"
| "marks_from i (b # bs) = (if b \<noteq> 0 then push_bit i 1 else 0) OR marks_from (Suc i) bs"

abbreviation nonzero :: "u8 list \<Rightarrow> u8 list" where
  "nonzero \<equiv> filter (\<lambda>b. b \<noteq> 0)"

lemma le_bytes_0: "le_bytes n 0 = replicate n 0"
  by (induction n) auto

lemma marks_from_0: "marks_from i (replicate n 0) = 0"
  by (induction n arbitrary: i) auto

lemma bit_marks_from:
  "j < 8 \<Longrightarrow> bit (marks_from i bs) j \<longleftrightarrow> i \<le> j \<and> j < i + length bs \<and> bs ! (j - i) \<noteq> 0"
proof (induction bs arbitrary: i)
  case (Cons b bs)
  then show ?case by (cases "j = i") (auto simp: bit_simps nth_Cons' Suc_diff_Suc)
qed simp

lemma low_byte: "(guid :: u64) AND 0xFF = 0 \<longleftrightarrow> (ucast guid :: u8) = 0" "(ucast (guid AND 0xFF) :: u8) = ucast guid"
proof -
  have ff: "(0xFF :: u64) = mask 8" by (simp add: mask_eq_exp_minus_1)
  have a: "(ucast (guid AND 0xFF) :: u8) = ucast guid"
    unfolding ff by (rule bit_word_eqI) (auto simp: bit_simps)
  then show "(ucast (guid AND 0xFF) :: u8) = ucast guid" .
  have b: "guid AND 0xFF = ucast (ucast guid :: u8)"
    unfolding ff by (rule bit_word_eqI) (auto simp: bit_simps)
  show "guid AND 0xFF = 0 \<longleftrightarrow> (ucast guid :: u8) = 0"
  proof
    assume "guid AND 0xFF = 0"
    then show "(ucast guid :: u8) = 0" using a by (metis unsigned_0)
  next
    assume "(ucast guid :: u8) = 0"
    then show "guid AND 0xFF = 0" using b by (metis unsigned_0)
  qed
qed

lemma pack_loop_bytes:
  assumes "drop_bit (8 * n) guid = 0"
  shows "pack_loop i guid m bs = (m OR marks_from i (le_bytes n guid), bs @ nonzero (le_bytes n guid))"
  using assms
proof (induction n arbitrary: i guid m bs)
  case 0
  then show ?case by (simp add: pack_loop.simps)
next
  case (Suc n)
  show ?case
  proof (cases "guid = 0")
    case True
    then show ?thesis by (subst pack_loop.simps) (simp add: le_bytes_0 marks_from_0)
  next
    case False
    have "drop_bit (8 * n) (drop_bit 8 guid) = 0" using Suc.prems by (simp add: drop_bit_drop_bit add.commute)
    note IH = Suc.IH[OF this]
    show ?thesis using False
      by (subst pack_loop.simps) (simp add: IH low_byte or.assoc)
  qed
qed

lemma packed_guid_bytes: "packed_guid g = marks_from 0 (le_bytes 8 g) # nonzero (le_bytes 8 g)"
proof -
  have "drop_bit (8 * 8) g = 0" by (rule bit_word_eqI) (auto simp: bit_simps dest: bit_imp_le_length)
  from pack_loop_bytes[OF this] show ?thesis by (simp add: packed_guid_def)
qed

lemma unpack_loop_bytes:
  assumes "\<And>j. j < length bs \<Longrightarrow> has_bits m (push_bit (i + j) 1) \<longleftrightarrow> bs ! j \<noteq> 0"
    and "bb_rpos b \<le> length (bb_storage b)" and "unread b = nonzero bs @ rest"
  shows "unpack_loop [i..<i + length bs] m g b
    = Inr (g OR push_bit (8 * i) (le_word bs), b\<lparr>bb_rpos := bb_rpos b + length (nonzero bs)\<rparr>)"
  using assms
proof (induction bs arbitrary: i g b)
  case Nil
  then show ?case by simp
next
  case (Cons c bs)
  have range: "[i..<i + length (c # bs)] = i # [Suc i..<Suc i + length bs]" by (simp add: upt_rec)
  have marks: "has_bits m (push_bit i 1) \<longleftrightarrow> c \<noteq> 0" using Cons.prems(1)[of 0] by simp
  have next_marks: "\<And>j. j < length bs \<Longrightarrow> has_bits m (push_bit (Suc i + j) 1) \<longleftrightarrow> bs ! j \<noteq> 0"
    using Cons.prems(1)[of "Suc _"] by simp
  have split: "push_bit (8 * i) (le_word (c # bs)) = (push_bit (8 * i) (ucast c) OR push_bit (8 * Suc i) (le_word bs) :: u64)"
    by (simp add: push_bit_or push_bit_push_bit add.commute)
  show ?case
  proof (cases "c = 0")
    case True
    then show ?thesis
      using Cons.IH[OF next_marks, of b g] Cons.prems(2,3) marks unfolding range split by simp
  next
    case False
    let ?b = "b\<lparr>bb_rpos := bb_rpos b + 1\<rparr>"
    have b: "bb_rpos ?b \<le> length (bb_storage ?b)" "unread ?b = nonzero bs @ rest"
      using Cons.prems(2,3) False unread_advance[of b 1] by (auto simp: unread_def dest!: arg_cong[of _ _ length])
    show ?thesis
      using Cons.IH[OF next_marks b] Cons.prems(2,3) marks False unfolding range split
      by (simp add: read_bytes_iff or.assoc mult.commute)
  qed
qed

lemma has_bits_one: "j < 8 \<Longrightarrow> has_bits (m :: u8) (push_bit j 1) \<longleftrightarrow> bit m j"
proof -
  assume j: "j < 8"
  have "m AND push_bit j 1 = (if bit m j then push_bit j 1 else 0)"
    by (rule bit_word_eqI) (auto simp: bit_simps)
  moreover have "push_bit j 1 \<noteq> (0 :: u8)"
  proof
    assume "push_bit j 1 = (0 :: u8)"
    moreover have "bit (push_bit j 1 :: u8) j" using j by (simp only: bit_simps) simp
    ultimately show False using j by simp
  qed
  ultimately show ?thesis unfolding has_bits_def by presburger
qed

lemma readPackGUID_bytes:
  assumes "bb_rpos b \<le> length (bb_storage b)" and "unread b = packed_guid g @ rest"
  shows "readPackGUID b = Inr (g, b\<lparr>bb_rpos := bb_rpos b + length (packed_guid g)\<rparr>)"
proof -
  let ?bs = "le_bytes 8 g" and ?b = "b\<lparr>bb_rpos := bb_rpos b + 1\<rparr>"
  have marks: "has_bits (marks_from 0 ?bs) (push_bit (0 + j) 1) \<longleftrightarrow> ?bs ! j \<noteq> 0" if "j < length ?bs" for j
    using that bit_marks_from[of j 0 ?bs] has_bits_one[of j "marks_from 0 ?bs"] by (simp del: le_bytes.simps)
  have "bb_rpos ?b \<le> length (bb_storage ?b)" "unread ?b = nonzero ?bs @ rest"
    using assms unread_advance[of b 1] by (auto simp: packed_guid_bytes unread_def dest!: arg_cong[of _ _ length])
  note unpack = unpack_loop_bytes[where i = 0 and g = 0, OF marks this]
  have "le_word ?bs = g" by (rule le_word_bytes) simp
  with unpack have "unpack_loop [0..<8] (marks_from 0 ?bs) 0 ?b = Inr (g, ?b\<lparr>bb_rpos := bb_rpos ?b + length (nonzero ?bs)\<rparr>)"
    by simp
  then show ?thesis using assms by (simp add: readPackGUID_def read_bytes_iff packed_guid_bytes)
qed

section \<open>Packets\<close>

text \<open>The fields the server writes into packets, and their kinds, which a reader of the packet knows.\<close>

datatype packet_field = FByte u8 | FShort u16 | FInt u32 | FLong u64 | FCString "u8 list" | FPackedGUID u64

datatype kind = KByte | KShort | KInt | KLong | KString | KGuid

fun kind_of :: "packet_field \<Rightarrow> kind" where
  "kind_of (FByte v) = KByte"
| "kind_of (FShort v) = KShort"
| "kind_of (FInt v) = KInt"
| "kind_of (FLong v) = KLong"
| "kind_of (FCString s) = KString"
| "kind_of (FPackedGUID g) = KGuid"

fun wire :: "packet_field \<Rightarrow> u8 list" where
  "wire (FByte v) = le_bytes 1 v"
| "wire (FShort v) = le_bytes 2 v"
| "wire (FInt v) = le_bytes 4 v"
| "wire (FLong v) = le_bytes 8 v"
| "wire (FCString s) = s @ [0]"
| "wire (FPackedGUID g) = packed_guid g"

fun write_field :: "bool \<Rightarrow> packet_field \<Rightarrow> ByteBuffer \<Rightarrow> buf_error + ByteBuffer" where
  "write_field big (FByte v) b = append_value big v b"
| "write_field big (FShort v) b = append_value big v b"
| "write_field big (FInt v) b = append_value big v b"
| "write_field big (FLong v) b = append_value big v b"
| "write_field big (FCString s) b = append_string s b"
| "write_field big (FPackedGUID g) b = appendPackGUID g b"

definition read_as :: "('a \<Rightarrow> packet_field) \<Rightarrow> buf_error + ('a \<times> ByteBuffer) \<Rightarrow> buf_error + (packet_field \<times> ByteBuffer)" where
  "read_as f r = (case r of Inl e \<Rightarrow> Inl e | Inr (v, b) \<Rightarrow> Inr (f v, b))"

fun read_field :: "bool \<Rightarrow> kind \<Rightarrow> ByteBuffer \<Rightarrow> buf_error + (packet_field \<times> ByteBuffer)" where
  "read_field big KByte b = read_as FByte (read_value big b)"
| "read_field big KShort b = read_as FShort (read_value big b)"
| "read_field big KInt b = read_as FInt (read_value big b)"
| "read_field big KLong b = read_as FLong (read_value big b)"
| "read_field big KString b = read_as FCString (Inr (read_string b))"
| "read_field big KGuid b = read_as FPackedGUID (readPackGUID b)"

fun write_fields :: "bool \<Rightarrow> packet_field list \<Rightarrow> ByteBuffer \<Rightarrow> buf_error + ByteBuffer" where
  "write_fields big [] b = Inr b"
| "write_fields big (f # fs) b =
     (case write_field big f b of Inl e \<Rightarrow> Inl e | Inr b1 \<Rightarrow> write_fields big fs b1)"

fun read_fields :: "bool \<Rightarrow> kind list \<Rightarrow> ByteBuffer \<Rightarrow> buf_error + (packet_field list \<times> ByteBuffer)" where
  "read_fields big [] b = Inr ([], b)"
| "read_fields big (k # ks) b =
     (case read_field big k b of
        Inl e \<Rightarrow> Inl e
      | Inr (f, b1) \<Rightarrow>
          (case read_fields big ks b1 of Inl e \<Rightarrow> Inl e | Inr (fs, b2) \<Rightarrow> Inr (f # fs, b2)))"

text \<open>A \<open>string\<close> that contains the terminator is cut off by the reader.\<close>

definition plain_field :: "packet_field \<Rightarrow> bool" where
  "plain_field f \<longleftrightarrow> (case f of FCString s \<Rightarrow> 0 \<notin> set s | _ \<Rightarrow> True)"

lemma write_field_end:
  assumes "at_end b" and "length (bb_storage b) + length (wire f) < 10000000"
  shows "appends (wire f) b (write_field big f b)"
proof (cases f)
  case (FCString s)
  then show ?thesis using assms by (simp add: append_string_end)
next
  case (FPackedGUID g)
  then show ?thesis
    using assms append_bytes_end[of b "packed_guid g"] by (simp add: appendPackGUID_def packed_guid_bytes)
qed (use assms append_value_end[where 'a = 8] append_value_end[where 'a = 16] append_value_end[where 'a = 32]
     append_value_end[where 'a = 64] in \<open>simp_all del: le_bytes.simps\<close>)

lemma write_fields_end:
  "at_end b \<Longrightarrow> length (bb_storage b) + length (concat (map wire fs)) < 10000000 \<Longrightarrow>
   appends (concat (map wire fs)) b (write_fields big fs b)"
proof (induction fs arbitrary: b)
  case Nil
  then show ?case by (simp add: appends_def)
next
  case (Cons f fs)
  obtain b1 where b1: "write_field big f b = Inr b1" "at_end b1" "bb_storage b1 = bb_storage b @ wire f" "bb_rpos b1 = bb_rpos b"
    using write_field_end[OF Cons.prems(1), of f big] Cons.prems(2) by (auto simp: appends_def)
  then show ?case using Cons.IH[OF b1(2)] Cons.prems(2) by (auto simp: appends_def)
qed

lemma read_field_wire:
  assumes "bb_rpos b \<le> length (bb_storage b)" and "unread b = wire f @ rest" and "plain_field f"
  shows "read_field big (kind_of f) b = Inr (f, b\<lparr>bb_rpos := bb_rpos b + length (wire f)\<rparr>)"
proof (cases f)
  case (FCString s)
  then show ?thesis using assms read_string_bytes[of b s rest] by (simp add: read_as_def plain_field_def)
next
  case (FPackedGUID g)
  then show ?thesis using assms readPackGUID_bytes[of b g rest] by (simp add: read_as_def)
qed (use assms read_value_bytes[of b _ rest, where 'a = 8] read_value_bytes[of b _ rest, where 'a = 16]
     read_value_bytes[of b _ rest, where 'a = 32] read_value_bytes[of b _ rest, where 'a = 64]
     in \<open>simp_all add: read_as_def del: le_bytes.simps\<close>)

lemma read_fields_wire:
  "bb_rpos b \<le> length (bb_storage b) \<Longrightarrow> unread b = concat (map wire fs) @ rest \<Longrightarrow> \<forall>f \<in> set fs. plain_field f \<Longrightarrow>
   \<exists>b'. read_fields big (map kind_of fs) b = Inr (fs, b') \<and> unread b' = rest"
proof (induction fs arbitrary: b)
  case Nil
  then show ?case by simp
next
  case (Cons f fs)
  let ?b = "b\<lparr>bb_rpos := bb_rpos b + length (wire f)\<rparr>"
  have one: "read_field big (kind_of f) b = Inr (f, ?b)"
    using read_field_wire[of b f "concat (map wire fs) @ rest"] Cons.prems by simp
  have "unread ?b = concat (map wire fs) @ rest" using Cons.prems(2) by simp
  moreover have "bb_rpos ?b \<le> length (bb_storage ?b)"
    using arg_cong[OF Cons.prems(2), of length] Cons.prems(1) by (simp add: unread_def)
  ultimately show ?case using Cons.IH[of ?b] Cons.prems(3) one by auto
qed

text \<open>Property C23: a packet read with the kinds of the fields it was written with gives the same fields and leaves
  nothing over, whatever the byte order of the writing and of the reading host: numbers of 1, 2, 4 and 8
  bytes, strings without the byte 0, and packed guids.\<close>

theorem packet_roundtrip:
  assumes "\<forall>f \<in> set fs. plain_field f" and "length (concat (map wire fs)) < 10000000"
  shows "\<exists>b b'. write_fields big fs mk_ByteBuffer = Inr b \<and>
           read_fields big' (map kind_of fs) b = Inr (fs, b') \<and> unread b' = []"
proof -
  have "at_end mk_ByteBuffer" by (simp add: at_end_def mk_ByteBuffer_def)
  then obtain b where b: "write_fields big fs mk_ByteBuffer = Inr b" "bb_storage b = concat (map wire fs)" "bb_rpos b = 0"
    using write_fields_end[of mk_ByteBuffer fs big] assms(2) by (auto simp: appends_def mk_ByteBuffer_def)
  then have "\<exists>b'. read_fields big' (map kind_of fs) b = Inr (fs, b') \<and> unread b' = []"
    using assms(1) by (intro read_fields_wire) (auto simp: unread_def)
  with b(1) show ?thesis by blast
qed

theorem packet_roundtrip_witness:
  "\<exists>b b'. write_fields True [FByte 7, FInt 0x12345678, FCString [65, 66], FPackedGUID 0x1F50000000000001] mk_ByteBuffer = Inr b \<and>
     read_fields False [KByte, KInt, KString, KGuid] b
       = Inr ([FByte 7, FInt 0x12345678, FCString [65, 66], FPackedGUID 0x1F50000000000001], b') \<and> unread b' = []"
proof -
  have "packed_guid 0x1F50000000000001 = [193, 1, 0x50, 0x1F]" by code_simp
  then show ?thesis
    using packet_roundtrip[of "[FByte 7, FInt 0x12345678, FCString [65, 66], FPackedGUID 0x1F50000000000001]" True False]
    by (simp add: plain_field_def)
qed

end
