(* ===== verification/Guids.thy ===== *)
theory Guids
  imports Buffers
begin

text \<open>
  Object guids (\<open>Entities/Object/ObjectGuid.h\<close>): 16 bits for the kind of object, and either 24 bits for
  its entry and 24 for the counter, or 32 bits for the counter. Also the packed guid an object keeps, and
  the generators of counters.
\<close>

section \<open>Guids\<close>

datatype HighGuid =
    HighItem | HighPlayer | HighGameObject | HighTransport | HighUnit | HighPet | HighVehicle
  | HighDynamicObject | HighCorpse | HighMo_Transport | HighInstance | HighGroup

text \<open>\<open>HighGuid::Container\<close> has the value of \<open>HighGuid::Item\<close>.\<close>

fun high_val :: "HighGuid \<Rightarrow> u64" where
  "high_val HighItem = 0x4000"
| "high_val HighPlayer = 0x0000"
| "high_val HighGameObject = 0xF110"
| "high_val HighTransport = 0xF120"
| "high_val HighUnit = 0xF130"
| "high_val HighPet = 0xF140"
| "high_val HighVehicle = 0xF150"
| "high_val HighDynamicObject = 0xF100"
| "high_val HighCorpse = 0xF101"
| "high_val HighMo_Transport = 0x1FC0"
| "high_val HighInstance = 0x1F40"
| "high_val HighGroup = 0x1F50"

text \<open>The traits, which choose the function that creates a guid.\<close>

fun trait_Global :: "HighGuid \<Rightarrow> bool" where
  "trait_Global h \<longleftrightarrow> h \<in> {HighPlayer, HighItem, HighMo_Transport, HighGroup, HighInstance}"

datatype TypeID =
    TYPEID_OBJECT | TYPEID_ITEM | TYPEID_CONTAINER | TYPEID_UNIT | TYPEID_PLAYER | TYPEID_GAMEOBJECT
  | TYPEID_DYNAMICOBJECT | TYPEID_CORPSE

definition guid_Global :: "HighGuid \<Rightarrow> u32 \<Rightarrow> u64" where
  "guid_Global hi counter = (if counter \<noteq> 0 then ucast counter OR push_bit 48 (high_val hi) else 0)"

definition guid_MapSpecific :: "HighGuid \<Rightarrow> u32 \<Rightarrow> u32 \<Rightarrow> u64" where
  "guid_MapSpecific hi ent counter =
     (if counter \<noteq> 0 then ucast counter OR push_bit 24 (ucast ent) OR push_bit 48 (high_val hi) else 0)"

definition Create :: "HighGuid \<Rightarrow> u32 \<Rightarrow> u32 \<Rightarrow> u64" where
  "Create hi ent counter = (if trait_Global hi then guid_Global hi counter else guid_MapSpecific hi ent counter)"

definition GetHigh :: "u64 \<Rightarrow> u64" where
  "GetHigh g = drop_bit 48 g AND 0xFFFF"

definition high_HasEntry :: "u64 \<Rightarrow> bool" where
  "high_HasEntry h \<longleftrightarrow> h \<notin> high_val ` {HighItem, HighPlayer, HighDynamicObject, HighCorpse, HighMo_Transport,
     HighInstance, HighGroup}"

definition GetEntry :: "u64 \<Rightarrow> u32" where
  "GetEntry g = (if high_HasEntry (GetHigh g) then ucast (drop_bit 24 g AND 0xFFFFFF) else 0)"

definition GetCounter :: "u64 \<Rightarrow> u32" where
  "GetCounter g = (if high_HasEntry (GetHigh g) then ucast (g AND 0xFFFFFF) else ucast (g AND 0xFFFFFFFF))"

definition GetMaxCounter :: "u64 \<Rightarrow> u32" where
  "GetMaxCounter h = (if high_HasEntry h then 0xFFFFFF else 0xFFFFFFFF)"

definition GetTypeId :: "u64 \<Rightarrow> TypeID" where
  "GetTypeId g =
     (let h = GetHigh g
      in if h = high_val HighItem then TYPEID_ITEM
         else if h \<in> {high_val HighUnit, high_val HighPet, high_val HighVehicle} then TYPEID_UNIT
         else if h = high_val HighPlayer then TYPEID_PLAYER
         else if h \<in> {high_val HighGameObject, high_val HighMo_Transport} then TYPEID_GAMEOBJECT
         else if h = high_val HighDynamicObject then TYPEID_DYNAMICOBJECT
         else if h = high_val HighCorpse then TYPEID_CORPSE
         else TYPEID_OBJECT)"

definition IsEmpty :: "u64 \<Rightarrow> bool" where "IsEmpty g \<longleftrightarrow> g = 0"
definition IsHigh :: "HighGuid \<Rightarrow> u64 \<Rightarrow> bool" where "IsHigh h g \<longleftrightarrow> GetHigh g = high_val h"

definition IsPlayer :: "u64 \<Rightarrow> bool" where
  "IsPlayer g \<longleftrightarrow> \<not> IsEmpty g \<and> GetHigh g = high_val HighPlayer"

definition IsAnyTypeCreature :: "u64 \<Rightarrow> bool" where
  "IsAnyTypeCreature g \<longleftrightarrow> IsHigh HighUnit g \<or> IsHigh HighPet g \<or> IsHigh HighVehicle g"

definition IsUnit :: "u64 \<Rightarrow> bool" where
  "IsUnit g \<longleftrightarrow> IsAnyTypeCreature g \<or> IsPlayer g"

definition IsAnyTypeGameObject :: "u64 \<Rightarrow> bool" where
  "IsAnyTypeGameObject g \<longleftrightarrow> IsHigh HighGameObject g \<or> IsHigh HighTransport g \<or> IsHigh HighMo_Transport g"

section \<open>The parts of a guid\<close>

lemma masks: "(0xFFFF :: u64) = mask 16" "(0xFFFFFF :: u64) = mask 24" "(0xFFFFFFFF :: u64) = mask 32"
  by (simp_all add: mask_eq_exp_minus_1)

lemma small_word_bit: "(w :: u32) < 2 ^ n \<Longrightarrow> bit w k \<Longrightarrow> k < n"
  by (metis bit_take_bit_iff less_mask_eq take_bit_eq_mask)

lemma high_small: "high_val h < 2 ^ 16"
  by (cases h) auto

lemma high_bit: "bit (high_val h) k \<Longrightarrow> k < 16"
  using high_small[of h] by (metis bit_take_bit_iff less_mask_eq take_bit_eq_mask)

lemma high_inject [simp]: "high_val h = high_val h' \<longleftrightarrow> h = h'"
  by (cases h; cases h') auto

lemma GetHigh_Global: "counter \<noteq> 0 \<Longrightarrow> GetHigh (guid_Global h counter) = high_val h"
  unfolding GetHigh_def guid_Global_def masks
  by (rule bit_word_eqI) (auto simp: bit_simps dest: bit_imp_le_length high_bit)

lemma GetHigh_MapSpecific:
  assumes "counter \<noteq> 0" "counter < 2 ^ 24" "ent < 2 ^ 24"
  shows "GetHigh (guid_MapSpecific h ent counter) = high_val h"
proof -
  have small: "bit counter k \<Longrightarrow> k < 24" "bit ent k \<Longrightarrow> k < 24" for k
    using small_word_bit[OF assms(2)] small_word_bit[OF assms(3)] by blast+
  show ?thesis
    using assms(1) unfolding GetHigh_def guid_MapSpecific_def masks
    by (intro bit_word_eqI) (auto simp: bit_simps dest: bit_imp_le_length high_bit small)
qed

lemma GetCounter_Global: "counter \<noteq> 0 \<Longrightarrow> \<not> high_HasEntry (high_val h) \<Longrightarrow> GetCounter (guid_Global h counter) = counter"
  unfolding GetCounter_def
  by (simp add: GetHigh_Global, unfold guid_Global_def masks, rule bit_word_eqI)
    (auto simp: bit_simps dest: bit_imp_le_length high_bit)

lemma MapSpecific_parts:
  assumes "counter \<noteq> 0" "counter < 2 ^ 24" "ent < 2 ^ 24"
  shows "(ucast (guid_MapSpecific h ent counter AND 0xFFFFFF) :: u32) = counter"
    and "(ucast (drop_bit 24 (guid_MapSpecific h ent counter) AND 0xFFFFFF) :: u32) = ent"
proof -
  have small: "bit counter k \<Longrightarrow> k < 24" "bit ent k \<Longrightarrow> k < 24" for k
    using small_word_bit[OF assms(2)] small_word_bit[OF assms(3)] by blast+
  show "(ucast (guid_MapSpecific h ent counter AND 0xFFFFFF) :: u32) = counter"
    and "(ucast (drop_bit 24 (guid_MapSpecific h ent counter) AND 0xFFFFFF) :: u32) = ent"
    using assms(1) unfolding guid_MapSpecific_def masks
    by (auto intro!: bit_word_eqI simp: bit_simps dest: bit_imp_le_length high_bit small)
qed

fun object_type :: "HighGuid \<Rightarrow> TypeID" where
  "object_type HighItem = TYPEID_ITEM"
| "object_type HighPlayer = TYPEID_PLAYER"
| "object_type HighGameObject = TYPEID_GAMEOBJECT"
| "object_type HighUnit = TYPEID_UNIT"
| "object_type HighPet = TYPEID_UNIT"
| "object_type HighVehicle = TYPEID_UNIT"
| "object_type HighDynamicObject = TYPEID_DYNAMICOBJECT"
| "object_type HighCorpse = TYPEID_CORPSE"
| "object_type HighMo_Transport = TYPEID_GAMEOBJECT"
| "object_type _ = TYPEID_OBJECT"

lemma GetTypeId_high: "GetHigh g = high_val h \<Longrightarrow> GetTypeId g = object_type h"
  unfolding GetTypeId_def Let_def by (cases h) auto

lemma HasEntry_high: "high_HasEntry (high_val h) \<longleftrightarrow> h \<in> {HighGameObject, HighTransport, HighUnit, HighPet, HighVehicle}"
  unfolding high_HasEntry_def by (cases h) auto

lemma GetCounter_no_entry:
  "counter \<noteq> 0 \<Longrightarrow> counter < 2 ^ 24 \<Longrightarrow> \<not> high_HasEntry (high_val h) \<Longrightarrow> GetCounter (guid_MapSpecific h 0 counter) = counter"
  using GetCounter_Global[of counter h] GetHigh_MapSpecific[of counter 0 h] GetHigh_Global[of counter h]
  by (simp add: guid_MapSpecific_def guid_Global_def)

text \<open>Property C40: the kind, the entry and the counter a guid was created with are read back from it, and it has the
  type of object of its kind, if the entry and the counter of an object of a map have 24 bits and dynamic
  objects and corpses are created with the entry 0, as the server does. (A transport of a map has the
  type \<open>TYPEID_OBJECT\<close>, although \<open>IsAnyTypeGameObject\<close> holds of it.)\<close>

theorem guid_parts:
  fixes counter ent :: u32
  assumes "counter \<noteq> 0" and "trait_Global h \<or> counter < 2 ^ 24 \<and> ent < 2 ^ 24"
    and "h = HighDynamicObject \<or> h = HighCorpse \<Longrightarrow> ent = 0"
  shows "let g = Create h ent counter
         in GetHigh g = high_val h \<and> GetCounter g = counter \<and> GetEntry g = (if trait_Global h then 0 else ent)
            \<and> GetTypeId g = object_type h
            \<and> (IsAnyTypeGameObject g \<longleftrightarrow> h \<in> {HighGameObject, HighTransport, HighMo_Transport})"
proof -
  let ?g = "Create h ent counter"
  have high: "GetHigh ?g = high_val h"
    using assms(1,2) GetHigh_Global GetHigh_MapSpecific by (auto simp: Create_def)
  have "GetCounter ?g = counter \<and> GetEntry ?g = (if trait_Global h then 0 else ent)"
  proof (cases "trait_Global h")
    case True
    then have "\<not> high_HasEntry (high_val h)" by (auto simp: HasEntry_high)
    then show ?thesis
      using True assms(1) high GetCounter_Global[of counter h] by (simp add: Create_def GetEntry_def)
  next
    case False
    show ?thesis
    proof (cases "h = HighDynamicObject \<or> h = HighCorpse")
      case True
      then have "\<not> high_HasEntry (high_val h)" "ent = 0" using assms(3) by (auto simp: HasEntry_high)
      then show ?thesis
        using False assms(1,2) high GetCounter_no_entry[of counter h] by (auto simp: Create_def GetEntry_def)
    next
      case other: False
      then have "high_HasEntry (high_val h)" using False unfolding HasEntry_high by (cases h) auto
      then show ?thesis
        using False assms(1,2) high MapSpecific_parts[of counter ent h] by (simp add: Create_def GetEntry_def GetCounter_def)
    qed
  qed
  moreover have "IsAnyTypeGameObject ?g \<longleftrightarrow> h \<in> {HighGameObject, HighTransport, HighMo_Transport}"
    unfolding IsAnyTypeGameObject_def IsHigh_def high high_inject by simp
  ultimately show ?thesis using high GetTypeId_high[OF high] by (simp add: Let_def)
qed

theorem guid_parts_witness:
  "GetEntry (Create HighUnit 32000 77) = 32000 \<and> GetCounter (Create HighUnit 32000 77) = 77
   \<and> GetTypeId (Create HighUnit 32000 77) = TYPEID_UNIT"
  using guid_parts[of 77 HighUnit 32000] by (simp add: Let_def)

section \<open>The packed guid of an object\<close>

text \<open>
  \<open>PackedGuid::Set\<close> writes from the start of its buffer and leaves the bytes behind; what is sent is the
  part before the write position.
\<close>

definition mk_PackedGuid :: "u64 \<Rightarrow> buf_error + ByteBuffer" where
  "mk_PackedGuid g = appendPackGUID g mk_ByteBuffer"

definition PackedGuid_Set :: "u64 \<Rightarrow> ByteBuffer \<Rightarrow> buf_error + ByteBuffer" where
  "PackedGuid_Set g b = appendPackGUID g (b\<lparr>bb_wpos := 0\<rparr>)"

definition write_PackedGuid :: "ByteBuffer \<Rightarrow> ByteBuffer \<Rightarrow> buf_error + ByteBuffer" where
  "write_PackedGuid p b = append_buffer p b"

lemma PackedGuid_written:
  assumes "length (bb_storage p) < 10000000" and "PackedGuid_Set g p = Inr p'"
    and "at_end b" and "length (bb_storage b) < 10000000"
  shows "appends (packed_guid g) b (write_PackedGuid p' b)"
proof -
  have ne: "packed_guid g \<noteq> []" by (simp add: packed_guid_bytes)
  let ?st = "if length (bb_storage p) < length (packed_guid g)
    then vector_resize (length (packed_guid g)) (bb_storage p) else bb_storage p"
  have p': "p\<lparr>bb_storage := copy_to 0 (packed_guid g) ?st, bb_wpos := length (packed_guid g)\<rparr> = p'"
    using assms(1,2) ne by (simp add: PackedGuid_Set_def appendPackGUID_def append_bytes_def Let_def split: if_splits)
  have "take (bb_wpos p') (bb_storage p') = packed_guid g" "bb_storage p' \<noteq> []" "bb_wpos p' \<noteq> 0"
    unfolding p'[symmetric] using ne by (simp_all add: copy_to_def)
  then show ?thesis
    using append_bytes_end[OF assms(3,4) ne] by (simp add: write_PackedGuid_def append_buffer_def contents_def)
qed

section \<open>Counters\<close>

text \<open>\<open>Generate\<close>: the counter, the next one, and whether the server is told to stop.\<close>

definition Generate :: "HighGuid \<Rightarrow> u32 \<Rightarrow> u32 \<times> u32 \<times> bool" where
  "Generate h nextGuid = (nextGuid, nextGuid + 1, nextGuid \<ge> GetMaxCounter (high_val h) - 1)"

lemma Generate_fresh:
  assumes "Generate h n = (c, n', False)"
  shows "c < n'" and "c < GetMaxCounter (high_val h)"
proof -
  have n: "n < GetMaxCounter (high_val h) - 1" "c = n" "n' = n + 1" using assms by (auto simp: Generate_def)
  have m: "GetMaxCounter (high_val h) = 0xFFFFFF \<or> GetMaxCounter (high_val h) = 0xFFFFFFFF" by (simp add: GetMaxCounter_def)
  then have "unat n < 0xFFFFFFFE" "n < GetMaxCounter (high_val h)"
    using n(1) by (auto simp: word_less_nat_alt)
  then show "c < n'" "c < GetMaxCounter (high_val h)"
    using n(2,3) by (simp_all add: word_less_nat_alt unat_word_ariths)
qed

end
