(* ===== verification/WorldSocket.thy ===== *)
theory WorldSocket
  imports Buffers
begin

text \<open>
  The connection of a game client (\<open>Server/WorldSocket.cpp\<close>, \<open>WorldSocket.h\<close>, on top of
  \<open>shared/Networking/Socket.h\<close>): cutting the received bytes into packets, the packets the socket handles
  itself (ping and authentication), and putting the packets to send into buffers. The cipher (ARC4 of
  OpenSSL), the hash functions and the account database are parameters.
\<close>

section \<open>The state of a socket\<close>

text \<open>The cipher states of \<open>AuthCrypt\<close>.\<close>

record 'c AuthCrypt =
  ac_initialized :: bool
  ac_clientDecrypt :: 'c
  ac_serverEncrypt :: 'c

record AddonInfo =
  ad_Name :: "u8 list"
  ad_Enabled :: u8
  ad_CRC :: u32
  ad_State :: u8
  ad_UsePublicKeyOrCRC :: bool

record WorldSession =
  ss_accountId :: u32
  ss_accountName :: "u8 list"
  ss_security :: u8
  ss_expansion :: u8
  ss_muteTime :: u64
  ss_locale :: u8
  ss_recruiter :: u32
  ss_isRecruiter :: bool
  ss_addons :: "AddonInfo list"
  ss_warden :: bool
  ss_inWorld :: bool
  ss_timeOutTime :: int
  ss_latency :: u32
  ss_clientTimeDelay :: u32
  ss_skipOverspeed :: bool
  ss_recvQueue :: "(u16 \<times> ByteBuffer) list"

record AuthSession =
  as_BattlegroupID :: u32
  as_LoginServerType :: u32
  as_RealmID :: u32
  as_Build :: u32
  as_LocalChallenge :: u32
  as_LoginServerID :: u32
  as_RegionID :: u32
  as_DosResponse :: u64
  as_Digest :: "u8 list"
  as_Account :: "u8 list"
  as_AddonInfo :: ByteBuffer

text \<open>
  \<open>sk_LastPingTime\<close> is 0 for the default time point. \<open>sk_queries\<close> are the account queries without an
  answer, \<open>sk_reading\<close> whether a read was asked of the operating system.
\<close>

record 'c WorldSocket =
  sk_closed :: bool
  sk_closing :: bool
  sk_reading :: bool
  sk_readBuffer :: MessageBuffer
  sk_headerBuffer :: MessageBuffer
  sk_packetBuffer :: MessageBuffer
  sk_authCrypt :: "'c AuthCrypt"
  sk_authSeed :: u32
  sk_LastPingTime :: int
  sk_OverSpeedPings :: u32
  sk_worldSession :: "WorldSession option"
  sk_authed :: bool
  sk_bufferQueue :: "(u16 \<times> u8 list \<times> bool) list"
  sk_sendBufferSize :: nat
  sk_writeQueue :: "MessageBuffer list"
  sk_isWritingAsync :: bool
  sk_queries :: "AuthSession list"
  sk_ipCountry :: "u8 list"

text \<open>
  What the socket asks of the rest: the byte order of the host, the cipher (a state and bytes to the
  bytes out and the next state), the clock in milliseconds, the configuration and which opcodes have a
  handler.
\<close>

record 'c socket_env =
  se_big :: bool
  se_arc4 :: "'c \<Rightarrow> u8 list \<Rightarrow> u8 list \<times> 'c"
  se_now :: int
  se_maxOverspeedPings :: u32
  se_gameTime :: int
  se_timeout :: u32
  se_timeoutActive :: u32
  se_hasHandler :: "u32 \<Rightarrow> bool"

text \<open>
  The ways a call does not return: a failed \<open>ASSERT\<close> (of \<open>ReadHandler\<close> for bytes left behind a header or a payload that
  is not complete, of \<open>ReadHeaderHandler\<close> for the size of the header, of the handler for the packet with an opcode), an
  access outside of a buffer, and a loop of the model that runs out of fuel.
\<close>

datatype assertion = HeaderBytesLeft | PayloadBytesLeft | HeaderSize | InPacket u32

datatype run_error = ServerAborts assertion | OutOfBounds | OutOfFuel

text \<open>A new connection: the header buffer has room for one header, the read buffer for one block.\<close>

definition mk_AuthCrypt :: "'c \<Rightarrow> 'c AuthCrypt" where
  "mk_AuthCrypt c0 = \<lparr>ac_initialized = False, ac_clientDecrypt = c0, ac_serverEncrypt = c0\<rparr>"

definition mk_WorldSocket :: "'c \<Rightarrow> u32 \<Rightarrow> 'c WorldSocket" where
  "mk_WorldSocket c0 seed =
     \<lparr>sk_closed = False, sk_closing = False, sk_reading = False, sk_readBuffer = mb_Resize 4096 (mk_MessageBuffer 4096),
      sk_headerBuffer = mb_Resize 6 (mk_MessageBuffer 4096), sk_packetBuffer = mk_MessageBuffer 4096,
      sk_authCrypt = mk_AuthCrypt c0, sk_authSeed = seed, sk_LastPingTime = 0, sk_OverSpeedPings = 0,
      sk_worldSession = None, sk_authed = False, sk_bufferQueue = [], sk_sendBufferSize = 4096,
      sk_writeQueue = [], sk_isWritingAsync = False, sk_queries = [], sk_ipCountry = []\<rparr>"

definition IsOpen :: "'c WorldSocket \<Rightarrow> bool" where
  "IsOpen s \<longleftrightarrow> \<not> sk_closed s \<and> \<not> sk_closing s"

text \<open>\<open>CloseSocket\<close> calls \<open>OnClose\<close>, which forgets the session.\<close>

definition CloseSocket :: "'c WorldSocket \<Rightarrow> 'c WorldSocket" where
  "CloseSocket s = (if sk_closed s then s else s\<lparr>sk_closed := True, sk_worldSession := None\<rparr>)"

definition DelayedCloseSocket :: "'c WorldSocket \<Rightarrow> 'c WorldSocket" where
  "DelayedCloseSocket s = s\<lparr>sk_closing := True\<rparr>"

definition AsyncRead :: "'c WorldSocket \<Rightarrow> 'c WorldSocket" where
  "AsyncRead s =
     (if IsOpen s then s\<lparr>sk_readBuffer := EnsureFreeSpace (Normalize (sk_readBuffer s)), sk_reading := True\<rparr> else s)"

definition DecryptRecv :: "'c socket_env \<Rightarrow> u8 list \<Rightarrow> 'c AuthCrypt \<Rightarrow> u8 list \<times> 'c AuthCrypt" where
  "DecryptRecv E bs c =
     (if ac_initialized c then
        (case se_arc4 E (ac_clientDecrypt c) bs of (out, st) \<Rightarrow> (out, c\<lparr>ac_clientDecrypt := st\<rparr>))
      else (bs, c))"

definition EncryptSend :: "'c socket_env \<Rightarrow> u8 list \<Rightarrow> 'c AuthCrypt \<Rightarrow> u8 list \<times> 'c AuthCrypt" where
  "EncryptSend E bs c =
     (if ac_initialized c then
        (case se_arc4 E (ac_serverEncrypt c) bs of (out, st) \<Rightarrow> (out, c\<lparr>ac_serverEncrypt := st\<rparr>))
      else (bs, c))"

definition SendPacket :: "u16 \<Rightarrow> u8 list \<Rightarrow> 'c WorldSocket \<Rightarrow> 'c WorldSocket" where
  "SendPacket opcode bs s =
     (if IsOpen s then s\<lparr>sk_bufferQueue := sk_bufferQueue s @ [(opcode, bs, ac_initialized (sk_authCrypt s))]\<rparr> else s)"

section \<open>The packets the socket handles itself\<close>

abbreviation "CMSG_PING \<equiv> (0x1DC :: u32)"
abbreviation "CMSG_AUTH_SESSION \<equiv> (0x1ED :: u32)"
abbreviation "CMSG_KEEP_ALIVE \<equiv> (0x407 :: u32)"
abbreviation "SMSG_PONG \<equiv> (0x1DD :: u16)"
abbreviation "SMSG_AUTH_RESPONSE \<equiv> (0x1EE :: u16)"
abbreviation "NUM_OPCODE_HANDLERS \<equiv> (0x51F :: u32)"

definition ResetTimeOutTime :: "'c socket_env \<Rightarrow> bool \<Rightarrow> WorldSession \<Rightarrow> WorldSession" where
  "ResetTimeOutTime E onlyActive ss =
     (if ss_inWorld ss then ss\<lparr>ss_timeOutTime := se_gameTime E + uint (se_timeoutActive E)\<rparr>
      else if \<not> onlyActive then ss\<lparr>ss_timeOutTime := se_gameTime E + uint (se_timeout E)\<rparr> else ss)"

text \<open>The pings that come too fast are counted; a session that must not is closed.\<close>

definition ping_too_fast :: "'c socket_env \<Rightarrow> 'c WorldSocket \<Rightarrow> 'c WorldSocket \<times> bool" where
  "ping_too_fast E s =
     (if sk_LastPingTime s = 0 then (s\<lparr>sk_LastPingTime := se_now E\<rparr>, False)
      else
        let diff = se_now E - sk_LastPingTime s; s1 = s\<lparr>sk_LastPingTime := se_now E\<rparr>
        in if diff < 27000 then
             let n = sk_OverSpeedPings s1 + 1; s2 = s1\<lparr>sk_OverSpeedPings := n\<rparr>
             in (s2, se_maxOverspeedPings E \<noteq> 0 \<and> n > se_maxOverspeedPings E \<and>
                     (case sk_worldSession s2 of Some ss \<Rightarrow> \<not> ss_skipOverspeed ss | None \<Rightarrow> False))
           else (s1\<lparr>sk_OverSpeedPings := 0\<rparr>, False))"

definition HandlePing :: "'c socket_env \<Rightarrow> ByteBuffer \<Rightarrow> 'c WorldSocket \<Rightarrow> buf_error + (bool \<times> 'c WorldSocket)" where
  "HandlePing E p s =
     (case read_value (se_big E) p of
        Inl e \<Rightarrow> Inl e
      | Inr (ping :: u32, p1) \<Rightarrow>
          (case read_value (se_big E) p1 of
             Inl e \<Rightarrow> Inl e
           | Inr (latency, p2) \<Rightarrow>
               (case ping_too_fast E s of
                  (s1, True) \<Rightarrow> Inr (False, s1)
                | (s1, False) \<Rightarrow>
                    (case sk_worldSession s1 of
                       None \<Rightarrow> Inr (False, s1)
                     | Some ss \<Rightarrow>
                         (let s2 = s1\<lparr>sk_worldSession := Some (ss\<lparr>ss_latency := latency, ss_clientTimeDelay := 0\<rparr>)\<rparr>
                          in case append_value (se_big E) ping mk_ByteBuffer of
                               Inl e \<Rightarrow> Inl e
                             | Inr b \<Rightarrow> Inr (True, SendPacket SMSG_PONG (bb_storage b) s2))))))"

text \<open>
  \<open>HandleAuthSession\<close> reads the fields one after the other. What is left are the addons, appended to a
  buffer of their own.
\<close>

definition next_u32 :: "bool \<Rightarrow> (u32 \<Rightarrow> AuthSession \<Rightarrow> AuthSession) \<Rightarrow> buf_error + (AuthSession \<times> ByteBuffer)
     \<Rightarrow> buf_error + (AuthSession \<times> ByteBuffer)" where
  "next_u32 big upd r =
     (case r of
        Inl e \<Rightarrow> Inl e
      | Inr (a, p) \<Rightarrow> (case read_value big p of Inl e \<Rightarrow> Inl e | Inr (v, p1) \<Rightarrow> Inr (upd v a, p1)))"

definition next_u64 :: "bool \<Rightarrow> (u64 \<Rightarrow> AuthSession \<Rightarrow> AuthSession) \<Rightarrow> buf_error + (AuthSession \<times> ByteBuffer)
     \<Rightarrow> buf_error + (AuthSession \<times> ByteBuffer)" where
  "next_u64 big upd r =
     (case r of
        Inl e \<Rightarrow> Inl e
      | Inr (a, p) \<Rightarrow> (case read_value big p of Inl e \<Rightarrow> Inl e | Inr (v, p1) \<Rightarrow> Inr (upd v a, p1)))"

definition next_string :: "(u8 list \<Rightarrow> AuthSession \<Rightarrow> AuthSession) \<Rightarrow> buf_error + (AuthSession \<times> ByteBuffer)
     \<Rightarrow> buf_error + (AuthSession \<times> ByteBuffer)" where
  "next_string upd r =
     (case r of Inl e \<Rightarrow> Inl e | Inr (a, p) \<Rightarrow> (case read_string p of (str, p1) \<Rightarrow> Inr (upd str a, p1)))"

definition mk_AuthSession :: AuthSession where
  "mk_AuthSession =
     \<lparr>as_BattlegroupID = 0, as_LoginServerType = 0, as_RealmID = 0, as_Build = 0, as_LocalChallenge = 0,
      as_LoginServerID = 0, as_RegionID = 0, as_DosResponse = 0, as_Digest = replicate 20 0,
      as_Account = [], as_AddonInfo = mk_ByteBuffer\<rparr>"

definition read_AuthSession :: "bool \<Rightarrow> ByteBuffer \<Rightarrow> buf_error + AuthSession" where
  "read_AuthSession big p =
     (let r0 = Inr (mk_AuthSession, p);
          r1 = next_u32 big (\<lambda>v a. a\<lparr>as_Build := v\<rparr>) r0;
          r2 = next_u32 big (\<lambda>v a. a\<lparr>as_LoginServerID := v\<rparr>) r1;
          r3 = next_string (\<lambda>str a. a\<lparr>as_Account := str\<rparr>) r2;
          r4 = next_u32 big (\<lambda>v a. a\<lparr>as_LoginServerType := v\<rparr>) r3;
          r5 = next_u32 big (\<lambda>v a. a\<lparr>as_LocalChallenge := v\<rparr>) r4;
          r6 = next_u32 big (\<lambda>v a. a\<lparr>as_RegionID := v\<rparr>) r5;
          r7 = next_u32 big (\<lambda>v a. a\<lparr>as_BattlegroupID := v\<rparr>) r6;
          r8 = next_u32 big (\<lambda>v a. a\<lparr>as_RealmID := v\<rparr>) r7;
          r9 = next_u64 big (\<lambda>v a. a\<lparr>as_DosResponse := v\<rparr>) r8
      in case r9 of
           Inl e \<Rightarrow> Inl e
         | Inr (a, p1) \<Rightarrow>
             (case read_bytes 20 p1 of
                Inl e \<Rightarrow> Inl e
              | Inr (digest, p2) \<Rightarrow>
                  (case append_bytes (drop (bb_rpos p2) (bb_storage p2)) mk_ByteBuffer of
                     Inl e \<Rightarrow> Inl e
                   | Inr addons \<Rightarrow> Inr (a\<lparr>as_Digest := digest, as_AddonInfo := addons\<rparr>))))"

definition HandleAuthSession :: "'c socket_env \<Rightarrow> ByteBuffer \<Rightarrow> 'c WorldSocket \<Rightarrow> buf_error + 'c WorldSocket" where
  "HandleAuthSession E p s =
     (case read_AuthSession (se_big E) p of
        Inl e \<Rightarrow> Inl e
      | Inr a \<Rightarrow> Inr (s\<lparr>sk_queries := sk_queries s @ [a]\<rparr>))"

section \<open>Receiving\<close>

datatype ReadDataHandlerResult = RD_Ok | RD_Error | RD_WaitingForQuery

text \<open>The header: 2 bytes for the size, the higher first, and 4 for the opcode, the lowest first.\<close>

definition EndianConvertReverse :: "bool \<Rightarrow> u8 list \<Rightarrow> u8 list" where
  "EndianConvertReverse big bs = (if big then bs else convert bs)"

definition IsValidSize :: "u16 \<Rightarrow> bool" where
  "IsValidSize sz \<longleftrightarrow> sz \<ge> 4 \<and> sz < 10240"

definition IsValidOpcode :: "u32 \<Rightarrow> bool" where
  "IsValidOpcode cmd \<longleftrightarrow> cmd < NUM_OPCODE_HANDLERS"

definition ReadHeaderHandler :: "'c socket_env \<Rightarrow> 'c WorldSocket \<Rightarrow> run_error + (bool \<times> 'c WorldSocket)" where
  "ReadHeaderHandler E s =
     (let h = sk_headerBuffer s
      in if GetActiveSize h \<noteq> 6 then Inl (ServerAborts HeaderSize)
         else
           let (bs, crypt) = DecryptRecv E (read_at 6 h) (sk_authCrypt s);
               sz = from_memory (se_big E) (EndianConvertReverse (se_big E) (take 2 bs));
               cmd = from_memory (se_big E) (EndianConvert (se_big E) (drop 2 bs));
               header = (\<lambda>sz. h\<lparr>mb_storage := copy_to (mb_rpos h) (memory (se_big E) (sz :: u16) @ memory (se_big E) (cmd :: u32)) (mb_storage h)\<rparr>);
               s1 = s\<lparr>sk_authCrypt := crypt, sk_headerBuffer := header sz\<rparr>
           in if \<not> IsValidSize sz \<or> \<not> IsValidOpcode cmd then Inr (False, s1)
              else Inr (True, s1\<lparr>sk_headerBuffer := header (sz - 4),
                                 sk_packetBuffer := mb_Resize (unat (sz - 4)) (sk_packetBuffer s1)\<rparr>))"

text \<open>An exception of a \<open>ByteBuffer\<close> is caught; a failed assertion is not an exception.\<close>

definition caught :: "u32 \<Rightarrow> buf_error + (ReadDataHandlerResult \<times> 'c WorldSocket) \<Rightarrow> 'c WorldSocket
     \<Rightarrow> run_error + (ReadDataHandlerResult \<times> 'c WorldSocket)" where
  "caught opcode r s =
     (case r of
        Inl AssertFailed \<Rightarrow> Inl (ServerAborts (InPacket opcode))
      | Inl _ \<Rightarrow> Inr (RD_Error, s)
      | Inr x \<Rightarrow> Inr x)"

definition ReadDataHandler :: "'c socket_env \<Rightarrow> 'c WorldSocket \<Rightarrow> run_error + (ReadDataHandlerResult \<times> 'c WorldSocket)" where
  "ReadDataHandler E s0 =
     (let opcode = from_memory (se_big E) (take 4 (drop (mb_rpos (sk_headerBuffer s0) + 2) (mb_storage (sk_headerBuffer s0))));
          (p, moved) = buffer_of_message (sk_packetBuffer s0);
          s = s0\<lparr>sk_packetBuffer := moved\<rparr>
      in if opcode = CMSG_PING then
           caught opcode (case HandlePing E p s of
                     Inl e \<Rightarrow> Inl e
                   | Inr (ok, s1) \<Rightarrow> Inr (if ok then RD_Ok else RD_Error, s1)) s
         else if opcode = CMSG_AUTH_SESSION then
           (if sk_authed s then Inr (RD_Error, s)
            else caught opcode (case HandleAuthSession E p s of
                           Inl e \<Rightarrow> Inl e
                         | Inr s1 \<Rightarrow> Inr (RD_WaitingForQuery, s1)) s)
         else if opcode = CMSG_KEEP_ALIVE then
           Inr (RD_Ok, s\<lparr>sk_worldSession := map_option (ResetTimeOutTime E True) (sk_worldSession s)\<rparr>)
         else
           (case sk_worldSession s of
              None \<Rightarrow> Inr (RD_Error, s)
            | Some ss \<Rightarrow>
                if \<not> se_hasHandler E opcode then Inr (RD_Ok, s)
                else
                  let ss1 = ResetTimeOutTime E False ss
                  in Inr (RD_Ok, s\<lparr>sk_worldSession :=
                            Some (ss1\<lparr>ss_recvQueue := ss_recvQueue ss1 @ [(ucast opcode, p)]\<rparr>)\<rparr>)))"

text \<open>
  Bytes from the read buffer to another one: as many as there are and as fit.
\<close>

definition take_over :: "MessageBuffer \<Rightarrow> MessageBuffer \<Rightarrow> (MessageBuffer \<times> MessageBuffer) option" where
  "take_over packet dest =
     (let n = min (GetActiveSize packet) (GetRemainingSpace dest)
      in case mb_Write (read_at n packet) dest of
           None \<Rightarrow> None
         | Some dest' \<Rightarrow> Some (ReadCompleted n packet, dest'))"

datatype ReadStep = RS_Wait | RS_Continue | RS_Return

text \<open>
  One round of the loop of \<open>ReadHandler\<close>, with at least one byte to read: the loop is left to wait for
  more bytes, goes on, or the function returns at once.
\<close>

definition finish_packet :: "'c socket_env \<Rightarrow> 'c WorldSocket \<Rightarrow> run_error + (ReadStep \<times> 'c WorldSocket)" where
  "finish_packet E s =
     (case ReadDataHandler E s of
        Inl e \<Rightarrow> Inl e
      | Inr (result, s1) \<Rightarrow>
          (let s2 = s1\<lparr>sk_headerBuffer := mb_Reset (sk_headerBuffer s1)\<rparr>
           in if result = RD_Ok then Inr (RS_Continue, s2)
              else Inr (RS_Return, if result \<noteq> RD_WaitingForQuery then CloseSocket s2 else s2)))"

definition read_payload :: "'c socket_env \<Rightarrow> 'c WorldSocket \<Rightarrow> run_error + (ReadStep \<times> 'c WorldSocket)" where
  "read_payload E s =
     (if GetRemainingSpace (sk_packetBuffer s) > 0 then
        (case take_over (sk_readBuffer s) (sk_packetBuffer s) of
           None \<Rightarrow> Inl OutOfBounds
         | Some (packet, payload) \<Rightarrow>
             (let s1 = s\<lparr>sk_readBuffer := packet, sk_packetBuffer := payload\<rparr>
              in if GetRemainingSpace payload > 0 then
                   (if GetActiveSize packet = 0 then Inr (RS_Wait, s1) else Inl (ServerAborts PayloadBytesLeft))
                 else finish_packet E s1))
      else finish_packet E s)"

definition read_round :: "'c socket_env \<Rightarrow> 'c WorldSocket \<Rightarrow> run_error + (ReadStep \<times> 'c WorldSocket)" where
  "read_round E s =
     (if GetRemainingSpace (sk_headerBuffer s) > 0 then
        (case take_over (sk_readBuffer s) (sk_headerBuffer s) of
           None \<Rightarrow> Inl OutOfBounds
         | Some (packet, header) \<Rightarrow>
             (let s1 = s\<lparr>sk_readBuffer := packet, sk_headerBuffer := header\<rparr>
              in if GetRemainingSpace header > 0 then
                   (if GetActiveSize packet = 0 then Inr (RS_Wait, s1) else Inl (ServerAborts HeaderBytesLeft))
                 else
                   (case ReadHeaderHandler E s1 of
                      Inl e \<Rightarrow> Inl e
                    | Inr (False, s2) \<Rightarrow> Inr (RS_Return, CloseSocket s2)
                    | Inr (True, s2) \<Rightarrow> read_payload E s2)))
      else read_payload E s)"

fun read_loop :: "'c socket_env \<Rightarrow> nat \<Rightarrow> 'c WorldSocket \<Rightarrow> run_error + (bool \<times> 'c WorldSocket)" where
  "read_loop E 0 s = Inl OutOfFuel"
| "read_loop E (Suc k) s =
     (if GetActiveSize (sk_readBuffer s) > 0 then
        (case read_round E s of
           Inl e \<Rightarrow> Inl e
         | Inr (RS_Wait, s1) \<Rightarrow> Inr (True, s1)
         | Inr (RS_Continue, s1) \<Rightarrow> read_loop E k s1
         | Inr (RS_Return, s1) \<Rightarrow> Inr (False, s1))
      else Inr (True, s))"

text \<open>Every round takes a byte, so that the number of bytes and one are enough rounds.\<close>

definition ReadHandler :: "'c socket_env \<Rightarrow> 'c WorldSocket \<Rightarrow> run_error + 'c WorldSocket" where
  "ReadHandler E s =
     (if \<not> IsOpen s then Inr s
      else
        (case read_loop E (Suc (GetActiveSize (sk_readBuffer s))) s of
           Inl e \<Rightarrow> Inl e
         | Inr (again, s1) \<Rightarrow> Inr (if again then AsyncRead s1 else s1)))"

text \<open>The operating system puts bytes behind the write pointer, not more than there is room, or fails.\<close>

definition ReadHandlerInternal :: "'c socket_env \<Rightarrow> u8 list option \<Rightarrow> 'c WorldSocket \<Rightarrow> run_error + 'c WorldSocket" where
  "ReadHandlerInternal E got s0 =
     (let s = s0\<lparr>sk_reading := False\<rparr>
      in case got of
           None \<Rightarrow> Inr (CloseSocket s)
         | Some bs \<Rightarrow>
             (case mb_Write bs (sk_readBuffer s) of
                None \<Rightarrow> Inl OutOfBounds
              | Some b \<Rightarrow> ReadHandler E (s\<lparr>sk_readBuffer := b\<rparr>)))"

end
