(* ===== verification/WorldStream.thy ===== *)
theory WorldStream
  imports WorldSocket
begin

text \<open>
  Receiving as a function of the stream of bytes: the loop of \<open>ReadHandler\<close> over a list in place of the read
  buffer, the invariant of the header and packet buffers, and the properties of the receiving side.
\<close>

section \<open>The stream of received bytes\<close>

text \<open>The same loop over a list of bytes, for the proofs: the read buffer plays no part.\<close>

definition with_rest :: "u8 list \<Rightarrow> run_error + (ReadStep \<times> 'c WorldSocket) \<Rightarrow> run_error + (ReadStep \<times> u8 list \<times> 'c WorldSocket)" where
  "with_rest bs r = (case r of Inl e \<Rightarrow> Inl e | Inr (st, s) \<Rightarrow> Inr (st, bs, s))"

definition feed_payload :: "'c socket_env \<Rightarrow> u8 list \<Rightarrow> 'c WorldSocket \<Rightarrow> run_error + (ReadStep \<times> u8 list \<times> 'c WorldSocket)" where
  "feed_payload E bs s =
     (if GetRemainingSpace (sk_packetBuffer s) > 0 then
        let n = min (length bs) (GetRemainingSpace (sk_packetBuffer s))
        in (case mb_Write (take n bs) (sk_packetBuffer s) of
              None \<Rightarrow> Inl OutOfBounds
            | Some payload \<Rightarrow>
                (let s1 = s\<lparr>sk_packetBuffer := payload\<rparr>
                 in if GetRemainingSpace payload > 0 then
                      (if n = length bs then Inr (RS_Wait, [], s1) else Inl (ServerAborts PayloadBytesLeft))
                    else with_rest (drop n bs) (finish_packet E s1)))
      else with_rest bs (finish_packet E s))"

definition feed_round :: "'c socket_env \<Rightarrow> u8 list \<Rightarrow> 'c WorldSocket \<Rightarrow> run_error + (ReadStep \<times> u8 list \<times> 'c WorldSocket)" where
  "feed_round E bs s =
     (if GetRemainingSpace (sk_headerBuffer s) > 0 then
        let n = min (length bs) (GetRemainingSpace (sk_headerBuffer s))
        in (case mb_Write (take n bs) (sk_headerBuffer s) of
              None \<Rightarrow> Inl OutOfBounds
            | Some header \<Rightarrow>
                (let s1 = s\<lparr>sk_headerBuffer := header\<rparr>
                 in if GetRemainingSpace header > 0 then
                      (if n = length bs then Inr (RS_Wait, [], s1) else Inl (ServerAborts HeaderBytesLeft))
                    else
                      (case ReadHeaderHandler E s1 of
                         Inl e \<Rightarrow> Inl e
                       | Inr (False, s2) \<Rightarrow> Inr (RS_Return, drop n bs, CloseSocket s2)
                       | Inr (True, s2) \<Rightarrow> feed_payload E (drop n bs) s2)))
      else feed_payload E bs s)"

text \<open>The invariant of the buffers between two rounds.\<close>

definition buffers_ok :: "'c WorldSocket \<Rightarrow> bool" where
  "buffers_ok s \<longleftrightarrow> mb_ok (sk_headerBuffer s) \<and> mb_rpos (sk_headerBuffer s) = 0 \<and> length (mb_storage (sk_headerBuffer s)) = 6
     \<and> mb_ok (sk_packetBuffer s) \<and> mb_rpos (sk_packetBuffer s) = 0
     \<and> (GetRemainingSpace (sk_headerBuffer s) > 0 \<longrightarrow> mb_wpos (sk_packetBuffer s) = 0)"

definition between_rounds :: "'c WorldSocket \<Rightarrow> bool" where
  "between_rounds s \<longleftrightarrow> GetRemainingSpace (sk_headerBuffer s) > 0 \<or> GetRemainingSpace (sk_packetBuffer s) > 0"

text \<open>Writing in two parts is writing at once.\<close>

lemma mb_Write_append:
  assumes "mb_Write a b = Some b1"
  shows "mb_Write c b1 = mb_Write (a @ c) b"
  using assms
  by (auto simp: mb_Write_def mb_defs ac_simps split: if_splits)

text \<open>The handlers leave the buffers they do not name alone.\<close>

lemma ReadDataHandler_buffers:
  assumes "ReadDataHandler E s = Inr (r, s1)"
  shows "sk_headerBuffer s1 = sk_headerBuffer s" and "sk_packetBuffer s1 = \<lparr>mb_wpos = 0, mb_rpos = 0, mb_storage = []\<rparr>"
    and "sk_readBuffer s1 = sk_readBuffer s"
  using assms
  by (auto simp: ReadDataHandler_def buffer_of_message_def mb_Move_def caught_def HandlePing_def ping_too_fast_def
      HandleAuthSession_def SendPacket_def Let_def split: if_splits sum.splits prod.splits buf_error.splits option.splits bool.splits)

lemma ReadHandlers_keep:
  "sk_authed (CloseSocket s) = sk_authed s"
  "ReadHeaderHandler E s = Inr (ok, s1) \<Longrightarrow> sk_authed s1 = sk_authed s \<and> IsOpen s1 = IsOpen s \<and> sk_reading s1 = sk_reading s"
  "ReadDataHandler E s = Inr (r, s1) \<Longrightarrow> sk_authed s1 = sk_authed s \<and> IsOpen s1 = IsOpen s \<and> sk_reading s1 = sk_reading s"
  by (auto simp: CloseSocket_def ReadHeaderHandler_def IsOpen_def ReadDataHandler_def buffer_of_message_def mb_Move_def caught_def
      HandlePing_def ping_too_fast_def HandleAuthSession_def SendPacket_def Let_def
      split: if_splits sum.splits prod.splits buf_error.splits option.splits bool.splits)

lemma length_copy_to [simp]: "p + length bs \<le> length xs \<Longrightarrow> length (copy_to p bs xs) = length xs"
  by (simp add: copy_to_def)

lemma ReadHeaderHandler_buffers:
  assumes "ReadHeaderHandler E s = Inr (ok, s1)" and "buffers_ok (s\<lparr>sk_headerBuffer := h\<rparr>)"
    and "GetRemainingSpace h > 0" and "mb_ok (sk_headerBuffer s)" "mb_rpos (sk_headerBuffer s) = 0"
    "length (mb_storage (sk_headerBuffer s)) = 6" "GetRemainingSpace (sk_headerBuffer s) = 0"
  shows "buffers_ok s1" and "GetRemainingSpace (sk_headerBuffer s1) = 0"
  using assms
  by (auto simp: ReadHeaderHandler_def buffers_ok_def sizeof_def Let_def mb_defs split: if_splits prod.splits)

lemma ReadHeaderHandler_full:
  assumes "mb_ok (sk_headerBuffer s)" "mb_rpos (sk_headerBuffer s) = 0" "length (mb_storage (sk_headerBuffer s)) = 6"
    "GetRemainingSpace (sk_headerBuffer s) = 0"
  obtains ok s1 where "ReadHeaderHandler E s = Inr (ok, s1)"
proof -
  have "GetActiveSize (sk_headerBuffer s) = 6" using assms by (simp add: mb_defs)
  then show thesis
    using that by (cases "ReadHeaderHandler E s") (auto simp: ReadHeaderHandler_def Let_def split: prod.splits if_splits)
qed

lemma CloseSocket_buffers [simp]:
  "sk_headerBuffer (CloseSocket s) = sk_headerBuffer s" "sk_packetBuffer (CloseSocket s) = sk_packetBuffer s"
  "sk_readBuffer (CloseSocket s) = sk_readBuffer s" "sk_authCrypt (CloseSocket s) = sk_authCrypt s"
  by (simp_all add: CloseSocket_def)

lemma finish_packet_buffers:
  assumes "finish_packet E s = Inr (st, s1)" and "buffers_ok s"
  shows "buffers_ok s1" and "between_rounds s1" and "st \<noteq> RS_Wait"
proof -
  obtain r s0 where r: "ReadDataHandler E s = Inr (r, s0)"
    using assms(1) by (auto simp: finish_packet_def split: sum.splits)
  note b = ReadDataHandler_buffers[OF r]
  show "buffers_ok s1" "between_rounds s1" "st \<noteq> RS_Wait"
    using assms b by (auto simp: finish_packet_def r Let_def buffers_ok_def between_rounds_def mb_defs split: if_splits)
qed

text \<open>What a longer payload does: the same with more left, or, where the shorter one waits, what the rest does.\<close>

definition longer :: "u8 list \<Rightarrow> (u8 list \<Rightarrow> 'c WorldSocket \<Rightarrow> run_error + (ReadStep \<times> u8 list \<times> 'c WorldSocket)) \<Rightarrow>
    run_error + (ReadStep \<times> u8 list \<times> 'c WorldSocket) \<Rightarrow> run_error + (ReadStep \<times> u8 list \<times> 'c WorldSocket)" where
  "longer cs f r =
     (case r of
        Inl e \<Rightarrow> Inl e
      | Inr (RS_Wait, rest, s1) \<Rightarrow> f cs s1
      | Inr (st, rest, s1) \<Rightarrow> Inr (st, rest @ cs, s1))"

lemma longer_with_rest:
  assumes "buffers_ok t"
  shows "longer cs f (with_rest bs (finish_packet E t)) = with_rest (bs @ cs) (finish_packet E t)"
  using finish_packet_buffers(3)[OF _ assms, of E]
  by (auto simp: longer_def with_rest_def split: sum.splits ReadStep.splits)

lemma feed_payload_append:
  assumes "buffers_ok s" and "GetRemainingSpace (sk_headerBuffer s) = 0"
  shows "feed_payload E (bs @ cs) s = longer cs (feed_payload E) (feed_payload E bs s)"
proof -
  let ?R = "GetRemainingSpace (sk_packetBuffer s)" and ?p = "sk_packetBuffer s"
  have pb: "mb_ok ?p" "mb_rpos ?p = 0" using assms by (simp_all add: buffers_ok_def)
  have ok: "buffers_ok (s\<lparr>sk_packetBuffer := p\<rparr>)" if "mb_ok p" "mb_rpos p = 0" for p
    using assms that by (simp add: buffers_ok_def)
  consider (full) "?R = 0" | (long) "?R > 0" "?R \<le> length bs" | (short) "?R > 0" "length bs < ?R" by linarith
  then show ?thesis
  proof cases
    case full
    then show ?thesis by (simp add: feed_payload_def longer_with_rest[OF assms(1)])
  next
    case long
    obtain p where p: "mb_Write (take ?R bs) ?p = Some p" "GetRemainingSpace p = 0" "mb_ok p" "mb_rpos p = 0"
      using mb_Write_ok[OF pb(1), of "take ?R bs"] long pb(2) by (auto simp: min_absorb2)
    then show ?thesis
      using long longer_with_rest[OF ok[OF p(3,4)], of cs] by (simp add: feed_payload_def Let_def min_absorb2)
  next
    case short
    obtain p where p: "mb_Write bs ?p = Some p" "GetRemainingSpace p = ?R - length bs" "mb_ok p" "mb_rpos p = 0"
      using mb_Write_ok[OF pb(1), of bs] short pb(2) by auto
    have wait: "feed_payload E bs s = Inr (RS_Wait, [], s\<lparr>sk_packetBuffer := p\<rparr>)"
      using p short by (simp add: feed_payload_def Let_def min_absorb1)
    define n where "n = min (length cs) (?R - length bs)"
    have min: "min (length (bs @ cs)) ?R = length bs + n" using short by (simp add: n_def)
    have parts: "take (min (length (bs @ cs)) ?R) (bs @ cs) = bs @ take n cs"
      "drop (min (length (bs @ cs)) ?R) (bs @ cs) = drop n cs" "min (length (bs @ cs)) ?R = length (bs @ cs) \<longleftrightarrow> n = length cs"
      unfolding min by simp_all
    have "feed_payload E (bs @ cs) s =
        (case mb_Write (take n cs) p of
           None \<Rightarrow> Inl OutOfBounds
         | Some payload \<Rightarrow>
             if GetRemainingSpace payload > 0 then
               (if n = length cs then Inr (RS_Wait, [], s\<lparr>sk_packetBuffer := payload\<rparr>) else Inl (ServerAborts PayloadBytesLeft))
             else with_rest (drop n cs) (finish_packet E (s\<lparr>sk_packetBuffer := payload\<rparr>)))"
      unfolding feed_payload_def Let_def parts mb_Write_append[OF p(1)] using short(1) by simp
    also have "\<dots> = feed_payload E cs (s\<lparr>sk_packetBuffer := p\<rparr>)"
      using short p(2) by (simp add: feed_payload_def Let_def n_def split: option.split)
    finally have "feed_payload E (bs @ cs) s = feed_payload E cs (s\<lparr>sk_packetBuffer := p\<rparr>)" .
    then show ?thesis by (simp add: wait longer_def)
  qed
qed

lemma feed_payload_cases:
  assumes "buffers_ok s" and "GetRemainingSpace (sk_headerBuffer s) = 0"
  obtains (wait) s1 where "feed_payload E bs s = Inr (RS_Wait, [], s1)" "buffers_ok s1"
      "sk_headerBuffer s1 = sk_headerBuffer s" "GetRemainingSpace (sk_packetBuffer s1) > 0" "sk_authed s1 = sk_authed s"
      "sk_reading s1 = sk_reading s" "IsOpen s1 = IsOpen s"
  | (whole) k p where "feed_payload E bs s = with_rest (drop k bs) (finish_packet E (s\<lparr>sk_packetBuffer := p\<rparr>))"
      "buffers_ok (s\<lparr>sk_packetBuffer := p\<rparr>)" "k \<le> length bs" "GetRemainingSpace (sk_packetBuffer s) > 0 \<Longrightarrow> k > 0"
proof -
  let ?R = "GetRemainingSpace (sk_packetBuffer s)" and ?p = "sk_packetBuffer s"
  have pb: "mb_ok ?p" "mb_rpos ?p = 0" using assms by (simp_all add: buffers_ok_def)
  have ok: "buffers_ok (s\<lparr>sk_packetBuffer := p\<rparr>)" if "mb_ok p" "mb_rpos p = 0" for p
    using assms that by (simp add: buffers_ok_def)
  consider (full) "?R = 0" | (long) "?R > 0" "?R \<le> length bs" | (short) "?R > 0" "length bs < ?R" by linarith
  then show thesis
  proof cases
    case full
    then show thesis using whole[of 0 "?p"] assms(1) by (simp add: feed_payload_def)
  next
    case long
    obtain p where p: "mb_Write (take ?R bs) ?p = Some p" "GetRemainingSpace p = 0" "mb_ok p" "mb_rpos p = 0"
      using mb_Write_ok[OF pb(1), of "take ?R bs"] long pb(2) by (auto simp: min_absorb2)
    then show thesis
      using whole[of ?R p] long ok by (simp add: feed_payload_def Let_def min_absorb2)
  next
    case short
    obtain p where p: "mb_Write bs ?p = Some p" "GetRemainingSpace p = ?R - length bs" "mb_ok p" "mb_rpos p = 0"
      using mb_Write_ok[OF pb(1), of bs] short pb(2) by auto
    then show thesis
      using short wait[of "s\<lparr>sk_packetBuffer := p\<rparr>"] p ok by (simp add: feed_payload_def Let_def min_absorb1 IsOpen_def)
  qed
qed

lemma longer_payload:
  assumes "buffers_ok s" and "GetRemainingSpace (sk_headerBuffer s) = 0"
  shows "longer cs (feed_payload E) (feed_payload E bs s) = longer cs (feed_round E) (feed_payload E bs s)"
proof (cases rule: feed_payload_cases[OF assms, where E = E and bs = bs])
  case (1 s1)
  then show ?thesis using assms(2) by (simp add: longer_def feed_round_def)
next
  case (2 k p)
  then show ?thesis
    using longer_with_rest[OF 2(2), of cs "feed_payload E"] longer_with_rest[OF 2(2), of cs "feed_round E"] by simp
qed

text \<open>The header at the front of the bytes.\<close>

lemma feed_round_header:
  assumes "buffers_ok s" and "GetRemainingSpace (sk_headerBuffer s) > 0"
  defines "R \<equiv> GetRemainingSpace (sk_headerBuffer s)"
  obtains (wait) h where "length bs < R" "feed_round E bs s = Inr (RS_Wait, [], s\<lparr>sk_headerBuffer := h\<rparr>)"
      "mb_Write bs (sk_headerBuffer s) = Some h" "buffers_ok (s\<lparr>sk_headerBuffer := h\<rparr>)" "GetRemainingSpace h = R - length bs"
  | (bad) s2 where "R \<le> length bs" "\<And>cs. feed_round E (bs @ cs) s = Inr (RS_Return, drop R bs @ cs, CloseSocket s2)"
      "buffers_ok s2" "sk_authed s2 = sk_authed s" "sk_reading s2 = sk_reading s"
  | (good) s2 where "R \<le> length bs" "\<And>cs. feed_round E (bs @ cs) s = feed_payload E (drop R bs @ cs) s2"
      "buffers_ok s2" "GetRemainingSpace (sk_headerBuffer s2) = 0" "sk_authed s2 = sk_authed s"
      "sk_reading s2 = sk_reading s" "IsOpen s2 = IsOpen s"
proof -
  let ?h = "sk_headerBuffer s"
  have hb: "mb_ok ?h" "mb_rpos ?h = 0" "length (mb_storage ?h) = 6" using assms(1) by (simp_all add: buffers_ok_def)
  show thesis
  proof (cases "length bs < R")
    case True
    obtain h where h: "mb_Write bs ?h = Some h" "GetRemainingSpace h = R - length bs" "mb_ok h" "mb_rpos h = 0" "length (mb_storage h) = 6"
      using mb_Write_ok[OF hb(1), of bs] True hb(2,3) by (auto simp: R_def)
    have "feed_round E bs s = Inr (RS_Wait, [], s\<lparr>sk_headerBuffer := h\<rparr>)"
      using assms(2) h True by (simp add: feed_round_def Let_def R_def min_absorb1)
    moreover have "buffers_ok (s\<lparr>sk_headerBuffer := h\<rparr>)" using assms(1,2) h by (simp add: buffers_ok_def)
    ultimately show thesis using wait True h by blast
  next
    case False
    then have R: "R \<le> length bs" by simp
    obtain h where h: "mb_Write (take R bs) ?h = Some h" "GetRemainingSpace h = 0" "mb_ok h" "mb_rpos h = 0" "length (mb_storage h) = 6"
      using mb_Write_ok[OF hb(1), of "take R bs"] R hb(2,3) by (auto simp: R_def min_absorb2)
    let ?s = "s\<lparr>sk_headerBuffer := h\<rparr>"
    obtain ok s2 where s2: "ReadHeaderHandler E ?s = Inr (ok, s2)"
      using ReadHeaderHandler_full[of ?s E] h by auto
    have b: "buffers_ok s2" "GetRemainingSpace (sk_headerBuffer s2) = 0"
      using ReadHeaderHandler_buffers[OF s2, of ?h] assms(1,2) h by simp_all
    have a: "sk_authed s2 = sk_authed s" "IsOpen s2 = IsOpen s" "sk_reading s2 = sk_reading s"
      using ReadHandlers_keep(2)[OF s2] by (simp_all add: IsOpen_def)
    have round: "feed_round E (bs @ cs) s = (if ok then feed_payload E (drop R bs @ cs) s2
        else Inr (RS_Return, drop R bs @ cs, CloseSocket s2))" for cs
      using assms(2) h(1,2) s2 R by (simp add: feed_round_def Let_def R_def[symmetric] min_absorb2)
    show thesis
    proof (cases ok)
      case True
      then show thesis using good R round b a by simp
    next
      case False
      then show thesis using bad R round b a by simp
    qed
  qed
qed

lemma feed_round_append:
  assumes "buffers_ok s" and "between_rounds s"
  shows "feed_round E (bs @ cs) s = longer cs (feed_round E) (feed_round E bs s)"
proof (cases "GetRemainingSpace (sk_headerBuffer s) > 0")
  case False
  then have "\<And>xs. feed_round E xs s = feed_payload E xs s" by (simp add: feed_round_def)
  then show ?thesis
    using False feed_payload_append[OF assms(1)] longer_payload[OF assms(1)] by simp
next
  case True
  show ?thesis
  proof (cases rule: feed_round_header[OF assms(1) True, where E = E and bs = bs])
    case wait: (1 h)
    let ?R = "GetRemainingSpace (sk_headerBuffer s)" and ?s = "s\<lparr>sk_headerBuffer := h\<rparr>"
    define n where "n = min (length cs) (?R - length bs)"
    have min: "min (length (bs @ cs)) ?R = length bs + n" using wait(1) by (simp add: n_def)
    have parts: "take (min (length (bs @ cs)) ?R) (bs @ cs) = bs @ take n cs"
      "drop (min (length (bs @ cs)) ?R) (bs @ cs) = drop n cs" "min (length (bs @ cs)) ?R = length (bs @ cs) \<longleftrightarrow> n = length cs"
      unfolding min by simp_all
    have n: "min (length cs) (GetRemainingSpace (sk_headerBuffer ?s)) = n" by (simp add: n_def wait(5))
    have "feed_round E (bs @ cs) s = feed_round E cs ?s"
      using True wait(1) unfolding feed_round_def Let_def parts mb_Write_append[OF wait(3), symmetric] n
      by (simp add: wait(5) split: option.split)
    then show ?thesis by (simp add: wait longer_def)
  next
    case bad: (2 s2)
    then show ?thesis using bad(2)[of "[]"] by (simp add: longer_def)
  next
    case good: (3 s2)
    then show ?thesis
      using good(2)[of "[]"] feed_payload_append[OF good(3,4)] longer_payload[OF good(3,4)] by simp
  qed
qed

text \<open>Only the authentication packet fails an assertion.\<close>

lemma read_value_no_assert: "read_value big p \<noteq> Inl AssertFailed"
  by (auto simp: read_value_def read_bytes_def split: sum.splits)

lemma append_to_new: "\<exists>b. append_value big (v :: u32) mk_ByteBuffer = Inr b"
  using append_value_end[of mk_ByteBuffer v big] by (auto simp: appends_def at_end_def mk_ByteBuffer_def)

lemma HandlePing_no_assert: "HandlePing E p s \<noteq> Inl AssertFailed"
proof
  assume h: "HandlePing E p s = Inl AssertFailed"
  have "\<And>ping :: u32. append_value (se_big E) ping mk_ByteBuffer \<noteq> Inl AssertFailed"
    using append_to_new by (metis sum.distinct(1))
  then show False
    using h read_value_no_assert[where 'a = 32] unfolding HandlePing_def
    by (auto simp: Let_def split: sum.splits prod.splits bool.splits option.splits)
qed

lemma ReadDataHandler_fails:
  assumes "ReadDataHandler E s = Inl e"
  shows "e = ServerAborts (InPacket CMSG_AUTH_SESSION) \<and> \<not> sk_authed s"
proof -
  have ping: "caught oc (case HandlePing E p s1 of Inl e \<Rightarrow> Inl e | Inr (ok, s2) \<Rightarrow> Inr (if ok then RD_Ok else RD_Error, s2)) s1 \<noteq> Inl e" for oc p s1
    using HandlePing_no_assert[of E p s1] by (auto simp: caught_def split: sum.splits buf_error.splits)
  show ?thesis
    using assms ping
    by (auto simp: ReadDataHandler_def Let_def buffer_of_message_def caught_def[where r = "case HandleAuthSession _ _ _ of Inl e \<Rightarrow> Inl e | Inr s1 \<Rightarrow> Inr (RD_WaitingForQuery, s1)"]
        split: if_splits option.splits sum.splits buf_error.splits)
qed

text \<open>What a round does to the socket, and that it takes a byte.\<close>

definition round_ok :: "'c WorldSocket \<Rightarrow> run_error + (ReadStep \<times> u8 list \<times> 'c WorldSocket) \<Rightarrow> bool" where
  "round_ok s r =
     (case r of
        Inl e \<Rightarrow> e = ServerAborts (InPacket CMSG_AUTH_SESSION) \<and> \<not> sk_authed s
      | Inr (st, rest, s1) \<Rightarrow>
          buffers_ok s1 \<and> sk_authed s1 = sk_authed s \<and> sk_reading s1 = sk_reading s
          \<and> (st = RS_Wait \<longrightarrow> rest = [])
          \<and> (st \<noteq> RS_Return \<longrightarrow> between_rounds s1 \<and> IsOpen s1 = IsOpen s)
          \<and> (st = RS_Return \<longrightarrow> between_rounds s1 \<or> \<not> IsOpen s1))"

lemma CloseSocket_closed [simp]: "\<not> IsOpen (CloseSocket s)" "sk_reading (CloseSocket s) = sk_reading s"
  by (simp_all add: IsOpen_def CloseSocket_def)

lemma finish_packet_ok:
  assumes "buffers_ok s"
  shows "round_ok s (with_rest bs (finish_packet E s))"
proof (cases "ReadDataHandler E s")
  case (Inl e)
  then show ?thesis
    using ReadDataHandler_fails[OF Inl] by (simp add: round_ok_def with_rest_def finish_packet_def)
next
  case (Inr x)
  then obtain r s1 where r: "ReadDataHandler E s = Inr (r, s1)" by (cases x) auto
  obtain st s2 where f: "finish_packet E s = Inr (st, s2)"
    using r by (cases "finish_packet E s") (auto simp: finish_packet_def Let_def split: if_splits)
  note keep = ReadHandlers_keep(3)[OF r] and b = finish_packet_buffers[OF f assms]
  have "sk_authed s2 = sk_authed s" "sk_reading s2 = sk_reading s" "st \<noteq> RS_Return \<Longrightarrow> IsOpen s2 = IsOpen s"
    using f keep by (auto simp: finish_packet_def r Let_def IsOpen_def ReadHandlers_keep(1) split: if_splits)
  then show ?thesis using b f by (simp add: round_ok_def with_rest_def)
qed

lemma round_ok_cong:
  "sk_authed s = sk_authed t \<Longrightarrow> sk_reading s = sk_reading t \<Longrightarrow> IsOpen s = IsOpen t \<Longrightarrow> round_ok s r = round_ok t r"
  by (simp add: round_ok_def split: sum.split)

lemma feed_payload_ok:
  assumes "buffers_ok s" and "GetRemainingSpace (sk_headerBuffer s) = 0"
  shows "round_ok s (feed_payload E bs s)"
    and "feed_payload E bs s = Inr (st, rest, s1) \<Longrightarrow> length rest \<le> length bs
      \<and> (bs \<noteq> [] \<longrightarrow> GetRemainingSpace (sk_packetBuffer s) > 0 \<longrightarrow> length rest < length bs)"
proof -
  have "round_ok s (feed_payload E bs s) \<and> (feed_payload E bs s = Inr (st, rest, s1) \<longrightarrow> length rest \<le> length bs
      \<and> (bs \<noteq> [] \<longrightarrow> GetRemainingSpace (sk_packetBuffer s) > 0 \<longrightarrow> length rest < length bs))"
  proof (cases rule: feed_payload_cases[OF assms, where E = E and bs = bs])
    case (1 s1)
    then show ?thesis by (auto simp: round_ok_def between_rounds_def)
  next
    case (2 k p)
    have "round_ok s (feed_payload E bs s)"
      using finish_packet_ok[OF 2(2)] 2(1) round_ok_cong[of s "s\<lparr>sk_packetBuffer := p\<rparr>"] by (simp add: IsOpen_def)
    then show ?thesis using 2(1,3,4) by (auto simp: with_rest_def split: sum.splits)
  qed
  then show "round_ok s (feed_payload E bs s)"
    and "feed_payload E bs s = Inr (st, rest, s1) \<Longrightarrow> length rest \<le> length bs
      \<and> (bs \<noteq> [] \<longrightarrow> GetRemainingSpace (sk_packetBuffer s) > 0 \<longrightarrow> length rest < length bs)"
    by blast+
qed

lemma feed_round_ok:
  assumes "buffers_ok s" and "between_rounds s" and "bs \<noteq> []"
  shows "round_ok s (feed_round E bs s)"
    and "feed_round E bs s = Inr (st, rest, s1) \<Longrightarrow> length rest < length bs"
proof -
  have "round_ok s (feed_round E bs s) \<and> (feed_round E bs s = Inr (st, rest, s1) \<longrightarrow> length rest < length bs)"
  proof (cases "GetRemainingSpace (sk_headerBuffer s) > 0")
    case False
    then have "feed_round E bs s = feed_payload E bs s" "GetRemainingSpace (sk_packetBuffer s) > 0"
      using assms(2) by (auto simp: feed_round_def between_rounds_def)
    then show ?thesis using feed_payload_ok[OF assms(1)] False assms(3) by simp
  next
    case True
    show ?thesis
    proof (cases rule: feed_round_header[OF assms(1) True, where E = E and bs = bs])
      case (1 h)
      then show ?thesis using assms(3) by (auto simp: round_ok_def between_rounds_def IsOpen_def)
    next
      case (2 s2)
      have "buffers_ok (CloseSocket s2)" using 2(3) by (simp add: buffers_ok_def)
      then show ?thesis using 2(1,4,5) 2(2)[of "[]"] True by (auto simp: round_ok_def ReadHandlers_keep(1))
    next
      case (3 s2)
      have "round_ok s (feed_round E bs s)"
        using feed_payload_ok(1)[OF 3(3,4), of E] 3(2)[of "[]"] 3(5-7) round_ok_cong[of s s2] by simp
      moreover have "length rest < length bs" if "feed_round E bs s = Inr (st, rest, s1)"
      proof -
        have "length rest \<le> length (drop (GetRemainingSpace (sk_headerBuffer s)) bs)"
          using feed_payload_ok(2)[OF 3(3,4), where E = E and st = st and rest = rest and ?s1.0 = s1
              and bs = "drop (GetRemainingSpace (sk_headerBuffer s)) bs"] that 3(2)[of "[]"] by simp
        also have "\<dots> < length bs" using True assms(3) 3(1) unfolding length_drop by linarith
        finally show ?thesis .
      qed
      ultimately show ?thesis by blast
    qed
  qed
  then show "round_ok s (feed_round E bs s)"
    and "feed_round E bs s = Inr (st, rest, s1) \<Longrightarrow> length rest < length bs" by blast+
qed

subsection \<open>The loop\<close>

fun feed_loop :: "'c socket_env \<Rightarrow> nat \<Rightarrow> u8 list \<Rightarrow> 'c WorldSocket \<Rightarrow> run_error + (bool \<times> u8 list \<times> 'c WorldSocket)" where
  "feed_loop E 0 bs s = Inl OutOfFuel"
| "feed_loop E (Suc k) bs s =
     (if bs \<noteq> [] then
        (case feed_round E bs s of
           Inl e \<Rightarrow> Inl e
         | Inr (RS_Wait, rest, s1) \<Rightarrow> Inr (True, rest, s1)
         | Inr (RS_Continue, rest, s1) \<Rightarrow> feed_loop E k rest s1
         | Inr (RS_Return, rest, s1) \<Rightarrow> Inr (False, rest, s1))
      else Inr (True, [], s))"

definition feed :: "'c socket_env \<Rightarrow> u8 list \<Rightarrow> 'c WorldSocket \<Rightarrow> run_error + (bool \<times> u8 list \<times> 'c WorldSocket)" where
  "feed E bs s = feed_loop E (Suc (length bs)) bs s"

lemma feed_round_good:
  assumes "buffers_ok s" and "between_rounds s" and "bs \<noteq> []" and "feed_round E bs s = Inr (st, rest, s1)"
  shows "buffers_ok s1" "st \<noteq> RS_Return \<Longrightarrow> between_rounds s1" "length rest < length bs" "st = RS_Wait \<Longrightarrow> rest = []"
    "sk_authed s1 = sk_authed s" "sk_reading s1 = sk_reading s" "st \<noteq> RS_Return \<Longrightarrow> IsOpen s1 = IsOpen s"
    "between_rounds s1 \<or> \<not> IsOpen s1"
  using feed_round_ok(1)[OF assms(1-3), of E] feed_round_ok(2)[OF assms] assms(4) by (auto simp: round_ok_def)

lemma feed_loop_enough:
  assumes "buffers_ok s" and "between_rounds s" and "k > length bs" and "j > length bs"
  shows "feed_loop E k bs s = feed_loop E j bs s"
  using assms
proof (induction "length bs" arbitrary: bs s k j rule: less_induct)
  case less
  obtain k' j' where kj: "k = Suc k'" "j = Suc j'" using less.prems(3,4) by (cases k; cases j) auto
  show ?case
  proof (cases "bs = []")
    case False
    have "feed_loop E k' rest s1 = feed_loop E j' rest s1" if "feed_round E bs s = Inr (RS_Continue, rest, s1)" for rest s1
      using feed_round_good[OF less.prems(1,2) False that] less.prems(3,4) kj by (intro less.hyps) simp_all
    then show ?thesis by (simp add: kj split: sum.split ReadStep.split)
  qed (simp add: kj)
qed

lemma feed_unfold:
  assumes "buffers_ok s" and "between_rounds s"
  shows "feed E bs s =
     (if bs \<noteq> [] then
        (case feed_round E bs s of
           Inl e \<Rightarrow> Inl e
         | Inr (RS_Wait, rest, s1) \<Rightarrow> Inr (True, rest, s1)
         | Inr (RS_Continue, rest, s1) \<Rightarrow> feed E rest s1
         | Inr (RS_Return, rest, s1) \<Rightarrow> Inr (False, rest, s1))
      else Inr (True, [], s))"
proof (cases "bs = []")
  case False
  have "feed_loop E (length bs) rest s1 = feed E rest s1" if "feed_round E bs s = Inr (RS_Continue, rest, s1)" for rest s1
    using feed_loop_enough[of s1 rest "length bs" "Suc (length rest)" E] feed_round_good[OF assms False that]
    by (simp add: feed_def)
  then show ?thesis by (auto simp: feed_def split: sum.split ReadStep.split)
qed (simp add: feed_def)

lemma feed_append:
  assumes "buffers_ok s" and "between_rounds s"
  shows "feed E (a @ b) s =
     (case feed E a s of
        Inl e \<Rightarrow> Inl e
      | Inr (True, rest, s1) \<Rightarrow> feed E b s1
      | Inr (False, rest, s1) \<Rightarrow> Inr (False, rest @ b, s1))"
  using assms
proof (induction "length a" arbitrary: a s rule: less_induct)
  case less
  show ?case
  proof (cases "a = []")
    case True
    then show ?thesis by (simp add: feed_unfold[OF less.prems, of E "[]"])
  next
    case False
    note app = feed_round_append[OF less.prems, of E a b]
    note unf = feed_unfold[OF less.prems, of E "a @ b"] feed_unfold[OF less.prems, of E a]
    show ?thesis
    proof (cases "feed_round E a s")
      case (Inl e)
      then show ?thesis using False app unf by (simp add: longer_def)
    next
      case (Inr x)
      then obtain st rest s1 where r: "feed_round E a s = Inr (st, rest, s1)" by (cases x) auto
      note good = feed_round_good[OF less.prems False r]
      show ?thesis
      proof (cases st)
        case RS_Wait
        have wait: "feed E a s = Inr (True, [], s1)" using unf(2) False r good(4) RS_Wait by simp
        show ?thesis
        proof (cases "b = []")
          case True
          then show ?thesis using wait good RS_Wait by (simp add: feed_unfold[of s1 E "[]"])
        next
          case False
          then show ?thesis
            using app unf(1) r good RS_Wait feed_unfold[of s1 E b] by (simp add: wait longer_def)
        qed
      next
        case RS_Continue
        then show ?thesis
          using False app unf r good less.hyps[of rest s1] by (simp add: longer_def)
      next
        case RS_Return
        then show ?thesis using False app unf r by (simp add: longer_def)
      qed
    qed
  qed
qed

text \<open>The result of the loop: the invariant, nothing left while the socket goes on reading, and no fuel needed beyond.\<close>

lemma feed_good:
  assumes "buffers_ok s" and "between_rounds s"
  shows "case feed E bs s of
           Inl e \<Rightarrow> e = ServerAborts (InPacket CMSG_AUTH_SESSION) \<and> \<not> sk_authed s
         | Inr (again, rest, s1) \<Rightarrow> buffers_ok s1 \<and> (between_rounds s1 \<or> \<not> IsOpen s1) \<and> sk_authed s1 = sk_authed s
             \<and> sk_reading s1 = sk_reading s \<and> (again \<longrightarrow> rest = [] \<and> between_rounds s1 \<and> IsOpen s1 = IsOpen s)"
  using assms
proof (induction "length bs" arbitrary: bs s rule: less_induct)
  case less
  show ?case
  proof (cases "bs = []")
    case True
    then show ?thesis using less.prems by (simp add: feed_unfold)
  next
    case False
    show ?thesis
    proof (cases "feed_round E bs s")
      case (Inl e)
      then show ?thesis
        using feed_round_ok(1)[OF less.prems False, of E] False by (simp add: feed_unfold[OF less.prems] round_ok_def)
    next
      case (Inr x)
      then obtain st rest s1 where r: "feed_round E bs s = Inr (st, rest, s1)" by (cases x) auto
      note good = feed_round_good[OF less.prems False r]
      show ?thesis
      proof (cases st)
        case RS_Continue
        then show ?thesis
          using less.hyps[of rest s1] good False r by (auto simp: feed_unfold[OF less.prems] split: sum.splits)
      qed (use good False r in \<open>simp_all add: feed_unfold[OF less.prems]\<close>)
    qed
  qed
qed

subsection \<open>The read buffer\<close>

text \<open>The loop of the code is the loop over the bytes in the read buffer: no handler looks at the buffer.\<close>

definition on_socket :: "('c WorldSocket \<Rightarrow> 'c WorldSocket) \<Rightarrow> 'e + ('a \<times> 'c WorldSocket) \<Rightarrow> 'e + ('a \<times> 'c WorldSocket)" where
  "on_socket f r = (case r of Inl e \<Rightarrow> Inl e | Inr (x, s) \<Rightarrow> Inr (x, f s))"

abbreviation put_read :: "MessageBuffer \<Rightarrow> 'c WorldSocket \<Rightarrow> 'c WorldSocket" where
  "put_read b s \<equiv> s\<lparr>sk_readBuffer := b\<rparr>"

lemma put_read_out:
  "(put_read b s)\<lparr>sk_packetBuffer := p\<rparr> = put_read b (s\<lparr>sk_packetBuffer := p\<rparr>)"
  "(put_read b s)\<lparr>sk_headerBuffer := p\<rparr> = put_read b (s\<lparr>sk_headerBuffer := p\<rparr>)"
  "(put_read b s)\<lparr>sk_worldSession := w\<rparr> = put_read b (s\<lparr>sk_worldSession := w\<rparr>)"
  by (cases s; simp)+

lemma CloseSocket_put_read: "CloseSocket (put_read b s) = put_read b (CloseSocket s)"
  by (simp add: CloseSocket_def)

lemma ReadHeaderHandler_put_read: "ReadHeaderHandler E (put_read b s) = on_socket (put_read b) (ReadHeaderHandler E s)"
  by (simp add: ReadHeaderHandler_def on_socket_def Let_def split: prod.split)

lemma HandlePing_put_read: "HandlePing E p (put_read b s) = on_socket (put_read b) (HandlePing E p s)"
proof -
  have "ping_too_fast E (put_read b s) = (case ping_too_fast E s of (s1, fast) \<Rightarrow> (put_read b s1, fast))"
    by (simp add: ping_too_fast_def Let_def)
  moreover have "SendPacket opc bs (put_read b t) = put_read b (SendPacket opc bs t)" for opc bs t
    by (simp add: SendPacket_def IsOpen_def)
  ultimately show ?thesis
    by (auto simp: HandlePing_def on_socket_def Let_def put_read_out split: sum.splits prod.splits bool.splits option.splits)
qed

lemma ReadDataHandler_put_read: "ReadDataHandler E (put_read b s) = on_socket (put_read b) (ReadDataHandler E s)"
proof -
  have "caught oc (case HandlePing E p (put_read b s) of Inl e \<Rightarrow> Inl e | Inr (ok, s2) \<Rightarrow> Inr (if ok then RD_Ok else RD_Error, s2)) (put_read b s)
      = on_socket (put_read b) (caught oc (case HandlePing E p s of Inl e \<Rightarrow> Inl e | Inr (ok, s2) \<Rightarrow> Inr (if ok then RD_Ok else RD_Error, s2)) s)"
    for oc p s
    by (auto simp: HandlePing_put_read on_socket_def caught_def split: sum.splits buf_error.splits)
  moreover have "caught oc (case HandleAuthSession E p (put_read b s) of Inl e \<Rightarrow> Inl e | Inr s2 \<Rightarrow> Inr (RD_WaitingForQuery, s2)) (put_read b s)
      = on_socket (put_read b) (caught oc (case HandleAuthSession E p s of Inl e \<Rightarrow> Inl e | Inr s2 \<Rightarrow> Inr (RD_WaitingForQuery, s2)) s)"
    for oc p s
    by (auto simp: HandleAuthSession_def on_socket_def caught_def split: sum.splits buf_error.splits)
  ultimately show ?thesis
    by (simp add: ReadDataHandler_def Let_def buffer_of_message_def put_read_out)
      (simp add: on_socket_def Let_def put_read_out split: option.split)
qed

text \<open>Without the read buffer: \<open>b\<close> in its place, and the bytes in it as a list.\<close>

definition unbuffered :: "MessageBuffer \<Rightarrow> 'e + ('a \<times> 'c WorldSocket) \<Rightarrow> 'e + ('a \<times> u8 list \<times> 'c WorldSocket)" where
  "unbuffered b r =
     (case r of Inl e \<Rightarrow> Inl e | Inr (x, s) \<Rightarrow> Inr (x, mb_data (sk_readBuffer s), put_read b s))"

definition keeps_read :: "'c WorldSocket \<Rightarrow> 'e + ('a \<times> 'c WorldSocket) \<Rightarrow> bool" where
  "keeps_read s r \<longleftrightarrow> (case r of Inl e \<Rightarrow> True
     | Inr (x, s1) \<Rightarrow> mb_ok (sk_readBuffer s1) \<and> length (mb_storage (sk_readBuffer s1)) = length (mb_storage (sk_readBuffer s)))"

lemma keeps_read_cong:
  "length (mb_storage (sk_readBuffer s)) = length (mb_storage (sk_readBuffer t)) \<Longrightarrow> keeps_read s r = keeps_read t r"
  by (simp add: keeps_read_def split: sum.split)

lemma take_over_bytes:
  assumes "mb_ok packet" and "mb_ok dest"
  defines "n \<equiv> min (GetActiveSize packet) (GetRemainingSpace dest)"
  shows "take_over packet dest = map_option (Pair (ReadCompleted n packet)) (mb_Write (take n (mb_data packet)) dest)"
    and "mb_ok (ReadCompleted n packet)" and "mb_data (ReadCompleted n packet) = drop n (mb_data packet)"
    and "GetActiveSize (ReadCompleted n packet) = 0 \<longleftrightarrow> n = length (mb_data packet)"
    and "n = min (length (mb_data packet)) (GetRemainingSpace dest)"
    and "length (mb_storage (ReadCompleted n packet)) = length (mb_storage packet)"
proof -
  have n: "n \<le> GetActiveSize packet" by (simp add: n_def)
  show "take_over packet dest = map_option (Pair (ReadCompleted n packet)) (mb_Write (take n (mb_data packet)) dest)"
    by (simp add: take_over_def Let_def n_def[symmetric] read_at_data[OF assms(1) n] split: option.split)
  show "GetActiveSize (ReadCompleted n packet) = 0 \<longleftrightarrow> n = length (mb_data packet)"
    using n by (auto simp: ReadCompleted_ok(3) length_mb_data[OF assms(1)])
  show "n = min (length (mb_data packet)) (GetRemainingSpace dest)"
    by (simp add: n_def length_mb_data[OF assms(1)])
qed (simp_all add: ReadCompleted_ok assms n_def, simp add: ReadCompleted_def)

lemma finish_packet_unbuffered:
  assumes "mb_ok (sk_readBuffer s)"
  shows "with_rest (mb_data (sk_readBuffer s)) (finish_packet E (put_read b s)) = unbuffered b (finish_packet E s)"
    and "keeps_read s (finish_packet E s)"
proof -
  show "keeps_read s (finish_packet E s)"
  proof (cases "ReadDataHandler E s")
    case (Inr x)
    then show ?thesis
      using ReadDataHandler_buffers(3)[of E s "fst x" "snd x"] assms
      by (cases x) (auto simp: finish_packet_def keeps_read_def Let_def)
  qed (simp add: finish_packet_def keeps_read_def)
  show "with_rest (mb_data (sk_readBuffer s)) (finish_packet E (put_read b s)) = unbuffered b (finish_packet E s)"
  proof (cases "ReadDataHandler E s")
    case (Inr x)
    then obtain r s1 where "ReadDataHandler E s = Inr (r, s1)" by (cases x) auto
    then show ?thesis
      using ReadDataHandler_buffers(3)[of E s r s1]
      by (simp add: finish_packet_def with_rest_def unbuffered_def Let_def ReadDataHandler_put_read on_socket_def put_read_out
          CloseSocket_put_read)
  qed (simp add: finish_packet_def with_rest_def unbuffered_def ReadDataHandler_put_read on_socket_def)
qed

lemma read_payload_unbuffered:
  assumes "mb_ok (sk_readBuffer s)" and "mb_ok (sk_packetBuffer s)"
  shows "feed_payload E (mb_data (sk_readBuffer s)) (put_read b s) = unbuffered b (read_payload E s)"
    and "keeps_read s (read_payload E s)"
proof -
  define n where "n = min (GetActiveSize (sk_readBuffer s)) (GetRemainingSpace (sk_packetBuffer s))"
  note t = take_over_bytes[OF assms, folded n_def]
  let ?w = "mb_Write (take n (mb_data (sk_readBuffer s))) (sk_packetBuffer s)"
  let ?s = "\<lambda>p. s\<lparr>sk_readBuffer := ReadCompleted n (sk_readBuffer s), sk_packetBuffer := p\<rparr>"
  have f: "with_rest (drop n (mb_data (sk_readBuffer s))) (finish_packet E (put_read b (s\<lparr>sk_packetBuffer := p\<rparr>)))
      = unbuffered b (finish_packet E (?s p))" "keeps_read s (finish_packet E (?s p))" for p
    using finish_packet_unbuffered(1)[of "?s p" E b] finish_packet_unbuffered(2)[of "?s p" E] t(2,3,6)
    by (simp_all add: put_read_out keeps_read_cong[of s "?s p"])
  show "feed_payload E (mb_data (sk_readBuffer s)) (put_read b s) = unbuffered b (read_payload E s)"
    using finish_packet_unbuffered(1)[OF assms(1), of E b]
    by (simp add: feed_payload_def read_payload_def Let_def t(5)[symmetric] t(1,4) put_read_out f(1) split: option.split)
      (simp add: unbuffered_def ReadCompleted_ok(2))
  show "keeps_read s (read_payload E s)"
    using finish_packet_unbuffered(2)[OF assms(1), of E] f(2) t(2,6)
    by (simp add: read_payload_def Let_def t(1) split: option.split) (simp add: keeps_read_def)
qed

lemma read_round_unbuffered:
  assumes "mb_ok (sk_readBuffer s)" and "buffers_ok s"
  shows "feed_round E (mb_data (sk_readBuffer s)) (put_read b s) = unbuffered b (read_round E s)"
    and "keeps_read s (read_round E s)"
proof -
  have ok: "mb_ok (sk_packetBuffer s)" "mb_ok (sk_headerBuffer s)" using assms(2) by (simp_all add: buffers_ok_def)
  note payload = read_payload_unbuffered(1)[OF assms(1) ok(1), of E b] read_payload_unbuffered(2)[OF assms(1) ok(1), of E]
  define n where "n = min (GetActiveSize (sk_readBuffer s)) (GetRemainingSpace (sk_headerBuffer s))"
  note t = take_over_bytes[OF assms(1) ok(2), folded n_def]
  let ?s = "\<lambda>p. s\<lparr>sk_readBuffer := ReadCompleted n (sk_readBuffer s), sk_headerBuffer := p\<rparr>"
  have after: "feed_payload E (drop n (mb_data (sk_readBuffer s))) (put_read b s2) = unbuffered b (read_payload E s2)"
    "keeps_read s (read_payload E s2)" "sk_readBuffer s2 = ReadCompleted n (sk_readBuffer s)"
    if r: "ReadHeaderHandler E (?s p) = Inr (ok, s2)" "GetRemainingSpace (sk_headerBuffer s) > 0" for p ok s2
  proof -
    have "mb_wpos (sk_packetBuffer s) = 0" "mb_rpos (sk_packetBuffer s) = 0"
      using assms(2) r(2) by (simp_all add: buffers_ok_def)
    then have "sk_readBuffer s2 = ReadCompleted n (sk_readBuffer s)" "mb_ok (sk_packetBuffer s2)"
      using r(1) by (auto simp: ReadHeaderHandler_def Let_def mb_ok_def mb_Resize_def split: if_splits prod.splits)
    then show "feed_payload E (drop n (mb_data (sk_readBuffer s))) (put_read b s2) = unbuffered b (read_payload E s2)"
      "keeps_read s (read_payload E s2)" "sk_readBuffer s2 = ReadCompleted n (sk_readBuffer s)"
      using read_payload_unbuffered(1)[of s2 E b] read_payload_unbuffered(2)[of s2 E] t(2,3,6)
      by (simp_all add: keeps_read_cong[of s s2])
  qed
  have header: "ReadHeaderHandler E (put_read b (s\<lparr>sk_headerBuffer := p\<rparr>)) = on_socket (put_read b) (ReadHeaderHandler E (?s p))" for p
    using ReadHeaderHandler_put_read[of E b "?s p"] by (simp add: put_read_out)
  have "feed_round E (mb_data (sk_readBuffer s)) (put_read b s) = unbuffered b (read_round E s) \<and> keeps_read s (read_round E s)"
  proof (cases "GetRemainingSpace (sk_headerBuffer s) > 0")
    case False
    then show ?thesis by (simp add: feed_round_def read_round_def payload)
  next
    case True
    let ?data = "mb_data (sk_readBuffer s)" and ?read = "ReadCompleted n (sk_readBuffer s)"
    have kept: "keeps_read s (Inr (st, s1))" if "sk_readBuffer s1 = ?read" for st :: ReadStep and s1
      using that t(2,6) by (simp add: keeps_read_def)
    have stop: "keeps_read s (Inl e)" for e :: run_error by (simp add: keeps_read_def)
    show ?thesis
    proof (cases "mb_Write (take n ?data) (sk_headerBuffer s)")
      case None
      then show ?thesis
        using True by (simp add: feed_round_def read_round_def Let_def t(5)[symmetric] t(1) unbuffered_def stop)
    next
      case (Some p)
      have round: "read_round E s =
          (if GetRemainingSpace p > 0 then (if n = length ?data then Inr (RS_Wait, ?s p) else Inl (ServerAborts HeaderBytesLeft))
           else case ReadHeaderHandler E (?s p) of
                  Inl e \<Rightarrow> Inl e
                | Inr (False, s2) \<Rightarrow> Inr (RS_Return, CloseSocket s2)
                | Inr (True, s2) \<Rightarrow> read_payload E s2)"
        using True Some by (simp add: read_round_def Let_def t(1,4))
      have fround: "feed_round E ?data (put_read b s) =
          (if GetRemainingSpace p > 0 then (if n = length ?data then Inr (RS_Wait, [], put_read b (?s p)) else Inl (ServerAborts HeaderBytesLeft))
           else case on_socket (put_read b) (ReadHeaderHandler E (?s p)) of
                  Inl e \<Rightarrow> Inl e
                | Inr (False, s2) \<Rightarrow> Inr (RS_Return, drop n ?data, CloseSocket s2)
                | Inr (True, s2) \<Rightarrow> feed_payload E (drop n ?data) s2)"
        using True Some by (simp add: feed_round_def Let_def t(5)[symmetric] put_read_out header)
      show ?thesis
      proof (cases "GetRemainingSpace p > 0")
        case True
        then show ?thesis
          by (simp add: round fround unbuffered_def kept stop put_read_out ReadCompleted_ok(2))
      next
        case False
        show ?thesis
        proof (cases "ReadHeaderHandler E (?s p)")
          case (Inl e)
          then show ?thesis using False by (simp add: round fround on_socket_def unbuffered_def stop)
        next
          case (Inr x)
          then obtain ok s2 where r: "ReadHeaderHandler E (?s p) = Inr (ok, s2)" by (cases x) auto
          note a = after[OF r True]
          show ?thesis
            using False a r by (cases ok) (simp_all add: round fround on_socket_def unbuffered_def CloseSocket_put_read kept t(3))
        qed
      qed
    qed
  qed
  then show "feed_round E (mb_data (sk_readBuffer s)) (put_read b s) = unbuffered b (read_round E s)"
    and "keeps_read s (read_round E s)" by blast+
qed

lemma buffers_put_read [simp]:
  "buffers_ok (put_read b s) = buffers_ok s" "between_rounds (put_read b s) = between_rounds s"
  "IsOpen (put_read b s) = IsOpen s"
  by (simp_all add: buffers_ok_def between_rounds_def IsOpen_def)

lemma read_loop_unbuffered:
  assumes "mb_ok (sk_readBuffer s)" and "buffers_ok s" and "between_rounds s"
  shows "feed_loop E k (mb_data (sk_readBuffer s)) (put_read b s) = unbuffered b (read_loop E k s)
    \<and> keeps_read s (read_loop E k s)"
  using assms
proof (induction k arbitrary: s)
  case 0
  then show ?case by (simp add: unbuffered_def keeps_read_def)
next
  case (Suc k)
  let ?data = "mb_data (sk_readBuffer s)"
  have active: "GetActiveSize (sk_readBuffer s) > 0 \<longleftrightarrow> ?data \<noteq> []" unfolding length_mb_data[OF Suc.prems(1), symmetric] by simp
  note round = read_round_unbuffered[OF Suc.prems(1,2), of E]
  show ?case
  proof (cases "?data = []")
    case True
    then show ?thesis using Suc.prems(1) active by (simp add: unbuffered_def keeps_read_def)
  next
    case False
    show ?thesis
    proof (cases "read_round E s")
      case (Inl e)
      then show ?thesis using round(1)[of b] False active by (simp add: unbuffered_def keeps_read_def)
    next
      case (Inr x)
      then obtain st s1 where r: "read_round E s = Inr (st, s1)" by (cases x) auto
      then have f: "feed_round E ?data (put_read b s) = Inr (st, mb_data (sk_readBuffer s1), put_read b s1)"
        using round(1)[of b] by (simp add: unbuffered_def)
      have k: "mb_ok (sk_readBuffer s1)" "length (mb_storage (sk_readBuffer s1)) = length (mb_storage (sk_readBuffer s))"
        using round(2) r by (simp_all add: keeps_read_def)
      note good = feed_round_good[OF _ _ False f]
      show ?thesis
      proof (cases "st = RS_Continue")
        case True
        then show ?thesis
          using Suc.IH[OF k(1)] good(1,2) Suc.prems(2,3) keeps_read_cong[OF k(2), of "read_loop E k s1"] f r False active
          by simp
      next
        case False
        then show ?thesis using f r k active \<open>?data \<noteq> []\<close> by (cases st) (simp_all add: unbuffered_def keeps_read_def)
      qed
    qed
  qed
qed

text \<open>What a read does, without the layout of the read buffer.\<close>

definition observe :: "run_error + 'c WorldSocket \<Rightarrow> run_error + (u8 list \<times> 'c WorldSocket)" where
  "observe r = (case r of Inl e \<Rightarrow> Inl e | Inr s \<Rightarrow> Inr (mb_data (sk_readBuffer s), put_read (mk_MessageBuffer 0) s))"

definition socket_ok :: "'c WorldSocket \<Rightarrow> bool" where
  "socket_ok s \<longleftrightarrow> mb_ok (sk_readBuffer s) \<and> length (mb_storage (sk_readBuffer s)) \<ge> 2 \<and> buffers_ok s
     \<and> (IsOpen s \<longrightarrow> between_rounds s)"

lemma AsyncRead_buffer:
  assumes "mb_ok (sk_readBuffer s)" and "length (mb_storage (sk_readBuffer s)) \<ge> 2" and "IsOpen s"
  shows "mb_ok (sk_readBuffer (AsyncRead s))" and "mb_data (sk_readBuffer (AsyncRead s)) = mb_data (sk_readBuffer s)"
    and "length (mb_storage (sk_readBuffer (AsyncRead s))) \<ge> length (mb_storage (sk_readBuffer s))"
    and "GetRemainingSpace (sk_readBuffer (AsyncRead s)) > 0"
    and "mb_data (sk_readBuffer s) = [] \<Longrightarrow> GetRemainingSpace (sk_readBuffer (AsyncRead s)) \<ge> length (mb_storage (sk_readBuffer s))"
    and "put_read b (AsyncRead s) = put_read b (s\<lparr>sk_reading := True\<rparr>)"
proof -
  let ?n = "Normalize (sk_readBuffer s)"
  have a: "sk_readBuffer (AsyncRead s) = EnsureFreeSpace ?n" using assms(3) by (simp add: AsyncRead_def)
  note n = Normalize_ok[OF assms(1)]
  note e = EnsureFreeSpace_ok[OF n(1)]
  have len: "length (mb_storage (EnsureFreeSpace ?n)) \<ge> length (mb_storage (sk_readBuffer s))"
    using n(3) div_le_mono[of "length (mb_storage (sk_readBuffer s)) * 2" "length (mb_storage (sk_readBuffer s)) * 3" 2]
    by (simp add: EnsureFreeSpace_def mb_Resize_def)
  show "mb_ok (sk_readBuffer (AsyncRead s))" "mb_data (sk_readBuffer (AsyncRead s)) = mb_data (sk_readBuffer s)"
    "length (mb_storage (sk_readBuffer (AsyncRead s))) \<ge> length (mb_storage (sk_readBuffer s))"
    "GetRemainingSpace (sk_readBuffer (AsyncRead s)) > 0"
    using a n e assms(2) len by simp_all
  show "GetRemainingSpace (sk_readBuffer (AsyncRead s)) \<ge> length (mb_storage (sk_readBuffer s))"
    if "mb_data (sk_readBuffer s) = []"
  proof -
    have "GetActiveSize (sk_readBuffer s) = 0" using length_mb_data[OF assms(1)] that by simp
    then have "mb_wpos ?n = 0" using assms(1) by (auto simp: Normalize_def mb_defs Let_def)
    then have "mb_wpos (EnsureFreeSpace ?n) = 0" by (simp add: EnsureFreeSpace_def mb_Resize_def)
    then show ?thesis using a len by (simp add: GetRemainingSpace_def)
  qed
  show "put_read b (AsyncRead s) = put_read b (s\<lparr>sk_reading := True\<rparr>)"
    using assms(3) by (simp add: AsyncRead_def)
qed

lemma put_read_twice [simp]: "put_read b (put_read b' s) = put_read b s"
  by simp

lemma receive_closed:
  assumes "socket_ok s" and "length bs \<le> GetRemainingSpace (sk_readBuffer s)" and "\<not> IsOpen s"
  obtains s1 where "ReadHandlerInternal E (Some bs) s = Inr s1" and "socket_ok s1" and "\<not> sk_reading s1"
    and "sk_authed s1 = sk_authed s" and "observe (Inr s1) = Inr (mb_data (sk_readBuffer s) @ bs, put_read (mk_MessageBuffer 0) (s\<lparr>sk_reading := False\<rparr>))"
proof -
  obtain b where b: "mb_Write bs (sk_readBuffer s) = Some b" "mb_ok b" "mb_data b = mb_data (sk_readBuffer s) @ bs"
    "length (mb_storage b) = length (mb_storage (sk_readBuffer s))"
    using mb_Write_ok[OF _ assms(2)] assms(1) by (auto simp: socket_ok_def)
  let ?s = "s\<lparr>sk_reading := False, sk_readBuffer := b\<rparr>"
  have "ReadHandlerInternal E (Some bs) s = Inr ?s"
    using b assms(3) by (simp add: ReadHandlerInternal_def ReadHandler_def IsOpen_def)
  moreover have "socket_ok ?s"
    using assms b by (simp add: socket_ok_def buffers_ok_def between_rounds_def IsOpen_def)
  ultimately show thesis using that[of ?s] b by (simp add: observe_def)
qed

lemma receive_open:
  fixes E :: "'c socket_env"
  assumes "socket_ok s" and "length bs \<le> GetRemainingSpace (sk_readBuffer s)" and "IsOpen s"
  defines "r \<equiv> feed E (mb_data (sk_readBuffer s) @ bs) (put_read (mk_MessageBuffer 0) (s\<lparr>sk_reading := False\<rparr>))"
  shows "observe (ReadHandlerInternal E (Some bs) s) =
      (case r of Inl e \<Rightarrow> Inl e | Inr (again, rest, s1) \<Rightarrow> Inr (rest, if again then s1\<lparr>sk_reading := True\<rparr> else s1))"
    and "ReadHandlerInternal E (Some bs) s = Inr s1 \<Longrightarrow> socket_ok s1 \<and> sk_authed s1 = sk_authed s \<and> (sk_reading s1 \<longrightarrow>
        IsOpen s1 \<and> 0 < GetRemainingSpace (sk_readBuffer s1) \<and> mb_data (sk_readBuffer s1) = []
        \<and> length (mb_storage (sk_readBuffer s)) \<le> GetRemainingSpace (sk_readBuffer s1))"
proof -
  obtain b where b: "mb_Write bs (sk_readBuffer s) = Some b" "mb_ok b" "mb_data b = mb_data (sk_readBuffer s) @ bs"
    "length (mb_storage b) = length (mb_storage (sk_readBuffer s))"
    using mb_Write_ok[OF _ assms(2)] assms(1) by (auto simp: socket_ok_def)
  let ?b0 = "mk_MessageBuffer 0" and ?s = "s\<lparr>sk_reading := False, sk_readBuffer := b\<rparr>"
  have ok: "buffers_ok ?s" "between_rounds ?s" "IsOpen ?s"
    using assms(1,3) by (simp_all add: socket_ok_def buffers_ok_def between_rounds_def IsOpen_def)
  have len: "Suc (GetActiveSize b) = Suc (length (mb_data (sk_readBuffer s) @ bs))"
    using length_mb_data[OF b(2)] b(3) by simp
  define l where "l = read_loop E (Suc (GetActiveSize b)) ?s"
  have r: "r = unbuffered ?b0 l" and keep: "keeps_read ?s l"
    using read_loop_unbuffered[OF _ ok(1,2), of E "Suc (GetActiveSize b)" ?b0] b(2,3) len
    by (simp_all add: r_def feed_def l_def)
  have handler: "ReadHandlerInternal E (Some bs) s =
      (case l of Inl e \<Rightarrow> Inl e | Inr (again, s1) \<Rightarrow> Inr (if again then AsyncRead s1 else s1))"
    using b(1) ok(3) by (simp add: ReadHandlerInternal_def ReadHandler_def l_def)
  have good: "case r of
      Inl e \<Rightarrow> e = ServerAborts (InPacket CMSG_AUTH_SESSION) \<and> \<not> sk_authed s
    | Inr (again, rest, s1) \<Rightarrow> buffers_ok s1 \<and> (between_rounds s1 \<or> \<not> IsOpen s1) \<and> sk_authed s1 = sk_authed s
             \<and> \<not> sk_reading s1 \<and> (again \<longrightarrow> rest = [] \<and> between_rounds s1 \<and> IsOpen s1)"
    using feed_good[of "put_read ?b0 (s\<lparr>sk_reading := False\<rparr>)" E "mb_data (sk_readBuffer s) @ bs"] ok
    by (simp add: r_def buffers_ok_def between_rounds_def IsOpen_def cong: sum.case_cong)
  show "observe (ReadHandlerInternal E (Some bs) s) =
      (case r of Inl e \<Rightarrow> Inl e | Inr (again, rest, s1) \<Rightarrow> Inr (rest, if again then s1\<lparr>sk_reading := True\<rparr> else s1))"
  proof (cases l)
    case (Inl e)
    then show ?thesis by (simp add: handler r unbuffered_def observe_def)
  next
    case (Inr x)
    then obtain again s1 where l1: "l = Inr (again, s1)" by (cases x) auto
    have "mb_ok (sk_readBuffer s1)" "length (mb_storage (sk_readBuffer s1)) \<ge> 2" "again \<Longrightarrow> IsOpen s1"
      using keep good b(4) assms(1) by (simp_all add: l1 r keeps_read_def unbuffered_def socket_ok_def)
    note a = AsyncRead_buffer[OF this(1,2)]
    then show ?thesis
      using \<open>again \<Longrightarrow> IsOpen s1\<close> by (cases again) (simp_all add: handler r l1 unbuffered_def observe_def)
  qed
  show "socket_ok s1 \<and> sk_authed s1 = sk_authed s \<and> (sk_reading s1 \<longrightarrow>
        IsOpen s1 \<and> 0 < GetRemainingSpace (sk_readBuffer s1) \<and> mb_data (sk_readBuffer s1) = []
        \<and> length (mb_storage (sk_readBuffer s)) \<le> GetRemainingSpace (sk_readBuffer s1))"
    if res: "ReadHandlerInternal E (Some bs) s = Inr s1"
  proof -
    obtain again t where l1: "l = Inr (again, t)" and t: "s1 = (if again then AsyncRead t else t)"
      using res handler by (auto split: sum.splits)
    have k: "mb_ok (sk_readBuffer t)" "length (mb_storage (sk_readBuffer t)) \<ge> 2"
      "length (mb_storage (sk_readBuffer t)) = length (mb_storage (sk_readBuffer s))"
      using keep b(4) assms(1) by (simp_all add: l1 keeps_read_def socket_ok_def)
    have g: "buffers_ok t" "between_rounds t \<or> \<not> IsOpen t" "sk_authed t = sk_authed s" "\<not> sk_reading t"
      "again \<Longrightarrow> mb_data (sk_readBuffer t) = [] \<and> between_rounds t \<and> IsOpen t"
      using good by (simp_all add: r l1 unbuffered_def)
    show ?thesis
    proof (cases again)
      case False
      then show ?thesis using t k g by (auto simp: socket_ok_def)
    next
      case True
      have "buffers_ok (AsyncRead t) = buffers_ok t" "between_rounds (AsyncRead t) = between_rounds t"
        "IsOpen (AsyncRead t) = IsOpen t" "sk_authed (AsyncRead t) = sk_authed t"
        by (simp_all add: AsyncRead_def buffers_ok_def between_rounds_def IsOpen_def)
      then show ?thesis
        using True t k g AsyncRead_buffer[OF k(1,2)] by (simp add: socket_ok_def)
    qed
  qed
qed

section \<open>Properties of the receiving side\<close>

text \<open>A client and an environment for the witnesses: no encryption yet, one handled opcode.\<close>

definition sample_env :: "unit socket_env" where
  "sample_env = \<lparr>se_big = False, se_arc4 = (\<lambda>c bs. (bs, c)), se_now = 1000, se_maxOverspeedPings = 2, se_gameTime = 500,
     se_timeout = 60, se_timeoutActive = 600, se_hasHandler = (\<lambda>opc. opc = 0x37)\<rparr>"

definition sample_socket :: "unit WorldSocket" where
  "sample_socket = (mk_WorldSocket () 7)\<lparr>sk_reading := True, sk_readBuffer := mk_MessageBuffer 8,
     sk_headerBuffer := mk_MessageBuffer 6, sk_packetBuffer := mk_MessageBuffer 0\<rparr>"

lemma sample_socket_simps:
  "IsOpen sample_socket" "\<not> sk_authed sample_socket" "GetRemainingSpace (sk_readBuffer sample_socket) = 8"
  "socket_ok sample_socket" "sk_reading sample_socket" "mb_data (sk_readBuffer sample_socket) = []"
  by (simp_all add: sample_socket_def mk_WorldSocket_def IsOpen_def socket_ok_def buffers_ok_def between_rounds_def mb_defs)

text \<open>Property C12: it does not matter how the network cuts the bytes into pieces. A socket that has read \<open>a\<close>, asked
  for more and then reads \<open>b\<close> is, but for the layout of its read buffer, the socket that reads \<open>a\<close> and
  \<open>b\<close> at once: the same packets in the session's queue, the same answers queued, the same cipher state,
  the same end of the connection or of the server, for pieces that end anywhere in a header or payload.\<close>

theorem chunks_do_not_matter:
  assumes "socket_ok s" and "length a + length b \<le> GetRemainingSpace (sk_readBuffer s)"
    and "ReadHandlerInternal E (Some a) s = Inr s1" and "sk_reading s1"
  shows "observe (ReadHandlerInternal E (Some b) s1) = observe (ReadHandlerInternal E (Some (a @ b)) s)"
proof -
  let ?b0 = "mk_MessageBuffer 0" and ?d = "mb_data (sk_readBuffer s)"
  let ?s = "put_read ?b0 (s\<lparr>sk_reading := False\<rparr>)"
  have "IsOpen s"
    using assms(1-4) receive_closed[of s a E] by (cases "IsOpen s") auto
  note first = receive_open[OF assms(1) _ this, of a E] and both = receive_open(1)[OF assms(1) _ this, of "a @ b" E]
  have s1: "socket_ok s1" "IsOpen s1" "mb_data (sk_readBuffer s1) = []"
    "length (mb_storage (sk_readBuffer s)) \<le> GetRemainingSpace (sk_readBuffer s1)"
    using first(2)[OF _ assms(3)] assms(2,4) by simp_all
  have ok: "buffers_ok ?s" "between_rounds ?s"
    using assms(1) \<open>IsOpen s\<close> by (simp_all add: socket_ok_def buffers_ok_def between_rounds_def IsOpen_def)
  obtain again rest t where f: "feed E (?d @ a) ?s = Inr (again, rest, t)"
    using first(1) assms(2,3) by (cases "feed E (?d @ a) ?s") (auto simp: observe_def)
  then have t: "put_read ?b0 s1 = (if again then t\<lparr>sk_reading := True\<rparr> else t)" "\<not> sk_reading t" "again \<Longrightarrow> rest = []"
    using first(1) assms(2,3) feed_good[OF ok, of E "?d @ a"] by (simp_all add: observe_def)
  have "sk_reading (put_read ?b0 s1) \<longleftrightarrow> again \<or> sk_reading t" unfolding t(1) by simp
  then have again: "again" using t(2) assms(4) by simp
  have "put_read ?b0 (s1\<lparr>sk_reading := False\<rparr>) = (put_read ?b0 s1)\<lparr>sk_reading := False\<rparr>" by simp
  also have "\<dots> = t" using t again by (cases t) simp
  finally have state: "put_read ?b0 (s1\<lparr>sk_reading := False\<rparr>) = t" .
  have "length b \<le> GetRemainingSpace (sk_readBuffer s1)"
    using assms(2) s1(4) by (simp add: GetRemainingSpace_def)
  then have "observe (ReadHandlerInternal E (Some b) s1) =
      (case feed E b t of Inl e \<Rightarrow> Inl e | Inr (again, rest, s1) \<Rightarrow> Inr (rest, if again then s1\<lparr>sk_reading := True\<rparr> else s1))"
    using receive_open(1)[OF s1(1) _ s1(2), of b E] s1(3) state by simp
  also have "feed E b t = feed E (?d @ a @ b) ?s"
    using feed_append[OF ok, of E "?d @ a" b] f again by simp
  finally show ?thesis using both assms(2) by simp
qed

lemma sample_read:
  "\<exists>s1. ReadHandlerInternal sample_env (Some [0, 8, 55]) sample_socket = Inr s1 \<and> sk_reading s1"
  by (simp add: sample_socket_def mk_WorldSocket_def sample_env_def ReadHandlerInternal_def ReadHandler_def IsOpen_def
      mb_Write_def mb_defs read_round_def take_over_def AsyncRead_def Let_def eval_nat_numeral)

theorem chunks_do_not_matter_witness:
  "\<exists>s1. ReadHandlerInternal sample_env (Some [0, 8, 55]) sample_socket = Inr s1 \<and>
     observe (ReadHandlerInternal sample_env (Some [0, 0, 0]) s1) = observe (ReadHandlerInternal sample_env (Some [0, 8, 55, 0, 0, 0]) sample_socket)"
  using sample_read chunks_do_not_matter[of sample_socket "[0, 8, 55]" "[0, 0, 0]" sample_env] sample_socket_simps
  by auto

text \<open>Property C8: whatever bytes a client sends, the socket never reads or writes outside of its buffers, the
  loop over the received bytes ends, and the only assertion that can fail is one in handling the packet
  \<open>CMSG_AUTH_SESSION\<close> of a client that is not authenticated. Otherwise the buffers keep their invariant, and when the socket reads
  again there is room for at least one byte and no byte of the old ones is left.\<close>

theorem received_bytes_are_safe:
  assumes "socket_ok s" and "length bs \<le> GetRemainingSpace (sk_readBuffer s)"
  shows "case ReadHandlerInternal E (Some bs) s of
           Inl e \<Rightarrow> e = ServerAborts (InPacket CMSG_AUTH_SESSION) \<and> \<not> sk_authed s
         | Inr s1 \<Rightarrow> socket_ok s1 \<and> sk_authed s1 = sk_authed s \<and> (sk_reading s1 \<longrightarrow>
             IsOpen s1 \<and> 0 < GetRemainingSpace (sk_readBuffer s1) \<and> mb_data (sk_readBuffer s1) = [])"
proof (cases "ReadHandlerInternal E (Some bs) s")
  case (Inr s1)
  then show ?thesis
    using receive_closed[OF assms, of E] receive_open(2)[OF assms, of E s1] by (cases "IsOpen s") auto
next
  case (Inl e)
  then have "IsOpen s" using receive_closed[OF assms, of E] by (metis sum.distinct(1))
  have ok: "buffers_ok (put_read b (s\<lparr>sk_reading := False\<rparr>))" "between_rounds (put_read b (s\<lparr>sk_reading := False\<rparr>))" for b
    using assms(1) \<open>IsOpen s\<close> by (simp_all add: socket_ok_def buffers_ok_def between_rounds_def)
  show ?thesis
    using feed_good[OF ok, of "mk_MessageBuffer 0" E "mb_data (sk_readBuffer s) @ bs"] receive_open(1)[OF assms \<open>IsOpen s\<close>, of E] Inl
    by (auto simp: observe_def split: sum.splits)
qed

theorem received_bytes_are_safe_witness:
  "case ReadHandlerInternal sample_env (Some [0, 3, 55, 0, 0, 0]) sample_socket of
     Inl e \<Rightarrow> e = ServerAborts (InPacket CMSG_AUTH_SESSION) \<and> \<not> sk_authed sample_socket
   | Inr s1 \<Rightarrow> socket_ok s1 \<and> sk_authed s1 = sk_authed sample_socket \<and> (sk_reading s1 \<longrightarrow>
       IsOpen s1 \<and> 0 < GetRemainingSpace (sk_readBuffer s1) \<and> mb_data (sk_readBuffer s1) = [])"
  using received_bytes_are_safe[of sample_socket "[0, 3, 55, 0, 0, 0]" sample_env] sample_socket_simps by simp

subsection \<open>The authentication packet\<close>

text \<open>Reading has come to \<open>rest\<close>, and the account name is \<open>name\<close>.\<close>

definition read_up_to :: "u8 list \<Rightarrow> u8 list \<Rightarrow> buf_error + (AuthSession \<times> ByteBuffer) \<Rightarrow> bool" where
  "read_up_to name rest r \<longleftrightarrow>
     (\<exists>a p. r = Inr (a, p) \<and> as_Account a = name \<and> unread p = rest \<and> bb_rpos p \<le> length (bb_storage p))"

lemma read_bytes_rest:
  assumes "bb_rpos p \<le> length (bb_storage p)" and "n \<le> length (unread p)"
  shows "read_bytes n p = Inr (take n (unread p), p\<lparr>bb_rpos := bb_rpos p + n\<rparr>)"
    and "bb_rpos p + n \<le> length (bb_storage p)"
  using assms by (auto simp: read_bytes_iff unread_def)

lemma read_value_rest:
  assumes "bb_rpos p \<le> length (bb_storage p)" and "LENGTH('a::len) div 8 \<le> length (unread p)"
  obtains v where "read_value big p = Inr (v :: 'a word, p\<lparr>bb_rpos := bb_rpos p + LENGTH('a) div 8\<rparr>)"
  using read_bytes_rest(1)[OF assms] that by (simp add: read_value_def)

lemma next_u32_rest:
  assumes "read_up_to name rest r" and "4 \<le> length rest" and "\<And>v a. as_Account (upd v a) = as_Account a"
  shows "read_up_to name (drop 4 rest) (next_u32 big upd r)"
proof -
  obtain a p where r: "r = Inr (a, p)" "as_Account a = name" "unread p = rest" "bb_rpos p \<le> length (bb_storage p)"
    using assms(1) by (auto simp: read_up_to_def)
  obtain v :: u32 where "read_value big p = Inr (v, p\<lparr>bb_rpos := bb_rpos p + 4\<rparr>)"
    using read_value_rest[where 'a = 32, OF r(4), of big] assms(2) r(3) by auto
  then show ?thesis using r assms read_bytes_rest(2)[OF r(4), of 4] by (simp add: read_up_to_def next_u32_def)
qed

lemma next_u64_rest:
  assumes "read_up_to name rest r" and "8 \<le> length rest" and "\<And>v a. as_Account (upd v a) = as_Account a"
  shows "read_up_to name (drop 8 rest) (next_u64 big upd r)"
proof -
  obtain a p where r: "r = Inr (a, p)" "as_Account a = name" "unread p = rest" "bb_rpos p \<le> length (bb_storage p)"
    using assms(1) by (auto simp: read_up_to_def)
  obtain v :: u64 where "read_value big p = Inr (v, p\<lparr>bb_rpos := bb_rpos p + 8\<rparr>)"
    using read_value_rest[where 'a = 64, OF r(4), of big] assms(2) r(3) by auto
  then show ?thesis using r assms read_bytes_rest(2)[OF r(4), of 8] by (simp add: read_up_to_def next_u64_def)
qed

lemma next_string_rest:
  assumes "read_up_to name (str @ 0 # rest) r" and "0 \<notin> set str" and "\<And>a. as_Account (upd str a) = str"
  shows "read_up_to str rest (next_string upd r)"
proof -
  obtain a p where r: "r = Inr (a, p)" "unread p = str @ 0 # rest" "bb_rpos p \<le> length (bb_storage p)"
    using assms(1) by (auto simp: read_up_to_def)
  have "Suc (length str) \<le> length (unread p)" using r(2) by simp
  from read_bytes_rest(2)[OF r(3) this] show ?thesis
    using r assms(3) read_string_bytes[OF r(2) assms(2)] unread_advance[of p "Suc (length str)"]
    by (simp add: read_up_to_def next_string_def)
qed

lemma read_AuthSession_fields:
  assumes "bb_rpos p = 0" and "bb_storage p = build @ account @ 0 # nums @ addons"
    and "length build = 8" and "0 \<notin> set account" and "length nums = 48"
  obtains a where "read_AuthSession big p =
      (case append_bytes addons mk_ByteBuffer of Inl e \<Rightarrow> Inl e | Inr b \<Rightarrow> Inr (a\<lparr>as_AddonInfo := b\<rparr>))"
    and "as_Account a = account"
proof -
  define r2 where "r2 = next_u32 big (\<lambda>v a. a\<lparr>as_LoginServerID := v\<rparr>)
    (next_u32 big (\<lambda>v a. a\<lparr>as_Build := v\<rparr>) (Inr (mk_AuthSession, p)))"
  have "read_up_to [] (build @ account @ 0 # nums @ addons) (Inr (mk_AuthSession, p))"
    using assms(1,2) by (simp add: read_up_to_def unread_def mk_AuthSession_def)
  then have "read_up_to [] (drop 4 (drop 4 (build @ account @ 0 # nums @ addons))) r2"
    unfolding r2_def using assms(3) by (intro next_u32_rest) simp_all
  then have r2: "read_up_to [] (account @ 0 # nums @ addons) r2" using assms(3) by simp
  define r3 where "r3 = next_string (\<lambda>str a. a\<lparr>as_Account := str\<rparr>) r2"
  have r3: "read_up_to account (nums @ addons) r3"
    unfolding r3_def using r2 assms(4) by (intro next_string_rest[where name = "[]"]) simp_all
  define r9 where "r9 = next_u64 big (\<lambda>v a. a\<lparr>as_DosResponse := v\<rparr>) (next_u32 big (\<lambda>v a. a\<lparr>as_RealmID := v\<rparr>)
    (next_u32 big (\<lambda>v a. a\<lparr>as_BattlegroupID := v\<rparr>) (next_u32 big (\<lambda>v a. a\<lparr>as_RegionID := v\<rparr>)
    (next_u32 big (\<lambda>v a. a\<lparr>as_LocalChallenge := v\<rparr>) (next_u32 big (\<lambda>v a. a\<lparr>as_LoginServerType := v\<rparr>) r3)))))"
  have "read_up_to account (drop 8 (drop 4 (drop 4 (drop 4 (drop 4 (drop 4 (nums @ addons))))))) r9"
    unfolding r9_def using r3 assms(5) by (intro next_u32_rest next_u64_rest) simp_all
  then obtain a p1 where r9: "r9 = Inr (a, p1)" "as_Account a = account" "unread p1 = drop 28 nums @ addons"
    "bb_rpos p1 \<le> length (bb_storage p1)"
    using assms(5) by (auto simp: read_up_to_def)
  let ?p2 = "p1\<lparr>bb_rpos := bb_rpos p1 + 20\<rparr>"
  have digest: "read_bytes 20 p1 = Inr (drop 28 nums, ?p2)" "unread ?p2 = addons"
    using read_bytes_rest(1)[OF r9(4), of 20] r9(3) assms(5) by simp_all
  show thesis
  proof (rule that)
    show "read_AuthSession big p = (case append_bytes addons mk_ByteBuffer of Inl e \<Rightarrow> Inl e
        | Inr b \<Rightarrow> Inr ((a\<lparr>as_Digest := drop 28 nums\<rparr>)\<lparr>as_AddonInfo := b\<rparr>))"
      using digest r9(1) unfolding read_AuthSession_def Let_def r2_def[symmetric] r3_def[symmetric] r9_def[symmetric]
      by (simp add: unread_def)
    show "as_Account (a\<lparr>as_Digest := drop 28 nums\<rparr>) = account" using r9(2) by simp
  qed
qed

text \<open>Property C24: the authentication packet of a client that is not authenticated. With the fields of the protocol
  the account is looked up under the name in the packet, with the bytes behind the fields as the addons. When
  the packet ends right behind the digest, with no addon bytes, an assertion fails and the server process
  ends, although the client need not have authenticated.\<close>

theorem auth_session_packet:
  assumes "from_memory (se_big E) (take 4 (drop (mb_rpos (sk_headerBuffer s) + 2) (mb_storage (sk_headerBuffer s)))) = CMSG_AUTH_SESSION"
    and "mb_storage (sk_packetBuffer s) = build @ account @ 0 # nums @ addons"
    and "length build = 8" and "0 \<notin> set account" and "length nums = 48" and "\<not> sk_authed s"
  shows "if addons = [] then ReadDataHandler E s = Inl (ServerAborts (InPacket CMSG_AUTH_SESSION))
         else \<exists>a s1. ReadDataHandler E s = Inr (RD_WaitingForQuery, s1) \<and> sk_queries s1 = sk_queries s @ [a]
           \<and> as_Account a = account \<and> bb_storage (as_AddonInfo a) = addons"
proof -
  let ?p = "\<lparr>bb_rpos = 0, bb_wpos = 0, bb_storage = mb_storage (sk_packetBuffer s)\<rparr>"
  obtain a where a: "read_AuthSession (se_big E) ?p =
      (case append_bytes addons mk_ByteBuffer of Inl e \<Rightarrow> Inl e | Inr b \<Rightarrow> Inr (a\<lparr>as_AddonInfo := b\<rparr>))"
    "as_Account a = account"
    using read_AuthSession_fields[of ?p build account nums addons "se_big E"] assms(2-5) by auto
  have run: "ReadDataHandler E s = (let s0 = s\<lparr>sk_packetBuffer := snd (mb_Move (sk_packetBuffer s))\<rparr> in
      caught CMSG_AUTH_SESSION (case HandleAuthSession E ?p s0 of Inl e \<Rightarrow> Inl e | Inr s1 \<Rightarrow> Inr (RD_WaitingForQuery, s1)) s0)"
    using assms(1,6) by (simp add: ReadDataHandler_def Let_def buffer_of_message_def mb_Move_def)
  show ?thesis
  proof (cases "addons = []")
    case True
    then show ?thesis using a(1) by (simp add: run Let_def HandleAuthSession_def append_bytes_def caught_def)
  next
    case False
    then have "appends addons mk_ByteBuffer (append_bytes addons mk_ByteBuffer)"
      by (intro append_bytes_end) (simp_all add: at_end_def mk_ByteBuffer_def)
    then obtain b where "append_bytes addons mk_ByteBuffer = Inr b" "bb_storage b = addons"
      by (auto simp: appends_def mk_ByteBuffer_def)
    then show ?thesis using a False by (simp add: run Let_def HandleAuthSession_def caught_def)
  qed
qed

definition sample_auth_socket :: "unit WorldSocket" where
  "sample_auth_socket = sample_socket\<lparr>sk_headerBuffer := \<lparr>mb_wpos = 6, mb_rpos = 0, mb_storage = [58, 0, 0xED, 0x01, 0, 0]\<rparr>,
     sk_packetBuffer := \<lparr>mb_wpos = 58, mb_rpos = 0, mb_storage = replicate 8 1 @ [65] @ 0 # replicate 48 2\<rparr>\<rparr>"

theorem auth_session_packet_witness:
  "ReadDataHandler sample_env sample_auth_socket = Inl (ServerAborts (InPacket CMSG_AUTH_SESSION))"
proof -
  have opcode: "from_memory False [0xED, 0x01, 0, 0] = CMSG_AUTH_SESSION" by code_simp
  show ?thesis
    using auth_session_packet[of sample_env sample_auth_socket "replicate 8 1" "[65]" "replicate 48 2" "[]"] opcode
    by (simp add: sample_auth_socket_def sample_env_def sample_socket_def mk_WorldSocket_def)
qed

end
