(* ===== verification/WorldSend.thy ===== *)
theory WorldSend
  imports WorldSocket
begin

text \<open>
  The sending side of a connection (\<open>WorldSocket::Update\<close>, \<open>Protocol/ServerPktHeader.h\<close>, the write queue of
  \<open>shared/Networking/Socket.h\<close> in the variant without completion ports): packets become frames of a header,
  encrypted when the packet was queued after the cipher was set up, and the payload; frames are put together
  in buffers of the send buffer's size, and buffers are written as far as the operating system takes them.
\<close>

section \<open>Frames\<close>

text \<open>\<open>sz\<close> is the length of the payload and the 2 bytes of the opcode. Sizes above \<open>0x7FFF\<close> take 3 bytes, with the highest bit set.\<close>

definition isLargePacket :: "u32 \<Rightarrow> bool" where
  "isLargePacket sz \<longleftrightarrow> sz > 0x7FFF"

definition ServerPktHeader :: "u32 \<Rightarrow> u16 \<Rightarrow> u8 list" where
  "ServerPktHeader sz cmd =
     (if isLargePacket sz then [ucast (0x80 OR (0xFF AND drop_bit 16 sz))] else [])
     @ [ucast (0xFF AND drop_bit 8 sz), ucast (0xFF AND sz)]
     @ [ucast (0xFF AND cmd), ucast (0xFF AND drop_bit 8 cmd)]"

definition QueuePacket :: "MessageBuffer \<Rightarrow> 'c WorldSocket \<Rightarrow> 'c WorldSocket" where
  "QueuePacket b s = s\<lparr>sk_writeQueue := sk_writeQueue s @ [b]\<rparr>"

text \<open>The loop of \<open>Update\<close>: the buffer being filled and the socket. A write outside of a buffer is \<open>None\<close>.\<close>

definition write_both :: "u8 list \<Rightarrow> u8 list \<Rightarrow> MessageBuffer \<Rightarrow> MessageBuffer option" where
  "write_both header bs b =
     (case mb_Write header b of None \<Rightarrow> None | Some b1 \<Rightarrow> if bs \<noteq> [] then mb_Write bs b1 else Some b1)"

definition frame_packet :: "'c socket_env \<Rightarrow> u16 \<times> u8 list \<times> bool \<Rightarrow> MessageBuffer \<times> 'c WorldSocket \<Rightarrow> (MessageBuffer \<times> 'c WorldSocket) option" where
  "frame_packet E q x =
     (case (q, x) of ((opcode, bs, encrypt), buffer, s) \<Rightarrow>
        let plain = ServerPktHeader (of_nat (length bs) + 2) opcode;
            (header, crypt) = (if encrypt then EncryptSend E plain (sk_authCrypt s) else (plain, sk_authCrypt s));
            n = length bs + length plain;
            s1 = s\<lparr>sk_authCrypt := crypt\<rparr>;
            (buffer2, s2) = (if GetRemainingSpace buffer < n
                             then (mb_Resize (sk_sendBufferSize s1) (snd (mb_Move buffer)), QueuePacket buffer s1)
                             else (buffer, s1))
        in if GetRemainingSpace buffer2 \<ge> n then
             (case write_both header bs buffer2 of None \<Rightarrow> None | Some b \<Rightarrow> Some (b, s2))
           else
             (case write_both header bs (mk_MessageBuffer n) of
                None \<Rightarrow> None
              | Some b \<Rightarrow> Some (buffer2, QueuePacket b s2)))"

fun frame_packets :: "'c socket_env \<Rightarrow> (u16 \<times> u8 list \<times> bool) list \<Rightarrow> MessageBuffer \<times> 'c WorldSocket \<Rightarrow> (MessageBuffer \<times> 'c WorldSocket) option" where
  "frame_packets E [] x = Some x"
| "frame_packets E (q # qs) x = (case frame_packet E q x of None \<Rightarrow> None | Some y \<Rightarrow> frame_packets E qs y)"

definition frame_queue :: "'c socket_env \<Rightarrow> 'c WorldSocket \<Rightarrow> 'c WorldSocket option" where
  "frame_queue E s =
     (case frame_packets E (sk_bufferQueue s) (mk_MessageBuffer (sk_sendBufferSize s), s\<lparr>sk_bufferQueue := []\<rparr>) of
        None \<Rightarrow> None
      | Some (buffer, s1) \<Rightarrow> Some (if GetActiveSize buffer > 0 then QueuePacket buffer s1 else s1))"

section \<open>The write queue\<close>

text \<open>
  What the operating system answers to a write: it would block, another error, or it takes up to so many
  bytes, all of them when there are not more.
\<close>

datatype write_result = Blocked | Failed | Accepts nat

definition AsyncProcessQueue :: "'c WorldSocket \<Rightarrow> 'c WorldSocket" where
  "AsyncProcessQueue s = s\<lparr>sk_isWritingAsync := True\<rparr>"

definition close_when_empty :: "'c WorldSocket \<Rightarrow> 'c WorldSocket" where
  "close_when_empty s = (if sk_closing s \<and> sk_writeQueue s = [] then CloseSocket s else s)"

text \<open>\<open>HandleQueue\<close>: whether to call it again, the bytes written and the socket.\<close>

definition HandleQueue :: "write_result \<Rightarrow> 'c WorldSocket \<Rightarrow> bool \<times> u8 list \<times> 'c WorldSocket" where
  "HandleQueue answer s =
     (case sk_writeQueue s of
        [] \<Rightarrow> (False, [], s)
      | m # rest \<Rightarrow>
          (case answer of
             Blocked \<Rightarrow> (False, [], AsyncProcessQueue s)
           | Failed \<Rightarrow> (False, [], close_when_empty (s\<lparr>sk_writeQueue := rest\<rparr>))
           | Accepts n \<Rightarrow>
               let bytesToSend = GetActiveSize m; bytesSent = min n bytesToSend
               in if bytesSent = 0 then (False, [], close_when_empty (s\<lparr>sk_writeQueue := rest\<rparr>))
                  else if bytesSent < bytesToSend then
                    (False, read_at bytesSent m, AsyncProcessQueue (s\<lparr>sk_writeQueue := ReadCompleted bytesSent m # rest\<rparr>))
                  else (rest \<noteq> [], read_at bytesSent m, close_when_empty (s\<lparr>sk_writeQueue := rest\<rparr>))))"

lemma HandleQueue_shorter:
  "HandleQueue a s = (True, out, s1) \<Longrightarrow> length (sk_writeQueue s1) < length (sk_writeQueue s)"
  by (auto simp: HandleQueue_def Let_def close_when_empty_def CloseSocket_def split: list.splits write_result.splits if_splits)

text \<open>\<open>answers i\<close> is what the \<open>i\<close>-th write is answered. Every further call has a message less.\<close>

function write_loop :: "(nat \<Rightarrow> write_result) \<Rightarrow> nat \<Rightarrow> 'c WorldSocket \<Rightarrow> u8 list \<times> 'c WorldSocket" where
  "write_loop answers i s =
     (case HandleQueue (answers i) s of
        (False, out, s1) \<Rightarrow> (out, s1)
      | (True, out, s1) \<Rightarrow> (case write_loop answers (Suc i) s1 of (rest, s2) \<Rightarrow> (out @ rest, s2)))"
  by auto
termination
  by (relation "measure (\<lambda>(a, i, s). length (sk_writeQueue s))")
    (auto dest: HandleQueue_shorter[OF sym])

declare write_loop.simps [simp del]

definition BaseSocket_Update :: "(nat \<Rightarrow> write_result) \<Rightarrow> 'c WorldSocket \<Rightarrow> bool \<times> u8 list \<times> 'c WorldSocket" where
  "BaseSocket_Update answers s =
     (if sk_closed s then (False, [], s)
      else if sk_isWritingAsync s \<or> sk_writeQueue s = [] \<and> \<not> sk_closing s then (True, [], s)
      else (case write_loop answers 0 s of (out, s1) \<Rightarrow> (True, out, s1)))"

definition WriteHandlerWrapper :: "write_result \<Rightarrow> 'c WorldSocket \<Rightarrow> u8 list \<times> 'c WorldSocket" where
  "WriteHandlerWrapper answer s = snd (HandleQueue answer (s\<lparr>sk_isWritingAsync := False\<rparr>))"

text \<open>\<open>Update\<close> up to the answered queries, which are the next step (\<open>process\<close>).\<close>

definition WorldSocket_Update :: "'c socket_env \<Rightarrow> (nat \<Rightarrow> write_result) \<Rightarrow> ('c WorldSocket \<Rightarrow> 'c WorldSocket)
    \<Rightarrow> 'c WorldSocket \<Rightarrow> (bool \<times> u8 list \<times> 'c WorldSocket) option" where
  "WorldSocket_Update E answers process s =
     (case frame_queue E s of
        None \<Rightarrow> None
      | Some s1 \<Rightarrow>
          (case BaseSocket_Update answers s1 of
             (False, out, s2) \<Rightarrow> Some (False, out, s2)
           | (True, out, s2) \<Rightarrow> Some (True, out, process s2)))"

section \<open>What is sent\<close>

text \<open>The frames of the queued packets one after the other, and the cipher behind them.\<close>

definition frame_header :: "'c socket_env \<Rightarrow> u16 \<Rightarrow> u8 list \<Rightarrow> bool \<Rightarrow> 'c AuthCrypt \<Rightarrow> u8 list \<times> 'c AuthCrypt" where
  "frame_header E opcode bs encrypt c =
     (let plain = ServerPktHeader (of_nat (length bs) + 2) opcode
      in if encrypt then EncryptSend E plain c else (plain, c))"

fun frames :: "'c socket_env \<Rightarrow> 'c AuthCrypt \<Rightarrow> (u16 \<times> u8 list \<times> bool) list \<Rightarrow> u8 list \<times> 'c AuthCrypt" where
  "frames E c [] = ([], c)"
| "frames E c ((opcode, bs, encrypt) # qs) =
     (case frame_header E opcode bs encrypt c of
        (h, c1) \<Rightarrow> (case frames E c1 qs of (out, c2) \<Rightarrow> (h @ bs @ out, c2)))"

text \<open>The bytes not written yet.\<close>

definition pending :: "'c WorldSocket \<Rightarrow> u8 list" where
  "pending s = concat (map mb_data (sk_writeQueue s))"

definition queue_ok :: "'c WorldSocket \<Rightarrow> bool" where
  "queue_ok s \<longleftrightarrow> (\<forall>m \<in> set (sk_writeQueue s). mb_ok m)"

text \<open>A cipher that works byte by byte, as the code relies on: the output has the length of the input.\<close>

definition keeps_length :: "'c socket_env \<Rightarrow> bool" where
  "keeps_length E \<longleftrightarrow> (\<forall>c bs. length (fst (se_arc4 E c bs)) = length bs)"

lemma write_both_ok:
  assumes "mb_ok b" and "length bs + length h \<le> GetRemainingSpace b"
  obtains b' where "write_both h bs b = Some b'" "mb_ok b'" "mb_data b' = mb_data b @ h @ bs"
proof -
  obtain b1 where b1: "mb_Write h b = Some b1" "mb_ok b1" "mb_data b1 = mb_data b @ h"
    "GetRemainingSpace b1 = GetRemainingSpace b - length h"
    using mb_Write_ok[OF assms(1), of h] assms(2) by auto
  have "length bs \<le> GetRemainingSpace b1" using assms(2) b1(4) by linarith
  from mb_Write_ok[OF b1(2) this] obtain b2 where "mb_Write bs b1 = Some b2" "mb_ok b2" "mb_data b2 = mb_data b1 @ bs" .
  then show thesis using that b1 by (cases "bs = []") (simp_all add: write_both_def)
qed

lemma length_frame_header:
  assumes "keeps_length E"
  shows "length (fst (frame_header E opcode bs encrypt c)) = length (ServerPktHeader (of_nat (length bs) + 2) opcode)"
  using assms by (auto simp: frame_header_def EncryptSend_def keeps_length_def Let_def split: prod.splits)
    (metis fst_conv)

lemma frame_packet_ok:
  assumes "keeps_length E" and "mb_ok b" and "queue_ok s"
  obtains b' s' where "frame_packet E (opcode, bs, encrypt) (b, s) = Some (b', s')" "mb_ok b'" "queue_ok s'"
    "pending s' @ mb_data b' = pending s @ mb_data b @ fst (frame_header E opcode bs encrypt (sk_authCrypt s)) @ bs"
    "sk_authCrypt s' = snd (frame_header E opcode bs encrypt (sk_authCrypt s))" "sk_closed s' = sk_closed s"
    "sk_bufferQueue s' = sk_bufferQueue s"
proof -
  obtain h c where h: "frame_header E opcode bs encrypt (sk_authCrypt s) = (h, c)" by (cases "frame_header E opcode bs encrypt (sk_authCrypt s)")
  let ?plain = "ServerPktHeader (of_nat (length bs) + 2) opcode" and ?s1 = "s\<lparr>sk_authCrypt := c\<rparr>"
  let ?n = "length bs + length ?plain" and ?new = "mb_Resize (sk_sendBufferSize s) (snd (mb_Move b))"
  have header: "(if encrypt then EncryptSend E ?plain (sk_authCrypt s) else (?plain, sk_authCrypt s)) = (h, c)"
    using h by (simp add: frame_header_def Let_def)
  have len: "length h = length ?plain" using length_frame_header[OF assms(1), of opcode bs encrypt "sk_authCrypt s"] h by simp
  have new: "mb_ok ?new" "mb_data ?new = []" by (simp_all add: mb_Move_def mb_defs)
  define b2 where "b2 = (if GetRemainingSpace b < ?n then ?new else b)"
  define s2 where "s2 = (if GetRemainingSpace b < ?n then QueuePacket b ?s1 else ?s1)"
  have step: "frame_packet E (opcode, bs, encrypt) (b, s) =
      (if GetRemainingSpace b2 \<ge> ?n
       then (case write_both h bs b2 of None \<Rightarrow> None | Some b' \<Rightarrow> Some (b', s2))
       else (case write_both h bs (mk_MessageBuffer ?n) of None \<Rightarrow> None | Some b' \<Rightarrow> Some (b2, QueuePacket b' s2)))"
    by (simp add: frame_packet_def Let_def header b2_def s2_def split: option.split)
  have s2: "mb_ok b2" "queue_ok s2" "pending s2 @ mb_data b2 = pending s @ mb_data b" "sk_authCrypt s2 = c"
    "sk_closed s2 = sk_closed s" "sk_bufferQueue s2 = sk_bufferQueue s"
    using assms(2,3) new by (auto simp: b2_def s2_def queue_ok_def pending_def QueuePacket_def)
  show thesis
  proof (cases "GetRemainingSpace b2 \<ge> ?n")
    case True
    obtain b' where "write_both h bs b2 = Some b'" "mb_ok b'" "mb_data b' = mb_data b2 @ h @ bs"
      using write_both_ok[OF s2(1), of bs h] True len by auto
    then show thesis using that[of b' s2] step True s2 h by (simp add: append_assoc[symmetric] del: append_assoc)
  next
    case False
    then have "mb_data b2 = []"
      using new(2) by (auto simp: b2_def split: if_splits)
    obtain b' where b': "write_both h bs (mk_MessageBuffer ?n) = Some b'" "mb_ok b'" "mb_data b' = h @ bs"
      using write_both_ok[OF mb_new(1), of bs h ?n] mb_new len by auto
    then show thesis
      using that[of b2 "QueuePacket b' s2"] step False s2 h \<open>mb_data b2 = []\<close>
      by (simp add: QueuePacket_def queue_ok_def pending_def)
  qed
qed

lemma frame_packets_ok:
  assumes "keeps_length E" and "mb_ok b" and "queue_ok s"
  shows "\<exists>b' s'. frame_packets E qs (b, s) = Some (b', s') \<and> mb_ok b' \<and> queue_ok s'
    \<and> pending s' @ mb_data b' = pending s @ mb_data b @ fst (frames E (sk_authCrypt s) qs)
    \<and> sk_authCrypt s' = snd (frames E (sk_authCrypt s) qs) \<and> sk_closed s' = sk_closed s
    \<and> sk_bufferQueue s' = sk_bufferQueue s"
  using assms(2,3)
proof (induction qs arbitrary: b s)
  case Nil
  then show ?case by simp
next
  case (Cons q qs)
  obtain opcode bs encrypt where q: "q = (opcode, bs, encrypt)" by (cases q)
  obtain h c where h: "frame_header E opcode bs encrypt (sk_authCrypt s) = (h, c)" by (cases "frame_header E opcode bs encrypt (sk_authCrypt s)")
  obtain b1 s1 where one: "frame_packet E q (b, s) = Some (b1, s1)" "mb_ok b1" "queue_ok s1"
    "pending s1 @ mb_data b1 = pending s @ mb_data b @ h @ bs" "sk_authCrypt s1 = c" "sk_closed s1 = sk_closed s"
    "sk_bufferQueue s1 = sk_bufferQueue s"
    using frame_packet_ok[OF assms(1) Cons.prems, of opcode bs encrypt] h q by auto
  show ?case
    using Cons.IH[OF one(2,3)] one(1,4-7) h by (auto simp: q append_assoc[symmetric] simp del: append_assoc split: prod.splits)
qed

text \<open>A write that does not fail takes from the front of the pending bytes what it puts out.\<close>

definition takes_bytes :: "write_result \<Rightarrow> bool" where
  "takes_bytes a \<longleftrightarrow> a \<noteq> Failed \<and> a \<noteq> Accepts 0"

lemma close_when_empty_simps [simp]:
  "sk_writeQueue (close_when_empty s) = sk_writeQueue s" "sk_authCrypt (close_when_empty s) = sk_authCrypt s"
  "sk_bufferQueue (close_when_empty s) = sk_bufferQueue s"
  by (simp_all add: close_when_empty_def CloseSocket_def)

lemma HandleQueue_ok:
  assumes "takes_bytes a" and "queue_ok s" and "HandleQueue a s = (again, out, s1)"
  shows "out @ pending s1 = pending s" and "queue_ok s1" and "sk_authCrypt s1 = sk_authCrypt s"
    and "sk_bufferQueue s1 = sk_bufferQueue s"
proof -
  have "out @ pending s1 = pending s \<and> queue_ok s1 \<and> sk_authCrypt s1 = sk_authCrypt s \<and> sk_bufferQueue s1 = sk_bufferQueue s"
  proof (cases "sk_writeQueue s")
    case Nil
    then show ?thesis using assms by (simp add: HandleQueue_def)
  next
    case (Cons m rest)
    have m: "mb_ok m" "\<forall>m \<in> set rest. mb_ok m" using assms(2) Cons by (simp_all add: queue_ok_def)
    note parts = read_at_data[OF m(1)] ReadCompleted_ok(1)[OF m(1)] ReadCompleted_ok(2)
    show ?thesis
    proof (cases a)
      case Blocked
      then show ?thesis using assms Cons by (auto simp: HandleQueue_def AsyncProcessQueue_def pending_def queue_ok_def)
    next
      case Failed
      then show ?thesis using assms(1) by (simp add: takes_bytes_def)
    next
      case (Accepts n)
      then have "n > 0" using assms(1) by (simp add: takes_bytes_def)
      then have none: "min n (GetActiveSize m) = 0 \<longleftrightarrow> mb_data m = []" unfolding length_mb_data[OF m(1), symmetric] by (auto simp: min_def)
      show ?thesis
        using assms(3) Cons m Accepts parts length_mb_data[OF m(1)] none
        by (auto simp: HandleQueue_def Let_def AsyncProcessQueue_def pending_def queue_ok_def split: if_splits)
    qed
  qed
  then show "out @ pending s1 = pending s" and "queue_ok s1" and "sk_authCrypt s1 = sk_authCrypt s"
    and "sk_bufferQueue s1 = sk_bufferQueue s" by blast+
qed

lemma write_loop_ok:
  assumes "\<forall>i. takes_bytes (answers i)" and "queue_ok s"
  shows "case write_loop answers i s of (out, s1) \<Rightarrow>
    out @ pending s1 = pending s \<and> sk_authCrypt s1 = sk_authCrypt s \<and> sk_bufferQueue s1 = sk_bufferQueue s"
  using assms
proof (induction answers i s rule: write_loop.induct)
  case (1 answers i s)
  obtain again out s1 where h: "HandleQueue (answers i) s = (again, out, s1)" by (cases "HandleQueue (answers i) s") auto
  note one = HandleQueue_ok[OF _ "1.prems"(2) h]
  show ?case
  proof (cases again)
    case False
    then show ?thesis using h one "1.prems"(1) by (subst write_loop.simps) simp
  next
    case True
    then show ?thesis
      using "1.IH"[OF h[symmetric]] h one "1.prems"(1) by (subst write_loop.simps) (auto split: prod.splits)
  qed
qed

text \<open>Property C20: an update turns the queued packets into frames in the order they were queued, whatever their
  sizes are next to the size of the send buffer, and writes from the front of the bytes that are not written
  yet: written bytes and the bytes still pending are together what was pending before and then the frames.
  So no byte is lost, doubled or out of order, as long as the operating system reports no error, and no
  buffer is written beyond its end.\<close>

theorem Update_sends_in_order:
  assumes "keeps_length E" and "\<forall>i. takes_bytes (answers i)" and "queue_ok s"
  shows "\<exists>out s1. WorldSocket_Update E answers process s = Some (\<not> sk_closed s, out, if sk_closed s then s1 else process s1)
    \<and> out @ pending s1 = pending s @ fst (frames E (sk_authCrypt s) (sk_bufferQueue s))
    \<and> sk_authCrypt s1 = snd (frames E (sk_authCrypt s) (sk_bufferQueue s)) \<and> sk_bufferQueue s1 = []"
proof -
  let ?c = "sk_authCrypt s" and ?q = "sk_bufferQueue s" and ?s = "s\<lparr>sk_bufferQueue := []\<rparr>"
  obtain b s0 where f: "frame_packets E ?q (mk_MessageBuffer (sk_sendBufferSize s), ?s) = Some (b, s0)" "mb_ok b" "queue_ok s0"
    "pending s0 @ mb_data b = pending s @ fst (frames E ?c ?q)" "sk_authCrypt s0 = snd (frames E ?c ?q)"
    "sk_closed s0 = sk_closed s" "sk_bufferQueue s0 = []"
    using frame_packets_ok[OF assms(1) mb_new(1)[of "sk_sendBufferSize s"], of ?s ?q] assms(3) mb_new(2)
    by (auto simp: queue_ok_def pending_def)
  define s1 where "s1 = (if GetActiveSize b > 0 then QueuePacket b s0 else s0)"
  have "pending s1 = pending s0 @ mb_data b"
    using length_mb_data[OF f(2)] by (auto simp: s1_def QueuePacket_def pending_def)
  then have s1: "frame_queue E s = Some s1" "queue_ok s1" "pending s1 = pending s @ fst (frames E ?c ?q)"
    "sk_authCrypt s1 = snd (frames E ?c ?q)" "sk_closed s1 = sk_closed s" "sk_bufferQueue s1 = []"
    using f by (auto simp: frame_queue_def s1_def QueuePacket_def queue_ok_def)
  obtain out s2 where loop: "write_loop answers 0 s1 = (out, s2)" by (cases "write_loop answers 0 s1")
  have "out @ pending s2 = pending s1 \<and> sk_authCrypt s2 = sk_authCrypt s1 \<and> sk_bufferQueue s2 = []"
    using write_loop_ok[OF assms(2) s1(2), of 0] s1(6) by (simp add: loop)
  moreover define r where "r = (if sk_closed s \<or> sk_isWritingAsync s1 \<or> sk_writeQueue s1 = [] \<and> \<not> sk_closing s1 then ([], s1) else (out, s2))"
  ultimately have "fst r @ pending (snd r) = pending s1 \<and> sk_authCrypt (snd r) = sk_authCrypt s1 \<and> sk_bufferQueue (snd r) = []"
    using s1(6) by (simp add: r_def)
  moreover have "WorldSocket_Update E answers process s = Some (\<not> sk_closed s, fst r, if sk_closed s then snd r else process (snd r))"
    using s1(1,5) by (simp add: WorldSocket_Update_def BaseSocket_Update_def loop r_def)
  ultimately show ?thesis using s1(3,4) by (intro exI[of _ "fst r"] exI[of _ "snd r"]) simp
qed

definition send_env :: "unit socket_env" where
  "send_env = \<lparr>se_big = False, se_arc4 = (\<lambda>c bs. (map (\<lambda>b. b XOR 0x5A) bs, c)), se_now = 0, se_maxOverspeedPings = 0,
     se_gameTime = 0, se_timeout = 0, se_timeoutActive = 0, se_hasHandler = (\<lambda>opc. False)\<rparr>"

definition send_socket :: "unit WorldSocket" where
  "send_socket = (mk_WorldSocket () 7)\<lparr>sk_bufferQueue := [(SMSG_PONG, [1, 2, 3, 4], False), (0x3B, [9], False)], sk_sendBufferSize := 9\<rparr>"

theorem Update_sends_in_order_witness:
  "\<exists>out s1. WorldSocket_Update send_env (\<lambda>i. Accepts 6) (\<lambda>s. s) send_socket = Some (True, out, s1)
    \<and> out @ pending s1 = [0, 6, 0xDD, 1, 1, 2, 3, 4, 0, 3, 0x3B, 0, 9] \<and> sk_bufferQueue s1 = []"
proof -
  have s: "queue_ok send_socket" "pending send_socket = []" "\<not> sk_closed send_socket"
    by (simp_all add: send_socket_def mk_WorldSocket_def queue_ok_def pending_def)
  have "fst (frames send_env (mk_AuthCrypt ()) [(SMSG_PONG, [1, 2, 3, 4], False), (0x3B, [9], False)])
      = [0, 6, 0xDD, 1, 1, 2, 3, 4, 0, 3, 0x3B, 0, 9]"
    by code_simp
  then have "fst (frames send_env (sk_authCrypt send_socket) (sk_bufferQueue send_socket)) = [0, 6, 0xDD, 1, 1, 2, 3, 4, 0, 3, 0x3B, 0, 9]"
    by (simp add: send_socket_def mk_WorldSocket_def)
  moreover have "keeps_length send_env" by (simp add: keeps_length_def send_env_def)
  ultimately show ?thesis
    using Update_sends_in_order[of send_env "\<lambda>i. Accepts 6" send_socket "\<lambda>s. s"] s by (auto simp: takes_bytes_def)
qed

section \<open>What the client gets\<close>

text \<open>
  The reader of the frames, as the header is documented: the first byte tells with its highest bit whether
  the size has 3 bytes or 2, the size counts the opcode. A client decrypts as many bytes as it knows to be
  there: 4, and one more of a large frame. \<open>f\<close> is the cipher and the flags say which frames are encrypted.
\<close>

definition decrypt :: "('c \<Rightarrow> u8 list \<Rightarrow> u8 list \<times> 'c) \<Rightarrow> bool \<Rightarrow> 'c \<Rightarrow> u8 list \<Rightarrow> u8 list \<times> 'c" where
  "decrypt f flag c bs = (if flag then f c bs else (bs, c))"

definition read_header :: "('c \<Rightarrow> u8 list \<Rightarrow> u8 list \<times> 'c) \<Rightarrow> bool \<Rightarrow> 'c \<Rightarrow> u8 list \<Rightarrow> (nat \<times> u16 \<times> u8 list \<times> 'c) option" where
  "read_header f flag c bs =
     (case decrypt f flag c (take 4 bs) of
        (a # b # x # y # [], c1) \<Rightarrow>
          if a AND 0x80 = 0 then Some (unat a * 256 + unat b - 2, ucast x OR push_bit 8 (ucast y), drop 4 bs, c1)
          else
            (case decrypt f flag c1 (take 1 (drop 4 bs)) of
               ([z], c2) \<Rightarrow> Some (unat (a AND 0x7F) * 65536 + unat b * 256 + unat x - 2,
                              ucast y OR push_bit 8 (ucast z), drop 5 bs, c2)
             | _ \<Rightarrow> None)
      | _ \<Rightarrow> None)"

fun client_read :: "('c \<Rightarrow> u8 list \<Rightarrow> u8 list \<times> 'c) \<Rightarrow> bool list \<Rightarrow> 'c \<Rightarrow> u8 list \<Rightarrow> ((u16 \<times> u8 list) list \<times> u8 list) option" where
  "client_read f [] c bs = Some ([], bs)"
| "client_read f (flag # flags) c bs =
     (case read_header f flag c bs of
        None \<Rightarrow> None
      | Some (n, opcode, rest, c1) \<Rightarrow>
          if length rest < n then None
          else map_option (\<lambda>(ps, left). ((opcode, take n rest) # ps, left)) (client_read f flags c1 (drop n rest)))"

text \<open>What ARC4 does: the second use undoes the first, and bytes can be ciphered in two steps.\<close>

definition stream_cipher :: "('c \<Rightarrow> u8 list \<Rightarrow> u8 list \<times> 'c) \<Rightarrow> bool" where
  "stream_cipher f \<longleftrightarrow>
     (\<forall>c bs. length (fst (f c bs)) = length bs) \<and> (\<forall>c bs. f c (fst (f c bs)) = (bs, snd (f c bs)))
     \<and> (\<forall>c xs ys. f c (xs @ ys) = (fst (f c xs) @ fst (f (snd (f c xs)) ys), snd (f (snd (f c xs)) ys)))"

lemma decrypt_cipher:
  assumes "stream_cipher f"
  shows "length (fst (decrypt f flag c bs)) = length bs"
    and "decrypt f flag c (fst (decrypt f flag c bs)) = (bs, snd (decrypt f flag c bs))"
    and "decrypt f flag c (xs @ ys) = (fst (decrypt f flag c xs) @ fst (decrypt f flag (snd (decrypt f flag c xs)) ys),
           snd (decrypt f flag (snd (decrypt f flag c xs)) ys))"
  using assms by (auto simp: stream_cipher_def decrypt_def)

text \<open>The bytes of the plain header.\<close>

lemma ucast_low_byte: "(ucast (0xFF AND (v :: 'a::len word)) :: u8) = ucast v"
proof -
  have ff: "(0xFF :: 'a word) = mask 8" by (simp add: mask_eq_exp_minus_1)
  show ?thesis unfolding ff by (rule bit_word_eqI) (auto simp: bit_simps dest: bit_imp_le_length)
qed

lemma opcode_bytes: "ucast (ucast cmd :: u8) OR push_bit 8 (ucast (ucast (drop_bit 8 cmd) :: u8)) = (cmd :: u16)"
  by (rule bit_word_eqI) (auto simp: bit_simps)

lemma and_0x80: "(a :: u8) AND 0x80 = 0 \<longleftrightarrow> \<not> bit a 7"
proof -
  have "a AND push_bit j 1 = (if bit a j then push_bit j 1 else 0)" for j
    by (rule bit_word_eqI) (auto simp: bit_simps)
  from this[of 7] have "a AND 0x80 = (if bit a 7 then 0x80 else 0)" by simp
  then show ?thesis by simp
qed

lemma unat_byte: "unat (ucast (drop_bit n v) :: u8) = unat (v :: 'a::len word) div 2 ^ n mod 256"
proof -
  have "unat (drop_bit n v) = drop_bit n (unat v)"
    by (rule bit_eqI) (auto simp: bit_simps dest: bit_imp_le_length)
  then show ?thesis by (simp add: unsigned_ucast_eq) (simp add: drop_bit_eq_div take_bit_eq_mod)
qed

lemma bit_size: "unat (sz :: u32) < 2 ^ n \<Longrightarrow> n \<le> i \<Longrightarrow> \<not> bit sz i"
proof -
  assume a: "unat sz < 2 ^ n" "n \<le> i"
  have "\<not> bit (unat sz) i" using a
    by (metis (no_types) bit_iff_odd div_less le_trans linorder_not_le nle_le even_zero power_increasing one_le_numeral order_less_le_trans)
  then show ?thesis by (simp add: bit_simps)
qed

lemma small_size_bytes:
  assumes "sz \<le> 0x7FFF"
  shows "(ucast (drop_bit 8 sz) :: u8) AND 0x80 = 0"
    and "unat (ucast (drop_bit 8 sz) :: u8) * 256 + unat (ucast sz :: u8) = unat (sz :: u32)"
proof -
  have sz: "unat sz \<le> 0x7FFF" using assms by (simp add: word_le_nat_alt)
  show "(ucast (drop_bit 8 sz) :: u8) AND 0x80 = 0"
    using bit_size[of sz 15 15] sz by (simp add: and_0x80 bit_simps)
  have "unat sz div 256 < 256" using sz by (simp add: div_less_iff_less_mult)
  then show "unat (ucast (drop_bit 8 sz) :: u8) * 256 + unat (ucast sz :: u8) = unat (sz :: u32)"
    using unat_byte[of 8 sz] unat_byte[of 0 sz] by simp
qed

lemma large_size_bytes:
  fixes sz :: u32
  assumes "unat sz < 2 ^ 23"
  defines "a \<equiv> ucast (0x80 OR (0xFF AND drop_bit 16 sz)) :: u8"
  shows "a AND 0x80 \<noteq> 0"
    and "unat (a AND 0x7F) * 65536 + unat (ucast (drop_bit 8 sz) :: u8) * 256 + unat (ucast sz :: u8) = unat sz"
proof -
  have masks: "(0x80 :: u32) = push_bit 7 1" "(0xFF :: u32) = mask 8" "(0x7F :: u8) = mask 7"
    by (simp_all add: mask_eq_exp_minus_1)
  show "a AND 0x80 \<noteq> 0"
    unfolding and_0x80 a_def masks by (simp add: bit_simps del: push_bit_of_1)
  have "i < 23" if "bit sz i" for i using bit_size[OF assms(1), of i] that by (meson not_le)
  from this[of "16 + _"] have "a AND 0x7F = ucast (drop_bit 16 sz)"
    unfolding a_def masks
    by (auto intro!: bit_word_eqI simp: bit_simps simp del: push_bit_of_1)
  then have "unat (a AND 0x7F) = unat sz div 65536 mod 256" using unat_byte[of 16 sz] by simp
  moreover have "unat sz div 65536 < 256" using assms(1) by (simp add: div_less_iff_less_mult)
  moreover have "unat sz div 256 div 256 = unat sz div 65536" by (simp add: div_mult2_eq[symmetric])
  ultimately have "unat (a AND 0x7F) = unat sz div 256 div 256" by simp
  moreover have "unat (ucast (drop_bit 8 sz) :: u8) = unat sz div 256 mod 256" "unat (ucast sz :: u8) = unat sz mod 256"
    using unat_byte[of 8 sz] unat_byte[of 0 sz] by simp_all
  ultimately show "unat (a AND 0x7F) * 65536 + unat (ucast (drop_bit 8 sz) :: u8) * 256 + unat (ucast sz :: u8) = unat sz"
    using div_mult_mod_eq[of "unat sz div 256" 256] div_mult_mod_eq[of "unat sz" 256] by linarith
qed
lemma read_header_frame:
  fixes opcode :: u16
  assumes "stream_cipher f" and "length bs + 2 < 2 ^ 23"
  defines "plain \<equiv> ServerPktHeader (of_nat (length bs) + 2) opcode"
  shows "read_header f flag c (fst (decrypt f flag c plain) @ rest) = Some (length bs, opcode, rest, snd (decrypt f flag c plain))"
proof -
  let ?sz = "of_nat (length bs) + 2 :: u32"
  note d = decrypt_cipher[OF assms(1)]
  have sz: "unat ?sz = length bs + 2"
  proof -
    have "?sz = of_nat (length bs + 2)" by simp
    then show ?thesis using assms(2) by (simp only: unat_of_nat) (simp add: take_bit_eq_mod)
  qed
  define b x where "b = (ucast (drop_bit 8 ?sz) :: u8)" and "x = (ucast ?sz :: u8)"
  define y z where "y = (ucast opcode :: u8)" and "z = (ucast (drop_bit 8 opcode) :: u8)"
  have opc: "ucast y OR push_bit 8 (ucast z) = opcode" by (simp add: y_def z_def opcode_bytes)
  show ?thesis
  proof (cases "isLargePacket ?sz")
    case False
    then have plain: "plain = [b, x, y, z]"
      by (simp add: plain_def ServerPktHeader_def ucast_low_byte b_def x_def y_def z_def)
    have "?sz \<le> 0x7FFF" using False by (simp add: isLargePacket_def)
    note s = small_size_bytes[OF this, folded b_def x_def]
    have len: "length (fst (decrypt f flag c plain)) = 4" by (simp add: d(1) plain)
    then have "decrypt f flag c (take 4 (fst (decrypt f flag c plain) @ rest)) = ([b, x, y, z], snd (decrypt f flag c plain))"
      by (simp add: d(2)) (simp add: plain)
    then show ?thesis using s(1) s(2)[unfolded sz] opc len by (simp add: read_header_def)
  next
    case True
    define a where "a = (ucast (0x80 OR (0xFF AND drop_bit 16 ?sz)) :: u8)"
    have plain: "plain = [a, b, x, y] @ [z]"
      using True by (simp add: plain_def ServerPktHeader_def ucast_low_byte a_def b_def x_def y_def z_def)
    have "unat ?sz < 2 ^ 23" using sz assms(2) by simp
    note s = large_size_bytes[OF this, folded a_def b_def x_def]
    obtain e4 c1 where e4: "decrypt f flag c [a, b, x, y] = (e4, c1)" by (cases "decrypt f flag c [a, b, x, y]")
    obtain e1 c2 where e1: "decrypt f flag c1 [z] = (e1, c2)" by (cases "decrypt f flag c1 [z]")
    have e: "decrypt f flag c plain = (e4 @ e1, c2)" unfolding plain d(3) by (simp add: e4 e1)
    have len: "length e4 = 4" "length e1 = 1" using d(1)[of flag c "[a, b, x, y]"] d(1)[of flag c1 "[z]"] e4 e1 by simp_all
    have undo: "decrypt f flag c e4 = ([a, b, x, y], c1)" "decrypt f flag c1 e1 = ([z], c2)"
      using d(2)[of flag c "[a, b, x, y]"] d(2)[of flag c1 "[z]"] e4 e1 by simp_all
    show ?thesis using s(1) s(2)[unfolded sz] opc len undo by (simp add: read_header_def e)
  qed
qed

lemma frame_header_decrypt:
  assumes "encrypt \<longrightarrow> ac_initialized c"
  shows "fst (frame_header E opcode bs encrypt c)
      = fst (decrypt (se_arc4 E) encrypt (ac_serverEncrypt c) (ServerPktHeader (of_nat (length bs) + 2) opcode))"
    and "ac_serverEncrypt (snd (frame_header E opcode bs encrypt c))
      = snd (decrypt (se_arc4 E) encrypt (ac_serverEncrypt c) (ServerPktHeader (of_nat (length bs) + 2) opcode))"
    and "ac_initialized (snd (frame_header E opcode bs encrypt c)) = ac_initialized c"
  using assms by (simp_all add: frame_header_def decrypt_def EncryptSend_def Let_def split: prod.split)

text \<open>Property C22: the client reads back from the frames the packets with their opcodes, in order, with nothing left
  over: for payloads of every length below 8 megabytes, with sizes in 2 bytes and in 3, also when the cipher
  is switched on between two packets of the queue, for every cipher that works as ARC4 does (byte by byte,
  undone by itself).\<close>

theorem client_reads_packets:
  assumes "stream_cipher (se_arc4 E)"
    and "\<forall>(opcode, bs, encrypt) \<in> set qs. length bs + 2 < 2 ^ 23 \<and> (encrypt \<longrightarrow> ac_initialized c)"
  shows "client_read (se_arc4 E) (map (\<lambda>(opcode, bs, encrypt). encrypt) qs) (ac_serverEncrypt c) (fst (frames E c qs))
    = Some (map (\<lambda>(opcode, bs, encrypt). (opcode, bs)) qs, [])"
  using assms(2)
proof (induction qs arbitrary: c)
  case Nil
  then show ?case by simp
next
  case (Cons q qs)
  obtain opcode bs encrypt where q: "q = (opcode, bs, encrypt)" by (cases q)
  have small: "length bs + 2 < 2 ^ 23" and init: "encrypt \<longrightarrow> ac_initialized c" using Cons.prems by (simp_all add: q)
  obtain h c1 where h: "frame_header E opcode bs encrypt c = (h, c1)" by (cases "frame_header E opcode bs encrypt c")
  note d = frame_header_decrypt[OF init, of E opcode bs, unfolded h fst_conv snd_conv]
  have header: "read_header (se_arc4 E) encrypt (ac_serverEncrypt c) (h @ rest) = Some (length bs, opcode, rest, ac_serverEncrypt c1)" for rest
    unfolding d(1,2) by (rule read_header_frame[OF assms(1) small])
  have "client_read (se_arc4 E) (map (\<lambda>(opcode, bs, encrypt). encrypt) qs) (ac_serverEncrypt c1) (fst (frames E c1 qs))
    = Some (map (\<lambda>(opcode, bs, encrypt). (opcode, bs)) qs, [])"
    using Cons.prems d(3) by (intro Cons.IH) auto
  then show ?case by (cases "frames E c1 qs") (simp add: q h header)
qed

lemma send_env_cipher: "stream_cipher (se_arc4 send_env)"
  by (simp add: stream_cipher_def send_env_def comp_def xor.assoc)

theorem client_reads_packets_witness:
  "client_read (se_arc4 send_env) [False, True] () (fst (frames send_env ((mk_AuthCrypt ())\<lparr>ac_initialized := True\<rparr>) [(SMSG_PONG, [1, 2, 3, 4], False), (0x3B, [9], True)]))
    = Some ([(SMSG_PONG, [1, 2, 3, 4]), (0x3B, [9])], [])"
  using client_reads_packets[OF send_env_cipher, of "[(SMSG_PONG, [1, 2, 3, 4], False), (0x3B, [9], True)]" "(mk_AuthCrypt ())\<lparr>ac_initialized := True\<rparr>"]
  by (simp add: mk_AuthCrypt_def)

end
