(* ===== verification/BigNumbers.thy ===== *)
theory BigNumbers
  imports Buffers
begin

text \<open>
  The numbers of the login protocol (\<open>common/Cryptography/BigNumber.cpp\<close>, \<open>SHA1.cpp\<close>). The arithmetic,
  the conversions and the hash are those of OpenSSL, which is not part of the repository: its functions are
  the fields of \<open>openssl\<close>, and \<open>documented_ssl\<close> states what its manual says of them. A \<open>BIGNUM\<close> stands for
  a natural number here; no number of the login protocol is negative.
\<close>

section \<open>OpenSSL\<close>

record openssl =
  SHA1 :: "u8 list \<Rightarrow> u8 list"
  HMAC_sha1 :: "u8 list \<Rightarrow> u8 list \<Rightarrow> u8 list"
  BN_bin2bn :: "u8 list \<Rightarrow> nat"
  BN_bn2bin :: "nat \<Rightarrow> u8 list"
  BN_num_bytes :: "nat \<Rightarrow> nat"
  BN_hex2bn :: "u8 list \<Rightarrow> nat \<Rightarrow> nat"
  BN_bn2hex :: "nat \<Rightarrow> u8 list"
  BN_add :: "nat \<Rightarrow> nat \<Rightarrow> nat"
  BN_mul :: "nat \<Rightarrow> nat \<Rightarrow> nat"
  BN_mod :: "nat \<Rightarrow> nat \<Rightarrow> nat"
  BN_mod_exp :: "nat \<Rightarrow> nat \<Rightarrow> nat \<Rightarrow> nat"

text \<open>The bytes of a number, the most significant first and none in front of it, and the number of such bytes.\<close>

fun be_bytes :: "nat \<Rightarrow> u8 list" where
  "be_bytes n = (if n = 0 then [] else be_bytes (n div 256) @ [of_nat (n mod 256)])"

declare be_bytes.simps [simp del]

definition be_value :: "u8 list \<Rightarrow> nat" where
  "be_value bs = foldl (\<lambda>a b. 256 * a + unat b) 0 bs"

text \<open>Upper case hexadecimal digits, two for each byte.\<close>

definition hex_digit :: "nat \<Rightarrow> u8" where
  "hex_digit d = (if d < 10 then of_nat (48 + d) else of_nat (55 + d))"

definition hex_digit_value :: "u8 \<Rightarrow> nat option" where
  "hex_digit_value c =
     (if 48 \<le> c \<and> c \<le> 57 then Some (unat c - 48)
      else if 65 \<le> c \<and> c \<le> 70 then Some (unat c - 55)
      else if 97 \<le> c \<and> c \<le> 102 then Some (unat c - 87) else None)"

definition is_hex :: "u8 list \<Rightarrow> bool" where
  "is_hex str \<longleftrightarrow> str \<noteq> [] \<and> (\<forall>c \<in> set str. hex_digit_value c \<noteq> None)"

definition hex_value :: "u8 list \<Rightarrow> nat" where
  "hex_value str = foldl (\<lambda>a c. 16 * a + the (hex_digit_value c)) 0 str"

definition byte_hex :: "u8 \<Rightarrow> u8 list" where
  "byte_hex b = [hex_digit (unat b div 16), hex_digit (unat b mod 16)]"

definition hex_text :: "nat \<Rightarrow> u8 list" where
  "hex_text n = (if n = 0 then [48] else concat (map byte_hex (be_bytes n)))"

text \<open>
  \<open>BN_hex2bn\<close> leaves the number as it was when the text has no digit, so that it takes the old number. Of
  text with other characters nothing is said.
\<close>

definition documented_ssl :: "openssl \<Rightarrow> bool" where
  "documented_ssl S \<longleftrightarrow>
     (\<forall>bs. length (SHA1 S bs) = 20) \<and> (\<forall>k bs. length (HMAC_sha1 S k bs) = 20)
     \<and> (\<forall>bs. BN_bin2bn S bs = be_value bs) \<and> (\<forall>n. BN_bn2bin S n = be_bytes n)
     \<and> (\<forall>n. BN_num_bytes S n = length (be_bytes n))
     \<and> (\<forall>str old. is_hex str \<longrightarrow> BN_hex2bn S str old = hex_value str) \<and> (\<forall>n. BN_bn2hex S n = hex_text n)
     \<and> (\<forall>a b. BN_add S a b = a + b) \<and> (\<forall>a b. BN_mul S a b = a * b)
     \<and> (\<forall>a m. m > 0 \<longrightarrow> BN_mod S a m = a mod m) \<and> (\<forall>a e m. m > 0 \<longrightarrow> BN_mod_exp S a e m = a ^ e mod m)"

section \<open>BigNumber\<close>

definition SetBinary :: "openssl \<Rightarrow> u8 list \<Rightarrow> nat" where
  "SetBinary S bs = BN_bin2bn S (rev bs)"

definition SetHexStr :: "openssl \<Rightarrow> u8 list \<Rightarrow> nat \<Rightarrow> nat" where
  "SetHexStr S str old = BN_hex2bn S str old"

text \<open>\<open>BN_rand\<close> with the highest and the lowest bit set.\<close>

definition SetRand_gives :: "nat \<Rightarrow> nat \<Rightarrow> bool" where
  "SetRand_gives numbits n \<longleftrightarrow> 2 ^ (numbits - 1) \<le> n \<and> n < 2 ^ numbits \<and> odd n"

definition bn_plus :: "openssl \<Rightarrow> nat \<Rightarrow> nat \<Rightarrow> nat" where
  "bn_plus S a b = BN_add S a b"

definition bn_times :: "openssl \<Rightarrow> nat \<Rightarrow> nat \<Rightarrow> nat" where
  "bn_times S a b = BN_mul S a b"

definition bn_modulo :: "openssl \<Rightarrow> nat \<Rightarrow> nat \<Rightarrow> nat" where
  "bn_modulo S a b = BN_mod S a b"

definition ModExp :: "openssl \<Rightarrow> nat \<Rightarrow> nat \<Rightarrow> nat \<Rightarrow> nat" where
  "ModExp S a e m = BN_mod_exp S a e m"

definition GetNumBytes :: "openssl \<Rightarrow> nat \<Rightarrow> nat" where
  "GetNumBytes S n = BN_num_bytes S n"

definition IsZero :: "nat \<Rightarrow> bool" where
  "IsZero n \<longleftrightarrow> n = 0"

text \<open>The digits are turned around within the bytes of the number; the rest of the array is behind them.\<close>

definition AsByteArray :: "openssl \<Rightarrow> nat \<Rightarrow> bool \<Rightarrow> nat \<Rightarrow> u8 list" where
  "AsByteArray S minSize littleEndian n =
     (let numBytes = GetNumBytes S n;
          size' = (if minSize \<ge> numBytes then minSize else numBytes);
          array = copy_to 0 (BN_bn2bin S n) (replicate size' 0)
      in if littleEndian then rev (take numBytes array) @ drop numBytes array else array)"

definition AsHexStr :: "openssl \<Rightarrow> nat \<Rightarrow> u8 list" where
  "AsHexStr S n = BN_bn2hex S n"

text \<open>What a \<open>SHA1Hash\<close> has been given so far is a list of bytes; its digest is \<open>SHA1\<close> of it.\<close>

definition number_bytes :: "openssl \<Rightarrow> nat \<Rightarrow> u8 list" where
  "number_bytes S n = take (GetNumBytes S n) (AsByteArray S 0 True n)"

fun UpdateBigNumbers :: "openssl \<Rightarrow> nat list \<Rightarrow> u8 list \<Rightarrow> u8 list" where
  "UpdateBigNumbers S [] dat = dat"
| "UpdateBigNumbers S (n # ns) dat = UpdateBigNumbers S ns (dat @ number_bytes S n)"

section \<open>Values and bytes\<close>

definition le_value :: "u8 list \<Rightarrow> nat" where
  "le_value bs = be_value (rev bs)"

lemma be_value_simps [simp]: "be_value [] = 0" "be_value (bs @ [b]) = 256 * be_value bs + unat b"
  by (simp_all add: be_value_def)

lemma le_value_simps [simp]: "le_value [] = 0" "le_value (b # bs) = 256 * le_value bs + unat b"
  by (simp_all add: le_value_def)

lemma le_value_zeros [simp]: "le_value (bs @ replicate k 0) = le_value bs"
proof -
  have "le_value (replicate k 0) = 0" by (induction k) auto
  then show ?thesis by (induction bs) auto
qed

lemma byte_less: "unat (b :: u8) < 256"
  using unsigned_less[of b] by simp

lemma le_value_less: "le_value bs < 256 ^ length bs"
proof (induction bs)
  case (Cons b bs)
  then show ?case using byte_less[of b] by simp
qed simp

lemma be_bytes_0 [simp]: "be_bytes 0 = []"
  by (simp add: be_bytes.simps)

lemma be_bytes_value: "be_value (be_bytes n) = n"
proof (induction n rule: be_bytes.induct)
  case (1 n)
  show ?case
  proof (cases "n = 0")
    case False
    have "unat (of_nat (n mod 256) :: u8) = n mod 256" by (simp add: unat_of_nat)
    then show ?thesis using 1[OF False] False by (subst be_bytes.simps) simp
  qed simp
qed

lemma length_be_bytes: "n < 256 ^ k \<Longrightarrow> length (be_bytes n) \<le> k"
proof (induction k arbitrary: n)
  case (Suc k)
  then have "n div 256 < 256 ^ k" by (simp add: div_less_iff_less_mult mult.commute)
  then show ?case using Suc.IH by (subst be_bytes.simps) auto
qed simp

text \<open>Bytes, the least significant first, are their number's bytes and zeros.\<close>

lemma be_bytes_le_value: "\<exists>k. bs = rev (be_bytes (le_value bs)) @ replicate k 0"
proof (induction bs)
  case (Cons b bs)
  then obtain k where k: "bs = rev (be_bytes (le_value bs)) @ replicate k 0" by blast
  let ?n = "256 * le_value bs + unat b"
  have n: "?n div 256 = le_value bs" "?n mod 256 = unat b" using byte_less[of b] by simp_all
  show ?case
  proof (cases "?n = 0")
    case True
    then have "b = 0" "le_value bs = 0" by (simp_all add: unat_eq_0)
    then have "b # bs = rev (be_bytes (le_value (b # bs))) @ replicate (Suc k) 0" using k by simp
    then show ?thesis by blast
  next
    case False
    then have "be_bytes ?n = be_bytes (le_value bs) @ [b]" using n by (subst be_bytes.simps) simp
    then have "b # bs = rev (be_bytes (le_value (b # bs))) @ replicate k 0" using k by simp
    then show ?thesis by blast
  qed
qed simp

lemma le_value_inject: "length xs = length ys \<Longrightarrow> le_value xs = le_value ys \<Longrightarrow> xs = ys"
proof (induction xs ys rule: list_induct2)
  case (Cons x xs y ys)
  from Cons.prems have e: "256 * le_value xs + unat x = 256 * le_value ys + unat y" by simp
  have "(256 * le_value xs + unat x) mod 256 = unat x" "(256 * le_value ys + unat y) mod 256 = unat y"
    "(256 * le_value xs + unat x) div 256 = le_value xs" "(256 * le_value ys + unat y) div 256 = le_value ys"
    using byte_less[of x] byte_less[of y] by simp_all
  then have "unat x = unat y" "le_value xs = le_value ys" by (simp_all only: e)
  then show ?case using Cons.IH by (simp add: word_unat_eq_iff)
qed simp

section \<open>The operations, as documented\<close>

lemma length_SHA1: "documented_ssl S \<Longrightarrow> length (SHA1 S bs) = 20"
  by (simp add: documented_ssl_def)

lemma SetBinary_value: "documented_ssl S \<Longrightarrow> SetBinary S bs = le_value bs"
  by (simp add: documented_ssl_def SetBinary_def le_value_def)

lemma AsByteArray_bytes:
  assumes "documented_ssl S"
  shows "AsByteArray S k True n = rev (be_bytes n) @ replicate (k - length (be_bytes n)) 0"
  using assms by (simp add: documented_ssl_def AsByteArray_def GetNumBytes_def copy_to_def Let_def)

lemma number_bytes_rev: "documented_ssl S \<Longrightarrow> number_bytes S n = rev (be_bytes n)"
  by (simp add: number_bytes_def AsByteArray_bytes) (simp add: documented_ssl_def GetNumBytes_def)

lemma bn_arithmetic:
  assumes "documented_ssl S"
  shows "bn_plus S a b = a + b" "bn_times S a b = a * b" "m > 0 \<Longrightarrow> bn_modulo S a m = a mod m"
    "m > 0 \<Longrightarrow> ModExp S a e m = a ^ e mod m" "GetNumBytes S n = length (be_bytes n)"
  using assms by (simp_all add: documented_ssl_def bn_plus_def bn_times_def bn_modulo_def ModExp_def GetNumBytes_def)

lemmas ssl_simps = SetBinary_value bn_arithmetic length_SHA1

text \<open>Numbers that fit into an array of fixed size, and bytes of such an array, are each other's images.\<close>

lemma length_fixed: "documented_ssl S \<Longrightarrow> n < 256 ^ k \<Longrightarrow> length (AsByteArray S k True n) = k"
  using length_be_bytes[of n k] by (simp add: AsByteArray_bytes)

lemma fixed_value: "documented_ssl S \<Longrightarrow> le_value (AsByteArray S k True n) = n"
  by (simp add: AsByteArray_bytes) (simp add: le_value_def be_bytes_value)

lemma fixed_bytes:
  assumes "documented_ssl S"
  shows "AsByteArray S (length bs) True (le_value bs) = bs"
  using length_fixed[OF assms le_value_less] fixed_value[OF assms] by (intro le_value_inject) auto

lemma number_bytes_value: "documented_ssl S \<Longrightarrow> le_value (number_bytes S n) = n"
  by (simp add: number_bytes_rev le_value_def be_bytes_value)

lemma UpdateBigNumbers_bytes: "UpdateBigNumbers S ns dat = dat @ concat (map (number_bytes S) ns)"
  by (induction ns arbitrary: dat) auto

subsection \<open>Hexadecimal text\<close>

lemma hex_digit_value_digit: "d < 16 \<Longrightarrow> hex_digit_value (hex_digit d) = Some d"
proof -
  assume "d < 16"
  moreover have "\<forall>d \<in> set [0..<16]. hex_digit_value (hex_digit d) = Some d" by code_simp
  ultimately show ?thesis by simp
qed

lemma byte_hex_digits:
  "hex_digit_value (hex_digit (unat (b :: u8) div 16)) = Some (unat b div 16)"
  "hex_digit_value (hex_digit (unat b mod 16)) = Some (unat b mod 16)"
  using byte_less[of b] by (auto intro: hex_digit_value_digit)

lemma hex_value_snoc: "hex_value (str @ [c]) = 16 * hex_value str + the (hex_digit_value c)"
  by (simp add: hex_value_def)

lemma hex_value_bytes: "hex_value (concat (map byte_hex bs)) = be_value bs"
proof (induction bs rule: rev_induct)
  case (snoc b bs)
  have "hex_value (str @ byte_hex b) = 256 * hex_value str + unat b" for str
    using hex_value_snoc[of "str @ [hex_digit (unat b div 16)]" "hex_digit (unat b mod 16)"]
    by (simp add: hex_value_snoc byte_hex_digits byte_hex_def)
  then show ?case using snoc.IH by simp
qed (simp add: hex_value_def)

lemma is_hex_text: "is_hex (hex_text n)"
proof (cases "n = 0")
  case False
  then have "be_bytes n \<noteq> []" by (subst be_bytes.simps) simp
  then show ?thesis using False byte_hex_digits by (auto simp: is_hex_def hex_text_def byte_hex_def)
qed (simp add: is_hex_def hex_text_def hex_digit_value_def)

lemma hex_value_text: "hex_value (hex_text n) = n"
proof (cases "n = 0")
  case True
  then show ?thesis by (simp add: hex_text_def hex_value_def hex_digit_value_def)
qed (simp add: hex_text_def hex_value_bytes be_bytes_value)

lemma hex_roundtrip: "documented_ssl S \<Longrightarrow> SetHexStr S (AsHexStr S n) old = n"
  using is_hex_text[of n] by (simp add: documented_ssl_def SetHexStr_def AsHexStr_def hex_value_text)

lemma SetHexStr_value: "documented_ssl S \<Longrightarrow> is_hex str \<Longrightarrow> SetHexStr S str old = hex_value str"
  by (simp add: documented_ssl_def SetHexStr_def)

lemma hex_value_less: "\<forall>c \<in> set str. hex_digit_value c \<noteq> None \<Longrightarrow> hex_value str < 16 ^ length str"
proof (induction str rule: rev_induct)
  case (snoc c str)
  then obtain d where d: "hex_digit_value c = Some d" "d < 16"
    by (auto simp: hex_digit_value_def word_le_nat_alt split: if_splits)
  then show ?case using snoc by (simp add: hex_value_snoc)
qed (simp add: hex_value_def)

subsection \<open>OpenSSL's functions on natural numbers\<close>

text \<open>The documented functions, with a checksum of 20 bytes in the place of the hashes.\<close>

definition checksum :: "u8 list \<Rightarrow> u8 list" where
  "checksum bs = map (\<lambda>i. of_nat i + sum_list bs) [0..<20]"

definition sample_ssl :: openssl where
  "sample_ssl = \<lparr>SHA1 = checksum, HMAC_sha1 = (\<lambda>k bs. checksum (k @ bs)), BN_bin2bn = be_value, BN_bn2bin = be_bytes,
     BN_num_bytes = (\<lambda>n. length (be_bytes n)), BN_hex2bn = (\<lambda>str old. if is_hex str then hex_value str else old),
     BN_bn2hex = hex_text, BN_add = (+), BN_mul = (*), BN_mod = (mod), BN_mod_exp = (\<lambda>a e m. a ^ e mod m)\<rparr>"

lemma sample_ssl_documented: "documented_ssl sample_ssl"
  by (simp add: documented_ssl_def sample_ssl_def checksum_def)

end
