(* ===== verification/Totp.thy ===== *)
theory Totp
  imports BigNumbers TextUtil
begin

text \<open>
  The one-time passwords of the realm server (\<open>authserver/Authentication/TOTP.cpp\<close>): the key is decoded from
  base 32 text, and a token is six decimal digits of its HMAC of the time in steps of 30 seconds. Texts are the
  bytes before the terminator.
\<close>

section \<open>Base 32\<close>

definition base32_blank :: "u8 \<Rightarrow> bool" where
  "base32_blank ch \<longleftrightarrow> ch = 32 \<or> ch = 9 \<or> ch = 13 \<or> ch = 10 \<or> ch = 45"

text \<open>A digit, after the characters that are often mistyped have been replaced: \<open>0\<close> by \<open>O\<close>, \<open>1\<close> by \<open>L\<close>, \<open>8\<close> by \<open>B\<close>.\<close>

definition base32_digit :: "u8 \<Rightarrow> u8 option" where
  "base32_digit c =
     (let ch = (if c = 48 then 79 else if c = 49 then 76 else if c = 56 then 66 else c)
      in if (65 \<le> ch \<and> ch \<le> 90) \<or> (97 \<le> ch \<and> ch \<le> 122) then Some ((ch AND 0x1F) - 1)
         else if 50 \<le> ch \<and> ch \<le> 55 then Some (ch - 24) else None)"

text \<open>
  The loop, with the bits that are left in \<open>buffer\<close>. The upper bits of \<open>buffer\<close> are shifted out of the
  32 bits, and are never looked at again. The result is the returned number and the array.
\<close>

definition base32_finish :: "nat \<Rightarrow> nat \<Rightarrow> u8 list \<Rightarrow> int \<times> u8 list" where
  "base32_finish bufSize count result = (int count, if count < bufSize then result[count := 0] else result)"

fun base32_loop :: "nat \<Rightarrow> u8 list \<Rightarrow> u32 \<Rightarrow> nat \<Rightarrow> nat \<Rightarrow> u8 list \<Rightarrow> int \<times> u8 list" where
  "base32_loop bufSize [] buffer bitsLeft count result = base32_finish bufSize count result"
| "base32_loop bufSize (ch # ptr) buffer bitsLeft count result =
     (if \<not> count < bufSize then base32_finish bufSize count result
      else if base32_blank ch then base32_loop bufSize ptr buffer bitsLeft count result
      else
        (case base32_digit ch of
           None \<Rightarrow> (-1, result)
         | Some d \<Rightarrow>
             (let buffer1 = push_bit 5 buffer OR ucast d; bits1 = bitsLeft + 5
              in if bits1 \<ge> 8
                 then base32_loop bufSize ptr buffer1 (bits1 - 8) (count + 1)
                        (result[count := ucast (drop_bit (bits1 - 8) buffer1)])
                 else base32_loop bufSize ptr buffer1 bits1 count result)))"

definition base32_decode :: "u8 list \<Rightarrow> u8 list \<Rightarrow> nat \<Rightarrow> int \<times> u8 list" where
  "base32_decode encoded result bufSize = base32_loop bufSize encoded 0 0 0 result"

section \<open>Tokens\<close>

text \<open>The number of the step, the highest byte first.\<close>

definition totp_challenge :: "u64 \<Rightarrow> u8 list" where
  "totp_challenge timestamp = map (\<lambda>i. ucast (drop_bit (8 * (7 - i)) timestamp)) [0..<8]"

definition GenerateToken :: "openssl \<Rightarrow> u64 \<Rightarrow> u8 list \<Rightarrow> u32" where
  "GenerateToken S now b32key =
     (let bufsize = (length b32key + 7) div 8 * 5;
          encoded = snd (base32_decode b32key (replicate bufsize 0) bufsize);
          hmacRes = HMAC_sha1 S encoded (totp_challenge (now div 30));
          offset = unat (hmacRes ! 19 AND 0xF);
          truncHash = push_bit 24 (ucast (hmacRes ! offset)) OR push_bit 16 (ucast (hmacRes ! (offset + 1)))
                      OR push_bit 8 (ucast (hmacRes ! (offset + 2))) OR ucast (hmacRes ! (offset + 3))
      in (truncHash AND 0x7FFFFFFF) mod 1000000)"

text \<open>\<open>atoi\<close> as in glibc: \<open>strtol\<close>, which stops at the ends of 64 bits, cut to 32 bits.\<close>

definition atoi_u32 :: "u8 list \<Rightarrow> u32" where
  "atoi_u32 bs =
     (let s1 = dropWhile isspace (map (\<lambda>c. char_of (unat c)) (takeWhile (\<lambda>c. c \<noteq> 0) bs));
          neg = (case s1 of [] \<Rightarrow> False | c # _ \<Rightarrow> c = CHR ''-'');
          s2 = (case s1 of [] \<Rightarrow> [] | c # r \<Rightarrow> if c = CHR ''-'' \<or> c = CHR ''+'' then r else s1);
          v = digits_val (takeWhile isdigit s2)
      in if v \<ge> 2 ^ 63 then (if neg then 0 else - 1) else if neg then - of_nat v else of_nat v)"

section \<open>The bits of the text\<close>

text \<open>Reference: each digit stands for 5 bits, the highest first, and each byte is made of the next 8 bits.\<close>

definition bits5 :: "u8 \<Rightarrow> bool list" where
  "bits5 d = map (\<lambda>i. bit d (4 - i)) [0..<5]"

definition byte_of_bits :: "bool list \<Rightarrow> u8" where
  "byte_of_bits bs = horner_sum of_bool 2 (rev bs)"

fun bytes_of_bits :: "bool list \<Rightarrow> u8 list" where
  "bytes_of_bits bs = (if length bs < 8 then [] else byte_of_bits (take 8 bs) # bytes_of_bits (drop 8 bs))"

declare bytes_of_bits.simps [simp del]

definition base32_digits :: "u8 list \<Rightarrow> u8 list" where
  "base32_digits ptr = map (the \<circ> base32_digit) (filter (\<lambda>c. \<not> base32_blank c) ptr)"

definition base32_text :: "u8 list \<Rightarrow> bool" where
  "base32_text ptr \<longleftrightarrow> (\<forall>c \<in> set ptr. base32_blank c \<or> base32_digit c \<noteq> None)"

lemma length_bits5 [simp]: "length (bits5 d) = 5"
  by (simp add: bits5_def)

lemma nth_bits5: "i < 5 \<Longrightarrow> bits5 d ! i = bit d (4 - i)"
  by (simp add: bits5_def)

lemma letter_small:
  assumes "(65 \<le> ch \<and> ch \<le> 90) \<or> (97 \<le> ch \<and> ch \<le> (122 :: u8))"
  shows "(ch AND 0x1F) - 1 < 32"
proof -
  have "\<forall>n \<in> set ([65..<91] @ [97..<123]). (of_nat n AND 0x1F) - 1 < (32 :: u8)" by code_simp
  moreover have "unat ch \<in> set ([65..<91] @ [97..<123])" using assms
    by (simp only: set_append set_upt Un_iff atLeastLessThan_iff word_le_nat_alt) auto
  ultimately have "(of_nat (unat ch) AND 0x1F) - 1 < (32 :: u8)" by blast
  then show ?thesis by simp
qed

lemma base32_digit_small:
  assumes "base32_digit c = Some d"
  shows "d < 32"
proof -
  define ch where "ch = (if c = 48 then 79 else if c = 49 then 76 else if c = 56 then 66 else c)"
  have "d = (ch AND 0x1F) - 1 \<and> ((65 \<le> ch \<and> ch \<le> 90) \<or> (97 \<le> ch \<and> ch \<le> 122)) \<or> d = ch - 24 \<and> 50 \<le> ch \<and> ch \<le> 55"
    using assms unfolding base32_digit_def Let_def ch_def[symmetric] by (simp split: if_splits)
  moreover have "ch - 24 < 32" if "50 \<le> ch" "ch \<le> 55"
    using that by (simp add: word_less_nat_alt word_le_nat_alt unat_sub_le)
  ultimately show ?thesis using letter_small by blast
qed

lemma high_bits:
  assumes "(d :: u8) < 32" and "5 \<le> i"
  shows "\<not> bit d i"
proof
  assume "bit d i"
  then have "bit (unat d) i" by (simp add: bit_unsigned_iff)
  moreover have "unat d < 2 ^ 5" using assms(1) by (simp add: word_less_nat_alt)
  then have "take_bit 5 (unat d) = unat d" by (simp add: take_bit_nat_eq_self)
  ultimately show False using assms(2) by (metis bit_take_bit_iff not_le)
qed

lemma bit_byte_of_bits: "length bs = 8 \<Longrightarrow> i < 8 \<Longrightarrow> bit (byte_of_bits bs) i = bs ! (7 - i)"
  by (simp add: byte_of_bits_def bit_horner_sum_bit_iff rev_nth)

text \<open>The lower bits of the buffer are the bits \<open>p\<close> that are left.\<close>

definition pending_bits :: "u32 \<Rightarrow> bool list \<Rightarrow> bool" where
  "pending_bits buffer p \<longleftrightarrow> length p < 8 \<and> (\<forall>i < length p. bit buffer i = p ! (length p - 1 - i))"

lemma shifted_bits:
  assumes "pending_bits buffer p" and "d < (32 :: u8)" and "i < length p + 5"
  shows "bit (push_bit 5 buffer OR ucast d) i = (p @ bits5 d) ! (length p + 4 - i)"
proof (cases "i < 5")
  case True
  then have "(p @ bits5 d) ! (length p + (4 - i)) = bit d i" by (simp only: nth_append_length_plus) (simp add: nth_bits5)
  then have "(p @ bits5 d) ! (length p + 4 - i) = bit d i" using True by simp
  moreover have "bit (push_bit 5 buffer OR ucast d) i = bit d i" using True by (simp add: bit_simps)
  ultimately show ?thesis by simp
next
  case False
  have j: "i - 5 < length p" "length p + 4 - i = length p - 1 - (i - 5)" "length p + 4 - i < length p" "i < 32"
    using False assms(1,3) by (auto simp: pending_bits_def)
  then have "(p @ bits5 d) ! (length p + 4 - i) = bit buffer (i - 5)"
    using assms(1) by (simp add: nth_append pending_bits_def)
  moreover have "bit (push_bit 5 buffer OR ucast d) i = bit buffer (i - 5)"
    using False j(4) high_bits[OF assms(2), of i] by (simp add: bit_simps)
  ultimately show ?thesis by simp
qed

lemma bytes_of_bits_short: "length bs < 8 \<Longrightarrow> bytes_of_bits bs = []"
  by (simp add: bytes_of_bits.simps)

lemma bytes_of_bits_long: "length bs \<ge> 8 \<Longrightarrow> bytes_of_bits bs = byte_of_bits (take 8 bs) # bytes_of_bits (drop 8 bs)"
  by (subst bytes_of_bits.simps) simp

lemma shift_out:
  assumes "pending_bits buffer p" and "d < 32" and "length p + 5 \<ge> 8"
  shows "ucast (drop_bit (length p - 3) (push_bit 5 buffer OR ucast d)) = byte_of_bits (take 8 (p @ bits5 d))"
    and "pending_bits (push_bit 5 buffer OR ucast d) (drop 8 (p @ bits5 d))"
proof -
  let ?buffer = "push_bit 5 buffer OR ucast d" and ?q = "p @ bits5 d"
  have p: "length p < 8" using assms(1) by (simp add: pending_bits_def)
  show "ucast (drop_bit (length p - 3) ?buffer) = byte_of_bits (take 8 ?q)"
  proof (rule bit_word_eqI)
    fix i assume i: "i < LENGTH(8)"
    have e: "length p - 3 + i < length p + 5" "length p + 4 - (length p - 3 + i) = 7 - i" using i assms(3) by auto
    have "bit (ucast (drop_bit (length p - 3) ?buffer) :: u8) i = bit ?buffer (length p - 3 + i)"
      using i by (simp only: bit_ucast_iff bit_drop_bit_eq comp_def) simp
    also have "\<dots> = ?q ! (7 - i)" using shifted_bits[OF assms(1,2) e(1)] e(2) by simp
    also have "\<dots> = bit (byte_of_bits (take 8 ?q)) i" using i assms(3) by (simp add: bit_byte_of_bits del: take_append)
    finally show "bit (ucast (drop_bit (length p - 3) ?buffer) :: u8) i = bit (byte_of_bits (take 8 ?q)) i" .
  qed
  show "pending_bits ?buffer (drop 8 ?q)"
    unfolding pending_bits_def
  proof (intro conjI allI impI)
    show "length (drop 8 ?q) < 8" using p by simp
    fix i assume i: "i < length (drop 8 ?q)"
    have "drop 8 q ! (length (drop 8 q) - 1 - i) = q ! (length q - 1 - i)" if "i < length (drop 8 q)" for q :: "bool list"
      using that by simp
    from this[OF i] have "drop 8 ?q ! (length (drop 8 ?q) - 1 - i) = ?q ! (length ?q - 1 - i)" .
    moreover have "length ?q - 1 - i = length p + 4 - i" "i < length p + 5" using i by auto
    ultimately show "bit ?buffer i = drop 8 ?q ! (length (drop 8 ?q) - 1 - i)"
      using shifted_bits[OF assms(1,2), of i] by (simp only:)
  qed
qed

lemma shift_in:
  assumes "pending_bits buffer p" and "d < 32" and "length p + 5 < 8"
  shows "pending_bits (push_bit 5 buffer OR ucast d) (p @ bits5 d)"
  using assms(3) shifted_bits[OF assms(1,2)] by (simp add: pending_bits_def add.commute)

lemma base32_loop_bits:
  assumes "base32_text ptr" and "pending_bits buffer p" and "count \<le> bufSize" and "length result = bufSize"
  shows "base32_loop bufSize ptr buffer (length p) count result =
    (let out = take (bufSize - count) (bytes_of_bits (p @ concat (map bits5 (base32_digits ptr))))
     in base32_finish bufSize (count + length out) (copy_to count out result))"
  using assms
proof (induction ptr arbitrary: buffer p count result)
  case Nil
  then show ?case by (simp add: base32_digits_def bytes_of_bits_short pending_bits_def copy_to_def)
next
  case (Cons ch ptr)
  have tx: "base32_text ptr" using Cons.prems(1) by (simp add: base32_text_def)
  show ?case
  proof (cases "count < bufSize \<and> \<not> base32_blank ch")
    case False
    then show ?thesis
      using Cons.IH[OF tx Cons.prems(2-4)] Cons.prems(3,4) by (auto simp: base32_digits_def copy_to_def)
  next
    case True
    then obtain d where d: "base32_digit ch = Some d" using Cons.prems(1) by (auto simp: base32_text_def)
    note small = base32_digit_small[OF d]
    let ?q = "p @ bits5 d" and ?buffer = "push_bit 5 buffer OR ucast d :: u32" and ?rest = "concat (map bits5 (base32_digits ptr))"
    have digits: "base32_digits (ch # ptr) = d # base32_digits ptr" using True d by (simp add: base32_digits_def)
    show ?thesis
    proof (cases "length p + 5 \<ge> 8")
      case False
      then show ?thesis
        using Cons.IH[OF tx shift_in[OF Cons.prems(2) small] Cons.prems(3,4)] True d digits by (simp add: Let_def)
    next
      case eight: True
      let ?byte = "byte_of_bits (take 8 ?q)" and ?more = "take (bufSize - Suc count) (bytes_of_bits (drop 8 ?q @ ?rest))"
      have len: "length (drop 8 ?q) = length p - 3" using eight by simp
      have "bytes_of_bits (?q @ ?rest) = ?byte # bytes_of_bits (drop 8 ?q @ ?rest)"
        using eight by (subst bytes_of_bits_long) simp_all
      then have out: "take (bufSize - count) (bytes_of_bits (?q @ ?rest)) = ?byte # ?more"
        using True by (simp add: Suc_diff_Suc[symmetric] del: append_assoc)
      have "length (result[count := ?byte]) = bufSize" using Cons.prems(4) by simp
      note IH = Cons.IH[OF tx shift_out(2)[OF Cons.prems(2) small eight] _ this, of "Suc count", unfolded len]
      have "copy_to (Suc count) ?more (result[count := ?byte]) = copy_to count (?byte # ?more) result"
        using True Cons.prems(4) by (simp add: copy_to_def take_Suc_conv_app_nth)
      then show ?thesis
        using IH True d eight digits out shift_out(1)[OF Cons.prems(2) small eight] by (simp add: Let_def)
    qed
  qed
qed

section \<open>Keys\<close>

text \<open>
  Reference encoding of a key (RFC 4648): the bits of its bytes, in groups of 5, the last one filled up with
  zeros; the digits are \<open>A\<close> to \<open>Z\<close> and \<open>2\<close> to \<open>7\<close>.
\<close>

definition bits8 :: "u8 \<Rightarrow> bool list" where
  "bits8 b = map (\<lambda>i. bit b (7 - i)) [0..<8]"

definition digit_of_bits :: "bool list \<Rightarrow> u8" where
  "digit_of_bits bs = horner_sum of_bool 2 (rev bs)"

fun quintets :: "bool list \<Rightarrow> u8 list" where
  "quintets bs = (if bs = [] then [] else digit_of_bits (take 5 (bs @ replicate 5 False)) # quintets (drop 5 bs))"

declare quintets.simps [simp del]

definition digit_text :: "u8 \<Rightarrow> u8" where
  "digit_text d = (if d < 26 then 65 + d else 24 + d)"

definition base32_encode :: "u8 list \<Rightarrow> u8 list" where
  "base32_encode key = map digit_text (quintets (concat (map bits8 key)))"

lemma length_bits8 [simp]: "length (bits8 b) = 8"
  by (simp add: bits8_def)

lemma byte_of_bits8 [simp]: "byte_of_bits (bits8 b) = b"
proof (rule bit_word_eqI)
  fix i assume "i < LENGTH(8)"
  then show "bit (byte_of_bits (bits8 b)) i = bit b i" using nth_upt[of 0 "7 - i" 8] by (simp add: bit_byte_of_bits bits8_def)
qed

lemma bytes_of_bits8: "length rest < 8 \<Longrightarrow> bytes_of_bits (concat (map bits8 key) @ rest) = key"
proof (induction key)
  case Nil
  then show ?case by (simp add: bytes_of_bits_short)
next
  case (Cons b key)
  then show ?case by (subst bytes_of_bits_long) simp_all
qed

lemma bits5_digit:
  assumes "length bs = 5"
  shows "bits5 (digit_of_bits bs) = bs" and "digit_of_bits bs < 32"
proof -
  have b: "bit (digit_of_bits bs) i \<longleftrightarrow> i < 5 \<and> bs ! (4 - i)" for i
    using assms bit_imp_le_length[of "digit_of_bits bs" i] by (auto simp: digit_of_bits_def bit_horner_sum_bit_iff rev_nth)
  show "bits5 (digit_of_bits bs) = bs"
    using assms by (intro nth_equalityI) (auto simp: nth_bits5 b)
  have "take_bit 5 (digit_of_bits bs) = digit_of_bits bs"
    by (rule bit_word_eqI) (auto simp: bit_take_bit_iff b)
  then have "take_bit 5 (unat (digit_of_bits bs)) = unat (digit_of_bits bs)"
    by (metis unsigned_take_bit_eq)
  then have "unat (digit_of_bits bs) < 2 ^ 5" by (metis take_bit_nat_less_exp)
  then show "digit_of_bits bs < 32" by (simp add: word_less_nat_alt)
qed

lemma quintets_bits: "\<exists>k < 5. concat (map bits5 (quintets bs)) = bs @ replicate k False" "\<forall>d \<in> set (quintets bs). d < 32"
proof (induction bs rule: quintets.induct)
  case (1 bs)
  {
    case 1
    show ?case
    proof (cases "bs = [] \<or> length bs \<le> 5")
      case True
      have five: "length (bs @ replicate (5 - length bs) False) = 5" if "length bs \<le> 5" using that by simp
      show ?thesis
        using True bits5_digit(1)[OF five] by (cases "bs = []") (auto simp: quintets.simps[of bs] quintets.simps[of "[]"] min_def intro: exI[of _ "5 - length bs"])
    next
      case False
      then obtain k where k: "k < 5" "concat (map bits5 (quintets (drop 5 bs))) = drop 5 bs @ replicate k False"
        using "1.IH"(1) by auto
      have five: "length (take 5 bs) = 5" using False by simp
      show ?thesis
        using False k by (auto simp: quintets.simps[of bs] bits5_digit(1)[OF five] append_assoc[symmetric] simp del: append_assoc intro!: exI[of _ k])
    qed
  next
    case 2
    have five: "length (take 5 (bs @ replicate 5 False)) = 5" by simp
    show ?case
      using "1.IH"(2) bits5_digit(2)[OF five] by (subst quintets.simps) auto
  }
qed

lemma digit_text_digit:
  assumes "d < 32"
  shows "base32_digit (digit_text d) = Some d" and "\<not> base32_blank (digit_text d)"
proof -
  have "\<forall>n \<in> set [0..<32]. base32_digit (digit_text (of_nat n)) = Some (of_nat n) \<and> \<not> base32_blank (digit_text (of_nat n))"
    by code_simp
  moreover have "unat d \<in> set [0..<32]" using assms by (simp add: word_less_nat_alt)
  ultimately have "base32_digit (digit_text (of_nat (unat d))) = Some (of_nat (unat d)) \<and> \<not> base32_blank (digit_text (of_nat (unat d)))"
    by blast
  then show "base32_digit (digit_text d) = Some d" and "\<not> base32_blank (digit_text d)" by simp_all
qed

lemma base32_digits_encode:
  "base32_digits (base32_encode key) = quintets (concat (map bits8 key))" "base32_text (base32_encode key)"
  using digit_text_digit quintets_bits(2)[of "concat (map bits8 key)"]
  by (auto simp: base32_digits_def base32_encode_def base32_text_def filter_map comp_def intro!: map_idI)

text \<open>Property C39: a key in base 32 is decoded to its bytes, whatever blanks and dashes are between the digits, whether
  letters are small or capital and \<open>0\<close>, \<open>1\<close>, \<open>8\<close> are typed for \<open>O\<close>, \<open>L\<close>, \<open>B\<close>: the array \<open>GenerateToken\<close> makes for it
  is long enough, and behind the key it holds only zeros.\<close>

theorem token_key_decoded:
  assumes "base32_text txt" and "base32_digits txt = base32_digits (base32_encode key)"
  shows "(let n = (length txt + 7) div 8 * 5
    in base32_decode txt (replicate n 0) n = (int (length key), key @ replicate (n - length key) 0))"
proof -
  define n where "n = (length txt + 7) div 8 * 5"
  let ?bits = "concat (map bits5 (base32_digits txt))"
  obtain k where k: "k < 5" "?bits = concat (map bits8 key) @ replicate k False"
    using quintets_bits(1)[of "concat (map bits8 key)"] assms(2) base32_digits_encode(1) by auto
  have flat: "length (concat (map f xs)) = c * length xs" if "\<And>x. length (f x) = c" for f :: "u8 \<Rightarrow> bool list" and xs c
    using that by (induction xs) simp_all
  have "5 * length (base32_digits txt) = 8 * length key + k"
    using arg_cong[OF k(2), of length] flat[of bits5 5] flat[of bits8 8] by simp
  moreover have "length (base32_digits txt) \<le> length txt" by (simp add: base32_digits_def length_filter_le)
  ultimately have "8 * length key \<le> 5 * length txt" by linarith
  moreover have "length txt \<le> (length txt + 7) div 8 * 8"
    using div_mult_mod_eq[of "length txt + 7" 8] mod_less_divisor[of 8 "length txt + 7"] by linarith
  ultimately have n: "length key \<le> n" unfolding n_def by linarith
  have bytes: "bytes_of_bits ?bits = key" using k by (simp add: bytes_of_bits8)
  have "pending_bits 0 []" by (simp add: pending_bits_def)
  from base32_loop_bits[OF assms(1) this le0 length_replicate, of n 0]
  have "base32_decode txt (replicate n 0) n = base32_finish n (length key) (copy_to 0 key (replicate n 0))"
    using n bytes by (simp add: base32_decode_def)
  also have "copy_to 0 key (replicate n 0) = key @ replicate (n - length key) 0" by (simp add: copy_to_def)
  also have "base32_finish n (length key) \<dots> = (int (length key), \<dots>)"
  proof (cases "length key < n")
    case True
    then have "(key @ replicate (n - length key) 0)[length key := 0] = key @ replicate (n - length key) 0"
      by (subst list_update_same_conv) (simp_all add: nth_append)
    then show ?thesis by (simp add: base32_finish_def)
  qed (simp add: base32_finish_def)
  finally show ?thesis by (simp add: n_def Let_def)
qed

theorem token_key_decoded_witness:
  "base32_decode [109, 122, 45, 120, 87, 32, 54] (replicate 5 0) 5 = (3, [102, 111, 111, 0, 0])"
proof -
  have "base32_text [109, 122, 45, 120, 87, 32, 54]" by code_simp
  moreover have "base32_digits [109, 122, 45, 120, 87, 32, 54] = base32_digits (base32_encode [102, 111, 111])" by code_simp
  ultimately show ?thesis using token_key_decoded[of "[109, 122, 45, 120, 87, 32, 54]" "[102, 111, 111]"] by (simp add: numeral_2_eq_2)
qed

end
