(* ===== verification/Logon.thy ===== *)
theory Logon
  imports Totp
begin

text \<open>
  The realm server's side of a login (\<open>authserver/Server/AuthSession.cpp\<close>, on top of
  \<open>shared/Networking/Socket.h\<close>): commands are cut out of the received bytes, the challenge and the proof of
  the SRP6 protocol prove the password, the reconnection proves the session key, and the list of realms is
  sent. OpenSSL's functions, the random numbers, the rows of the account database, the configuration and the
  conversion of names to upper case (\<open>Utf8ToUpperOnlyLatin\<close>, made with the vendored UTF-8 library) are
  parameters. Packets are lists of bytes: they are filled from front to end (\<open>write_fields_end\<close> in \<open>Buffers\<close>).
\<close>

section \<open>Client builds\<close>

record RealmBuildInfo =
  bi_Build :: int
  bi_MajorVersion :: u8
  bi_MinorVersion :: u8
  bi_BugfixVersion :: u8

text \<open>The tables, without their terminators and without the letter of the hot fix, which nobody reads.\<close>

definition build_info :: "int \<Rightarrow> u8 \<Rightarrow> u8 \<Rightarrow> u8 \<Rightarrow> RealmBuildInfo" where
  "build_info b x y z = \<lparr>bi_Build = b, bi_MajorVersion = x, bi_MinorVersion = y, bi_BugfixVersion = z\<rparr>"

definition PostBcAcceptedClientBuilds :: "RealmBuildInfo list" where
  "PostBcAcceptedClientBuilds =
     [build_info 15595 4 3 4, build_info 14545 4 2 2, build_info 13623 4 0 6, build_info 13930 3 3 5,
      build_info 12340 3 3 5, build_info 11723 3 3 3, build_info 11403 3 3 2, build_info 11159 3 3 0,
      build_info 10505 3 2 2, build_info 9947 3 1 3, build_info 8606 2 4 3]"

definition PreBcAcceptedClientBuilds :: "RealmBuildInfo list" where
  "PreBcAcceptedClientBuilds = [build_info 6141 1 12 3, build_info 6005 1 12 2, build_info 5875 1 12 1]"

definition IsPreBCAcceptedClientBuild :: "int \<Rightarrow> bool" where
  "IsPreBCAcceptedClientBuild build \<longleftrightarrow> build \<in> set (map bi_Build PreBcAcceptedClientBuilds)"

definition IsPostBCAcceptedClientBuild :: "int \<Rightarrow> bool" where
  "IsPostBCAcceptedClientBuild build \<longleftrightarrow> build \<in> set (map bi_Build PostBcAcceptedClientBuilds)"

definition IsAcceptedClientBuild :: "int \<Rightarrow> bool" where
  "IsAcceptedClientBuild build \<longleftrightarrow> IsPostBCAcceptedClientBuild build \<or> IsPreBCAcceptedClientBuild build"

definition GetBuildInfo :: "int \<Rightarrow> RealmBuildInfo option" where
  "GetBuildInfo build =
     (case find (\<lambda>i. bi_Build i = build) PostBcAcceptedClientBuilds of
        Some i \<Rightarrow> Some i
      | None \<Rightarrow> find (\<lambda>i. bi_Build i = build) PreBcAcceptedClientBuilds)"

abbreviation "POST_BC_EXP_FLAG \<equiv> (0x2 :: u8)"
abbreviation "PRE_BC_EXP_FLAG \<equiv> (0x1 :: u8)"
abbreviation "NO_VALID_EXP_FLAG \<equiv> (0x0 :: u8)"

definition expansion_flag :: "u16 \<Rightarrow> u8" where
  "expansion_flag build =
     (if IsPostBCAcceptedClientBuild (uint build) then POST_BC_EXP_FLAG
      else if IsPreBCAcceptedClientBuild (uint build) then PRE_BC_EXP_FLAG else NO_VALID_EXP_FLAG)"

section \<open>The state of a session\<close>

datatype AuthStatus =
  STATUS_CHALLENGE | STATUS_LOGON_PROOF | STATUS_RECONNECT_PROOF | STATUS_AUTHED | STATUS_WAITING_FOR_REALM_LIST | STATUS_CLOSED

record LogonAccount =
  la_Id :: u32
  la_Login :: "u8 list"
  la_IsLockedToIP :: bool
  la_LockCountry :: "u8 list"
  la_LastIP :: "u8 list"
  la_FailedLogins :: u32
  la_IsBanned :: bool
  la_IsPermanenetlyBanned :: bool
  la_SecurityLevel :: u8

text \<open>The columns both account queries begin with, and what each adds.\<close>

record account_row =
  ar_id :: u32
  ar_username :: "u8 list"
  ar_locked :: bool
  ar_lock_country :: "u8 list"
  ar_last_ip :: "u8 list"
  ar_failed_logins :: u32
  ar_banned :: u64
  ar_permbanned :: u64
  ar_gmlevel :: u8

record challenge_row = account_row +
  cr_token_key :: "u8 list"
  cr_sha_pass_hash :: "u8 list"
  cr_v :: "u8 list"
  cr_s :: "u8 list"

record reconnect_row = account_row +
  rr_sessionKey :: "u8 list"

text \<open>Queries without an answer, and the statements that change the account database.\<close>

datatype logon_query =
    LOGIN_SEL_IP_INFO
  | LOGIN_SEL_LOGONCHALLENGE "u8 list"
  | LOGIN_SEL_RECONNECTCHALLENGE "u8 list"
  | LOGIN_SEL_REALM_CHARACTER_COUNTS u32

datatype logon_effect =
    LOGIN_UPD_VS "u8 list" "u8 list" "u8 list"
  | LOGIN_UPD_LOGONPROOF "u8 list" "u8 list" u32 "u8 list" "u8 list"
  | LOGIN_INS_FALP_IP_LOGGING u32 "u8 list"
  | LOGIN_UPD_FAILEDLOGINS "u8 list"
  | LOGIN_INS_ACCOUNT_AUTO_BANNED u32 u32
  | LOGIN_INS_IP_AUTO_BANNED "u8 list" u32

record LogonSession =
  lg_closed :: bool
  lg_reading :: bool
  lg_readBuffer :: MessageBuffer
  lg_writeQueue :: "MessageBuffer list"
  lg_N :: nat
  lg_s :: nat
  lg_g :: nat
  lg_v :: nat
  lg_b :: nat
  lg_B :: nat
  lg_K :: nat
  lg_reconnectProof :: nat
  lg_status :: AuthStatus
  lg_accountInfo :: LogonAccount
  lg_tokenKey :: "u8 list"
  lg_localizationName :: "u8 list"
  lg_os :: "u8 list"
  lg_ipCountry :: "u8 list"
  lg_build :: u16
  lg_expversion :: u8
  lg_queries :: "logon_query list"
  lg_effects :: "logon_effect list"

text \<open>
  The environment: byte order, OpenSSL, the client's address and its text, the clock, conversions, and the
  configuration. Addresses are those of Boost, which also says which ones are loopback addresses and what the
  text of an end point is.
\<close>

datatype ip_address = V4 u32 | V6 "128 word"

record logon_env =
  le_big :: bool
  le_ssl :: openssl
  le_client :: ip_address
  le_address :: "u8 list"
  le_is_loopback :: "ip_address \<Rightarrow> bool"
  le_endpoint :: "ip_address \<Rightarrow> u16 \<Rightarrow> u8 list"
  le_time :: u64
  le_upper :: "u8 list \<Rightarrow> u8 list"
  le_MaxWrongPassCount :: u32
  le_WrongPassLogging :: bool
  le_WrongPassBanTime :: u32
  le_WrongPassBanType :: bool

text \<open>The ways a call does not return: a failed \<open>ASSERT\<close>, an access outside of a buffer, an exception nobody catches.\<close>

datatype logon_error = AssertionFails | OutsideBuffer | BadCast | RoundsExceeded

definition ascii :: "string \<Rightarrow> u8 list" where
  "ascii str = map of_char str"

definition mk_LogonAccount :: LogonAccount where
  "mk_LogonAccount =
     \<lparr>la_Id = 0, la_Login = [], la_IsLockedToIP = False, la_LockCountry = [], la_LastIP = [], la_FailedLogins = 0,
      la_IsBanned = False, la_IsPermanenetlyBanned = False, la_SecurityLevel = 0\<rparr>"

definition mk_LogonSession :: "logon_env \<Rightarrow> LogonSession" where
  "mk_LogonSession E =
     \<lparr>lg_closed = False, lg_reading = False, lg_readBuffer = mb_Resize 4096 (mk_MessageBuffer 4096), lg_writeQueue = [],
      lg_N = SetHexStr (le_ssl E) (ascii ''894B645E89E1535BBDAD5B8B290650530801B18EBFBF5E8FAB3C82872A3E9BB7'') 0,
      lg_s = 0, lg_g = 7, lg_v = 0, lg_b = 0, lg_B = 0, lg_K = 0, lg_reconnectProof = 0,
      lg_status = STATUS_CHALLENGE, lg_accountInfo = mk_LogonAccount, lg_tokenKey = [], lg_localizationName = [],
      lg_os = [], lg_ipCountry = [], lg_build = 0, lg_expversion = 0, lg_queries = [], lg_effects = []\<rparr>"

definition LoadResult :: "logon_env \<Rightarrow> 'a account_row_scheme \<Rightarrow> LogonAccount" where
  "LoadResult E row =
     \<lparr>la_Id = ar_id row, la_Login = le_upper E (ar_username row), la_IsLockedToIP = ar_locked row,
      la_LockCountry = ar_lock_country row, la_LastIP = ar_last_ip row, la_FailedLogins = ar_failed_logins row,
      la_IsBanned = (ar_banned row \<noteq> 0), la_IsPermanenetlyBanned = (ar_permbanned row \<noteq> 0),
      la_SecurityLevel = ar_gmlevel row\<rparr>"

section \<open>The socket\<close>

text \<open>Nothing in the realm server closes a socket with a delay, so that a socket is open when it is not closed.\<close>

definition lg_IsOpen :: "LogonSession \<Rightarrow> bool" where
  "lg_IsOpen s \<longleftrightarrow> \<not> lg_closed s"

definition lg_CloseSocket :: "LogonSession \<Rightarrow> LogonSession" where
  "lg_CloseSocket s = s\<lparr>lg_closed := True\<rparr>"

text \<open>
  \<open>Normalize\<close> moves \<open>GetActiveSize\<close> bytes, a difference of two \<open>size_t\<close>: it must not be called with the read
  pointer behind the write pointer.
\<close>

definition lg_AsyncRead :: "LogonSession \<Rightarrow> logon_error + LogonSession" where
  "lg_AsyncRead s =
     (if \<not> lg_IsOpen s then Inr s
      else if mb_wpos (lg_readBuffer s) < mb_rpos (lg_readBuffer s) then Inl OutsideBuffer
      else Inr (s\<lparr>lg_readBuffer := EnsureFreeSpace (Normalize (lg_readBuffer s)), lg_reading := True\<rparr>))"

text \<open>A packet is copied into a message buffer of the default size.\<close>

definition lg_SendPacket :: "u8 list \<Rightarrow> LogonSession \<Rightarrow> logon_error + LogonSession" where
  "lg_SendPacket packet s =
     (if \<not> lg_IsOpen s \<or> packet = [] then Inr s
      else (case mb_Write packet (mk_MessageBuffer 4096) of
              None \<Rightarrow> Inl OutsideBuffer
            | Some buffer \<Rightarrow> Inr (s\<lparr>lg_writeQueue := lg_writeQueue s @ [buffer]\<rparr>)))"

abbreviation "AUTH_LOGON_CHALLENGE \<equiv> (0x00 :: u8)"
abbreviation "AUTH_LOGON_PROOF \<equiv> (0x01 :: u8)"
abbreviation "AUTH_RECONNECT_CHALLENGE \<equiv> (0x02 :: u8)"
abbreviation "AUTH_RECONNECT_PROOF \<equiv> (0x03 :: u8)"
abbreviation "REALM_LIST \<equiv> (0x10 :: u8)"
abbreviation "WOW_SUCCESS \<equiv> (0x00 :: u8)"
abbreviation "WOW_FAIL_BANNED \<equiv> (0x03 :: u8)"
abbreviation "WOW_FAIL_UNKNOWN_ACCOUNT \<equiv> (0x04 :: u8)"
abbreviation "WOW_FAIL_VERSION_INVALID \<equiv> (0x09 :: u8)"
abbreviation "WOW_FAIL_SUSPENDED \<equiv> (0x0C :: u8)"
abbreviation "WOW_FAIL_LOCKED_ENFORCED \<equiv> (0x10 :: u8)"
abbreviation "WOW_FAIL_UNLOCKABLE_LOCK \<equiv> (0x19 :: u8)"

definition lg_Start :: "LogonSession \<Rightarrow> LogonSession" where
  "lg_Start s = s\<lparr>lg_queries := lg_queries s @ [LOGIN_SEL_IP_INFO]\<rparr>"

text \<open>The rows of the query for the address: whether a ban of it lasts, and a country.\<close>

fun lg_ip_rows :: "(u64 \<times> u8 list) list \<Rightarrow> bool \<times> u8 list \<Rightarrow> bool \<times> u8 list" where
  "lg_ip_rows [] x = x"
| "lg_ip_rows ((ban, country) # rows) (banned, ipCountry) =
     lg_ip_rows rows (banned \<or> ban \<noteq> 0, if country \<noteq> [] then country else ipCountry)"

definition lg_CheckIpCallback :: "(u64 \<times> u8 list) list \<Rightarrow> LogonSession \<Rightarrow> logon_error + LogonSession" where
  "lg_CheckIpCallback rows s =
     (let (banned, country) = lg_ip_rows rows (False, lg_ipCountry s); s1 = s\<lparr>lg_ipCountry := country\<rparr>
      in if banned then lg_SendPacket [AUTH_LOGON_CHALLENGE, 0, WOW_FAIL_BANNED] s1 else lg_AsyncRead s1)"

section \<open>The challenge\<close>

text \<open>The first \<open>n\<close> bytes of a packet laid over the read pointer; they must be in the storage, received or not.\<close>

definition struct_at :: "nat \<Rightarrow> MessageBuffer \<Rightarrow> u8 list option" where
  "struct_at n b = (if mb_rpos b + n \<le> length (mb_storage b) then Some (read_at n b) else None)"

text \<open>
  \<open>sAuthLogonChallenge_C\<close>: 2 for the command and the error, 2 for the size, 4 for the game, 3 for the version,
  2 for the build, 4 each for platform, system, country, time zone and address, 1 for the length of the name,
  and the name. The length must be what the size leaves for the name; the difference is one of \<open>size_t\<close>.
\<close>

definition challenge_size :: "logon_env \<Rightarrow> u8 list \<Rightarrow> u16" where
  "challenge_size E p = from_memory (le_big E) (take 2 (drop 2 p))"

definition read_challenge :: "logon_env \<Rightarrow> (u8 list \<Rightarrow> logon_query) \<Rightarrow> LogonSession \<Rightarrow> logon_error + (bool \<times> LogonSession)" where
  "read_challenge E query s0 =
     (let s = s0\<lparr>lg_status := STATUS_CLOSED\<rparr>
      in case struct_at 34 (lg_readBuffer s) of
           None \<Rightarrow> Inl OutsideBuffer
         | Some p \<Rightarrow>
             if (ucast (challenge_size E p) :: u64) - 30 \<noteq> ucast (p ! 33) then Inr (False, s)
             else
               (case struct_at (34 + unat (p ! 33)) (lg_readBuffer s) of
                  None \<Rightarrow> Inl OutsideBuffer
                | Some q \<Rightarrow>
                    (let login = drop 34 q; build = from_memory (le_big E) (take 2 (drop 11 p))
                     in Inr (True, s\<lparr>lg_build := build, lg_expversion := expansion_flag build,
                                     lg_os := rev (takeWhile (\<lambda>c. c \<noteq> 0) (take 4 (drop 17 p))),
                                     lg_localizationName := rev (take 4 (drop 21 p)),
                                     lg_queries := lg_queries s @ [query login]\<rparr>))))"

definition HandleLogonChallenge :: "logon_env \<Rightarrow> LogonSession \<Rightarrow> logon_error + (bool \<times> LogonSession)" where
  "HandleLogonChallenge E = read_challenge E LOGIN_SEL_LOGONCHALLENGE"

definition HandleReconnectChallenge :: "logon_env \<Rightarrow> LogonSession \<Rightarrow> logon_error + (bool \<times> LogonSession)" where
  "HandleReconnectChallenge E = read_challenge E LOGIN_SEL_RECONNECTCHALLENGE"

text \<open>Why an account may not log in from here: an address or a country it is locked to, or a ban.\<close>

definition wrong_origin :: "logon_env \<Rightarrow> u8 list \<Rightarrow> LogonAccount \<Rightarrow> u8 option" where
  "wrong_origin E ipCountry a =
     (if la_IsLockedToIP a then (if la_LastIP a \<noteq> le_address E then Some WOW_FAIL_LOCKED_ENFORCED else None)
      else if la_LockCountry a = [] \<or> la_LockCountry a = ascii ''00'' then None
      else if ipCountry \<noteq> [] then (if ipCountry \<noteq> la_LockCountry a then Some WOW_FAIL_UNLOCKABLE_LOCK else None)
      else None)"

definition refusal :: "logon_env \<Rightarrow> u8 list \<Rightarrow> LogonAccount \<Rightarrow> u8 option" where
  "refusal E ipCountry a =
     (case wrong_origin E ipCountry a of
        Some code \<Rightarrow> Some code
      | None \<Rightarrow>
          if la_IsBanned a then Some (if la_IsPermanenetlyBanned a then WOW_FAIL_BANNED else WOW_FAIL_SUSPENDED) else None)"

text \<open>The private key of the password, and the verifier made of it. \<open>rI\<close> is the hash of name and password as text.\<close>

definition password_digest :: "openssl \<Rightarrow> u8 list \<Rightarrow> u8 list" where
  "password_digest S rI = rev (take 20 (AsByteArray S 20 True (SetHexStr S rI 0)))"

definition srp_x :: "openssl \<Rightarrow> nat \<Rightarrow> u8 list \<Rightarrow> nat" where
  "srp_x S salt mDigest = SetBinary S (SHA1 S (take 32 (AsByteArray S 32 True salt) @ mDigest))"

definition SetVSFields :: "logon_env \<Rightarrow> nat \<Rightarrow> u8 list \<Rightarrow> LogonSession \<Rightarrow> LogonSession" where
  "SetVSFields E rand_s rI s =
     (let S = le_ssl E; v = ModExp S (lg_g s) (srp_x S rand_s (password_digest S rI)) (lg_N s)
      in s\<lparr>lg_s := rand_s, lg_v := v,
           lg_effects := lg_effects s @ [LOGIN_UPD_VS (AsHexStr S v) (AsHexStr S rand_s) (la_Login (lg_accountInfo s))]\<rparr>)"

definition verifier_fields :: "logon_env \<Rightarrow> nat \<Rightarrow> challenge_row \<Rightarrow> LogonSession \<Rightarrow> LogonSession" where
  "verifier_fields E rand_s row s =
     (if length (cr_v row) \<noteq> 64 \<or> length (cr_s row) \<noteq> 64 then SetVSFields E rand_s (cr_sha_pass_hash row) s
      else s\<lparr>lg_s := SetHexStr (le_ssl E) (cr_s row) (lg_s s), lg_v := SetHexStr (le_ssl E) (cr_v row) (lg_v s)\<rparr>)"

text \<open>The answer: the server's number, generator and modulus, the salt, 16 random bytes, and whether a token is asked for.\<close>

definition challenge_answer :: "openssl \<Rightarrow> u8 \<Rightarrow> nat \<Rightarrow> LogonSession \<Rightarrow> u8 list" where
  "challenge_answer S code unk3 s =
     [AUTH_LOGON_CHALLENGE, 0, code] @ take 32 (AsByteArray S 32 True (lg_B s)) @ [1] @ take 1 (AsByteArray S 1 True (lg_g s))
     @ [32] @ take 32 (AsByteArray S 32 True (lg_N s)) @ take 32 (AsByteArray S 32 True (lg_s s))
     @ take 16 (AsByteArray S 16 True unk3) @ (if lg_tokenKey s \<noteq> [] then [4, 1] else [0])"

text \<open>\<open>rand_s\<close>, \<open>rand_b\<close> and \<open>rand_unk3\<close> are the random numbers of 256, 152 and 128 bits.\<close>

definition LogonChallengeCallback :: "logon_env \<Rightarrow> nat \<Rightarrow> nat \<Rightarrow> nat \<Rightarrow> challenge_row option \<Rightarrow> LogonSession
    \<Rightarrow> logon_error + LogonSession" where
  "LogonChallengeCallback E rand_s rand_b rand_unk3 result s0 =
     (case result of
        None \<Rightarrow> lg_SendPacket [AUTH_LOGON_CHALLENGE, 0, WOW_FAIL_UNKNOWN_ACCOUNT] s0
      | Some row \<Rightarrow>
          (let s1 = s0\<lparr>lg_accountInfo := LoadResult E row\<rparr>
           in case refusal E (lg_ipCountry s1) (lg_accountInfo s1) of
                Some code \<Rightarrow> lg_SendPacket [AUTH_LOGON_CHALLENGE, 0, code] s1
              | None \<Rightarrow>
                  (let S = le_ssl E; s2 = verifier_fields E rand_s row s1;
                       gmod = ModExp S (lg_g s2) rand_b (lg_N s2);
                       B = bn_modulo S (bn_plus S (bn_times S (lg_v s2) 3) gmod) (lg_N s2);
                       s3 = s2\<lparr>lg_b := rand_b, lg_B := B\<rparr>
                   in if GetNumBytes S gmod > 32 then Inl AssertionFails
                      else
                        let accepted = IsAcceptedClientBuild (uint (lg_build s3));
                            s4 = (if accepted then s3\<lparr>lg_status := STATUS_LOGON_PROOF\<rparr> else s3);
                            s5 = s4\<lparr>lg_tokenKey := cr_token_key row\<rparr>
                        in lg_SendPacket (challenge_answer S (if accepted then WOW_SUCCESS else WOW_FAIL_VERSION_INVALID) rand_unk3 s5) s5)))"

section \<open>The proof\<close>

definition srp_u :: "openssl \<Rightarrow> nat \<Rightarrow> nat \<Rightarrow> nat" where
  "srp_u S A B = SetBinary S (SHA1 S (UpdateBigNumbers S [A, B] []))"

text \<open>The session key: the hashes of the even and of the odd bytes of the common number, byte by byte.\<close>

definition session_key_bytes :: "openssl \<Rightarrow> nat \<Rightarrow> u8 list" where
  "session_key_bytes S common =
     (let t = take 32 (AsByteArray S 32 True common);
          even_hash = SHA1 S (map (\<lambda>i. t ! (i * 2)) [0..<16]);
          odd_hash = SHA1 S (map (\<lambda>i. t ! (i * 2 + 1)) [0..<16])
      in map (\<lambda>i. if even i then even_hash ! (i div 2) else odd_hash ! (i div 2)) [0..<40])"

definition srp_K :: "openssl \<Rightarrow> nat \<Rightarrow> nat" where
  "srp_K S common = SetBinary S (session_key_bytes S common)"

definition srp_M :: "openssl \<Rightarrow> nat \<Rightarrow> nat \<Rightarrow> u8 list \<Rightarrow> nat \<Rightarrow> nat \<Rightarrow> nat \<Rightarrow> nat \<Rightarrow> nat" where
  "srp_M S N g login salt A B K =
     (let t3 = SetBinary S (map2 (XOR) (SHA1 S (UpdateBigNumbers S [N] [])) (SHA1 S (UpdateBigNumbers S [g] [])));
          t4 = SHA1 S login
      in SetBinary S (SHA1 S (UpdateBigNumbers S [salt, A, B, K] (UpdateBigNumbers S [t3] [] @ t4))))"

text \<open>The common number as the server computes it.\<close>

definition server_common :: "openssl \<Rightarrow> LogonSession \<Rightarrow> nat \<Rightarrow> nat" where
  "server_common S s A =
     ModExp S (bn_times S A (ModExp S (lg_v s) (srp_u S A (lg_B s)) (lg_N s))) (lg_b s) (lg_N s)"

definition localeNames :: "u8 list list" where
  "localeNames = map ascii [''enUS'', ''koKR'', ''frFR'', ''deDE'', ''zhCN'', ''zhTW'', ''esES'', ''esMX'', ''ruRU'']"

definition GetLocaleByName :: "u8 list \<Rightarrow> u32" where
  "GetLocaleByName name =
     (case find (\<lambda>i. name = localeNames ! i) [0..<9] of Some i \<Rightarrow> of_nat i | None \<Rightarrow> 0)"

text \<open>
  The token behind the proof: its length in one byte, then its text. It is read without a look at how many
  bytes were received, and the read pointer is moved behind it.
\<close>

definition check_token :: "logon_env \<Rightarrow> u8 \<Rightarrow> LogonSession \<Rightarrow> logon_error + (bool \<times> LogonSession)" where
  "check_token E securityFlags s =
     (if securityFlags AND 0x04 \<noteq> 0 \<or> lg_tokenKey s \<noteq> [] then
        (case struct_at 76 (lg_readBuffer s) of
           None \<Rightarrow> Inl OutsideBuffer
         | Some q \<Rightarrow>
             (let n = unat (q ! 75)
              in case struct_at (76 + n) (lg_readBuffer s) of
                   None \<Rightarrow> Inl OutsideBuffer
                 | Some r \<Rightarrow>
                     (let token = drop 76 r;
                          validToken = GenerateToken (le_ssl E) (le_time E) (takeWhile (\<lambda>c. c \<noteq> 0) (lg_tokenKey s));
                          s1 = s\<lparr>lg_readBuffer := ReadCompleted (1 + n) (lg_readBuffer s), lg_tokenKey := []\<rparr>
                      in Inr (validToken = atoi_u32 token, s1))))
      else Inr (True, s))"

definition proof_refused :: "u8 list" where
  "proof_refused = [AUTH_LOGON_PROOF, WOW_FAIL_UNKNOWN_ACCOUNT, 3, 0]"

definition proof_answer :: "logon_env \<Rightarrow> u8 \<Rightarrow> u8 list \<Rightarrow> u8 list" where
  "proof_answer E expversion M2 =
     (if expversion AND POST_BC_EXP_FLAG \<noteq> 0
      then [AUTH_LOGON_PROOF, 0] @ M2 @ memory (le_big E) (0x00800000 :: u32) @ memory (le_big E) (0 :: u32) @ memory (le_big E) (0 :: u16)
      else [AUTH_LOGON_PROOF, 0] @ M2 @ memory (le_big E) (0 :: u32))"

definition accept_proof :: "logon_env \<Rightarrow> nat \<Rightarrow> nat \<Rightarrow> LogonSession \<Rightarrow> logon_error + (bool \<times> LogonSession)" where
  "accept_proof E A M s =
     (let S = le_ssl E;
          s1 = s\<lparr>lg_effects := lg_effects s @ [LOGIN_UPD_LOGONPROOF (AsHexStr S (lg_K s)) (le_address E)
                  (GetLocaleByName (lg_localizationName s)) (lg_os s) (la_Login (lg_accountInfo s))]\<rparr>;
          M2 = SHA1 S (UpdateBigNumbers S [A, M, lg_K s1] [])
      in case lg_SendPacket (proof_answer E (lg_expversion s1) M2) s1 of
           Inl e \<Rightarrow> Inl e
         | Inr s2 \<Rightarrow> Inr (True, s2\<lparr>lg_status := STATUS_AUTHED\<rparr>))"

text \<open>Failed logins are counted, and at the configured number the account or the address is banned for a while.\<close>

definition count_failure :: "logon_env \<Rightarrow> LogonSession \<Rightarrow> LogonSession" where
  "count_failure E s =
     (let s1 = (if le_WrongPassLogging E
                then s\<lparr>lg_effects := lg_effects s @ [LOGIN_INS_FALP_IP_LOGGING (la_Id (lg_accountInfo s)) (le_address E)]\<rparr> else s)
      in if le_MaxWrongPassCount E > 0 then
           let a = (lg_accountInfo s1)\<lparr>la_FailedLogins := la_FailedLogins (lg_accountInfo s1) + 1\<rparr>;
               s2 = s1\<lparr>lg_effects := lg_effects s1 @ [LOGIN_UPD_FAILEDLOGINS (la_Login a)], lg_accountInfo := a\<rparr>
           in if la_FailedLogins a \<ge> le_MaxWrongPassCount E
              then s2\<lparr>lg_effects := lg_effects s2 @
                        [if le_WrongPassBanType E then LOGIN_INS_ACCOUNT_AUTO_BANNED (la_Id a) (le_WrongPassBanTime E)
                         else LOGIN_INS_IP_AUTO_BANNED (le_address E) (le_WrongPassBanTime E)]\<rparr>
              else s2
         else s1)"

definition refuse_proof :: "logon_env \<Rightarrow> (LogonSession \<Rightarrow> LogonSession) \<Rightarrow> LogonSession \<Rightarrow> logon_error + (bool \<times> LogonSession)" where
  "refuse_proof E after s =
     (case lg_SendPacket proof_refused s of Inl e \<Rightarrow> Inl e | Inr s1 \<Rightarrow> Inr (True, after s1))"

text \<open>\<open>sAuthLogonProof_C\<close>: the command, 32 bytes of the client's number, 20 of its digest, 20 of a checksum, 1 for keys, 1 for flags.\<close>

definition HandleLogonProof :: "logon_env \<Rightarrow> LogonSession \<Rightarrow> logon_error + (bool \<times> LogonSession)" where
  "HandleLogonProof E s0 =
     (let s = s0\<lparr>lg_status := STATUS_CLOSED\<rparr>; S = le_ssl E
      in case struct_at 75 (lg_readBuffer s) of
           None \<Rightarrow> Inl OutsideBuffer
         | Some p \<Rightarrow>
             if lg_expversion s = NO_VALID_EXP_FLAG then Inr (False, s)
             else
               let A = SetBinary S (take 32 (drop 1 p))
               in if IsZero (bn_modulo S A (lg_N s)) then Inr (False, s)
                  else
                    let K = srp_K S (server_common S s A);
                        s1 = s\<lparr>lg_K := K\<rparr>;
                        M = srp_M S (lg_N s1) (lg_g s1) (la_Login (lg_accountInfo s1)) (lg_s s1) A (lg_B s1) K
                    in if take 20 (AsByteArray S 20 True M) = take 20 (drop 33 p) then
                         (case check_token E (p ! 74) s1 of
                            Inl e \<Rightarrow> Inl e
                          | Inr (True, s2) \<Rightarrow> accept_proof E A M s2
                          | Inr (False, s2) \<Rightarrow> refuse_proof E (\<lambda>s. s) s2)
                       else refuse_proof E (count_failure E) s1)"

section \<open>Reconnecting\<close>

definition ReconnectChallengeCallback :: "logon_env \<Rightarrow> nat \<Rightarrow> reconnect_row option \<Rightarrow> LogonSession \<Rightarrow> logon_error + LogonSession" where
  "ReconnectChallengeCallback E rand_proof result s =
     (case result of
        None \<Rightarrow> lg_SendPacket [AUTH_RECONNECT_CHALLENGE, WOW_FAIL_UNKNOWN_ACCOUNT] s
      | Some row \<Rightarrow>
          (let S = le_ssl E;
               s1 = s\<lparr>lg_accountInfo := LoadResult E row, lg_K := SetHexStr S (rr_sessionKey row) (lg_K s),
                      lg_reconnectProof := rand_proof, lg_status := STATUS_RECONNECT_PROOF\<rparr>
           in lg_SendPacket ([AUTH_RECONNECT_CHALLENGE, WOW_SUCCESS] @ take 16 (AsByteArray S 16 True (lg_reconnectProof s1))
                             @ replicate 16 0) s1))"

text \<open>\<open>sAuthReconnectProof_C\<close>: the command, 16 random bytes of the client, its digest of 20 bytes, 20 more and 1 for keys.\<close>

definition reconnect_digest :: "openssl \<Rightarrow> u8 list \<Rightarrow> u8 list \<Rightarrow> nat \<Rightarrow> nat \<Rightarrow> u8 list" where
  "reconnect_digest S login R1 challenge K = SHA1 S (UpdateBigNumbers S [SetBinary S R1, challenge, K] login)"

definition HandleReconnectProof :: "logon_env \<Rightarrow> LogonSession \<Rightarrow> logon_error + (bool \<times> LogonSession)" where
  "HandleReconnectProof E s0 =
     (let s = s0\<lparr>lg_status := STATUS_CLOSED\<rparr>; S = le_ssl E; login = la_Login (lg_accountInfo s)
      in case struct_at 58 (lg_readBuffer s) of
           None \<Rightarrow> Inl OutsideBuffer
         | Some p \<Rightarrow>
             if login = [] \<or> GetNumBytes S (lg_reconnectProof s) = 0 \<or> GetNumBytes S (lg_K s) = 0 then Inr (False, s)
             else if reconnect_digest S login (take 16 (drop 1 p)) (lg_reconnectProof s) (lg_K s) = take 20 (drop 17 p)
             then (case lg_SendPacket [AUTH_RECONNECT_PROOF, 0, 0, 0] s of
                     Inl e \<Rightarrow> Inl e
                   | Inr s1 \<Rightarrow> Inr (True, s1\<lparr>lg_status := STATUS_AUTHED\<rparr>))
             else Inr (False, s))"

section \<open>The list of realms\<close>

record Realm =
  rm_Id :: u32
  rm_Build :: u32
  rm_ExternalAddress :: ip_address
  rm_LocalAddress :: ip_address
  rm_LocalSubnetMask :: ip_address
  rm_Port :: u16
  rm_Name :: "u8 list"
  rm_Type :: u8
  rm_Flags :: u32
  rm_Timezone :: u8
  rm_AllowedSecurityLevel :: u8
  rm_PopulationLevel :: u32

abbreviation "REALM_FLAG_OFFLINE \<equiv> (0x02 :: u32)"
abbreviation "REALM_FLAG_SPECIFYBUILD \<equiv> (0x04 :: u32)"

text \<open>\<open>to_v4\<close> of another kind of address throws.\<close>

definition realm_ip :: "logon_env \<Rightarrow> Realm \<Rightarrow> logon_error + ip_address" where
  "realm_ip E r =
     (if le_is_loopback E (le_client E) then
        Inr (if le_is_loopback E (rm_LocalAddress r) \<or> le_is_loopback E (rm_ExternalAddress r) then le_client E else rm_LocalAddress r)
      else
        (case le_client E of
           V6 c \<Rightarrow> Inr (rm_ExternalAddress r)
         | V4 c \<Rightarrow>
             (case (rm_LocalSubnetMask r, rm_LocalAddress r) of
                (V4 m, V4 l) \<Rightarrow> Inr (if c AND m = l AND m then rm_LocalAddress r else rm_ExternalAddress r)
              | _ \<Rightarrow> Inl BadCast)))"

definition GetAddressForClient :: "logon_env \<Rightarrow> Realm \<Rightarrow> logon_error + u8 list" where
  "GetAddressForClient E r = (case realm_ip E r of Inl e \<Rightarrow> Inl e | Inr ip \<Rightarrow> Inr (le_endpoint E ip (rm_Port r)))"

definition okBuild :: "LogonSession \<Rightarrow> Realm \<Rightarrow> bool" where
  "okBuild s r \<longleftrightarrow>
     lg_expversion s AND POST_BC_EXP_FLAG \<noteq> 0 \<and> rm_Build r = ucast (lg_build s)
     \<or> lg_expversion s AND PRE_BC_EXP_FLAG \<noteq> 0 \<and> \<not> IsPreBCAcceptedClientBuild (sint (rm_Build r))"

text \<open>The flags the client is shown; \<open>None\<close> leaves the realm out.\<close>

definition realm_flags :: "LogonSession \<Rightarrow> Realm \<Rightarrow> u32 option" where
  "realm_flags s r =
     (let info = GetBuildInfo (sint (rm_Build r))
      in if \<not> okBuild s r \<and> info = None then None
         else
           let flag = (if okBuild s r then rm_Flags r else rm_Flags r OR REALM_FLAG_OFFLINE OR REALM_FLAG_SPECIFYBUILD)
           in Some (if info = None then flag AND NOT REALM_FLAG_SPECIFYBUILD else flag))"

definition version_text :: "RealmBuildInfo \<Rightarrow> u8 list" where
  "version_text i =
     ascii ('' ('' @ decimal (unat (bi_MajorVersion i)) @ ''.'' @ decimal (unat (bi_MinorVersion i)) @ ''.''
            @ decimal (unat (bi_BugfixVersion i)) @ '')'')"

definition realm_name :: "LogonSession \<Rightarrow> u32 \<Rightarrow> Realm \<Rightarrow> u8 list" where
  "realm_name s flag r =
     (case GetBuildInfo (sint (rm_Build r)) of
        Some i \<Rightarrow> if lg_expversion s AND PRE_BC_EXP_FLAG \<noteq> 0 \<and> flag AND REALM_FLAG_SPECIFYBUILD \<noteq> 0
                  then rm_Name r @ version_text i else rm_Name r
      | None \<Rightarrow> rm_Name r)"

definition build_fields :: "RealmBuildInfo option \<Rightarrow> packet_field list" where
  "build_fields info =
     (case info of
        Some i \<Rightarrow> [FByte (bi_MajorVersion i), FByte (bi_MinorVersion i), FByte (bi_BugfixVersion i), FShort (of_int (bi_Build i))]
      | None \<Rightarrow> [])"

definition realm_fields :: "LogonSession \<Rightarrow> (u32 \<Rightarrow> u8) \<Rightarrow> u32 \<Rightarrow> u8 list \<Rightarrow> Realm \<Rightarrow> packet_field list" where
  "realm_fields s counts flag address r =
     (let post = (lg_expversion s AND POST_BC_EXP_FLAG \<noteq> 0);
          lock = (if rm_AllowedSecurityLevel r > la_SecurityLevel (lg_accountInfo s) then 1 else 0)
      in [FByte (rm_Type r)] @ (if post then [FByte lock] else [])
         @ [FByte (ucast flag), FCString (realm_name s flag r), FCString address, FInt (rm_PopulationLevel r),
            FByte (counts (rm_Id r)), FByte (rm_Timezone r), FByte (if post then ucast (rm_Id r) else 0)]
         @ (if post \<and> flag AND REALM_FLAG_SPECIFYBUILD \<noteq> 0 then build_fields (GetBuildInfo (sint (rm_Build r))) else []))"

text \<open>The realms the client is shown, with their number.\<close>

fun realm_entries :: "logon_env \<Rightarrow> LogonSession \<Rightarrow> (u32 \<Rightarrow> u8) \<Rightarrow> Realm list \<Rightarrow> logon_error + (nat \<times> u8 list)" where
  "realm_entries E s counts [] = Inr (0, [])"
| "realm_entries E s counts (r # rs) =
     (case realm_flags s r of
        None \<Rightarrow> realm_entries E s counts rs
      | Some flag \<Rightarrow>
          (case GetAddressForClient E r of
             Inl e \<Rightarrow> Inl e
           | Inr address \<Rightarrow>
               (case realm_entries E s counts rs of
                  Inl e \<Rightarrow> Inl e
                | Inr (n, bs) \<Rightarrow> Inr (Suc n, concat (map wire (realm_fields s counts flag address r)) @ bs))))"

definition character_counts :: "(u32 \<times> u8) list \<Rightarrow> u32 \<Rightarrow> u8" where
  "character_counts rows i = (case map_of (rev rows) i of Some n \<Rightarrow> n | None \<Rightarrow> 0)"

definition realm_list_packet :: "LogonSession \<Rightarrow> nat \<Rightarrow> u8 list \<Rightarrow> u8 list" where
  "realm_list_packet s n entries =
     (let post = (lg_expversion s AND POST_BC_EXP_FLAG \<noteq> 0);
          pkt = entries @ (if post then [0x10, 0x00] else [0x00, 0x02]);
          front = wire (FInt 0) @ (if post then wire (FShort (of_nat n)) else wire (FInt (of_nat n)))
      in [REALM_LIST] @ wire (FShort (of_nat (length pkt + length front))) @ front @ pkt)"

definition RealmListCallback :: "logon_env \<Rightarrow> Realm list \<Rightarrow> (u32 \<times> u8) list \<Rightarrow> LogonSession \<Rightarrow> logon_error + LogonSession" where
  "RealmListCallback E realms rows s =
     (case realm_entries E s (character_counts rows) realms of
        Inl e \<Rightarrow> Inl e
      | Inr (n, entries) \<Rightarrow>
          (case lg_SendPacket (realm_list_packet s n entries) s of
             Inl e \<Rightarrow> Inl e
           | Inr s1 \<Rightarrow> Inr (s1\<lparr>lg_status := STATUS_AUTHED\<rparr>)))"

definition HandleRealmList :: "logon_env \<Rightarrow> LogonSession \<Rightarrow> logon_error + (bool \<times> LogonSession)" where
  "HandleRealmList E s =
     Inr (True, s\<lparr>lg_queries := lg_queries s @ [LOGIN_SEL_REALM_CHARACTER_COUNTS (la_Id (lg_accountInfo s))],
                  lg_status := STATUS_WAITING_FOR_REALM_LIST\<rparr>)"

section \<open>Receiving\<close>

text \<open>The state a command is allowed in, and the bytes it needs before its handler (a challenge says itself how many follow).\<close>

definition logon_handler :: "u8 \<Rightarrow> (AuthStatus \<times> u16) option" where
  "logon_handler cmd =
     (if cmd = AUTH_LOGON_CHALLENGE then Some (STATUS_CHALLENGE, 4)
      else if cmd = AUTH_LOGON_PROOF then Some (STATUS_LOGON_PROOF, 75)
      else if cmd = AUTH_RECONNECT_CHALLENGE then Some (STATUS_CHALLENGE, 4)
      else if cmd = AUTH_RECONNECT_PROOF then Some (STATUS_RECONNECT_PROOF, 58)
      else if cmd = REALM_LIST then Some (STATUS_AUTHED, 5) else None)"

definition call_handler :: "logon_env \<Rightarrow> u8 \<Rightarrow> LogonSession \<Rightarrow> logon_error + (bool \<times> LogonSession)" where
  "call_handler E cmd s =
     (if cmd = AUTH_LOGON_CHALLENGE then HandleLogonChallenge E s
      else if cmd = AUTH_LOGON_PROOF then HandleLogonProof E s
      else if cmd = AUTH_RECONNECT_CHALLENGE then HandleReconnectChallenge E s
      else if cmd = AUTH_RECONNECT_PROOF then HandleReconnectProof E s
      else HandleRealmList E s)"

text \<open>\<open>GetActiveSize\<close> as the difference of two \<open>size_t\<close> that it is: it wraps when the read pointer is behind the write pointer.\<close>

definition active_size :: "MessageBuffer \<Rightarrow> nat" where
  "active_size b = (if mb_rpos b \<le> mb_wpos b then mb_wpos b - mb_rpos b else 2 ^ 64 - (mb_rpos b - mb_wpos b))"

text \<open>One round of the loop, with something to read: the loop is left to read on, goes on, or the function returns.\<close>

datatype LogonStep = LS_Wait | LS_Continue | LS_Return

definition finish_command :: "logon_env \<Rightarrow> u8 \<Rightarrow> u16 \<Rightarrow> LogonSession \<Rightarrow> logon_error + (LogonStep \<times> LogonSession)" where
  "finish_command E cmd sz s =
     (if active_size (lg_readBuffer s) < unat sz then Inr (LS_Wait, s)
      else
        (case call_handler E cmd s of
           Inl e \<Rightarrow> Inl e
         | Inr (False, s1) \<Rightarrow> Inr (LS_Return, lg_CloseSocket s1)
         | Inr (True, s1) \<Rightarrow> Inr (LS_Continue, s1\<lparr>lg_readBuffer := ReadCompleted (unat sz) (lg_readBuffer s1)\<rparr>)))"

abbreviation "MAX_ACCEPTED_CHALLENGE_SIZE \<equiv> (51 :: u16)"

definition logon_round :: "logon_env \<Rightarrow> LogonSession \<Rightarrow> logon_error + (LogonStep \<times> LogonSession)" where
  "logon_round E s =
     (case struct_at 1 (lg_readBuffer s) of
        None \<Rightarrow> Inl OutsideBuffer
      | Some p \<Rightarrow>
          (case logon_handler (p ! 0) of
             None \<Rightarrow> Inr (LS_Wait, s\<lparr>lg_readBuffer := mb_Reset (lg_readBuffer s)\<rparr>)
           | Some (status, sz) \<Rightarrow>
               if lg_status s \<noteq> status then Inr (LS_Return, lg_CloseSocket s)
               else if active_size (lg_readBuffer s) < unat sz then Inr (LS_Wait, s)
               else if p ! 0 = AUTH_LOGON_CHALLENGE \<or> p ! 0 = AUTH_RECONNECT_CHALLENGE then
                 (case struct_at 4 (lg_readBuffer s) of
                    None \<Rightarrow> Inl OutsideBuffer
                  | Some q \<Rightarrow>
                      (let sz1 = sz + challenge_size E q
                       in if sz1 > MAX_ACCEPTED_CHALLENGE_SIZE then Inr (LS_Return, lg_CloseSocket s)
                          else finish_command E (p ! 0) sz1 s))
               else finish_command E (p ! 0) sz s))"

fun logon_loop :: "logon_env \<Rightarrow> nat \<Rightarrow> LogonSession \<Rightarrow> logon_error + (bool \<times> LogonSession)" where
  "logon_loop E 0 s = Inl RoundsExceeded"
| "logon_loop E (Suc k) s =
     (if active_size (lg_readBuffer s) \<noteq> 0 then
        (case logon_round E s of
           Inl e \<Rightarrow> Inl e
         | Inr (LS_Wait, s1) \<Rightarrow> Inr (True, s1)
         | Inr (LS_Continue, s1) \<Rightarrow> logon_loop E k s1
         | Inr (LS_Return, s1) \<Rightarrow> Inr (False, s1))
      else Inr (True, s))"

text \<open>Every command that is handled leads to a later state, and nothing is handled in the last two: four rounds are enough.\<close>

definition lg_ReadHandler :: "logon_env \<Rightarrow> LogonSession \<Rightarrow> logon_error + LogonSession" where
  "lg_ReadHandler E s =
     (case logon_loop E 4 s of
        Inl e \<Rightarrow> Inl e
      | Inr (again, s1) \<Rightarrow> if again then lg_AsyncRead s1 else Inr s1)"

definition lg_ReadHandlerInternal :: "logon_env \<Rightarrow> u8 list option \<Rightarrow> LogonSession \<Rightarrow> logon_error + LogonSession" where
  "lg_ReadHandlerInternal E got s0 =
     (let s = s0\<lparr>lg_reading := False\<rparr>
      in case got of
           None \<Rightarrow> Inr (lg_CloseSocket s)
         | Some bs \<Rightarrow>
             (case mb_Write bs (lg_readBuffer s) of
                None \<Rightarrow> Inl OutsideBuffer
              | Some b \<Rightarrow> lg_ReadHandler E (s\<lparr>lg_readBuffer := b\<rparr>)))"

section \<open>Runs of a session\<close>

text \<open>
  What happens to a session, in any order: the operating system has bytes or an error for a read it was asked
  for, or a query is answered, with the random numbers the callback draws. \<open>Update\<close> runs callbacks only while the
  socket is not closed. Events that cannot happen change nothing.
\<close>

datatype logon_event =
    Received "u8 list"
  | ReadFailed
  | IpAnswer "(u64 \<times> u8 list) list"
  | ChallengeAnswer "u8 list" "challenge_row option" nat nat nat
  | ReconnectAnswer "u8 list" "reconnect_row option" nat
  | RealmsAnswer u32 "(u32 \<times> u8) list" "Realm list"

definition answered :: "logon_query \<Rightarrow> (LogonSession \<Rightarrow> logon_error + LogonSession) \<Rightarrow> LogonSession \<Rightarrow> logon_error + LogonSession" where
  "answered q callback s =
     (if lg_closed s \<or> q \<notin> set (lg_queries s) then Inr s else callback (s\<lparr>lg_queries := remove1 q (lg_queries s)\<rparr>))"

fun logon_step :: "logon_env \<Rightarrow> logon_event \<Rightarrow> LogonSession \<Rightarrow> logon_error + LogonSession" where
  "logon_step E (Received bs) s =
     (if lg_reading s \<and> bs \<noteq> [] \<and> length bs \<le> GetRemainingSpace (lg_readBuffer s)
      then lg_ReadHandlerInternal E (Some bs) s else Inr s)"
| "logon_step E ReadFailed s = (if lg_reading s then lg_ReadHandlerInternal E None s else Inr s)"
| "logon_step E (IpAnswer rows) s = answered LOGIN_SEL_IP_INFO (lg_CheckIpCallback rows) s"
| "logon_step E (ChallengeAnswer login result rand_s rand_b rand_unk3) s =
     answered (LOGIN_SEL_LOGONCHALLENGE login) (LogonChallengeCallback E rand_s rand_b rand_unk3 result) s"
| "logon_step E (ReconnectAnswer login result rand_proof) s =
     answered (LOGIN_SEL_RECONNECTCHALLENGE login) (ReconnectChallengeCallback E rand_proof result) s"
| "logon_step E (RealmsAnswer i rows realms) s =
     answered (LOGIN_SEL_REALM_CHARACTER_COUNTS i) (RealmListCallback E realms rows) s"

fun logon_run :: "logon_env \<Rightarrow> logon_event list \<Rightarrow> LogonSession \<Rightarrow> logon_error + LogonSession" where
  "logon_run E [] s = Inr s"
| "logon_run E (ev # evs) s = (case logon_step E ev s of Inl e \<Rightarrow> Inl e | Inr s1 \<Rightarrow> logon_run E evs s1)"

end
