(* ===== verification/LogonSafety.thy ===== *)
theory LogonSafety
  imports Logon "HOL-Library.Sublist"
begin

text \<open>
  What holds in every run of a session of the realm server: the buffers are not left, the loops end, and the
  list of realms is only given to somebody who has sent an accepted proof.
\<close>

section \<open>Packets fit into their buffers\<close>

lemma lg_SendPacket_ok:
  assumes "length packet \<le> 4096"
  obtains q where "lg_SendPacket packet s = Inr (s\<lparr>lg_writeQueue := q\<rparr>)"
proof -
  obtain b where "mb_Write packet (mk_MessageBuffer 4096) = Some b"
    using mb_Write_ok[OF mb_new(1), of packet 4096] assms mb_new(3) by auto
  then show thesis using that[of "lg_writeQueue s"] that[of "lg_writeQueue s @ [b]"] by (cases "lg_IsOpen s \<and> packet \<noteq> []") (auto simp: lg_SendPacket_def)
qed

text \<open>A callback changes neither the read buffer nor whether a read is under way, and closes nothing.\<close>

definition same_input :: "LogonSession \<Rightarrow> LogonSession \<Rightarrow> bool" where
  "same_input s s1 \<longleftrightarrow> lg_readBuffer s1 = lg_readBuffer s \<and> lg_reading s1 = lg_reading s \<and> lg_closed s1 = lg_closed s \<and> lg_queries s1 = lg_queries s"

text \<open>What the proof is about: numbers, names and the state of the login.\<close>

definition same_login :: "LogonSession \<Rightarrow> LogonSession \<Rightarrow> bool" where
  "same_login s s1 \<longleftrightarrow> lg_N s1 = lg_N s \<and> lg_g s1 = lg_g s \<and> lg_s s1 = lg_s s \<and> lg_v s1 = lg_v s \<and> lg_b s1 = lg_b s \<and> lg_B s1 = lg_B s
     \<and> lg_K s1 = lg_K s \<and> lg_reconnectProof s1 = lg_reconnectProof s \<and> la_Login (lg_accountInfo s1) = la_Login (lg_accountInfo s)"

lemma same_refl [simp]: "same_input s s" "same_login s s"
  by (simp_all add: same_input_def same_login_def)

lemma count_failure_same:
  "same_input s (count_failure E s)" "same_login s (count_failure E s)" "lg_status (count_failure E s) = lg_status s"
  by (auto simp: count_failure_def Let_def same_input_def same_login_def)

lemma length_proof_answer: "length M2 = 20 \<Longrightarrow> length (proof_answer E x M2) \<le> 4096"
  by (simp add: proof_answer_def sizeof_def)

lemma length_challenge_answer: "length (challenge_answer S code unk3 s) \<le> 4096"
  by (simp add: challenge_answer_def min_def)

section \<open>The handlers\<close>

text \<open>A proof packet that proves the password for the numbers of the session, and one that proves its session key.\<close>

definition accepts_proof :: "logon_env \<Rightarrow> LogonSession \<Rightarrow> u8 list \<Rightarrow> bool" where
  "accepts_proof E s p \<longleftrightarrow>
     (let S = le_ssl E; A = SetBinary S (take 32 (drop 1 p))
      in p \<noteq> [] \<and> hd p = AUTH_LOGON_PROOF \<and> length p = 75 \<and> \<not> IsZero (bn_modulo S A (lg_N s))
         \<and> lg_K s = srp_K S (server_common S s A)
         \<and> take 20 (drop 33 p) = take 20 (AsByteArray S 20 True
              (srp_M S (lg_N s) (lg_g s) (la_Login (lg_accountInfo s)) (lg_s s) A (lg_B s) (lg_K s))))"

definition accepts_reconnect :: "logon_env \<Rightarrow> LogonSession \<Rightarrow> u8 list \<Rightarrow> bool" where
  "accepts_reconnect E s p \<longleftrightarrow>
     (let S = le_ssl E; login = la_Login (lg_accountInfo s)
      in p \<noteq> [] \<and> hd p = AUTH_RECONNECT_PROOF \<and> length p = 58
         \<and> login \<noteq> [] \<and> GetNumBytes S (lg_reconnectProof s) \<noteq> 0 \<and> GetNumBytes S (lg_K s) \<noteq> 0
         \<and> take 20 (drop 17 p) = reconnect_digest S login (take 16 (drop 1 p)) (lg_reconnectProof s) (lg_K s))"

lemma server_common_login: "same_login s s1 \<Longrightarrow> server_common S s1 A = server_common S s A"
  by (simp add: same_login_def server_common_def)

lemma accepts_login:
  assumes "same_login s s1"
  shows "accepts_proof E s1 p = accepts_proof E s p" and "accepts_reconnect E s1 p = accepts_reconnect E s p"
  using assms server_common_login[OF assms] by (simp_all add: accepts_proof_def accepts_reconnect_def same_login_def Let_def)

lemma struct_at_read: "mb_rpos b + n \<le> length (mb_storage b) \<Longrightarrow> struct_at n b = Some (read_at n b)"
  by (simp add: struct_at_def)

lemma length_read_at: "mb_rpos b + n \<le> length (mb_storage b) \<Longrightarrow> length (read_at n b) = n"
  by (simp add: read_at_def)

lemma u8_small: "unat (c :: u8) \<le> 255"
  using byte_less[of c] by simp

text \<open>A challenge that is accepted is as long as it says.\<close>

lemma challenge_length:
  assumes "(ucast (sz :: u16) :: u64) - 30 = ucast (n :: u8)"
  shows "unat sz = 30 + unat n"
proof -
  have small: "unat sz < 2 ^ LENGTH(16)" by (rule unsigned_less)
  have "(ucast sz :: u64) = ucast n + 30" using assms by (simp add: diff_eq_eq)
  then have "unat (ucast sz :: u64) = unat ((ucast n :: u64) + 30)" by simp
  moreover have "unat (ucast sz :: u64) = unat sz"
    using small by (simp add: unsigned_ucast_eq take_bit_nat_eq_self)
  moreover have n: "unat (ucast n :: u64) = unat n"
    using byte_less[of n] by (simp add: unsigned_ucast_eq take_bit_nat_eq_self)
  moreover have "unat ((ucast n :: u64) + 30) = unat n + 30"
    using n u8_small[of n] by (subst unat_plus_simple[THEN iffD1]) (simp_all add: no_olen_add_nat)
  ultimately show ?thesis by simp
qed

lemma read_challenge_ok:
  assumes "mb_rpos (lg_readBuffer s) + 300 \<le> length (mb_storage (lg_readBuffer s))"
  obtains ok s1 where "read_challenge E query s = Inr (ok, s1)" "lg_status s1 = STATUS_CLOSED" "same_login s s1"
    "lg_readBuffer s1 = lg_readBuffer s" "lg_reading s1 = lg_reading s" "lg_closed s1 = lg_closed s"
    "ok \<Longrightarrow> unat (challenge_size E (read_at 34 (lg_readBuffer s))) = 30 + unat (read_at 34 (lg_readBuffer s) ! 33)"
    "ok \<Longrightarrow> lg_queries s1 = lg_queries s @ [query (drop 34 (read_at (34 + unat (read_at 34 (lg_readBuffer s) ! 33)) (lg_readBuffer s)))]"
    "\<not> ok \<Longrightarrow> lg_queries s1 = lg_queries s"
proof -
  let ?b = "lg_readBuffer s" and ?p = "read_at 34 (lg_readBuffer s)"
  have p: "struct_at 34 ?b = Some ?p" using assms by (simp add: struct_at_read)
  show thesis
  proof (cases "(ucast (challenge_size E ?p) :: u64) - 30 = ucast (?p ! 33)")
    case False
    then show thesis
      using that[of False "s\<lparr>lg_status := STATUS_CLOSED\<rparr>"] p by (simp add: read_challenge_def same_login_def)
  next
    case True
    have "mb_rpos ?b + (34 + unat (?p ! 33)) \<le> length (mb_storage ?b)" using assms u8_small[of "?p ! 33"] by linarith
    then have "struct_at (34 + unat (?p ! 33)) ?b = Some (read_at (34 + unat (?p ! 33)) ?b)" by (rule struct_at_read)
    then show thesis
      using that[of True "s\<lparr>lg_status := STATUS_CLOSED, lg_build := from_memory (le_big E) (take 2 (drop 11 ?p)),
          lg_expversion := expansion_flag (from_memory (le_big E) (take 2 (drop 11 ?p))),
          lg_os := rev (takeWhile (\<lambda>c. c \<noteq> 0) (take 4 (drop 17 ?p))), lg_localizationName := rev (take 4 (drop 21 ?p)),
          lg_queries := lg_queries s @ [query (drop 34 (read_at (34 + unat (?p ! 33)) ?b))]\<rparr>"]
        p True challenge_length[OF True] by (simp add: read_challenge_def Let_def same_login_def)
  qed
qed

text \<open>What a handler may change: only the token moves the read pointer.\<close>

definition handled :: "nat \<Rightarrow> LogonSession \<Rightarrow> LogonSession \<Rightarrow> bool" where
  "handled n s s1 \<longleftrightarrow>
     lg_reading s1 = lg_reading s \<and> lg_closed s1 = lg_closed s
     \<and> (\<exists>k \<le> n. lg_readBuffer s1 = ReadCompleted k (lg_readBuffer s))
     \<and> lg_N s1 = lg_N s \<and> lg_g s1 = lg_g s"

lemma ReadCompleted_0 [simp]: "ReadCompleted 0 b = b"
  by (simp add: ReadCompleted_def)

lemma handled_same: "same_input s s1 \<Longrightarrow> same_login s s1 \<Longrightarrow> handled n s s1"
  by (auto simp: handled_def same_input_def same_login_def intro!: exI[of _ 0])

lemma check_token_ok:
  assumes "mb_rpos (lg_readBuffer s) + 331 \<le> length (mb_storage (lg_readBuffer s))"
  obtains ok s1 where "check_token E flags s = Inr (ok, s1)" "handled 256 s s1" "same_login s s1"
    "lg_status s1 = lg_status s" "lg_queries s1 = lg_queries s"
proof (cases "flags AND 0x04 \<noteq> 0 \<or> lg_tokenKey s \<noteq> []")
  case False
  then show thesis using that[of True s] handled_same[of s s] by (simp add: check_token_def)
next
  case True
  let ?b = "lg_readBuffer s" and ?n = "unat (read_at 76 (lg_readBuffer s) ! 75)"
  have n: "?n \<le> 255" by (rule u8_small)
  have "mb_rpos ?b + (76 + ?n) \<le> length (mb_storage ?b)" using assms n by linarith
  then have t: "struct_at 76 ?b = Some (read_at 76 ?b)" "struct_at (76 + ?n) ?b = Some (read_at (76 + ?n) ?b)"
    using struct_at_read[of ?b 76] struct_at_read[of ?b "76 + ?n"] by simp_all
  let ?s = "s\<lparr>lg_readBuffer := ReadCompleted (1 + ?n) ?b, lg_tokenKey := []\<rparr>"
  have "handled 256 s ?s" using n by (auto simp: handled_def intro!: exI[of _ "1 + ?n"])
  then show thesis using that t True by (simp add: check_token_def Let_def same_login_def)
qed

lemma refuse_proof_ok:
  assumes "\<And>s. same_input s (after s) \<and> same_login s (after s) \<and> lg_status (after s) = lg_status s"
  obtains s1 where "refuse_proof E after s = Inr (True, s1)" "same_input s s1" "same_login s s1" "lg_status s1 = lg_status s"
proof -
  obtain q where q: "lg_SendPacket proof_refused s = Inr (s\<lparr>lg_writeQueue := q\<rparr>)"
    using lg_SendPacket_ok[of proof_refused s] by (auto simp: proof_refused_def)
  show thesis
    using that[of "after (s\<lparr>lg_writeQueue := q\<rparr>)"] q assms[of "s\<lparr>lg_writeQueue := q\<rparr>"]
    by (auto simp: refuse_proof_def same_input_def same_login_def)
qed

lemma accept_proof_ok:
  assumes "documented_ssl (le_ssl E)"
  obtains s1 where "accept_proof E A M s = Inr (True, s1)" "same_input s s1" "same_login s s1" "lg_status s1 = STATUS_AUTHED"
proof -
  let ?s = "s\<lparr>lg_effects := lg_effects s @ [LOGIN_UPD_LOGONPROOF (AsHexStr (le_ssl E) (lg_K s)) (le_address E)
    (GetLocaleByName (lg_localizationName s)) (lg_os s) (la_Login (lg_accountInfo s))]\<rparr>"
  let ?M2 = "SHA1 (le_ssl E) (UpdateBigNumbers (le_ssl E) [A, M, lg_K s] [])"
  have "length ?M2 = 20" using assms by (simp add: length_SHA1)
  then obtain q where q: "lg_SendPacket (proof_answer E (lg_expversion s) ?M2) ?s = Inr (?s\<lparr>lg_writeQueue := q\<rparr>)"
    using lg_SendPacket_ok[OF length_proof_answer] by blast
  show thesis
    using that[of "?s\<lparr>lg_writeQueue := q, lg_status := STATUS_AUTHED\<rparr>"] q
    by (simp add: accept_proof_def Let_def same_input_def same_login_def)
qed

lemma HandleLogonProof_ok:
  assumes "documented_ssl (le_ssl E)" and "mb_rpos (lg_readBuffer s) + 331 \<le> length (mb_storage (lg_readBuffer s))"
    and "read_at 1 (lg_readBuffer s) = [AUTH_LOGON_PROOF]"
  obtains ok s1 where "HandleLogonProof E s = Inr (ok, s1)" "handled 256 s s1" "lg_queries s1 = lg_queries s"
    "lg_status s1 = STATUS_CLOSED \<or> lg_status s1 = STATUS_AUTHED \<and> accepts_proof E s1 (read_at 75 (lg_readBuffer s))"
proof -
  let ?S = "le_ssl E" and ?p = "read_at 75 (lg_readBuffer s)" and ?s = "s\<lparr>lg_status := STATUS_CLOSED\<rparr>"
  let ?A = "SetBinary ?S (take 32 (drop 1 ?p))"
  let ?s1 = "?s\<lparr>lg_K := srp_K ?S (server_common ?S ?s ?A)\<rparr>"
  let ?M = "srp_M ?S (lg_N ?s1) (lg_g ?s1) (la_Login (lg_accountInfo ?s1)) (lg_s ?s1) ?A (lg_B ?s1) (lg_K ?s1)"
  have p: "struct_at 75 (lg_readBuffer s) = Some ?p" "length ?p = 75"
    using assms(2) by (simp_all add: struct_at_read length_read_at)
  have "take 1 ?p = read_at 1 (lg_readBuffer s)" by (simp add: read_at_def)
  then have hd: "?p \<noteq> []" "hd ?p = AUTH_LOGON_PROOF" using assms(3) p(2) by (cases ?p; simp)+
  have lift: "handled 256 s s1" if "handled 256 ?s1 s1" for s1
    using that by (auto simp: handled_def)
  consider "lg_expversion s = 0 \<or> IsZero (bn_modulo ?S ?A (lg_N s))"
    | (wrong) "lg_expversion s \<noteq> 0" "\<not> IsZero (bn_modulo ?S ?A (lg_N s))" "take 20 (AsByteArray ?S 20 True ?M) \<noteq> take 20 (drop 33 ?p)"
    | (right) "lg_expversion s \<noteq> 0" "\<not> IsZero (bn_modulo ?S ?A (lg_N s))" "take 20 (AsByteArray ?S 20 True ?M) = take 20 (drop 33 ?p)"
    by blast
  then show thesis
  proof cases
    case 1
    then have "HandleLogonProof E s = Inr (False, ?s)"
      using p by (cases "lg_expversion s = 0") (simp_all add: HandleLogonProof_def Let_def)
    moreover have "handled 256 s ?s" by (auto simp: handled_def intro!: exI[of _ 0])
    ultimately show thesis using that[of False ?s] by simp
  next
    case wrong
    obtain s2 where r: "refuse_proof E (count_failure E) ?s1 = Inr (True, s2)" "same_input ?s1 s2" "same_login ?s1 s2" "lg_status s2 = STATUS_CLOSED"
      using refuse_proof_ok[of "count_failure E" E ?s1] count_failure_same by auto
    have "HandleLogonProof E s = Inr (True, s2)" using r(1) p wrong by (simp add: HandleLogonProof_def Let_def)
    then show thesis using that r(2,4) lift[OF handled_same[OF r(2,3)]] by (simp add: same_input_def)
  next
    case right
    obtain ok s2 where t: "check_token E (?p ! 74) ?s1 = Inr (ok, s2)" "handled 256 ?s1 s2" "same_login ?s1 s2"
      "lg_status s2 = STATUS_CLOSED" "lg_queries s2 = lg_queries s"
      using check_token_ok[of ?s1 E "?p ! 74"] assms(2) by auto
    have step: "HandleLogonProof E s = (if ok then accept_proof E ?A ?M s2 else refuse_proof E (\<lambda>s. s) s2)"
      using t(1) p right by (simp add: HandleLogonProof_def Let_def)
    have same: "same_login ?s1 s3" "handled 256 s s3" "lg_queries s3 = lg_queries s" if "same_input s2 s3" "same_login s2 s3" for s3
      using that t lift[of s3] by (auto simp: same_login_def same_input_def handled_def)
    show thesis
    proof (cases ok)
      case True
      obtain s3 where s3: "accept_proof E ?A ?M s2 = Inr (True, s3)" "same_input s2 s3" "same_login s2 s3" "lg_status s3 = STATUS_AUTHED"
        using accept_proof_ok[OF assms(1)] by blast
      have "server_common ?S ?s1 ?A = server_common ?S s ?A" "server_common ?S ?s ?A = server_common ?S s ?A"
        by (simp_all add: server_common_def)
      then have "accepts_proof E ?s1 ?p" using right hd p(2) by (simp add: accepts_proof_def Let_def)
      then show thesis
        using that[of True s3] step True s3 same[OF s3(2,3)] accepts_login(1)[OF same(1)[OF s3(2,3)]] by simp
    next
      case False
      obtain s3 where s3: "refuse_proof E (\<lambda>s. s) s2 = Inr (True, s3)" "same_input s2 s3" "same_login s2 s3" "lg_status s3 = STATUS_CLOSED"
        using refuse_proof_ok[of "\<lambda>s. s" E s2] t(4) by auto
      then show thesis using that[of True s3] step False same[OF s3(2,3)] by simp
    qed
  qed
qed

lemma HandleReconnectProof_ok:
  assumes "mb_rpos (lg_readBuffer s) + 331 \<le> length (mb_storage (lg_readBuffer s))"
    and "read_at 1 (lg_readBuffer s) = [AUTH_RECONNECT_PROOF]"
  obtains ok s1 where "HandleReconnectProof E s = Inr (ok, s1)" "handled 256 s s1" "lg_queries s1 = lg_queries s"
    "lg_status s1 = STATUS_CLOSED \<or> lg_status s1 = STATUS_AUTHED \<and> accepts_reconnect E s1 (read_at 58 (lg_readBuffer s))"
proof -
  let ?S = "le_ssl E" and ?p = "read_at 58 (lg_readBuffer s)" and ?s = "s\<lparr>lg_status := STATUS_CLOSED\<rparr>"
  let ?login = "la_Login (lg_accountInfo s)"
  have p: "struct_at 58 (lg_readBuffer s) = Some ?p" "length ?p = 58"
    using assms(1) by (simp_all add: struct_at_read length_read_at)
  have "take 1 ?p = read_at 1 (lg_readBuffer s)" by (simp add: read_at_def)
  then have first: "?p \<noteq> []" "hd ?p = AUTH_RECONNECT_PROOF" using assms(2) p(2) by (cases ?p; simp)+
  have closed: "handled 256 s ?s" "lg_queries ?s = lg_queries s" by (auto simp: handled_def intro!: exI[of _ 0])
  let ?bad = "?login = [] \<or> GetNumBytes ?S (lg_reconnectProof s) = 0 \<or> GetNumBytes ?S (lg_K s) = 0"
  let ?digest = "reconnect_digest ?S ?login (take 16 (drop 1 ?p)) (lg_reconnectProof s) (lg_K s) = take 20 (drop 17 ?p)"
  show thesis
  proof (cases "\<not> ?bad \<and> ?digest")
    case False
    then have "HandleReconnectProof E s = Inr (False, ?s)"
      using p by (cases ?bad) (simp_all add: HandleReconnectProof_def Let_def)
    then show thesis using that[of False ?s] closed by simp
  next
    case True
    obtain q where q: "lg_SendPacket [AUTH_RECONNECT_PROOF, 0, 0, 0] ?s = Inr (?s\<lparr>lg_writeQueue := q\<rparr>)"
      using lg_SendPacket_ok[of "[AUTH_RECONNECT_PROOF, 0, 0, 0]" ?s] by auto
    let ?s1 = "?s\<lparr>lg_writeQueue := q, lg_status := STATUS_AUTHED\<rparr>"
    have "HandleReconnectProof E s = Inr (True, ?s1)"
      using True p q by (simp add: HandleReconnectProof_def Let_def)
    moreover have "handled 256 s ?s1" "lg_queries ?s1 = lg_queries s" by (auto simp: handled_def intro!: exI[of _ 0])
    moreover have "accepts_reconnect E ?s1 ?p" using True first p(2) by (simp add: accepts_reconnect_def Let_def)
    ultimately show thesis using that[of True ?s1] by simp
  qed
qed

section \<open>Rounds of the loop\<close>

text \<open>How far the read pointer can be in a state, and how many commands can follow.\<close>

fun reach :: "AuthStatus \<Rightarrow> nat" where
  "reach STATUS_AUTHED = 400"
| "reach STATUS_WAITING_FOR_REALM_LIST = 500"
| "reach STATUS_CLOSED = 500"
| "reach _ = 0"

fun rounds :: "AuthStatus \<Rightarrow> nat" where
  "rounds STATUS_CHALLENGE = 1"
| "rounds STATUS_LOGON_PROOF = 2"
| "rounds STATUS_RECONNECT_PROOF = 2"
| "rounds STATUS_AUTHED = 1"
| "rounds _ = 0"

definition buf_in :: "LogonSession \<Rightarrow> bool" where
  "buf_in s \<longleftrightarrow> \<not> lg_closed s \<and> 4096 \<le> length (mb_storage (lg_readBuffer s))
     \<and> mb_wpos (lg_readBuffer s) \<le> length (mb_storage (lg_readBuffer s))
     \<and> mb_rpos (lg_readBuffer s) \<le> reach (lg_status s)"

definition buf_ready :: "LogonSession \<Rightarrow> bool" where
  "buf_ready s \<longleftrightarrow> \<not> lg_closed s \<and> 4096 \<le> length (mb_storage (lg_readBuffer s)) \<and> mb_ok (lg_readBuffer s)"

text \<open>The bytes a session still has from its client; none when the read pointer has passed them.\<close>

abbreviation unread_bytes :: "LogonSession \<Rightarrow> u8 list" where
  "unread_bytes s \<equiv> mb_data (lg_readBuffer s)"

definition logged_in :: "LogonSession \<Rightarrow> bool" where
  "logged_in s \<longleftrightarrow> lg_status s = STATUS_AUTHED \<or> lg_status s = STATUS_WAITING_FOR_REALM_LIST"

text \<open>A proof for the session is among the bytes.\<close>

definition proof_in :: "logon_env \<Rightarrow> LogonSession \<Rightarrow> u8 list \<Rightarrow> bool" where
  "proof_in E s bs \<longleftrightarrow> (\<exists>p. sublist p bs \<and> (accepts_proof E s p \<or> accepts_reconnect E s p))"

lemma proof_in_login: "same_login s s1 \<Longrightarrow> proof_in E s1 bs = proof_in E s bs"
  by (simp add: proof_in_def accepts_login)

lemma proof_in_more: "proof_in E s bs \<Longrightarrow> sublist bs cs \<Longrightarrow> proof_in E s cs"
  unfolding proof_in_def by (blast intro: sublist_order.order.trans)

lemma data_completed: "mb_data (ReadCompleted n b) = drop n (mb_data b)"
  by (rule ReadCompleted_ok(2))

text \<open>At most one query is open, and it goes with the state; the query for the address comes before anything is read.\<close>

fun quiet :: "logon_query list \<Rightarrow> AuthStatus \<Rightarrow> bool" where
  "quiet [] status = True"
| "quiet [LOGIN_SEL_LOGONCHALLENGE l] status = (status = STATUS_CLOSED)"
| "quiet [LOGIN_SEL_RECONNECTCHALLENGE l] status = (status = STATUS_CLOSED)"
| "quiet [LOGIN_SEL_REALM_CHARACTER_COUNTS i] status = (status = STATUS_WAITING_FOR_REALM_LIST)"
| "quiet _ status = False"

lemma quiet_none: "quiet qs status \<Longrightarrow> rounds status > 0 \<Longrightarrow> qs = []"
  by (cases "(qs, status)" rule: quiet.cases) auto

text \<open>What reading does to a session: it only takes bytes, and only a proof among them logs it in.\<close>

definition progress :: "logon_env \<Rightarrow> LogonSession \<Rightarrow> LogonSession \<Rightarrow> bool" where
  "progress E s s1 \<longleftrightarrow>
     lg_N s1 = lg_N s \<and> lg_g s1 = lg_g s \<and> lg_reading s1 = lg_reading s \<and> suffix (unread_bytes s1) (unread_bytes s)
     \<and> (quiet (lg_queries s) (lg_status s) \<longrightarrow> quiet (lg_queries s1) (lg_status s1))
     \<and> (logged_in s1 \<longrightarrow> logged_in s \<and> same_login s s1 \<or> proof_in E s1 (unread_bytes s))"

lemma same_login_trans: "same_login s s1 \<Longrightarrow> same_login s1 s2 \<Longrightarrow> same_login s s2"
  by (simp add: same_login_def)

lemma progress_trans:
  assumes "progress E s s1" and "progress E s1 s2"
  shows "progress E s s2"
proof -
  have "sublist (unread_bytes s1) (unread_bytes s)" using assms(1) by (simp add: progress_def suffix_imp_sublist)
  then show ?thesis
    using assms unfolding progress_def
    by (auto intro: suffix_order.trans same_login_trans dest: proof_in_login proof_in_more)
qed

lemma progress_refl: "progress E s s"
  by (simp add: progress_def)

lemma progress_close:
  assumes "progress E s s1"
  shows "progress E s (lg_CloseSocket s1)"
proof -
  have "progress E s1 (lg_CloseSocket s1)" by (simp add: progress_def lg_CloseSocket_def logged_in_def same_login_def)
  with assms show ?thesis by (rule progress_trans)
qed

lemma progress_completed: "progress E s s1 \<Longrightarrow> progress E s (s1\<lparr>lg_readBuffer := ReadCompleted n (lg_readBuffer s1)\<rparr>)"
proof -
  assume p: "progress E s s1"
  let ?s = "s1\<lparr>lg_readBuffer := ReadCompleted n (lg_readBuffer s1)\<rparr>"
  have "progress E s1 ?s" by (simp add: progress_def logged_in_def same_login_def data_completed suffix_drop)
  then show ?thesis using p by (rule progress_trans[rotated])
qed

text \<open>Every handler returns, moves to a later state and takes at most a token from the buffer.\<close>

definition stepped :: "logon_env \<Rightarrow> LogonSession \<Rightarrow> LogonSession \<Rightarrow> bool" where
  "stepped E s s1 \<longleftrightarrow>
     progress E s s1 \<and> lg_closed s1 = lg_closed s \<and> rounds (lg_status s1) < rounds (lg_status s)
     \<and> (\<exists>k. lg_readBuffer s1 = ReadCompleted k (lg_readBuffer s) \<and> mb_rpos (lg_readBuffer s) + k + 75 \<le> reach (lg_status s1))"

lemma stepped_challenge:
  assumes "buf_in s" and "lg_status s = STATUS_CHALLENGE" and "\<And>l. quiet [query l] STATUS_CLOSED"
  obtains ok s1 where "read_challenge E query s = Inr (ok, s1)" "stepped E s s1"
proof -
  have "mb_rpos (lg_readBuffer s) + 300 \<le> length (mb_storage (lg_readBuffer s))"
    using assms(1,2) by (auto simp: buf_in_def)
  from read_challenge_ok[OF this, of E query] obtain ok s1 where r: "read_challenge E query s = Inr (ok, s1)"
    "lg_status s1 = STATUS_CLOSED" "same_login s s1" "lg_readBuffer s1 = lg_readBuffer s" "lg_reading s1 = lg_reading s"
    "lg_closed s1 = lg_closed s" "\<exists>l. lg_queries s1 = lg_queries s \<or> lg_queries s1 = lg_queries s @ [query l]"
    by metis
  have "quiet (lg_queries s1) (lg_status s1)" if "quiet (lg_queries s) (lg_status s)"
    using quiet_none[OF that] assms(2,3) r(2,7) by auto
  then have "stepped E s s1"
    using r assms(1,2) by (auto simp: stepped_def progress_def same_login_def logged_in_def buf_in_def intro!: exI[of _ 0])
  then show thesis using r(1) that by blast
qed

text \<open>A proof at the read pointer is one among the bytes that were received.\<close>

lemma front_sublist:
  assumes "mb_rpos b \<le> mb_wpos b" and "mb_wpos b \<le> length (mb_storage b)" and "n \<le> active_size b"
  shows "sublist (read_at n b) (mb_data b)"
proof -
  have "read_at n b = take n (mb_data b)"
    using assms by (intro read_at_data) (simp_all add: mb_ok_def active_size_def GetActiveSize_def)
  then show ?thesis by simp
qed

lemma stepped_proof:
  assumes "buf_in s" and "lg_status s \<in> {STATUS_LOGON_PROOF, STATUS_RECONNECT_PROOF}" and "handled 256 s s1"
    and "lg_queries s1 = lg_queries s" and "n \<le> active_size (lg_readBuffer s)"
    and "lg_status s1 = STATUS_CLOSED \<or> lg_status s1 = STATUS_AUTHED \<and>
      (accepts_proof E s1 (read_at n (lg_readBuffer s)) \<or> accepts_reconnect E s1 (read_at n (lg_readBuffer s)))"
  shows "stepped E s s1"
proof -
  have r: "mb_rpos (lg_readBuffer s) = 0" "mb_wpos (lg_readBuffer s) \<le> length (mb_storage (lg_readBuffer s))"
    using assms(1,2) by (auto simp: buf_in_def)
  obtain k where k: "k \<le> 256" "lg_readBuffer s1 = ReadCompleted k (lg_readBuffer s)"
    using assms(3) by (auto simp: handled_def)
  have later: "lg_status s1 = STATUS_CLOSED \<or> lg_status s1 = STATUS_AUTHED" using assms(6) by blast
  have "proof_in E s1 (unread_bytes s)" if "logged_in s1"
  proof -
    have "sublist (read_at n (lg_readBuffer s)) (unread_bytes s)" using front_sublist[OF _ r(2) assms(5)] r(1) by simp
    then show ?thesis using assms(6) that by (auto simp: proof_in_def logged_in_def)
  qed
  moreover have "quiet (lg_queries s1) (lg_status s1)" if "quiet (lg_queries s) (lg_status s)"
    using quiet_none[OF that] assms(2,4) by auto
  ultimately have "progress E s s1"
    using assms(3) k(2) by (auto simp: progress_def handled_def data_completed suffix_drop)
  then show ?thesis
    using assms(2,3) k r(1) later by (auto simp: stepped_def handled_def intro!: exI[of _ k])
qed

lemma stepped_realm_list:
  assumes "buf_in s" and "lg_status s = STATUS_AUTHED"
  obtains s1 where "HandleRealmList E s = Inr (True, s1)" "stepped E s s1"
proof -
  let ?s = "s\<lparr>lg_queries := lg_queries s @ [LOGIN_SEL_REALM_CHARACTER_COUNTS (la_Id (lg_accountInfo s))],
    lg_status := STATUS_WAITING_FOR_REALM_LIST\<rparr>"
  have "quiet (lg_queries ?s) (lg_status ?s)" if "quiet (lg_queries s) (lg_status s)"
    using quiet_none[OF that] assms(2) by simp
  then have "stepped E s ?s"
    using assms by (auto simp: stepped_def progress_def same_login_def logged_in_def buf_in_def intro!: exI[of _ 0])
  then show thesis using that by (simp add: HandleRealmList_def)
qed

lemma call_handler_ok:
  assumes "documented_ssl (le_ssl E)" and "buf_in s" and "logon_handler cmd = Some (lg_status s, sz)"
    and "read_at 1 (lg_readBuffer s) = [cmd]" and "unat sz \<le> active_size (lg_readBuffer s)"
  obtains ok s1 where "call_handler E cmd s = Inr (ok, s1)" "stepped E s s1"
proof -
  have room: "mb_rpos (lg_readBuffer s) + 331 \<le> length (mb_storage (lg_readBuffer s))"
    if "lg_status s \<in> {STATUS_LOGON_PROOF, STATUS_RECONNECT_PROOF}" using assms(2) that by (auto simp: buf_in_def)
  consider (challenge) "cmd = AUTH_LOGON_CHALLENGE" "lg_status s = STATUS_CHALLENGE"
    | (logon) "cmd = AUTH_LOGON_PROOF" "lg_status s = STATUS_LOGON_PROOF" "sz = 75"
    | (again) "cmd = AUTH_RECONNECT_CHALLENGE" "lg_status s = STATUS_CHALLENGE"
    | (reconnect) "cmd = AUTH_RECONNECT_PROOF" "lg_status s = STATUS_RECONNECT_PROOF" "sz = 58"
    | (realms) "cmd = REALM_LIST" "lg_status s = STATUS_AUTHED"
    using assms(3) by (auto simp: logon_handler_def split: if_splits)
  then show thesis
  proof cases
    case challenge
    then show thesis
      using stepped_challenge[OF assms(2), of LOGIN_SEL_LOGONCHALLENGE E] that by (auto simp: call_handler_def HandleLogonChallenge_def)
  next
    case logon
    obtain ok s1 where "HandleLogonProof E s = Inr (ok, s1)" "handled 256 s s1" "lg_queries s1 = lg_queries s"
      "lg_status s1 = STATUS_CLOSED \<or> lg_status s1 = STATUS_AUTHED \<and> accepts_proof E s1 (read_at 75 (lg_readBuffer s))"
      using HandleLogonProof_ok[OF assms(1) room] logon(1,2) assms(4) by auto
    then show thesis
      using stepped_proof[OF assms(2), of s1 75 E] logon assms(5) that by (auto simp: call_handler_def)
  next
    case again
    then show thesis
      using stepped_challenge[OF assms(2), of LOGIN_SEL_RECONNECTCHALLENGE E] that by (auto simp: call_handler_def HandleReconnectChallenge_def)
  next
    case reconnect
    obtain ok s1 where "HandleReconnectProof E s = Inr (ok, s1)" "handled 256 s s1" "lg_queries s1 = lg_queries s"
      "lg_status s1 = STATUS_CLOSED \<or> lg_status s1 = STATUS_AUTHED \<and> accepts_reconnect E s1 (read_at 58 (lg_readBuffer s))"
      using HandleReconnectProof_ok[OF room] reconnect(1,2) assms(4) by auto
    then show thesis
      using stepped_proof[OF assms(2), of s1 58 E] reconnect assms(5) that by (auto simp: call_handler_def)
  next
    case realms
    then show thesis using stepped_realm_list[OF assms(2)] that by (auto simp: call_handler_def)
  qed
qed

text \<open>One round: the loop ends with the buffer in order or with the socket closed, or a command was handled.\<close>

definition round_done :: "LogonSession \<Rightarrow> LogonStep \<Rightarrow> LogonSession \<Rightarrow> bool" where
  "round_done s step s1 \<longleftrightarrow>
     (case step of
        LS_Wait \<Rightarrow> buf_ready s1
      | LS_Continue \<Rightarrow> buf_in s1 \<and> rounds (lg_status s1) < rounds (lg_status s)
      | LS_Return \<Rightarrow> lg_closed s1)"

lemma wait_ready: "buf_in s \<Longrightarrow> active_size (lg_readBuffer s) < unat (n :: u16) \<Longrightarrow> buf_ready s"
proof -
  assume s: "buf_in s" and n: "active_size (lg_readBuffer s) < unat n"
  have "unat n < 2 ^ LENGTH(16)" by (rule unsigned_less)
  moreover have "reach status \<le> 500" for status by (cases status) simp_all
  then have "mb_rpos (lg_readBuffer s) \<le> 500" using s le_trans unfolding buf_in_def by blast
  ultimately have "mb_rpos (lg_readBuffer s) \<le> mb_wpos (lg_readBuffer s)" using n by (auto simp: active_size_def split: if_splits)
  then show ?thesis using s by (simp add: buf_ready_def buf_in_def mb_ok_def)
qed

lemma finish_command_ok:
  assumes "documented_ssl (le_ssl E)" and "buf_in s" and "logon_handler cmd = Some (lg_status s, sz0)"
    and "read_at 1 (lg_readBuffer s) = [cmd]" and "unat sz0 \<le> active_size (lg_readBuffer s)" and "unat sz \<le> 75"
  obtains step s1 where "finish_command E cmd sz s = Inr (step, s1)" "round_done s step s1" "progress E s s1"
proof (cases "active_size (lg_readBuffer s) < unat sz")
  case True
  then show thesis
    using that[of LS_Wait s] wait_ready[OF assms(2) True] by (simp add: finish_command_def round_done_def progress_refl)
next
  case False
  obtain ok s1 where h: "call_handler E cmd s = Inr (ok, s1)" "stepped E s s1"
    using call_handler_ok[OF assms(1-5)] .
  have p: "progress E s s1" using h(2) by (simp add: stepped_def)
  let ?s = "s1\<lparr>lg_readBuffer := ReadCompleted (unat sz) (lg_readBuffer s1)\<rparr>"
  show thesis
  proof (cases ok)
    case True
    have "buf_in ?s"
      using h(2) assms(2,6) by (auto simp: stepped_def buf_in_def ReadCompleted_def)
    then show thesis
      using that[of LS_Continue ?s] True False h progress_completed[OF p] by (simp add: finish_command_def round_done_def stepped_def)
  next
    case no: False
    then show thesis
      using that[of LS_Return "lg_CloseSocket s1"] False h progress_close[OF p]
      by (simp add: finish_command_def round_done_def lg_CloseSocket_def)
  qed
qed

lemma logon_round_ok:
  assumes "documented_ssl (le_ssl E)" and "buf_in s"
  obtains step s1 where "logon_round E s = Inr (step, s1)" "round_done s step s1" "progress E s s1"
proof -
  let ?b = "lg_readBuffer s"
  have "reach status \<le> 500" for status by (cases status) simp_all
  then have "mb_rpos ?b \<le> 500" using assms(2) le_trans unfolding buf_in_def by blast
  then have room: "mb_rpos ?b + 4 \<le> length (mb_storage ?b)" using assms(2) by (simp add: buf_in_def)
  obtain c where c: "read_at 1 ?b = [c]"
    using length_read_at[of ?b 1] room by (auto simp: length_Suc_conv)
  have p: "struct_at (Suc 0) ?b = Some [c]" "struct_at 4 ?b = Some (read_at 4 ?b)"
    using room c by (simp_all add: struct_at_read)
  have close: "round_done s LS_Return (lg_CloseSocket s)" "progress E s (lg_CloseSocket s)"
    using progress_close[OF progress_refl] by (simp_all add: round_done_def lg_CloseSocket_def)
  show thesis
  proof (cases "logon_handler (c)")
    case None
    let ?s = "s\<lparr>lg_readBuffer := mb_Reset ?b\<rparr>"
    have "buf_ready ?s" using assms(2) by (simp add: buf_ready_def buf_in_def mb_ok_def mb_Reset_def)
    moreover have "progress E s ?s" by (simp add: progress_def logged_in_def same_login_def mb_Reset_def mb_data_def)
    ultimately show thesis using that[of LS_Wait ?s] p(1) None by (simp add: logon_round_def round_done_def)
  next
    case (Some h)
    obtain status sz where h: "h = (status, sz)" by (cases h)
    note start = logon_round_def p Some h
    show thesis
    proof (cases "lg_status s = status \<and> \<not> active_size ?b < unat sz")
      case False
      then consider "lg_status s \<noteq> status" | "lg_status s = status" "active_size ?b < unat sz" by blast
      then show thesis
      proof cases
        case 1
        then show thesis using that[OF _ close] by (simp add: start)
      next
        case 2
        then show thesis
          using that[of LS_Wait s] wait_ready[OF assms(2) 2(2)] progress_refl by (simp add: start round_done_def)
      qed
    next
      case True
      then have here: "logon_handler (c) = Some (lg_status s, sz)" "unat sz \<le> active_size ?b" using Some h by auto
      note finish = finish_command_ok[OF assms here(1) c here(2)]
      show thesis
      proof (cases "c = AUTH_LOGON_CHALLENGE \<or> c = AUTH_RECONNECT_CHALLENGE")
        case False
        have "unat sz \<le> 75" using here(1) False by (auto simp: logon_handler_def split: if_splits)
        from finish[OF this] show thesis using that True False by (simp add: start) metis
      next
        case ch: True
        let ?sz = "sz + challenge_size E (read_at 4 ?b)"
        show thesis
        proof (cases "?sz > MAX_ACCEPTED_CHALLENGE_SIZE")
          case big: True
          then show thesis using that[OF _ close] True ch by (simp add: start Let_def)
        next
          case False
          then have "unat ?sz \<le> 75" by (simp add: word_le_nat_alt not_less)
          from finish[OF this] show thesis using that True ch False by (simp add: start Let_def) metis
        qed
      qed
    qed
  qed
qed

text \<open>The loop ends within its rounds.\<close>

lemma logon_loop_ok:
  assumes "documented_ssl (le_ssl E)" and "buf_in s" and "rounds (lg_status s) < k"
  shows "\<exists>again s1. logon_loop E k s = Inr (again, s1) \<and> (if again then buf_ready s1 else lg_closed s1) \<and> progress E s s1"
  using assms(2,3)
proof (induction k arbitrary: s)
  case (Suc k)
  show ?case
  proof (cases "active_size (lg_readBuffer s) = 0")
    case True
    then have "mb_rpos (lg_readBuffer s) \<le> mb_wpos (lg_readBuffer s)"
      using wait_ready[OF Suc.prems(1), of 1] by (simp add: buf_ready_def mb_ok_def)
    then show ?thesis
      using True Suc.prems(1) progress_refl by (auto simp: buf_ready_def buf_in_def mb_ok_def intro!: exI[of _ True])
  next
    case False
    obtain step s1 where r: "logon_round E s = Inr (step, s1)" "round_done s step s1" "progress E s s1"
      using logon_round_ok[OF assms(1) Suc.prems(1)] .
    show ?thesis
    proof (cases step)
      case LS_Continue
      then have "buf_in s1" "rounds (lg_status s1) < k" using r(2) Suc.prems(2) by (auto simp: round_done_def)
      from Suc.IH[OF this] obtain again s2 where "logon_loop E k s1 = Inr (again, s2)"
        "if again then buf_ready s2 else lg_closed s2" "progress E s1 s2" by blast
      then show ?thesis using r LS_Continue False progress_trans[OF r(3)] by auto
    qed (use r False in \<open>auto simp: round_done_def\<close>)
  qed
qed simp

section \<open>Reading and callbacks\<close>

text \<open>The modulus of the protocol, a number of 32 bytes.\<close>

definition srp_N :: nat where
  "srp_N = 0x894B645E89E1535BBDAD5B8B290650530801B18EBFBF5E8FAB3C82872A3E9BB7"

lemma new_session_N:
  assumes "documented_ssl (le_ssl E)"
  shows "lg_N (mk_LogonSession E) = srp_N" and "lg_g (mk_LogonSession E) = 7"
proof -
  let ?str = "ascii ''894B645E89E1535BBDAD5B8B290650530801B18EBFBF5E8FAB3C82872A3E9BB7''"
  have "is_hex ?str" by (simp add: is_hex_def ascii_def hex_digit_value_def)
  moreover have "hex_value ?str = srp_N" by (simp add: srp_N_def hex_value_def ascii_def hex_digit_value_def)
  ultimately show "lg_N (mk_LogonSession E) = srp_N"
    using assms by (simp add: mk_LogonSession_def SetHexStr_value)
  show "lg_g (mk_LogonSession E) = 7" by (simp add: mk_LogonSession_def)
qed

lemma srp_N_size: "0 < srp_N" "srp_N < 256 ^ 32" "7 < srp_N"
  by (simp_all add: srp_N_def)

definition at_start :: "LogonSession \<Rightarrow> bool" where
  "at_start s \<longleftrightarrow> mb_rpos (lg_readBuffer s) = 0"

lemma lg_AsyncRead_ok:
  assumes "buf_ready s"
  obtains s1 where "lg_AsyncRead s = Inr s1" "buf_ready s1" "at_start s1" "lg_reading s1" "progress E (s\<lparr>lg_reading := True\<rparr>) s1"
    "lg_queries s1 = lg_queries s" "lg_status s1 = lg_status s" "unread_bytes s1 = unread_bytes s" "same_login s s1"
proof -
  let ?b = "EnsureFreeSpace (Normalize (lg_readBuffer s))"
  have b: "mb_ok (lg_readBuffer s)" using assms by (simp add: buf_ready_def)
  note n = Normalize_ok[OF b] and e = EnsureFreeSpace_ok[OF Normalize_ok(1)[OF b]]
  have r: "mb_rpos ?b = 0" by (simp add: EnsureFreeSpace_def Normalize_def mb_Resize_def Let_def)
  have l: "4096 \<le> length (mb_storage ?b)"
    using assms n(3) by (auto simp: EnsureFreeSpace_def mb_Resize_def buf_ready_def)
  let ?s = "s\<lparr>lg_readBuffer := ?b, lg_reading := True\<rparr>"
  have "lg_AsyncRead s = Inr ?s" using assms b by (simp add: lg_AsyncRead_def lg_IsOpen_def buf_ready_def mb_ok_def)
  moreover have "buf_ready ?s" "at_start ?s" using assms e(1) r l by (simp_all add: buf_ready_def at_start_def)
  moreover have "progress E (s\<lparr>lg_reading := True\<rparr>) ?s"
    using n(2) e(2) by (simp add: progress_def logged_in_def same_login_def)
  ultimately show thesis using that[of ?s] n(2) e(2) by (simp add: same_login_def)
qed

lemma progress_reading:
  assumes "progress E s s1"
  shows "progress E (s\<lparr>lg_reading := x\<rparr>) (s1\<lparr>lg_reading := x\<rparr>)"
proof -
  have "same_login s1 (s1\<lparr>lg_reading := x\<rparr>)" by (simp add: same_login_def)
  note kept = proof_in_login[OF this]
  have "logged_in (s\<lparr>lg_reading := x\<rparr>) = logged_in s" "logged_in (s1\<lparr>lg_reading := x\<rparr>) = logged_in s1"
    "same_login (s\<lparr>lg_reading := x\<rparr>) (s1\<lparr>lg_reading := x\<rparr>) = same_login s s1"
    by (simp_all add: logged_in_def same_login_def)
  then show ?thesis using assms by (simp add: progress_def kept)
qed

text \<open>After a piece has been read, the socket is closed, or it reads on with what is left at the start of its buffer.\<close>

lemma lg_ReadHandler_ok:
  assumes "documented_ssl (le_ssl E)" and "buf_ready s" and "at_start s"
  obtains s1 where "lg_ReadHandler E s = Inr s1" "lg_closed s1 \<and> lg_reading s1 = lg_reading s \<or> buf_ready s1 \<and> at_start s1 \<and> lg_reading s1"
    "progress E (s\<lparr>lg_reading := lg_reading s1\<rparr>) s1"
proof -
  have "buf_in s" using assms(2,3) by (simp add: buf_in_def buf_ready_def mb_ok_def at_start_def)
  moreover have "rounds status < 4" for status by (cases status) simp_all
  ultimately obtain again s1 where l: "logon_loop E 4 s = Inr (again, s1)"
    "if again then buf_ready s1 else lg_closed s1" "progress E s s1"
    using logon_loop_ok[OF assms(1)] by blast
  show thesis
  proof (cases again)
    case False
    have "lg_reading s1 = lg_reading s" using l(3) by (simp add: progress_def)
    then show thesis using that[of s1] l False by (simp add: lg_ReadHandler_def)
  next
    case True
    then obtain s2 where s2: "lg_AsyncRead s1 = Inr s2" "buf_ready s2" "at_start s2" "lg_reading s2"
      "progress E (s1\<lparr>lg_reading := True\<rparr>) s2"
      using lg_AsyncRead_ok[of s1 E] l(2) by auto
    have "progress E (s\<lparr>lg_reading := True\<rparr>) (s1\<lparr>lg_reading := True\<rparr>)"
      using l(3) by (rule progress_reading)
    then show thesis using that[of s2] l(1) True s2 progress_trans by (simp add: lg_ReadHandler_def)
  qed
qed

text \<open>Callbacks leave the reading side alone.\<close>

lemma same_input_queue [simp]: "same_input s (s1\<lparr>lg_writeQueue := q\<rparr>) = same_input s s1"
  by (simp add: same_input_def)

lemma verifier_fields_same:
  "same_input s (verifier_fields E r row s)" "lg_N (verifier_fields E r row s) = lg_N s" "lg_g (verifier_fields E r row s) = lg_g s"
  "lg_status (verifier_fields E r row s) = lg_status s" "lg_accountInfo (verifier_fields E r row s) = lg_accountInfo s"
  "lg_build (verifier_fields E r row s) = lg_build s"
  by (simp_all add: verifier_fields_def SetVSFields_def Let_def same_input_def)

lemma LogonChallengeCallback_ok:
  assumes "documented_ssl (le_ssl E)" and "lg_N s = srp_N"
  obtains s1 where "LogonChallengeCallback E rs rb ru result s = Inr s1" "same_input s s1" "lg_N s1 = lg_N s" "lg_g s1 = lg_g s"
    "lg_status s1 = lg_status s \<or> lg_status s1 = STATUS_LOGON_PROOF"
proof (cases result)
  case None
  obtain q where "lg_SendPacket [AUTH_LOGON_CHALLENGE, 0, WOW_FAIL_UNKNOWN_ACCOUNT] s = Inr (s\<lparr>lg_writeQueue := q\<rparr>)"
    using lg_SendPacket_ok[of "[AUTH_LOGON_CHALLENGE, 0, WOW_FAIL_UNKNOWN_ACCOUNT]" s] by auto
  then show thesis using that[of "s\<lparr>lg_writeQueue := q\<rparr>"] None by (simp add: LogonChallengeCallback_def)
next
  case (Some row)
  let ?s1 = "s\<lparr>lg_accountInfo := LoadResult E row\<rparr>"
  have s1: "same_input s ?s1" by (simp add: same_input_def)
  show thesis
  proof (cases "refusal E (lg_ipCountry ?s1) (lg_accountInfo ?s1)")
    case code: (Some code)
    obtain q where "lg_SendPacket [AUTH_LOGON_CHALLENGE, 0, code] ?s1 = Inr (?s1\<lparr>lg_writeQueue := q\<rparr>)"
      using lg_SendPacket_ok[of "[AUTH_LOGON_CHALLENGE, 0, code]" ?s1] by auto
    then show thesis using that[of "?s1\<lparr>lg_writeQueue := q\<rparr>"] s1 Some code by (simp add: LogonChallengeCallback_def Let_def)
  next
    case None
    define s2 where "s2 = verifier_fields E rs row ?s1"
    note s2 = verifier_fields_same[where s = ?s1 and E = E and r = rs and row = row, folded s2_def]
    let ?S = "le_ssl E"
    let ?gmod = "ModExp ?S (lg_g s2) rb (lg_N s2)"
    have "lg_N s2 = srp_N" using assms(2) s2(2) by simp
    then have "?gmod = lg_g s2 ^ rb mod srp_N" using bn_arithmetic(4)[OF assms(1)] srp_N_size(1) by simp
    then have "?gmod < srp_N" using mod_less_divisor[OF srp_N_size(1)] by simp
    then have "?gmod < 256 ^ 32" using srp_N_size(2) by (rule less_trans)
    then have bytes: "\<not> GetNumBytes ?S ?gmod > 32" using length_be_bytes[of ?gmod 32] bn_arithmetic(5)[OF assms(1)] by simp
    let ?B = "bn_modulo ?S (bn_plus ?S (bn_times ?S (lg_v s2) 3) ?gmod) (lg_N s2)"
    let ?accepted = "IsAcceptedClientBuild (uint (lg_build s2))"
    define s5 where "s5 = (if ?accepted then s2\<lparr>lg_b := rb, lg_B := ?B, lg_status := STATUS_LOGON_PROOF\<rparr>
      else s2\<lparr>lg_b := rb, lg_B := ?B\<rparr>)\<lparr>lg_tokenKey := cr_token_key row\<rparr>"
    let ?answer = "challenge_answer ?S (if ?accepted then WOW_SUCCESS else WOW_FAIL_VERSION_INVALID) ru s5"
    obtain q where q: "lg_SendPacket ?answer s5 = Inr (s5\<lparr>lg_writeQueue := q\<rparr>)"
      using lg_SendPacket_ok[OF length_challenge_answer] .
    have "LogonChallengeCallback E rs rb ru result s = lg_SendPacket ?answer s5"
      using Some None bytes by (simp add: LogonChallengeCallback_def Let_def s2_def[symmetric] s5_def)
    moreover have "same_input s s5" "lg_N s5 = lg_N s" "lg_g s5 = lg_g s" "lg_status s5 = lg_status s \<or> lg_status s5 = STATUS_LOGON_PROOF"
      using s1 s2 by (auto simp: s5_def same_input_def)
    ultimately show thesis using that[of "s5\<lparr>lg_writeQueue := q\<rparr>"] q by simp
  qed
qed

lemma ReconnectChallengeCallback_ok:
  obtains s1 where "ReconnectChallengeCallback E rp result s = Inr s1" "same_input s s1" "lg_N s1 = lg_N s" "lg_g s1 = lg_g s"
    "lg_status s1 = lg_status s \<or> lg_status s1 = STATUS_RECONNECT_PROOF"
proof (cases result)
  case None
  obtain q where "lg_SendPacket [AUTH_RECONNECT_CHALLENGE, WOW_FAIL_UNKNOWN_ACCOUNT] s = Inr (s\<lparr>lg_writeQueue := q\<rparr>)"
    using lg_SendPacket_ok[of "[AUTH_RECONNECT_CHALLENGE, WOW_FAIL_UNKNOWN_ACCOUNT]" s] by auto
  then show thesis using that[of "s\<lparr>lg_writeQueue := q\<rparr>"] None by (simp add: ReconnectChallengeCallback_def)
next
  case (Some row)
  let ?S = "le_ssl E"
  let ?s1 = "s\<lparr>lg_accountInfo := LoadResult E row, lg_K := SetHexStr ?S (rr_sessionKey row) (lg_K s),
    lg_reconnectProof := rp, lg_status := STATUS_RECONNECT_PROOF\<rparr>"
  let ?answer = "[AUTH_RECONNECT_CHALLENGE, WOW_SUCCESS] @ take 16 (AsByteArray ?S 16 True rp) @ replicate 16 0"
  have "length ?answer \<le> 4096" by (simp add: min_def)
  then obtain q where "lg_SendPacket ?answer ?s1 = Inr (?s1\<lparr>lg_writeQueue := q\<rparr>)" by (rule lg_SendPacket_ok)
  then show thesis
    using that[of "?s1\<lparr>lg_writeQueue := q\<rparr>"] Some by (simp add: ReconnectChallengeCallback_def Let_def same_input_def)
qed

text \<open>Realms whose list fits into a message buffer, for every client: 40 bytes for the fields of fixed size and the version.\<close>

definition realm_room :: "logon_env \<Rightarrow> Realm \<Rightarrow> nat" where
  "realm_room E r = (case GetAddressForClient E r of Inl e \<Rightarrow> 0 | Inr a \<Rightarrow> length a) + length (rm_Name r) + 40"

definition realms_fit :: "logon_env \<Rightarrow> Realm list \<Rightarrow> bool" where
  "realms_fit E realms \<longleftrightarrow>
     (\<forall>r \<in> set realms. \<exists>a. GetAddressForClient E r = Inr a) \<and> sum_list (map (realm_room E) realms) + 20 \<le> 4096"

lemma length_decimal_u8: "length (decimal (unat (v :: u8))) \<le> 3"
proof -
  have "length (decimal n) \<le> 3" if "n < 1000" for n
    using that by (subst decimal.simps, subst decimal.simps, subst decimal.simps) auto
  then show ?thesis using byte_less[of v] by simp
qed

lemma length_version_text: "length (version_text i) \<le> 14"
  using length_decimal_u8[of "bi_MajorVersion i"] length_decimal_u8[of "bi_MinorVersion i"] length_decimal_u8[of "bi_BugfixVersion i"]
  by (simp add: version_text_def ascii_def)

lemma length_realm_fields:
  "length (concat (map wire (realm_fields s counts flag a r))) \<le> length a + length (rm_Name r) + 40"
proof -
  have "length (realm_name s flag r) \<le> length (rm_Name r) + 14"
    using length_version_text by (auto simp: realm_name_def split: option.split)
  moreover have "length (concat (map wire (build_fields (GetBuildInfo (sint (rm_Build r)))))) \<le> 5"
    by (simp add: build_fields_def del: le_bytes.simps split: option.split)
  ultimately show ?thesis unfolding realm_fields_def Let_def by (simp del: le_bytes.simps length_concat)
qed

lemma realm_entries_ok:
  "\<forall>r \<in> set realms. \<exists>a. GetAddressForClient E r = Inr a \<Longrightarrow>
   \<exists>n bs. realm_entries E s counts realms = Inr (n, bs) \<and> length bs \<le> sum_list (map (realm_room E) realms)"
proof (induction realms)
  case (Cons r rs)
  then obtain n bs a where ih: "realm_entries E s counts rs = Inr (n, bs)" "length bs \<le> sum_list (map (realm_room E) rs)"
    "GetAddressForClient E r = Inr a" by auto
  show ?case
  proof (cases "realm_flags s r")
    case None
    then show ?thesis using ih by simp
  next
    case (Some flag)
    then show ?thesis
      using ih length_realm_fields[of s counts flag a r] by (simp add: realm_room_def[of E r] del: length_concat)
  qed
qed simp

lemma length_realm_list_packet: "length (realm_list_packet s n entries) \<le> length entries + 13"
  by (simp add: realm_list_packet_def Let_def del: le_bytes.simps)

lemma RealmListCallback_ok:
  assumes "realms_fit E realms"
  obtains s1 where "RealmListCallback E realms rows s = Inr s1" "same_input s s1" "same_login s s1" "lg_status s1 = STATUS_AUTHED"
proof -
  obtain n bs where e: "realm_entries E s (character_counts rows) realms = Inr (n, bs)" "length bs + 20 \<le> 4096"
    using realm_entries_ok[of realms E s "character_counts rows"] assms by (fastforce simp: realms_fit_def)
  then have "length (realm_list_packet s n bs) \<le> 4096" using length_realm_list_packet[of s n bs] by linarith
  then obtain q where "lg_SendPacket (realm_list_packet s n bs) s = Inr (s\<lparr>lg_writeQueue := q\<rparr>)" by (rule lg_SendPacket_ok)
  then show thesis
    using that[of "s\<lparr>lg_writeQueue := q, lg_status := STATUS_AUTHED\<rparr>"] e(1)
    by (simp add: RealmListCallback_def same_input_def same_login_def)
qed

section \<open>The invariant of a session\<close>

text \<open>\<open>bs\<close> is everything that was received so far.\<close>

definition session_inv :: "logon_env \<Rightarrow> u8 list \<Rightarrow> LogonSession \<Rightarrow> bool" where
  "session_inv E bs s \<longleftrightarrow>
     lg_N s = srp_N \<and> lg_g s = 7 \<and> (lg_closed s \<and> \<not> lg_reading s \<or> buf_ready s \<and> at_start s)
     \<and> (lg_queries s = [LOGIN_SEL_IP_INFO] \<and> lg_status s = STATUS_CHALLENGE \<and> \<not> lg_reading s \<or> quiet (lg_queries s) (lg_status s))
     \<and> suffix (unread_bytes s) bs \<and> (logged_in s \<longrightarrow> proof_in E s bs)"

definition event_ok :: "logon_env \<Rightarrow> logon_event \<Rightarrow> bool" where
  "event_ok E ev \<longleftrightarrow> (case ev of RealmsAnswer i rows realms \<Rightarrow> realms_fit E realms | _ \<Rightarrow> True)"

text \<open>The bytes a run has really received.\<close>

definition received_now :: "logon_event \<Rightarrow> LogonSession \<Rightarrow> u8 list" where
  "received_now ev s =
     (case ev of
        Received bs \<Rightarrow> if lg_reading s \<and> bs \<noteq> [] \<and> length bs \<le> GetRemainingSpace (lg_readBuffer s) then bs else []
      | _ \<Rightarrow> [])"

fun received_bytes :: "logon_env \<Rightarrow> logon_event list \<Rightarrow> LogonSession \<Rightarrow> u8 list" where
  "received_bytes E [] s = []"
| "received_bytes E (ev # evs) s =
     received_now ev s @ (case logon_step E ev s of Inl e \<Rightarrow> [] | Inr s1 \<Rightarrow> received_bytes E evs s1)"

text \<open>What a callback needs: it leaves the input alone, and logs nobody in who was not.\<close>

lemma answered_inv:
  assumes "session_inv E bs s" and "q \<noteq> LOGIN_SEL_IP_INFO"
    and "\<And>s0. \<lbrakk>lg_N s0 = srp_N; quiet [q] (lg_status s0)\<rbrakk> \<Longrightarrow> \<exists>s1. callback s0 = Inr s1 \<and> same_input s0 s1 \<and> lg_N s1 = lg_N s0 \<and> lg_g s1 = lg_g s0
        \<and> (logged_in s1 \<longrightarrow> logged_in s0 \<and> same_login s0 s1)"
  shows "\<exists>s1. answered q callback s = Inr s1 \<and> session_inv E bs s1"
proof (cases "lg_closed s \<or> q \<notin> set (lg_queries s)")
  case True
  then show ?thesis using assms(1) by (simp add: answered_def)
next
  case False
  have "quiet (lg_queries s) (lg_status s)" using assms(1,2) False by (auto simp: session_inv_def)
  then have q: "lg_queries s = [q]" using False by (cases "(lg_queries s, lg_status s)" rule: quiet.cases) auto
  let ?s0 = "s\<lparr>lg_queries := []\<rparr>"
  have "lg_N ?s0 = srp_N" "quiet [q] (lg_status ?s0)"
    using assms(1) q \<open>quiet (lg_queries s) (lg_status s)\<close> by (simp_all add: session_inv_def)
  from assms(3)[OF this] obtain s1 where s1: "callback ?s0 = Inr s1" "same_input ?s0 s1" "lg_N s1 = lg_N s" "lg_g s1 = lg_g s"
    "logged_in s1 \<longrightarrow> logged_in ?s0 \<and> same_login ?s0 s1" by auto
  have "proof_in E s1 bs" if "logged_in s1"
  proof -
    have "logged_in ?s0" "same_login ?s0 s1" using s1(5) that by blast+
    then have l: "logged_in s" "same_login s s1" by (simp_all add: logged_in_def same_login_def)
    then have "proof_in E s bs" using assms(1) by (simp add: session_inv_def)
    then show ?thesis using proof_in_login[OF l(2)] by simp
  qed
  then have "session_inv E bs s1"
    using assms(1) False s1 by (simp add: session_inv_def same_input_def buf_ready_def at_start_def)
  then show ?thesis using False q s1(1) by (simp add: answered_def)
qed

lemma received_inv:
  assumes "documented_ssl (le_ssl E)" and "session_inv E bs s" and "lg_reading s" and "length new \<le> GetRemainingSpace (lg_readBuffer s)"
  shows "\<exists>s1. lg_ReadHandlerInternal E (Some new) s = Inr s1 \<and> session_inv E (bs @ new) s1"
proof -
  have s: "buf_ready s" "at_start s" "quiet (lg_queries s) (lg_status s)" using assms(2,3) by (auto simp: session_inv_def)
  obtain b where b: "mb_Write new (lg_readBuffer s) = Some b" "mb_ok b" "mb_data b = unread_bytes s @ new"
    "length (mb_storage b) = length (mb_storage (lg_readBuffer s))" "mb_rpos b = mb_rpos (lg_readBuffer s)"
    using mb_Write_ok[OF _ assms(4)] s(1) by (auto simp: buf_ready_def)
  let ?s = "s\<lparr>lg_reading := False, lg_readBuffer := b\<rparr>"
  have "buf_ready ?s" "at_start ?s" using s b by (simp_all add: buf_ready_def at_start_def)
  then obtain s1 where s1: "lg_ReadHandler E ?s = Inr s1"
    "lg_closed s1 \<and> \<not> lg_reading s1 \<or> buf_ready s1 \<and> at_start s1 \<and> lg_reading s1" "progress E (?s\<lparr>lg_reading := lg_reading s1\<rparr>) s1"
    using lg_ReadHandler_ok[OF assms(1), of ?s] by auto
  let ?r = "?s\<lparr>lg_reading := lg_reading s1\<rparr>"
  have same: "same_login s ?r" "logged_in ?r = logged_in s" by (simp_all add: same_login_def logged_in_def)
  have data: "suffix (unread_bytes ?r) (bs @ new)"
    using b(3) assms(2) by (simp add: session_inv_def)
  have "proof_in E s1 (bs @ new)" if "logged_in s1"
  proof (cases "logged_in s \<and> same_login ?r s1")
    case True
    then have "proof_in E s (bs @ new)" using assms(2) proof_in_more[of E s bs "bs @ new"] by (simp add: session_inv_def)
    then show ?thesis using proof_in_login[OF same_login_trans[OF same(1)]] True by blast
  next
    case False
    then have "proof_in E s1 (unread_bytes ?r)" using s1(3) that same(2) unfolding progress_def by blast
    then show ?thesis by (rule proof_in_more) (rule suffix_imp_sublist[OF data])
  qed
  moreover have "quiet (lg_queries s1) (lg_status s1)" "lg_N s1 = srp_N" "lg_g s1 = 7"
    using s1(3) s(3) assms(2) by (simp_all add: progress_def session_inv_def)
  moreover have "suffix (unread_bytes s1) (bs @ new)"
    using s1(3) data suffix_order.trans unfolding progress_def by blast
  ultimately have "session_inv E (bs @ new) s1" using s1(2) by (auto simp: session_inv_def)
  then show ?thesis using s1(1) b(1) by (simp add: lg_ReadHandlerInternal_def)
qed

lemma ip_inv:
  assumes "session_inv E bs s"
  shows "\<exists>s1. answered LOGIN_SEL_IP_INFO (lg_CheckIpCallback rows) s = Inr s1 \<and> session_inv E bs s1"
proof (cases "lg_closed s \<or> LOGIN_SEL_IP_INFO \<notin> set (lg_queries s)")
  case True
  then show ?thesis using assms by (auto simp: answered_def)
next
  case False
  have "\<not> quiet (lg_queries s) (lg_status s)"
    using False by (cases "(lg_queries s, lg_status s)" rule: quiet.cases) auto
  then have q: "lg_queries s = [LOGIN_SEL_IP_INFO]" "lg_status s = STATUS_CHALLENGE" "\<not> lg_reading s"
    using assms by (auto simp: session_inv_def)
  obtain banned country where rows: "lg_ip_rows rows (False, lg_ipCountry s) = (banned, country)" by fastforce
  let ?s = "s\<lparr>lg_queries := [], lg_ipCountry := country\<rparr>"
  have start: "answered LOGIN_SEL_IP_INFO (lg_CheckIpCallback rows) s =
      (if banned then lg_SendPacket [AUTH_LOGON_CHALLENGE, 0, WOW_FAIL_BANNED] ?s else lg_AsyncRead ?s)"
    using False q rows by (simp add: answered_def lg_CheckIpCallback_def)
  have ready: "buf_ready ?s" "at_start ?s" "lg_N s = srp_N" "lg_g s = 7" "suffix (unread_bytes s) bs"
    using assms False by (auto simp: session_inv_def buf_ready_def at_start_def)
  show ?thesis
  proof (cases banned)
    case True
    obtain w where "lg_SendPacket [AUTH_LOGON_CHALLENGE, 0, WOW_FAIL_BANNED] ?s = Inr (?s\<lparr>lg_writeQueue := w\<rparr>)"
      using lg_SendPacket_ok[of "[AUTH_LOGON_CHALLENGE, 0, WOW_FAIL_BANNED]" ?s] by auto
    then show ?thesis
      using start True ready q by (simp add: session_inv_def buf_ready_def at_start_def logged_in_def)
  next
    case False
    obtain s1 where s1: "lg_AsyncRead ?s = Inr s1" "buf_ready s1" "at_start s1" "lg_queries s1 = []" "lg_status s1 = STATUS_CHALLENGE"
      "unread_bytes s1 = unread_bytes s" "same_login ?s s1"
      using lg_AsyncRead_ok[OF ready(1)] q by auto
    then have "session_inv E bs s1" using ready by (simp add: session_inv_def logged_in_def same_login_def)
    then show ?thesis using start False s1(1) by simp
  qed
qed

lemma logon_step_inv:
  assumes "documented_ssl (le_ssl E)" and "session_inv E bs s" and "event_ok E ev"
  shows "\<exists>s1. logon_step E ev s = Inr s1 \<and> session_inv E (bs @ received_now ev s) s1"
proof (cases ev)
  case (Received new)
  then show ?thesis using received_inv[OF assms(1,2)] assms(2) by (simp add: received_now_def)
next
  case ReadFailed
  let ?s = "s\<lparr>lg_reading := False, lg_closed := True\<rparr>"
  have "same_login s ?s" by (simp add: same_login_def)
  note proof_in_login[OF this]
  moreover have "logged_in ?s = logged_in s" by (simp add: logged_in_def)
  ultimately have "session_inv E bs ?s" using assms(2) by (auto simp: session_inv_def)
  then show ?thesis
    using ReadFailed assms(2) by (simp add: received_now_def lg_ReadHandlerInternal_def lg_CloseSocket_def)
next
  case (IpAnswer rows)
  then show ?thesis using ip_inv[OF assms(2)] by (simp add: received_now_def)
next
  case (ChallengeAnswer login result rs rb ru)
  have "\<exists>s1. LogonChallengeCallback E rs rb ru result s0 = Inr s1 \<and> same_input s0 s1 \<and> lg_N s1 = lg_N s0 \<and> lg_g s1 = lg_g s0
      \<and> (logged_in s1 \<longrightarrow> logged_in s0 \<and> same_login s0 s1)"
    if here: "lg_N s0 = srp_N" "quiet [LOGIN_SEL_LOGONCHALLENGE login] (lg_status s0)" for s0
  proof -
    obtain s1 where "LogonChallengeCallback E rs rb ru result s0 = Inr s1" "same_input s0 s1" "lg_N s1 = lg_N s0" "lg_g s1 = lg_g s0"
      "lg_status s1 = lg_status s0 \<or> lg_status s1 = STATUS_LOGON_PROOF"
      using LogonChallengeCallback_ok[OF assms(1) here(1)] .
    then show ?thesis using here(2) by (auto simp: logged_in_def)
  qed
  from answered_inv[OF assms(2), where q = "LOGIN_SEL_LOGONCHALLENGE login", OF _ this] show ?thesis
    using ChallengeAnswer by (simp add: received_now_def)
next
  case (ReconnectAnswer login result rp)
  have "\<exists>s1. ReconnectChallengeCallback E rp result s0 = Inr s1 \<and> same_input s0 s1 \<and> lg_N s1 = lg_N s0 \<and> lg_g s1 = lg_g s0
      \<and> (logged_in s1 \<longrightarrow> logged_in s0 \<and> same_login s0 s1)"
    if "quiet [LOGIN_SEL_RECONNECTCHALLENGE login] (lg_status s0)" for s0
  proof -
    obtain s1 where "ReconnectChallengeCallback E rp result s0 = Inr s1" "same_input s0 s1" "lg_N s1 = lg_N s0" "lg_g s1 = lg_g s0"
      "lg_status s1 = lg_status s0 \<or> lg_status s1 = STATUS_RECONNECT_PROOF"
      using ReconnectChallengeCallback_ok .
    then show ?thesis using that by (auto simp: logged_in_def)
  qed
  from answered_inv[OF assms(2), where q = "LOGIN_SEL_RECONNECTCHALLENGE login", OF _ this] show ?thesis
    using ReconnectAnswer by (simp add: received_now_def)
next
  case (RealmsAnswer i rows realms)
  have "\<exists>s1. RealmListCallback E realms rows s0 = Inr s1 \<and> same_input s0 s1 \<and> lg_N s1 = lg_N s0 \<and> lg_g s1 = lg_g s0
      \<and> (logged_in s1 \<longrightarrow> logged_in s0 \<and> same_login s0 s1)"
    if "quiet [LOGIN_SEL_REALM_CHARACTER_COUNTS i] (lg_status s0)" for s0
  proof -
    obtain s1 where "RealmListCallback E realms rows s0 = Inr s1" "same_input s0 s1" "same_login s0 s1"
      using RealmListCallback_ok[of E realms rows s0] assms(3) RealmsAnswer by (auto simp: event_ok_def)
    then show ?thesis using that by (auto simp: logged_in_def same_login_def)
  qed
  from answered_inv[OF assms(2), where q = "LOGIN_SEL_REALM_CHARACTER_COUNTS i", OF _ this] show ?thesis
    using RealmsAnswer by (simp add: received_now_def)
qed

lemma logon_run_inv:
  assumes "documented_ssl (le_ssl E)" and "session_inv E bs s" and "\<forall>ev \<in> set evs. event_ok E ev"
  shows "\<exists>s1. logon_run E evs s = Inr s1 \<and> session_inv E (bs @ received_bytes E evs s) s1"
  using assms(2,3)
proof (induction evs arbitrary: bs s)
  case (Cons ev evs)
  obtain s1 where s1: "logon_step E ev s = Inr s1" "session_inv E (bs @ received_now ev s) s1"
    using logon_step_inv[OF assms(1) Cons.prems(1)] Cons.prems(2) by auto
  then show ?case using Cons.IH[OF s1(2)] Cons.prems(2) by simp
qed simp

lemma start_inv:
  assumes "documented_ssl (le_ssl E)"
  shows "session_inv E [] (lg_Start (mk_LogonSession E))"
  using new_session_N[OF assms] mb_new
  by (simp add: session_inv_def lg_Start_def mk_LogonSession_def buf_ready_def at_start_def logged_in_def mb_defs)

text \<open>Property C13: whatever a client sends, in whatever pieces, and however the queries are answered, a session of the realm
  server never leaves its buffers, fails no assertion and ends every loop within four rounds, when the list of
  realms fits into a message buffer. While it is open its read buffer is in order, also after a token that was
  read before it was received, and after sizes of a challenge that wrap at 16 bits.\<close>

theorem logon_session_is_safe:
  assumes "documented_ssl (le_ssl E)" and "\<forall>ev \<in> set evs. event_ok E ev"
  shows "\<exists>s. logon_run E evs (lg_Start (mk_LogonSession E)) = Inr s \<and> (lg_closed s \<or> mb_ok (lg_readBuffer s))"
  using logon_run_inv[OF assms(1) start_inv[OF assms(1)] assms(2)] by (auto simp: session_inv_def buf_ready_def)

definition sample_logon_env :: logon_env where
  "sample_logon_env =
     \<lparr>le_big = False, le_ssl = sample_ssl, le_client = V4 0x0A000001, le_address = ascii ''10.0.0.1'', le_is_loopback = (\<lambda>ip. False),
      le_endpoint = (\<lambda>ip port. ascii ''10.0.0.2:8085''), le_time = 0, le_upper = (\<lambda>str. str), le_MaxWrongPassCount = 3,
      le_WrongPassLogging = False, le_WrongPassBanTime = 600, le_WrongPassBanType = False\<rparr>"

lemma sample_logon_env_documented: "documented_ssl (le_ssl sample_logon_env)"
  by (simp add: sample_logon_env_def sample_ssl_documented)

definition sample_realm :: Realm where
  "sample_realm =
     \<lparr>rm_Id = 1, rm_Build = 12340, rm_ExternalAddress = V4 0x0A000002, rm_LocalAddress = V4 0x7F000001, rm_LocalSubnetMask = V4 0xFFFFFF00,
      rm_Port = 8085, rm_Name = ascii ''Trinity'', rm_Type = 0, rm_Flags = 0, rm_Timezone = 1, rm_AllowedSecurityLevel = 0,
      rm_PopulationLevel = 0\<rparr>"

theorem logon_session_is_safe_witness:
  "\<exists>s. logon_run sample_logon_env [IpAnswer [(0, [])], Received [0, 8, 252, 255, 87], RealmsAnswer 1 [(1, 2)] [sample_realm]]
      (lg_Start (mk_LogonSession sample_logon_env)) = Inr s \<and> (lg_closed s \<or> mb_ok (lg_readBuffer s))"
proof -
  have "GetAddressForClient sample_logon_env sample_realm = Inr (ascii ''10.0.0.2:8085'')"
    by (simp add: GetAddressForClient_def realm_ip_def sample_logon_env_def sample_realm_def)
  then have "event_ok sample_logon_env (RealmsAnswer 1 [(1, 2)] [sample_realm])"
    by (simp add: event_ok_def realms_fit_def realm_room_def ascii_def) (simp add: sample_realm_def ascii_def)
  then have "\<forall>ev \<in> set [IpAnswer [(0, [])], Received [0, 8, 252, 255, 87], RealmsAnswer 1 [(1, 2)] [sample_realm]]. event_ok sample_logon_env ev"
    by (simp add: event_ok_def)
  from logon_session_is_safe[OF sample_logon_env_documented this] show ?thesis .
qed

end
