(* ===== verification/LogonProof.thy ===== *)
theory LogonProof
  imports LogonSafety
begin

text \<open>
  A client that knows the password. It is the other side of SRP6: from the server's answer it computes the
  common number in its own way, and the digests with the same formulas. The whole exchange ends with both sides
  holding the same session key.
\<close>

section \<open>The client\<close>

text \<open>\<open>a\<close> is the client's secret number, \<open>pw\<close> the digest of name and password. The answer is the server's packet.\<close>

definition client_A :: "nat \<Rightarrow> nat" where
  "client_A a = 7 ^ a mod srp_N"

definition answer_B :: "u8 list \<Rightarrow> nat" where
  "answer_B answer = le_value (take 32 (drop 3 answer))"

definition answer_salt :: "u8 list \<Rightarrow> u8 list" where
  "answer_salt answer = take 32 (drop 70 answer)"

definition client_common :: "openssl \<Rightarrow> u8 list \<Rightarrow> nat \<Rightarrow> u8 list \<Rightarrow> nat" where
  "client_common S pw a answer =
     (let x = le_value (SHA1 S (answer_salt answer @ pw)); B = answer_B answer
      in (B + 3 * (srp_N - 7 ^ x mod srp_N)) ^ (a + srp_u S (client_A a) B * x) mod srp_N)"

definition client_K :: "openssl \<Rightarrow> u8 list \<Rightarrow> nat \<Rightarrow> u8 list \<Rightarrow> nat" where
  "client_K S pw a answer = srp_K S (client_common S pw a answer)"

definition client_M :: "openssl \<Rightarrow> u8 list \<Rightarrow> u8 list \<Rightarrow> nat \<Rightarrow> u8 list \<Rightarrow> nat" where
  "client_M S login pw a answer =
     srp_M S srp_N 7 login (le_value (answer_salt answer)) (client_A a) (answer_B answer) (client_K S pw a answer)"

definition client_M2 :: "openssl \<Rightarrow> u8 list \<Rightarrow> u8 list \<Rightarrow> nat \<Rightarrow> u8 list \<Rightarrow> u8 list" where
  "client_M2 S login pw a answer =
     SHA1 S (UpdateBigNumbers S [client_A a, client_M S login pw a answer, client_K S pw a answer] [])"

definition client_proof :: "openssl \<Rightarrow> u8 list \<Rightarrow> u8 list \<Rightarrow> nat \<Rightarrow> u8 list \<Rightarrow> u8 list" where
  "client_proof S login pw a answer =
     [AUTH_LOGON_PROOF] @ AsByteArray S 32 True (client_A a) @ AsByteArray S 20 True (client_M S login pw a answer)
     @ replicate 20 0 @ [0, 0]"

text \<open>The first packet: everything between the size and the length of the name is \<open>between\<close>.\<close>

definition client_challenge :: "u8 list \<Rightarrow> u8 list \<Rightarrow> u8 list" where
  "client_challenge between login =
     [AUTH_LOGON_CHALLENGE, 8] @ le_bytes 2 (of_nat (30 + length login) :: u16) @ between @ [of_nat (length login)] @ login"

section \<open>The common number\<close>

lemma mod_pow: "(a mod n) ^ k mod n = a ^ k mod (n :: nat)"
  by (rule power_mod)

text \<open>The server's number without the verifier is the generator to the server's secret, whatever the modulus is.\<close>

lemma without_verifier:
  assumes "(N :: nat) > 0"
  shows "((v * 3 + c) mod N + 3 * (N - v mod N)) mod N = c mod N"
proof -
  have "v mod N < N" using assms by simp
  then have "3 * (v mod N) + 3 * (N - v mod N) = 3 * N" by (simp add: diff_mult_distrib2)
  then have e: "(v mod N) * 3 + (c + 3 * (N - v mod N)) = c + N * 3" by linarith
  have "((v * 3 + c) mod N + 3 * (N - v mod N)) mod N = (v * 3 + c + 3 * (N - v mod N)) mod N"
    by (rule mod_add_left_eq)
  also have "\<dots> = ((v mod N) * 3 + (c + 3 * (N - v mod N))) mod N"
    unfolding add.assoc using mod_mult_left_eq[of v N 3] by (metis mod_add_left_eq)
  also have "\<dots> = c mod N" unfolding e by simp
  finally show ?thesis .
qed

lemma srp_agree:
  assumes "(N :: nat) > 0"
  shows "((g ^ a mod N) * (((g ^ x mod N) ^ u) mod N)) ^ b mod N
    = (((g ^ x mod N) * 3 + g ^ b mod N) mod N + 3 * (N - g ^ x mod N)) ^ (a + u * x) mod N"
proof -
  let ?X = "(g ^ a mod N) * (((g ^ x mod N) ^ u) mod N)"
  have "?X mod N = (g ^ a * (g ^ x) ^ u) mod N" by (simp add: mod_mult_eq mod_pow)
  also have "g ^ a * (g ^ x) ^ u = g ^ (a + u * x)" by (simp add: power_add power_mult[symmetric] mult.commute)
  finally have X: "?X mod N = g ^ (a + u * x) mod N" .
  have "?X ^ b mod N = (?X mod N) ^ b mod N" by (rule mod_pow[symmetric])
  also have "\<dots> = (g ^ (a + u * x)) ^ b mod N" unfolding X by (rule mod_pow)
  also have "\<dots> = (g ^ b) ^ (a + u * x) mod N" by (simp only: power_mult[symmetric] mult.commute)
  also have "\<dots> = (g ^ b mod N mod N) ^ (a + u * x) mod N" by (simp only: mod_pow mod_mod_trivial)
  also have "\<dots> = ((((g ^ x mod N) * 3 + g ^ b mod N) mod N + 3 * (N - (g ^ x mod N) mod N)) mod N) ^ (a + u * x) mod N"
    unfolding without_verifier[OF assms] by (simp only: mod_mod_trivial)
  finally show ?thesis by (simp add: mod_pow)
qed

lemma generator_not_zero: "\<not> srp_N dvd 7 ^ a"
proof
  assume d: "srp_N dvd 7 ^ a"
  have "coprime srp_N 7" by (simp add: srp_N_def coprime_iff_gcd_eq_1 gcd_non_0_nat)
  then have "coprime srp_N (7 ^ a)" by simp
  then have "is_unit srp_N" using coprime_absorb_left[OF d] by simp
  then show False using srp_N_size(3) by simp
qed

lemma client_A_ok:
  assumes "documented_ssl S"
  shows "\<not> IsZero (bn_modulo S (client_A a) srp_N)" and "client_A a < 256 ^ 32"
proof -
  have "client_A a mod srp_N = 7 ^ a mod srp_N" unfolding client_A_def by (rule mod_mod_trivial)
  then show "\<not> IsZero (bn_modulo S (client_A a) srp_N)"
    using bn_arithmetic(3)[OF assms srp_N_size(1)] generator_not_zero[of a] by (simp add: IsZero_def dvd_eq_mod_eq_0)
  have "client_A a < srp_N" unfolding client_A_def by (rule mod_less_divisor[OF srp_N_size(1)])
  then show "client_A a < 256 ^ 32" using srp_N_size(2) by (rule less_trans)
qed

text \<open>Both sides compute the same number from a verifier of the password.\<close>

lemma common_agree:
  assumes "documented_ssl S" and "lg_N s = srp_N" and "lg_v s = 7 ^ x mod srp_N"
    and "lg_B s = (lg_v s * 3 + 7 ^ lg_b s mod srp_N) mod srp_N"
    and "answer_B answer = lg_B s" and "x = le_value (SHA1 S (answer_salt answer @ pw))"
  shows "server_common S s (client_A a) = client_common S pw a answer"
proof -
  define u where "u = srp_u S (client_A a) (lg_B s)"
  note n = srp_N_size(1)
  have B: "((7 ^ x mod srp_N) * 3 + 7 ^ lg_b s mod srp_N) mod srp_N = lg_B s" using assms(3,4) by (simp only:)
  have "server_common S s (client_A a) = (client_A a * (((7 ^ x mod srp_N) ^ u) mod srp_N)) ^ lg_b s mod srp_N"
    unfolding server_common_def bn_arithmetic(2)[OF assms(1)] assms(2,3) u_def[symmetric] bn_arithmetic(4)[OF assms(1) n] by (rule refl)
  also have "\<dots> = ((7 ^ a mod srp_N) * (((7 ^ x mod srp_N) ^ u) mod srp_N)) ^ lg_b s mod srp_N"
    unfolding client_A_def by (rule refl)
  also have "\<dots> = (((7 ^ x mod srp_N) * 3 + 7 ^ lg_b s mod srp_N) mod srp_N + 3 * (srp_N - 7 ^ x mod srp_N)) ^ (a + u * x) mod srp_N"
    by (rule srp_agree[OF n])
  also have "\<dots> = client_common S pw a answer"
    unfolding B client_common_def Let_def assms(6)[symmetric] u_def assms(5) by (rule refl)
  finally show ?thesis .
qed

section \<open>Pieces that are one command\<close>

definition idle :: "LogonSession \<Rightarrow> bool" where
  "idle s \<longleftrightarrow> \<not> lg_closed s \<and> lg_reading s \<and> mb_rpos (lg_readBuffer s) = 0 \<and> mb_wpos (lg_readBuffer s) = 0
     \<and> 4096 \<le> length (mb_storage (lg_readBuffer s))"

text \<open>The buffer when \<open>p\<close> has arrived, and when it has been handled.\<close>

definition holding :: "u8 list \<Rightarrow> u8 list \<Rightarrow> MessageBuffer" where
  "holding p storage = \<lparr>mb_wpos = length p, mb_rpos = 0, mb_storage = p @ drop (length p) storage\<rparr>"

lemma struct_at_holding: "n \<le> length p \<Longrightarrow> struct_at n (holding p st) = Some (take n p)"
  by (simp add: struct_at_def holding_def read_at_def)

lemma active_size_holding [simp]: "active_size (holding p st) = length p"
  by (simp add: active_size_def holding_def)

lemma loop_one:
  assumes "active_size (lg_readBuffer s) \<noteq> 0" and "logon_round E s = Inr (LS_Continue, s1)" and "active_size (lg_readBuffer s1) = 0"
  shows "logon_loop E 4 s = Inr (True, s1)"
  using assms by (simp add: eval_nat_numeral)

lemma Received_handled:
  assumes "idle s" and "p \<noteq> []" and "length p \<le> 4096" and "\<not> lg_closed s1"
    and "logon_round E (s\<lparr>lg_reading := False, lg_readBuffer := holding p (mb_storage (lg_readBuffer s))\<rparr>)
      = Inr (LS_Continue, s1\<lparr>lg_readBuffer := ReadCompleted (length p) (holding p (mb_storage (lg_readBuffer s)))\<rparr>)"
  shows "logon_step E (Received p) s
    = Inr (s1\<lparr>lg_readBuffer := \<lparr>mb_wpos = 0, mb_rpos = 0, mb_storage = p @ drop (length p) (mb_storage (lg_readBuffer s))\<rparr>, lg_reading := True\<rparr>)"
proof -
  let ?b = "holding p (mb_storage (lg_readBuffer s))"
  let ?s0 = "s\<lparr>lg_reading := False, lg_readBuffer := ?b\<rparr>" and ?s1 = "s1\<lparr>lg_readBuffer := ReadCompleted (length p) ?b\<rparr>"
  have w: "mb_Write p (lg_readBuffer s) = Some ?b"
    using assms(1-3) by (simp add: mb_Write_def idle_def WriteCompleted_def copy_to_def holding_def)
  have "logon_loop E 4 ?s0 = Inr (True, ?s1)"
    using assms(2,5) by (intro loop_one) (simp_all add: active_size_def holding_def ReadCompleted_def)
  moreover have "lg_AsyncRead ?s1 = Inr (s1\<lparr>lg_readBuffer := \<lparr>mb_wpos = 0, mb_rpos = 0,
      mb_storage = p @ drop (length p) (mb_storage (lg_readBuffer s))\<rparr>, lg_reading := True\<rparr>)"
    using assms(2,4) by (simp add: lg_AsyncRead_def lg_IsOpen_def ReadCompleted_def holding_def Normalize_def EnsureFreeSpace_def GetRemainingSpace_def Let_def)
  ultimately show ?thesis
    using assms(1-3) w by (simp add: lg_ReadHandlerInternal_def lg_ReadHandler_def idle_def GetRemainingSpace_def)
qed

section \<open>The exchange\<close>

text \<open>After the address has been looked up.\<close>

definition listening :: "logon_env \<Rightarrow> u8 list \<Rightarrow> LogonSession" where
  "listening E country = (mk_LogonSession E)\<lparr>lg_ipCountry := country, lg_reading := True\<rparr>"

lemma listening_idle: "idle (listening E country)" "lg_status (listening E country) = STATUS_CHALLENGE"
  "lg_queries (listening E country) = []"
  by (simp_all add: listening_def idle_def mk_LogonSession_def mb_Resize_def mk_MessageBuffer_def)

lemma ip_answered:
  assumes "lg_ip_rows rows (False, []) = (False, country)"
  shows "logon_step E (IpAnswer rows) (lg_Start (mk_LogonSession E)) = Inr (listening E country)"
  using assms by (simp add: answered_def lg_Start_def mk_LogonSession_def lg_CheckIpCallback_def lg_AsyncRead_def lg_IsOpen_def
      listening_def mb_Resize_def mk_MessageBuffer_def Normalize_def EnsureFreeSpace_def GetRemainingSpace_def vector_resize_def)

text \<open>The challenge is taken: the build, the language and the system of the client are noted, and the account is asked for.\<close>

definition challenged :: "u8 list \<Rightarrow> u8 list \<Rightarrow> LogonSession \<Rightarrow> LogonSession" where
  "challenged between login s =
     (let build = le_word (take 2 (drop 7 between))
      in s\<lparr>lg_status := STATUS_CLOSED, lg_build := build, lg_expversion := expansion_flag build,
           lg_os := rev (takeWhile (\<lambda>c. c \<noteq> 0) (take 4 (drop 13 between))), lg_localizationName := rev (take 4 (drop 17 between)),
           lg_queries := lg_queries s @ [LOGIN_SEL_LOGONCHALLENGE login]\<rparr>)"

lemma challenge_parts:
  assumes "length between = 29" and "length login \<le> 17" and "\<not> le_big E"
  defines "c \<equiv> client_challenge between login"
  shows "length c = 34 + length login" and "take 1 c = [AUTH_LOGON_CHALLENGE]"
    and "n \<ge> 4 \<Longrightarrow> challenge_size E (take n c) = of_nat (30 + length login)"
    and "take 34 c ! 33 = of_nat (length login)" and "drop 34 c = login"
    and "take k (drop (4 + j) (take 34 c)) = take k (take (30 - j) (drop j (between @ [of_nat (length login)])))"
proof -
  define w :: u16 where "w = of_nat (30 + length login)"
  obtain x y where xy: "le_bytes 2 w = [x, y]" by (simp add: eval_nat_numeral)
  have c: "c = [AUTH_LOGON_CHALLENGE, 8, x, y] @ between @ [of_nat (length login)] @ login"
    unfolding c_def client_challenge_def w_def[symmetric] xy by simp
  show "length c = 34 + length login" using assms(1) by (simp add: c)
  show "take 1 c = [AUTH_LOGON_CHALLENGE]" by (simp add: c)
  have w: "le_word [x, y] = w" using le_word_bytes[of 2 w] xy by simp
  show "challenge_size E (take n c) = of_nat (30 + length login)" if "n \<ge> 4"
  proof -
    have "take 2 (drop 2 (take n c)) = [x, y]" using that by (simp add: c drop_take min_def take_Cons')
    then show ?thesis using w assms(3) unfolding challenge_size_def from_memory_def by (simp only: w_def if_False)
  qed
  have t: "take 34 c = [AUTH_LOGON_CHALLENGE, 8, x, y] @ between @ [of_nat (length login)]" using assms(1) by (simp add: c)
  show "take 34 c ! 33 = of_nat (length login)" using assms(1) unfolding t by (simp add: nth_append nth_Cons')
  show "drop 34 c = login" using assms(1) by (simp add: c)
  show "take k (drop (4 + j) (take 34 c)) = take k (take (30 - j) (drop j (between @ [of_nat (length login)])))"
    unfolding t using assms(1) by (simp add: drop_Cons' numeral_eq_Suc)
qed

lemma challenge_handled:
  assumes "length between = 29" and "length login \<le> 17" and "\<not> le_big E" and "idle s" and "lg_status s = STATUS_CHALLENGE"
  shows "logon_step E (Received (client_challenge between login)) s =
    Inr ((challenged between login s)\<lparr>lg_readBuffer := \<lparr>mb_wpos = 0, mb_rpos = 0,
       mb_storage = client_challenge between login @ drop (34 + length login) (mb_storage (lg_readBuffer s))\<rparr>\<rparr>)"
proof -
  let ?c = "client_challenge between login" and ?st = "mb_storage (lg_readBuffer s)"
  note c = challenge_parts[OF assms(1-3)]
  let ?s0 = "s\<lparr>lg_reading := False, lg_readBuffer := holding ?c ?st\<rparr>"
  define w :: u16 where "w = of_nat (30 + length login)"
  have len: "unat (of_nat (length login) :: u8) = length login" "unat w = 30 + length login"
    using assms(2) unfolding w_def by (simp_all only: unat_of_nat) simp_all
  have one: "struct_at 1 (holding ?c ?st) = Some [AUTH_LOGON_CHALLENGE]" "struct_at 4 (holding ?c ?st) = Some (take 4 ?c)"
    "struct_at 34 (holding ?c ?st) = Some (take 34 ?c)" "struct_at (34 + length login) (holding ?c ?st) = Some ?c"
    using struct_at_holding[of _ ?c ?st] c(1,2) by simp_all
  have fields: "take 2 (drop 11 (take 34 ?c)) = take 2 (drop 7 between)" "take 4 (drop 17 (take 34 ?c)) = take 4 (drop 13 between)"
    "take 4 (drop 21 (take 34 ?c)) = take 4 (drop 17 between)"
    using c(6)[of 2 7] c(6)[of 4 13] c(6)[of 4 17] assms(1) by simp_all
  have "(ucast w :: u64) = of_nat (30 + length login)" "(ucast (of_nat (length login) :: u8) :: u64) = of_nat (length login)"
    using assms(2) unfolding w_def by (simp_all only: unsigned_of_nat) (simp_all add: take_bit_nat_eq_self)
  then have diff: "(ucast w :: u64) - 30 = ucast (of_nat (length login) :: u8)" by simp
  have total: "4 + w = of_nat (34 + length login)" unfolding w_def by simp
  have sz: "unat (4 + w) = 34 + length login" "\<not> 4 + w > MAX_ACCEPTED_CHALLENGE_SIZE"
    using assms(2) unfolding total by (simp_all only: unat_of_nat word_less_nat_alt) simp_all
  let ?s1 = "challenged between login ?s0"
  have csize: "challenge_size E (take 4 ?c) = w" "challenge_size E (take 34 ?c) = w" using c(3) by (simp_all add: w_def)
  have "read_challenge E LOGIN_SEL_LOGONCHALLENGE ?s0 = Inr (True, ?s1)"
    using one c(4,5) csize diff fields len assms(3)
    by (simp add: read_challenge_def challenged_def from_memory_def Let_def)
  then have "call_handler E AUTH_LOGON_CHALLENGE ?s0 = Inr (True, ?s1)" by (simp add: call_handler_def HandleLogonChallenge_def)
  then have "finish_command E AUTH_LOGON_CHALLENGE (4 + w) ?s0 =
      Inr (LS_Continue, ?s1\<lparr>lg_readBuffer := ReadCompleted (length ?c) (holding ?c ?st)\<rparr>)"
    using sz(1) c(1) by (simp add: finish_command_def challenged_def Let_def)
  then have "logon_round E ?s0 = Inr (LS_Continue, ?s1\<lparr>lg_readBuffer := ReadCompleted (length ?c) (holding ?c ?st)\<rparr>)"
    using one csize sz assms(5) c(1) by (simp add: logon_round_def logon_handler_def Let_def)
  moreover have "?c \<noteq> []" "length ?c \<le> 4096" using c(1) assms(2) by auto
  moreover have "\<not> lg_closed ?s1" using assms(4) by (simp add: challenged_def idle_def Let_def)
  ultimately have "logon_step E (Received ?c) s
      = Inr (?s1\<lparr>lg_readBuffer := \<lparr>mb_wpos = 0, mb_rpos = 0, mb_storage = ?c @ drop (length ?c) ?st\<rparr>, lg_reading := True\<rparr>)"
    using Received_handled[OF assms(4)] by blast
  also have "?s1\<lparr>lg_readBuffer := b, lg_reading := True\<rparr> = (challenged between login s)\<lparr>lg_readBuffer := b\<rparr>" for b
    using assms(4) by (intro LogonSession.equality) (simp_all add: challenged_def idle_def Let_def)
  finally show ?thesis by (simp add: c(1))
qed

text \<open>A packet that fits is in the queue as it is.\<close>

lemma lg_SendPacket_data:
  assumes "length packet \<le> 4096" and "packet \<noteq> []" and "\<not> lg_closed s"
  obtains b where "lg_SendPacket packet s = Inr (s\<lparr>lg_writeQueue := lg_writeQueue s @ [b]\<rparr>)" "mb_data b = packet"
proof -
  obtain b where "mb_Write packet (mk_MessageBuffer 4096) = Some b" "mb_data b = packet"
    using mb_Write_ok[OF mb_new(1), of packet 4096] assms(1) mb_new(2,3) by auto
  then show thesis using that assms(2,3) by (simp add: lg_SendPacket_def lg_IsOpen_def)
qed

text \<open>
  The row of an account that may log in from here, with no token, whose password has the digest \<open>pw\<close>: verifier and
  salt are those of the password, or are missing.
\<close>

definition password_x :: "openssl \<Rightarrow> nat \<Rightarrow> u8 list \<Rightarrow> nat" where
  "password_x S salt pw = le_value (SHA1 S (AsByteArray S 32 True salt @ pw))"

definition row_ok :: "logon_env \<Rightarrow> u8 list \<Rightarrow> u8 list \<Rightarrow> challenge_row \<Rightarrow> bool" where
  "row_ok E country pw row \<longleftrightarrow>
     refusal E country (LoadResult E row) = None \<and> cr_token_key row = []
     \<and> cr_sha_pass_hash row = concat (map byte_hex pw) \<and> length pw = 20
     \<and> (length (cr_v row) = 64 \<and> length (cr_s row) = 64 \<longrightarrow>
          is_hex (cr_v row) \<and> is_hex (cr_s row)
          \<and> hex_value (cr_v row) = 7 ^ password_x (le_ssl E) (hex_value (cr_s row)) pw mod srp_N)"

lemma password_digest_hex:
  assumes "documented_ssl S" and "length pw = 20"
  shows "password_digest S (concat (map byte_hex pw)) = pw"
proof -
  have "is_hex (concat (map byte_hex pw))"
    using assms(2) byte_hex_digits by (cases pw) (auto simp: is_hex_def byte_hex_def)
  then have "SetHexStr S (concat (map byte_hex pw)) 0 = le_value (rev pw)"
    using SetHexStr_value[OF assms(1)] by (simp add: hex_value_bytes le_value_def)
  moreover have "AsByteArray S 20 True (le_value (rev pw)) = rev pw"
    using fixed_bytes[OF assms(1), of "rev pw"] assms(2) by simp
  ultimately show ?thesis using assms(2) by (simp add: password_digest_def)
qed

lemma verifier_ok:
  assumes "documented_ssl (le_ssl E)" and "row_ok E country pw row" and "rs < 256 ^ 32" and "lg_N s = srp_N" and "lg_g s = 7"
  shows "lg_v (verifier_fields E rs row s) = 7 ^ password_x (le_ssl E) (lg_s (verifier_fields E rs row s)) pw mod srp_N"
    and "lg_s (verifier_fields E rs row s) < 256 ^ 32"
proof -
  let ?S = "le_ssl E" and ?s = "verifier_fields E rs row s"
  have "lg_v ?s = 7 ^ password_x ?S (lg_s ?s) pw mod srp_N \<and> lg_s ?s < 256 ^ 32"
  proof (cases "length (cr_v row) = 64 \<and> length (cr_s row) = 64")
    case True
    then have h: "is_hex (cr_v row)" "is_hex (cr_s row)" "hex_value (cr_v row) = 7 ^ password_x ?S (hex_value (cr_s row)) pw mod srp_N"
      using assms(2) by (simp_all add: row_ok_def)
    have "hex_value (cr_s row) < 16 ^ 64" using hex_value_less[of "cr_s row"] h(2) True by (simp add: is_hex_def)
    also have "(16 :: nat) ^ 64 = 256 ^ 32" by simp
    finally have "hex_value (cr_s row) < 256 ^ 32" .
    moreover have "?s = s\<lparr>lg_s := hex_value (cr_s row), lg_v := hex_value (cr_v row)\<rparr>"
      using True h(1,2) SetHexStr_value[OF assms(1)] by (simp add: verifier_fields_def)
    ultimately show ?thesis using h(3) by simp
  next
    case False
    have d: "password_digest ?S (cr_sha_pass_hash row) = pw"
      using password_digest_hex[OF assms(1), of pw] assms(2) by (simp add: row_ok_def)
    have x: "srp_x ?S rs pw = password_x ?S rs pw"
      using length_fixed[OF assms(1,3)] by (simp add: srp_x_def password_x_def SetBinary_value[OF assms(1)])
    have "lg_v ?s = ModExp ?S 7 (password_x ?S rs pw) srp_N" "lg_s ?s = rs"
      using False assms(4,5) d x by (auto simp: verifier_fields_def SetVSFields_def Let_def)
    then show ?thesis using bn_arithmetic(4)[OF assms(1) srp_N_size(1)] assms(3) by simp
  qed
  then show "lg_v ?s = 7 ^ password_x ?S (lg_s ?s) pw mod srp_N" and "lg_s ?s < 256 ^ 32" by blast+
qed

text \<open>What the client reads from the answer.\<close>

lemma answer_parts:
  assumes "documented_ssl S" and "lg_B s < 256 ^ 32" and "lg_s s < 256 ^ 32" and "lg_N s < 256 ^ 32" and "lg_g s < 256"
  shows "answer_B (challenge_answer S code ru s) = lg_B s"
    and "answer_salt (challenge_answer S code ru s) = AsByteArray S 32 True (lg_s s)"
proof -
  have len: "length (AsByteArray S 32 True (lg_B s)) = 32" "length (AsByteArray S 32 True (lg_s s)) = 32"
    "length (AsByteArray S 32 True (lg_N s)) = 32" "length (AsByteArray S 1 True (lg_g s)) = 1"
    using length_fixed[OF assms(1)] assms(2-5) by simp_all
  show "answer_B (challenge_answer S code ru s) = lg_B s"
    using len fixed_value[OF assms(1)] by (simp add: answer_B_def challenge_answer_def)
  show "answer_salt (challenge_answer S code ru s) = AsByteArray S 32 True (lg_s s)"
    using len by (simp add: answer_salt_def challenge_answer_def)
qed

text \<open>The session when the password is to be proved.\<close>

definition numbers_ready :: "logon_env \<Rightarrow> u8 list \<Rightarrow> LogonSession \<Rightarrow> bool" where
  "numbers_ready E pw s \<longleftrightarrow>
     lg_N s = srp_N \<and> lg_g s = 7 \<and> lg_s s < 256 ^ 32
     \<and> lg_v s = 7 ^ password_x (le_ssl E) (lg_s s) pw mod srp_N
     \<and> lg_B s = (lg_v s * 3 + 7 ^ lg_b s mod srp_N) mod srp_N"

definition ready_for_proof :: "logon_env \<Rightarrow> u8 list \<Rightarrow> LogonSession \<Rightarrow> bool" where
  "ready_for_proof E pw s \<longleftrightarrow> lg_status s = STATUS_LOGON_PROOF \<and> lg_tokenKey s = [] \<and> numbers_ready E pw s"

lemma challenge_answered:
  assumes "documented_ssl (le_ssl E)" and "row_ok E (lg_ipCountry s) pw row" and "rs < 256 ^ 32" and "lg_N s = srp_N" and "lg_g s = 7"
    and "lg_queries s = [LOGIN_SEL_LOGONCHALLENGE login]" and "\<not> lg_closed s" and "IsAcceptedClientBuild (uint (lg_build s))"
  obtains s1 where "logon_step E (ChallengeAnswer login (Some row) rs rb ru) s = Inr s1" "ready_for_proof E pw s1"
    "lg_accountInfo s1 = LoadResult E row" "lg_readBuffer s1 = lg_readBuffer s" "lg_reading s1 = lg_reading s" "\<not> lg_closed s1"
    "lg_build s1 = lg_build s" "lg_expversion s1 = lg_expversion s" "lg_localizationName s1 = lg_localizationName s" "lg_os s1 = lg_os s"
    "map mb_data (lg_writeQueue s1) = map mb_data (lg_writeQueue s) @ [challenge_answer (le_ssl E) WOW_SUCCESS ru s1]"
proof -
  let ?S = "le_ssl E"
  let ?s1 = "s\<lparr>lg_queries := [], lg_accountInfo := LoadResult E row\<rparr>"
  define s2 where "s2 = verifier_fields E rs row ?s1"
  note kept = verifier_fields_same[where s = ?s1 and E = E and r = rs and row = row, folded s2_def]
  have "lg_N ?s1 = srp_N" "lg_g ?s1 = 7" using assms(4,5) by simp_all
  note v = verifier_ok[OF assms(1-3) this, folded s2_def]
  have N: "lg_N s2 = srp_N" "lg_g s2 = 7" using kept(2,3) assms(4,5) by simp_all
  let ?gmod = "7 ^ rb mod srp_N"
  have gmod: "ModExp ?S 7 rb srp_N = ?gmod" using bn_arithmetic(4)[OF assms(1) srp_N_size(1)] .
  have "?gmod < srp_N" by (rule mod_less_divisor[OF srp_N_size(1)])
  then have "?gmod < 256 ^ 32" using srp_N_size(2) by (rule less_trans)
  then have bytes: "\<not> GetNumBytes ?S ?gmod > 32" using length_be_bytes bn_arithmetic(5)[OF assms(1)] by (simp only: not_less)
  let ?B = "(lg_v s2 * 3 + ?gmod) mod srp_N"
  have B: "bn_modulo ?S (bn_plus ?S (bn_times ?S (lg_v s2) 3) ?gmod) srp_N = ?B"
    using bn_arithmetic(1-3)[OF assms(1)] srp_N_size(1) by simp
  define s3 where "s3 = s2\<lparr>lg_b := rb, lg_B := ?B, lg_status := STATUS_LOGON_PROOF, lg_tokenKey := []\<rparr>"
  have refusal: "refusal E (lg_ipCountry s) (LoadResult E row) = None" "cr_token_key row = []" using assms(2) by (simp_all add: row_ok_def)
  have step: "logon_step E (ChallengeAnswer login (Some row) rs rb ru) s = lg_SendPacket (challenge_answer ?S WOW_SUCCESS ru s3) s3"
    using assms(6-8) refusal N gmod bytes B kept(6)
    by (simp add: answered_def LogonChallengeCallback_def Let_def s2_def[symmetric] s3_def)
  have same: "lg_readBuffer s3 = lg_readBuffer s" "lg_reading s3 = lg_reading s" "lg_closed s3 = lg_closed s"
    using kept(1) by (simp_all add: s3_def same_input_def)
  have rest: "lg_expversion s3 = lg_expversion s" "lg_localizationName s3 = lg_localizationName s" "lg_os s3 = lg_os s"
    "lg_writeQueue s3 = lg_writeQueue s" "lg_build s3 = lg_build s" "lg_accountInfo s3 = LoadResult E row"
    using kept(5,6) by (simp_all add: s3_def s2_def verifier_fields_def SetVSFields_def Let_def)
  have ready: "ready_for_proof E pw s3" using v N by (simp add: ready_for_proof_def numbers_ready_def s3_def)
  have "challenge_answer ?S WOW_SUCCESS ru s3 \<noteq> []" "\<not> lg_closed s3"
    using assms(7) same(3) by (simp_all add: challenge_answer_def)
  then obtain b where b: "lg_SendPacket (challenge_answer ?S WOW_SUCCESS ru s3) s3 = Inr (s3\<lparr>lg_writeQueue := lg_writeQueue s3 @ [b]\<rparr>)"
    "mb_data b = challenge_answer ?S WOW_SUCCESS ru s3"
    using lg_SendPacket_data[OF length_challenge_answer] by blast
  have "challenge_answer ?S WOW_SUCCESS ru (s3\<lparr>lg_writeQueue := q\<rparr>) = challenge_answer ?S WOW_SUCCESS ru s3" for q
    by (simp add: challenge_answer_def)
  then show thesis
    using that[of "s3\<lparr>lg_writeQueue := lg_writeQueue s3 @ [b]\<rparr>"] step b ready same rest assms(7) by (simp add: ready_for_proof_def numbers_ready_def)
qed

text \<open>A packet that proves the password, with the client's number, the digest and the key it leads to.\<close>

definition proof_for :: "logon_env \<Rightarrow> LogonSession \<Rightarrow> u8 list \<Rightarrow> nat \<Rightarrow> nat \<Rightarrow> nat \<Rightarrow> bool" where
  "proof_for E s p A M K \<longleftrightarrow>
     length p = 75 \<and> take 1 p = [AUTH_LOGON_PROOF] \<and> SetBinary (le_ssl E) (take 32 (drop 1 p)) = A
     \<and> \<not> IsZero (bn_modulo (le_ssl E) A (lg_N s)) \<and> srp_K (le_ssl E) (server_common (le_ssl E) s A) = K
     \<and> srp_M (le_ssl E) (lg_N s) (lg_g s) (la_Login (lg_accountInfo s)) (lg_s s) A (lg_B s) K = M
     \<and> take 20 (AsByteArray (le_ssl E) 20 True M) = take 20 (drop 33 p)"

lemma proof_for_buffer [simp]:
  "proof_for E (s\<lparr>lg_reading := x, lg_readBuffer := b\<rparr>) p A M K = proof_for E s p A M K"
  by (simp add: proof_for_def server_common_def)

lemma HandleLogonProof_right:
  assumes "proof_for E s p A M K" and "struct_at 75 (lg_readBuffer s) = Some p" and "lg_expversion s \<noteq> NO_VALID_EXP_FLAG"
  shows "HandleLogonProof E s = (case check_token E (p ! 74) (s\<lparr>lg_status := STATUS_CLOSED, lg_K := K\<rparr>) of
       Inl e \<Rightarrow> Inl e
     | Inr (True, s2) \<Rightarrow> accept_proof E A M s2
     | Inr (False, s2) \<Rightarrow> refuse_proof E (\<lambda>s. s) s2)"
proof -
  have "server_common (le_ssl E) (s\<lparr>lg_status := STATUS_CLOSED\<rparr>) A = server_common (le_ssl E) s A" by (simp add: server_common_def)
  then show ?thesis
    using assms by (simp add: HandleLogonProof_def proof_for_def Let_def split: sum.split prod.split bool.split)
qed

text \<open>The client's packet is such a proof.\<close>

lemma client_proof_for:
  assumes "documented_ssl (le_ssl E)" and "numbers_ready E pw s"
    and "answer_B answer = lg_B s" and "answer_salt answer = AsByteArray (le_ssl E) 32 True (lg_s s)"
  defines "S \<equiv> le_ssl E" and "name \<equiv> la_Login (lg_accountInfo s)"
  shows "proof_for E s (client_proof S name pw a answer) (client_A a) (client_M S name pw a answer) (client_K S pw a answer)"
    and "client_proof S name pw a answer ! 74 = 0"
proof -
  let ?M = "client_M S name pw a answer" and ?K = "client_K S pw a answer" and ?A = "client_A a" and ?p = "client_proof S name pw a answer"
  have S: "documented_ssl S" using assms(1) by (simp add: S_def)
  have A: "length (AsByteArray S 32 True ?A) = 32" using length_fixed[OF S client_A_ok(2)[OF S]] .
  have "?M < 256 ^ 20"
    using le_value_less[of "SHA1 S bs" for bs] length_SHA1[OF S] by (simp add: client_M_def srp_M_def Let_def SetBinary_value[OF S])
  then have M: "length (AsByteArray S 20 True ?M) = 20" by (rule length_fixed[OF S])
  have p: "length ?p = 75" "take 1 ?p = [AUTH_LOGON_PROOF]" "take 32 (drop 1 ?p) = AsByteArray S 32 True ?A"
    "take 20 (drop 33 ?p) = AsByteArray S 20 True ?M" "?p ! 74 = 0"
    using A M by (simp_all add: client_proof_def nth_append)
  have "server_common S s ?A = client_common S pw a answer"
    using assms(2-4) by (intro common_agree[OF S]) (simp_all add: numbers_ready_def password_x_def S_def)
  then have K: "srp_K S (server_common S s ?A) = ?K" by (simp add: client_K_def)
  have M': "srp_M S srp_N 7 name (lg_s s) ?A (lg_B s) ?K = ?M"
    using assms(3,4) by (simp add: client_M_def S_def[symmetric] fixed_value[OF S])
  have A': "SetBinary S (AsByteArray S 32 True ?A) = ?A" by (simp add: SetBinary_value[OF S] fixed_value[OF S])
  have N: "lg_N s = srp_N" "lg_g s = 7" using assms(2) by (simp_all add: numbers_ready_def)
  show "proof_for E s ?p ?A ?M ?K"
    unfolding proof_for_def S_def[symmetric] name_def[symmetric] N p(3,4) using p(1,2) A' client_A_ok(1)[OF S] K M' M by simp
  show "?p ! 74 = 0" by (fact p(5))
qed

lemma accept_proof_data:
  assumes "documented_ssl (le_ssl E)" and "\<not> lg_closed s"
  obtains b effs where "accept_proof E A M s = Inr (True, s\<lparr>lg_effects := effs, lg_writeQueue := lg_writeQueue s @ [b], lg_status := STATUS_AUTHED\<rparr>)"
    "mb_data b = proof_answer E (lg_expversion s) (SHA1 (le_ssl E) (UpdateBigNumbers (le_ssl E) [A, M, lg_K s] []))"
    "LOGIN_UPD_LOGONPROOF (AsHexStr (le_ssl E) (lg_K s)) (le_address E) (GetLocaleByName (lg_localizationName s)) (lg_os s)
       (la_Login (lg_accountInfo s)) \<in> set effs"
proof -
  let ?S = "le_ssl E" and ?M2 = "SHA1 (le_ssl E) (UpdateBigNumbers (le_ssl E) [A, M, lg_K s] [])"
  let ?effs = "lg_effects s @ [LOGIN_UPD_LOGONPROOF (AsHexStr ?S (lg_K s)) (le_address E) (GetLocaleByName (lg_localizationName s)) (lg_os s)
    (la_Login (lg_accountInfo s))]"
  let ?reply = "proof_answer E (lg_expversion s) ?M2"
  have "length ?reply \<le> 4096" "?reply \<noteq> []" "\<not> lg_closed (s\<lparr>lg_effects := ?effs\<rparr>)"
    using length_proof_answer[of ?M2] length_SHA1[OF assms(1)] assms(2) by (simp_all add: proof_answer_def)
  from lg_SendPacket_data[OF this] obtain b where
    "lg_SendPacket ?reply (s\<lparr>lg_effects := ?effs\<rparr>)
      = Inr (s\<lparr>lg_effects := ?effs, lg_writeQueue := lg_writeQueue (s\<lparr>lg_effects := ?effs\<rparr>) @ [b]\<rparr>)" "mb_data b = ?reply" .
  then show thesis using that[of b ?effs] by (simp add: accept_proof_def Let_def)
qed

text \<open>A proof, with its token behind it when one is asked for, is accepted.\<close>

lemma proof_accepted:
  assumes "documented_ssl (le_ssl E)" and "idle s" and "lg_status s = STATUS_LOGON_PROOF" and "lg_expversion s \<noteq> NO_VALID_EXP_FLAG"
    and "proof_for E s p A M K" and "length rest \<le> 256"
  defines "b \<equiv> holding (p @ rest) (mb_storage (lg_readBuffer s))"
  defines "sk \<equiv> s\<lparr>lg_reading := False, lg_readBuffer := b, lg_status := STATUS_CLOSED, lg_K := K\<rparr>"
  assumes token: "check_token E (p ! 74) sk = Inr (True, sk\<lparr>lg_readBuffer := ReadCompleted (length rest) b, lg_tokenKey := []\<rparr>)"
  obtains s1 where "logon_step E (Received (p @ rest)) s = Inr s1" "lg_status s1 = STATUS_AUTHED" "lg_K s1 = K" "idle s1"
    "map mb_data (lg_writeQueue s1) = map mb_data (lg_writeQueue s)
       @ [proof_answer E (lg_expversion s) (SHA1 (le_ssl E) (UpdateBigNumbers (le_ssl E) [A, M, K] []))]"
    "LOGIN_UPD_LOGONPROOF (AsHexStr (le_ssl E) K) (le_address E) (GetLocaleByName (lg_localizationName s)) (lg_os s)
       (la_Login (lg_accountInfo s)) \<in> set (lg_effects s1)"
proof -
  let ?S = "le_ssl E" and ?st = "mb_storage (lg_readBuffer s)" and ?s0 = "s\<lparr>lg_reading := False, lg_readBuffer := b\<rparr>"
  have p: "length p = 75" "take 1 p = [AUTH_LOGON_PROOF]" using assms(5) by (simp_all add: proof_for_def)
  let ?n = "length (p @ rest)"
  have struct: "struct_at 75 b = Some p" "struct_at 1 b = Some [AUTH_LOGON_PROOF]"
    using struct_at_holding[of 75 "p @ rest" ?st] struct_at_holding[of 1 "p @ rest" ?st] p by (simp_all add: b_def)
  define st where "st = sk\<lparr>lg_readBuffer := ReadCompleted (length rest) b, lg_tokenKey := []\<rparr>"
  have sk: "?s0\<lparr>lg_status := STATUS_CLOSED, lg_K := K\<rparr> = sk" by (simp add: sk_def)
  have h: "HandleLogonProof E ?s0 = accept_proof E A M st"
    using HandleLogonProof_right[of E ?s0 p A M K] assms(4,5) struct(1) token by (simp add: sk st_def)
  have fields: "\<not> lg_closed st" "lg_K st = K" "lg_expversion st = lg_expversion s" "lg_writeQueue st = lg_writeQueue s"
    "lg_localizationName st = lg_localizationName s" "lg_os st = lg_os s" "lg_accountInfo st = lg_accountInfo s"
    "lg_readBuffer st = ReadCompleted (length rest) b"
    using assms(2) by (simp_all add: st_def sk_def idle_def)
  obtain w effs where a: "accept_proof E A M st = Inr (True, st\<lparr>lg_effects := effs, lg_writeQueue := lg_writeQueue s @ [w], lg_status := STATUS_AUTHED\<rparr>)"
    "mb_data w = proof_answer E (lg_expversion s) (SHA1 ?S (UpdateBigNumbers ?S [A, M, K] []))"
    "LOGIN_UPD_LOGONPROOF (AsHexStr ?S K) (le_address E) (GetLocaleByName (lg_localizationName s)) (lg_os s) (la_Login (lg_accountInfo s)) \<in> set effs"
    using accept_proof_data[OF assms(1) fields(1), of A M] unfolding fields by metis
  let ?s2 = "st\<lparr>lg_effects := effs, lg_writeQueue := lg_writeQueue s @ [w], lg_status := STATUS_AUTHED\<rparr>"
  have "ReadCompleted 75 (ReadCompleted (length rest) b) = ReadCompleted ?n b" using p(1) by (simp add: ReadCompleted_def)
  moreover have "call_handler E AUTH_LOGON_PROOF ?s0 = Inr (True, ?s2)" using h a(1) by (simp add: call_handler_def)
  ultimately have "finish_command E AUTH_LOGON_PROOF 75 ?s0 = Inr (LS_Continue, ?s2\<lparr>lg_readBuffer := ReadCompleted ?n b\<rparr>)"
    using p(1) fields(8) by (simp add: finish_command_def b_def)
  then have "logon_round E ?s0 = Inr (LS_Continue, ?s2\<lparr>lg_readBuffer := ReadCompleted ?n b\<rparr>)"
    using struct(2) assms(3) p(1) by (simp add: logon_round_def logon_handler_def b_def)
  moreover have "p @ rest \<noteq> []" "?n \<le> 4096" "\<not> lg_closed ?s2" using p(1) assms(6) fields(1) by auto
  ultimately have r: "logon_step E (Received (p @ rest)) s
      = Inr (?s2\<lparr>lg_readBuffer := \<lparr>mb_wpos = 0, mb_rpos = 0, mb_storage = (p @ rest) @ drop ?n ?st\<rparr>, lg_reading := True\<rparr>)"
    using Received_handled[OF assms(2), of "p @ rest" ?s2 E] unfolding b_def by blast
  have "4096 \<le> length ((p @ rest) @ drop ?n ?st)" using assms(2) by (simp add: idle_def) arith
  then show thesis
    using assms(2) a(2,3) fields by (intro that[OF r]) (simp_all add: idle_def)
qed

lemma proof_handled:
  assumes "documented_ssl (le_ssl E)" and "ready_for_proof E pw s" and "idle s" and "lg_expversion s \<noteq> NO_VALID_EXP_FLAG"
    and "answer_B answer = lg_B s" and "answer_salt answer = AsByteArray (le_ssl E) 32 True (lg_s s)"
  defines "S \<equiv> le_ssl E" and "name \<equiv> la_Login (lg_accountInfo s)"
  obtains s1 where "logon_step E (Received (client_proof S name pw a answer)) s = Inr s1" "lg_status s1 = STATUS_AUTHED"
    "lg_K s1 = client_K S pw a answer" "idle s1"
    "map mb_data (lg_writeQueue s1) = map mb_data (lg_writeQueue s) @ [proof_answer E (lg_expversion s) (client_M2 S name pw a answer)]"
    "LOGIN_UPD_LOGONPROOF (AsHexStr S (client_K S pw a answer)) (le_address E) (GetLocaleByName (lg_localizationName s)) (lg_os s) name
       \<in> set (lg_effects s1)"
proof -
  let ?p = "client_proof S name pw a answer"
  have r: "lg_status s = STATUS_LOGON_PROOF" "lg_tokenKey s = []" "numbers_ready E pw s" using assms(2) by (simp_all add: ready_for_proof_def)
  note c = client_proof_for[OF assms(1) r(3) assms(5,6), of a, folded S_def name_def]
  let ?sk = "s\<lparr>lg_reading := False, lg_readBuffer := holding (?p @ []) (mb_storage (lg_readBuffer s)), lg_status := STATUS_CLOSED,
    lg_K := client_K S pw a answer\<rparr>"
  have "?sk = ?sk\<lparr>lg_readBuffer := ReadCompleted (length []) (lg_readBuffer ?sk), lg_tokenKey := []\<rparr>"
    using r(2) by (intro LogonSession.equality) simp_all
  then have "check_token E (?p ! 74) ?sk = Inr (True, ?sk\<lparr>lg_readBuffer := ReadCompleted (length []) (lg_readBuffer ?sk), lg_tokenKey := []\<rparr>)"
    using r(2) c(2) by (simp add: check_token_def)
  then show thesis
    using proof_accepted[OF assms(1,3) r(1) assms(4) c(1), of "[]"] that by (simp add: client_M2_def S_def[symmetric] name_def[symmetric] del: ReadCompleted_0) blast
qed

text \<open>Everything together, from the connection to the reply.\<close>

definition client_build :: "u8 list \<Rightarrow> u16" where
  "client_build between = le_word (take 2 (drop 7 between))"

lemma login_exchange:
  assumes "documented_ssl (le_ssl E)" and "\<not> le_big E" and "lg_ip_rows rows (False, []) = (False, country)"
    and "length between = 29" and "length login \<le> 17" and "IsAcceptedClientBuild (uint (client_build between))"
    and "row_ok E country pw row" and "rs < 256 ^ 32"
  defines "S \<equiv> le_ssl E" and "name \<equiv> la_Login (LoadResult E row)"
  obtains s answer s1 where
    "logon_run E [IpAnswer rows, Received (client_challenge between login), ChallengeAnswer login (Some row) rs rb ru]
       (lg_Start (mk_LogonSession E)) = Inr s" "map mb_data (lg_writeQueue s) = [answer]"
    "logon_step E (Received (client_proof S name pw a answer)) s = Inr s1" "lg_status s1 = STATUS_AUTHED"
    "lg_K s1 = client_K S pw a answer" "\<not> lg_closed s1"
    "map mb_data (lg_writeQueue s1) = [answer, proof_answer E (expansion_flag (client_build between)) (client_M2 S name pw a answer)]"
    "\<exists>locale os. LOGIN_UPD_LOGONPROOF (AsHexStr S (client_K S pw a answer)) (le_address E) locale os name \<in> set (lg_effects s1)"
proof -
  let ?s0 = "listening E country"
  define st where "st = client_challenge between login @ drop (34 + length login) (mb_storage (lg_readBuffer ?s0))"
  define s1 where "s1 = (challenged between login ?s0)\<lparr>lg_readBuffer := \<lparr>mb_wpos = 0, mb_rpos = 0, mb_storage = st\<rparr>\<rparr>"
  have step1: "logon_step E (IpAnswer rows) (lg_Start (mk_LogonSession E)) = Inr ?s0" by (rule ip_answered[OF assms(3)])
  have step2: "logon_step E (Received (client_challenge between login)) ?s0 = Inr s1"
    using challenge_handled[OF assms(4,5,2) listening_idle(1,2)] by (simp add: s1_def st_def)
  have s1: "lg_ipCountry s1 = country" "lg_N s1 = srp_N" "lg_g s1 = 7" "lg_queries s1 = [LOGIN_SEL_LOGONCHALLENGE login]" "\<not> lg_closed s1"
    "lg_build s1 = client_build between" "lg_expversion s1 = expansion_flag (client_build between)" "lg_writeQueue s1 = []" "lg_reading s1"
    using new_session_N[OF assms(1)] by (simp_all add: s1_def challenged_def listening_def Let_def client_build_def) (simp_all add: mk_LogonSession_def)
  have "4096 \<le> length st"
    using challenge_parts(1)[OF assms(4,5,2)] listening_idle(1)[of E country] by (simp add: st_def idle_def) arith
  then have buf: "mb_rpos (lg_readBuffer s1) = 0" "mb_wpos (lg_readBuffer s1) = 0" "4096 \<le> length (mb_storage (lg_readBuffer s1))"
    by (simp_all add: s1_def)
  obtain s2 where s2: "logon_step E (ChallengeAnswer login (Some row) rs rb ru) s1 = Inr s2" "ready_for_proof E pw s2"
    "lg_accountInfo s2 = LoadResult E row" "lg_readBuffer s2 = lg_readBuffer s1" "lg_reading s2 = lg_reading s1" "\<not> lg_closed s2"
    "lg_expversion s2 = lg_expversion s1" "map mb_data (lg_writeQueue s2) = [challenge_answer S WOW_SUCCESS ru s2]"
  proof -
    have "row_ok E (lg_ipCountry s1) pw row" "IsAcceptedClientBuild (uint (lg_build s1))" using assms(6,7) s1(1,6) by simp_all
    from challenge_answered[OF assms(1) this(1) assms(8) s1(2,3,4,5) this(2)] show thesis
      using that unfolding s1(8) S_def by (metis append_Nil list.simps(8))
  qed
  define answer where "answer = challenge_answer S WOW_SUCCESS ru s2"
  have "idle s2" using buf s1(9) s2(4-6) by (simp add: idle_def)
  moreover have "lg_expversion s2 \<noteq> NO_VALID_EXP_FLAG"
    using s2(7) s1(7) assms(6) by (auto simp: expansion_flag_def IsAcceptedClientBuild_def)
  moreover have "answer_B answer = lg_B s2" "answer_salt answer = AsByteArray S 32 True (lg_s s2)"
  proof -
    have r: "lg_N s2 = srp_N" "lg_g s2 = 7" "lg_s s2 < 256 ^ 32" "lg_B s2 = (lg_v s2 * 3 + 7 ^ lg_b s2 mod srp_N) mod srp_N"
      using s2(2) by (simp_all add: ready_for_proof_def numbers_ready_def)
    have "lg_B s2 < srp_N" unfolding r(4) by (rule mod_less_divisor[OF srp_N_size(1)])
    then have B: "lg_B s2 < 256 ^ 32" using srp_N_size(2) by (rule less_trans)
    have "lg_N s2 < 256 ^ 32" "lg_g s2 < 256" using r(1,2) srp_N_size(2) by simp_all
    from answer_parts[OF assms(1) B r(3) this]
    show "answer_B answer = lg_B s2" "answer_salt answer = AsByteArray S 32 True (lg_s s2)" by (simp_all add: answer_def S_def)
  qed
  ultimately obtain s3 where s3: "logon_step E (Received (client_proof S name pw a answer)) s2 = Inr s3" "lg_status s3 = STATUS_AUTHED"
    "lg_K s3 = client_K S pw a answer" "idle s3"
    "map mb_data (lg_writeQueue s3) = map mb_data (lg_writeQueue s2) @ [proof_answer E (lg_expversion s2) (client_M2 S name pw a answer)]"
    "LOGIN_UPD_LOGONPROOF (AsHexStr S (client_K S pw a answer)) (le_address E) (GetLocaleByName (lg_localizationName s2)) (lg_os s2) name
       \<in> set (lg_effects s3)"
    using proof_handled[OF assms(1) s2(2), of answer a] s2(3) by (auto simp: S_def name_def)
  show thesis
  proof (rule that)
    show "logon_run E [IpAnswer rows, Received (client_challenge between login), ChallengeAnswer login (Some row) rs rb ru]
       (lg_Start (mk_LogonSession E)) = Inr s2"
      using step1 step2 s2(1) by (simp del: logon_step.simps)
    show "map mb_data (lg_writeQueue s2) = [answer]" using s2(8) by (simp add: answer_def)
    show "logon_step E (Received (client_proof S name pw a answer)) s2 = Inr s3" "lg_status s3 = STATUS_AUTHED"
      "lg_K s3 = client_K S pw a answer" by (fact s3)+
    show "\<not> lg_closed s3" using s3(4) by (simp add: idle_def)
    show "map mb_data (lg_writeQueue s3) = [answer, proof_answer E (expansion_flag (client_build between)) (client_M2 S name pw a answer)]"
      using s3(5) s2(7,8) s1(7) by (simp add: answer_def)
    show "\<exists>locale os. LOGIN_UPD_LOGONPROOF (AsHexStr S (client_K S pw a answer)) (le_address E) locale os name \<in> set (lg_effects s3)"
      using s3(6) by blast
  qed
qed

text \<open>Property C14: a client that knows the password logs in, whatever the salt, the verifier's origin (stored or made from the
  password hash) and the secret numbers of both sides are: after the server's answer to its challenge it sends
  the proof it computes from that answer, and then the session is logged in, both sides have the same session
  key, which is stored for the world servers, and the server's reply proves to the client that the server has
  it too.\<close>

theorem client_with_password_logs_in:
  assumes "documented_ssl (le_ssl E)" and "\<not> le_big E" and "lg_ip_rows rows (False, []) = (False, country)"
    and "length between = 29" and "length login \<le> 17" and "IsAcceptedClientBuild (uint (client_build between))"
    and "row_ok E country pw row" and "rs < 256 ^ 32"
  shows "\<exists>s answer s1. logon_run E [IpAnswer rows, Received (client_challenge between login), ChallengeAnswer login (Some row) rs rb ru]
        (lg_Start (mk_LogonSession E)) = Inr s
    \<and> map mb_data (lg_writeQueue s) = [answer]
    \<and> logon_step E (Received (client_proof (le_ssl E) (la_Login (LoadResult E row)) pw a answer)) s = Inr s1
    \<and> lg_status s1 = STATUS_AUTHED \<and> lg_K s1 = client_K (le_ssl E) pw a answer
    \<and> map mb_data (lg_writeQueue s1) = [answer, proof_answer E (expansion_flag (client_build between))
          (client_M2 (le_ssl E) (la_Login (LoadResult E row)) pw a answer)]
    \<and> (\<exists>locale os. LOGIN_UPD_LOGONPROOF (AsHexStr (le_ssl E) (lg_K s1)) (le_address E) locale os (la_Login (LoadResult E row)) \<in> set (lg_effects s1))"
  using login_exchange[OF assms, of rb ru a] by metis

subsection \<open>A login\<close>

definition sample_row :: challenge_row where
  "sample_row =
     \<lparr>ar_id = 5, ar_username = ascii ''MARTIN'', ar_locked = False, ar_lock_country = ascii ''00'', ar_last_ip = [], ar_failed_logins = 0,
      ar_banned = 0, ar_permbanned = 0, ar_gmlevel = 0, cr_token_key = [], cr_sha_pass_hash = concat (map byte_hex (replicate 20 0xAB)),
      cr_v = [], cr_s = []\<rparr>"

definition sample_between :: "u8 list" where
  "sample_between = ascii ''WoW'' @ [0, 3, 3, 5, 0x34, 0x30] @ ascii ''68x'' @ [0] @ ascii ''niW'' @ [0] @ ascii ''SUne'' @ replicate 8 0"

lemma sample_login:
  "length sample_between = 29" "length (ascii ''MARTIN'') \<le> 17" "IsAcceptedClientBuild (uint (client_build sample_between))"
  "row_ok sample_logon_env [] (replicate 20 0xAB) sample_row" "\<not> le_big sample_logon_env" "lg_ip_rows [] (False, []) = (False, [])"
proof -
  show "length sample_between = 29" "length (ascii ''MARTIN'') \<le> 17" by (simp_all add: sample_between_def ascii_def)
  have "client_build sample_between = 12340" unfolding client_build_def by code_simp
  then show "IsAcceptedClientBuild (uint (client_build sample_between))" by (simp add: IsAcceptedClientBuild_def IsPostBCAcceptedClientBuild_def PostBcAcceptedClientBuilds_def build_info_def)
  show "row_ok sample_logon_env [] (replicate 20 0xAB) sample_row"
    by (simp add: row_ok_def sample_row_def refusal_def wrong_origin_def LoadResult_def)
  show "\<not> le_big sample_logon_env" "lg_ip_rows [] (False, []) = (False, [])" by (simp_all add: sample_logon_env_def)
qed

lemma sample_name: "la_Login (LoadResult sample_logon_env sample_row) = ascii ''MARTIN''" "le_ssl sample_logon_env = sample_ssl"
  by (simp_all add: LoadResult_def sample_logon_env_def sample_row_def)

lemma logon_run_snoc:
  "logon_run E (evs @ [ev]) s = (case logon_run E evs s of Inl e \<Rightarrow> Inl e | Inr s1 \<Rightarrow> logon_step E ev s1)"
  by (induction evs arbitrary: s) (auto split: sum.split simp del: logon_step.simps)

theorem client_with_password_logs_in_witness:
  "\<exists>s answer s1. logon_run sample_logon_env [IpAnswer [], Received (client_challenge sample_between (ascii ''MARTIN'')),
        ChallengeAnswer (ascii ''MARTIN'') (Some sample_row) 77 5 9] (lg_Start (mk_LogonSession sample_logon_env)) = Inr s
    \<and> logon_step sample_logon_env (Received (client_proof sample_ssl (ascii ''MARTIN'') (replicate 20 0xAB) 3 answer)) s = Inr s1
    \<and> lg_status s1 = STATUS_AUTHED \<and> lg_K s1 = client_K sample_ssl (replicate 20 0xAB) 3 answer"
proof -
  have "(77 :: nat) < 256 ^ 32" by simp
  from client_with_password_logs_in[OF sample_logon_env_documented sample_login(5,6,1-4) this, of 5 9 3]
  show ?thesis unfolding sample_name by blast
qed

text \<open>Property C10: a session is logged in, so that it is given the list of realms, only when its client has sent a proof:
  somewhere in the bytes received is a packet whose digest is the one the server computes from the verifier
  of the account, its own secret number and the client's number, or, for a reconnection, from the stored
  session key and the server's challenge.\<close>

theorem logged_in_needs_proof:
  assumes "documented_ssl (le_ssl E)" and "\<forall>ev \<in> set evs. event_ok E ev"
    and "logon_run E evs (lg_Start (mk_LogonSession E)) = Inr s" and "logged_in s"
  shows "\<exists>p. sublist p (received_bytes E evs (lg_Start (mk_LogonSession E))) \<and> (accepts_proof E s p \<or> accepts_reconnect E s p)"
  using logon_run_inv[OF assms(1) start_inv[OF assms(1)] assms(2)] assms(3,4) by (simp add: session_inv_def proof_in_def)

theorem logged_in_needs_proof_witness:
  "\<exists>evs s p. logon_run sample_logon_env evs (lg_Start (mk_LogonSession sample_logon_env)) = Inr s \<and> logged_in s
     \<and> sublist p (received_bytes sample_logon_env evs (lg_Start (mk_LogonSession sample_logon_env)))
     \<and> (accepts_proof sample_logon_env s p \<or> accepts_reconnect sample_logon_env s p)"
proof -
  let ?c = "client_challenge sample_between (ascii ''MARTIN'')" and ?start = "lg_Start (mk_LogonSession sample_logon_env)"
  obtain s answer s1 where s: "logon_run sample_logon_env [IpAnswer [], Received ?c, ChallengeAnswer (ascii ''MARTIN'') (Some sample_row) 77 5 9] ?start = Inr s"
    "logon_step sample_logon_env (Received (client_proof sample_ssl (ascii ''MARTIN'') (replicate 20 0xAB) 3 answer)) s = Inr s1" "lg_status s1 = STATUS_AUTHED"
  proof -
    have "(77 :: nat) < 256 ^ 32" by simp
    from login_exchange[OF sample_logon_env_documented sample_login(5,6,1-4) this, of 5 9 3] show thesis
      using that unfolding sample_name by blast
  qed
  let ?evs = "[IpAnswer [], Received ?c, ChallengeAnswer (ascii ''MARTIN'') (Some sample_row) 77 5 9,
    Received (client_proof sample_ssl (ascii ''MARTIN'') (replicate 20 0xAB) 3 answer)]"
  from logon_run_snoc[of sample_logon_env "[IpAnswer [], Received ?c, ChallengeAnswer (ascii ''MARTIN'') (Some sample_row) 77 5 9]"
      "Received (client_proof sample_ssl (ascii ''MARTIN'') (replicate 20 0xAB) 3 answer)" ?start]
  have r: "logon_run sample_logon_env ?evs ?start = Inr s1" unfolding s(1) by (simp only: append.simps sum.case s(2))
  have "\<forall>ev \<in> set ?evs. event_ok sample_logon_env ev" by (simp add: event_ok_def)
  moreover have l: "logged_in s1" using s(3) by (simp add: logged_in_def)
  ultimately show ?thesis using logged_in_needs_proof[OF sample_logon_env_documented _ r l] r by blast
qed

end
