(* ===== verification/LogonErrors.thy ===== *)
theory LogonErrors
  imports LogonProof
begin

text \<open>
  Where the login at the realm server goes wrong without the client's doing wrong: a token that arrives behind
  its proof, a list of realms that is longer than the buffer it is copied into, and the test of a realm's
  build for the oldest clients.
\<close>

section \<open>Tokens\<close>

lemma check_token_read:
  assumes "lg_tokenKey s \<noteq> []" and "struct_at 76 (lg_readBuffer s) = Some q" and "unat (q ! 75) = n"
    and "struct_at (76 + n) (lg_readBuffer s) = Some r"
  shows "check_token E flags s =
    Inr (GenerateToken (le_ssl E) (le_time E) (takeWhile (\<lambda>c. c \<noteq> 0) (lg_tokenKey s)) = atoi_u32 (drop 76 r),
         s\<lparr>lg_readBuffer := ReadCompleted (1 + n) (lg_readBuffer s), lg_tokenKey := []\<rparr>)"
  using assms by (simp add: check_token_def Let_def)

text \<open>A proof and its token in one piece.\<close>

lemma token_with_proof:
  assumes "documented_ssl (le_ssl E)" and "idle s" and "lg_status s = STATUS_LOGON_PROOF" and "lg_expversion s \<noteq> NO_VALID_EXP_FLAG"
    and "proof_for E s p A M K" and "lg_tokenKey s \<noteq> []" and "length t \<le> 255"
    and "atoi_u32 t = GenerateToken (le_ssl E) (le_time E) (takeWhile (\<lambda>c. c \<noteq> 0) (lg_tokenKey s))"
  obtains s1 where "logon_step E (Received (p @ of_nat (length t) # t)) s = Inr s1" "lg_status s1 = STATUS_AUTHED" "lg_K s1 = K"
proof -
  let ?rest = "of_nat (length t) # t" and ?st = "mb_storage (lg_readBuffer s)"
  let ?b = "holding (p @ ?rest) ?st"
  let ?sk = "s\<lparr>lg_reading := False, lg_readBuffer := ?b, lg_status := STATUS_CLOSED, lg_K := K\<rparr>"
  have p: "length p = 75" using assms(5) by (simp add: proof_for_def)
  have n: "unat (take 76 (p @ ?rest) ! 75) = length t"
    using p assms(7) by (simp add: nth_append unat_of_nat)
  have "76 + length t \<le> length (p @ ?rest)" "76 \<le> length (p @ ?rest)" using p by simp_all
  then have r: "struct_at 76 ?b = Some (take 76 (p @ ?rest))" "struct_at (76 + length t) ?b = Some (p @ ?rest)"
    using struct_at_holding[of 76 "p @ ?rest" ?st] struct_at_holding[of "76 + length t" "p @ ?rest" ?st] p by simp_all
  have "drop 76 (p @ ?rest) = t" using p by simp
  then have "check_token E (p ! 74) ?sk = Inr (True, ?sk\<lparr>lg_readBuffer := ReadCompleted (length ?rest) ?b, lg_tokenKey := []\<rparr>)"
    using check_token_read[of ?sk "take 76 (p @ ?rest)" "length t" "p @ ?rest" E "p ! 74"] r n assms(6,8) by simp
  moreover have "length ?rest \<le> 256" using assms(7) by simp
  ultimately show thesis using proof_accepted[OF assms(1-5), of ?rest] that by blast
qed

text \<open>The proof alone: the token is read from bytes that were never received, and the read pointer is moved behind them.\<close>

lemma token_after_proof:
  assumes "documented_ssl (le_ssl E)" and "idle s" and "lg_status s = STATUS_LOGON_PROOF" and "lg_expversion s \<noteq> NO_VALID_EXP_FLAG"
    and "proof_for E s p A M K" and "lg_tokenKey s \<noteq> []"
    and "GenerateToken (le_ssl E) (le_time E) (takeWhile (\<lambda>c. c \<noteq> 0) (lg_tokenKey s)) \<noteq> 0"
    and "mb_storage (lg_readBuffer s) ! 75 = 0" and "mb_storage (lg_readBuffer s) ! 76 = 0"
  obtains s1 w where "logon_step E (Received p) s = Inr s1" "lg_closed s1" "lg_status s1 = STATUS_CLOSED"
    "lg_writeQueue s1 = lg_writeQueue s @ [w]" "mb_data w = proof_refused"
proof -
  let ?st = "mb_storage (lg_readBuffer s)"
  let ?b = "holding p ?st"
  let ?s0 = "s\<lparr>lg_reading := False, lg_readBuffer := ?b\<rparr>" and ?sk = "s\<lparr>lg_reading := False, lg_readBuffer := ?b, lg_status := STATUS_CLOSED, lg_K := K\<rparr>"
  have p: "length p = 75" "take 1 p = [AUTH_LOGON_PROOF]" using assms(5) by (simp_all add: proof_for_def)
  then have nonempty: "p \<noteq> []" by auto
  have st: "4096 \<le> length ?st" using assms(2) by (simp add: idle_def)
  have mem: "mb_storage ?b = p @ drop 75 ?st" using p by (simp add: holding_def)
  have struct: "struct_at 75 ?b = Some p" "struct_at 1 ?b = Some [AUTH_LOGON_PROOF]"
    using struct_at_holding[of 75 p ?st] struct_at_holding[of 1 p ?st] p by simp_all
  define q where "q = p @ take 1 (drop 75 ?st)"
  have q: "struct_at 76 ?b = Some q" "q ! 75 = 0" "drop 76 q = []"
    using st p assms(8) by (simp_all add: struct_at_def read_at_def holding_def q_def nth_append)
  define st2 where "st2 = ?sk\<lparr>lg_readBuffer := ReadCompleted 1 ?b, lg_tokenKey := []\<rparr>"
  have "atoi_u32 [] = 0" by (simp add: atoi_u32_def digits_val_def)
  then have "check_token E (p ! 74) ?sk = Inr (False, st2)"
    using check_token_read[of ?sk q 0 q E "p ! 74"] q assms(6,7) by (simp add: st2_def)
  then have h: "HandleLogonProof E ?s0 = refuse_proof E (\<lambda>s. s) st2"
    using HandleLogonProof_right[of E ?s0 p A M K] assms(4,5) struct(1) by simp
  have "\<not> lg_closed st2" "length proof_refused \<le> 4096" "proof_refused \<noteq> []"
    using assms(2) by (simp_all add: st2_def idle_def proof_refused_def)
  then obtain w where w: "lg_SendPacket proof_refused st2 = Inr (st2\<lparr>lg_writeQueue := lg_writeQueue st2 @ [w]\<rparr>)" "mb_data w = proof_refused"
    using lg_SendPacket_data by blast
  define s2 where "s2 = st2\<lparr>lg_writeQueue := lg_writeQueue s @ [w], lg_readBuffer := ReadCompleted 75 (lg_readBuffer st2)\<rparr>"
  have "call_handler E AUTH_LOGON_PROOF ?s0 = Inr (True, st2\<lparr>lg_writeQueue := lg_writeQueue s @ [w]\<rparr>)"
    using h w(1) by (simp add: call_handler_def refuse_proof_def st2_def)
  then have round1: "logon_round E ?s0 = Inr (LS_Continue, s2)"
    using struct(2) assms(3) p(1) by (simp add: logon_round_def logon_handler_def finish_command_def s2_def)
  have rpos: "mb_rpos (lg_readBuffer s2) = 76" "mb_wpos (lg_readBuffer s2) = 75" "mb_storage (lg_readBuffer s2) = p @ drop 75 ?st"
    using p(1) by (simp_all add: s2_def st2_def ReadCompleted_def holding_def)
  then have active: "active_size (lg_readBuffer s2) \<noteq> 0" by (simp add: active_size_def)
  have "struct_at 1 (lg_readBuffer s2) = Some [0]"
    using rpos st p(1) assms(9) by (simp add: struct_at_def read_at_def take_Suc_conv_app_nth hd_drop_conv_nth take_Suc)
  then have round2: "logon_round E s2 = Inr (LS_Return, lg_CloseSocket s2)"
    by (simp add: logon_round_def logon_handler_def s2_def st2_def)
  have "logon_loop E 4 ?s0 = Inr (False, lg_CloseSocket s2)"
    using round1 round2 active p(1) by (simp add: eval_nat_numeral)
  moreover have "mb_Write p (lg_readBuffer s) = Some ?b"
    using assms(2) p(1) nonempty by (simp add: mb_Write_def idle_def WriteCompleted_def copy_to_def holding_def)
  ultimately have "logon_step E (Received p) s = Inr (lg_CloseSocket s2)"
    using assms(2) p(1) nonempty by (auto simp: lg_ReadHandlerInternal_def lg_ReadHandler_def idle_def GetRemainingSpace_def)
  then show thesis using that[of "lg_CloseSocket s2" w] w(2) by (simp add: lg_CloseSocket_def s2_def st2_def)
qed

text \<open>Property C37: the packet of the proof does not have to come with its token, but the server takes it so: the same proof and
  the right token let the client in when they arrive together, and lock it out when the proof arrives alone
  first. The bytes behind the proof in the buffer, zeros, are then read as a token without digits; the answer is
  that the account is unknown, the loop goes on behind the end of the data, and the connection is closed.\<close>

theorem token_must_come_with_the_proof:
  assumes "documented_ssl (le_ssl E)" and "idle s" and "lg_status s = STATUS_LOGON_PROOF" and "lg_expversion s \<noteq> NO_VALID_EXP_FLAG"
    and "proof_for E s p A M K" and "lg_tokenKey s \<noteq> []" and "length t \<le> 255"
    and "atoi_u32 t = GenerateToken (le_ssl E) (le_time E) (takeWhile (\<lambda>c. c \<noteq> 0) (lg_tokenKey s))" and "atoi_u32 t \<noteq> 0"
    and "mb_storage (lg_readBuffer s) ! 75 = 0" and "mb_storage (lg_readBuffer s) ! 76 = 0"
  shows "(\<exists>s1. logon_step E (Received (p @ of_nat (length t) # t)) s = Inr s1 \<and> lg_status s1 = STATUS_AUTHED \<and> lg_K s1 = K)
    \<and> (\<exists>s1 w. logon_step E (Received p) s = Inr s1 \<and> lg_closed s1 \<and> lg_status s1 = STATUS_CLOSED
         \<and> lg_writeQueue s1 = lg_writeQueue s @ [w] \<and> mb_data w = proof_refused)"
  using token_with_proof[OF assms(1-8)] token_after_proof[OF assms(1-6) _ assms(10,11)] assms(8,9) by metis

text \<open>A session that waits for the proof and the token of \<open>A\<close>, in the first half minute of 1970.\<close>

definition token_session :: LogonSession where
  "token_session =
     (let v = 7 ^ password_x sample_ssl 77 (replicate 20 0xAB) mod srp_N
      in (listening sample_logon_env [])\<lparr>lg_status := STATUS_LOGON_PROOF, lg_accountInfo := LoadResult sample_logon_env sample_row,
           lg_tokenKey := ascii ''A'', lg_expversion := POST_BC_EXP_FLAG, lg_s := 77, lg_v := v, lg_b := 5,
           lg_B := (v * 3 + 7 ^ 5 mod srp_N) mod srp_N\<rparr>)"

lemma token_session_ready: "numbers_ready sample_logon_env (replicate 20 0xAB) token_session"
proof -
  have "lg_N (mk_LogonSession sample_logon_env) = srp_N" "lg_g (mk_LogonSession sample_logon_env) = 7"
    using new_session_N[OF sample_logon_env_documented] by simp_all
  then show ?thesis
    unfolding numbers_ready_def token_session_def Let_def listening_def by (simp add: sample_name)
qed

lemma sample_token: "GenerateToken sample_ssl 0 (ascii ''A'') = 595078" "atoi_u32 (ascii ''595078'') = 595078"
proof -
  have d: "snd (base32_decode [65] (replicate 5 0) 5) = replicate 5 0" by code_simp
  have h: "HMAC_sha1 sample_ssl (replicate 5 0) (totp_challenge 0) = map of_nat [0..<20]"
    by (simp add: sample_ssl_def checksum_def totp_challenge_def sum_list_replicate eval_nat_numeral)
  show "GenerateToken sample_ssl 0 (ascii ''A'') = 595078"
    by (simp add: GenerateToken_def Let_def ascii_def d h)
  have "map (\<lambda>c. char_of (unat c)) (takeWhile (\<lambda>c. c \<noteq> 0) (ascii ''595078'')) = ''595078''" by code_simp
  then show "atoi_u32 (ascii ''595078'') = 595078"
    by (simp add: atoi_u32_def Let_def digits_val_def isdigit_def isspace_def digit_val_def)
qed

theorem token_must_come_with_the_proof_witness:
  "\<exists>p. (\<exists>s1. logon_step sample_logon_env (Received (p @ 6 # ascii ''595078'')) token_session = Inr s1 \<and> lg_status s1 = STATUS_AUTHED)
    \<and> (\<exists>s1. logon_step sample_logon_env (Received p) token_session = Inr s1 \<and> lg_closed s1)"
proof -
  let ?E = sample_logon_env and ?s = token_session and ?pw = "replicate 20 0xAB :: u8 list"
  let ?a = "challenge_answer sample_ssl WOW_SUCCESS 9 ?s"
  note d = sample_ssl_documented
  have r: "lg_N ?s = srp_N" "lg_g ?s = 7" "lg_s ?s < 256 ^ 32" "lg_B ?s = (lg_v ?s * 3 + 7 ^ lg_b ?s mod srp_N) mod srp_N"
    using token_session_ready by (simp_all add: numbers_ready_def)
  have "lg_B ?s < srp_N" unfolding r(4) by (rule mod_less_divisor[OF srp_N_size(1)])
  then have B: "lg_B ?s < 256 ^ 32" using srp_N_size(2) by (rule less_trans)
  have "lg_N ?s < 256 ^ 32" "lg_g ?s < 256" using r(1,2) srp_N_size(2) by simp_all
  note a = answer_parts[OF d B r(3) this, of WOW_SUCCESS 9]
  note p = client_proof_for(1)[OF sample_logon_env_documented token_session_ready a(1), unfolded sample_name(2), OF a(2)]
  have idle: "idle ?s" using listening_idle(1)[of ?E "[]"] by (simp add: token_session_def Let_def idle_def)
  have st: "lg_status ?s = STATUS_LOGON_PROOF" "lg_expversion ?s \<noteq> NO_VALID_EXP_FLAG" "lg_tokenKey ?s \<noteq> []"
    "takeWhile (\<lambda>c. c \<noteq> 0) (lg_tokenKey ?s) = ascii ''A''"
    by (simp_all add: token_session_def Let_def ascii_def)
  have mem: "mb_storage (lg_readBuffer ?s) ! 75 = 0" "mb_storage (lg_readBuffer ?s) ! 76 = 0"
    by (simp_all add: token_session_def Let_def listening_def mk_LogonSession_def mb_Resize_def mk_MessageBuffer_def vector_resize_def)
  have t: "length (ascii ''595078'') \<le> 255" "atoi_u32 (ascii ''595078'') \<noteq> 0"
    "atoi_u32 (ascii ''595078'') = GenerateToken (le_ssl ?E) (le_time ?E) (takeWhile (\<lambda>c. c \<noteq> 0) (lg_tokenKey ?s))"
    unfolding st(4) sample_name(2) sample_token(2) by (simp_all add: ascii_def sample_logon_env_def sample_token(1)[unfolded ascii_def, simplified])
  have "of_nat (length (ascii ''595078'')) = (6 :: u8)" by (simp add: ascii_def)
  then show ?thesis
    using token_must_come_with_the_proof[OF sample_logon_env_documented idle st(1,2) p[of 3] st(3) t(1,3,2) mem] by metis
qed

section \<open>The list of realms\<close>

text \<open>A packet that is longer than a message buffer is written over its end.\<close>

lemma long_packet_leaves_its_buffer:
  "lg_IsOpen s \<Longrightarrow> length packet > 4096 \<Longrightarrow> lg_SendPacket packet s = Inl OutsideBuffer"
  by (auto simp: lg_SendPacket_def mb_Write_def mk_MessageBuffer_def)

lemma length_realm_list: "length (realm_list_packet s n entries) \<ge> length entries + 11"
  by (simp add: realm_list_packet_def Let_def)

text \<open>The list of realms is copied into a buffer of 4096 bytes whatever its length is: when the entries of the realms
  the client is shown need more than 4085 bytes, memory behind the buffer is written.\<close>

theorem long_realm_list_overflows:
  assumes "lg_IsOpen s" and "realm_entries E s (character_counts rows) realms = Inr (n, entries)" and "length entries > 4085"
  shows "RealmListCallback E realms rows s = Inl OutsideBuffer"
proof -
  have "length (realm_list_packet s n entries) > 4096" using length_realm_list[of entries s n] assms(3) by linarith
  from long_packet_leaves_its_buffer[OF assms(1) this] show ?thesis using assms(2) by (simp add: RealmListCallback_def)
qed

lemma realm_entries_replicate:
  assumes "realm_flags s r = Some flag" and "GetAddressForClient E r = Inr address"
  shows "realm_entries E s counts (replicate k r)
    = Inr (k, concat (replicate k (concat (map wire (realm_fields s counts flag address r)))))"
  by (induction k) (simp_all add: assms)

theorem long_realm_list_overflows_witness:
  "RealmListCallback sample_logon_env (replicate 400 sample_realm) [] (mk_LogonSession sample_logon_env) = Inl OutsideBuffer"
proof -
  let ?E = sample_logon_env and ?s = "mk_LogonSession sample_logon_env"
  have address: "GetAddressForClient ?E sample_realm = Inr (ascii ''10.0.0.2:8085'')"
    by (simp add: GetAddressForClient_def realm_ip_def sample_logon_env_def sample_realm_def)
  have "GetBuildInfo (sint (rm_Build sample_realm)) \<noteq> None"
    by (simp add: GetBuildInfo_def sample_realm_def PostBcAcceptedClientBuilds_def build_info_def)
  then obtain flag where flag: "realm_flags ?s sample_realm = Some flag" by (auto simp: realm_flags_def Let_def)
  define one where "one = concat (map wire (realm_fields ?s (character_counts []) flag (ascii ''10.0.0.2:8085'') sample_realm))"
  have "11 \<le> length one" by (simp add: one_def realm_fields_def Let_def ascii_def)
  moreover have "length (concat (replicate 400 one)) = 400 * length one" by (simp add: length_concat sum_list_replicate)
  ultimately have "length (concat (replicate 400 one)) > 4085" by linarith
  moreover have "lg_IsOpen ?s" by (simp add: lg_IsOpen_def mk_LogonSession_def)
  ultimately show ?thesis
    using long_realm_list_overflows[OF _ realm_entries_replicate[OF flag address]] unfolding one_def by blast
qed

text \<open>The oldest clients: realms of their own builds are shown as offline, and realms of the newest as they are.\<close>

lemma oldest_clients_see_the_wrong_realms:
  assumes "lg_expversion s = PRE_BC_EXP_FLAG"
  shows "IsPreBCAcceptedClientBuild (sint (rm_Build r)) \<Longrightarrow>
      realm_flags s r = Some (rm_Flags r OR REALM_FLAG_OFFLINE OR REALM_FLAG_SPECIFYBUILD)"
    and "IsPostBCAcceptedClientBuild (sint (rm_Build r)) \<Longrightarrow> realm_flags s r = Some (rm_Flags r)"
proof -
  have known: "GetBuildInfo (sint (rm_Build r)) \<noteq> None" if "IsAcceptedClientBuild (sint (rm_Build r))"
    using that by (auto simp: GetBuildInfo_def IsAcceptedClientBuild_def IsPreBCAcceptedClientBuild_def IsPostBCAcceptedClientBuild_def
        find_None_iff simp del: not_None_eq split: option.split)
  show "realm_flags s r = Some (rm_Flags r OR REALM_FLAG_OFFLINE OR REALM_FLAG_SPECIFYBUILD)" if "IsPreBCAcceptedClientBuild (sint (rm_Build r))"
    using known that assms by (auto simp: realm_flags_def okBuild_def Let_def IsAcceptedClientBuild_def)
  show "realm_flags s r = Some (rm_Flags r)" if "IsPostBCAcceptedClientBuild (sint (rm_Build r))"
  proof -
    have "\<not> IsPreBCAcceptedClientBuild (sint (rm_Build r))"
      using that by (auto simp: IsPreBCAcceptedClientBuild_def IsPostBCAcceptedClientBuild_def PreBcAcceptedClientBuilds_def
          PostBcAcceptedClientBuilds_def build_info_def)
    then show ?thesis using known that assms by (auto simp: realm_flags_def okBuild_def Let_def IsAcceptedClientBuild_def)
  qed
qed

end
