(* ===== verification/WorldAuth.thy ===== *)
theory WorldAuth
  imports WorldSocket
begin

text \<open>
  The login of a connection (\<open>WorldSocket::CheckIpCallback\<close>, \<open>HandleSendAuthSession\<close>,
  \<open>HandleAuthSessionCallback\<close>), the cipher's keys (\<open>AuthCrypt::Init\<close>) and the list of addons the client
  sends along (\<open>WorldSession::ReadAddonsInfo\<close>, \<open>Addons/AddonMgr.cpp\<close>). The hash functions, ARC4 and
  \<open>uncompress\<close> of zlib are parameters.
\<close>

section \<open>Accounts\<close>

text \<open>\<open>ai_SessionKey\<close> is the key as the bytes \<open>BigNumber::AsByteArray\<close> gives.\<close>

record AccountInfo =
  ai_Id :: u32
  ai_SessionKey :: "u8 list"
  ai_LastIP :: "u8 list"
  ai_IsLockedToIP :: bool
  ai_LockCountry :: "u8 list"
  ai_Expansion :: u8
  ai_MuteTime :: u64
  ai_Locale :: u8
  ai_Recruiter :: u32
  ai_OS :: "u8 list"
  ai_IsRectuiter :: bool
  ai_Security :: u8
  ai_IsBanned :: bool

abbreviation "TOTAL_LOCALES \<equiv> (9 :: u8)"
abbreviation "LOCALE_enUS \<equiv> (0 :: u8)"

text \<open>The constructor takes the columns of the account's row and limits two of them.\<close>

definition mk_AccountInfo :: "u32 \<Rightarrow> AccountInfo \<Rightarrow> AccountInfo" where
  "mk_AccountInfo world_expansion row =
     (let a = (if ucast (ai_Expansion row) > world_expansion then row\<lparr>ai_Expansion := ucast world_expansion\<rparr> else row)
      in if ai_Locale a \<ge> TOTAL_LOCALES then a\<lparr>ai_Locale := LOCALE_enUS\<rparr> else a)"

text \<open>What a login reads of the world, and what it does to the database and the hooks of the scripts.\<close>

record 'c auth_env =
  ae_closed :: bool
  ae_realm :: u32
  ae_expansion :: u32
  ae_wardenEnabled :: bool
  ae_address :: "u8 list"
  ae_time :: int
  ae_securityLimit :: u8
  ae_sha1 :: "u8 list \<Rightarrow> u8 list"
  ae_hmac :: "u8 list \<Rightarrow> u8 list \<Rightarrow> u8 list"
  ae_arc4_key :: "u8 list \<Rightarrow> 'c"
  ae_uncompress :: "u8 list \<Rightarrow> nat \<Rightarrow> u8 list option"

datatype auth_effect =
    LOGIN_UPD_LAST_ATTEMPT_IP "u8 list" "u8 list"
  | LOGIN_UPD_MUTE_TIME_LOGIN u64 u32
  | LOGIN_UPD_LAST_IP "u8 list" "u8 list"
  | SetOnline u32
  | CHAR_INS_ADDON "u8 list" u32
  | OnFailedAccountLogin u32
  | OnAccountLogin u32
  | LoadPermissions u32 "u8 list" u32 u8

section \<open>Keys\<close>

definition ServerEncryptionKey :: "u8 list" where
  "ServerEncryptionKey = [0xCC, 0x98, 0xAE, 0x04, 0xE8, 0x97, 0xEA, 0xCA, 0x12, 0xDD, 0xC0, 0x93, 0x42, 0x91, 0x53, 0x57]"

definition ServerDecryptionKey :: "u8 list" where
  "ServerDecryptionKey = [0xC2, 0xB3, 0x72, 0x3C, 0xC6, 0xAE, 0xD9, 0xB5, 0x34, 0x3C, 0x53, 0xEE, 0x2F, 0x43, 0x67, 0xCE]"

text \<open>The first 1024 bytes of both key streams are dropped.\<close>

definition AuthCrypt_Init :: "'c auth_env \<Rightarrow> 'c socket_env \<Rightarrow> u8 list \<Rightarrow> 'c AuthCrypt" where
  "AuthCrypt_Init A E K =
     (let encryptHash = ae_hmac A ServerEncryptionKey K; decryptHash = ae_hmac A ServerDecryptionKey K
      in \<lparr>ac_initialized = True,
          ac_clientDecrypt = snd (se_arc4 E (ae_arc4_key A decryptHash) (replicate 1024 0)),
          ac_serverEncrypt = snd (se_arc4 E (ae_arc4_key A encryptHash) (replicate 1024 0))\<rparr>)"

section \<open>The addresses and the challenge\<close>

abbreviation "SMSG_AUTH_CHALLENGE \<equiv> (0x1EC :: u16)"
abbreviation "AUTH_FAILED \<equiv> (13 :: u8)"
abbreviation "AUTH_REJECT \<equiv> (14 :: u8)"
abbreviation "AUTH_UNAVAILABLE \<equiv> (16 :: u8)"
abbreviation "AUTH_UNKNOWN_ACCOUNT \<equiv> (21 :: u8)"
abbreviation "AUTH_BANNED \<equiv> (28 :: u8)"
abbreviation "REALM_LIST_REALM_NOT_FOUND \<equiv> (39 :: u8)"

definition SendAuthResponseError :: "u8 \<Rightarrow> 'c WorldSocket \<Rightarrow> 'c WorldSocket" where
  "SendAuthResponseError code s = SendPacket SMSG_AUTH_RESPONSE [code] s"

definition reject :: "u8 \<Rightarrow> 'c WorldSocket \<Rightarrow> 'c WorldSocket" where
  "reject code s = DelayedCloseSocket (SendAuthResponseError code s)"

text \<open>The challenge: a 1, the seed, and two random numbers of 16 bytes (\<open>seeds\<close>).\<close>

definition HandleSendAuthSession :: "bool \<Rightarrow> u8 list \<Rightarrow> u8 list \<Rightarrow> 'c WorldSocket \<Rightarrow> buf_error + 'c WorldSocket" where
  "HandleSendAuthSession big seed1 seed2 s =
     (case append_value big (1 :: u32) mk_ByteBuffer of
        Inl e \<Rightarrow> Inl e
      | Inr b1 \<Rightarrow>
          (case append_value big (sk_authSeed s) b1 of
             Inl e \<Rightarrow> Inl e
           | Inr b2 \<Rightarrow>
               (case append_bytes seed1 b2 of
                  Inl e \<Rightarrow> Inl e
                | Inr b3 \<Rightarrow>
                    (case append_bytes seed2 b3 of
                       Inl e \<Rightarrow> Inl e
                     | Inr b4 \<Rightarrow> Inr (SendPacket SMSG_AUTH_CHALLENGE (bb_storage b4) s)))))"

text \<open>The rows of the query for the address: the date until which it is banned, and a country.\<close>

fun ip_rows :: "(u64 \<times> u8 list) list \<Rightarrow> bool \<times> u8 list \<Rightarrow> bool \<times> u8 list" where
  "ip_rows [] x = x"
| "ip_rows ((until, country) # rows) (banned, ipCountry) =
     ip_rows rows (banned \<or> until \<noteq> 0, if country \<noteq> [] then country else ipCountry)"

definition CheckIpCallback :: "bool \<Rightarrow> u8 list \<Rightarrow> u8 list \<Rightarrow> (u64 \<times> u8 list) list \<Rightarrow> 'c WorldSocket \<Rightarrow> buf_error + 'c WorldSocket" where
  "CheckIpCallback big seed1 seed2 rows s =
     (let (banned, country) = ip_rows rows (False, sk_ipCountry s); s1 = s\<lparr>sk_ipCountry := country\<rparr>
      in if banned then Inr (reject AUTH_REJECT s1)
         else HandleSendAuthSession big seed1 seed2 (AsyncRead s1))"

section \<open>Addons\<close>

definition GetAddonInfo :: "u8 list \<Rightarrow> (u8 list \<times> u32) list \<Rightarrow> (u8 list \<times> u32) option" where
  "GetAddonInfo name known = find (\<lambda>a. fst a = name) known"

definition SaveAddon :: "AddonInfo \<Rightarrow> (u8 list \<times> u32) list \<Rightarrow> (u8 list \<times> u32) list \<times> auth_effect" where
  "SaveAddon addon known = (known @ [(ad_Name addon, ad_CRC addon)], CHAR_INS_ADDON (ad_Name addon) (ad_CRC addon))"

record addon_state =
  as_known :: "(u8 list \<times> u32) list"
  as_effects :: "auth_effect list"
  as_list :: "AddonInfo list"

definition read_addon :: "bool \<Rightarrow> ByteBuffer \<Rightarrow> buf_error + (AddonInfo \<times> ByteBuffer)" where
  "read_addon big b =
     (case read_string b of (name, b1) \<Rightarrow>
        (case read_value big b1 of
           Inl e \<Rightarrow> Inl e
         | Inr (enabled, b2) \<Rightarrow>
             (case read_value big b2 of
                Inl e \<Rightarrow> Inl e
              | Inr (crc, b3) \<Rightarrow>
                  (case read_value big b3 of
                     Inl e \<Rightarrow> Inl e
                   | Inr (unk1 :: u32, b4) \<Rightarrow>
                       Inr (\<lparr>ad_Name = name, ad_Enabled = enabled, ad_CRC = crc, ad_State = 2, ad_UsePublicKeyOrCRC = True\<rparr>, b4)))))"

definition add_addon :: "AddonInfo \<Rightarrow> addon_state \<Rightarrow> addon_state" where
  "add_addon addon st =
     (let st1 = (case GetAddonInfo (ad_Name addon) (as_known st) of
                   Some saved \<Rightarrow> st
                 | None \<Rightarrow> (case SaveAddon addon (as_known st) of
                              (known, eff) \<Rightarrow> st\<lparr>as_known := known, as_effects := as_effects st @ [eff]\<rparr>))
      in st1\<lparr>as_list := as_list st1 @ [addon]\<rparr>)"

text \<open>The loop is left at the end of the data. Then the function returns (\<open>None\<close> for the buffer).\<close>

fun addon_loop :: "bool \<Rightarrow> nat \<Rightarrow> ByteBuffer \<Rightarrow> addon_state \<Rightarrow> buf_error + (ByteBuffer option \<times> addon_state)" where
  "addon_loop big 0 b st = Inr (Some b, st)"
| "addon_loop big (Suc n) b st =
     (if bb_rpos b + 1 > length (bb_storage b) then Inr (None, st)
      else (case read_addon big b of
              Inl e \<Rightarrow> Inl e
            | Inr (addon, b1) \<Rightarrow> addon_loop big n b1 (add_addon addon st)))"

definition ReadAddonsInfo :: "'c auth_env \<Rightarrow> bool \<Rightarrow> ByteBuffer \<Rightarrow> addon_state \<Rightarrow> buf_error + addon_state" where
  "ReadAddonsInfo A big dat st =
     (if bb_rpos dat + 4 > length (bb_storage dat) then Inr st
      else (case read_value big dat of
              Inl e \<Rightarrow> Inl e
            | Inr (sz :: u32, dat1) \<Rightarrow>
                if sz = 0 then Inr st
                else if sz > 0xFFFFF then Inr st
                else
                  let addonInfo = bb_resize (unat sz) mk_ByteBuffer
                  in (case ae_uncompress A (drop (bb_rpos dat1) (bb_storage dat1)) (unat sz) of
                        None \<Rightarrow> Inr st
                      | Some out \<Rightarrow>
                          (case read_value big (addonInfo\<lparr>bb_storage := copy_to 0 out (bb_storage addonInfo)\<rparr>) of
                             Inl e \<Rightarrow> Inl e
                           | Inr (addonsCount :: u32, b) \<Rightarrow>
                               (case addon_loop big (unat addonsCount) b st of
                                  Inl e \<Rightarrow> Inl e
                                | Inr (None, st1) \<Rightarrow> Inr st1
                                | Inr (Some b1, st1) \<Rightarrow>
                                    (case read_value big b1 of
                                       Inl e \<Rightarrow> Inl e
                                     | Inr (currentTime :: u32, b2) \<Rightarrow> Inr st1))))))"

section \<open>The answer of the account query\<close>

text \<open>The bytes the client's digest is made of: the name, four zeros, both challenges as they are in memory, the key.\<close>

definition proof_bytes :: "bool \<Rightarrow> AuthSession \<Rightarrow> u32 \<Rightarrow> AccountInfo \<Rightarrow> u8 list" where
  "proof_bytes big auth seed account =
     as_Account auth @ memory big (0 :: u32) @ memory big (as_LocalChallenge auth) @ memory big seed @ ai_SessionKey account"

definition wrong_place :: "'c auth_env \<Rightarrow> u8 list \<Rightarrow> AccountInfo \<Rightarrow> bool" where
  "wrong_place A ipCountry account \<longleftrightarrow>
     (if ai_IsLockedToIP account then ai_LastIP account \<noteq> ae_address A
      else if ai_LockCountry account \<noteq> [] \<and> ai_LockCountry account \<noteq> [0x30, 0x30] \<and> ipCountry \<noteq> []
      then ai_LockCountry account \<noteq> ipCountry else False)"

text \<open>Times of muting are signed 64 bit numbers; a negative one counts from this login on.\<close>

definition mute_time :: "'c auth_env \<Rightarrow> AccountInfo \<Rightarrow> u64 \<times> auth_effect list" where
  "mute_time A account =
     (if sint (ai_MuteTime account) < 0
      then let t = of_int (ae_time A) - ai_MuteTime account in (t, [LOGIN_UPD_MUTE_TIME_LOGIN t (ai_Id account)])
      else (ai_MuteTime account, []))"

definition new_WorldSession :: "'c socket_env \<Rightarrow> AccountInfo \<Rightarrow> u8 list \<Rightarrow> u64 \<Rightarrow> WorldSession \<times> auth_effect list" where
  "new_WorldSession E account name mutetime =
     (ResetTimeOutTime E False
        \<lparr>ss_accountId = ai_Id account, ss_accountName = name, ss_security = ai_Security account,
         ss_expansion = ai_Expansion account, ss_muteTime = mutetime, ss_locale = ai_Locale account,
         ss_recruiter = ai_Recruiter account, ss_isRecruiter = ai_IsRectuiter account, ss_addons = [],
         ss_warden = False, ss_inWorld = False, ss_timeOutTime = 0, ss_latency = 0, ss_clientTimeDelay = 0,
         ss_skipOverspeed = False, ss_recvQueue = []\<rparr>,
      [SetOnline (ai_Id account)])"

abbreviation "os_Win \<equiv> [0x57, 0x69, 0x6E] :: u8 list"
abbreviation "os_OSX \<equiv> [0x4F, 0x53, 0x58] :: u8 list"

type_synonym 'c login_result = "buf_error + ('c WorldSocket \<times> auth_effect list \<times> (u8 list \<times> u32) list)"

text \<open>The part behind the checks. An exception of the addon list leaves the callback, and nobody catches it.\<close>

definition enter_world :: "'c auth_env \<Rightarrow> 'c socket_env \<Rightarrow> AuthSession \<Rightarrow> AccountInfo \<Rightarrow> u64 \<Rightarrow> auth_effect list
    \<Rightarrow> (u8 list \<times> u32) list \<Rightarrow> 'c WorldSocket \<Rightarrow> 'c login_result" where
  "enter_world A E auth account mutetime effs known s =
     (let effs1 = effs @ [LOGIN_UPD_LAST_IP (ae_address A) (as_Account auth), OnAccountLogin (ai_Id account)];
          (session, online) = new_WorldSession E account (as_Account auth) mutetime
      in case ReadAddonsInfo A (se_big E) (as_AddonInfo auth) \<lparr>as_known = known, as_effects = effs1 @ online, as_list = ss_addons session\<rparr> of
           Inl e \<Rightarrow> Inl e
         | Inr st \<Rightarrow>
             (let session1 = session\<lparr>ss_addons := as_list st\<rparr>;
                  session2 = (if ae_wardenEnabled A \<and> ai_OS account = os_Win then session1\<lparr>ss_warden := True\<rparr> else session1);
                  permissions = LoadPermissions (ai_Id account) (as_Account auth) (ae_realm A) (ai_Security account)
              in Inr (AsyncRead (s\<lparr>sk_authed := True, sk_worldSession := Some session2\<rparr>),
                      as_effects st @ [permissions], as_known st)))"

definition HandleAuthSessionCallback :: "'c auth_env \<Rightarrow> 'c socket_env \<Rightarrow> AuthSession \<Rightarrow> AccountInfo option
    \<Rightarrow> (u8 list \<times> u32) list \<Rightarrow> 'c WorldSocket \<Rightarrow> 'c login_result" where
  "HandleAuthSessionCallback A E auth result known s0 =
     (case result of
        None \<Rightarrow> Inr (reject AUTH_UNKNOWN_ACCOUNT s0, [], known)
      | Some row \<Rightarrow>
          (let account = mk_AccountInfo (ae_expansion A) row;
               effs = [LOGIN_UPD_LAST_ATTEMPT_IP (ae_address A) (as_Account auth)];
               failed = OnFailedAccountLogin (ai_Id account);
               s = s0\<lparr>sk_authCrypt := AuthCrypt_Init A E (ai_SessionKey account)\<rparr>
           in if ae_closed A then Inr (reject AUTH_REJECT s, effs, known)
              else if as_RealmID auth \<noteq> ae_realm A then Inr (reject REALM_LIST_REALM_NOT_FOUND s, effs, known)
              else if ae_wardenEnabled A \<and> ai_OS account \<noteq> os_Win \<and> ai_OS account \<noteq> os_OSX
              then Inr (reject AUTH_REJECT s, effs, known)
              else if ae_sha1 A (proof_bytes (se_big E) auth (sk_authSeed s) account) \<noteq> as_Digest auth
              then Inr (reject AUTH_FAILED s, effs, known)
              else if wrong_place A (sk_ipCountry s) account then Inr (reject AUTH_FAILED s, effs @ [failed], known)
              else
                (case mute_time A account of (mutetime, mute) \<Rightarrow>
                   if ai_IsBanned account then Inr (reject AUTH_BANNED s, effs @ mute @ [failed], known)
                   else if ae_securityLimit A > 0 \<and> ai_Security account < ae_securityLimit A
                   then Inr (reject AUTH_UNAVAILABLE s, effs @ mute @ [failed], known)
                   else enter_world A E auth account mutetime (effs @ mute) known s)))"

section \<open>Who gets in\<close>

text \<open>The rules of the login, without the order of the checks.\<close>

definition may_enter :: "'c auth_env \<Rightarrow> 'c socket_env \<Rightarrow> AuthSession \<Rightarrow> 'c WorldSocket \<Rightarrow> AccountInfo \<Rightarrow> bool" where
  "may_enter A E auth s row \<longleftrightarrow>
     \<not> ae_closed A \<and> as_RealmID auth = ae_realm A
     \<and> (ae_wardenEnabled A \<longrightarrow> ai_OS row \<in> {os_Win, os_OSX})
     \<and> ae_sha1 A (proof_bytes (se_big E) auth (sk_authSeed s) row) = as_Digest auth
     \<and> (if ai_IsLockedToIP row then ai_LastIP row = ae_address A
        else ai_LockCountry row \<in> {[], [0x30, 0x30], sk_ipCountry s} \<or> sk_ipCountry s = [])
     \<and> \<not> ai_IsBanned row \<and> ae_securityLimit A \<le> ai_Security row"

lemma mk_AccountInfo_simps [simp]:
  "ai_Id (mk_AccountInfo x row) = ai_Id row" "ai_SessionKey (mk_AccountInfo x row) = ai_SessionKey row"
  "ai_LastIP (mk_AccountInfo x row) = ai_LastIP row" "ai_IsLockedToIP (mk_AccountInfo x row) = ai_IsLockedToIP row"
  "ai_LockCountry (mk_AccountInfo x row) = ai_LockCountry row" "ai_MuteTime (mk_AccountInfo x row) = ai_MuteTime row"
  "ai_OS (mk_AccountInfo x row) = ai_OS row" "ai_Security (mk_AccountInfo x row) = ai_Security row"
  "ai_IsBanned (mk_AccountInfo x row) = ai_IsBanned row"
  by (simp_all add: mk_AccountInfo_def Let_def)

lemma mk_AccountInfo_expansion: "ucast (ai_Expansion (mk_AccountInfo x row)) \<le> x"
proof (cases "ucast (ai_Expansion row) > x")
  case True
  have small: "unat (ai_Expansion row) < 2 ^ LENGTH(8)" by (rule unsigned_less)
  then have "unat (ucast (ai_Expansion row) :: u32) < 256"
    by (simp add: unsigned_ucast_eq take_bit_nat_eq_self)
  then have "unat x < 256" using True by (simp add: word_less_nat_alt)
  then have "unat (ucast (ucast x :: u8) :: u32) = unat x"
    by (simp add: unsigned_ucast_eq unsigned_take_bit_eq take_bit_nat_eq_self)
  then have "ucast (ucast x :: u8) = x" by (rule unsigned_word_eqI)
  then show ?thesis using True by (simp add: mk_AccountInfo_def Let_def)
qed (simp add: mk_AccountInfo_def Let_def)

lemma proof_bytes_mk [simp]: "proof_bytes big auth seed (mk_AccountInfo x row) = proof_bytes big auth seed row"
  by (simp add: proof_bytes_def)

text \<open>The conditions of the code, in the order of the code, together.\<close>

lemma may_enter_checks:
  "may_enter A E auth s row \<longleftrightarrow>
     \<not> ae_closed A \<and> as_RealmID auth = ae_realm A \<and> \<not> (ae_wardenEnabled A \<and> ai_OS row \<noteq> os_Win \<and> ai_OS row \<noteq> os_OSX)
     \<and> ae_sha1 A (proof_bytes (se_big E) auth (sk_authSeed s) row) = as_Digest auth
     \<and> \<not> wrong_place A (sk_ipCountry s) row \<and> \<not> ai_IsBanned row
     \<and> \<not> (ae_securityLimit A > 0 \<and> ai_Security row < ae_securityLimit A)"
proof -
  have "ae_securityLimit A \<le> ai_Security row \<longleftrightarrow> \<not> (ae_securityLimit A > 0 \<and> ai_Security row < ae_securityLimit A)"
    by (auto simp: not_less word_gt_0)
  then show ?thesis by (auto simp: may_enter_def wrong_place_def)
qed

lemma wrong_place_mk [simp]: "wrong_place A c (mk_AccountInfo x row) = wrong_place A c row"
  by (simp add: wrong_place_def)

lemma mute_time_hooks: "mute_time A account = (t, mute) \<Longrightarrow> OnAccountLogin i \<notin> set mute"
  by (auto simp: mute_time_def Let_def split: if_splits)

lemma callback_decides:
  assumes "may_enter A E auth s row"
  obtains mutetime mute where "HandleAuthSessionCallback A E auth (Some row) known s =
    enter_world A E auth (mk_AccountInfo (ae_expansion A) row) mutetime
      (LOGIN_UPD_LAST_ATTEMPT_IP (ae_address A) (as_Account auth) # mute) known
      (s\<lparr>sk_authCrypt := AuthCrypt_Init A E (ai_SessionKey row)\<rparr>)"
proof -
  obtain t mute where m: "mute_time A (mk_AccountInfo (ae_expansion A) row) = (t, mute)" by fastforce
  have "HandleAuthSessionCallback A E auth (Some row) known s =
    enter_world A E auth (mk_AccountInfo (ae_expansion A) row) t
      (LOGIN_UPD_LAST_ATTEMPT_IP (ae_address A) (as_Account auth) # mute) known
      (s\<lparr>sk_authCrypt := AuthCrypt_Init A E (ai_SessionKey row)\<rparr>)"
    using assms by (auto simp: HandleAuthSessionCallback_def Let_def may_enter_checks m)
  then show thesis by (rule that)
qed

lemma callback_rejects:
  fixes s :: "'a WorldSocket"
  assumes "\<not> may_enter A E auth s row"
  obtains code effs where "HandleAuthSessionCallback A E auth (Some row) known s =
    Inr (reject code (s\<lparr>sk_authCrypt := AuthCrypt_Init A E (ai_SessionKey row)\<rparr>), effs, known)"
    "\<forall>i. OnAccountLogin i \<notin> set effs"
proof -
  let ?s = "s\<lparr>sk_authCrypt := AuthCrypt_Init A E (ai_SessionKey row)\<rparr>"
  obtain t mute where m: "mute_time A (mk_AccountInfo (ae_expansion A) row) = (t, mute)" by fastforce
  define Q where "Q r \<longleftrightarrow> (\<exists>code effs. r = Inr (reject code ?s, effs, known) \<and> (\<forall>i. OnAccountLogin i \<notin> set effs))" for r :: "'a login_result"
  have rejected: "Q (Inr (reject code ?s, effs, known))" if "\<forall>i. OnAccountLogin i \<notin> set effs" for code effs
    unfolding Q_def using that by blast
  have "Q (HandleAuthSessionCallback A E auth (Some row) known s)"
    using assms mute_time_hooks[OF m] unfolding may_enter_checks
    by (simp add: HandleAuthSessionCallback_def Let_def m rejected) blast
  then show thesis unfolding Q_def using that by blast
qed

text \<open>Effects stay: addons only add to the database log, and never a login hook.\<close>

lemma addon_loop_effects:
  "addon_loop big n b st = Inr (b', st') \<Longrightarrow> \<exists>more. as_effects st' = as_effects st @ more \<and> (\<forall>i. OnAccountLogin i \<notin> set more)"
proof (induction n arbitrary: b st)
  case (Suc n)
  have one: "\<exists>more. as_effects (add_addon a st) = as_effects st @ more \<and> (\<forall>i. OnAccountLogin i \<notin> set more)" for a
    by (auto simp: add_addon_def SaveAddon_def Let_def split: option.split)
  show ?case
  proof (cases "bb_rpos b + 1 > length (bb_storage b)")
    case False
    then obtain a b1 where "addon_loop big n b1 (add_addon a st) = Inr (b', st')"
      using Suc.prems by (auto split: sum.splits)
    from Suc.IH[OF this] one[of a] show ?thesis by auto
  qed (use Suc.prems in simp)
qed simp

lemma ReadAddonsInfo_effects:
  assumes "ReadAddonsInfo A big dat st = Inr st'"
  obtains extra where "as_effects st' = as_effects st @ extra" "\<forall>i. OnAccountLogin i \<notin> set extra"
proof -
  have "st' = st \<or> (\<exists>n b b'. addon_loop big n b st = Inr (b', st'))"
    using assms by (auto simp: ReadAddonsInfo_def Let_def split: if_splits sum.splits option.splits prod.splits)
  then show thesis using that[of "[]"] addon_loop_effects that by fastforce
qed

lemma enter_world_result:
  assumes "enter_world A E auth account t effs known s = Inr (s1, effs1, known1)"
  shows "sk_authed s1" and "\<exists>ss. sk_worldSession s1 = Some ss \<and> ss_accountId ss = ai_Id account \<and> ss_accountName ss = as_Account auth
      \<and> ss_security ss = ai_Security account \<and> ss_expansion ss = ai_Expansion account \<and> ss_recvQueue ss = []"
    and "sk_bufferQueue s1 = sk_bufferQueue s" and "sk_reading s1 \<longleftrightarrow> IsOpen s \<or> sk_reading s" and "IsOpen s1 = IsOpen s"
    and "OnAccountLogin (ai_Id account) \<in> set effs1"
proof -
  obtain session online where n: "new_WorldSession E account (as_Account auth) t = (session, online)" by fastforce
  obtain st where st: "ReadAddonsInfo A (se_big E) (as_AddonInfo auth)
      \<lparr>as_known = known, as_effects = (effs @ [LOGIN_UPD_LAST_IP (ae_address A) (as_Account auth), OnAccountLogin (ai_Id account)]) @ online,
       as_list = ss_addons session\<rparr> = Inr st"
    using assms n by (auto simp: enter_world_def Let_def split: sum.splits)
  obtain extra where "as_effects st = (effs @ [LOGIN_UPD_LAST_IP (ae_address A) (as_Account auth), OnAccountLogin (ai_Id account)]) @ online @ extra"
    using ReadAddonsInfo_effects[OF st] by auto
  then show "OnAccountLogin (ai_Id account) \<in> set effs1"
    using assms n st by (auto simp: enter_world_def Let_def)
  define s2 where "s2 = (if ae_wardenEnabled A \<and> ai_OS account = os_Win then session\<lparr>ss_addons := as_list st, ss_warden := True\<rparr>
    else session\<lparr>ss_addons := as_list st\<rparr>)"
  have r: "s1 = AsyncRead (s\<lparr>sk_authed := True, sk_worldSession := Some s2\<rparr>)"
    using assms st by (simp add: enter_world_def Let_def n s2_def)
  show "sk_authed s1" "sk_bufferQueue s1 = sk_bufferQueue s" "sk_reading s1 \<longleftrightarrow> IsOpen s \<or> sk_reading s" "IsOpen s1 = IsOpen s"
    by (simp_all add: r AsyncRead_def IsOpen_def)
  have "ss_accountId s2 = ai_Id account" "ss_accountName s2 = as_Account auth" "ss_security s2 = ai_Security account"
    "ss_expansion s2 = ai_Expansion account" "ss_recvQueue s2 = []"
    using n by (auto simp: s2_def new_WorldSession_def ResetTimeOutTime_def)
  moreover have "sk_worldSession s1 = Some s2" by (simp add: r AsyncRead_def)
  ultimately show "\<exists>ss. sk_worldSession s1 = Some ss \<and> ss_accountId ss = ai_Id account \<and> ss_accountName ss = as_Account auth
      \<and> ss_security ss = ai_Security account \<and> ss_expansion ss = ai_Expansion account \<and> ss_recvQueue ss = []" by simp
qed

lemma reject_result:
  assumes "IsOpen s"
  shows "sk_authed (reject code s) = sk_authed s" and "sk_worldSession (reject code s) = sk_worldSession s"
    and "sk_closing (reject code s)" and "sk_reading (reject code s) = sk_reading s"
    and "sk_bufferQueue (reject code s) = sk_bufferQueue s @ [(SMSG_AUTH_RESPONSE, [code], ac_initialized (sk_authCrypt s))]"
  using assms by (simp_all add: reject_def SendAuthResponseError_def SendPacket_def DelayedCloseSocket_def IsOpen_def)

text \<open>Property C9: when the callback of the account query returns, the client has a session exactly when the account exists
  and passes all rules of the login: world open, right realm, an operating system Warden knows (when it is
  on), the digest over both challenges and the session key, address or country lock, no ban, security level.
  Then the session is that of the account in the packet, with an expansion the world allows, and the socket
  reads on. Otherwise there is no session, the answer is one error code, encrypted exactly when the account
  exists, and the socket is to close once it is sent.\<close>

theorem login_decides:
  assumes "HandleAuthSessionCallback A E auth result known s = Inr (s1, effs, known1)"
    and "IsOpen s" and "\<not> sk_authed s" and "\<not> ac_initialized (sk_authCrypt s)"
  shows "if \<exists>row. result = Some row \<and> may_enter A E auth s row
    then sk_authed s1 \<and> sk_reading s1 \<and> IsOpen s1 \<and> sk_bufferQueue s1 = sk_bufferQueue s
      \<and> OnAccountLogin (ai_Id (the result)) \<in> set effs
      \<and> (\<exists>ss. sk_worldSession s1 = Some ss \<and> ss_accountId ss = ai_Id (the result) \<and> ss_accountName ss = as_Account auth
           \<and> ss_security ss = ai_Security (the result) \<and> ucast (ss_expansion ss) \<le> ae_expansion A)
    else \<not> sk_authed s1 \<and> sk_worldSession s1 = sk_worldSession s \<and> sk_closing s1 \<and> (\<forall>i. OnAccountLogin i \<notin> set effs)
      \<and> (\<exists>code. sk_bufferQueue s1 = sk_bufferQueue s @ [(SMSG_AUTH_RESPONSE, [code], result \<noteq> None)])"
proof (cases result)
  case None
  then have "s1 = reject AUTH_UNKNOWN_ACCOUNT s" "effs = []"
    using assms(1) by (simp_all add: HandleAuthSessionCallback_def)
  then show ?thesis using None reject_result[OF assms(2)] assms(3,4) by simp
next
  case (Some row)
  let ?s = "s\<lparr>sk_authCrypt := AuthCrypt_Init A E (ai_SessionKey row)\<rparr>"
  have s: "IsOpen ?s" "sk_authed ?s = sk_authed s" "ac_initialized (sk_authCrypt ?s)"
    using assms(2) by (simp_all add: IsOpen_def AuthCrypt_Init_def Let_def)
  show ?thesis
  proof (cases "may_enter A E auth s row")
    case True
    obtain t mute where "enter_world A E auth (mk_AccountInfo (ae_expansion A) row) t
        (LOGIN_UPD_LAST_ATTEMPT_IP (ae_address A) (as_Account auth) # mute) known ?s = Inr (s1, effs, known1)"
      using callback_decides[OF True, of known] assms(1) Some by metis
    note r = enter_world_result[OF this]
    show ?thesis using Some True r s mk_AccountInfo_expansion[of "ae_expansion A" row] by auto
  next
    case False
    obtain code where "s1 = reject code ?s" "\<forall>i. OnAccountLogin i \<notin> set effs"
      using callback_rejects[OF False, of known] assms(1) Some by auto
    then show ?thesis using Some False reject_result[OF s(1), of code] s assms(3) by auto
  qed
qed

text \<open>Property C26: a client that passes the login ends the server with its addon list: when the list says that it has 1, 2 or 3
  bytes, and what is compressed behind that comes out, reading the number of addons runs over the end, and
  no caller of the query callback catches the exception.\<close>

theorem short_addons_end_the_server:
  assumes "may_enter A E auth s row"
    and "bb_rpos (as_AddonInfo auth) = 0" and "bb_storage (as_AddonInfo auth) = le_bytes 4 sz @ z"
    and "0 < sz" and "sz < (4 :: u32)" and "ae_uncompress A z (unat sz) = Some out" and "length out \<le> unat sz"
  shows "HandleAuthSessionCallback A E auth (Some row) known s = Inl ByteBufferPositionException"
proof -
  let ?dat = "as_AddonInfo auth" and ?dat1 = "(as_AddonInfo auth)\<lparr>bb_rpos := 4\<rparr>"
  have size: "read_value (se_big E) ?dat = Inr (sz, ?dat1)"
    using read_value_bytes[where 'a = 32, of ?dat sz z "se_big E"] assms(2,3) by (simp add: unread_def del: le_bytes.simps)
  have sz: "sz \<noteq> 0" "\<not> sz > 0xFFFFF" "unat sz < 4"
    using assms(4,5) by (auto simp: word_less_nat_alt)
  let ?addons = "(bb_resize (unat sz) mk_ByteBuffer)\<lparr>bb_storage := copy_to 0 out (bb_storage (bb_resize (unat sz) mk_ByteBuffer))\<rparr>"
  have "length (bb_storage ?addons) < 4" "bb_rpos ?addons = 0"
    using sz(3) assms(7) by (simp_all add: copy_to_def bb_resize_def)
  then have count: "(read_value (se_big E) ?addons :: buf_error + (u32 \<times> ByteBuffer)) = Inl ByteBufferPositionException"
    by (simp add: read_value_def read_bytes_def)
  have "ReadAddonsInfo A (se_big E) ?dat st = Inl ByteBufferPositionException" for st
    using assms(2,3,6) size sz count by (simp add: ReadAddonsInfo_def Let_def del: le_bytes.simps)
  then have "enter_world A E auth account t effs known s0 = Inl ByteBufferPositionException" for account t effs s0
    by (simp add: enter_world_def Let_def split: prod.split)
  then show ?thesis using callback_decides[OF assms(1), of known] by metis
qed

subsection \<open>An account\<close>

definition login_env :: "unit auth_env" where
  "login_env = \<lparr>ae_closed = False, ae_realm = 1, ae_expansion = 2, ae_wardenEnabled = True, ae_address = [49], ae_time = 1000,
     ae_securityLimit = 0, ae_sha1 = (\<lambda>bs. replicate 20 0), ae_hmac = (\<lambda>k bs. bs), ae_arc4_key = (\<lambda>k. ()),
     ae_uncompress = (\<lambda>bs n. if length bs \<le> n then Some bs else None)\<rparr>"

definition login_socket_env :: "unit socket_env" where
  "login_socket_env = \<lparr>se_big = False, se_arc4 = (\<lambda>c bs. (bs, c)), se_now = 0, se_maxOverspeedPings = 0,
     se_gameTime = 0, se_timeout = 0, se_timeoutActive = 0, se_hasHandler = (\<lambda>opc. False)\<rparr>"

definition login_account :: AccountInfo where
  "login_account = \<lparr>ai_Id = 5, ai_SessionKey = [1, 2], ai_LastIP = [49], ai_IsLockedToIP = True, ai_LockCountry = [],
     ai_Expansion = 9, ai_MuteTime = 0, ai_Locale = 0, ai_Recruiter = 0, ai_OS = os_Win, ai_IsRectuiter = False,
     ai_Security = 0, ai_IsBanned = False\<rparr>"

definition login_packet :: "u8 list \<Rightarrow> AuthSession" where
  "login_packet addons = mk_AuthSession\<lparr>as_RealmID := 1, as_Account := [65], as_AddonInfo := mk_ByteBuffer\<lparr>bb_storage := addons\<rparr>\<rparr>"

lemma login_sample:
  "may_enter login_env login_socket_env (login_packet addons) (mk_WorldSocket () 7) login_account"
  "IsOpen (mk_WorldSocket () 7)" "\<not> sk_authed (mk_WorldSocket () 7)" "\<not> ac_initialized (sk_authCrypt (mk_WorldSocket () 7))"
  by (simp_all add: may_enter_def login_env_def login_socket_env_def login_packet_def login_account_def mk_WorldSocket_def
      mk_AuthSession_def IsOpen_def mk_AuthCrypt_def)

theorem short_addons_end_the_server_witness:
  "HandleAuthSessionCallback login_env login_socket_env (login_packet [1, 0, 0, 0, 7]) (Some login_account) [] (mk_WorldSocket () 7)
    = Inl ByteBufferPositionException"
proof -
  have "le_bytes 4 (1 :: u32) = [1, 0, 0, 0]" by code_simp
  then show ?thesis
    using short_addons_end_the_server[OF login_sample(1), of "[1, 0, 0, 0, 7]" 1 "[7]" "[7]" "[]"]
    by (simp add: login_packet_def login_env_def mk_ByteBuffer_def)
qed

theorem login_decides_witness:
  "\<exists>s1 effs. HandleAuthSessionCallback login_env login_socket_env (login_packet []) (Some login_account) [] (mk_WorldSocket () 7)
      = Inr (s1, effs, []) \<and> sk_authed s1 \<and> OnAccountLogin 5 \<in> set effs"
proof -
  obtain s1 effs where r: "HandleAuthSessionCallback login_env login_socket_env (login_packet []) (Some login_account) [] (mk_WorldSocket () 7)
      = Inr (s1, effs, [])"
  proof -
    obtain t mute where "HandleAuthSessionCallback login_env login_socket_env (login_packet []) (Some login_account) [] (mk_WorldSocket () 7)
      = enter_world login_env login_socket_env (login_packet []) (mk_AccountInfo (ae_expansion login_env) login_account) t
          (LOGIN_UPD_LAST_ATTEMPT_IP (ae_address login_env) (as_Account (login_packet [])) # mute) []
          ((mk_WorldSocket () 7)\<lparr>sk_authCrypt := AuthCrypt_Init login_env login_socket_env (ai_SessionKey login_account)\<rparr>)"
      using callback_decides[OF login_sample(1)] by blast
    then show thesis
      using that by (simp add: enter_world_def Let_def ReadAddonsInfo_def login_packet_def mk_ByteBuffer_def split: prod.splits)
  qed
  show ?thesis
    using login_decides[OF r login_sample(2-4)] login_sample(1)[of "[]"] r by (auto simp: login_account_def)
qed

end
