(* ===== verification/LogonWorld.thy ===== *)
theory LogonWorld
  imports LogonErrors WorldAuth
begin

text \<open>
  From the realm server to the world server: the session key of a login is stored as text in the account's row
  (\<open>AuthSession::HandleLogonProof\<close>), read by the world server (\<open>AccountInfo\<close> in \<open>WorldSocket.cpp\<close>), and checked
  against the digest the client makes of its own key (\<open>WorldSocket::HandleAuthSessionCallback\<close>).
\<close>

text \<open>The key column of the account's row; the digests and the cipher use the number's bytes.\<close>

definition with_SessionKey :: "openssl \<Rightarrow> u8 list \<Rightarrow> AccountInfo \<Rightarrow> AccountInfo" where
  "with_SessionKey S sessionkey row = row\<lparr>ai_SessionKey := number_bytes S (SetHexStr S sessionkey 0)\<rparr>"

text \<open>The digest a client that has the key \<open>K\<close> puts into its packet.\<close>

definition client_digest :: "openssl \<Rightarrow> bool \<Rightarrow> AuthSession \<Rightarrow> u32 \<Rightarrow> nat \<Rightarrow> u8 list" where
  "client_digest S big auth seed K =
     SHA1 S (as_Account auth @ memory big (0 :: u32) @ memory big (as_LocalChallenge auth) @ memory big seed @ number_bytes S K)"

text \<open>The rules of the world server that do not depend on the key.\<close>

definition other_rules :: "'c auth_env \<Rightarrow> AuthSession \<Rightarrow> 'c WorldSocket \<Rightarrow> AccountInfo \<Rightarrow> bool" where
  "other_rules A auth s row \<longleftrightarrow>
     \<not> ae_closed A \<and> as_RealmID auth = ae_realm A \<and> (ae_wardenEnabled A \<longrightarrow> ai_OS row \<in> {os_Win, os_OSX})
     \<and> \<not> wrong_place A (sk_ipCountry s) row \<and> \<not> ai_IsBanned row \<and> ae_securityLimit A \<le> ai_Security row"

text \<open>The callback goes past all its checks, to the creation of the session, with a cipher made of \<open>K\<close>.\<close>

definition enters_with :: "openssl \<Rightarrow> 'c auth_env \<Rightarrow> 'c socket_env \<Rightarrow> nat \<Rightarrow> (u8 list \<times> u32) list \<Rightarrow> AuthSession \<Rightarrow> 'c WorldSocket \<Rightarrow> AccountInfo \<Rightarrow> bool" where
  "enters_with S A W K known auth s row \<longleftrightarrow>
     (\<exists>mutetime effs. HandleAuthSessionCallback A W auth (Some row) known s
        = enter_world A W auth (mk_AccountInfo (ae_expansion A) row) mutetime effs known
            (s\<lparr>sk_authCrypt := AuthCrypt_Init A W (number_bytes S K)\<rparr>))"

lemma key_read_back:
  "documented_ssl S \<Longrightarrow> ai_SessionKey (with_SessionKey S (AsHexStr S K) row) = number_bytes S K"
  by (simp add: with_SessionKey_def hex_roundtrip)

lemma digest_passes:
  assumes "documented_ssl S" and "ae_sha1 A = SHA1 S" and "other_rules A auth s row"
    and "as_Digest auth = client_digest S (se_big W) auth (sk_authSeed s) K"
  shows "may_enter A W auth s (with_SessionKey S (AsHexStr S K) row)"
proof -
  have same: "wrong_place A (sk_ipCountry s) (with_SessionKey S (AsHexStr S K) row) = wrong_place A (sk_ipCountry s) row"
    by (simp add: wrong_place_def with_SessionKey_def)
  have "proof_bytes (se_big W) auth (sk_authSeed s) (with_SessionKey S (AsHexStr S K) row)
    = as_Account auth @ memory (se_big W) (0 :: u32) @ memory (se_big W) (as_LocalChallenge auth) @ memory (se_big W) (sk_authSeed s) @ number_bytes S K"
    by (simp add: proof_bytes_def key_read_back[OF assms(1)])
  then show ?thesis
    using assms(2-4) same unfolding may_enter_checks
    by (auto simp: other_rules_def client_digest_def with_SessionKey_def not_less)
qed

text \<open>Property C15: a login carries over to the world server: the key the client and the realm server have agreed on is stored
  as text in the account's row, and when the world server reads that row, the digest the client makes of its
  own key passes the check, so that nothing but the other rules of the login can keep the client out, and the
  cipher of the connection is set up with the bytes of the client's key.\<close>

theorem login_carries_over:
  assumes "documented_ssl (le_ssl E)" and "\<not> le_big E" and "lg_ip_rows rows (False, []) = (False, country)"
    and "length between = 29" and "length login \<le> 17" and "IsAcceptedClientBuild (uint (client_build between))"
    and "row_ok E country pw row" and "rs < 256 ^ 32" and "ae_sha1 A = SHA1 (le_ssl E)"
  shows "\<exists>s answer s1 sessionkey locale os.
    logon_run E [IpAnswer rows, Received (client_challenge between login), ChallengeAnswer login (Some row) rs rb ru]
        (lg_Start (mk_LogonSession E)) = Inr s
    \<and> map mb_data (lg_writeQueue s) = [answer]
    \<and> logon_step E (Received (client_proof (le_ssl E) (la_Login (LoadResult E row)) pw a answer)) s = Inr s1
    \<and> LOGIN_UPD_LOGONPROOF sessionkey (le_address E) locale os (la_Login (LoadResult E row)) \<in> set (lg_effects s1)
    \<and> (\<forall>auth sk wrow. other_rules A auth sk wrow
          \<and> as_Digest auth = client_digest (le_ssl E) (se_big W) auth (sk_authSeed sk) (client_K (le_ssl E) pw a answer)
        \<longrightarrow> enters_with (le_ssl E) A W (client_K (le_ssl E) pw a answer) known auth sk (with_SessionKey (le_ssl E) sessionkey wrow))"
proof -
  let ?S = "le_ssl E"
  obtain s answer s1 where s:
    "logon_run E [IpAnswer rows, Received (client_challenge between login), ChallengeAnswer login (Some row) rs rb ru]
       (lg_Start (mk_LogonSession E)) = Inr s" "map mb_data (lg_writeQueue s) = [answer]"
    "logon_step E (Received (client_proof ?S (la_Login (LoadResult E row)) pw a answer)) s = Inr s1"
    "\<exists>locale os. LOGIN_UPD_LOGONPROOF (AsHexStr ?S (client_K ?S pw a answer)) (le_address E) locale os (la_Login (LoadResult E row)) \<in> set (lg_effects s1)"
    using login_exchange[OF assms(1-8), of rb ru a] by metis
  let ?K = "client_K ?S pw a answer"
  have enters: "enters_with ?S A W ?K known auth sk (with_SessionKey ?S (AsHexStr ?S ?K) wrow)"
    if "other_rules A auth sk wrow" "as_Digest auth = client_digest ?S (se_big W) auth (sk_authSeed sk) ?K" for auth wrow sk
    using callback_decides[OF digest_passes[OF assms(1,9) that], of known] unfolding key_read_back[OF assms(1)] enters_with_def by metis
  then have every: "\<forall>auth sk wrow. other_rules A auth sk wrow \<and> as_Digest auth = client_digest ?S (se_big W) auth (sk_authSeed sk) ?K
      \<longrightarrow> enters_with ?S A W ?K known auth sk (with_SessionKey ?S (AsHexStr ?S ?K) wrow)" by blast
  obtain lc os where stored: "LOGIN_UPD_LOGONPROOF (AsHexStr ?S ?K) (le_address E) lc os (la_Login (LoadResult E row)) \<in> set (lg_effects s1)"
    using s(4) by blast
  show ?thesis
    by (rule exI[of _ s], rule exI[of _ answer], rule exI[of _ s1], rule exI[of _ "AsHexStr ?S ?K"], rule exI[of _ lc], rule exI[of _ os])
      (intro conjI s(1-3) stored every)
qed

theorem login_carries_over_witness:
  "\<exists>answer sessionkey. \<forall>auth sk wrow. other_rules (login_env\<lparr>ae_sha1 := SHA1 sample_ssl\<rparr>) auth sk wrow
      \<and> as_Digest auth = client_digest sample_ssl False auth (sk_authSeed sk) (client_K sample_ssl (replicate 20 0xAB) 3 answer)
    \<longrightarrow> enters_with sample_ssl (login_env\<lparr>ae_sha1 := SHA1 sample_ssl\<rparr>) login_socket_env (client_K sample_ssl (replicate 20 0xAB) 3 answer) []
          auth sk (with_SessionKey sample_ssl sessionkey wrow)"
proof -
  let ?A = "login_env\<lparr>ae_sha1 := SHA1 sample_ssl\<rparr>"
  have w: "(77 :: nat) < 256 ^ 32" "ae_sha1 ?A = SHA1 (le_ssl sample_logon_env)" "\<not> se_big login_socket_env"
    by (simp_all add: sample_name(2)) (simp add: login_socket_env_def)
  from login_carries_over[OF sample_logon_env_documented sample_login(5,6,1-4) w(1,2), of 5 9 3 login_socket_env "[]"]
  show ?thesis using w(3) unfolding sample_name by auto
qed

end
