(* ===== verification/GroupLoot.thy ===== *)
theory GroupLoot
  imports StdContainers
begin

text \<open>
  Rolls for loot (\<open>Groups/Group.h\<close>, the loot system of \<open>Group.cpp\<close>): a roll is opened for each item worth it, the
  members near the looted object vote, and the highest number wins, need before greed. Who is connected, near,
  allowed to loot and able to carry the item, and the numbers drawn, are parameters.
\<close>

section \<open>Loot and rolls\<close>

record LootItem =
  li_itemid :: u32
  li_randomSuffix :: u32
  li_randomPropertyId :: u32
  li_count :: u8
  li_rollWinnerGUID :: guid
  li_is_looted :: bool
  li_is_blocked :: bool
  li_freeforall :: bool
  li_is_underthreshold :: bool
  li_follow_loot_rules :: bool

record Loot =
  lo_items :: "LootItem list"
  lo_quest_items :: "LootItem list"
  lo_unlootedCount :: u8

datatype RollVote = PASS | NEED | GREED | DISENCHANT | NOT_EMITED_YET | NOT_VALID

text \<open>The votes have the numbers of the types of a roll.\<close>

fun vote_number :: "RollVote \<Rightarrow> u8" where
  "vote_number PASS = 0"
| "vote_number NEED = 1"
| "vote_number GREED = 2"
| "vote_number DISENCHANT = 3"
| "vote_number NOT_EMITED_YET = 4"
| "vote_number NOT_VALID = 5"

abbreviation "ROLL_PASS \<equiv> (0 :: u8)"
abbreviation "ROLL_NEED \<equiv> (1 :: u8)"
abbreviation "ROLL_GREED \<equiv> (2 :: u8)"
abbreviation "ROLL_DISENCHANT \<equiv> (3 :: u8)"
abbreviation "MAX_ROLL_TYPE \<equiv> (4 :: u8)"
abbreviation "ROLL_FLAG_TYPE_NEED \<equiv> (0x02 :: u8)"
abbreviation "ROLL_FLAG_TYPE_DISENCHANT \<equiv> (0x08 :: u8)"
abbreviation "ROLL_ALL_TYPE_NO_DISENCHANT \<equiv> (0x07 :: u8)"

text \<open>\<open>ro_loot\<close> is the loot the roll is linked to, a place in \<open>rs_loots\<close>; clearing the loot cuts the link.\<close>

record Roll =
  ro_itemGUID :: guid
  ro_itemid :: u32
  ro_itemRandomPropId :: u32
  ro_itemRandomSuffix :: u32
  ro_itemCount :: u8
  ro_loot :: "nat option"
  ro_playerVote :: "(guid \<times> RollVote) list"
  ro_totalPlayersRolling :: u8
  ro_totalNeed :: u8
  ro_totalGreed :: u8
  ro_totalPass :: u8
  ro_itemSlot :: u8
  ro_rollVoteMask :: u8

record loot_template =
  lt_Quality :: u32
  lt_DisenchantID :: u32
  lt_RequiredDisenchantSkill :: u32
  lt_onlyGreed :: bool

text \<open>A message names its receiver, then the fields of the packet in order (the byte that is always 0 at the end of \<open>SMSG_LOOT_ROLL\<close> left out).
  \<open>AutoStoreLoot\<close> and \<open>SendItemRetrievalMail\<close> name the disenchanting template whose loot is stored or mailed.\<close>

datatype loot_msg =
    SMSG_LOOT_START_ROLL guid guid u32 u32 u32 u32 u32 u32 u32 u8
  | SMSG_LOOT_ROLL guid guid u32 guid u32 u32 u32 u8 u8
  | SMSG_LOOT_ROLL_WON guid guid u32 u32 u32 u32 guid u8 u8
  | SMSG_LOOT_ALL_PASSED guid guid u32 u32 u32 u32
  | SMSG_LOOT_MASTER_LIST guid u8 "guid list"
  | NotifyItemRemoved u8
  | StoreNewItem guid u32
  | SendEquipError guid u8
  | AutoStoreLoot guid u32
  | SendItemRetrievalMail guid u32
  | UpdateAchievementCriteria guid u8 u32 u32

text \<open>
  The world around a roll. \<open>le_draw\<close> and \<open>le_canStore\<close> take the item's guid first, because several rolls may end
  one after the other: they are the number a player draws and the answer of his inventory at the end of that roll.
  A map is a number; the null pointer is \<open>None\<close>.
\<close>

record loot_env =
  le_connected :: "guid \<Rightarrow> bool"
  le_inWorld :: "guid \<Rightarrow> bool"
  le_session :: "guid \<Rightarrow> bool"
  le_FindMap :: "guid \<Rightarrow> nat option"
  le_near :: "guid \<Rightarrow> bool"
  le_AllowedForPlayer :: "LootItem \<Rightarrow> guid \<Rightarrow> bool"
  le_PassOnGroupLoot :: "guid \<Rightarrow> bool"
  le_mapId :: u32
  le_template :: "u32 \<Rightarrow> loot_template option"
  le_canRollInLFG :: "guid \<Rightarrow> u32 \<Rightarrow> bool"
  le_canStore :: "guid \<Rightarrow> guid \<Rightarrow> u8"
  le_draw :: "guid \<Rightarrow> guid \<Rightarrow> u8"

abbreviation "EQUIP_ERR_OK \<equiv> (0 :: u8)"

record roll_state =
  rs_rolls :: "Roll list"
  rs_loots :: "nat \<Rightarrow> Loot option"
  rs_out :: "loot_msg list"

text \<open>What a roll can run into: an item behind the end of the loot, or an item without a template.\<close>

datatype loot_error = OutsideLoot | NullTemplate

definition FindPlayer :: "loot_env \<Rightarrow> guid \<Rightarrow> bool" where
  "FindPlayer E g \<longleftrightarrow> le_connected E g \<and> le_inWorld E g"

definition has_session :: "loot_env \<Rightarrow> guid \<Rightarrow> bool" where
  "has_session E g \<longleftrightarrow> le_connected E g \<and> le_session E g"

definition getLoot :: "(nat \<Rightarrow> Loot option) \<Rightarrow> Roll \<Rightarrow> Loot option" where
  "getLoot loots r = (case ro_loot r of None \<Rightarrow> None | Some a \<Rightarrow> loots a)"

definition isValid :: "(nat \<Rightarrow> Loot option) \<Rightarrow> Roll \<Rightarrow> bool" where
  "isValid loots r \<longleftrightarrow> getLoot loots r \<noteq> None"

text \<open>
  \<open>Loot::clear\<close>, which the destructor calls too, takes the items out and cuts the links of the rolls: an empty place stands
  for a loot that is cleared or not there.
\<close>

definition Loot_clear :: "nat \<Rightarrow> roll_state \<Rightarrow> roll_state" where
  "Loot_clear a st =
     st\<lparr>rs_loots := (rs_loots st)(a := None),
        rs_rolls := map (\<lambda>r. if ro_loot r = Some a then r\<lparr>ro_loot := None\<rparr> else r) (rs_rolls st)\<rparr>"

definition isRollLootActive :: "roll_state \<Rightarrow> bool" where
  "isRollLootActive st \<longleftrightarrow> rs_rolls st \<noteq> []"

text \<open>The item in a slot: quest items are counted behind the others.\<close>

definition slot_item :: "Loot \<Rightarrow> u8 \<Rightarrow> LootItem option" where
  "slot_item l slot =
     (let i = unat slot; n = length (lo_items l)
      in if i \<ge> n then (if i - n < length (lo_quest_items l) then Some (lo_quest_items l ! (i - n)) else None)
         else Some (lo_items l ! i))"

definition upd_slot :: "u8 \<Rightarrow> (LootItem \<Rightarrow> LootItem) \<Rightarrow> Loot \<Rightarrow> Loot" where
  "upd_slot slot f l =
     (let i = unat slot; n = length (lo_items l)
      in if i \<ge> n then l\<lparr>lo_quest_items := (lo_quest_items l)[i - n := f (lo_quest_items l ! (i - n))]\<rparr>
         else l\<lparr>lo_items := (lo_items l)[i := f (lo_items l ! i)]\<rparr>)"

section \<open>Messages\<close>

text \<open>Players of the roll with a session whose vote fits.\<close>

definition roll_receivers :: "loot_env \<Rightarrow> (RollVote \<Rightarrow> bool) \<Rightarrow> Roll \<Rightarrow> guid list" where
  "roll_receivers E P r = map fst (filter (\<lambda>(g, v). has_session E g \<and> P v) (ro_playerVote r))"

definition start_packet :: "loot_env \<Rightarrow> guid \<Rightarrow> u8 \<Rightarrow> Roll \<Rightarrow> loot_msg" where
  "start_packet E g voteMask r =
     SMSG_LOOT_START_ROLL g (ro_itemGUID r) (le_mapId E) (ucast (ro_itemSlot r)) (ro_itemid r) (ro_itemRandomSuffix r) (ro_itemRandomPropId r)
       (ucast (ro_itemCount r)) 60000 voteMask"

definition SendLootStartRoll :: "loot_env \<Rightarrow> Roll \<Rightarrow> loot_msg list" where
  "SendLootStartRoll E r =
     map (\<lambda>g. start_packet E g (ro_rollVoteMask r) r) (roll_receivers E (\<lambda>v. v = NOT_EMITED_YET) r)"

definition SendLootStartRollToPlayer :: "loot_env \<Rightarrow> guid \<Rightarrow> bool \<Rightarrow> Roll \<Rightarrow> loot_msg list" where
  "SendLootStartRollToPlayer E g canNeed r =
     (if has_session E g
      then [start_packet E g (if canNeed then ro_rollVoteMask r else ro_rollVoteMask r AND NOT ROLL_FLAG_TYPE_NEED) r]
      else [])"

definition SendLootRoll :: "loot_env \<Rightarrow> guid \<Rightarrow> guid \<Rightarrow> u8 \<Rightarrow> u8 \<Rightarrow> Roll \<Rightarrow> loot_msg list" where
  "SendLootRoll E source target number type r =
     map (\<lambda>g. SMSG_LOOT_ROLL g source (ucast (ro_itemSlot r)) target (ro_itemid r) (ro_itemRandomSuffix r) (ro_itemRandomPropId r) number type)
       (roll_receivers E (\<lambda>v. v \<noteq> NOT_VALID) r)"

definition SendLootRollWon :: "loot_env \<Rightarrow> guid \<Rightarrow> u8 \<Rightarrow> u8 \<Rightarrow> Roll \<Rightarrow> loot_msg list" where
  "SendLootRollWon E target number type r =
     map (\<lambda>g. SMSG_LOOT_ROLL_WON g 0 (ucast (ro_itemSlot r)) (ro_itemid r) (ro_itemRandomSuffix r) (ro_itemRandomPropId r) target number type)
       (roll_receivers E (\<lambda>v. v \<noteq> NOT_VALID) r)"

definition SendLootAllPassed :: "loot_env \<Rightarrow> Roll \<Rightarrow> loot_msg list" where
  "SendLootAllPassed E r =
     map (\<lambda>g. SMSG_LOOT_ALL_PASSED g (ro_itemGUID r) (ucast (ro_itemSlot r)) (ro_itemid r) (ro_itemRandomPropId r) (ro_itemRandomSuffix r))
       (roll_receivers E (\<lambda>v. v \<noteq> NOT_VALID) r)"

section \<open>Opening rolls\<close>

definition mk_Roll :: "guid \<Rightarrow> LootItem \<Rightarrow> Roll" where
  "mk_Roll g li =
     \<lparr>ro_itemGUID = g, ro_itemid = li_itemid li, ro_itemRandomPropId = li_randomPropertyId li, ro_itemRandomSuffix = li_randomSuffix li,
      ro_itemCount = li_count li, ro_loot = None, ro_playerVote = [], ro_totalPlayersRolling = 0, ro_totalNeed = 0, ro_totalGreed = 0,
      ro_totalPass = 0, ro_itemSlot = 0, ro_rollVoteMask = ROLL_ALL_TYPE_NO_DISENCHANT\<rparr>"

text \<open>Members near the object who may loot the item; those who pass on all loot are counted at once, but not for quest items.\<close>

definition add_roller :: "loot_env \<Rightarrow> bool \<Rightarrow> LootItem \<Rightarrow> guid \<Rightarrow> Roll \<Rightarrow> Roll" where
  "add_roller E passing li g r =
     (if has_session E g \<and> le_near E g \<and> le_AllowedForPlayer E li g then
        let r1 = r\<lparr>ro_totalPlayersRolling := ro_totalPlayersRolling r + 1\<rparr>
        in if passing \<and> le_PassOnGroupLoot E g
           then r1\<lparr>ro_playerVote := smap_put g PASS (ro_playerVote r1), ro_totalPass := ro_totalPass r1 + 1\<rparr>
           else r1\<lparr>ro_playerVote := smap_put g NOT_EMITED_YET (ro_playerVote r1)\<rparr>
      else r)"

definition disenchant_mask :: "loot_template \<Rightarrow> u32 \<Rightarrow> Roll \<Rightarrow> Roll" where
  "disenchant_mask T maxEnchantingLevel r =
     (if lt_DisenchantID T \<noteq> 0 \<and> maxEnchantingLevel \<ge> lt_RequiredDisenchantSkill T
      then r\<lparr>ro_rollVoteMask := ro_rollVoteMask r OR ROLL_FLAG_TYPE_DISENCHANT\<rparr> else r)"

definition auto_passes :: "loot_env \<Rightarrow> Roll \<Rightarrow> loot_msg list" where
  "auto_passes E r = concat (map (\<lambda>g. SendLootRoll E (ro_itemGUID r) g 128 ROLL_PASS r) (roll_receivers E (\<lambda>v. v = PASS) r))"

text \<open>\<open>NeedBeforeGreed\<close> asks each player with his own choices, in the order of the votes.\<close>

definition ask_each :: "loot_env \<Rightarrow> Roll \<Rightarrow> loot_msg list" where
  "ask_each E r =
     concat (map (\<lambda>(g, v). if \<not> has_session E g then []
                           else if v = PASS then SendLootRoll E (ro_itemGUID r) g 128 ROLL_PASS r
                           else SendLootStartRollToPlayer E g (le_canRollInLFG E g (ro_itemid r)) r) (ro_playerVote r))"

text \<open>
  \<open>needFirst\<close> is \<open>NeedBeforeGreed\<close>; otherwise this is \<open>GroupLoot\<close>. Plain items come with their template, quest items
  with none: they are never disenchanted. A roll nobody can take part in is not opened.
\<close>

definition open_roll :: "loot_env \<Rightarrow> bool \<Rightarrow> guid list \<Rightarrow> u32 \<Rightarrow> nat \<Rightarrow> guid \<Rightarrow> u8 \<Rightarrow> LootItem \<Rightarrow> loot_template option \<Rightarrow> roll_state \<Rightarrow> roll_state" where
  "open_roll E needFirst members maxEnchantingLevel a newGuid slot li plain st =
     (let r = foldl (\<lambda>r g. add_roller E (plain \<noteq> None) li g r) (mk_Roll newGuid li) members
      in if ro_totalPlayersRolling r > 0 then
           let r1 = r\<lparr>ro_loot := Some a, ro_itemSlot := slot\<rparr>;
               r2 = (case plain of
                       None \<Rightarrow> r1
                     | Some T \<Rightarrow>
                         (let r2 = disenchant_mask T maxEnchantingLevel r1
                          in if needFirst \<and> lt_onlyGreed T then r2\<lparr>ro_rollVoteMask := ro_rollVoteMask r2 AND NOT ROLL_FLAG_TYPE_NEED\<rparr> else r2));
               msgs = (if needFirst then ask_each E r2
                       else (if plain \<noteq> None \<and> ro_totalPass r2 \<noteq> 0 then auto_passes E r2 else []) @ SendLootStartRoll E r2)
           in st\<lparr>rs_loots := (rs_loots st)(a := map_option (upd_slot slot (\<lambda>li. li\<lparr>li_is_blocked := True\<rparr>)) (rs_loots st a)),
                 rs_out := rs_out st @ msgs, rs_rolls := rs_rolls st @ [r2]\<rparr>
         else st)"

text \<open>One item of the loot. \<open>GroupLoot\<close> skips an item without a template, \<open>NeedBeforeGreed\<close> reads through the null pointer.\<close>

definition roll_item :: "loot_env \<Rightarrow> bool \<Rightarrow> guid list \<Rightarrow> u32 \<Rightarrow> u32 \<Rightarrow> nat \<Rightarrow> guid \<Rightarrow> u8 \<Rightarrow> LootItem \<Rightarrow> roll_state \<Rightarrow> loot_error + roll_state" where
  "roll_item E needFirst members maxEnchantingLevel threshold a newGuid slot li st =
     (if li_freeforall li then Inr st
      else (case le_template E (li_itemid li) of
              None \<Rightarrow> if needFirst then Inl NullTemplate else Inr st
            | Some T \<Rightarrow>
                Inr (if lt_Quality T \<ge> threshold then open_roll E needFirst members maxEnchantingLevel a newGuid slot li (Some T) st
                     else st\<lparr>rs_loots := (rs_loots st)(a := map_option (upd_slot slot (\<lambda>li. li\<lparr>li_is_underthreshold := True\<rparr>)) (rs_loots st a))\<rparr>)))"

definition roll_quest_item :: "loot_env \<Rightarrow> bool \<Rightarrow> guid list \<Rightarrow> u32 \<Rightarrow> nat \<Rightarrow> guid \<Rightarrow> u8 \<Rightarrow> LootItem \<Rightarrow> roll_state \<Rightarrow> roll_state" where
  "roll_quest_item E needFirst members maxEnchantingLevel a newGuid slot li st =
     (if \<not> li_follow_loot_rules li \<or> \<not> needFirst \<and> le_template E (li_itemid li) = None then st
      else open_roll E needFirst members maxEnchantingLevel a newGuid slot li None st)"

text \<open>The guids of the rolled items come from a generator: \<open>newGuid slot\<close> is the one made for the item in that slot. A loot that
  is gone has no rolls.\<close>

fun roll_items :: "loot_env \<Rightarrow> bool \<Rightarrow> guid list \<Rightarrow> u32 \<Rightarrow> u32 \<Rightarrow> (u8 \<Rightarrow> guid) \<Rightarrow> nat \<Rightarrow> u8 \<Rightarrow> LootItem list \<Rightarrow> roll_state
    \<Rightarrow> loot_error + (u8 \<times> roll_state)" where
  "roll_items E needFirst members maxEnchantingLevel threshold newGuid a slot [] st = Inr (slot, st)"
| "roll_items E needFirst members maxEnchantingLevel threshold newGuid a slot (li # lis) st =
     (case roll_item E needFirst members maxEnchantingLevel threshold a (newGuid slot) slot li st of
        Inl e \<Rightarrow> Inl e
      | Inr st1 \<Rightarrow> roll_items E needFirst members maxEnchantingLevel threshold newGuid a (slot + 1) lis st1)"

fun roll_quest_items :: "loot_env \<Rightarrow> bool \<Rightarrow> guid list \<Rightarrow> u32 \<Rightarrow> (u8 \<Rightarrow> guid) \<Rightarrow> nat \<Rightarrow> u8 \<Rightarrow> LootItem list \<Rightarrow> roll_state \<Rightarrow> roll_state" where
  "roll_quest_items E needFirst members maxEnchantingLevel newGuid a slot [] st = st"
| "roll_quest_items E needFirst members maxEnchantingLevel newGuid a slot (li # lis) st =
     roll_quest_items E needFirst members maxEnchantingLevel newGuid a (slot + 1) lis
       (roll_quest_item E needFirst members maxEnchantingLevel a (newGuid slot) slot li st)"

definition start_rolls :: "loot_env \<Rightarrow> bool \<Rightarrow> guid list \<Rightarrow> u32 \<Rightarrow> u32 \<Rightarrow> (u8 \<Rightarrow> guid) \<Rightarrow> nat \<Rightarrow> roll_state \<Rightarrow> loot_error + roll_state" where
  "start_rolls E needFirst members maxEnchantingLevel threshold newGuid a st =
     (case rs_loots st a of
        None \<Rightarrow> Inr st
      | Some l \<Rightarrow>
          (case roll_items E needFirst members maxEnchantingLevel threshold newGuid a 0 (lo_items l) st of
             Inl e \<Rightarrow> Inl e
           | Inr (slot, st1) \<Rightarrow> Inr (roll_quest_items E needFirst members maxEnchantingLevel newGuid a slot (lo_quest_items l) st1)))"

definition GroupLoot :: "loot_env \<Rightarrow> guid list \<Rightarrow> u32 \<Rightarrow> u32 \<Rightarrow> (u8 \<Rightarrow> guid) \<Rightarrow> nat \<Rightarrow> roll_state \<Rightarrow> loot_error + roll_state" where
  "GroupLoot E = start_rolls E False"

definition NeedBeforeGreed :: "loot_env \<Rightarrow> guid list \<Rightarrow> u32 \<Rightarrow> u32 \<Rightarrow> (u8 \<Rightarrow> guid) \<Rightarrow> nat \<Rightarrow> roll_state \<Rightarrow> loot_error + roll_state" where
  "NeedBeforeGreed E = start_rolls E True"

section \<open>The end of a roll\<close>

text \<open>The loop over the votes for one kind of roll: the number of such votes left, the highest number, who drew it and how.\<close>

definition absent :: "loot_env \<Rightarrow> nat option \<Rightarrow> guid \<Rightarrow> bool" where
  "absent E allowedMap g \<longleftrightarrow> \<not> FindPlayer E g \<or> (allowedMap \<noteq> None \<and> le_FindMap E g \<noteq> allowedMap)"

fun roll_loop :: "loot_env \<Rightarrow> nat option \<Rightarrow> Roll \<Rightarrow> RollVote set \<Rightarrow> (guid \<times> RollVote) list \<Rightarrow> u8 \<times> u8 \<times> guid \<times> RollVote
    \<Rightarrow> (u8 \<times> u8 \<times> guid \<times> RollVote) \<times> loot_msg list" where
  "roll_loop E allowedMap r wanted [] x = (x, [])"
| "roll_loop E allowedMap r wanted ((g, v) # votes) (left, maxresul, maxguid, rollvote) =
     (if v \<notin> wanted then roll_loop E allowedMap r wanted votes (left, maxresul, maxguid, rollvote)
      else if absent E allowedMap g then roll_loop E allowedMap r wanted votes (left - 1, maxresul, maxguid, rollvote)
      else
        let randomN = le_draw E (ro_itemGUID r) g;
            (x, msgs) = roll_loop E allowedMap r wanted votes
              (if maxresul < randomN then (left, randomN, g, v) else (left, maxresul, maxguid, rollvote))
        in (x, SendLootRoll E 0 g randomN (vote_number v) r @ msgs))"

text \<open>The item for the winner: into his bags, or kept for him in the loot.\<close>

definition looted :: "u8 \<Rightarrow> Loot \<Rightarrow> Loot" where
  "looted slot l = (upd_slot slot (\<lambda>li. li\<lparr>li_is_looted := True\<rparr>) l)\<lparr>lo_unlootedCount := lo_unlootedCount l - 1\<rparr>"

definition give_item :: "loot_env \<Rightarrow> Roll \<Rightarrow> guid \<Rightarrow> Loot \<Rightarrow> Loot \<times> loot_msg list" where
  "give_item E r g l =
     (let msg = le_canStore E (ro_itemGUID r) g
      in if msg = EQUIP_ERR_OK then (looted (ro_itemSlot r) l, [NotifyItemRemoved (ro_itemSlot r), StoreNewItem g (ro_itemid r)])
         else (upd_slot (ro_itemSlot r) (\<lambda>li. li\<lparr>li_is_blocked := False, li_rollWinnerGUID := g\<rparr>) l, [SendEquipError g msg]))"

definition disenchant_item :: "loot_env \<Rightarrow> Roll \<Rightarrow> guid \<Rightarrow> Loot \<Rightarrow> Loot \<times> loot_msg list" where
  "disenchant_item E r g l =
     (let did = (case le_template E (ro_itemid r) of Some T \<Rightarrow> lt_DisenchantID T | None \<Rightarrow> 0)
      in (looted (ro_itemSlot r) l,
          [NotifyItemRemoved (ro_itemSlot r), UpdateAchievementCriteria g 29 13262 0]
          @ (if le_canStore E (ro_itemGUID r) g = EQUIP_ERR_OK then [AutoStoreLoot g did] else [SendItemRetrievalMail g did])))"

text \<open>One of the two halves of \<open>CountTheRoll\<close>: who wins, and the count of votes that stays when somebody wins.\<close>

definition count_kind :: "loot_env \<Rightarrow> nat option \<Rightarrow> Roll \<Rightarrow> RollVote set \<Rightarrow> u8 \<Rightarrow> Loot
    \<Rightarrow> loot_error + (u8 \<times> Loot \<times> loot_msg list)" where
  "count_kind E allowedMap r wanted votes l =
     (if ro_playerVote r = [] then Inr (votes, l, [])
      else
        (case roll_loop E allowedMap r wanted (ro_playerVote r) (votes, 0, 0, NOT_VALID) of
           ((votes1, maxresul, maxguid, rollvote), msgs) \<Rightarrow>
             if maxguid = 0 then Inr (0, l, msgs)
             else
               let won = SendLootRollWon E maxguid maxresul (vote_number rollvote) r
               in if \<not> has_session E maxguid then Inr (votes1, l, msgs @ won)
                  else if slot_item l (ro_itemSlot r) = None then Inl OutsideLoot
                  else if rollvote = DISENCHANT \<and> le_template E (ro_itemid r) = None then Inl NullTemplate
                  else
                    (case (if rollvote = DISENCHANT then disenchant_item E r maxguid l else give_item E r maxguid l) of
                       (l1, given) \<Rightarrow>
                         Inr (votes1, l1, msgs @ won @ [UpdateAchievementCriteria maxguid (if rollvote = NEED then 50 else 51) (ro_itemid r) (ucast maxresul)]
                                          @ given))))"

definition count_half :: "loot_env \<Rightarrow> nat option \<Rightarrow> Roll \<Rightarrow> RollVote set \<Rightarrow> u8 \<Rightarrow> Loot
    \<Rightarrow> loot_error + (u8 \<times> Loot \<times> loot_msg list)" where
  "count_half E allowedMap r wanted votes l = (if votes > 0 then count_kind E allowedMap r wanted votes l else Inr (votes, l, []))"

definition erase_roll :: "nat \<Rightarrow> roll_state \<Rightarrow> roll_state" where
  "erase_roll i st = st\<lparr>rs_rolls := take i (rs_rolls st) @ drop (Suc i) (rs_rolls st)\<rparr>"

definition CountTheRoll :: "loot_env \<Rightarrow> nat \<Rightarrow> nat option \<Rightarrow> roll_state \<Rightarrow> loot_error + roll_state" where
  "CountTheRoll E i allowedMap st =
     (let r = rs_rolls st ! i
      in case getLoot (rs_loots st) r of
           None \<Rightarrow> Inr (erase_roll i st)
         | Some l \<Rightarrow>
             (case count_half E allowedMap r {NEED} (ro_totalNeed r) l of
                Inl e \<Rightarrow> Inl e
              | Inr (need, l1, msgs1) \<Rightarrow>
                  (case (if need = 0 then count_half E allowedMap r {GREED, DISENCHANT} (ro_totalGreed r) l1 else Inr (ro_totalGreed r, l1, [])) of
                     Inl e \<Rightarrow> Inl e
                   | Inr (greed, l2, msgs2) \<Rightarrow>
                       let set_loot = (\<lambda>l msgs. Inr (erase_roll i (st\<lparr>rs_loots := (rs_loots st)(the (ro_loot r) := Some l), rs_out := rs_out st @ msgs\<rparr>)))
                       in if need = 0 \<and> greed = 0 then
                            if slot_item l2 (ro_itemSlot r) = None then Inl OutsideLoot
                            else set_loot (upd_slot (ro_itemSlot r) (\<lambda>li. li\<lparr>li_is_blocked := False\<rparr>) l2) (msgs1 @ msgs2 @ SendLootAllPassed E r)
                          else set_loot l2 (msgs1 @ msgs2))))"

section \<open>Votes\<close>

fun find_roll :: "guid \<Rightarrow> (nat \<Rightarrow> Loot option) \<Rightarrow> nat \<Rightarrow> Roll list \<Rightarrow> nat option" where
  "find_roll g loots i [] = None"
| "find_roll g loots i (r # rs) = (if ro_itemGUID r = g \<and> isValid loots r then Some i else find_roll g loots (Suc i) rs)"

definition GetRoll :: "guid \<Rightarrow> roll_state \<Rightarrow> nat option" where
  "GetRoll g st = find_roll g (rs_loots st) 0 (rs_rolls st)"

definition cast_vote :: "loot_env \<Rightarrow> guid \<Rightarrow> u8 \<Rightarrow> Roll \<Rightarrow> Roll \<times> loot_msg list" where
  "cast_vote E player choice r =
     (if choice = ROLL_PASS then
        (r\<lparr>ro_totalPass := ro_totalPass r + 1, ro_playerVote := smap_put player PASS (ro_playerVote r)\<rparr>, SendLootRoll E 0 player 128 ROLL_PASS r)
      else if choice = ROLL_NEED then
        (r\<lparr>ro_totalNeed := ro_totalNeed r + 1, ro_playerVote := smap_put player NEED (ro_playerVote r)\<rparr>, SendLootRoll E 0 player 0 0 r)
      else if choice = ROLL_GREED then
        (r\<lparr>ro_totalGreed := ro_totalGreed r + 1, ro_playerVote := smap_put player GREED (ro_playerVote r)\<rparr>, SendLootRoll E 0 player 128 ROLL_GREED r)
      else if choice = ROLL_DISENCHANT then
        (r\<lparr>ro_totalGreed := ro_totalGreed r + 1, ro_playerVote := smap_put player DISENCHANT (ro_playerVote r)\<rparr>, SendLootRoll E 0 player 128 ROLL_DISENCHANT r)
      else (r, []))"

text \<open>The totals are added as integers.\<close>

definition all_voted :: "Roll \<Rightarrow> bool" where
  "all_voted r \<longleftrightarrow> unat (ro_totalPass r) + unat (ro_totalNeed r) + unat (ro_totalGreed r) \<ge> unat (ro_totalPlayersRolling r)"

definition CountRollVote :: "loot_env \<Rightarrow> guid \<Rightarrow> guid \<Rightarrow> u8 \<Rightarrow> roll_state \<Rightarrow> loot_error + roll_state" where
  "CountRollVote E player item choice st =
     (case GetRoll item st of
        None \<Rightarrow> Inr st
      | Some i \<Rightarrow>
          (let r = rs_rolls st ! i
           in if smap_find (ro_playerVote r) player = None then Inr st
              else if (case getLoot (rs_loots st) r of Some l \<Rightarrow> lo_items l = [] | None \<Rightarrow> False) then Inr st
              else
                (case cast_vote E player choice r of
                   (r1, msgs) \<Rightarrow>
                     let st1 = st\<lparr>rs_rolls := (rs_rolls st)[i := r1], rs_out := rs_out st @ msgs\<rparr>
                     in if all_voted r1 then CountTheRoll E i None st1 else Inr st1)))"

text \<open>
  The timer of the looted object has expired: all rolls with \<open>getLoot() == pLoot\<close> are counted, each search beginning at the
  first roll again. A roll whose loot was cleared has no loot to compare.
\<close>

definition linked_to :: "(nat \<Rightarrow> Loot option) \<Rightarrow> nat \<Rightarrow> Roll \<Rightarrow> bool" where
  "linked_to loots a r \<longleftrightarrow> isValid loots r \<and> ro_loot r = Some a"

fun find_loot_roll :: "(nat \<Rightarrow> Loot option) \<Rightarrow> nat \<Rightarrow> nat \<Rightarrow> Roll list \<Rightarrow> nat option" where
  "find_loot_roll loots a i [] = None"
| "find_loot_roll loots a i (r # rs) = (if linked_to loots a r then Some i else find_loot_roll loots a (Suc i) rs)"

fun end_rolls :: "loot_env \<Rightarrow> nat \<Rightarrow> nat option \<Rightarrow> nat \<Rightarrow> roll_state \<Rightarrow> loot_error + roll_state" where
  "end_rolls E a allowedMap 0 st = Inr st"
| "end_rolls E a allowedMap (Suc n) st =
     (case find_loot_roll (rs_loots st) a 0 (rs_rolls st) of
        None \<Rightarrow> Inr st
      | Some i \<Rightarrow> (case CountTheRoll E i allowedMap st of Inl e \<Rightarrow> Inl e | Inr st1 \<Rightarrow> end_rolls E a allowedMap n st1))"

text \<open>Each count removes a roll, so that their number bounds the rounds.\<close>

definition EndRoll :: "loot_env \<Rightarrow> nat \<Rightarrow> nat option \<Rightarrow> roll_state \<Rightarrow> loot_error + roll_state" where
  "EndRoll E a allowedMap st = end_rolls E a allowedMap (length (rs_rolls st)) st"

section \<open>A member leaves\<close>

text \<open>His vote is taken out of the totals and out of the votes.\<close>

definition forget_vote :: "guid \<Rightarrow> RollVote \<Rightarrow> Roll \<Rightarrow> Roll" where
  "forget_vote player v r =
     (let r1 = (if v = GREED \<or> v = DISENCHANT then r\<lparr>ro_totalGreed := ro_totalGreed r - 1\<rparr>
                else if v = NEED then r\<lparr>ro_totalNeed := ro_totalNeed r - 1\<rparr>
                else if v = PASS then r\<lparr>ro_totalPass := ro_totalPass r - 1\<rparr> else r);
          r2 = (if v \<noteq> NOT_VALID then r1\<lparr>ro_totalPlayersRolling := ro_totalPlayersRolling r1 - 1\<rparr> else r1)
      in r2\<lparr>ro_playerVote := smap_erase player (ro_playerVote r2)\<rparr>)"

definition leave_roll :: "loot_env \<Rightarrow> guid \<Rightarrow> nat \<Rightarrow> roll_state \<Rightarrow> loot_error + roll_state" where
  "leave_roll E player i st =
     (let r = rs_rolls st ! i
      in case smap_find (ro_playerVote r) player of
           None \<Rightarrow> Inr st
         | Some v \<Rightarrow> CountRollVote E player (ro_itemGUID r) MAX_ROLL_TYPE (st\<lparr>rs_rolls := (rs_rolls st)[i := forget_vote player v r]\<rparr>))"

text \<open>The loop of \<open>RemoveMember\<close>, with an index for the iterator.\<close>

fun leave_loop :: "loot_env \<Rightarrow> guid \<Rightarrow> nat \<Rightarrow> nat \<Rightarrow> roll_state \<Rightarrow> loot_error + roll_state" where
  "leave_loop E player 0 i st = Inr st"
| "leave_loop E player (Suc n) i st =
     (if i < length (rs_rolls st) then
        (case leave_roll E player i st of Inl e \<Rightarrow> Inl e | Inr st1 \<Rightarrow> leave_loop E player n (Suc i) st1)
      else Inr st)"

definition leave_rolls :: "loot_env \<Rightarrow> guid \<Rightarrow> roll_state \<Rightarrow> loot_error + roll_state" where
  "leave_rolls E player st = leave_loop E player (length (rs_rolls st)) 0 st"

section \<open>Master loot\<close>

text \<open>The items under the threshold stay open, the others wait for the master looter, who gets the list of those near.\<close>

definition MasterLoot :: "loot_env \<Rightarrow> guid list \<Rightarrow> Loot \<Rightarrow> Loot \<times> loot_msg list" where
  "MasterLoot E members l =
     (let block = (\<lambda>li. li\<lparr>li_is_blocked := \<not> li_is_underthreshold li\<rparr>);
          list = filter (\<lambda>g. le_inWorld E g \<and> le_near E g) members
      in (l\<lparr>lo_items := map (\<lambda>li. if li_freeforall li then li else block li) (lo_items l),
            lo_quest_items := map (\<lambda>li. if li_follow_loot_rules li then block li else li) (lo_quest_items l)\<rparr>,
          map (\<lambda>g. SMSG_LOOT_MASTER_LIST g (of_nat (length list)) list) (filter (le_near E) members)))"

end
