(* ===== verification/GroupRolls.thy ===== *)
theory GroupRolls
  imports GroupLoot
begin

text \<open>
  What the rolls for loot promise: a reference for the winner of a roll, the result of \<open>CountTheRoll\<close>, and the
  invariant of the counters under votes, leaving members, the timer and new rolls.
\<close>

section \<open>The winner\<close>

text \<open>The votes of some kinds by players who are there, and the number of those by players who are not.\<close>

definition present :: "loot_env \<Rightarrow> nat option \<Rightarrow> RollVote set \<Rightarrow> (guid \<times> RollVote) list \<Rightarrow> (guid \<times> RollVote) list" where
  "present E allowedMap W vs = filter (\<lambda>(g, v). v \<in> W \<and> \<not> absent E allowedMap g) vs"

definition gone :: "loot_env \<Rightarrow> nat option \<Rightarrow> RollVote set \<Rightarrow> (guid \<times> RollVote) list \<Rightarrow> nat" where
  "gone E allowedMap W vs = length (filter (\<lambda>(g, v). v \<in> W \<and> absent E allowedMap g) vs)"

definition count_votes :: "RollVote set \<Rightarrow> (guid \<times> RollVote) list \<Rightarrow> nat" where
  "count_votes W vs = length (filter (\<lambda>(g, v). v \<in> W) vs)"

text \<open>The first of the votes with the highest number.\<close>

fun first_highest :: "(guid \<Rightarrow> u8) \<Rightarrow> (guid \<times> RollVote) list \<Rightarrow> (guid \<times> RollVote) option" where
  "first_highest d [] = None"
| "first_highest d (x # xs) =
     (case first_highest d xs of None \<Rightarrow> Some x | Some y \<Rightarrow> if d (fst y) \<le> d (fst x) then Some x else Some y)"

text \<open>Need comes before greed.\<close>

definition roll_result :: "loot_env \<Rightarrow> nat option \<Rightarrow> Roll \<Rightarrow> (guid \<times> RollVote) option" where
  "roll_result E allowedMap r =
     (case first_highest (le_draw E (ro_itemGUID r)) (present E allowedMap {NEED} (ro_playerVote r)) of
        Some w \<Rightarrow> Some w
      | None \<Rightarrow> first_highest (le_draw E (ro_itemGUID r)) (present E allowedMap {GREED, DISENCHANT} (ro_playerVote r)))"

text \<open>What becomes of the item, and what is handed out.\<close>

fun handed :: "loot_env \<Rightarrow> Roll \<Rightarrow> (guid \<times> RollVote) option \<Rightarrow> Loot \<Rightarrow> Loot \<times> loot_msg list" where
  "handed E r None l = (upd_slot (ro_itemSlot r) (\<lambda>li. li\<lparr>li_is_blocked := False\<rparr>) l, SendLootAllPassed E r)"
| "handed E r (Some (g, v)) l =
     (let ok = le_canStore E (ro_itemGUID r) g = EQUIP_ERR_OK;
          did = (case le_template E (ro_itemid r) of Some T \<Rightarrow> lt_DisenchantID T | None \<Rightarrow> 0);
          won = SendLootRollWon E g (le_draw E (ro_itemGUID r) g) (vote_number v) r
      in if v = DISENCHANT then (looted (ro_itemSlot r) l, won @ [if ok then AutoStoreLoot g did else SendItemRetrievalMail g did])
         else if ok then (looted (ro_itemSlot r) l, won @ [StoreNewItem g (ro_itemid r)])
         else (upd_slot (ro_itemSlot r) (\<lambda>li. li\<lparr>li_is_blocked := False, li_rollWinnerGUID := g\<rparr>) l, won))"

text \<open>The messages that announce a result or hand out an item.\<close>

fun verdict :: "loot_msg \<Rightarrow> bool" where
  "verdict (SMSG_LOOT_ROLL_WON a b c d e f g h i) = True"
| "verdict (SMSG_LOOT_ALL_PASSED a b c d e f) = True"
| "verdict (StoreNewItem a b) = True"
| "verdict (AutoStoreLoot a b) = True"
| "verdict (SendItemRetrievalMail a b) = True"
| "verdict m = False"

text \<open>A generator draws from 1 to 100; a player has a guid, and a session while he is in the world.\<close>

definition ordinary :: "loot_env \<Rightarrow> Roll \<Rightarrow> bool" where
  "ordinary E r \<longleftrightarrow>
     (\<forall>(g, v) \<in> set (ro_playerVote r). g \<noteq> 0 \<and> 1 \<le> le_draw E (ro_itemGUID r) g \<and> le_draw E (ro_itemGUID r) g \<le> 100
        \<and> (FindPlayer E g \<longrightarrow> le_session E g) \<and> (v = DISENCHANT \<longrightarrow> le_template E (ro_itemid r) \<noteq> None))"

lemma first_highest_None [simp]: "first_highest d xs = None \<longleftrightarrow> xs = []"
  by (cases xs) (auto split: option.splits)

lemma first_highest_best:
  "first_highest d xs = Some (g, v) \<Longrightarrow> (g, v) \<in> set xs \<and> (\<forall>(h, w) \<in> set xs. d h \<le> d g)"
  by (induction xs arbitrary: g v) (force split: option.splits if_splits)+

definition better :: "(guid \<Rightarrow> u8) \<Rightarrow> u8 \<times> guid \<times> RollVote \<Rightarrow> guid \<times> RollVote \<Rightarrow> u8 \<times> guid \<times> RollVote" where
  "better d = (\<lambda>(m, w, k) (g, v). if m < d g then (d g, g, v) else (m, w, k))"

lemma foldl_better:
  "foldl (better d) (m, w, k) xs =
     (case first_highest d xs of None \<Rightarrow> (m, w, k) | Some (g, v) \<Rightarrow> if m < d g then (d g, g, v) else (m, w, k))"
  by (induction xs arbitrary: m w k) (auto simp: better_def split: option.splits)

lemma roll_loop_eq:
  "fst (roll_loop E allowedMap r W vs (votes, m, w, k)) =
     (votes - of_nat (gone E allowedMap W vs), foldl (better (le_draw E (ro_itemGUID r))) (m, w, k) (present E allowedMap W vs))"
  by (induction vs arbitrary: votes m w k) (auto simp: present_def gone_def better_def Let_def split_beta)

lemma no_verdict_SendLootRoll [simp]: "filter verdict (SendLootRoll E s t n ty r) = []"
  by (auto simp: SendLootRoll_def filter_empty_conv)

lemma roll_loop_quiet: "filter verdict (snd (roll_loop E allowedMap r W vs (votes, m, w, k))) = []"
  by (induction vs arbitrary: votes m w k) (auto simp: Let_def split_beta)

lemma verdict_Won [simp]: "filter verdict (SendLootRollWon E t n ty r) = SendLootRollWon E t n ty r"
  by (auto simp: SendLootRollWon_def filter_id_conv)

lemma verdict_Passed [simp]: "filter verdict (SendLootAllPassed E r) = SendLootAllPassed E r"
  by (auto simp: SendLootAllPassed_def filter_id_conv)

lemma count_votes_split: "count_votes W vs = gone E allowedMap W vs + length (present E allowedMap W vs)"
  by (induction vs) (auto simp: count_votes_def gone_def present_def)

lemma votes_left:
  assumes "count_votes W vs \<le> unat (n :: u8)" and "present E allowedMap W vs \<noteq> []"
  shows "n - of_nat (gone E allowedMap W vs) \<noteq> 0"
proof
  assume "n - of_nat (gone E allowedMap W vs) = 0"
  then have "n = of_nat (gone E allowedMap W vs)" by simp
  then have "unat n = unat (of_nat (gone E allowedMap W vs) :: u8)" by (rule arg_cong)
  also have "\<dots> \<le> gone E allowedMap W vs" by (simp add: unat_of_nat)
  finally show False
    using assms by (simp add: count_votes_split[of W vs E allowedMap] flip: length_greater_0_conv)
qed

lemma present_votes: "(g, v) \<in> set (present E allowedMap W vs) \<Longrightarrow> (g, v) \<in> set vs \<and> v \<in> W \<and> FindPlayer E g"
  by (auto simp: present_def absent_def)

lemma count_kind_nobody:
  assumes "first_highest (le_draw E (ro_itemGUID r)) (present E allowedMap W (ro_playerVote r)) = None" and "ro_playerVote r \<noteq> []"
  shows "\<exists>msgs. count_kind E allowedMap r W n l = Inr (0, l, msgs) \<and> filter verdict msgs = []"
proof -
  obtain x msgs where x: "roll_loop E allowedMap r W (ro_playerVote r) (n, 0, 0, NOT_VALID) = (x, msgs)" by fastforce
  have "x = (n - of_nat (gone E allowedMap W (ro_playerVote r)), 0, 0, NOT_VALID)"
    using roll_loop_eq[of E allowedMap r W "ro_playerVote r" n 0 0 NOT_VALID] assms(1) x by simp
  then show ?thesis
    using x roll_loop_quiet[of E allowedMap r W "ro_playerVote r" n 0 0 NOT_VALID] assms(2) by (simp add: count_kind_def)
qed

lemma count_kind_somebody:
  assumes best: "first_highest (le_draw E (ro_itemGUID r)) (present E allowedMap W (ro_playerVote r)) = Some (g, v)"
    and ord: "ordinary E r" and slot: "slot_item l (ro_itemSlot r) \<noteq> None"
  shows "\<exists>msgs. count_kind E allowedMap r W n l
            = Inr (n - of_nat (gone E allowedMap W (ro_playerVote r)), fst (handed E r (Some (g, v)) l), msgs)
          \<and> filter verdict msgs = snd (handed E r (Some (g, v)) l)"
proof -
  let ?d = "le_draw E (ro_itemGUID r)"
  have mem: "(g, v) \<in> set (ro_playerVote r)" and "FindPlayer E g"
    using first_highest_best[OF best] present_votes by blast+
  then have g: "g \<noteq> 0" "has_session E g" "0 < ?d g" "v = DISENCHANT \<Longrightarrow> le_template E (ro_itemid r) \<noteq> None"
    using ord by (auto simp: ordinary_def has_session_def FindPlayer_def word_gt_0)
  obtain x msgs where x: "roll_loop E allowedMap r W (ro_playerVote r) (n, 0, 0, NOT_VALID) = (x, msgs)" by fastforce
  have "x = (n - of_nat (gone E allowedMap W (ro_playerVote r)), ?d g, g, v)"
    using roll_loop_eq[of E allowedMap r W "ro_playerVote r" n 0 0 NOT_VALID] best x g(3) by (simp add: foldl_better)
  moreover have "filter verdict msgs = []"
    using x roll_loop_quiet[of E allowedMap r W "ro_playerVote r" n 0 0 NOT_VALID] by simp
  moreover have "ro_playerVote r \<noteq> []" using mem by auto
  ultimately show ?thesis
    using x g slot by (auto simp: count_kind_def Let_def give_item_def disenchant_item_def)
qed

section \<open>The result of a roll\<close>

definition counted :: "Roll \<Rightarrow> bool" where
  "counted r \<longleftrightarrow>
     count_votes {NEED} (ro_playerVote r) \<le> unat (ro_totalNeed r)
   \<and> count_votes {GREED, DISENCHANT} (ro_playerVote r) \<le> unat (ro_totalGreed r)
   \<and> count_votes {PASS} (ro_playerVote r) \<le> unat (ro_totalPass r)"

lemma slot_item_upd: "slot_item l s \<noteq> None \<Longrightarrow> slot_item (upd_slot s f l) s = map_option f (slot_item l s)"
  by (auto simp: slot_item_def upd_slot_def Let_def split: if_splits)

lemma nobody_present: "n = (0 :: u8) \<Longrightarrow> count_votes W vs \<le> unat n \<Longrightarrow> present E allowedMap W vs = []"
  by (simp add: count_votes_split[of W vs E allowedMap])

text \<open>The two halves of \<open>CountTheRoll\<close>, each skipped when its total is 0.\<close>

lemma half_nobody:
  assumes "present E allowedMap W (ro_playerVote r) = []" and "ro_playerVote r \<noteq> []"
  shows "\<exists>msgs. count_half E allowedMap r W n l = Inr (0, l, msgs) \<and> filter verdict msgs = []"
  using assms count_kind_nobody[of E r allowedMap W n l] by (auto simp: count_half_def word_gt_0)

lemma half_somebody:
  assumes best: "first_highest (le_draw E (ro_itemGUID r)) (present E allowedMap W (ro_playerVote r)) = Some w"
    and "ordinary E r" and "slot_item l (ro_itemSlot r) \<noteq> None" and le: "count_votes W (ro_playerVote r) \<le> unat n"
  shows "\<exists>m msgs. count_half E allowedMap r W n l = Inr (m, fst (handed E r (Some w) l), msgs)
           \<and> m \<noteq> 0 \<and> filter verdict msgs = snd (handed E r (Some w) l)"
proof -
  have ne: "present E allowedMap W (ro_playerVote r) \<noteq> []" using best by auto
  then have "n \<noteq> 0" using le nobody_present by blast
  moreover have "n - of_nat (gone E allowedMap W (ro_playerVote r)) \<noteq> 0"
    using le ne by (rule votes_left)
  ultimately show ?thesis
    using count_kind_somebody[OF _ assms(2,3), of allowedMap W "fst w" "snd w" n] best by (auto simp: count_half_def word_gt_0)
qed

lemma CountTheRoll_no_votes:
  assumes "getLoot (rs_loots st) (rs_rolls st ! i) = Some l" and "ro_playerVote (rs_rolls st ! i) = []"
    and "ro_totalNeed (rs_rolls st ! i) \<noteq> 0 \<or> ro_totalGreed (rs_rolls st ! i) \<noteq> 0"
  shows "CountTheRoll E i allowedMap st = Inr (erase_roll i st)"
proof -
  obtain a where "ro_loot (rs_rolls st ! i) = Some a" "rs_loots st a = Some l"
    using assms(1) by (auto simp: getLoot_def split: option.splits)
  then have "st\<lparr>rs_loots := (rs_loots st)(the (ro_loot (rs_rolls st ! i)) := Some l), rs_out := rs_out st @ []\<rparr> = st"
    by (cases st) auto
  then show ?thesis
    using assms by (auto simp: CountTheRoll_def count_half_def count_kind_def Let_def)
qed

lemma CountTheRoll_none_voted:
  assumes "getLoot (rs_loots st) (rs_rolls st ! i) = Some l" and "ro_loot (rs_rolls st ! i) = Some a"
    and "slot_item l (ro_itemSlot (rs_rolls st ! i)) \<noteq> None"
    and "ro_playerVote (rs_rolls st ! i) = []" and "ro_totalNeed (rs_rolls st ! i) = 0" and "ro_totalGreed (rs_rolls st ! i) = 0"
  shows "CountTheRoll E i allowedMap st
           = Inr (erase_roll i (st\<lparr>rs_loots := (rs_loots st)(a \<mapsto> fst (handed E (rs_rolls st ! i) None l)),
                                  rs_out := rs_out st @ snd (handed E (rs_rolls st ! i) None l)\<rparr>))"
  using assms by (auto simp: CountTheRoll_def count_half_def Let_def)

lemma CountTheRoll_result:
  assumes loot: "getLoot (rs_loots st) (rs_rolls st ! i) = Some l" "ro_loot (rs_rolls st ! i) = Some a"
    and slot: "slot_item l (ro_itemSlot (rs_rolls st ! i)) \<noteq> None"
    and ord: "ordinary E (rs_rolls st ! i)" and cnt: "counted (rs_rolls st ! i)" and ne: "ro_playerVote (rs_rolls st ! i) \<noteq> []"
  shows "\<exists>msgs. CountTheRoll E i allowedMap st
            = Inr (erase_roll i (st\<lparr>rs_loots := (rs_loots st)(a \<mapsto> fst (handed E (rs_rolls st ! i) (roll_result E allowedMap (rs_rolls st ! i)) l)),
                                   rs_out := rs_out st @ msgs\<rparr>))
          \<and> filter verdict msgs = snd (handed E (rs_rolls st ! i) (roll_result E allowedMap (rs_rolls st ! i)) l)"
proof -
  define r where "r = rs_rolls st ! i"
  let ?P = "\<lambda>W. present E allowedMap W (ro_playerVote r)"
  have facts: "slot_item l (ro_itemSlot r) \<noteq> None" "ordinary E r" "ro_playerVote r \<noteq> []"
    "count_votes {NEED} (ro_playerVote r) \<le> unat (ro_totalNeed r)"
    "count_votes {GREED, DISENCHANT} (ro_playerVote r) \<le> unat (ro_totalGreed r)"
    using slot ord cnt ne by (simp_all add: r_def counted_def)
  show ?thesis
  proof (cases "first_highest (le_draw E (ro_itemGUID r)) (?P {NEED})")
    case (Some w)
    from half_somebody[OF Some facts(2,1,4)] obtain m msgs where
      "count_half E allowedMap r {NEED} (ro_totalNeed r) l
         = Inr (m, fst (handed E r (Some w) l), msgs)" "m \<noteq> 0" "filter verdict msgs = snd (handed E r (Some w) l)"
      by blast
    then show ?thesis
      using loot Some by (intro exI[of _ msgs]) (simp add: CountTheRoll_def roll_result_def Let_def flip: r_def)
  next
    case None
    then have none: "?P {NEED} = []" by simp
    from half_nobody[OF this facts(3), of "ro_totalNeed r" l] obtain msgs1 where
      need: "count_half E allowedMap r {NEED} (ro_totalNeed r) l
         = Inr (0, l, msgs1)" "filter verdict msgs1 = []" by blast
    show ?thesis
    proof (cases "first_highest (le_draw E (ro_itemGUID r)) (?P {GREED, DISENCHANT})")
      case (Some w)
      from half_somebody[OF Some facts(2,1,5)] obtain m msgs where
        "count_half E allowedMap r {GREED, DISENCHANT} (ro_totalGreed r) l
           = Inr (m, fst (handed E r (Some w) l), msgs)" "m \<noteq> 0" "filter verdict msgs = snd (handed E r (Some w) l)"
        by blast
      then show ?thesis
        using loot Some none need by (intro exI[of _ "msgs1 @ msgs"]) (simp add: CountTheRoll_def roll_result_def Let_def flip: r_def)
    next
      case None
      then have "?P {GREED, DISENCHANT} = []" by simp
      from half_nobody[OF this facts(3), of "ro_totalGreed r" l] obtain msgs2 where
        "count_half E allowedMap r {GREED, DISENCHANT} (ro_totalGreed r) l
           = Inr (0, l, msgs2)" "filter verdict msgs2 = []" by blast
      then show ?thesis
        using loot slot None none need
        by (intro exI[of _ "msgs1 @ msgs2 @ SendLootAllPassed E r"]) (simp add: CountTheRoll_def roll_result_def Let_def flip: r_def)
    qed
  qed
qed

section \<open>The invariant of the rolls\<close>

definition items_of :: "Loot \<Rightarrow> nat" where
  "items_of l = length (lo_items l) + length (lo_quest_items l)"

definition votes_cast :: "Roll \<Rightarrow> nat" where
  "votes_cast r = unat (ro_totalPass r) + unat (ro_totalNeed r) + unat (ro_totalGreed r)"

text \<open>
  A group has 40 members at most. The totals cover the votes that are recorded, and a roll that is linked to a loot has
  its slot inside of it.
\<close>

definition roll_ok :: "(nat \<Rightarrow> Loot option) \<Rightarrow> Roll \<Rightarrow> bool" where
  "roll_ok loots r \<longleftrightarrow>
     smap_inv (ro_playerVote r) \<and> counted r \<and> votes_cast r \<le> 40
   \<and> length (ro_playerVote r) \<le> unat (ro_totalPlayersRolling r) \<and> unat (ro_totalPlayersRolling r) \<le> 40
   \<and> (\<forall>a. ro_loot r = Some a \<longrightarrow> (\<exists>l. loots a = Some l \<and> unat (ro_itemSlot r) < items_of l))"

definition rolls_ok :: "roll_state \<Rightarrow> bool" where
  "rolls_ok st \<longleftrightarrow> (\<forall>r \<in> set (rs_rolls st). roll_ok (rs_loots st) r)"

lemma slot_item_Some: "slot_item l s \<noteq> None \<longleftrightarrow> unat s < items_of l"
  by (auto simp: slot_item_def items_of_def Let_def)

lemma items_of_upd [simp]: "items_of (upd_slot s f l) = items_of l"
  by (auto simp: upd_slot_def items_of_def Let_def)

lemma items_of_looted [simp]: "items_of (looted s l) = items_of l"
  using items_of_upd[of s] by (simp add: looted_def items_of_def)

text \<open>Loots keep their sizes.\<close>

definition same_sizes :: "roll_state \<Rightarrow> roll_state \<Rightarrow> bool" where
  "same_sizes st st1 \<longleftrightarrow> (\<forall>a. map_option items_of (rs_loots st1 a) = map_option items_of (rs_loots st a))"

lemma roll_ok_sizes:
  assumes "same_sizes st st1" and "roll_ok (rs_loots st) r" shows "roll_ok (rs_loots st1) r"
proof -
  have "\<exists>l1. rs_loots st1 a = Some l1 \<and> items_of l1 = items_of l" if "rs_loots st a = Some l" for a l
    using assms(1)[unfolded same_sizes_def, rule_format, of a] that by (cases "rs_loots st1 a") auto
  then show ?thesis using assms(2) unfolding roll_ok_def by metis
qed

lemma roll_ok_slot:
  assumes "roll_ok loots r" and "getLoot loots r = Some l" shows "unat (ro_itemSlot r) < items_of l"
proof -
  obtain a where "ro_loot r = Some a" "loots a = Some l" using assms(2) by (auto simp: getLoot_def split: option.splits)
  then show ?thesis using assms(1) unfolding roll_ok_def by fastforce
qed

lemma count_half_sizes: "count_half E allowedMap r W n l = Inr (m, l1, msgs) \<Longrightarrow> items_of l1 = items_of l"
  by (auto simp: count_half_def count_kind_def give_item_def disenchant_item_def Let_def split: if_splits prod.splits)

lemma CountTheRoll_removes:
  assumes "CountTheRoll E i allowedMap st = Inr st1"
  shows "rs_rolls st1 = take i (rs_rolls st) @ drop (Suc i) (rs_rolls st) \<and> same_sizes st st1"
proof -
  let ?r = "rs_rolls st ! i"
  show ?thesis
  proof (cases "getLoot (rs_loots st) ?r")
    case None
    then show ?thesis using assms by (auto simp: CountTheRoll_def erase_roll_def same_sizes_def)
  next
    case (Some l)
    then obtain a where a: "ro_loot ?r = Some a" "rs_loots st a = Some l"
      by (auto simp: getLoot_def split: option.splits)
    have "\<exists>l2 msgs. items_of l2 = items_of l \<and> st1 = erase_roll i (st\<lparr>rs_loots := (rs_loots st)(a \<mapsto> l2), rs_out := rs_out st @ msgs\<rparr>)"
      using assms Some a(1)
      by (auto simp: CountTheRoll_def Let_def split: sum.splits prod.splits if_splits dest!: count_half_sizes)
        (metis items_of_upd)+
    then show ?thesis using a(2) by (auto simp: erase_roll_def same_sizes_def)
  qed
qed

lemma take_drop_subset: "set (take i xs @ drop (Suc i) xs) \<subseteq> set xs"
  using set_take_subset set_drop_subset by fastforce

lemma CountTheRoll_ok: "rolls_ok st \<Longrightarrow> CountTheRoll E i allowedMap st = Inr st1 \<Longrightarrow> rolls_ok st1"
  using CountTheRoll_removes take_drop_subset roll_ok_sizes unfolding rolls_ok_def by (metis subsetD)

text \<open>Votes.\<close>

lemma count_votes_put: "count_votes W (smap_put g v vs) \<le> count_votes W vs + (if v \<in> W then 1 else 0)"
  by (induction g v vs rule: smap_put.induct) (auto simp: count_votes_def)

lemma count_votes_put_le: "count_votes W vs \<le> n \<Longrightarrow> count_votes W (smap_put g v vs) \<le> (if v \<in> W then Suc n else n)"
  using count_votes_put[of W g v vs] by (auto split: if_splits)

lemma count_votes_erase_le: "count_votes W (smap_erase g vs) \<le> count_votes W vs"
  by (induction vs) (auto simp: count_votes_def smap_erase_def)

lemma count_votes_erase:
  "smap_find vs g = Some v \<Longrightarrow> count_votes W (smap_erase g vs) + (if v \<in> W then 1 else 0) \<le> count_votes W vs"
proof (induction vs)
  case (Cons x vs)
  then show ?case using count_votes_erase_le[of W g vs] by (cases x) (auto simp: count_votes_def smap_erase_def smap_find_def split: if_splits)
qed (simp add: smap_find_def)

lemma length_put_known:
  fixes vs :: "(guid \<times> RollVote) list"
  assumes "smap_inv vs" and "smap_find vs g \<noteq> None" shows "length (smap_put g v vs) = length vs"
proof -
  have keys: "distinct (map fst xs)" if "smap_inv xs" for xs :: "(guid \<times> RollVote) list"
    using that sset_inv_distinct unfolding smap_inv_def sset_inv_def by blast
  have "length (map fst (smap_put g v vs)) = card (fst ` set (smap_put g v vs))"
    using distinct_card[OF keys[OF smap.inv_put[OF assms(1)]]] by simp
  also have "\<dots> = card (fst ` set vs)"
    using assms(2) by (simp add: fst_smap_put insert_absorb smap_find_dom)
  also have "\<dots> = length vs" using distinct_card[OF keys[OF assms(1)]] by simp
  finally show ?thesis by simp
qed

lemma unat_plus_one: "unat (x :: u8) \<le> 40 \<Longrightarrow> unat (x + 1) = unat x + 1"
  by (simp add: unat_word_ariths)

lemma unat_minus_one8: "0 < unat (x :: u8) \<Longrightarrow> unat (x - 1) = unat x - 1"
  by (rule unat_minus_one) (auto simp: unat_gt_0)

lemma cast_vote_ok:
  assumes "roll_ok loots r" and "smap_find (ro_playerVote r) g \<noteq> None" and "cast_vote E g c r = (r1, msgs)" and "\<not> all_voted r1"
  shows "roll_ok loots r1"
proof -
  have tot: "unat (ro_totalPass r) \<le> 40" "unat (ro_totalNeed r) \<le> 40" "unat (ro_totalGreed r) \<le> 40"
    using assms(1) by (auto simp: roll_ok_def votes_cast_def)
  have cnt: "counted r1"
    using assms(1,3) tot
    by (auto simp: roll_ok_def counted_def cast_vote_def unat_plus_one split: if_splits
             intro!: order.trans[OF count_votes_put] intro: le_SucI)
  have "smap_inv (ro_playerVote r1) \<and> length (ro_playerVote r1) = length (ro_playerVote r)
      \<and> ro_totalPlayersRolling r1 = ro_totalPlayersRolling r \<and> ro_loot r1 = ro_loot r \<and> ro_itemSlot r1 = ro_itemSlot r"
    using assms(1-3) by (auto simp: roll_ok_def cast_vote_def length_put_known smap.inv_put split: if_splits)
  then show ?thesis using assms(1,4) cnt by (auto simp: roll_ok_def all_voted_def votes_cast_def)
qed

lemma cast_vote_same [simp]:
  "ro_loot (fst (cast_vote E g c r)) = ro_loot r" "ro_itemSlot (fst (cast_vote E g c r)) = ro_itemSlot r"
  "ro_itemGUID (fst (cast_vote E g c r)) = ro_itemGUID r"
  by (auto simp: cast_vote_def)

lemma find_roll_Some: "find_roll g loots k rs = Some i \<Longrightarrow> k \<le> i \<and> i < k + length rs \<and> ro_itemGUID (rs ! (i - k)) = g \<and> isValid loots (rs ! (i - k))"
proof (induction rs arbitrary: k)
  case (Cons r rs)
  show ?case
  proof (cases "ro_itemGUID r = g \<and> isValid loots r")
    case False
    with Cons.IH[of "Suc k"] Cons.prems
    have *: "Suc k \<le> i \<and> i < Suc k + length rs \<and> ro_itemGUID (rs ! (i - Suc k)) = g \<and> isValid loots (rs ! (i - Suc k))"
      by (auto split: if_splits)
    then have "i - k = Suc (i - Suc k)" by arith
    with * show ?thesis by simp
  qed (use Cons.prems in auto)
qed simp

lemma GetRoll_Some: "GetRoll g st = Some i \<Longrightarrow> i < length (rs_rolls st) \<and> ro_itemGUID (rs_rolls st ! i) = g \<and> isValid (rs_loots st) (rs_rolls st ! i)"
  using find_roll_Some[of g "rs_loots st" 0 "rs_rolls st" i] by (simp add: GetRoll_def)

lemma CountRollVote_ok:
  assumes ok: "rolls_ok st" and vote: "CountRollVote E g item c st = Inr st1"
  shows "rolls_ok st1 \<and> same_sizes st st1"
proof (cases "GetRoll item st")
  case (Some i)
  then have i: "i < length (rs_rolls st)" using GetRoll_Some by blast
  let ?r = "rs_rolls st ! i"
  obtain r1 msgs where cast: "cast_vote E g c ?r = (r1, msgs)" by fastforce
  let ?st = "st\<lparr>rs_rolls := (rs_rolls st)[i := r1], rs_out := rs_out st @ msgs\<rparr>"
  consider "st1 = st" | "smap_find (ro_playerVote ?r) g \<noteq> None" "\<not> all_voted r1" "st1 = ?st"
    | "all_voted r1" "CountTheRoll E i None ?st = Inr st1"
    using vote Some cast by (auto simp: CountRollVote_def Let_def split: if_splits option.splits)
  then show ?thesis
  proof cases
    case 1 then show ?thesis using ok by (simp add: same_sizes_def)
  next
    case 2
    then have "roll_ok (rs_loots st) r1" using cast_vote_ok[OF _ _ cast] ok i by (auto simp: rolls_ok_def)
    then show ?thesis using ok 2(3) set_update_subset_insert[of "rs_rolls st" i r1] by (auto simp: rolls_ok_def same_sizes_def)
  next
    case 3
    have sz: "same_sizes ?st st1" and "rs_rolls st1 = take i (rs_rolls st) @ drop (Suc i) (rs_rolls st)"
      using CountTheRoll_removes[OF 3(2)] by simp_all
    then show ?thesis
      using ok take_drop_subset[of i "rs_rolls st"] roll_ok_sizes[OF sz] by (fastforce simp: rolls_ok_def same_sizes_def)
  qed
qed (use assms in \<open>auto simp: CountRollVote_def same_sizes_def\<close>)

lemma set_smap_put_le: "set (smap_put g v vs) \<subseteq> insert (g, v) (set vs)"
  by (induction g v vs rule: smap_put.induct) auto

text \<open>Members who leave. Their vote is gone when it is counted, so that nothing is counted.\<close>

lemma forget_vote_ok:
  assumes ok: "roll_ok loots r" and v: "smap_find (ro_playerVote r) g = Some v"
  shows "roll_ok loots (forget_vote g v r)"
proof -
  note er = count_votes_erase[OF v]
  have "length (smap_erase g (ro_playerVote r)) < length (ro_playerVote r)"
    using smap_find_SomeD[OF v] by (auto simp: smap_erase_def intro!: length_filter_less)
  moreover have pos: "0 < unat (ro_totalGreed r)" if "v = GREED \<or> v = DISENCHANT"
    using er[of "{GREED, DISENCHANT}"] that ok by (auto simp: roll_ok_def counted_def)
  moreover have "0 < unat (ro_totalNeed r)" if "v = NEED"
    using er[of "{NEED}"] that ok by (auto simp: roll_ok_def counted_def)
  moreover have "0 < unat (ro_totalPass r)" if "v = PASS"
    using er[of "{PASS}"] that ok by (auto simp: roll_ok_def counted_def)
  ultimately show ?thesis
    using ok er[of "{NEED}"] er[of "{PASS}"] er[of "{GREED, DISENCHANT}"]
    by (cases v) (auto simp: roll_ok_def counted_def votes_cast_def forget_vote_def Let_def unat_minus_one8 smap.inv_ers)
qed

text \<open>The rolls behind the loop of \<open>RemoveMember\<close>.\<close>

definition without :: "guid \<Rightarrow> Roll \<Rightarrow> Roll" where
  "without g r = (case smap_find (ro_playerVote r) g of None \<Rightarrow> r | Some v \<Rightarrow> forget_vote g v r)"

lemma forget_vote_simps [simp]:
  "ro_playerVote (forget_vote g v r) = smap_erase g (ro_playerVote r)" "ro_itemGUID (forget_vote g v r) = ro_itemGUID r"
  "ro_loot (forget_vote g v r) = ro_loot r" "ro_itemSlot (forget_vote g v r) = ro_itemSlot r"
  by (auto simp: forget_vote_def Let_def)

lemma same_sizes_trans: "same_sizes st st1 \<Longrightarrow> same_sizes st1 st2 \<Longrightarrow> same_sizes st st2"
  by (simp add: same_sizes_def)

lemma leave_roll_ok:
  assumes "rolls_ok st" and "i < length (rs_rolls st)" and "leave_roll E g i st = Inr st1"
  shows "rolls_ok st1 \<and> same_sizes st st1"
proof (cases "smap_find (ro_playerVote (rs_rolls st ! i)) g")
  case (Some v)
  let ?st = "st\<lparr>rs_rolls := (rs_rolls st)[i := forget_vote g v (rs_rolls st ! i)]\<rparr>"
  have "roll_ok (rs_loots st) (rs_rolls st ! i)" using assms(1,2) by (simp add: rolls_ok_def)
  then have "rolls_ok ?st"
    using assms(1) forget_vote_ok[OF _ Some] set_update_subset_insert[of "rs_rolls st" i "forget_vote g v (rs_rolls st ! i)"]
    by (auto simp: rolls_ok_def)
  moreover have "CountRollVote E g (ro_itemGUID (rs_rolls st ! i)) MAX_ROLL_TYPE ?st = Inr st1"
    using assms(3) Some by (simp add: leave_roll_def Let_def)
  ultimately have "rolls_ok st1 \<and> same_sizes ?st st1" by (rule CountRollVote_ok)
  then show ?thesis by (simp add: same_sizes_def)
qed (use assms in \<open>simp add: leave_roll_def same_sizes_def\<close>)

lemma leave_loop_ok:
  "rolls_ok st \<Longrightarrow> leave_loop E g n i st = Inr st1 \<Longrightarrow> rolls_ok st1 \<and> same_sizes st st1"
proof (induction E g n i st rule: leave_loop.induct)
  case (2 E g n i st)
  show ?case
  proof (cases "i < length (rs_rolls st)")
    case True
    then obtain st2 where st2: "leave_roll E g i st = Inr st2" "leave_loop E g n (Suc i) st2 = Inr st1"
      using 2(3) by (auto split: sum.splits)
    then show ?thesis
      using 2(1)[OF True st2(1)] leave_roll_ok[OF 2(2) True st2(1)] same_sizes_trans by blast
  qed (use 2 in \<open>simp add: same_sizes_def\<close>)
qed (simp add: same_sizes_def)

text \<open>With the guids of the items different, as the generator makes them, leaving changes the votes and nothing else.\<close>

lemma leave_roll_without:
  assumes "distinct (map ro_itemGUID (rs_rolls st))" and i: "i < length (rs_rolls st)"
  shows "leave_roll E g i st = Inr (st\<lparr>rs_rolls := (rs_rolls st)[i := without g (rs_rolls st ! i)]\<rparr>)"
proof (cases "smap_find (ro_playerVote (rs_rolls st ! i)) g")
  case (Some v)
  let ?r = "forget_vote g v (rs_rolls st ! i)"
  let ?st = "st\<lparr>rs_rolls := (rs_rolls st)[i := ?r]\<rparr>"
  have "CountRollVote E g (ro_itemGUID (rs_rolls st ! i)) MAX_ROLL_TYPE ?st = Inr ?st"
  proof (cases "GetRoll (ro_itemGUID (rs_rolls st ! i)) ?st")
    case (Some j)
    from GetRoll_Some[OF this] have j: "j < length (rs_rolls st)" "ro_itemGUID ((rs_rolls st)[i := ?r] ! j) = ro_itemGUID (rs_rolls st ! i)"
      by simp_all
    then have "ro_itemGUID (rs_rolls st ! j) = ro_itemGUID (rs_rolls st ! i)" using i by (cases "i = j") simp_all
    then have "j = i" using nth_eq_iff_index_eq[OF assms(1), of j i] i j(1) by simp
    then show ?thesis using Some i by (simp add: CountRollVote_def Let_def smap_find_def map_of_smap_erase)
  qed (simp add: CountRollVote_def)
  then show ?thesis using Some by (simp add: leave_roll_def without_def Let_def)
qed (simp add: leave_roll_def without_def Let_def)

lemma leave_loop_without:
  "distinct (map ro_itemGUID (rs_rolls st)) \<Longrightarrow> length (rs_rolls st) = i + n \<Longrightarrow>
     leave_loop E g n i st = Inr (st\<lparr>rs_rolls := take i (rs_rolls st) @ map (without g) (drop i (rs_rolls st))\<rparr>)"
proof (induction n arbitrary: i st)
  case (Suc n)
  let ?rs = "rs_rolls st"
  let ?st = "st\<lparr>rs_rolls := ?rs[i := without g (?rs ! i)]\<rparr>"
  have i: "i < length ?rs" using Suc.prems(2) by simp
  have same: "ro_itemGUID (without g r) = ro_itemGUID r" for r by (simp add: without_def split: option.splits)
  have "map ro_itemGUID (?rs[i := without g (?rs ! i)]) = map ro_itemGUID ?rs"
    using i by (simp add: map_update same list_update_same_conv)
  then have "leave_loop E g n (Suc i) ?st
      = Inr (?st\<lparr>rs_rolls := take (Suc i) (rs_rolls ?st) @ map (without g) (drop (Suc i) (rs_rolls ?st))\<rparr>)"
    using Suc.prems by (intro Suc.IH) simp_all
  also have "take (Suc i) (rs_rolls ?st) @ map (without g) (drop (Suc i) (rs_rolls ?st)) = take i ?rs @ map (without g) (drop i ?rs)"
    using i by (simp add: take_Suc_conv_app_nth drop_update_cancel flip: Cons_nth_drop_Suc)
  finally show ?case using leave_roll_without[OF Suc.prems(1) i] i by simp
qed simp

lemma leave_rolls_without:
  "distinct (map ro_itemGUID (rs_rolls st)) \<Longrightarrow> leave_rolls E g st = Inr (st\<lparr>rs_rolls := map (without g) (rs_rolls st)\<rparr>)"
  by (simp add: leave_rolls_def leave_loop_without)

section \<open>The timer\<close>

lemma find_loot_roll_None: "find_loot_roll loots a k rs = None \<longleftrightarrow> (\<forall>r \<in> set rs. \<not> linked_to loots a r)"
  by (induction rs arbitrary: k) auto

lemma find_loot_roll_Some:
  "find_loot_roll loots a k rs = Some i \<Longrightarrow> \<exists>xs r ys. rs = xs @ r # ys \<and> i = k + length xs \<and> linked_to loots a r"
proof (induction rs arbitrary: k)
  case (Cons r rs)
  show ?case
  proof (cases "linked_to loots a r")
    case True
    then show ?thesis using Cons.prems by (intro exI[of _ "[]"]) auto
  next
    case False
    then obtain xs r1 ys where "rs = xs @ r1 # ys \<and> i = Suc k + length xs \<and> linked_to loots a r1"
      using Cons by fastforce
    then show ?thesis by (intro exI[of _ "r # xs"]) auto
  qed
qed simp

lemma linked_to_sizes: "same_sizes st st1 \<Longrightarrow> linked_to (rs_loots st1) = linked_to (rs_loots st)"
  unfolding linked_to_def isValid_def getLoot_def same_sizes_def
  by (intro ext) (metis (no_types, lifting) map_option_is_None option.case_eq_if)

lemma CountTheRoll_returns:
  assumes "roll_ok (rs_loots st) (rs_rolls st ! i)" and "le_template E (ro_itemid (rs_rolls st ! i)) \<noteq> None"
  shows "\<exists>st1. CountTheRoll E i allowedMap st = Inr st1"
proof (cases "getLoot (rs_loots st) (rs_rolls st ! i)")
  case (Some l)
  let ?r = "rs_rolls st ! i"
  have slot: "unat (ro_itemSlot ?r) < items_of l"
    using assms(1) Some by (rule roll_ok_slot)
  have half: "\<exists>m l2 msgs. count_half E allowedMap ?r W n l1 = Inr (m, l2, msgs) \<and> items_of l2 = items_of l"
    if "items_of l1 = items_of l" for W n l1
  proof -
    have "count_half E allowedMap ?r W n l1 \<noteq> Inl e" for e
      using slot that slot_item_Some[of l1 "ro_itemSlot ?r"] assms(2)
      by (auto simp: count_half_def count_kind_def Let_def split: prod.splits)
    then show ?thesis using count_half_sizes[of E allowedMap ?r W n l1] that
      by (cases "count_half E allowedMap ?r W n l1") auto
  qed
  from half[of l "{NEED}" "ro_totalNeed ?r"] obtain m l2 msgs where
    need: "count_half E allowedMap ?r {NEED} (ro_totalNeed ?r) l = Inr (m, l2, msgs)" "items_of l2 = items_of l" by blast
  from half[OF need(2), of "{GREED, DISENCHANT}" "ro_totalGreed ?r"] obtain m1 l3 msgs1 where
    greed: "count_half E allowedMap ?r {GREED, DISENCHANT} (ro_totalGreed ?r) l2 = Inr (m1, l3, msgs1)" "items_of l3 = items_of l" by blast
  have "slot_item l2 (ro_itemSlot ?r) \<noteq> None" "slot_item l3 (ro_itemSlot ?r) \<noteq> None"
    unfolding slot_item_Some using slot need(2) greed(2) by simp_all
  then show ?thesis using Some need greed by (auto simp: CountTheRoll_def Let_def)
qed (simp add: CountTheRoll_def Let_def)

lemma end_rolls_ends:
  "rolls_ok st \<Longrightarrow> \<forall>r \<in> set (rs_rolls st). le_template E (ro_itemid r) \<noteq> None \<Longrightarrow> length (rs_rolls st) \<le> n \<Longrightarrow>
     \<exists>st1. end_rolls E a allowedMap n st = Inr st1 \<and> rolls_ok st1 \<and> same_sizes st st1
       \<and> rs_rolls st1 = filter (\<lambda>r. \<not> linked_to (rs_loots st) a r) (rs_rolls st)"
proof (induction n arbitrary: st)
  case (Suc n)
  show ?case
  proof (cases "find_loot_roll (rs_loots st) a 0 (rs_rolls st)")
    case None
    then have "filter (\<lambda>r. \<not> linked_to (rs_loots st) a r) (rs_rolls st) = rs_rolls st"
      by (simp add: find_loot_roll_None)
    then show ?thesis using None Suc.prems(1) by (simp add: same_sizes_def)
  next
    case (Some i)
    then obtain xs r ys where i: "rs_rolls st = xs @ r # ys" "i = length xs" "linked_to (rs_loots st) a r"
      using find_loot_roll_Some by fastforce
    then have "roll_ok (rs_loots st) (rs_rolls st ! i)" "le_template E (ro_itemid (rs_rolls st ! i)) \<noteq> None"
      using Suc.prems(1,2) by (auto simp: rolls_ok_def)
    then obtain st2 where st2: "CountTheRoll E i allowedMap st = Inr st2" using CountTheRoll_returns by blast
    have rem: "rs_rolls st2 = xs @ ys" "same_sizes st st2" using CountTheRoll_removes[OF st2] i by simp_all
    obtain st1 where "end_rolls E a allowedMap n st2 = Inr st1 \<and> rolls_ok st1 \<and> same_sizes st2 st1
        \<and> rs_rolls st1 = filter (\<lambda>r. \<not> linked_to (rs_loots st) a r) (xs @ ys)"
      using Suc.IH[of st2] CountTheRoll_ok[OF Suc.prems(1) st2] Suc.prems(2,3) rem(1) i(1) linked_to_sizes[OF rem(2)] by auto
    then show ?thesis using Some st2 i same_sizes_trans[OF rem(2)] by simp
  qed
qed (simp add: same_sizes_def)

lemma end_rolls_ok: "rolls_ok st \<Longrightarrow> end_rolls E a allowedMap n st = Inr st1 \<Longrightarrow> rolls_ok st1 \<and> same_sizes st st1"
proof (induction n arbitrary: st)
  case (Suc n)
  show ?case
  proof (cases "find_loot_roll (rs_loots st) a 0 (rs_rolls st)")
    case (Some i)
    then obtain st2 where st2: "CountTheRoll E i allowedMap st = Inr st2" "end_rolls E a allowedMap n st2 = Inr st1"
      using Suc.prems(2) by (auto split: sum.splits)
    then show ?thesis
      using Suc.IH[OF _ st2(2)] CountTheRoll_ok[OF Suc.prems(1) st2(1)] CountTheRoll_removes[OF st2(1)] same_sizes_trans by blast
  qed (use Suc.prems in \<open>simp add: same_sizes_def\<close>)
qed (simp add: same_sizes_def)

section \<open>Opening\<close>

text \<open>The roll while the members are added: \<open>n\<close> of them so far.\<close>

definition filling :: "nat \<Rightarrow> Roll \<Rightarrow> bool" where
  "filling n r \<longleftrightarrow>
     smap_inv (ro_playerVote r) \<and> length (ro_playerVote r) \<le> unat (ro_totalPlayersRolling r) \<and> unat (ro_totalPlayersRolling r) \<le> n
   \<and> count_votes {PASS} (ro_playerVote r) \<le> unat (ro_totalPass r) \<and> unat (ro_totalPass r) \<le> unat (ro_totalPlayersRolling r)
   \<and> count_votes {NEED} (ro_playerVote r) = 0 \<and> count_votes {GREED, DISENCHANT} (ro_playerVote r) = 0
   \<and> ro_totalNeed r = 0 \<and> ro_totalGreed r = 0"

lemma length_votes_put: "length (smap_put g v vs) \<le> Suc (length vs)"
  by (induction g v vs rule: smap_put.induct) auto

lemma filling_mono: "filling n r \<Longrightarrow> n \<le> m \<Longrightarrow> filling m r"
  by (auto simp: filling_def)

lemma filling_mk: "filling 0 (mk_Roll g li)"
  by (simp add: filling_def mk_Roll_def count_votes_def)

lemma filling_add:
  assumes "filling n r" and "n < 40" shows "filling (Suc n) (add_roller E passing li g r)"
proof -
  have "unat (ro_totalPlayersRolling r) \<le> 40" "unat (ro_totalPass r) \<le> 40" using assms by (auto simp: filling_def)
  note plus = this[THEN unat_plus_one]
  have "count_votes W (smap_put g v (ro_playerVote r)) = 0" if "count_votes W (ro_playerVote r) = 0" "v \<notin> W" for W v
    using count_votes_put[of W g v "ro_playerVote r"] that by simp
  then show ?thesis
    using assms count_votes_put[of "{PASS}" g PASS "ro_playerVote r"] count_votes_put[of "{PASS}" g NOT_EMITED_YET "ro_playerVote r"]
      length_votes_put[of g PASS "ro_playerVote r"] length_votes_put[of g NOT_EMITED_YET "ro_playerVote r"]
    by (auto simp: filling_def add_roller_def Let_def plus smap.inv_put)
qed

lemma filling_members:
  "filling n r \<Longrightarrow> n + length ms \<le> 40 \<Longrightarrow> filling (n + length ms) (foldl (\<lambda>r g. add_roller E passing li g r) r ms)"
proof (induction ms arbitrary: n r)
  case (Cons g ms)
  then have "filling (Suc n) (add_roller E passing li g r)" by (intro filling_add) auto
  from Cons.IH[OF this] Cons.prems(2) show ?case by simp
qed simp

lemma foldl_add_roller_guid [simp]: "ro_itemGUID (foldl (\<lambda>r g. add_roller E passing li g r) r ms) = ro_itemGUID r"
  by (induction ms arbitrary: r) (auto simp: add_roller_def Let_def)

lemma open_roll_ok:
  assumes "rolls_ok st" and "length members \<le> 40" and "rs_loots st a = Some l" and "unat slot < items_of l"
  shows "rolls_ok (open_roll E needFirst members maxEnchantingLevel a newGuid slot li plain st)
       \<and> same_sizes st (open_roll E needFirst members maxEnchantingLevel a newGuid slot li plain st)"
proof (cases "ro_totalPlayersRolling (foldl (\<lambda>r g. add_roller E (plain \<noteq> None) li g r) (mk_Roll newGuid li) members) > 0")
  case True
  let ?r = "foldl (\<lambda>r g. add_roller E (plain \<noteq> None) li g r) (mk_Roll newGuid li) members"
  let ?st = "open_roll E needFirst members maxEnchantingLevel a newGuid slot li plain st"
  have "\<exists>r. rs_rolls ?st = rs_rolls st @ [r] \<and> ro_playerVote r = ro_playerVote ?r \<and> ro_totalPlayersRolling r = ro_totalPlayersRolling ?r
      \<and> ro_totalNeed r = ro_totalNeed ?r \<and> ro_totalGreed r = ro_totalGreed ?r \<and> ro_totalPass r = ro_totalPass ?r
      \<and> ro_loot r = Some a \<and> ro_itemSlot r = slot"
    using True by (cases plain) (auto simp: open_roll_def Let_def disenchant_mask_def)
  then obtain r where rolls: "rs_rolls ?st = rs_rolls st @ [r]"
    and r: "ro_playerVote r = ro_playerVote ?r" "ro_totalPlayersRolling r = ro_totalPlayersRolling ?r"
      "ro_totalNeed r = ro_totalNeed ?r" "ro_totalGreed r = ro_totalGreed ?r" "ro_totalPass r = ro_totalPass ?r"
      "ro_loot r = Some a" "ro_itemSlot r = slot" by blast
  have loots: "rs_loots ?st = (rs_loots st)(a \<mapsto> upd_slot slot (\<lambda>li. li\<lparr>li_is_blocked := True\<rparr>) l)"
    using True assms(3) by (cases plain) (simp_all add: open_roll_def Let_def)
  have sizes: "same_sizes st ?st" using assms(3) by (auto simp: same_sizes_def loots)
  have "filling (0 + length members) ?r"
    by (rule filling_members[OF filling_mk]) (use assms(2) in simp)
  then have "filling 40 ?r" by (rule filling_mono) (use assms(2) in simp)
  then have "roll_ok (rs_loots ?st) r"
    using assms(4) by (auto simp: filling_def roll_ok_def counted_def votes_cast_def loots r)
  then show ?thesis using sizes assms(1) roll_ok_sizes[OF sizes] by (auto simp: rolls_ok_def rolls)
qed (use assms in \<open>simp add: open_roll_def same_sizes_def Let_def\<close>)

lemma same_sizes_at: "same_sizes st st1 \<Longrightarrow> rs_loots st a = Some l \<Longrightarrow> \<exists>l1. rs_loots st1 a = Some l1 \<and> items_of l1 = items_of l"
  unfolding same_sizes_def by (metis option.map(2) map_option_eq_Some)

lemma roll_item_ok:
  assumes "rolls_ok st" and "length members \<le> 40" and "rs_loots st a = Some l" and "unat slot < items_of l"
    and "roll_item E needFirst members maxEnchantingLevel threshold a newGuid slot li st = Inr st1"
  shows "rolls_ok st1 \<and> same_sizes st st1"
proof -
  let ?under = "st\<lparr>rs_loots := (rs_loots st)(a := map_option (upd_slot slot (\<lambda>li. li\<lparr>li_is_underthreshold := True\<rparr>)) (rs_loots st a))\<rparr>"
  have "same_sizes st ?under" using assms(3) by (simp add: same_sizes_def)
  moreover from this have "rolls_ok ?under"
    using assms(1) roll_ok_sizes by (fastforce simp: rolls_ok_def)
  moreover have "same_sizes st st" by (simp add: same_sizes_def)
  ultimately show ?thesis
    using assms(1,5) open_roll_ok[OF assms(1-4)] by (auto simp: roll_item_def split: if_splits option.splits)
qed

lemma roll_items_ok:
  "rolls_ok st \<Longrightarrow> length members \<le> 40 \<Longrightarrow> rs_loots st a = Some l \<Longrightarrow> unat slot + length lis \<le> items_of l \<Longrightarrow> items_of l \<le> 255 \<Longrightarrow>
     roll_items E needFirst members maxEnchantingLevel threshold newGuid a slot lis st = Inr (slot1, st1) \<Longrightarrow>
     rolls_ok st1 \<and> same_sizes st st1 \<and> unat slot1 = unat slot + length lis"
proof (induction lis arbitrary: slot st l)
  case (Cons li lis)
  from Cons.prems(6) obtain st2 where
    st2: "roll_item E needFirst members maxEnchantingLevel threshold a (newGuid slot) slot li st = Inr st2"
      "roll_items E needFirst members maxEnchantingLevel threshold newGuid a (slot + 1) lis st2 = Inr (slot1, st1)"
    by (auto split: sum.splits)
  have ok: "rolls_ok st2" "same_sizes st st2" using roll_item_ok[OF Cons.prems(1-3) _ st2(1)] Cons.prems(4) by simp_all
  then obtain l2 where l2: "rs_loots st2 a = Some l2" "items_of l2 = items_of l" using same_sizes_at Cons.prems(3) by blast
  have "unat (slot + 1) = unat slot + 1"
    using Cons.prems(4,5) by (simp add: unat_word_ariths)
  then show ?case
    using Cons.IH[OF ok(1) Cons.prems(2) l2(1) _ _ st2(2)] Cons.prems(4,5) l2(2) same_sizes_trans[OF ok(2)] by simp
qed (auto simp: same_sizes_def)

lemma roll_quest_items_ok:
  "rolls_ok st \<Longrightarrow> length members \<le> 40 \<Longrightarrow> rs_loots st a = Some l \<Longrightarrow> unat slot + length lis \<le> items_of l \<Longrightarrow> items_of l \<le> 255 \<Longrightarrow>
     rolls_ok (roll_quest_items E needFirst members maxEnchantingLevel newGuid a slot lis st)
   \<and> same_sizes st (roll_quest_items E needFirst members maxEnchantingLevel newGuid a slot lis st)"
proof (induction lis arbitrary: slot st l)
  case (Cons li lis)
  let ?st = "roll_quest_item E needFirst members maxEnchantingLevel a (newGuid slot) slot li st"
  have ok: "rolls_ok ?st" "same_sizes st ?st"
    using Cons.prems(1,4) open_roll_ok[OF Cons.prems(1-3)] by (auto simp: roll_quest_item_def same_sizes_def)
  then obtain l2 where l2: "rs_loots ?st a = Some l2" "items_of l2 = items_of l" using same_sizes_at Cons.prems(3) by blast
  have "unat (slot + 1) = unat slot + 1"
    using Cons.prems(4,5) by (simp add: unat_word_ariths)
  then show ?case
    using Cons.IH[OF ok(1) Cons.prems(2) l2(1)] Cons.prems(4,5) l2(2) same_sizes_trans[OF ok(2)] by simp
qed (auto simp: same_sizes_def)

lemma start_rolls_ok:
  assumes "rolls_ok st" and "length members \<le> 40" and size: "\<forall>l. rs_loots st a = Some l \<longrightarrow> items_of l \<le> 255"
    and "start_rolls E needFirst members maxEnchantingLevel threshold newGuid a st = Inr st1"
  shows "rolls_ok st1 \<and> same_sizes st st1"
proof (cases "rs_loots st a")
  case (Some l)
  then obtain slot st2 where
    st2: "roll_items E needFirst members maxEnchantingLevel threshold newGuid a 0 (lo_items l) st = Inr (slot, st2)"
    and st1: "st1 = roll_quest_items E needFirst members maxEnchantingLevel newGuid a slot (lo_quest_items l) st2"
    using assms(4) by (auto simp: start_rolls_def split: sum.splits)
  have ok: "rolls_ok st2" "same_sizes st st2" "unat slot = length (lo_items l)"
    using roll_items_ok[OF assms(1,2) Some _ _ st2] size Some by (auto simp: items_of_def)
  then obtain l2 where l2: "rs_loots st2 a = Some l2" "items_of l2 = items_of l" using same_sizes_at Some by blast
  then show ?thesis
    using roll_quest_items_ok[OF ok(1) assms(2) l2(1), of slot "lo_quest_items l"] ok(2,3) size Some same_sizes_trans[OF ok(2)]
    unfolding st1 by (simp add: items_of_def)
qed (use assms in \<open>simp add: start_rolls_def same_sizes_def\<close>)

section \<open>Exact counters\<close>

text \<open>The totals are the recorded votes. A second answer of a player breaks it: his first one stays in the totals.\<close>

definition exact :: "Roll \<Rightarrow> bool" where
  "exact r \<longleftrightarrow>
     unat (ro_totalNeed r) = count_votes {NEED} (ro_playerVote r)
   \<and> unat (ro_totalGreed r) = count_votes {GREED, DISENCHANT} (ro_playerVote r)
   \<and> unat (ro_totalPass r) = count_votes {PASS} (ro_playerVote r)
   \<and> unat (ro_totalPlayersRolling r) = length (ro_playerVote r)
   \<and> (\<forall>g. (g, NOT_VALID) \<notin> set (ro_playerVote r))"

definition unanswered :: "guid \<Rightarrow> guid \<Rightarrow> roll_state \<Rightarrow> bool" where
  "unanswered g item st \<longleftrightarrow>
     (case GetRoll item st of
        None \<Rightarrow> True
      | Some i \<Rightarrow> (case smap_find (ro_playerVote (rs_rolls st ! i)) g of None \<Rightarrow> True | Some v \<Rightarrow> v = NOT_EMITED_YET))"

definition all_exact :: "roll_state \<Rightarrow> bool" where
  "all_exact st \<longleftrightarrow> (\<forall>r \<in> set (rs_rolls st). exact r)"

lemma count_votes_put_old:
  "smap_inv vs \<Longrightarrow> smap_find vs g = Some w \<Longrightarrow>
     count_votes W (smap_put g v vs) + (if w \<in> W then 1 else 0) = count_votes W vs + (if v \<in> W then 1 else 0)"
proof (induction g v vs rule: smap_put.induct)
  case (2 g v h u vs)
  have "g \<notin> fst ` set ((h, u) # vs)" if "g < h"
    using that 2(2) by (force simp: smap_inv_def)
  then have "\<not> g < h" using 2(3) by (metis option.discI smap_find_dom)
  then show ?case using 2 by (auto simp: count_votes_def smap_inv_def smap_find_def split: if_splits)
qed simp

lemma count_votes_put_new:
  "smap_find vs g = None \<Longrightarrow> count_votes W (smap_put g v vs) = count_votes W vs + (if v \<in> W then 1 else 0)"
  by (induction g v vs rule: smap_put.induct) (auto simp: count_votes_def smap_find_def split: if_splits)

lemma length_votes: "length vs = count_votes UNIV vs"
  by (simp add: count_votes_def)

lemma count_votes_erase_old:
  "smap_inv vs \<Longrightarrow> smap_find vs g = Some w \<Longrightarrow> count_votes W (smap_erase g vs) + (if w \<in> W then 1 else 0) = count_votes W vs"
proof (induction vs)
  case (Cons x vs)
  obtain h u where x: "x = (h, u)" by fastforce
  show ?case
  proof (cases "h = g")
    case True
    then have "\<forall>y \<in> set vs. fst y \<noteq> g" using Cons.prems(1) x by (force simp: smap_inv_def)
    then have "smap_erase g vs = vs" by (auto simp: smap_erase_def filter_id_conv split_beta)
    then show ?thesis using Cons.prems(2) x True by (simp add: count_votes_def smap_erase_def smap_find_def)
  next
    case False
    then show ?thesis using Cons x by (auto simp: count_votes_def smap_erase_def smap_find_def smap_inv_def)
  qed
qed simp

lemma cast_vote_exact:
  assumes "roll_ok loots r" and "exact r" and "smap_find (ro_playerVote r) g = Some NOT_EMITED_YET" and "cast_vote E g c r = (r1, msgs)"
  shows "exact r1"
proof -
  have "unat (ro_totalPass r) \<le> 40" "unat (ro_totalNeed r) \<le> 40" "unat (ro_totalGreed r) \<le> 40" and inv: "smap_inv (ro_playerVote r)"
    using assms(1) by (auto simp: roll_ok_def votes_cast_def)
  note plus = this(1-3)[THEN unat_plus_one]
  have put: "count_votes W (smap_put g v (ro_playerVote r)) = count_votes W (ro_playerVote r) + (if v \<in> W then 1 else 0)"
    if "NOT_EMITED_YET \<notin> W" for W v
    using count_votes_put_old[OF inv assms(3), of W v] that by simp
  have len: "length (smap_put g v (ro_playerVote r)) = length (ro_playerVote r)" for v
    using length_put_known[OF inv, of g v] assms(3) by simp
  have vals: "(h, NOT_VALID) \<notin> set (smap_put g v (ro_playerVote r))" if "v \<noteq> NOT_VALID" for h v
    using assms(2) that set_smap_put_le[of g v "ro_playerVote r"] by (fastforce simp: exact_def)
  show ?thesis
    using assms(2,4) vals by (auto simp: exact_def cast_vote_def put len plus split: if_splits)
qed

lemma cast_nothing [simp]: "cast_vote E g MAX_ROLL_TYPE r = (r, [])"
  by (simp add: cast_vote_def)

lemma CountTheRoll_exact:
  assumes "all_exact st" and "CountTheRoll E i allowedMap st = Inr st1" shows "all_exact st1"
  using assms(1) CountTheRoll_removes[OF assms(2)] take_drop_subset[of i "rs_rolls st"] unfolding all_exact_def by auto

lemma CountRollVote_exact:
  assumes ok: "rolls_ok st" "all_exact st" and free: "unanswered g item st \<or> c = MAX_ROLL_TYPE"
    and vote: "CountRollVote E g item c st = Inr st1"
  shows "all_exact st1"
proof (cases "GetRoll item st")
  case (Some i)
  then have i: "i < length (rs_rolls st)" using GetRoll_Some by blast
  let ?r = "rs_rolls st ! i"
  obtain r1 msgs where cast: "cast_vote E g c ?r = (r1, msgs)" by fastforce
  let ?st = "st\<lparr>rs_rolls := (rs_rolls st)[i := r1], rs_out := rs_out st @ msgs\<rparr>"
  consider "st1 = st" | "smap_find (ro_playerVote ?r) g \<noteq> None" "\<not> all_voted r1" "st1 = ?st"
    | "smap_find (ro_playerVote ?r) g \<noteq> None" "all_voted r1" "CountTheRoll E i None ?st = Inr st1"
    using vote Some cast by (auto simp: CountRollVote_def Let_def split: if_splits option.splits)
  moreover have "all_exact ?st" if "smap_find (ro_playerVote ?r) g \<noteq> None"
  proof -
    have r: "roll_ok (rs_loots st) ?r" "exact ?r" using ok i by (auto simp: rolls_ok_def all_exact_def)
    have "exact r1"
    proof (cases "c = MAX_ROLL_TYPE")
      case False
      then have "smap_find (ro_playerVote ?r) g = Some NOT_EMITED_YET"
        using free Some that by (auto simp: unanswered_def split: option.splits)
      then show ?thesis using cast_vote_exact[OF r _ cast] by simp
    qed (use cast r(2) in simp)
    then show ?thesis
      using ok(2) set_update_subset_insert[of "rs_rolls st" i r1] by (auto simp: all_exact_def)
  qed
  ultimately show ?thesis using ok(2) CountTheRoll_exact by cases blast+
qed (use assms in \<open>auto simp: CountRollVote_def\<close>)

lemma forget_vote_exact:
  assumes "roll_ok loots r" and "exact r" and v: "smap_find (ro_playerVote r) g = Some v"
  shows "exact (forget_vote g v r)"
proof -
  have inv: "smap_inv (ro_playerVote r)" using assms(1) by (simp add: roll_ok_def)
  note er = count_votes_erase_old[OF inv v]
  have len: "length (smap_erase g (ro_playerVote r)) + 1 = length (ro_playerVote r)"
    using er[of UNIV] by (simp add: length_votes)
  have players: "unat (ro_totalPlayersRolling r) = length (ro_playerVote r)" using assms(2) by (simp add: exact_def)
  have "0 < unat (ro_totalPlayersRolling r)" unfolding players using len by linarith
  from unat_minus_one8[OF this] have "unat (ro_totalPlayersRolling r - 1) = length (smap_erase g (ro_playerVote r))"
    unfolding players using len by linarith
  moreover have "v \<noteq> NOT_VALID" using smap_find_SomeD[OF v] assms(2) by (auto simp: exact_def)
  moreover have "(h, NOT_VALID) \<notin> set (smap_erase g (ro_playerVote r))" for h
    using assms(2) by (auto simp: exact_def smap_erase_def)
  ultimately show ?thesis
    using assms(2) er[of "{NEED}"] er[of "{PASS}"] er[of "{GREED, DISENCHANT}"]
    by (cases v) (auto simp: exact_def forget_vote_def Let_def unat_minus_one8)
qed

lemma leave_roll_exact:
  assumes "rolls_ok st" and "all_exact st" and "i < length (rs_rolls st)" and "leave_roll E g i st = Inr st1"
  shows "all_exact st1"
proof (cases "smap_find (ro_playerVote (rs_rolls st ! i)) g")
  case (Some v)
  let ?st = "st\<lparr>rs_rolls := (rs_rolls st)[i := forget_vote g v (rs_rolls st ! i)]\<rparr>"
  have r: "roll_ok (rs_loots st) (rs_rolls st ! i)" "exact (rs_rolls st ! i)"
    using assms(1-3) by (simp_all add: rolls_ok_def all_exact_def)
  note sub = set_update_subset_insert[of "rs_rolls st" i "forget_vote g v (rs_rolls st ! i)"]
  have "rolls_ok ?st" using assms(1) forget_vote_ok[OF r(1) Some] sub by (auto simp: rolls_ok_def)
  moreover have "all_exact ?st" using assms(2) forget_vote_exact[OF r Some] sub by (auto simp: all_exact_def)
  moreover have "CountRollVote E g (ro_itemGUID (rs_rolls st ! i)) MAX_ROLL_TYPE ?st = Inr st1"
    using assms(4) Some by (simp add: leave_roll_def Let_def)
  ultimately show ?thesis using CountRollVote_exact by blast
qed (use assms in \<open>simp add: leave_roll_def\<close>)

lemma leave_rolls_exact: "rolls_ok st \<Longrightarrow> all_exact st \<Longrightarrow> leave_rolls E g st = Inr st1 \<Longrightarrow> all_exact st1"
proof -
  have "all_exact st1" if "rolls_ok st" "all_exact st" "leave_loop E g n i st = Inr st1" for n i st
    using that
  proof (induction E g n i st rule: leave_loop.induct)
    case (2 E g n i st)
    show ?case
    proof (cases "i < length (rs_rolls st)")
      case True
      then obtain st2 where st2: "leave_roll E g i st = Inr st2" "leave_loop E g n (Suc i) st2 = Inr st1"
        using 2(4) by (auto split: sum.splits)
      then show ?thesis
        using 2(1)[OF True st2(1)] leave_roll_ok[OF 2(2) True st2(1)] leave_roll_exact[OF 2(2,3) True st2(1)] by blast
    qed (use 2 in simp)
  qed simp
  then show "rolls_ok st \<Longrightarrow> all_exact st \<Longrightarrow> leave_rolls E g st = Inr st1 \<Longrightarrow> all_exact st1"
    unfolding leave_rolls_def by blast
qed

lemma end_rolls_subset: "end_rolls E a allowedMap n st = Inr st1 \<Longrightarrow> set (rs_rolls st1) \<subseteq> set (rs_rolls st)"
proof (induction n arbitrary: st)
  case (Suc n)
  show ?case
  proof (cases "find_loot_roll (rs_loots st) a 0 (rs_rolls st)")
    case (Some i)
    then obtain st2 where st2: "CountTheRoll E i allowedMap st = Inr st2" "end_rolls E a allowedMap n st2 = Inr st1"
      using Suc.prems by (auto split: sum.splits)
    then show ?thesis using Suc.IH CountTheRoll_removes take_drop_subset by (metis subset_trans)
  qed (use Suc.prems in simp)
qed simp

lemma EndRoll_exact: "all_exact st \<Longrightarrow> EndRoll E a allowedMap st = Inr st1 \<Longrightarrow> all_exact st1"
  using end_rolls_subset unfolding EndRoll_def all_exact_def by blast

text \<open>Opening: each member is added once.\<close>

lemma add_roller_exact:
  assumes "filling n r" and "n < 40" and "exact r" and "g \<notin> fst ` set (ro_playerVote r)"
  shows "exact (add_roller E passing li g r)"
proof -
  have "unat (ro_totalPlayersRolling r) \<le> 40" "unat (ro_totalPass r) \<le> 40" using assms(1,2) by (auto simp: filling_def)
  note plus = this[THEN unat_plus_one]
  have none: "smap_find (ro_playerVote r) g = None" using assms(4) by (simp add: smap_find_dom)
  note put = count_votes_put_new[OF none]
  have len: "length (smap_put g v (ro_playerVote r)) = Suc (length (ro_playerVote r))" for v
    using put[of UNIV v] by (simp add: length_votes)
  have vals: "(h, NOT_VALID) \<notin> set (smap_put g v (ro_playerVote r))" if "v \<noteq> NOT_VALID" for h v
    using assms(3) that set_smap_put_le[of g v "ro_playerVote r"] by (fastforce simp: exact_def)
  show ?thesis using assms(3) vals by (auto simp: exact_def add_roller_def Let_def plus put len)
qed

lemma add_rollers_exact:
  "filling n r \<Longrightarrow> n + length ms \<le> 40 \<Longrightarrow> exact r \<Longrightarrow> distinct ms \<Longrightarrow> set ms \<inter> fst ` set (ro_playerVote r) = {} \<Longrightarrow>
     exact (foldl (\<lambda>r g. add_roller E passing li g r) r ms)"
proof (induction ms arbitrary: n r)
  case (Cons g ms)
  let ?r = "add_roller E passing li g r"
  have "filling (Suc n) ?r" using Cons.prems(1,2) by (intro filling_add) auto
  moreover have "exact ?r" using Cons.prems by (intro add_roller_exact[of n]) auto
  moreover have "fst ` set (ro_playerVote ?r) \<subseteq> insert g (fst ` set (ro_playerVote r))"
    by (auto simp: add_roller_def Let_def fst_smap_put simp del: set_map)
  ultimately show ?case using Cons.IH[of "Suc n" ?r] Cons.prems(2,4,5) by auto
qed simp

lemma open_roll_exact:
  assumes "all_exact st" and "length members \<le> 40" and "distinct members"
  shows "all_exact (open_roll E needFirst members maxEnchantingLevel a newGuid slot li plain st)"
proof -
  let ?r = "foldl (\<lambda>r g. add_roller E (plain \<noteq> None) li g r) (mk_Roll newGuid li) members"
  have "exact (mk_Roll newGuid li)" by (simp add: exact_def mk_Roll_def count_votes_def)
  then have "exact ?r"
    using assms(2,3) filling_mk by (intro add_rollers_exact[of 0]) (auto simp: mk_Roll_def)
  then show ?thesis
    using assms(1) by (cases plain) (auto simp: all_exact_def open_roll_def Let_def disenchant_mask_def exact_def)
qed

lemma roll_items_exact:
  "all_exact st \<Longrightarrow> length members \<le> 40 \<Longrightarrow> distinct members \<Longrightarrow>
     roll_items E needFirst members maxEnchantingLevel threshold newGuid a slot lis st = Inr (slot1, st1) \<Longrightarrow> all_exact st1"
proof (induction lis arbitrary: slot st)
  case (Cons li lis)
  from Cons.prems(4) obtain st2 where
    st2: "roll_item E needFirst members maxEnchantingLevel threshold a (newGuid slot) slot li st = Inr st2"
      "roll_items E needFirst members maxEnchantingLevel threshold newGuid a (slot + 1) lis st2 = Inr (slot1, st1)"
    by (auto split: sum.splits)
  have "all_exact st2"
    using st2(1) Cons.prems(1) open_roll_exact[OF Cons.prems(1-3)]
    by (auto simp: roll_item_def all_exact_def split: if_splits option.splits)
  then show ?case using Cons.IH[OF _ Cons.prems(2,3) st2(2)] by blast
qed simp

lemma roll_quest_items_exact:
  "all_exact st \<Longrightarrow> length members \<le> 40 \<Longrightarrow> distinct members \<Longrightarrow>
     all_exact (roll_quest_items E needFirst members maxEnchantingLevel newGuid a slot lis st)"
proof (induction lis arbitrary: slot st)
  case (Cons li lis)
  then show ?case using open_roll_exact[OF Cons.prems] by (simp add: roll_quest_item_def)
qed simp

lemma start_rolls_exact:
  assumes "all_exact st" and "length members \<le> 40" and "distinct members"
    and "start_rolls E needFirst members maxEnchantingLevel threshold newGuid a st = Inr st1"
  shows "all_exact st1"
  using assms(1,4) roll_items_exact[OF assms(1-3)] roll_quest_items_exact[OF _ assms(2,3)]
  by (auto simp: start_rolls_def split: option.splits sum.splits)

section \<open>Steps as wholes\<close>

lemma start_rolls_keeps: "start_rolls E needFirst members maxEnchantingLevel threshold newGuid a st = Inr st1 \<Longrightarrow> set (rs_rolls st) \<subseteq> set (rs_rolls st1)"
proof -
  have one: "set (rs_rolls st) \<subseteq> set (rs_rolls (open_roll E needFirst members maxEnchantingLevel a g slot li plain st))" for g slot li plain st
    by (auto simp: open_roll_def Let_def)
  have items: "roll_items E needFirst members maxEnchantingLevel threshold newGuid a slot lis st = Inr (slot1, st1) \<Longrightarrow> set (rs_rolls st) \<subseteq> set (rs_rolls st1)"
    for slot lis slot1 st st1
  proof (induction lis arbitrary: slot st)
    case (Cons li lis)
    then obtain st2 where "roll_item E needFirst members maxEnchantingLevel threshold a (newGuid slot) slot li st = Inr st2"
      "set (rs_rolls st2) \<subseteq> set (rs_rolls st1)" by (auto split: sum.splits)
    then show ?case using one by (fastforce simp: roll_item_def split: if_splits option.splits)
  qed simp
  have quest: "set (rs_rolls st) \<subseteq> set (rs_rolls (roll_quest_items E needFirst members maxEnchantingLevel newGuid a slot lis st))" for slot lis st
    by (induction lis arbitrary: slot st) (use one in \<open>fastforce simp: roll_quest_item_def\<close>)+
  assume "start_rolls E needFirst members maxEnchantingLevel threshold newGuid a st = Inr st1"
  then show ?thesis
    using items quest by (fastforce simp: start_rolls_def split: option.splits sum.splits)
qed

text \<open>Only linked rolls are taken away.\<close>

definition cut_off :: "guid \<Rightarrow> roll_state \<Rightarrow> bool" where
  "cut_off item st \<longleftrightarrow> (\<exists>r \<in> set (rs_rolls st). ro_itemGUID r = item \<and> ro_loot r = None)"

lemma in_take_drop: "x \<in> set xs \<Longrightarrow> x \<noteq> xs ! i \<Longrightarrow> i < length xs \<Longrightarrow> x \<in> set (take i xs @ drop (Suc i) xs)"
  using id_take_nth_drop[of i xs] by (metis Un_iff list.set_intros(2) set_ConsD set_append)

lemma cut_off_update:
  assumes "cut_off item st" and "i < length (rs_rolls st)" and "ro_itemGUID r1 = ro_itemGUID (rs_rolls st ! i)" and "ro_loot r1 = ro_loot (rs_rolls st ! i)"
  shows "cut_off item (st\<lparr>rs_rolls := (rs_rolls st)[i := r1], rs_out := out\<rparr>)" "cut_off item (st\<lparr>rs_rolls := (rs_rolls st)[i := r1]\<rparr>)"
proof -
  obtain k where k: "k < length (rs_rolls st)" "ro_itemGUID (rs_rolls st ! k) = item" "ro_loot (rs_rolls st ! k) = None"
    using assms(1) by (auto simp: cut_off_def in_set_conv_nth)
  have "\<exists>r \<in> set ((rs_rolls st)[i := r1]). ro_itemGUID r = item \<and> ro_loot r = None"
    using k assms(2-4) by (intro bexI[OF _ nth_mem[of k]]) (auto simp: nth_list_update)
  then show "cut_off item (st\<lparr>rs_rolls := (rs_rolls st)[i := r1], rs_out := out\<rparr>)" "cut_off item (st\<lparr>rs_rolls := (rs_rolls st)[i := r1]\<rparr>)"
    by (simp_all add: cut_off_def)
qed

lemma cut_off_CountTheRoll:
  assumes "cut_off item st" and "i < length (rs_rolls st)" and "ro_loot (rs_rolls st ! i) \<noteq> None" and "CountTheRoll E i allowedMap st = Inr st1"
  shows "cut_off item st1"
proof -
  obtain r where "r \<in> set (rs_rolls st)" "ro_itemGUID r = item" "ro_loot r = None" using assms(1) by (auto simp: cut_off_def)
  moreover from this have "r \<in> set (rs_rolls st1)"
    using in_take_drop[of r "rs_rolls st" i] assms(2,3) CountTheRoll_removes[OF assms(4)] by force
  ultimately show ?thesis unfolding cut_off_def by blast
qed

lemma cut_off_CountRollVote:
  assumes "cut_off item st" and vote: "CountRollVote E g it c st = Inr st1" shows "cut_off item st1"
proof (cases "GetRoll it st")
  case (Some i)
  note i = GetRoll_Some[OF Some]
  let ?r = "rs_rolls st ! i"
  obtain r1 msgs where cast: "cast_vote E g c ?r = (r1, msgs)" by fastforce
  let ?st = "st\<lparr>rs_rolls := (rs_rolls st)[i := r1], rs_out := rs_out st @ msgs\<rparr>"
  have same: "ro_itemGUID r1 = ro_itemGUID ?r" "ro_loot r1 = ro_loot ?r" using cast_vote_same[of E g c ?r] cast by simp_all
  then have cut: "cut_off item ?st" using cut_off_update(1) assms(1) i by blast
  moreover have "ro_loot (rs_rolls ?st ! i) \<noteq> None" using i same by (auto simp: isValid_def getLoot_def split: option.splits)
  moreover consider "st1 = st" | "\<not> all_voted r1" "st1 = ?st" | "all_voted r1" "CountTheRoll E i None ?st = Inr st1"
    using vote Some cast by (auto simp: CountRollVote_def Let_def split: if_splits option.splits)
  ultimately show ?thesis using assms(1) i cut_off_CountTheRoll[OF cut, of i E None st1] by cases auto
qed (use assms in \<open>simp add: CountRollVote_def\<close>)

lemma cut_off_leave: "cut_off item st \<Longrightarrow> leave_rolls E g st = Inr st1 \<Longrightarrow> cut_off item st1"
proof -
  have roll: "cut_off item st1" if "cut_off item st" "i < length (rs_rolls st)" "leave_roll E g i st = Inr st1" for i st st1
  proof (cases "smap_find (ro_playerVote (rs_rolls st ! i)) g")
    case (Some v)
    then show ?thesis
      using that cut_off_update(2)[OF that(1,2), of "forget_vote g v (rs_rolls st ! i)"] cut_off_CountRollVote
      by (auto simp: leave_roll_def Let_def)
  qed (use that in \<open>simp add: leave_roll_def\<close>)
  have "cut_off item st \<Longrightarrow> leave_loop E g n i st = Inr st1 \<Longrightarrow> cut_off item st1" for n i
  proof (induction n arbitrary: i st)
    case (Suc n)
    show ?case
    proof (cases "i < length (rs_rolls st)")
      case True
      then obtain st2 where st2: "leave_roll E g i st = Inr st2" "leave_loop E g n (Suc i) st2 = Inr st1"
        using Suc.prems(2) by (auto split: sum.splits)
      then show ?thesis using Suc.IH[OF roll[OF Suc.prems(1) True st2(1)] st2(2)] by blast
    qed (use Suc.prems in simp)
  qed simp
  then show "cut_off item st \<Longrightarrow> leave_rolls E g st = Inr st1 \<Longrightarrow> cut_off item st1" unfolding leave_rolls_def by blast
qed

lemma cut_off_EndRoll: "cut_off item st \<Longrightarrow> EndRoll E a allowedMap st = Inr st1 \<Longrightarrow> cut_off item st1"
proof -
  have "cut_off item st \<Longrightarrow> end_rolls E a allowedMap n st = Inr st1 \<Longrightarrow> cut_off item st1" for n
  proof (induction n arbitrary: st)
    case (Suc n)
    show ?case
    proof (cases "find_loot_roll (rs_loots st) a 0 (rs_rolls st)")
      case (Some i)
      then obtain st2 where st2: "CountTheRoll E i allowedMap st = Inr st2" "end_rolls E a allowedMap n st2 = Inr st1"
        using Suc.prems(2) by (auto split: sum.splits)
      have "i < length (rs_rolls st) \<and> ro_loot (rs_rolls st ! i) \<noteq> None"
        using find_loot_roll_Some[OF Some] by (auto simp: linked_to_def)
      then show ?thesis using Suc.IH[OF _ st2(2)] cut_off_CountTheRoll[OF Suc.prems(1) _ _ st2(1)] by blast
    qed (use Suc.prems in simp)
  qed simp
  then show "cut_off item st \<Longrightarrow> EndRoll E a allowedMap st = Inr st1 \<Longrightarrow> cut_off item st1" unfolding EndRoll_def by blast
qed

lemma EndRoll_ok: "rolls_ok st \<Longrightarrow> EndRoll E a allowedMap st = Inr st1 \<Longrightarrow> rolls_ok st1 \<and> same_sizes st st1"
  unfolding EndRoll_def by (rule end_rolls_ok)

lemma leave_rolls_ok: "rolls_ok st \<Longrightarrow> leave_rolls E g st = Inr st1 \<Longrightarrow> rolls_ok st1 \<and> same_sizes st st1"
  unfolding leave_rolls_def by (rule leave_loop_ok)

end
