(* ===== verification/GroupRules.thy ===== *)
theory GroupRules
  imports GroupRolls
begin

text \<open>
  Loots, rolls, votes, leaving members and timers in any order: what holds in every state that is reached, who wins a
  roll, and the rolls that end too early or not before the timer.
\<close>

section \<open>What happens to the rolls of a group\<close>

text \<open>
  Loots are filled, looted and cleared; the members near one get rolls; votes, leaving members and timers come in any
  order. The world around a roll is another one at each step. Votes come from any client: with \<open>once\<close> the runs are those in
  which no player answers a roll twice, without it all runs.
\<close>

inductive roll_step :: "bool \<Rightarrow> roll_state \<Rightarrow> roll_state \<Rightarrow> bool" for once where
  loot_appears: "rs_loots st a = None \<Longrightarrow> items_of l \<le> 255 \<Longrightarrow> roll_step once st (st\<lparr>rs_loots := (rs_loots st)(a \<mapsto> l)\<rparr>)"
| loot_changes: "rs_loots st a = Some l \<Longrightarrow> items_of l1 = items_of l \<Longrightarrow> roll_step once st (st\<lparr>rs_loots := (rs_loots st)(a \<mapsto> l1)\<rparr>)"
| loot_cleared: "roll_step once st (Loot_clear a st)"
| group_loot: "length members \<le> 40 \<Longrightarrow> distinct members \<Longrightarrow>
    GroupLoot E members maxEnchantingLevel threshold newGuid a st = Inr st1 \<Longrightarrow> roll_step once st st1"
| need_before_greed: "length members \<le> 40 \<Longrightarrow> distinct members \<Longrightarrow>
    NeedBeforeGreed E members maxEnchantingLevel threshold newGuid a st = Inr st1 \<Longrightarrow> roll_step once st st1"
| vote: "(once \<longrightarrow> unanswered g item st) \<Longrightarrow> CountRollVote E g item c st = Inr st1 \<Longrightarrow> roll_step once st st1"
| leave: "leave_rolls E g st = Inr st1 \<Longrightarrow> roll_step once st st1"
| timer: "EndRoll E a allowedMap st = Inr st1 \<Longrightarrow> roll_step once st st1"

inductive rolls_reached :: "bool \<Rightarrow> roll_state \<Rightarrow> bool" for once where
  no_rolls: "rolls_reached once \<lparr>rs_rolls = [], rs_loots = \<lambda>a. None, rs_out = []\<rparr>"
| one_more: "rolls_reached once st \<Longrightarrow> roll_step once st st1 \<Longrightarrow> rolls_reached once st1"

definition sizes_ok :: "roll_state \<Rightarrow> bool" where
  "sizes_ok st \<longleftrightarrow> (\<forall>a l. rs_loots st a = Some l \<longrightarrow> items_of l \<le> 255)"

lemma sizes_ok_same: "sizes_ok st \<Longrightarrow> same_sizes st st1 \<Longrightarrow> sizes_ok st1"
  unfolding sizes_ok_def same_sizes_def by (metis option.map(2) option.sel map_option_eq_Some)

lemma Loot_clear_ok: "rolls_ok st \<Longrightarrow> rolls_ok (Loot_clear a st)"
  by (force simp: rolls_ok_def roll_ok_def Loot_clear_def counted_def votes_cast_def)

lemma Loot_clear_exact: "all_exact st \<Longrightarrow> all_exact (Loot_clear a st)"
  by (auto simp: all_exact_def exact_def Loot_clear_def)

lemma roll_step_ok: "roll_step once st st1 \<Longrightarrow> rolls_ok st \<Longrightarrow> sizes_ok st \<Longrightarrow> rolls_ok st1 \<and> sizes_ok st1"
proof (induction rule: roll_step.induct)
  case (loot_appears st a l)
  have "roll_ok ((rs_loots st)(a \<mapsto> l)) r" if "roll_ok (rs_loots st) r" for r
    using that loot_appears(1) by (auto simp: roll_ok_def)
  then show ?case using loot_appears by (auto simp: rolls_ok_def sizes_ok_def)
next
  case (loot_changes st a l l1)
  then have same: "same_sizes st (st\<lparr>rs_loots := (rs_loots st)(a \<mapsto> l1)\<rparr>)" by (simp add: same_sizes_def)
  then show ?case using loot_changes(3) roll_ok_sizes[OF same] sizes_ok_same[OF loot_changes(4) same] by (auto simp: rolls_ok_def)
next
  case (loot_cleared st a)
  then show ?case using Loot_clear_ok by (auto simp: sizes_ok_def Loot_clear_def)
next
  case (group_loot members E maxEnchantingLevel threshold newGuid a st st1)
  then have "rolls_ok st1 \<and> same_sizes st st1"
    by (intro start_rolls_ok[of st members a E]) (auto simp: GroupLoot_def sizes_ok_def)
  then show ?case using group_loot(5) sizes_ok_same by blast
next
  case (need_before_greed members E maxEnchantingLevel threshold newGuid a st st1)
  then have "rolls_ok st1 \<and> same_sizes st st1"
    by (intro start_rolls_ok[of st members a E]) (auto simp: NeedBeforeGreed_def sizes_ok_def)
  then show ?case using need_before_greed(5) sizes_ok_same by blast
next
  case (vote g item st E c st1)
  then show ?case using CountRollVote_ok sizes_ok_same by blast
next
  case (leave E g st st1)
  then show ?case using leave_rolls_ok sizes_ok_same by blast
next
  case (timer E a allowedMap st st1)
  then show ?case using EndRoll_ok sizes_ok_same by blast
qed

lemma rolls_reached_ok: "rolls_reached once st \<Longrightarrow> rolls_ok st \<and> sizes_ok st"
proof (induction rule: rolls_reached.induct)
  case no_rolls
  then show ?case by (simp add: rolls_ok_def sizes_ok_def)
next
  case (one_more st st1)
  then show ?case using roll_step_ok by blast
qed

lemma roll_step_exact: "roll_step once st st1 \<Longrightarrow> once \<Longrightarrow> rolls_ok st \<Longrightarrow> all_exact st \<Longrightarrow> all_exact st1"
proof (induction rule: roll_step.induct)
  case (loot_cleared st a)
  then show ?case using Loot_clear_exact by blast
next
  case (group_loot members E maxEnchantingLevel threshold newGuid a st st1)
  then show ?case using start_rolls_exact unfolding GroupLoot_def by blast
next
  case (need_before_greed members E maxEnchantingLevel threshold newGuid a st st1)
  then show ?case using start_rolls_exact unfolding NeedBeforeGreed_def by blast
next
  case (vote g item st E c st1)
  then show ?case using CountRollVote_exact by blast
next
  case (leave E g st st1)
  then show ?case using leave_rolls_exact by blast
next
  case (timer E a allowedMap st st1)
  then show ?case using EndRoll_exact by blast
qed (simp_all add: all_exact_def)

lemma rolls_reached_exact: "rolls_reached once st \<Longrightarrow> once \<Longrightarrow> all_exact st"
proof (induction rule: rolls_reached.induct)
  case no_rolls
  then show ?case by (simp add: all_exact_def)
next
  case (one_more st st1)
  then show ?case using roll_step_exact rolls_reached_ok by blast
qed

lemma roll_step_cut_off: "roll_step once st st1 \<Longrightarrow> cut_off item st \<Longrightarrow> cut_off item st1"
proof (induction rule: roll_step.induct)
  case (loot_cleared st a)
  then show ?case by (force simp: cut_off_def Loot_clear_def)
next
  case (group_loot members E maxEnchantingLevel threshold newGuid a st st1)
  then show ?case using start_rolls_keeps unfolding GroupLoot_def cut_off_def by blast
next
  case (need_before_greed members E maxEnchantingLevel threshold newGuid a st st1)
  then show ?case using start_rolls_keeps unfolding NeedBeforeGreed_def cut_off_def by blast
next
  case (vote g it st E c st1)
  then show ?case using cut_off_CountRollVote by blast
next
  case (leave E g st st1)
  then show ?case using cut_off_leave by blast
next
  case (timer E a allowedMap st st1)
  then show ?case using cut_off_EndRoll by blast
qed (simp_all add: cut_off_def)

lemma CountTheRoll_inside_slot:
  assumes "\<And>l. getLoot (rs_loots st) (rs_rolls st ! i) = Some l \<Longrightarrow> unat (ro_itemSlot (rs_rolls st ! i)) < items_of l"
  shows "CountTheRoll E i allowedMap st \<noteq> Inl OutsideLoot"
proof (cases "getLoot (rs_loots st) (rs_rolls st ! i)")
  case (Some l)
  let ?r = "rs_rolls st ! i"
  have slot: "unat (ro_itemSlot ?r) < items_of l" using assms Some by blast
  have half: "count_half E allowedMap ?r W n l1 \<noteq> Inl OutsideLoot" if "items_of l1 = items_of l" for W n l1
    using slot that slot_item_Some[of l1 "ro_itemSlot ?r"]
    by (auto simp: count_half_def count_kind_def Let_def split: prod.splits)
  have there: "items_of l1 \<noteq> items_of l" if "slot_item l1 (ro_itemSlot ?r) = None" for l1
    using slot that slot_item_Some[of l1 "ro_itemSlot ?r"] by auto
  show ?thesis
    using Some half
    by (auto simp: CountTheRoll_def Let_def split: sum.splits prod.splits if_splits dest!: count_half_sizes there)
qed (simp add: CountTheRoll_def Let_def)

lemma CountTheRoll_inside: "roll_ok (rs_loots st) (rs_rolls st ! i) \<Longrightarrow> CountTheRoll E i allowedMap st \<noteq> Inl OutsideLoot"
  by (rule CountTheRoll_inside_slot) (rule roll_ok_slot)

lemma end_rolls_inside: "rolls_ok st \<Longrightarrow> end_rolls E a allowedMap n st \<noteq> Inl OutsideLoot"
proof (induction n arbitrary: st)
  case (Suc n)
  have "CountTheRoll E i allowedMap st \<noteq> Inl OutsideLoot" if "find_loot_roll (rs_loots st) a 0 (rs_rolls st) = Some i" for i
    using find_loot_roll_Some[OF that] Suc.prems by (intro CountTheRoll_inside) (auto simp: rolls_ok_def)
  then show ?case using Suc.IH CountTheRoll_ok[OF Suc.prems] by (auto split: option.splits sum.splits)
qed simp

section \<open>An example\<close>

text \<open>Three players near one item; the first needs it, the second wants it, the third has not answered.\<close>

definition demo_env :: loot_env where
  "demo_env =
     \<lparr>le_connected = \<lambda>g. True, le_inWorld = \<lambda>g. True, le_session = \<lambda>g. True, le_FindMap = \<lambda>g. Some 0, le_near = \<lambda>g. True,
      le_AllowedForPlayer = \<lambda>li g. True, le_PassOnGroupLoot = \<lambda>g. False, le_mapId = 33,
      le_template = \<lambda>i. Some \<lparr>lt_Quality = 2, lt_DisenchantID = 0, lt_RequiredDisenchantSkill = 0, lt_onlyGreed = False\<rparr>,
      le_canRollInLFG = \<lambda>g i. True, le_canStore = \<lambda>i g. 0, le_draw = \<lambda>i g. if g = 1 then 10 else if g = 2 then 90 else 50\<rparr>"

definition demo_loot :: Loot where
  "demo_loot =
     \<lparr>lo_items = [\<lparr>li_itemid = 117, li_randomSuffix = 0, li_randomPropertyId = 0, li_count = 1, li_rollWinnerGUID = 0, li_is_looted = False,
                   li_is_blocked = False, li_freeforall = False, li_is_underthreshold = False, li_follow_loot_rules = False\<rparr>],
      lo_quest_items = [], lo_unlootedCount = 1\<rparr>"

definition demo_corpse :: roll_state where
  "demo_corpse = (let st = \<lparr>rs_rolls = [], rs_loots = \<lambda>a. None, rs_out = []\<rparr> in st\<lparr>rs_loots := (rs_loots st)(0 \<mapsto> demo_loot)\<rparr>)"

definition demo_opened :: roll_state where
  "demo_opened = projr (GroupLoot demo_env [1, 2, 3] 0 2 (\<lambda>slot. 7) 0 demo_corpse)"

definition demo_first :: roll_state where
  "demo_first = projr (CountRollVote demo_env 1 7 ROLL_NEED demo_opened)"

definition demo_voted :: roll_state where
  "demo_voted = projr (CountRollVote demo_env 2 7 ROLL_GREED demo_first)"

lemma demo_corpse_reached: "rolls_reached True demo_corpse"
  unfolding demo_corpse_def Let_def
  by (rule one_more[OF no_rolls loot_appears]) (simp_all add: demo_loot_def items_of_def)

lemma demo_opened_reached: "rolls_reached True demo_opened"
proof -
  have "\<not> isl (GroupLoot demo_env [1, 2, 3] 0 2 (\<lambda>slot. 7) 0 demo_corpse)" by code_simp
  then have "GroupLoot demo_env [1, 2, 3] 0 2 (\<lambda>slot. 7) 0 demo_corpse = Inr demo_opened" by (simp add: demo_opened_def)
  then show ?thesis by (rule one_more[OF demo_corpse_reached group_loot, rotated 2]) simp_all
qed

lemma demo_voted_reached: "rolls_reached True demo_voted"
proof -
  have "\<not> isl (CountRollVote demo_env 1 7 ROLL_NEED demo_opened)" by code_simp
  then have one: "CountRollVote demo_env 1 7 ROLL_NEED demo_opened = Inr demo_first" by (simp add: demo_first_def)
  have "\<not> isl (CountRollVote demo_env 2 7 ROLL_GREED demo_first)" by code_simp
  then have "CountRollVote demo_env 2 7 ROLL_GREED demo_first = Inr demo_voted" by (simp add: demo_voted_def)
  moreover have "unanswered 1 7 demo_opened" "unanswered 2 7 demo_first" by code_simp+
  ultimately show ?thesis
    using one_more[OF one_more[OF demo_opened_reached vote[OF _ one]] vote] by blast
qed

section \<open>The properties\<close>

lemma CountRollVote_inside:
  assumes "rolls_ok st" shows "CountRollVote E g item c st \<noteq> Inl OutsideLoot"
proof (cases "GetRoll item st")
  case (Some i)
  then have i: "i < length (rs_rolls st)" using GetRoll_Some by blast
  let ?r = "rs_rolls st ! i"
  obtain r1 msgs where cast: "cast_vote E g c ?r = (r1, msgs)" by fastforce
  let ?st = "st\<lparr>rs_rolls := (rs_rolls st)[i := r1], rs_out := rs_out st @ msgs\<rparr>"
  have same: "ro_loot r1 = ro_loot ?r" "ro_itemSlot r1 = ro_itemSlot ?r"
    using cast_vote_same[of E g c ?r] cast by simp_all
  have "CountTheRoll E i None ?st \<noteq> Inl OutsideLoot"
  proof (rule CountTheRoll_inside_slot)
    fix l assume "getLoot (rs_loots ?st) (rs_rolls ?st ! i) = Some l"
    then have l: "getLoot (rs_loots st) ?r = Some l" using i same by (simp add: getLoot_def)
    have "roll_ok (rs_loots st) ?r" using assms i by (simp add: rolls_ok_def)
    from roll_ok_slot[OF this l] show "unat (ro_itemSlot (rs_rolls ?st ! i)) < items_of l" using i same by simp
  qed
  then show ?thesis using Some cast by (simp add: CountRollVote_def Let_def)
qed (simp add: CountRollVote_def)

lemma leave_loop_inside: "rolls_ok st \<Longrightarrow> leave_loop E g n i st \<noteq> Inl OutsideLoot"
proof (induction n arbitrary: i st)
  case (Suc n)
  show ?case
  proof (cases "i < length (rs_rolls st)")
    case True
    have "leave_roll E g i st \<noteq> Inl OutsideLoot"
    proof (cases "smap_find (ro_playerVote (rs_rolls st ! i)) g")
      case (Some v)
      have "rolls_ok (st\<lparr>rs_rolls := (rs_rolls st)[i := forget_vote g v (rs_rolls st ! i)]\<rparr>)"
        using Suc.prems True forget_vote_ok[OF _ Some] set_update_subset_insert[of "rs_rolls st" i "forget_vote g v (rs_rolls st ! i)"]
        by (auto simp: rolls_ok_def)
      then show ?thesis using CountRollVote_inside Some by (auto simp: leave_roll_def Let_def)
    qed (simp add: leave_roll_def Let_def)
    then show ?thesis using True Suc.IH leave_roll_ok[OF Suc.prems True] by (auto split: sum.splits)
  qed simp
qed simp

lemma roll_result_best:
  "case roll_result E allowedMap r of
     None \<Rightarrow> present E allowedMap {NEED, GREED, DISENCHANT} (ro_playerVote r) = []
   | Some (g, v) \<Rightarrow>
       (g, v) \<in> set (present E allowedMap {NEED, GREED, DISENCHANT} (ro_playerVote r))
     \<and> (\<forall>(h, w) \<in> set (present E allowedMap {NEED, GREED, DISENCHANT} (ro_playerVote r)).
          if w = NEED then v = NEED \<and> le_draw E (ro_itemGUID r) h \<le> le_draw E (ro_itemGUID r) g
          else v \<noteq> NEED \<longrightarrow> le_draw E (ro_itemGUID r) h \<le> le_draw E (ro_itemGUID r) g)"
proof -
  have split: "x \<in> set (present E allowedMap {NEED, GREED, DISENCHANT} (ro_playerVote r)) \<longleftrightarrow>
      x \<in> set (present E allowedMap {NEED} (ro_playerVote r)) \<or> x \<in> set (present E allowedMap {GREED, DISENCHANT} (ro_playerVote r))" for x
    by (auto simp: present_def)
  have need: "w = NEED" if "(h, w) \<in> set (present E allowedMap {NEED} (ro_playerVote r))" for h w
    using that by (simp add: present_def)
  have greed: "w \<noteq> NEED" if "(h, w) \<in> set (present E allowedMap {GREED, DISENCHANT} (ro_playerVote r))" for h w
    using that by (auto simp: present_def)
  have "present E allowedMap {NEED, GREED, DISENCHANT} (ro_playerVote r) = []"
    if "present E allowedMap {NEED} (ro_playerVote r) = []" "present E allowedMap {GREED, DISENCHANT} (ro_playerVote r) = []"
  proof -
    have "x \<notin> set (present E allowedMap {NEED, GREED, DISENCHANT} (ro_playerVote r))" for x
      using that split[of x] by simp
    then show ?thesis by (metis last_in_set)
  qed
  then show ?thesis
    using need greed split
    by (fastforce simp: roll_result_def split: option.splits dest: first_highest_best)
qed

text \<open>A vote for need given again and again by one player.\<close>

fun vote_often :: "loot_env \<Rightarrow> guid \<Rightarrow> guid \<Rightarrow> u8 \<Rightarrow> nat \<Rightarrow> roll_state \<Rightarrow> loot_error + roll_state" where
  "vote_often E g item c 0 st = Inr st"
| "vote_often E g item c (Suc n) st = (case CountRollVote E g item c st of Inl e \<Rightarrow> Inl e | Inr st1 \<Rightarrow> vote_often E g item c n st1)"

text \<open>Nobody has answered yet.\<close>

definition fresh :: "Roll \<Rightarrow> bool" where
  "fresh r \<longleftrightarrow> ro_totalNeed r = 0 \<and> ro_totalGreed r = 0 \<and> ro_totalPass r = 0 \<and> (\<forall>(g, v) \<in> set (ro_playerVote r). v = NOT_EMITED_YET)"

lemma smap_put_twice: "smap_put g v (smap_put g w vs) = smap_put g v (vs :: (guid \<times> RollVote) list)"
  by (induction g w vs rule: smap_put.induct) auto

lemma smap_put_not_Nil: "smap_put g v vs \<noteq> []"
  by (cases vs) (auto split: if_splits)

lemma find_roll_cong:
  "map (\<lambda>r. (ro_itemGUID r, ro_loot r)) rs = map (\<lambda>r. (ro_itemGUID r, ro_loot r)) rs1 \<Longrightarrow> find_roll g loots k rs = find_roll g loots k rs1"
proof (induction rs arbitrary: rs1 k)
  case (Cons r rs)
  then show ?case by (cases rs1) (auto simp: isValid_def getLoot_def)
qed simp

lemma present_put:
  "\<forall>(h, w) \<in> set vs. w \<notin> W \<Longrightarrow> v \<in> W \<Longrightarrow> \<not> absent E m g \<Longrightarrow> present E m W (smap_put g v vs) = [(g, v)]"
  by (induction g v vs rule: smap_put.induct) (auto simp: present_def filter_empty_conv)

text \<open>The state of a roll after \<open>k\<close> such votes, one after the other, on the roll \<open>i\<close>.\<close>

definition needed :: "guid \<Rightarrow> nat \<Rightarrow> nat \<Rightarrow> roll_state \<Rightarrow> roll_state \<Rightarrow> bool" where
  "needed g i k st s \<longleftrightarrow>
     (\<exists>vs. (vs = ro_playerVote (rs_rolls st ! i) \<or> vs = smap_put g NEED (ro_playerVote (rs_rolls st ! i)))
       \<and> rs_rolls s = (rs_rolls st)[i := (rs_rolls st ! i)\<lparr>ro_totalNeed := of_nat k, ro_playerVote := vs\<rparr>] \<and> rs_loots s = rs_loots st)"

lemma needed_vote:
  assumes s: "needed g i k st s" and roll: "GetRoll item st = Some i" "fresh (rs_rolls st ! i)"
    and g: "smap_find (ro_playerVote (rs_rolls st ! i)) g \<noteq> None" and inv: "smap_inv (ro_playerVote (rs_rolls st ! i))"
    and loot: "getLoot (rs_loots st) (rs_rolls st ! i) = Some l" "lo_items l \<noteq> []"
  shows "\<exists>s1. rs_rolls s1 = (rs_rolls st)[i := (rs_rolls st ! i)\<lparr>ro_totalNeed := of_nat (Suc k),
               ro_playerVote := smap_put g NEED (ro_playerVote (rs_rolls st ! i))\<rparr>] \<and> rs_loots s1 = rs_loots st
          \<and> CountRollVote E g item ROLL_NEED s = (if all_voted (rs_rolls s1 ! i) then CountTheRoll E i None s1 else Inr s1)"
proof -
  let ?r = "rs_rolls st ! i"
  have i: "i < length (rs_rolls st)" using GetRoll_Some[OF roll(1)] by blast
  from s obtain vs where vs: "vs = ro_playerVote ?r \<or> vs = smap_put g NEED (ro_playerVote ?r)"
    and rolls: "rs_rolls s = (rs_rolls st)[i := ?r\<lparr>ro_totalNeed := of_nat k, ro_playerVote := vs\<rparr>]" and loots: "rs_loots s = rs_loots st"
    by (auto simp: needed_def)
  have "map (\<lambda>r. (ro_itemGUID r, ro_loot r)) (rs_rolls s) = map (\<lambda>r. (ro_itemGUID r, ro_loot r)) (rs_rolls st)"
    using i by (simp add: rolls map_update list_update_same_conv)
  from find_roll_cong[OF this, of item "rs_loots st" 0] have get: "GetRoll item s = Some i"
    using roll(1) by (simp add: GetRoll_def loots)
  have at: "rs_rolls s ! i = ?r\<lparr>ro_totalNeed := of_nat k, ro_playerVote := vs\<rparr>" using i rolls by simp
  obtain v where known: "smap_find vs g = Some v" using vs g inv by (auto simp: smap.lkp_put)
  have put: "smap_put g NEED vs = smap_put g NEED (ro_playerVote ?r)" using vs smap_put_twice by auto
  have l: "getLoot (rs_loots s) (rs_rolls s ! i) = Some l" using loot(1) at loots by (simp add: getLoot_def)
  let ?msgs = "SendLootRoll E 0 g 0 0 (?r\<lparr>ro_totalNeed := of_nat k, ro_playerVote := vs\<rparr>)"
  show ?thesis
    using get known l loot(2) at put i
    by (intro exI[of _ "s\<lparr>rs_rolls := (rs_rolls s)[i := ?r\<lparr>ro_totalNeed := of_nat (Suc k), ro_playerVote := smap_put g NEED vs\<rparr>],
          rs_out := rs_out s @ ?msgs\<rparr>"])
      (simp add: CountRollVote_def cast_vote_def Let_def rolls loots add.commute)
qed

lemma vote_often_needed:
  assumes roll: "GetRoll item st = Some i" "fresh (rs_rolls st ! i)"
    and g: "smap_find (ro_playerVote (rs_rolls st ! i)) g \<noteq> None" and inv: "smap_inv (ro_playerVote (rs_rolls st ! i))"
    and loot: "getLoot (rs_loots st) (rs_rolls st ! i) = Some l" "lo_items l \<noteq> []"
  shows "needed g i k st s \<Longrightarrow> k + Suc n = unat (ro_totalPlayersRolling (rs_rolls st ! i)) \<Longrightarrow>
    \<exists>s1. vote_often E g item ROLL_NEED (Suc n) s = CountTheRoll E i None s1
       \<and> rs_rolls s1 = (rs_rolls st)[i := (rs_rolls st ! i)\<lparr>ro_totalNeed := ro_totalPlayersRolling (rs_rolls st ! i),
               ro_playerVote := smap_put g NEED (ro_playerVote (rs_rolls st ! i))\<rparr>] \<and> rs_loots s1 = rs_loots st"
proof (induction n arbitrary: k s)
  case (0 k s)
  let ?r = "rs_rolls st ! i"
  have i: "i < length (rs_rolls st)" using GetRoll_Some[OF roll(1)] by blast
  have "Suc k = unat (ro_totalPlayersRolling ?r)" using 0(2) by simp
  then have p: "of_nat (Suc k) = ro_totalPlayersRolling ?r" by (simp del: of_nat_Suc)
  from needed_vote[OF 0(1) roll g inv loot, of E] obtain s1 where
    s1: "rs_rolls s1 = (rs_rolls st)[i := ?r\<lparr>ro_totalNeed := ro_totalPlayersRolling ?r, ro_playerVote := smap_put g NEED (ro_playerVote ?r)\<rparr>]"
      "rs_loots s1 = rs_loots st"
      "CountRollVote E g item ROLL_NEED s = (if all_voted (rs_rolls s1 ! i) then CountTheRoll E i None s1 else Inr s1)"
    unfolding p by blast
  moreover have "all_voted (rs_rolls s1 ! i)" using i by (simp add: s1(1) all_voted_def)
  ultimately show ?case by (intro exI[of _ s1]) (simp split: sum.splits)
next
  case (Suc n k s)
  let ?r = "rs_rolls st ! i"
  have i: "i < length (rs_rolls st)" using GetRoll_Some[OF roll(1)] by blast
  from needed_vote[OF Suc.prems(1) roll g inv loot, of E] obtain s1 where
    s1: "rs_rolls s1 = (rs_rolls st)[i := ?r\<lparr>ro_totalNeed := of_nat (Suc k), ro_playerVote := smap_put g NEED (ro_playerVote ?r)\<rparr>]"
      "rs_loots s1 = rs_loots st"
      "CountRollVote E g item ROLL_NEED s = (if all_voted (rs_rolls s1 ! i) then CountTheRoll E i None s1 else Inr s1)"
    by blast
  have lt: "Suc k < unat (ro_totalPlayersRolling ?r)" using Suc.prems(2) by simp
  moreover have "unat (ro_totalPlayersRolling ?r) < 2 ^ LENGTH(8)" by (rule unsigned_less)
  ultimately have "unat (of_nat (Suc k) :: u8) = Suc k" by (simp add: unat_of_nat del: of_nat_Suc)
  then have "\<not> all_voted (rs_rolls s1 ! i)"
    using i lt roll(2) by (simp add: s1(1) all_voted_def fresh_def del: of_nat_Suc)
  moreover have "needed g i (Suc k) st s1" using s1(1,2) by (auto simp: needed_def)
  ultimately show ?case using Suc.IH[of "Suc k" s1] Suc.prems(2) s1(3) by simp
qed

text \<open>Property C18: whatever happens to the loots and rolls of a group and in which order, the votes recorded in a roll are
  covered by its totals, all its counters stay within the 40 members of a group, its slot is inside of its loot, and no vote,
  leaving member or timer reads an item behind the end. As long as no player answers a roll twice the totals are exactly the
  votes recorded, and the number of players exactly those who were asked and have not left. (The code does not prevent a
  second answer.)\<close>
theorem rolls_stay_sound:
  assumes "rolls_reached once st"
  shows "rolls_ok st \<and> (once \<longrightarrow> all_exact st)
       \<and> CountRollVote E g item c st \<noteq> Inl OutsideLoot \<and> leave_rolls E g st \<noteq> Inl OutsideLoot
       \<and> EndRoll E a allowedMap st \<noteq> Inl OutsideLoot"
  using rolls_reached_ok[OF assms] rolls_reached_exact[OF assms] CountRollVote_inside leave_loop_inside end_rolls_inside
  by (simp add: leave_rolls_def EndRoll_def)

text \<open>Property C17: a roll that is counted is gone. The item goes to the first of the highest numbers drawn for need by players
  who are there, with no such player to the first of the highest for greed and disenchanting; one result is announced to
  those who roll, and the item is handed out once, or kept for the winner in the loot when his bags are full. With nobody there
  the item is open to all. The one exception is a roll whose players have all left and that still has a total for need or
  greed, because one of them had answered more than once: then nothing is announced and the item stays blocked.\<close>
theorem the_highest_number_wins:
  assumes "rolls_reached once st" and "i < length (rs_rolls st)" and "getLoot (rs_loots st) (rs_rolls st ! i) = Some l"
    and "ordinary E (rs_rolls st ! i)"
  shows "(if ro_playerVote (rs_rolls st ! i) = [] \<and> (ro_totalNeed (rs_rolls st ! i) \<noteq> 0 \<or> ro_totalGreed (rs_rolls st ! i) \<noteq> 0)
          then \<not> once \<and> CountTheRoll E i allowedMap st = Inr (erase_roll i st)
          else \<exists>a msgs. ro_loot (rs_rolls st ! i) = Some a
            \<and> CountTheRoll E i allowedMap st
              = Inr (erase_roll i (st\<lparr>rs_loots := (rs_loots st)(a \<mapsto> fst (handed E (rs_rolls st ! i) (roll_result E allowedMap (rs_rolls st ! i)) l)),
                                     rs_out := rs_out st @ msgs\<rparr>))
            \<and> filter verdict msgs = snd (handed E (rs_rolls st ! i) (roll_result E allowedMap (rs_rolls st ! i)) l))
       \<and> (case roll_result E allowedMap (rs_rolls st ! i) of
            None \<Rightarrow> present E allowedMap {NEED, GREED, DISENCHANT} (ro_playerVote (rs_rolls st ! i)) = []
          | Some (g, v) \<Rightarrow>
              (g, v) \<in> set (present E allowedMap {NEED, GREED, DISENCHANT} (ro_playerVote (rs_rolls st ! i)))
            \<and> (\<forall>(h, w) \<in> set (present E allowedMap {NEED, GREED, DISENCHANT} (ro_playerVote (rs_rolls st ! i))).
                 if w = NEED then v = NEED \<and> le_draw E (ro_itemGUID (rs_rolls st ! i)) h \<le> le_draw E (ro_itemGUID (rs_rolls st ! i)) g
                 else v \<noteq> NEED \<longrightarrow> le_draw E (ro_itemGUID (rs_rolls st ! i)) h \<le> le_draw E (ro_itemGUID (rs_rolls st ! i)) g))"
    (is "?counts \<and> ?best")
proof
  let ?r = "rs_rolls st ! i"
  have ok: "roll_ok (rs_loots st) ?r"
    using rolls_reached_ok[OF assms(1)] assms(2) by (simp add: rolls_ok_def)
  obtain a where a: "ro_loot ?r = Some a" using assms(3) by (auto simp: getLoot_def split: option.splits)
  have slot: "slot_item l (ro_itemSlot ?r) \<noteq> None" unfolding slot_item_Some using roll_ok_slot[OF ok assms(3)] .
  show ?counts
  proof (cases "ro_playerVote ?r = []")
    case True
    have "roll_result E allowedMap ?r = None" using True by (simp add: roll_result_def present_def)
    moreover have "ro_totalNeed ?r = 0 \<and> ro_totalGreed ?r = 0" if once
    proof -
      have "exact ?r" using rolls_reached_exact[OF assms(1) that] assms(2) by (simp add: all_exact_def)
      then show ?thesis using True by (simp add: exact_def count_votes_def unat_eq_zero)
    qed
    ultimately show ?thesis
      using True a CountTheRoll_no_votes[OF assms(3) True] CountTheRoll_none_voted[OF assms(3) a slot True] by auto
  next
    case False
    then show ?thesis using CountTheRoll_result[OF assms(3) a slot assms(4) _ False] ok a by (simp add: roll_ok_def)
  qed
  show ?best by (rule roll_result_best)
qed

theorem rolls_stay_sound_witness: "rolls_ok demo_voted \<and> all_exact demo_voted"
  using rolls_stay_sound[OF demo_voted_reached] by blast

lemma demo_voted_roll:
  "0 < length (rs_rolls demo_voted)" "ro_playerVote (rs_rolls demo_voted ! 0) = [(1, NEED), (2, GREED), (3, NOT_EMITED_YET)]"
  "ro_itemGUID (rs_rolls demo_voted ! 0) = 7" "ro_itemid (rs_rolls demo_voted ! 0) = 117"
  by code_simp+

lemma demo_opened_roll:
  "0 < length (rs_rolls demo_opened)" "GetRoll 7 demo_opened = Some 0" "ro_totalPlayersRolling (rs_rolls demo_opened ! 0) = 3"
  "length (rs_rolls demo_opened) = 1" "ro_itemid (rs_rolls demo_opened ! 0) = 117"
  "\<exists>l. getLoot (rs_loots demo_opened) (rs_rolls demo_opened ! 0) = Some l \<and> lo_items l \<noteq> []"
proof -
  have "case getLoot (rs_loots demo_opened) (rs_rolls demo_opened ! 0) of None \<Rightarrow> False | Some l \<Rightarrow> lo_items l \<noteq> []" by code_simp
  then show "\<exists>l. getLoot (rs_loots demo_opened) (rs_rolls demo_opened ! 0) = Some l \<and> lo_items l \<noteq> []"
    by (auto split: option.splits)
qed code_simp+

lemma demo_voted_loot: "getLoot (rs_loots demo_voted) (rs_rolls demo_voted ! 0) \<noteq> None"
  by code_simp

theorem the_highest_number_wins_witness:
  "\<exists>st1. CountTheRoll demo_env 0 None demo_voted = Inr st1 \<and> StoreNewItem 1 117 \<in> set (rs_out st1)
     \<and> roll_result demo_env None (rs_rolls demo_voted ! 0) = Some (1, NEED)"
proof -
  obtain l where l: "getLoot (rs_loots demo_voted) (rs_rolls demo_voted ! 0) = Some l" using demo_voted_loot by blast
  have ord: "ordinary demo_env (rs_rolls demo_voted ! 0)" and votes: "ro_playerVote (rs_rolls demo_voted ! 0) \<noteq> []"
    by (simp_all add: ordinary_def demo_voted_roll demo_env_def)
  have res: "roll_result demo_env None (rs_rolls demo_voted ! 0) = Some (1, NEED)"
    by code_simp
  obtain a msgs where "CountTheRoll demo_env 0 None demo_voted
      = Inr (erase_roll 0 (demo_voted\<lparr>rs_loots := (rs_loots demo_voted)(a \<mapsto> fst (handed demo_env (rs_rolls demo_voted ! 0) (Some (1, NEED)) l)),
                                     rs_out := rs_out demo_voted @ msgs\<rparr>))"
    and "filter verdict msgs = snd (handed demo_env (rs_rolls demo_voted ! 0) (Some (1, NEED)) l)"
    using the_highest_number_wins[OF demo_voted_reached demo_voted_roll(1) l ord, of None] votes unfolding res by auto
  moreover have "StoreNewItem 1 117 \<in> set (snd (handed demo_env (rs_rolls demo_voted ! 0) (Some (1, NEED)) l))"
    by (simp add: demo_voted_roll demo_env_def)
  ultimately show ?thesis using res by (simp add: erase_roll_def) (metis filter_is_subset subsetD)
qed

text \<open>Property C27: when the timer of a looted object runs out, all rolls that are linked to its loot end, and the others stay as
  they are, also those whose loot was cleared.\<close>
theorem the_timer_ends_every_roll:
  assumes "rolls_reached once st" and "\<forall>r \<in> set (rs_rolls st). le_template E (ro_itemid r) \<noteq> None"
  shows "\<exists>st1. EndRoll E a allowedMap st = Inr st1 \<and> rs_rolls st1 = filter (\<lambda>r. \<not> linked_to (rs_loots st) a r) (rs_rolls st)
           \<and> (\<forall>r \<in> set (rs_rolls st). ro_loot r = None \<longrightarrow> r \<in> set (rs_rolls st1))"
  using end_rolls_ends[of st E "length (rs_rolls st)" a allowedMap] rolls_reached_ok[OF assms(1)] assms(2)
  unfolding EndRoll_def by (fastforce simp: linked_to_def)

theorem the_timer_ends_every_roll_witness: "\<exists>st1. EndRoll demo_env 0 (Some 0) demo_voted = Inr st1 \<and> rs_rolls st1 = []"
proof -
  have "\<forall>r \<in> set (rs_rolls demo_voted). le_template demo_env (ro_itemid r) \<noteq> None" by (simp add: demo_env_def)
  moreover have "filter (\<lambda>r. \<not> linked_to (rs_loots demo_voted) 0 r) (rs_rolls demo_voted) = []" by code_simp
  ultimately show ?thesis
    using the_timer_ends_every_roll[OF demo_voted_reached, of demo_env 0 "Some 0"] by auto
qed

text \<open>Property C28: a roll whose loot was cleared never ends. Votes do not find it, timers do not match it and the check that
  would remove it is behind both; whatever happens afterwards, and to whichever loot, the group has an active roll.\<close>
theorem cleared_rolls_stay:
  assumes "r \<in> set (rs_rolls st)" and "ro_loot r = Some a" and "(roll_step once)\<^sup>*\<^sup>* (Loot_clear a st) st1"
  shows "isRollLootActive st1 \<and> (\<exists>r1 \<in> set (rs_rolls st1). ro_itemGUID r1 = ro_itemGUID r \<and> \<not> isValid (rs_loots st1) r1)"
proof -
  have "cut_off (ro_itemGUID r) st1"
    using assms(3)
  proof (induction rule: rtranclp_induct)
    case base
    have "r\<lparr>ro_loot := None\<rparr> \<in> set (rs_rolls (Loot_clear a st))"
      using assms(1,2) by (auto simp: Loot_clear_def image_iff intro!: bexI[of _ r])
    then show ?case unfolding cut_off_def by (intro bexI) simp_all
  next
    case (step st2 st3)
    then show ?case using roll_step_cut_off by blast
  qed
  then show ?thesis by (force simp: cut_off_def isRollLootActive_def isValid_def getLoot_def)
qed

theorem cleared_rolls_stay_witness:
  "\<exists>st1. EndRoll demo_env 0 (Some 0) (Loot_clear 0 demo_voted) = Inr st1 \<and> isRollLootActive st1"
proof -
  have at: "ro_loot (rs_rolls demo_voted ! 0) = Some 0" by code_simp
  have "\<not> isl (EndRoll demo_env 0 (Some 0) (Loot_clear 0 demo_voted))" by code_simp
  then obtain st1 where end_: "EndRoll demo_env 0 (Some 0) (Loot_clear 0 demo_voted) = Inr st1"
    by (cases "EndRoll demo_env 0 (Some 0) (Loot_clear 0 demo_voted)") auto
  have "(roll_step True)\<^sup>*\<^sup>* (Loot_clear 0 demo_voted) st1" using timer[OF end_] by blast
  then show ?thesis
    using cleared_rolls_stay[OF nth_mem[OF demo_voted_roll(1)] at] end_ by blast
qed

text \<open>Property C30: a vote is not refused to a player who has voted already. One player who answers as often as there are players
  ends the roll alone and gets the item, before anybody else has answered.\<close>
theorem one_player_ends_a_roll:
  assumes roll: "GetRoll item st = Some i" "fresh (rs_rolls st ! i)"
    and g: "smap_find (ro_playerVote (rs_rolls st ! i)) g \<noteq> None" "FindPlayer E g" "le_canStore E item g = EQUIP_ERR_OK"
    and loot: "getLoot (rs_loots st) (rs_rolls st ! i) = Some l" "lo_items l \<noteq> []"
    and ok: "roll_ok (rs_loots st) (rs_rolls st ! i)" and ord: "ordinary E (rs_rolls st ! i)"
  shows "\<exists>st1. vote_often E g item ROLL_NEED (unat (ro_totalPlayersRolling (rs_rolls st ! i))) st = Inr st1
           \<and> rs_rolls st1 = take i (rs_rolls st) @ drop (Suc i) (rs_rolls st)
           \<and> StoreNewItem g (ro_itemid (rs_rolls st ! i)) \<in> set (rs_out st1)"
proof -
  let ?r = "rs_rolls st ! i"
  let ?n = "ro_totalPlayersRolling ?r"
  let ?r1 = "?r\<lparr>ro_totalNeed := ?n, ro_playerVote := smap_put g NEED (ro_playerVote ?r)\<rparr>"
  have i: "i < length (rs_rolls st)" "ro_itemGUID ?r = item" using GetRoll_Some[OF roll(1)] by blast+
  have inv: "smap_inv (ro_playerVote ?r)" and len: "length (ro_playerVote ?r) \<le> unat ?n" using ok by (auto simp: roll_ok_def)
  have known: "(g, NOT_EMITED_YET) \<in> set (ro_playerVote ?r)"
    using g(1) roll(2) smap_find_SomeD by (fastforce simp: fresh_def)
  then obtain n where n: "unat ?n = Suc n" using len by (cases "unat ?n") auto
  have "?r\<lparr>ro_totalNeed := of_nat 0, ro_playerVote := ro_playerVote ?r\<rparr> = ?r"
    using roll(2) by (cases ?r) (simp add: fresh_def)
  then have "needed g i 0 st st"
    unfolding needed_def by (intro exI[of _ "ro_playerVote ?r"]) (simp only: list_update_id simp_thms)
  from vote_often_needed[OF roll g(1) inv loot this, of n E] obtain s1 where
    s1: "vote_often E g item ROLL_NEED (unat ?n) st = CountTheRoll E i None s1"
      "rs_rolls s1 = (rs_rolls st)[i := ?r1]" "rs_loots s1 = rs_loots st"
    using n by auto
  have at: "rs_rolls s1 ! i = ?r1" using s1(2) i(1) by simp
  obtain a where a: "ro_loot ?r = Some a" using loot(1) by (auto simp: getLoot_def split: option.splits)
  have slot: "slot_item l (ro_itemSlot ?r1) \<noteq> None"
    unfolding slot_item_Some using roll_ok_slot[OF ok loot(1)] by simp
  have none: "count_votes W (ro_playerVote ?r) = 0" if "NOT_EMITED_YET \<notin> W" for W
    using roll(2) that by (fastforce simp: fresh_def count_votes_def filter_empty_conv)
  have cnt: "counted ?r1"
    using count_votes_put[of "{NEED}" g NEED "ro_playerVote ?r"] count_votes_put[of "{GREED, DISENCHANT}" g NEED "ro_playerVote ?r"]
      count_votes_put[of "{PASS}" g NEED "ro_playerVote ?r"] none n by (simp add: counted_def)
  have put: "set (smap_put g NEED (ro_playerVote ?r)) \<subseteq> insert (g, NEED) (set (ro_playerVote ?r))" by (rule set_smap_put_le)
  have ord1: "ordinary E ?r1" using ord put known by (fastforce simp: ordinary_def)
  have "present E None {NEED} (ro_playerVote ?r1) = [(g, NEED)]"
    using present_put[of "ro_playerVote ?r" "{NEED}" NEED E None g] roll(2) g(2) by (auto simp: fresh_def absent_def)
  then have res: "roll_result E None ?r1 = Some (g, NEED)" by (simp add: roll_result_def)
  have at1: "getLoot (rs_loots st) ?r1 = Some l" "ro_loot ?r1 = Some a" "ro_playerVote ?r1 \<noteq> []"
    using loot(1) a smap_put_not_Nil by (simp_all add: getLoot_def)
  from CountTheRoll_result[of s1 i l a E None, unfolded at s1(3) res, OF at1(1,2) slot ord1 cnt at1(3)]
  obtain msgs where msgs: "CountTheRoll E i None s1 = Inr (erase_roll i (s1\<lparr>rs_loots := (rs_loots st)(a \<mapsto> fst (handed E ?r1 (Some (g, NEED)) l)),
        rs_out := rs_out s1 @ msgs\<rparr>))" "filter verdict msgs = snd (handed E ?r1 (Some (g, NEED)) l)"
    by blast
  have "StoreNewItem g (ro_itemid ?r) \<in> set (filter verdict msgs)" using msgs(2) g(3) i(2) by simp
  then show ?thesis using s1(1,2) msgs(1) by (simp add: erase_roll_def)
qed

theorem one_player_ends_a_roll_witness:
  "\<exists>st1. vote_often demo_env 2 7 ROLL_NEED 3 demo_opened = Inr st1 \<and> rs_rolls st1 = [] \<and> StoreNewItem 2 117 \<in> set (rs_out st1)"
proof -
  obtain l where l: "getLoot (rs_loots demo_opened) (rs_rolls demo_opened ! 0) = Some l" "lo_items l \<noteq> []"
    using demo_opened_roll(6) by blast
  have "roll_ok (rs_loots demo_opened) (rs_rolls demo_opened ! 0)"
    using rolls_reached_ok[OF demo_opened_reached] demo_opened_roll(1) by (simp add: rolls_ok_def)
  moreover have "fresh (rs_rolls demo_opened ! 0)" "ordinary demo_env (rs_rolls demo_opened ! 0)" by code_simp+
  moreover have "FindPlayer demo_env 2" "le_canStore demo_env 7 2 = EQUIP_ERR_OK" by code_simp+
  moreover have "smap_find (ro_playerVote (rs_rolls demo_opened ! 0)) 2 \<noteq> None" by code_simp
  ultimately show ?thesis
    using one_player_ends_a_roll[OF demo_opened_roll(2), of 2 demo_env l] l demo_opened_roll by simp
qed

section \<open>Rolls that do not end\<close>

text \<open>
  One player votes need twice, then all who were asked leave: the total for need stays 1 with no vote behind it. The timer takes
  the roll away without an announcement, and the item is neither won nor open.
\<close>

lemma roll_step_all: "roll_step True st st1 \<Longrightarrow> roll_step False st st1"
  by (induction rule: roll_step.induct) (auto intro: roll_step.intros)

lemma rolls_reached_all: "rolls_reached True st \<Longrightarrow> rolls_reached False st"
  by (induction rule: rolls_reached.induct) (auto intro: rolls_reached.intros roll_step_all)

definition demo_twice :: roll_state where
  "demo_twice = projr (CountRollVote demo_env 1 7 ROLL_NEED demo_first)"

definition demo_left :: roll_state where
  "demo_left = demo_twice\<lparr>rs_rolls := map (without 3 \<circ> without 2 \<circ> without 1) (rs_rolls demo_twice)\<rparr>"

lemma demo_left_reached: "rolls_reached False demo_left"
proof -
  have vote1: "\<not> isl (CountRollVote demo_env 1 7 ROLL_NEED demo_opened)" and vote2: "\<not> isl (CountRollVote demo_env 1 7 ROLL_NEED demo_first)"
    by code_simp+
  have "CountRollVote demo_env 1 7 ROLL_NEED demo_opened = Inr demo_first" using vote1 by (simp add: demo_first_def)
  moreover have "CountRollVote demo_env 1 7 ROLL_NEED demo_first = Inr demo_twice" using vote2 by (simp add: demo_twice_def)
  ultimately have "rolls_reached False demo_twice"
    using one_more[OF one_more[OF rolls_reached_all[OF demo_opened_reached] vote] vote] by blast
  moreover have gone: "rolls_reached False (st\<lparr>rs_rolls := map (without g) (rs_rolls st)\<rparr>)"
    if "rolls_reached False st" "length (rs_rolls st) = 1" for g st
    using one_more[OF that(1) leave[OF leave_rolls_without[of st demo_env g]]] that(2) by (cases "rs_rolls st") auto
  moreover have one: "length (rs_rolls demo_twice) = 1" by code_simp
  ultimately have "rolls_reached False (demo_twice\<lparr>rs_rolls := map (without 1) (rs_rolls demo_twice)\<rparr>)" by blast
  from gone[OF gone[OF this], of 2 3] one show ?thesis by (simp add: demo_left_def comp_assoc)
qed

theorem item_blocked_for_ever:
  "case EndRoll demo_env 0 (Some 0) demo_left of
     Inl e \<Rightarrow> False
   | Inr st1 \<Rightarrow> rs_rolls st1 = [] \<and> rs_out st1 = rs_out demo_left
       \<and> (case rs_loots st1 0 of None \<Rightarrow> False | Some l \<Rightarrow> list_all (\<lambda>li. li_is_blocked li \<and> \<not> li_is_looted li \<and> li_rollWinnerGUID li = 0) (lo_items l))"
  by code_simp

text \<open>
  The last player whose answer is missing leaves: the vote is erased first, so that the count that follows finds no vote of
  his and returns. The roll is complete and stays open until the timer.
\<close>

theorem leaving_ends_no_roll:
  assumes "distinct (map ro_itemGUID (rs_rolls st))" and "r \<in> set (rs_rolls st)"
    and "smap_find (ro_playerVote r) g = Some NOT_EMITED_YET" and "Suc (votes_cast r) = unat (ro_totalPlayersRolling r)"
  shows "\<exists>st1 r1. leave_rolls E g st = Inr st1 \<and> rs_out st1 = rs_out st \<and> length (rs_rolls st1) = length (rs_rolls st)
           \<and> r1 \<in> set (rs_rolls st1) \<and> ro_itemGUID r1 = ro_itemGUID r \<and> all_voted r1"
proof -
  have "all_voted (without g r)"
    using assms(3,4) by (simp add: without_def forget_vote_def Let_def all_voted_def votes_cast_def unat_minus_one8)
  moreover have "ro_itemGUID (without g r) = ro_itemGUID r" using assms(3) by (simp add: without_def)
  ultimately show ?thesis using leave_rolls_without[OF assms(1), of E g] assms(2) by force
qed

text \<open>Votes for the quest items of a loot without other items are dropped: nobody can win such a roll.\<close>

theorem quest_rolls_take_no_votes:
  "GetRoll item st = Some i \<Longrightarrow> getLoot (rs_loots st) (rs_rolls st ! i) = Some l \<Longrightarrow> lo_items l = [] \<Longrightarrow>
     CountRollVote E g item c st = Inr st"
  by (simp add: CountRollVote_def Let_def)

end
