(* ===== verification/Spec2Isabelle.thy ===== *)
theory Spec2Isabelle
  imports StdContainers RBAC EventMap Storing ChatRules LFGSafety Guids WorldStream WorldSend LogonWorld GroupRules
begin

text \<open>
  Verification of parts of a World of Warcraft server of the TrinityCore family, for clients of version 3.3.5.

  \<^bold>\<open>The program.\<close> Two programs serve a client. The realm server (\<open>src/server/authserver\<close>) proves the password with
  the SRP6 protocol, stores the session key in the account's row and tells the client which realms there are. The
  world server (\<open>src/server/worldserver\<close> and \<open>src/server/game\<close>) lets the client in when it knows the session
  key, and then runs the game on the packets it receives. All of it rests on \<open>src/common\<close> and
  \<open>src/server/shared\<close>: byte buffers, sockets, numbers, text. The development follows this path, and models the
  parts of the game whose rules are their own and do not hang on the data of the game client.

  \<^bold>\<open>Shared.\<close> \<open>Prelude\<close>: machine integers as words, generic lemmas, the collections of rewrite rules. \<open>StdContainers\<close>:
  \<open>std::set\<close>, \<open>std::map\<close> and \<open>std::multimap\<close> as ordered sequences, with the laws clients rely on as the locales
  \<open>std_set_api\<close>, \<open>std_map_api\<close> and \<open>std_multimap_api\<close>, each interpreted on the sequences. \<open>TextUtil\<close>: numbers in text
  (\<open>Common.h\<close>, \<open>Util.cpp\<close>). \<open>Buffers\<close>: \<open>MessageBuffer\<close> and \<open>ByteBuffer\<close>, fields of packets and back. \<open>Guids\<close>:
  \<open>ObjectGuid\<close> and packed guids. \<open>BigNumbers\<close>: \<open>BigNumber\<close> and \<open>SHA1Hash\<close> over the functions of OpenSSL.

  \<^bold>\<open>Login.\<close> \<open>Totp\<close> is \<open>TOTP.cpp\<close>. \<open>Logon\<close> is a session of the realm server (\<open>AuthSession.cpp\<close>, \<open>AuthCodes.cpp\<close>,
  \<open>Realm.cpp\<close>): the state \<open>LogonSession\<close> is the object, \<open>logon_step\<close> what happens to it (bytes arrive, a query is
  answered), \<open>logon_run\<close> any sequence of that. \<open>LogonSafety\<close> proves an invariant of all runs: no access outside of a
  buffer, loops that end. \<open>LogonProof\<close> adds the client's side: who knows the password is let in, with the same key
  on both sides, and nobody is let in without a proof. \<open>LogonErrors\<close> holds what goes wrong. \<open>WorldAuth\<close> is the login
  at the world server, and \<open>LogonWorld\<close> joins both: the key of the realm server is the key the world server checks.

  \<^bold>\<open>Connection.\<close> \<open>WorldSocket\<close> models \<open>WorldSocket.cpp\<close> and \<open>Socket.h\<close>: cutting packets out of received bytes, and the
  handling of each. \<open>WorldStream\<close> proves that it is a function of the stream of bytes and not of the pieces it arrives
  in, and stays inside its buffers. \<open>WorldSend\<close> is the sending side, with the client that reads it back.

  \<^bold>\<open>Rights.\<close> \<open>RBAC\<close> is \<open>Accounts/RBAC.cpp\<close> and the commands of \<open>AccountMgr.cpp\<close> over it: the effective permissions are
  those reachable over links from the granted ones, without the denied ones.

  \<^bold>\<open>Inventory.\<close> \<open>Items\<close> (\<open>Item.cpp\<close>, \<open>Bag.cpp\<close>, queries of \<open>Player.cpp\<close>), \<open>CanStore\<close> (\<open>CanStoreItem\<close> with its searches)
  and \<open>Storing\<close> (\<open>StoreItem\<close>, \<open>StoreNewItem\<close>). What \<open>CanStore\<close> answers is what \<open>Storing\<close> needs; \<open>Storing\<close> refines an
  abstract map from cells to stacks (\<open>inventory\<close>, \<open>store_at\<close>).

  \<^bold>\<open>Chat.\<close> \<open>ChatChannel\<close> (\<open>Channel.cpp\<close>, all operations) and \<open>ChatRules\<close>: the invariant of the reachable channels
  (\<open>chan_reach\<close>: all handled commands but those in which an owner kicks or bans himself, and until the last member has
  left and the channel manager deletes it), who may change what, who hears whom, saving and loading, and what an owner
  who kicks himself does.

  \<^bold>\<open>Dungeon finder.\<close> \<open>LFGRoles\<close> (the role check), \<open>LFGQueue\<close> and \<open>LFGSearch\<close> (\<open>LFGQueue.cpp\<close>), \<open>LFGMatch\<close> and \<open>LFGKeep\<close> (what
  a search promises), \<open>LFGData\<close>, \<open>LFGManager\<close> (\<open>LFGMgr.cpp\<close>), \<open>LFGRules\<close> and \<open>LFGSafety\<close> (the reachable states of the
  manager under \<open>lfg_step\<close>). A relation every turn of a search keeps is the contract \<open>queue_relation\<close>, extended to the
  whole search by \<open>queue_turns\<close>; \<open>proposal_promise\<close> gives both (by \<open>sublocale\<close>) for promises about proposals. They are
  interpreted on the model for well-formed proposals, for groups of five roles and for the waiting players, and from
  these interpretations the properties follow. A guid waits or is proposed after a search but for cached answers that
  are no longer true (\<open>stale\<close>); a search makes none of these, and a lemma shows how one loses a guid.

  \<^bold>\<open>Loot of a group.\<close> \<open>GroupLoot\<close> is the loot system of \<open>Group.cpp\<close>: the state \<open>roll_state\<close> holds the rolls (\<open>RollId\<close>)
  and the loots they are linked to; \<open>linked_to\<close> is the comparison of a roll's loot, a link that \<open>Loot_clear\<close> cuts.
  \<open>GroupRolls\<close> compares the count of a roll with a reference for its winner (\<open>roll_result\<close>, \<open>handed\<close>) and proves what
  all operations keep (\<open>rolls_ok\<close>). \<open>GroupRules\<close> is about the states reached under \<open>roll_step once\<close>, where \<open>once\<close> picks the runs in which nobody answers a roll twice (then the totals are exactly
  the recorded votes): who wins, that the timer ends every roll of its loot and no other, that a roll whose loot was
  cleared never ends, and how a roll ends too early.

  \<^bold>\<open>Scripts.\<close> \<open>EventMap\<close>: the timed events of creature scripts (\<open>EventMap.cpp\<close>).

  \<^bold>\<open>How the code is written here.\<close> Objects are records, containers ordered lists, integers words of their width.
  Exceptions, failed assertions and accesses outside of a buffer are error values of a sum type, so that a proof that
  a call succeeds is a proof that none of them happens. Messages to clients and statements for the database are
  collected in lists, in order. Random numbers, the clock, configuration, rows of the database and what the rest of
  the world answers (\<open>lfg_env\<close>, \<open>dungeon_env\<close>, \<open>lfg_view\<close>, \<open>world\<close>, \<open>socket_env\<close>, \<open>auth_env\<close>, \<open>logon_env\<close>, \<open>loot_env\<close>) are
  arguments.

  \<^bold>\<open>Parameters.\<close> Code that is not in the repository is never defined: OpenSSL's numbers and hashes are the record
  \<open>openssl\<close>, with its manual as the hypothesis \<open>documented_ssl\<close> (which says nothing of what the hashes give but their
  length; \<open>sample_ssl\<close> shows that it can hold); ARC4, HMAC and \<open>uncompress\<close> of zlib are fields of the environments;
  so are the conversion of names to upper case, which is made with a vendored UTF-8 library, and Boost's addresses.

  \<^bold>\<open>Bounds.\<close> Loops whose end is not plain from their arguments: the expansion of permissions ends because every
  round adds a permission of the store; the search of the dungeon finder (\<open>search_loop\<close>) takes the length of its list
  as fuel, which each round shortens (\<open>search_loop_fuel\<close>: more changes nothing; \<open>search_loop_equation\<close>: the loop without
  fuel); the role check takes a bound on the depth of its calls, more than the sum of the masks of the roles, and is
  None when that is not enough (\<open>CheckGroupRoles_returns\<close>: it always is, and the answer does not depend on it); the
  read loop of the world server takes the number of received bytes and one more round, each of which takes a byte;
  the read loop of the realm server takes 4 rounds, because each handled command leads to a later state;
  the timer of a looted object takes one round for each roll.
  For the read loops running out is an error value, and the properties show that it does not occur.

  \<^bold>\<open>Properties.\<close> The theorems with a text that begins with a property's number are the properties; theorems without
  free hypotheses behind them with \<open>_witness\<close> in their name apply them to concrete inputs. Where the code does not do
  what it means to, the property states what it does: a token behind its proof, addon lists of one byte, a player who
  ends a roll alone, rolls of a cleared loot that never end, a kick of oneself from a channel, a player of the dungeon
  finder who is refused on asking again; and lemmas state the list of realms that leaves its buffer, the realms the
  oldest clients see, one player in two proposals, a guid that a stale answer loses, an item that stays blocked for
  ever, and rolls that a leaving player leaves open or that take no votes.

  \<^bold>\<open>Not modelled.\<close> Units, spells and auras, maps, movement and collision, battlegrounds, artificial intelligence and
  the scripts of the game: they compute with floating point numbers over the client's data files and tables of the
  database that are not in the repository. Quests, the drawing of loot, mail, auctions, guilds, the membership of groups,
  achievements and the rest of the player: rows and packets over the former. The packet handlers of a session, the database layer, threads, logs,
  start-up and configuration are glue around system libraries. Of the modelled parts the following is missing:
  enchantments, durability, trading, equipping and removing items; the channel manager; teleporting and rewards of the
  dungeon finder; floating point fields of packets; the completion ports of Windows. Where several threads share an
  object, the models run its operations one after the other, as the owning thread does.
\<close>

end
